(* ===== verification/Prelude.thy ===== *)
theory Prelude
  imports Complex_Main "HOL-Library.Multiset"
begin

text \<open>
  Shared vocabulary of the development: the errors a Python operation raises, results that are
  an error or a value, the list and sorting operations of the Python standard library that
  several components use, and the generic lemmas their proofs share.
\<close>

section \<open>Errors and results\<close>

text \<open>A raised exception is the left value of a sum, a returned value the right one.\<close>

datatype py_error =
    AssertionError
  | AttributeError
  | FileNotFoundError
  | IndexError
  | KeyError
  | NotImplementedError
  | RuntimeError
  | TypeError
  | ValueError
  | ZeroDivisionError

type_synonym 'a res = "py_error + 'a"

named_theorems res_simps \<open>evaluation of results\<close>

definition require :: "bool \<Rightarrow> py_error \<Rightarrow> 'a res \<Rightarrow> 'a res" where
  "require b e r = (if b then r else Inl e)"

definition bind_res :: "'a res \<Rightarrow> ('a \<Rightarrow> 'b res) \<Rightarrow> 'b res" where
  "bind_res r f = (case r of Inl e \<Rightarrow> Inl e | Inr x \<Rightarrow> f x)"

lemma require_simps [simp, res_simps]:
  "require True e r = r"
  "require False e r = Inl e"
  by (simp_all add: require_def)

lemma require_eq_Inr [simp]: "require b e r = Inr x \<longleftrightarrow> b \<and> r = Inr x"
  by (simp add: require_def)

lemma bind_res_simps [simp, res_simps]:
  "bind_res (Inl e) f = Inl e"
  "bind_res (Inr x) f = f x"
  by (simp_all add: bind_res_def)

lemma bind_res_eq_Inr: "bind_res r f = Inr y \<longleftrightarrow> (\<exists>x. r = Inr x \<and> f x = Inr y)"
  by (cases r) simp_all

text \<open>A comprehension whose element computation may raise stops at the first error.\<close>

fun map_res :: "('a \<Rightarrow> 'b res) \<Rightarrow> 'a list \<Rightarrow> 'b list res" where
  "map_res f [] = Inr []"
| "map_res f (x # xs) = bind_res (f x) (\<lambda>y. bind_res (map_res f xs) (\<lambda>ys. Inr (y # ys)))"

lemma map_res_Inr: "(\<And>x. x \<in> set xs \<Longrightarrow> f x = Inr (g x)) \<Longrightarrow> map_res f xs = Inr (map g xs)"
  by (induction xs) auto

lemma map_res_length: "map_res f xs = Inr ys \<Longrightarrow> length ys = length xs"
  by (induction xs arbitrary: ys) (auto simp: bind_res_eq_Inr)

lemma map_res_nth: "map_res f xs = Inr ys \<Longrightarrow> i < length xs \<Longrightarrow> f (xs ! i) = Inr (ys ! i)"
proof (induction xs arbitrary: ys i)
  case (Cons x xs)
  then show ?case by (cases i) (auto simp: bind_res_eq_Inr)
qed simp

lemma map_res_mem:
  assumes "map_res f xs = Inr ys" "y \<in> set ys"
  obtains x where "f x = Inr y"
  using assms by (induction xs arbitrary: ys) (auto simp: bind_res_eq_Inr)

section \<open>Python lists\<close>

text \<open>
  \<open>xs[-n:]\<close> for \<open>n \<ge> 1\<close> is \<open>py_tail n xs\<close>: the last \<open>n\<close> elements, or all of them when there
  are fewer.  \<open>xs[a:b]\<close> with \<open>0 \<le> a\<close> is \<open>py_slice a b xs\<close>.
\<close>

definition py_tail :: "nat \<Rightarrow> 'a list \<Rightarrow> 'a list" where
  "py_tail n xs = drop (length xs - n) xs"

definition py_slice :: "nat \<Rightarrow> nat \<Rightarrow> 'a list \<Rightarrow> 'a list" where
  "py_slice a b xs = take (b - a) (drop a xs)"

text \<open>\<open>t[-n:]\<close> is all of \<open>t\<close> when \<open>n = 0\<close>.\<close>

definition last_n :: "nat \<Rightarrow> 'a list \<Rightarrow> 'a list" where
  "last_n n t = (if n = 0 then t else py_tail n t)"

lemma length_py_tail [simp]: "length (py_tail n xs) = min n (length xs)"
  by (simp add: py_tail_def)

lemma py_tail_suffix: "\<exists>ys. xs = ys @ py_tail n xs"
  unfolding py_tail_def by (metis append_take_drop_id)

lemma py_tail_all: "length xs \<le> n \<Longrightarrow> py_tail n xs = xs"
  by (simp add: py_tail_def)

lemma py_tail_append: "py_tail n (py_tail n xs @ ys) = py_tail n (xs @ ys)"
proof (cases "length xs \<le> n")
  case False
  then have "length (py_tail n xs) = n" by simp
  then show ?thesis using False by (cases "length ys \<le> n") (auto simp: py_tail_def add.commute)
qed (simp add: py_tail_all)

lemma map_py_tail: "map f (py_tail n xs) = py_tail n (map f xs)"
  by (simp add: py_tail_def drop_map)

lemma set_py_tail: "set (py_tail n xs) \<subseteq> set xs"
  unfolding py_tail_def by (rule set_drop_subset)

lemma last_n_append: "ys \<noteq> [] \<Longrightarrow> last_n (length ys) (xs @ ys) = ys"
  by (simp add: last_n_def py_tail_def)

lemma length_py_slice [simp]: "length (py_slice a b xs) = min (b - a) (length xs - a)"
  by (simp add: py_slice_def)

text \<open>
  \<open>xs[::2]\<close> and \<open>xs[1::2]\<close>.
\<close>

fun evens :: "'a list \<Rightarrow> 'a list" where
  "evens [] = []"
| "evens [x] = [x]"
| "evens (x # y # zs) = x # evens zs"

definition odds :: "'a list \<Rightarrow> 'a list" where
  "odds xs = evens (tl xs)"

lemma odds_simps [simp]: "odds [] = []" "odds (x # xs) = evens xs"
  by (simp_all add: odds_def)

lemma evens_Cons: "evens (x # xs) = x # odds xs"
  by (cases xs) auto

lemma mset_evens_odds: "mset (evens xs) + mset (odds xs) = mset xs"
  by (induction xs) (auto simp: evens_Cons add.commute)

text \<open>
  Consecutive chunks of \<open>n\<close> elements, the last one possibly shorter
  (\<open>[xs[o:o+n] for o in range(0, len(xs), n)]\<close>), and every \<open>n\<close>-th element (\<open>xs[::n]\<close>), for a
  positive step.
\<close>

function step_chunks :: "nat \<Rightarrow> 'a list \<Rightarrow> 'a list list" where
  "step_chunks n xs = (if n = 0 \<or> xs = [] then [] else take n xs # step_chunks n (drop n xs))"
  by pat_completeness auto
termination
  by (relation "measure (\<lambda>(n, xs). length xs)") auto

function py_stride :: "nat \<Rightarrow> 'a list \<Rightarrow> 'a list" where
  "py_stride n xs = (if n = 0 \<or> xs = [] then [] else hd xs # py_stride n (drop n xs))"
  by pat_completeness auto
termination
  by (relation "measure (\<lambda>(n, xs). length xs)") auto

declare step_chunks.simps [simp del] py_stride.simps [simp del]

lemma concat_step_chunks: "0 < n \<Longrightarrow> concat (step_chunks n xs) = xs"
proof (induction n xs rule: step_chunks.induct)
  case (1 n xs)
  then show ?case by (simp add: step_chunks.simps[of n xs] step_chunks.simps[of n "[]"])
qed

lemma step_chunks_length: "c \<in> set (step_chunks n xs) \<Longrightarrow> 0 < length c \<and> length c \<le> n"
proof (induction n xs rule: step_chunks.induct)
  case (1 n xs)
  then show ?case by (auto simp: step_chunks.simps[of n xs] split: if_splits)
qed

section \<open>Stable descending sort\<close>

text \<open>
  \<open>sorted(xs, reverse=True)\<close> keeps equal elements in their order.  The comparison is the only
  thing the sort sees, as in Python (\<open>__lt__\<close>).
\<close>

fun insort_desc :: "('a \<Rightarrow> 'a \<Rightarrow> bool) \<Rightarrow> 'a \<Rightarrow> 'a list \<Rightarrow> 'a list" where
  "insort_desc lt x [] = [x]"
| "insort_desc lt x (y # ys) = (if lt x y then y # insort_desc lt x ys else x # y # ys)"

definition sort_desc :: "('a \<Rightarrow> 'a \<Rightarrow> bool) \<Rightarrow> 'a list \<Rightarrow> 'a list" where
  "sort_desc lt xs = foldr (insort_desc lt) xs []"

lemma mset_insort_desc [simp]: "mset (insort_desc lt x ys) = add_mset x (mset ys)"
  by (induction ys) auto

lemma mset_sort_desc [simp]: "mset (sort_desc lt xs) = mset xs"
  by (induction xs) (auto simp: sort_desc_def)

lemma length_sort_desc [simp]: "length (sort_desc lt xs) = length xs"
  by (metis mset_sort_desc size_mset)

lemma set_sort_desc [simp]: "set (sort_desc lt xs) = set xs"
  by (metis mset_sort_desc set_mset_mset)

lemma sorted_insort_desc:
  fixes x :: "'a :: linorder"
  shows "sorted_wrt (\<ge>) ys \<Longrightarrow> sorted_wrt (\<ge>) (insort_desc (<) x ys)"
proof (induction ys)
  case (Cons y ys)
  have "set (insort_desc (<) x ys) = insert x (set ys)"
    by (metis mset_insort_desc set_mset_add_mset_insert set_mset_mset)
  with Cons show ?case by auto
qed simp

lemma sorted_sort_desc:
  fixes xs :: "'a :: linorder list"
  shows "sorted_wrt (\<ge>) (sort_desc (<) xs)"
  unfolding sort_desc_def by (induction xs) (auto intro: sorted_insort_desc)

section \<open>Permutations of index ranges\<close>

lemma mset_upt_distinct: "mset xs = mset [0..<n] \<Longrightarrow> distinct xs"
  by (metis distinct_upt mset_eq_imp_distinct_iff)

lemma mset_upt_set: "mset xs = mset [0..<n] \<Longrightarrow> set xs = {0..<n}"
  by (metis atLeastLessThan_upt set_mset_mset)

lemma mset_upt_length: "mset xs = mset [0..<n] \<Longrightarrow> length xs = n"
  by (metis diff_zero length_upt size_mset)

lemma mset_concat_cong:
  "mset xss = mset yss \<Longrightarrow> mset (concat xss) = mset (concat yss)"
  by (simp add: mset_concat flip: sum_mset_sum_list)

lemma length_filter_mset_cong:
  "mset xs = mset ys \<Longrightarrow> length (filter P xs) = length (filter P ys)"
  by (metis mset_filter size_mset)

lemma sort_eq_Nil [simp]: "sort xs = [] \<longleftrightarrow> xs = []"
  by (metis length_0_conv length_sort)

lemma distinct_concat_unique:
  assumes "distinct (concat xss)" "i < length xss" "j < length xss"
    and "x \<in> set (xss ! i)" "x \<in> set (xss ! j)"
  shows "i = j"
  using assms
proof (induction xss arbitrary: i j)
  case (Cons xs xss)
  have mem: "set xs \<inter> set (xss ! n) = {}" if "n < length xss" for n
    using Cons.prems(1) nth_mem[OF that] by (simp, blast)
  from Cons show ?case
    by (cases i; cases j) (use mem in auto)
qed simp

section \<open>Sums and means\<close>

definition mean :: "real list \<Rightarrow> real" where
  "mean xs = sum_list xs / real (length xs)"

lemma mean_const: "xs \<noteq> [] \<Longrightarrow> (\<And>x. x \<in> set xs \<Longrightarrow> x = c) \<Longrightarrow> mean xs = c"
proof -
  assume "xs \<noteq> []" and "\<And>x. x \<in> set xs \<Longrightarrow> x = c"
  then have "xs = replicate (length xs) c"
    by (simp add: replicate_length_same)
  then have "sum_list xs = real (length xs) * c"
    by (metis sum_list_replicate)
  with \<open>xs \<noteq> []\<close> show ?thesis by (simp add: mean_def)
qed

lemma mean_nonneg: "(\<And>x. x \<in> set xs \<Longrightarrow> 0 \<le> x) \<Longrightarrow> 0 \<le> mean xs"
  unfolding mean_def by (intro divide_nonneg_nonneg sum_list_nonneg) auto

lemma mean_bounds:
  assumes "xs \<noteq> []" "\<And>x. x \<in> set xs \<Longrightarrow> lo \<le> x \<and> x \<le> hi"
  shows "lo \<le> mean xs \<and> mean xs \<le> hi"
proof -
  have "real (length xs) * lo \<le> sum_list xs \<and> sum_list xs \<le> real (length xs) * hi"
    using assms(2)
  proof (induction xs)
    case (Cons x xs)
    then have "lo \<le> x \<and> x \<le> hi" "real (length xs) * lo \<le> sum_list xs \<and> sum_list xs \<le> real (length xs) * hi"
      by auto
    then show ?case by (simp add: algebra_simps)
  qed simp
  then show ?thesis using assms(1) by (simp add: mean_def pos_le_divide_eq pos_divide_le_eq mult.commute)
qed

lemma sum_list_centered: "sum_list (map (\<lambda>x. x - mean xs) xs) = 0"
proof -
  have "sum_list (map (\<lambda>x. x - c) ys) = sum_list ys - real (length ys) * c" for ys :: "real list" and c
    by (induction ys) (auto simp: algebra_simps)
  then show ?thesis by (cases "xs = []") (auto simp: mean_def)
qed

lemma mean_ge_member:
  assumes "x \<in> set xs" "\<And>y. y \<in> set xs \<Longrightarrow> 0 \<le> f y"
  shows "f x / real (length xs) \<le> mean (map f xs)"
proof -
  have "f x \<le> sum_list (map f xs)"
    using assms by (intro member_le_sum_list) auto
  then show ?thesis by (simp add: mean_def divide_right_mono)
qed

section \<open>Writes at a list of indices\<close>

lemma length_fold_update [simp]: "length (fold (\<lambda>i xs. xs[i := f i]) is xs) = length xs"
  by (induction "is" arbitrary: xs) auto

lemma nth_fold_update:
  "j < length xs \<Longrightarrow> fold (\<lambda>i xs. xs[i := f i]) is xs ! j = (if j \<in> set is then f j else xs ! j)"
  by (induction "is" arbitrary: xs) (auto simp: nth_list_update)

section \<open>Rounding to even\<close>

text \<open>\<open>round\<close> of the language and of a tensor: to the nearest integer, halves to the even one.\<close>

definition round_even :: "real \<Rightarrow> int" where
  "round_even x =
     (let f = \<lfloor>x\<rfloor>; r = x - real_of_int f in
      if r < 1 / 2 then f else if r > 1 / 2 then f + 1 else if even f then f else f + 1)"

lemma round_even_cases: "round_even x = \<lfloor>x\<rfloor> \<or> (round_even x = \<lfloor>x\<rfloor> + 1 \<and> 1 / 2 \<le> x - real_of_int \<lfloor>x\<rfloor>)"
  by (auto simp: round_even_def Let_def)

lemma round_even_of_int: "round_even (real_of_int k) = k"
  by (simp add: round_even_def Let_def)

lemma round_even_mono:
  assumes "x \<le> y"
  shows "round_even x \<le> round_even y"
proof (cases "\<lfloor>x\<rfloor> = \<lfloor>y\<rfloor>")
  case True
  then show ?thesis using assms by (auto simp: round_even_def Let_def)
next
  case False
  then have "\<lfloor>x\<rfloor> < \<lfloor>y\<rfloor>" using floor_mono[OF assms] by simp
  then show ?thesis using round_even_cases[of x] round_even_cases[of y] by linarith
qed

lemma round_even_bounds: "x - 1 / 2 \<le> real_of_int (round_even x) \<and> real_of_int (round_even x) \<le> x + 1 / 2"
  unfolding round_even_def Let_def by (simp split: if_splits) linarith

lemma round_even_less: "1 < y - x \<Longrightarrow> round_even x < round_even y"
  using round_even_bounds[of x] round_even_bounds[of y] by linarith

lemma round_even_between:
  "real_of_int a \<le> x \<Longrightarrow> x \<le> real_of_int b \<Longrightarrow> a \<le> round_even x \<and> round_even x \<le> b"
  using round_even_mono[of "real_of_int a" x] round_even_mono[of x "real_of_int b"] round_even_of_int by simp

section \<open>Strings\<close>

text \<open>
  ASCII texts.  \<open>s.strip()\<close>; \<open>s.split(c)\<close> at every occurrence of a character, with at least one part;
  \<open>s.split(c, 1)\<close> at the first one.
\<close>

definition is_space :: "char \<Rightarrow> bool" where
  "is_space c \<longleftrightarrow> c = CHR '' '' \<or> (let n = of_char c :: nat in 9 \<le> n \<and> n \<le> 13 \<or> 28 \<le> n \<and> n \<le> 31)"

definition strip :: "string \<Rightarrow> string" where
  "strip s = rev (dropWhile is_space (rev (dropWhile is_space s)))"

fun split_on :: "char \<Rightarrow> string \<Rightarrow> string list" where
  "split_on c [] = [[]]"
| "split_on c (d # s) =
     (if d = c then [] # split_on c s else case split_on c s of [] \<Rightarrow> [[d]] | w # ws \<Rightarrow> (d # w) # ws)"

definition split_first :: "char \<Rightarrow> string \<Rightarrow> string \<times> string" where
  "split_first c s = (takeWhile (\<lambda>d. d \<noteq> c) s, tl (dropWhile (\<lambda>d. d \<noteq> c) s))"

end
