(* ===== verification/Heap_Queue.thy ===== *)
theory Heap_Queue
  imports Prelude
begin

text \<open>
  The priority queue the balancing code keeps with \<open>heapq\<close>: an interface locale with the laws a
  client relies on, the client's facts about a loop that pops two elements, merges them and
  pushes the result, and the list-based queue the model uses, which interprets the interface.
  \<open>heappop\<close> returns the first element that no other element is below, so it agrees with CPython's
  heap wherever the comparison leaves no ties.
\<close>

section \<open>The interface\<close>

locale heap_interface =
  fixes elems :: "'q \<Rightarrow> 'a multiset"
    and push :: "'a \<Rightarrow> 'q \<Rightarrow> 'q"
    and pop :: "'q \<Rightarrow> ('a \<times> 'q) res"
  assumes elems_push: "elems (push x q) = add_mset x (elems q)"
    and pop_empty: "elems q = {#} \<Longrightarrow> pop q = Inl IndexError"
    and pop_nonempty: "elems q \<noteq> {#} \<Longrightarrow> \<exists>x q'. pop q = Inr (x, q')"
    and elems_pop: "pop q = Inr (x, q') \<Longrightarrow> elems q = add_mset x (elems q')"
begin

lemma pop_two:
  assumes "1 < size (elems q)"
  obtains x y q0 q1 where "pop q = Inr (x, q0)" "pop q0 = Inr (y, q1)"
    "elems q = add_mset x (add_mset y (elems q1))"
proof -
  from assms have "elems q \<noteq> {#}" by auto
  then obtain x q0 where 1: "pop q = Inr (x, q0)" using pop_nonempty by blast
  then have 2: "elems q = add_mset x (elems q0)" by (rule elems_pop)
  with assms have "elems q0 \<noteq> {#}" by auto
  then obtain y q1 where 3: "pop q0 = Inr (y, q1)" using pop_nonempty by blast
  then have "elems q0 = add_mset y (elems q1)" by (rule elems_pop)
  with 1 2 3 that show ?thesis by simp
qed

end

text \<open>
  A loop that merges the two least elements until one is left.  \<open>loop_step\<close> and \<open>loop_stop\<close> are
  the equations of the code's \<open>while len(states_pq) > 1\<close>.
\<close>

locale heap_merging = heap_interface +
  fixes merge :: "'a \<Rightarrow> 'a \<Rightarrow> 'a"
    and loop :: "'q \<Rightarrow> 'q res"
  assumes loop_step: "1 < size (elems q) \<Longrightarrow> pop q = Inr (x, q0) \<Longrightarrow> pop q0 = Inr (y, q1)
      \<Longrightarrow> loop q = loop (push (merge x y) q1)"
    and loop_stop: "size (elems q) \<le> 1 \<Longrightarrow> loop q = Inr q"
begin

text \<open>
  An invariant that merging keeps and a quantity that merging adds up: the loop ends with one
  element, which has the invariant and the whole quantity.
\<close>

lemma loop_invariant:
  fixes f :: "'a \<Rightarrow> 'm :: comm_monoid_add"
  assumes inv: "\<And>x. x \<in># elems q \<Longrightarrow> P x"
    and keep: "\<And>x y. P x \<Longrightarrow> P y \<Longrightarrow> P (merge x y)"
    and add: "\<And>x y. P x \<Longrightarrow> P y \<Longrightarrow> f (merge x y) = f x + f y"
    and ne: "elems q \<noteq> {#}"
  shows "\<exists>q' x. loop q = Inr q' \<and> elems q' = {#x#} \<and> P x \<and> f x = (\<Sum>y\<in>#elems q. f y)"
  using inv ne
proof (induction "size (elems q)" arbitrary: q rule: less_induct)
  case less
  show ?case
  proof (cases "1 < size (elems q)")
    case True
    then obtain x y q0 q1 where p: "pop q = Inr (x, q0)" "pop q0 = Inr (y, q1)"
      and e: "elems q = add_mset x (add_mset y (elems q1))"
      by (rule pop_two)
    let ?q = "push (merge x y) q1"
    have eq: "elems ?q = add_mset (merge x y) (elems q1)"
      by (rule elems_push)
    have P: "P x" "P y"
      using less.prems(1) by (simp_all add: e)
    have "\<exists>q' z. loop ?q = Inr q' \<and> elems q' = {#z#} \<and> P z \<and> f z = (\<Sum>y\<in>#elems ?q. f y)"
      by (rule less.hyps) (use less.prems P keep in \<open>auto simp: e eq\<close>)
    moreover have "(\<Sum>y\<in>#elems ?q. f y) = (\<Sum>y\<in>#elems q. f y)"
      by (simp add: e eq add P add.assoc)
    ultimately show ?thesis
      using loop_step[OF True p] by simp
  next
    case False
    with less.prems(2) have "size (elems q) = 1"
      by (cases "size (elems q)") auto
    then obtain x where "elems q = {#x#}"
      by (metis size_1_singleton_mset)
    with False less.prems show ?thesis
      using loop_stop[of q] by auto
  qed
qed

end

section \<open>The queue of the model\<close>

fun select_min :: "('a \<Rightarrow> 'a \<Rightarrow> bool) \<Rightarrow> 'a \<Rightarrow> 'a list \<Rightarrow> 'a \<times> 'a list" where
  "select_min lt x [] = (x, [])"
| "select_min lt x (y # ys) =
     (if lt y x then (case select_min lt y ys of (m, r) \<Rightarrow> (m, x # r))
      else (case select_min lt x ys of (m, r) \<Rightarrow> (m, y # r)))"

definition heappop :: "('a \<Rightarrow> 'a \<Rightarrow> bool) \<Rightarrow> 'a list \<Rightarrow> ('a \<times> 'a list) res" where
  "heappop lt q = (case q of [] \<Rightarrow> Inl IndexError | x # xs \<Rightarrow> Inr (select_min lt x xs))"

definition heappush :: "'a \<Rightarrow> 'a list \<Rightarrow> 'a list" where
  "heappush x q = q @ [x]"

lemma mset_select_min: "select_min lt x ys = (m, r) \<Longrightarrow> add_mset m (mset r) = add_mset x (mset ys)"
proof (induction lt x ys arbitrary: m r rule: select_min.induct)
  case (2 lt x y ys)
  show ?case
  proof (cases "lt y x")
    case True
    with 2 show ?thesis
      by (auto split: prod.splits simp: add_mset_commute[of m x])
  next
    case False
    with 2 show ?thesis
      by (auto split: prod.splits simp: add_mset_commute[of m y] add_mset_commute[of y x])
  qed
qed simp

lemma mset_heappop: "heappop lt q = Inr (x, q') \<Longrightarrow> mset q = add_mset x (mset q')"
  by (cases q) (auto simp: heappop_def dest: mset_select_min)

lemma length_heappop: "heappop lt q = Inr (x, q') \<Longrightarrow> length q = Suc (length q')"
  by (metis mset_heappop size_add_mset size_mset)

lemma length_heappush [simp]: "length (heappush x q) = Suc (length q)"
  by (simp add: heappush_def)

text \<open>The popped element is a least one when the comparison is transitive and asymmetric.\<close>

lemma select_min_least:
  assumes "transp lt" "asymp lt" "select_min lt x ys = (m, r)"
  shows "(\<forall>y \<in> set r. \<not> lt y m) \<and> (m = x \<or> lt m x)"
  using assms
proof (induction lt x ys arbitrary: m r rule: select_min.induct)
  case (2 lt x y ys)
  show ?case
  proof (cases "lt y x")
    case True
    obtain m' r' where s: "select_min lt y ys = (m', r')" by fastforce
    have "\<not> lt x m'"
      using 2(1)[OF True 2(3,4) s] True 2(3,4) by (meson asympD transpD)
    with 2(1)[OF True 2(3,4) s] True 2(3-5) s show ?thesis
      by (auto dest: transpD)
  next
    case False
    obtain m' r' where s: "select_min lt x ys = (m', r')" by fastforce
    have "\<not> lt y m'"
      using 2(2)[OF False 2(3,4) s] False 2(3,4) by (metis transpD)
    with 2(2)[OF False 2(3,4) s] False 2(3-5) s show ?thesis
      by auto
  qed
qed simp

lemma heappop_least:
  "transp lt \<Longrightarrow> asymp lt \<Longrightarrow> heappop lt q = Inr (x, q') \<Longrightarrow> y \<in> set q' \<Longrightarrow> \<not> lt y x"
  by (cases q) (auto simp: heappop_def dest: select_min_least)

interpretation heapq: heap_interface mset heappush "heappop lt" for lt
proof unfold_locales
  show "\<exists>x q'. heappop lt q = Inr (x, q')" if "mset q \<noteq> {#}" for q
    using that by (cases q) (auto simp: heappop_def)
qed (auto simp: heappush_def heappop_def mset_heappop)

end
