(* ===== verification/Seqlen_Balancing.thy ===== *)
theory Seqlen_Balancing
  imports Heap_Queue "HOL-Library.Product_Lexorder" "HOL-Library.List_Lexorder"
begin

text \<open>
  \<open>verl/verl/utils/seqlen_balancing.py\<close>, the partitioning half: the Karmarkar-Karp differencing
  method with its \<open>Set\<close> and \<open>State\<close> classes and the heap it keeps, the greedy partitioner, the
  checked entry point, the partitioner that keeps groups together, and the imbalance report.
  Partition counts are naturals: a count of zero or below behaves the same in the code
  (\<open>range(k)\<close> is empty).
\<close>

section \<open>Sets of items\<close>

datatype kk_set = KKSet (set_sum: int) (set_items: "(nat \<times> int) list")

definition kk_empty :: kk_set where
  "kk_empty = KKSet 0 []"

definition kk_add :: "nat \<Rightarrow> int \<Rightarrow> kk_set \<Rightarrow> kk_set" where
  "kk_add idx val s = KKSet (set_sum s + val) (set_items s @ [(idx, val)])"

definition kk_set_merge :: "kk_set \<Rightarrow> kk_set \<Rightarrow> kk_set" where
  "kk_set_merge s other = foldl (\<lambda>s (idx, val). kk_add idx val s) s (set_items other)"

instantiation kk_set :: linorder
begin

definition less_kk_set :: "kk_set \<Rightarrow> kk_set \<Rightarrow> bool" where
  "less_kk_set s t =
     (if set_sum s \<noteq> set_sum t then set_sum s < set_sum t
      else if length (set_items s) \<noteq> length (set_items t)
        then length (set_items s) < length (set_items t)
      else set_items s < set_items t)"

definition less_eq_kk_set :: "kk_set \<Rightarrow> kk_set \<Rightarrow> bool" where
  "less_eq_kk_set s t = (s < t \<or> s = t)"

instance
proof
  fix x y z :: kk_set
  show "(x < y) = (x \<le> y \<and> \<not> y \<le> x)"
    by (auto simp: less_kk_set_def less_eq_kk_set_def split: if_splits)
  show "x \<le> x"
    by (simp add: less_eq_kk_set_def)
  show "x \<le> y \<Longrightarrow> y \<le> z \<Longrightarrow> x \<le> z"
    by (auto simp: less_kk_set_def less_eq_kk_set_def split: if_splits)
  show "x \<le> y \<Longrightarrow> y \<le> x \<Longrightarrow> x = y"
    by (auto simp: less_kk_set_def less_eq_kk_set_def split: if_splits)
  show "x \<le> y \<or> y \<le> x"
    by (cases x; cases y) (auto simp: less_kk_set_def less_eq_kk_set_def)
qed

end

definition item_sum :: "(nat \<times> int) list \<Rightarrow> int" where
  "item_sum xs = sum_list (map snd xs)"

definition set_ok :: "kk_set \<Rightarrow> bool" where
  "set_ok s \<longleftrightarrow> set_sum s = item_sum (set_items s)"

lemma item_sum_simps [simp]:
  "item_sum [] = 0" "item_sum (x # xs) = snd x + item_sum xs"
  "item_sum (xs @ ys) = item_sum xs + item_sum ys"
  by (simp_all add: item_sum_def)

lemma kk_set_merge_eq:
  "kk_set_merge s t = KKSet (set_sum s + item_sum (set_items t)) (set_items s @ set_items t)"
proof -
  have "foldl (\<lambda>s (idx, val). kk_add idx val s) s xs =
      KKSet (set_sum s + item_sum xs) (set_items s @ xs)" for xs
    by (induction xs arbitrary: s) (auto simp: kk_add_def)
  then show ?thesis by (simp add: kk_set_merge_def)
qed

lemma set_ok_merge: "set_ok s \<Longrightarrow> set_ok t \<Longrightarrow> set_ok (kk_set_merge s t)"
  by (simp add: set_ok_def kk_set_merge_eq)

lemma kk_set_less_sum: "s \<le> t \<Longrightarrow> set_sum s \<le> set_sum t"
  by (auto simp: less_eq_kk_set_def less_kk_set_def split: if_splits)

section \<open>States\<close>

record kk_state =
  kk_k :: nat
  kk_sets :: "kk_set list"

definition kk_init :: "(nat \<times> int) list \<Rightarrow> nat \<Rightarrow> kk_state res" where
  "kk_init items k =
     require (length items = 1 \<or> length items = k) AssertionError
       (require (length items \<le> k) IndexError
         (Inr \<lparr>kk_k = k,
               kk_sets = sort_desc (<)
                 (map (\<lambda>(idx, seqlen). kk_add idx seqlen kk_empty) items
                   @ replicate (k - length items) kk_empty)\<rparr>))"

definition kk_get_partitions :: "kk_state \<Rightarrow> nat list list" where
  "kk_get_partitions s = map (\<lambda>t. map fst (set_items t)) (kk_sets s)"

definition kk_merge :: "kk_state \<Rightarrow> kk_state \<Rightarrow> kk_state" where
  "kk_merge s other = s\<lparr>kk_sets := sort_desc (<)
     (map (\<lambda>i. kk_set_merge (kk_sets s ! i) (kk_sets other ! (kk_k s - 1 - i))) [0..<kk_k s])\<rparr>"

definition kk_spread :: "kk_state \<Rightarrow> int" where
  "kk_spread s = set_sum (hd (kk_sets s)) - set_sum (last (kk_sets s))"

definition kk_less :: "kk_state \<Rightarrow> kk_state \<Rightarrow> bool" where
  "kk_less s other =
     (if kk_spread s \<noteq> kk_spread other then kk_spread s > kk_spread other
      else hd (kk_sets s) > hd (kk_sets other))"

section \<open>The differencing loop\<close>

function kk_loop :: "kk_state list \<Rightarrow> kk_state list res" where
  "kk_loop q =
     (if 1 < length q then
        (case heappop kk_less q of
           Inl e \<Rightarrow> Inl e
         | Inr (state0, q0) \<Rightarrow>
             (case heappop kk_less q0 of
                Inl e \<Rightarrow> Inl e
              | Inr (state1, q1) \<Rightarrow> kk_loop (heappush (kk_merge state0 state1) q1)))
      else Inr q)"
  by pat_completeness auto
termination
  by (relation "measure length") (auto dest!: length_heappop)

declare kk_loop.simps [simp del]

fun push_states :: "nat \<Rightarrow> (nat \<times> int) list list \<Rightarrow> kk_state list \<Rightarrow> kk_state list res" where
  "push_states k [] q = Inr q"
| "push_states k (items # rest) q =
     bind_res (kk_init items k) (\<lambda>s. push_states k rest (heappush s q))"

text \<open>\<open>for offset in range(0, n, k)\<close> over the sorted list; \<open>k\<close> divides its length here.\<close>

definition kk_chunks :: "nat \<Rightarrow> 'a list \<Rightarrow> 'a list list" where
  "kk_chunks k xs = map (\<lambda>j. py_slice (j * k) (j * k + k) xs) [0..<length xs div k]"

definition karmarkar_karp :: "int list \<Rightarrow> nat \<Rightarrow> bool \<Rightarrow> nat list list res" where
  "karmarkar_karp seqlen_list k equal_size =
     (let sorted_list = map (\<lambda>(seqlen, i). (i, seqlen))
            (sort (zip seqlen_list [0..<length seqlen_list]));
          groups = (if equal_size
            then require (k \<noteq> 0) ZeroDivisionError
              (require (length seqlen_list mod k = 0) AssertionError (Inr (kk_chunks k sorted_list)))
            else Inr (map (\<lambda>x. [x]) sorted_list))
      in bind_res groups (\<lambda>gs.
         bind_res (push_states k gs []) (\<lambda>q.
         bind_res (kk_loop q) (\<lambda>q'.
           (case q' of
              [] \<Rightarrow> Inl IndexError
            | final_state # _ \<Rightarrow>
                (let partitions = kk_get_partitions final_state
                 in require (equal_size \<longrightarrow>
                      list_all (\<lambda>p. length p * k = length seqlen_list) partitions)
                      AssertionError (Inr partitions)))))))"

definition check_and_sort_partitions :: "nat \<Rightarrow> nat \<Rightarrow> nat list list \<Rightarrow> nat list list res" where
  "check_and_sort_partitions n k partitions =
     require (length partitions = k) AssertionError
       (require (list_all (\<lambda>p. 0 < length p) partitions) AssertionError
         (require (set (concat partitions) = set [0..<n]) AssertionError
           (Inr (map sort partitions))))"

definition get_seqlen_balanced_partitions :: "int list \<Rightarrow> nat \<Rightarrow> bool \<Rightarrow> nat list list res" where
  "get_seqlen_balanced_partitions seqlen_list k equal_size =
     require (k \<le> length seqlen_list) AssertionError
       (bind_res (karmarkar_karp seqlen_list k equal_size)
         (check_and_sort_partitions (length seqlen_list) k))"

section \<open>The state invariant\<close>

definition kk_ok :: "nat \<Rightarrow> kk_state \<Rightarrow> bool" where
  "kk_ok k s \<longleftrightarrow> kk_k s = k \<and> length (kk_sets s) = k \<and> sorted_wrt (\<ge>) (kk_sets s)
     \<and> (\<forall>t \<in> set (kk_sets s). set_ok t)"

definition kk_items :: "kk_state \<Rightarrow> (nat \<times> int) multiset" where
  "kk_items s = mset (concat (map set_items (kk_sets s)))"

named_theorems kk_intros \<open>preservation facts of the differencing step\<close>

abbreviation kk_zipped :: "kk_state \<Rightarrow> kk_state \<Rightarrow> kk_set list" where
  "kk_zipped s t \<equiv>
     map (\<lambda>i. kk_set_merge (kk_sets s ! i) (kk_sets t ! (kk_k s - 1 - i))) [0..<kk_k s]"

lemma kk_merge_sets: "kk_sets (kk_merge s t) = sort_desc (<) (kk_zipped s t)"
  by (simp add: kk_merge_def)

lemma kk_okD:
  assumes "kk_ok k s"
  shows "kk_k s = k" "length (kk_sets s) = k" "sorted_wrt (\<ge>) (kk_sets s)"
    "t \<in> set (kk_sets s) \<Longrightarrow> set_ok t"
    "i < k \<Longrightarrow> set_ok (kk_sets s ! i)"
  using assms by (auto simp: kk_ok_def)

lemma kk_ok_antimono:
  assumes "kk_ok k s" "i \<le> j" "j < k"
  shows "kk_sets s ! j \<le> kk_sets s ! i"
  using assms kk_okD(2,3)[OF assms(1)]
  by (cases "i = j") (auto simp: sorted_wrt_iff_nth_less)

lemma kk_ok_merge [kk_intros]:
  assumes "kk_ok k s" "kk_ok k t"
  shows "kk_ok k (kk_merge s t)"
proof -
  have "set_ok u" if "u \<in> set (kk_zipped s t)" for u
    using that assms by (auto intro!: set_ok_merge kk_okD(5) simp: kk_okD(1)[OF assms(1)])
  then show ?thesis
    unfolding kk_ok_def kk_merge_sets
    using kk_okD(1)[OF assms(1)]
    by (auto simp: sorted_sort_desc kk_merge_def)
qed

lemma mset_concat_zip_rev:
  assumes "length xs = k" "length ys = k"
  shows "mset (concat (map (\<lambda>i. f (xs ! i) @ f (ys ! (k - Suc i))) [0..<k])) =
    mset (concat (map f xs)) + mset (concat (map f ys))"
proof -
  have rev: "map (\<lambda>i. ys ! (k - Suc i)) [0..<k] = rev ys"
    using assms(2) by (intro nth_equalityI) (auto simp: rev_nth)
  have app: "mset (concat (map (\<lambda>i. g i @ h i) is)) =
      mset (concat (map g is)) + mset (concat (map h is))" for g h :: "nat \<Rightarrow> 'b list" and "is"
    by (induction "is") auto
  have "map (\<lambda>i. f (xs ! i)) [0..<k] = map f xs"
    using assms(1) by (intro nth_equalityI) auto
  moreover have "map (\<lambda>i. f (ys ! (k - Suc i))) [0..<k] = map f (rev ys)"
    by (simp flip: rev)
  moreover have "mset (concat (map f (rev ys))) = mset (concat (map f ys))"
    by (rule mset_concat_cong) simp
  ultimately show ?thesis by (simp add: app)
qed

lemma kk_items_merge [kk_intros]:
  assumes "kk_ok k s" "kk_ok k t"
  shows "kk_items (kk_merge s t) = kk_items s + kk_items t"
proof -
  have "kk_items (kk_merge s t) = mset (concat (map set_items (kk_zipped s t)))"
    unfolding kk_items_def kk_merge_sets
    by (rule mset_concat_cong) (simp only: mset_map mset_sort_desc)
  also have "map set_items (kk_zipped s t) =
      map (\<lambda>i. set_items (kk_sets s ! i) @ set_items (kk_sets t ! (k - Suc i))) [0..<k]"
    using assms by (simp add: kk_set_merge_eq kk_okD)
  finally show ?thesis
    using assms by (simp add: mset_concat_zip_rev kk_okD kk_items_def)
qed

lemma kk_init_Inr:
  assumes "kk_init items k = Inr s"
  shows "kk_ok k s" "kk_items s = mset items"
    "mset (kk_sets s) = mset (map (\<lambda>(idx, v). kk_add idx v kk_empty) items
       @ replicate (k - length items) kk_empty)"
proof -
  let ?sets = "map (\<lambda>(idx, v). kk_add idx v kk_empty) items @ replicate (k - length items) kk_empty"
  from assms have len: "length items \<le> k" and s: "kk_k s = k" "kk_sets s = sort_desc (<) ?sets"
    by (auto simp: kk_init_def)
  have ok: "set_ok t" if "t \<in> set ?sets" for t
    using that by (auto simp: set_ok_def kk_add_def kk_empty_def item_sum_def split: if_splits)
  show "mset (kk_sets s) = mset ?sets" by (simp add: s(2))
  show "kk_ok k s"
    unfolding kk_ok_def using len ok by (auto simp: s sorted_sort_desc)
  have "kk_items s = mset (concat (map set_items ?sets))"
    unfolding kk_items_def s(2) by (rule mset_concat_cong) (simp only: mset_map mset_sort_desc)
  also have "concat (map set_items ?sets) = items"
    by (induction items) (auto simp: kk_add_def kk_empty_def)
  finally show "kk_items s = mset items" .
qed

lemma kk_init_ok: "length items = 1 \<or> length items = k \<Longrightarrow> 0 < k \<Longrightarrow> \<exists>s. kk_init items k = Inr s"
  by (auto simp: kk_init_def)

subsection \<open>Non-negative weights: empty sets come last\<close>

definition kk_nonneg :: "kk_state \<Rightarrow> bool" where
  "kk_nonneg s \<longleftrightarrow> (\<forall>(i, v) \<in># kk_items s. 0 \<le> v)"

definition kk_filled :: "kk_state \<Rightarrow> nat" where
  "kk_filled s = length (filter (\<lambda>t. set_items t \<noteq> []) (kk_sets s))"

lemma kk_nonneg_merge [kk_intros]:
  "kk_ok k s \<Longrightarrow> kk_ok k t \<Longrightarrow> kk_nonneg s \<Longrightarrow> kk_nonneg t \<Longrightarrow> kk_nonneg (kk_merge s t)"
  by (auto simp: kk_nonneg_def kk_items_merge)

lemma filter_prefix_iff:
  "sorted_wrt (\<lambda>x y. P y \<longrightarrow> P x) xs \<Longrightarrow> i < length xs \<Longrightarrow> P (xs ! i) \<longleftrightarrow> i < length (filter P xs)"
proof (induction xs arbitrary: i)
  case (Cons x xs)
  show ?case
  proof (cases "P x")
    case True
    with Cons show ?thesis by (cases i) auto
  next
    case False
    with Cons.prems have "filter P xs = []" by (auto simp: filter_empty_conv)
    with False Cons.prems show ?thesis
      by (cases i) (auto simp: filter_empty_conv)
  qed
qed simp

lemma kk_filled_iff:
  assumes "kk_ok k s" "kk_nonneg s" "i < k"
  shows "set_items (kk_sets s ! i) \<noteq> [] \<longleftrightarrow> i < kk_filled s"
proof -
  have sum: "0 \<le> set_sum t" if "t \<in> set (kk_sets s)" for t
  proof -
    have "\<forall>x \<in> set (set_items t). 0 \<le> snd x"
      using that assms(2) by (fastforce simp: kk_nonneg_def kk_items_def)
    then have "0 \<le> item_sum (set_items t)"
      unfolding item_sum_def by (intro sum_list_nonneg) auto
    then show ?thesis
      using kk_okD(4)[OF assms(1) that] by (simp add: set_ok_def)
  qed
  have "set_items t \<noteq> []" if "t \<in> set (kk_sets s)" "u \<in> set (kk_sets s)" "u \<le> t" "set_items u \<noteq> []" for t u
  proof
    assume e: "set_items t = []"
    then have "set_sum t = 0"
      using kk_okD(4)[OF assms(1) that(1)] by (simp add: set_ok_def)
    with e that sum[OF that(2)] show False
      by (auto simp: less_eq_kk_set_def less_kk_set_def split: if_splits)
  qed
  then have "sorted_wrt (\<lambda>t u. set_items u \<noteq> [] \<longrightarrow> set_items t \<noteq> []) (kk_sets s)"
    by (intro sorted_wrt_mono_rel[OF _ kk_okD(3)[OF assms(1)]]) auto
  then show ?thesis
    unfolding kk_filled_def using assms(3) kk_okD(2)[OF assms(1)]
    by (subst filter_prefix_iff[symmetric]) auto
qed

lemma filter_two_ends:
  fixes a b k :: nat
  assumes "a \<le> k" "b \<le> k"
  shows "length (filter (\<lambda>i. i < a \<or> k - Suc i < b) [0..<k]) = min k (a + b)"
proof -
  have "length (filter (\<lambda>i. i < a \<or> k - Suc i < b) [0..<k]) = card {i. i < k \<and> (i < a \<or> k - Suc i < b)}"
    by (simp add: length_filter_conv_card cong: conj_cong)
  also have "{i. i < k \<and> (i < a \<or> k - Suc i < b)} = {0..<k} - {a..<k - b}"
    using assms by auto
  also have "card ({0..<k} - {a..<k - b}) = k - (k - b - a)"
    by (subst card_Diff_subset) auto
  finally show ?thesis using assms by auto
qed

lemma kk_filled_merge [kk_intros]:
  assumes "kk_ok k s" "kk_ok k t" "kk_nonneg s" "kk_nonneg t"
  shows "kk_filled (kk_merge s t) = min k (kk_filled s + kk_filled t)"
proof -
  have le: "kk_filled u \<le> k" if "kk_ok k u" for u
    using kk_okD(2)[OF that] unfolding kk_filled_def by (metis length_filter_le)
  have "kk_filled (kk_merge s t) = length (filter (\<lambda>u. set_items u \<noteq> []) (kk_zipped s t))"
    unfolding kk_filled_def kk_merge_sets by (rule length_filter_mset_cong) (rule mset_sort_desc)
  also have "\<dots> = length (filter (\<lambda>i. set_items (kk_sets s ! i) \<noteq> []
      \<or> set_items (kk_sets t ! (k - Suc i)) \<noteq> []) [0..<k])"
    unfolding filter_map length_map kk_okD(1)[OF assms(1)]
    by (intro arg_cong[where f = length] filter_cong) (simp_all add: kk_set_merge_eq)
  also have "\<dots> = length (filter (\<lambda>i. i < kk_filled s \<or> k - Suc i < kk_filled t) [0..<k])"
    using assms by (intro arg_cong[where f = length] filter_cong) (simp_all add: kk_filled_iff)
  finally show ?thesis
    using assms by (simp add: filter_two_ends le)
qed

subsection \<open>Equal sizes and the spread of the sums\<close>

definition kk_even :: "kk_state \<Rightarrow> bool" where
  "kk_even s \<longleftrightarrow> (\<forall>t \<in> set (kk_sets s). \<forall>u \<in> set (kk_sets s).
     length (set_items t) = length (set_items u))"

definition kk_within :: "int \<Rightarrow> kk_state \<Rightarrow> bool" where
  "kk_within d s \<longleftrightarrow> (\<forall>t \<in> set (kk_sets s). \<forall>u \<in> set (kk_sets s). set_sum t - set_sum u \<le> d)"

lemma kk_zipped_ex:
  assumes "kk_ok k s" "kk_ok k t" "u \<in> set (kk_sets (kk_merge s t))"
  shows "\<exists>i<k. u = kk_set_merge (kk_sets s ! i) (kk_sets t ! (k - Suc i))"
  using assms by (auto simp: kk_merge_sets kk_okD(1))

lemma kk_evenD:
  "kk_even s \<Longrightarrow> t \<in> set (kk_sets s) \<Longrightarrow> u \<in> set (kk_sets s) \<Longrightarrow>
    length (set_items t) = length (set_items u)"
  unfolding kk_even_def by blast

lemma kk_even_nth:
  "kk_ok k s \<Longrightarrow> kk_even s \<Longrightarrow> i < k \<Longrightarrow> j < k \<Longrightarrow>
    length (set_items (kk_sets s ! i)) = length (set_items (kk_sets s ! j))"
  by (simp add: kk_even_def kk_okD(2))

lemma kk_even_merge [kk_intros]:
  assumes "kk_ok k s" "kk_ok k t" "kk_even s" "kk_even t"
  shows "kk_even (kk_merge s t)"
proof -
  have "length (set_items u) = length (set_items v)"
    if u: "u \<in> set (kk_sets (kk_merge s t))" and v: "v \<in> set (kk_sets (kk_merge s t))" for u v
  proof -
    obtain i j where ij: "i < k" "j < k" "u = kk_set_merge (kk_sets s ! i) (kk_sets t ! (k - Suc i))"
      "v = kk_set_merge (kk_sets s ! j) (kk_sets t ! (k - Suc j))"
      using kk_zipped_ex[OF assms(1,2) u] kk_zipped_ex[OF assms(1,2) v] by blast
    have len: "length (set_items (kk_set_merge a b)) = length (set_items a) + length (set_items b)" for a b
      by (simp add: kk_set_merge_eq)
    show ?thesis
      unfolding ij(3,4) len
      by (rule arg_cong2[where f = "(+)"]; rule kk_even_nth)
        (use assms ij(1,2) in \<open>auto intro: diff_less\<close>)
  qed
  then show ?thesis unfolding kk_even_def by blast
qed

lemma kk_within_nth:
  assumes "kk_ok k s" "kk_within d s" "i < k" "j < k"
  shows "set_sum (kk_sets s ! i) - set_sum (kk_sets s ! j) \<le> d"
    "i \<le> j \<Longrightarrow> set_sum (kk_sets s ! j) \<le> set_sum (kk_sets s ! i)"
  using assms by (auto simp: kk_within_def kk_okD(2) intro: kk_set_less_sum kk_ok_antimono)

text \<open>
  The differencing step: the larger sums of one state meet the smaller sums of the other, so the
  spread of the result is at most the larger spread of the two.
\<close>

lemma kk_within_merge [kk_intros]:
  assumes "kk_ok k s" "kk_ok k t" "kk_within d s" "kk_within d t"
  shows "kk_within d (kk_merge s t)"
proof -
  have sum: "set_sum (kk_set_merge (kk_sets s ! i) (kk_sets t ! (k - Suc i))) =
      set_sum (kk_sets s ! i) + set_sum (kk_sets t ! (k - Suc i))" if "i < k" for i
    using that kk_okD(5)[OF assms(2), of "k - Suc i"] by (simp add: kk_set_merge_eq set_ok_def)
  have "set_sum u - set_sum v \<le> d"
    if u: "u \<in> set (kk_sets (kk_merge s t))" and v: "v \<in> set (kk_sets (kk_merge s t))" for u v
  proof -
    obtain i j where ij: "i < k" "j < k" "u = kk_set_merge (kk_sets s ! i) (kk_sets t ! (k - Suc i))"
      "v = kk_set_merge (kk_sets s ! j) (kk_sets t ! (k - Suc j))"
      using kk_zipped_ex[OF assms(1,2) u] kk_zipped_ex[OF assms(1,2) v] by blast
    note s = kk_within_nth[OF assms(1,3), of i j] kk_within_nth[OF assms(1,3), of j i]
    note t = kk_within_nth[OF assms(2,4), of "k - Suc i" "k - Suc j"]
      kk_within_nth[OF assms(2,4), of "k - Suc j" "k - Suc i"]
    have "i \<le> j \<Longrightarrow> k - Suc j \<le> k - Suc i" "j \<le> i \<Longrightarrow> k - Suc i \<le> k - Suc j"
      by (simp_all add: diff_le_mono2)
    with s t ij show ?thesis
      by (cases "i \<le> j") (simp_all add: sum)
  qed
  then show ?thesis by (simp add: kk_within_def)
qed

section \<open>The run of the algorithm\<close>

interpretation kk: heap_merging mset heappush "heappop kk_less" kk_merge kk_loop
  by unfold_locales (auto simp: kk_loop.simps)

abbreviation kk_run :: "nat \<Rightarrow> (nat \<times> int) list list \<Rightarrow> kk_state list res" where
  "kk_run k gs \<equiv> bind_res (push_states k gs []) kk_loop"

lemma push_states_Inr:
  assumes "0 < k" "\<And>g. g \<in> set gs \<Longrightarrow> length g = 1 \<or> length g = k"
  shows "\<exists>ss. push_states k gs q = Inr (q @ ss) \<and> list_all2 (\<lambda>g s. kk_init g k = Inr s) gs ss"
  using assms(2)
proof (induction gs arbitrary: q)
  case (Cons g gs)
  obtain s where s: "kk_init g k = Inr s"
    using kk_init_ok Cons.prems[of g] assms(1) by auto
  obtain ss where "push_states k gs (q @ [s]) = Inr ((q @ [s]) @ ss)"
    "list_all2 (\<lambda>g s. kk_init g k = Inr s) gs ss"
    using Cons.IH[of "q @ [s]"] Cons.prems by auto
  with s show ?case
    by (intro exI[of _ "s # ss"]) (simp add: heappush_def)
qed simp

lemma kk_run_invariant:
  assumes k: "0 < k" and gs: "gs \<noteq> []" "\<And>g. g \<in> set gs \<Longrightarrow> length g = 1 \<or> length g = k"
    and init: "\<And>g s. g \<in> set gs \<Longrightarrow> kk_init g k = Inr s \<Longrightarrow> P s"
    and keep: "\<And>s t. kk_ok k s \<Longrightarrow> kk_ok k t \<Longrightarrow> P s \<Longrightarrow> P t \<Longrightarrow> P (kk_merge s t)"
  shows "\<exists>s. kk_run k gs = Inr [s] \<and> kk_ok k s \<and> P s \<and> kk_items s = mset (concat gs)"
proof -
  obtain ss where ss: "push_states k gs [] = Inr ss" "list_all2 (\<lambda>g s. kk_init g k = Inr s) gs ss"
    using push_states_Inr[of k gs "[]"] k gs(2) by auto
  have items: "(\<Sum>s\<in>#mset ss. kk_items s) = mset (concat gs)"
    using ss(2) by (induction rule: list_all2_induct) (auto dest: kk_init_Inr)
  have ok: "kk_ok k s \<and> P s" if "s \<in># mset ss" for s
  proof -
    from that obtain i where i: "i < length ss" "ss ! i = s"
      by (auto simp: in_set_conv_nth)
    with ss(2) have "gs ! i \<in> set gs" "kk_init (gs ! i) k = Inr s"
      by (auto simp: list_all2_conv_all_nth)
    then show ?thesis
      using init by (auto dest: kk_init_Inr)
  qed
  have "\<exists>q' s. kk_loop ss = Inr q' \<and> mset q' = {#s#} \<and> (kk_ok k s \<and> P s)
      \<and> kk_items s = (\<Sum>s\<in>#mset ss. kk_items s)"
    by (rule kk.loop_invariant) (use ok keep gs ss in \<open>auto intro: kk_intros simp: kk_items_merge\<close>)
  then show ?thesis
    using ss(1) items by auto
qed

lemma concat_kk_chunks:
  assumes "0 < k" "length xs mod k = 0"
  shows "concat (kk_chunks k xs) = xs"
proof -
  have "concat (map (\<lambda>j. py_slice (j * k) (j * k + k) xs) [0..<m]) = take (m * k) xs" for m
    by (induction m) (simp_all add: py_slice_def add.commute[of k] flip: take_add)
  moreover have "length xs div k * k = length xs" using assms by auto
  ultimately show ?thesis by (simp add: kk_chunks_def)
qed

lemma length_kk_chunks:
  assumes "0 < k" "length xs mod k = 0" "g \<in> set (kk_chunks k xs)"
  shows "length g = k"
proof -
  from assms(3) obtain j where j: "j < length xs div k" "g = py_slice (j * k) (j * k + k) xs"
    by (auto simp: kk_chunks_def)
  then have "Suc j * k \<le> length xs div k * k"
    by (intro mult_right_mono) auto
  also have "\<dots> = length xs" using assms(2) by auto
  finally show ?thesis using j by simp
qed

definition kk_sorted :: "int list \<Rightarrow> (nat \<times> int) list" where
  "kk_sorted ws = map (\<lambda>(seqlen, i). (i, seqlen)) (sort (zip ws [0..<length ws]))"

definition kk_groups :: "int list \<Rightarrow> nat \<Rightarrow> bool \<Rightarrow> (nat \<times> int) list list" where
  "kk_groups ws k equal_size =
     (if equal_size then kk_chunks k (kk_sorted ws) else map (\<lambda>x. [x]) (kk_sorted ws))"

lemma length_kk_sorted [simp]: "length (kk_sorted ws) = length ws"
  by (simp add: kk_sorted_def)

lemma mset_kk_sorted: "mset (kk_sorted ws) = mset (map (\<lambda>i. (i, ws ! i)) [0..<length ws])"
proof -
  have "mset (kk_sorted ws) = mset (map (\<lambda>(v, i). (i, v)) (zip ws [0..<length ws]))"
    by (simp add: kk_sorted_def)
  also have "map (\<lambda>(v, i). (i, v)) (zip ws [0..<length ws]) = map (\<lambda>i. (i, ws ! i)) [0..<length ws]"
    by (intro nth_equalityI) auto
  finally show ?thesis .
qed

lemma kk_sorted_mem: "(i, v) \<in> set (kk_sorted ws) \<longleftrightarrow> i < length ws \<and> v = ws ! i"
  using mset_eq_setD[OF mset_kk_sorted[of ws]] by auto

lemma kk_groups_props:
  assumes "0 < k" "ws \<noteq> []" "equal_size \<longrightarrow> length ws mod k = 0"
  shows "concat (kk_groups ws k equal_size) = kk_sorted ws"
    "kk_groups ws k equal_size \<noteq> []"
    "g \<in> set (kk_groups ws k equal_size) \<Longrightarrow> length g = (if equal_size then k else 1)"
proof -
  show concat: "concat (kk_groups ws k equal_size) = kk_sorted ws"
    using assms by (auto simp: kk_groups_def concat_kk_chunks)
  show "kk_groups ws k equal_size \<noteq> []"
  proof
    assume "kk_groups ws k equal_size = []"
    then have "kk_sorted ws = []" using concat by simp
    then show False using assms(2) by (metis length_0_conv length_kk_sorted)
  qed
  show "g \<in> set (kk_groups ws k equal_size) \<Longrightarrow> length g = (if equal_size then k else 1)"
    using assms by (auto simp: kk_groups_def length_kk_chunks[of k "kk_sorted ws"])
qed

lemma karmarkar_karp_eq:
  assumes "0 < k" "equal_size \<longrightarrow> length ws mod k = 0"
  shows "karmarkar_karp ws k equal_size =
    bind_res (kk_run k (kk_groups ws k equal_size)) (\<lambda>q'.
      (case q' of [] \<Rightarrow> Inl IndexError
       | s # _ \<Rightarrow> require (equal_size \<longrightarrow> list_all (\<lambda>p. length p * k = length ws) (kk_get_partitions s))
           AssertionError (Inr (kk_get_partitions s))))"
proof -
  have assoc: "bind_res (bind_res r f) g = bind_res r (\<lambda>x. bind_res (f x) g)" for r :: "'a res" and f :: "'a \<Rightarrow> 'b res" and g :: "'b \<Rightarrow> 'c res"
    by (cases r) auto
  show ?thesis
    using assms by (auto simp: karmarkar_karp_def Let_def kk_groups_def kk_sorted_def assoc)
qed

lemma karmarkar_karp_divides:
  "karmarkar_karp ws k True = Inr ps \<Longrightarrow> 0 < k \<and> length ws mod k = 0"
  by (cases "k = 0"; cases "length ws mod k = 0") (auto simp: karmarkar_karp_def Let_def)

lemma kk_init_sets:
  assumes "kk_init g k = Inr s" "t \<in> set (kk_sets s)"
  shows "(\<exists>(i, v) \<in> set g. t = KKSet v [(i, v)]) \<or> t = kk_empty \<and> length g < k"
proof -
  have "set (kk_sets s) = set (map (\<lambda>(idx, v). kk_add idx v kk_empty) g
       @ replicate (k - length g) kk_empty)"
    using kk_init_Inr(3)[OF assms(1)] by (rule mset_eq_setD)
  with assms(2) show ?thesis
    by (auto simp: kk_add_def kk_empty_def split: if_splits)
qed

lemma kk_init_filled: "kk_init g k = Inr s \<Longrightarrow> kk_filled s = length g"
  unfolding kk_filled_def
  by (subst length_filter_mset_cong[OF kk_init_Inr(3)])
    (auto simp: kk_add_def kk_empty_def filter_map o_def case_prod_beta)

text \<open>Everything the run promises, for every mode and sign of the weights at once.\<close>

definition kk_bound :: "int list \<Rightarrow> bool \<Rightarrow> int" where
  "kk_bound ws equal_size = (if equal_size then Max (set ws) - Min (set ws) else Max (set ws))"

definition kk_post :: "nat \<Rightarrow> int list \<Rightarrow> bool \<Rightarrow> kk_state \<Rightarrow> bool" where
  "kk_post k ws equal_size s \<longleftrightarrow>
     (equal_size \<longrightarrow> kk_even s \<and> kk_within (kk_bound ws equal_size) s)
     \<and> (list_all (\<lambda>v. 0 \<le> v) ws \<longrightarrow> kk_nonneg s \<and> min k (size (kk_items s)) \<le> kk_filled s
          \<and> kk_within (kk_bound ws equal_size) s)"

lemma kk_post_merge:
  "kk_ok k s \<Longrightarrow> kk_ok k t \<Longrightarrow> kk_post k ws e s \<Longrightarrow> kk_post k ws e t \<Longrightarrow> kk_post k ws e (kk_merge s t)"
  by (auto simp: kk_post_def kk_items_merge kk_filled_merge intro: kk_intros)

lemma kk_within_init:
  assumes "g \<in> set (kk_groups ws k e)" "kk_init g k = Inr s"
    and k: "0 < k" "ws \<noteq> []" "e \<longrightarrow> length ws mod k = 0"
    and "e \<or> list_all (\<lambda>v. 0 \<le> v) ws"
  shows "kk_within (kk_bound ws e) s"
proof -
  note gs = kk_groups_props[OF k]
  have mem: "v \<in> set ws" if "(i, v) \<in> set g" for i v
    using that assms(1) by (metis UN_I gs(1) kk_sorted_mem nth_mem set_concat)
  have sums: "set_sum t \<in> set ws \<or> \<not> e \<and> set_sum t = 0" if "t \<in> set (kk_sets s)" for t
    using kk_init_sets[OF assms(2) that] gs(3)[OF assms(1)] mem
    by (auto simp: kk_empty_def split: if_splits)
  have "v \<le> Max (set ws) \<and> Min (set ws) \<le> v" if "v \<in> set ws" for v
    using that by simp
  moreover have "0 \<le> v" if "\<not> e" "v \<in> set ws" for v
    using that assms(6) by (auto simp: list_all_iff)
  moreover have "\<exists>v. v \<in> set ws" using k(2) by (cases ws) auto
  ultimately have "set_sum t - set_sum u \<le> kk_bound ws e"
    if "t \<in> set (kk_sets s)" "u \<in> set (kk_sets s)" for t u
    using sums[OF that(1)] sums[OF that(2)] unfolding kk_bound_def
    by (smt (verit, best))
  then show ?thesis by (simp add: kk_within_def)
qed

lemma kk_post_init:
  assumes "g \<in> set (kk_groups ws k e)" "kk_init g k = Inr s"
    and k: "0 < k" "ws \<noteq> []" "e \<longrightarrow> length ws mod k = 0"
  shows "kk_post k ws e s"
proof -
  note gs = kk_groups_props[OF k]
  have nonneg: "kk_nonneg s" if "list_all (\<lambda>v. 0 \<le> v) ws"
  proof -
    have "0 \<le> v" if "(i, v) \<in> set g" for i v
    proof -
      have "(i, v) \<in> set (kk_sorted ws)" using that assms(1) gs(1) by (metis UN_I set_concat)
      then show ?thesis using \<open>list_all (\<lambda>v. 0 \<le> v) ws\<close> by (auto simp: kk_sorted_mem list_all_length)
    qed
    then show ?thesis using kk_init_Inr(2)[OF assms(2)] by (auto simp: kk_nonneg_def)
  qed
  have "kk_even s" if e
  proof -
    have "length (set_items t) = 1" if "t \<in> set (kk_sets s)" for t
      using kk_init_sets[OF assms(2) that] gs(3)[OF assms(1)] \<open>e\<close> by auto
    then show ?thesis by (simp add: kk_even_def)
  qed
  moreover have "min k (size (kk_items s)) \<le> kk_filled s"
    using kk_init_filled[OF assms(2)] kk_init_Inr(2)[OF assms(2)] by simp
  ultimately show ?thesis
    unfolding kk_post_def using nonneg kk_within_init[OF assms(1,2) k] by blast
qed

lemma kk_run_post:
  assumes k: "0 < k" "ws \<noteq> []" "e \<longrightarrow> length ws mod k = 0"
  shows "\<exists>s. kk_run k (kk_groups ws k e) = Inr [s] \<and> kk_ok k s \<and> kk_post k ws e s
    \<and> kk_items s = mset (kk_sorted ws)"
proof -
  note gs = kk_groups_props[OF k]
  have "\<exists>s. kk_run k (kk_groups ws k e) = Inr [s] \<and> kk_ok k s \<and> kk_post k ws e s
      \<and> kk_items s = mset (concat (kk_groups ws k e))"
    by (rule kk_run_invariant)
      (use k gs in \<open>auto intro: kk_post_merge kk_post_init split: if_splits\<close>)
  then show ?thesis by (simp add: gs(1))
qed

lemma kk_partitions_items:
  assumes "kk_items s = mset (kk_sorted ws)"
  shows "mset (concat (kk_get_partitions s)) = mset [0..<length ws]"
proof -
  have "concat (kk_get_partitions s) = map fst (concat (map set_items (kk_sets s)))"
    by (simp add: kk_get_partitions_def map_concat o_def)
  then have "mset (concat (kk_get_partitions s)) = image_mset fst (kk_items s)"
    by (simp add: kk_items_def flip: mset_map)
  also have "\<dots> = mset (map fst (map (\<lambda>i. (i, ws ! i)) [0..<length ws]))"
    by (simp only: assms mset_kk_sorted mset_map)
  finally show ?thesis by (simp add: o_def)
qed

lemma kk_even_length:
  assumes "kk_ok k s" "kk_even s" "kk_items s = mset (kk_sorted ws)" "p \<in> set (kk_get_partitions s)"
  shows "length p * k = length ws"
proof -
  define m where "m = length p"
  have eq: "length q = m" if "q \<in> set (kk_get_partitions s)" for q
    unfolding m_def using assms(4) that
    by (auto simp: kk_get_partitions_def intro: kk_evenD[OF assms(2)])
  have "length ws = length (concat (kk_get_partitions s))"
    using mset_upt_length[OF kk_partitions_items[OF assms(3)]] by simp
  also have "\<dots> = sum_list (map (\<lambda>q. m) (kk_get_partitions s))"
    unfolding length_concat by (rule arg_cong[where f = sum_list]) (simp add: eq cong: map_cong)
  also have "\<dots> = m * length (kk_get_partitions s)"
    by (simp add: sum_list_triv)
  also have "length (kk_get_partitions s) = k"
    using kk_okD(2)[OF assms(1)] by (simp add: kk_get_partitions_def)
  finally show ?thesis by (simp add: m_def)
qed

lemma karmarkar_karp_post:
  assumes k: "0 < k" "ws \<noteq> []" "e \<longrightarrow> length ws mod k = 0"
  shows "\<exists>s. karmarkar_karp ws k e = Inr (kk_get_partitions s) \<and> kk_ok k s \<and> kk_post k ws e s
    \<and> kk_items s = mset (kk_sorted ws)"
proof -
  obtain s where s: "kk_run k (kk_groups ws k e) = Inr [s]" "kk_ok k s" "kk_post k ws e s"
    "kk_items s = mset (kk_sorted ws)"
    using kk_run_post[OF k] by blast
  then have "e \<longrightarrow> list_all (\<lambda>p. length p * k = length ws) (kk_get_partitions s)"
    using kk_even_length by (auto simp: list_all_iff kk_post_def)
  with s show ?thesis
    using karmarkar_karp_eq[OF k(1,3)] by auto
qed

section \<open>Properties of the partitioner\<close>

definition index_sum :: "int list \<Rightarrow> nat list \<Rightarrow> int" where
  "index_sum ws p = sum_list (map (\<lambda>i. ws ! i) p)"

lemma kk_set_index_sum:
  assumes "kk_ok k s" "kk_items s = mset (kk_sorted ws)" "t \<in> set (kk_sets s)"
  shows "index_sum ws (map fst (set_items t)) = set_sum t"
proof -
  have "x \<in> set (kk_sorted ws)" if "x \<in> set (set_items t)" for x
  proof -
    have "x \<in># kk_items s" using that assms(3) by (auto simp: kk_items_def)
    then show ?thesis by (simp add: assms(2))
  qed
  then have "map (\<lambda>x. ws ! fst x) (set_items t) = map snd (set_items t)"
    by (intro map_cong) (auto simp: kk_sorted_mem)
  then have "index_sum ws (map fst (set_items t)) = item_sum (set_items t)"
    by (simp only: index_sum_def item_sum_def map_map o_def)
  then show ?thesis
    using kk_okD(4)[OF assms(1,3)] by (simp add: set_ok_def)
qed

lemma kk_filled_all:
  assumes "kk_ok k s" "kk_filled s = k" "t \<in> set (kk_sets s)"
  shows "set_items t \<noteq> []"
proof -
  have "length (filter (\<lambda>t. set_items t \<noteq> []) (kk_sets s)) = length (kk_sets s)"
    using assms(2) kk_okD(2)[OF assms(1)] by (simp add: kk_filled_def)
  then show ?thesis
    using assms(3) by (metis (mono_tags, lifting) filter_id_conv filter_True length_filter_less nat_less_le)
qed

text \<open>
  C1. \<open>karmarkar_karp\<close> with a positive number of partitions and a non-empty list (whose length
  the number divides when equal sizes are asked for) raises nothing, returns that many
  partitions, and every index is in exactly one of them; with \<open>equal_size\<close> all have the same
  size.
\<close>

theorem karmarkar_karp_partitions:
  assumes "0 < k" "ws \<noteq> []" "e \<longrightarrow> length ws mod k = 0"
  shows "\<exists>ps. karmarkar_karp ws k e = Inr ps \<and> length ps = k
    \<and> mset (concat ps) = mset [0..<length ws]
    \<and> (e \<longrightarrow> (\<forall>p \<in> set ps. length p * k = length ws))"
proof -
  obtain s where s: "karmarkar_karp ws k e = Inr (kk_get_partitions s)" "kk_ok k s"
    "kk_post k ws e s" "kk_items s = mset (kk_sorted ws)"
    using karmarkar_karp_post[OF assms] by blast
  then have "length (kk_get_partitions s) = k"
    by (simp add: kk_get_partitions_def kk_okD(2))
  with s show ?thesis
    using kk_partitions_items[OF s(4)] kk_even_length[OF s(2) _ s(4)] by (auto simp: kk_post_def)
qed

theorem karmarkar_karp_partitions_witness:
  "\<exists>ps. karmarkar_karp [5, 3, 8, 1] 2 True = Inr ps \<and> length ps = 2
    \<and> mset (concat ps) = mset [0..<length [5, 3, 8, 1 :: int]]
    \<and> (True \<longrightarrow> (\<forall>p \<in> set ps. length p * 2 = length [5, 3, 8, 1 :: int]))"
  by (rule karmarkar_karp_partitions) simp_all

lemma karmarkar_karp_within:
  assumes "karmarkar_karp ws k e = Inr ps" "0 < k" "ws \<noteq> []" "e \<longrightarrow> length ws mod k = 0"
    and "\<not> e \<longrightarrow> (\<forall>v \<in> set ws. 0 \<le> v)" "p \<in> set ps" "q \<in> set ps"
  shows "index_sum ws p - index_sum ws q
    \<le> (if e then Max (set ws) - Min (set ws) else Max (set ws))"
proof -
  obtain s where s: "ps = kk_get_partitions s" "kk_ok k s" "kk_post k ws e s"
    "kk_items s = mset (kk_sorted ws)"
    using karmarkar_karp_post[OF assms(2-4)] assms(1) by auto
  obtain t u where tu: "t \<in> set (kk_sets s)" "u \<in> set (kk_sets s)"
    "p = map fst (set_items t)" "q = map fst (set_items u)"
    using assms(6,7) by (auto simp: s(1) kk_get_partitions_def)
  have "kk_within (kk_bound ws e) s"
    using s(3) assms(5) by (auto simp: kk_post_def list_all_iff)
  then have "set_sum t - set_sum u \<le> kk_bound ws e"
    using tu(1,2) by (simp add: kk_within_def)
  then show ?thesis
    by (simp add: tu kk_set_index_sum[OF s(2,4)] kk_bound_def)
qed

text \<open>
  C2. The differencing method balances: any two partitions it returns differ in their sums by at
  most the largest weight (non-negative weights), and by at most the largest minus the smallest
  weight when equal sizes are asked for (any weights).
\<close>

theorem karmarkar_karp_balanced:
  assumes "karmarkar_karp ws k e = Inr ps" "0 < k" "ws \<noteq> []" "e \<longrightarrow> length ws mod k = 0"
    and "\<not> e \<longrightarrow> (\<forall>v \<in> set ws. 0 \<le> v)" "p \<in> set ps" "q \<in> set ps"
  shows "index_sum ws p - index_sum ws q
    \<le> (if e then Max (set ws) - Min (set ws) else Max (set ws))"
  using assms by (rule karmarkar_karp_within)

theorem karmarkar_karp_balanced_witness:
  "index_sum [5, 3, 8, 1] [3, 2] - index_sum [5, 3, 8, 1] [0, 1] \<le> 8"
proof -
  have run: "karmarkar_karp [5, 3, 8, 1] 2 False = Inr [[3, 2], [0, 1]]"
    by code_simp
  show ?thesis
    using karmarkar_karp_balanced[OF run, of "[3, 2]" "[0, 1]"] by (simp add: index_sum_def)
qed

lemma balanced_partitions_total:
  assumes "0 < k" "k \<le> length ws" "\<forall>v \<in> set ws. 0 \<le> v" "e \<longrightarrow> length ws mod k = 0"
  shows "\<exists>ps. get_seqlen_balanced_partitions ws k e = Inr ps \<and> length ps = k
    \<and> mset (concat ps) = mset [0..<length ws]
    \<and> (\<forall>p \<in> set ps. p \<noteq> [] \<and> sorted p \<and> (e \<longrightarrow> length p * k = length ws))"
proof -
  from assms(1,2) have ne: "ws \<noteq> []" by auto
  obtain s where s: "karmarkar_karp ws k e = Inr (kk_get_partitions s)" "kk_ok k s"
    "kk_post k ws e s" "kk_items s = mset (kk_sorted ws)"
    using karmarkar_karp_post[OF assms(1) ne assms(4)] by blast
  let ?ps = "kk_get_partitions s"
  have "size (kk_items s) = length ws" by (simp add: s(4))
  then have "k \<le> kk_filled s"
    using s(3) assms(2,3) by (auto simp: kk_post_def list_all_iff)
  then have "kk_filled s = k"
    using kk_okD(2)[OF s(2)] unfolding kk_filled_def by (metis length_filter_le le_antisym)
  then have nonempty: "\<forall>p \<in> set ?ps. p \<noteq> []"
    using kk_filled_all[OF s(2)] by (auto simp: kk_get_partitions_def)
  have len: "length ?ps = k"
    by (simp add: kk_get_partitions_def kk_okD(2)[OF s(2)])
  have cover: "mset (concat ?ps) = mset [0..<length ws]"
    by (rule kk_partitions_items[OF s(4)])
  have "mset (concat (map sort ?ps)) = mset (concat ?ps)"
    by (simp add: mset_concat o_def)
  moreover have "get_seqlen_balanced_partitions ws k e = Inr (map sort ?ps)"
    using assms(2) s(1) len nonempty mset_upt_set[OF cover]
    by (simp add: get_seqlen_balanced_partitions_def check_and_sort_partitions_def list_all_iff)
  moreover have "e \<longrightarrow> (\<forall>p \<in> set ?ps. length p * k = length ws)"
    using kk_even_length[OF s(2) _ s(4)] s(3) by (auto simp: kk_post_def)
  ultimately show ?thesis
    using len nonempty cover by auto
qed

text \<open>
  The checked entry point: with at least as many non-negative weights as partitions, none of
  its assertions fails, in particular no partition is empty; the partitions it returns are
  sorted, non-empty, cover every index once, and have equal sizes when asked for.
\<close>

theorem get_seqlen_balanced_partitions_total:
  assumes "0 < k" "k \<le> length ws" "\<forall>v \<in> set ws. 0 \<le> v" "e \<longrightarrow> length ws mod k = 0"
  shows "\<exists>ps. get_seqlen_balanced_partitions ws k e = Inr ps \<and> length ps = k
    \<and> mset (concat ps) = mset [0..<length ws]
    \<and> (\<forall>p \<in> set ps. p \<noteq> [] \<and> sorted p \<and> (e \<longrightarrow> length p * k = length ws))"
  using assms by (rule balanced_partitions_total)

theorem get_seqlen_balanced_partitions_total_witness:
  "\<exists>ps. get_seqlen_balanced_partitions [0, 0, 7] 3 False = Inr ps \<and> length ps = 3
    \<and> mset (concat ps) = mset [0..<length [0, 0, 7 :: int]]
    \<and> (\<forall>p \<in> set ps. p \<noteq> [] \<and> sorted p \<and> (False \<longrightarrow> length p * 3 = length [0, 0, 7 :: int]))"
  by (rule get_seqlen_balanced_partitions_total) simp_all

end
