(* ===== verification/Greedy_Partition.thy ===== *)
theory Greedy_Partition
  imports Seqlen_Balancing
begin

text \<open>
  \<open>greedy_partition\<close>, the imbalance report \<open>log_seqlen_unbalance\<close> and the two rounding helpers of
  \<open>verl/verl/utils/seqlen_balancing.py\<close>.
\<close>

section \<open>Rounding\<close>

text \<open>Python's \<open>//\<close> on integers rounds down, as \<open>div\<close> does; a zero divisor raises.\<close>

definition ceildiv :: "int \<Rightarrow> int \<Rightarrow> int res" where
  "ceildiv a b = (if b = 0 then Inl ZeroDivisionError else Inr (- (a div - b)))"

definition roundup_divisible :: "int \<Rightarrow> int \<Rightarrow> int res" where
  "roundup_divisible a b = (if b = 0 then Inl ZeroDivisionError else Inr ((a + b - 1) div b * b))"

lemma ceildiv_bounds:
  assumes "0 < b" "ceildiv a b = Inr q"
  shows "a \<le> q * b" "(q - 1) * b < a"
proof -
  from assms have q: "q = - (a div - b)" by (simp add: ceildiv_def)
  have "a = (a div - b) * (- b) + a mod - b" by (rule div_mult_mod_eq[symmetric])
  moreover have "a mod - b \<le> 0" "- b < a mod - b"
    using assms(1) by (simp_all add: neg_mod_bound)
  ultimately show "a \<le> q * b" "(q - 1) * b < a"
    unfolding q by (simp_all add: left_diff_distrib)
qed

lemma roundup_bounds:
  assumes "0 < b" "roundup_divisible a b = Inr m"
  shows "b dvd m" "a \<le> m" "m < a + b"
proof -
  from assms have m: "m = (a + b - 1) div b * b" by (simp add: roundup_divisible_def)
  have "a + b - 1 = (a + b - 1) div b * b + (a + b - 1) mod b" by (rule div_mult_mod_eq[symmetric])
  moreover have "0 \<le> (a + b - 1) mod b" "(a + b - 1) mod b < b"
    using assms(1) by simp_all
  ultimately show "b dvd m" "a \<le> m" "m < a + b"
    unfolding m by (simp, linarith+)
qed

section \<open>The greedy partitioner\<close>

fun pick_min :: "int list \<Rightarrow> nat list \<Rightarrow> nat option \<Rightarrow> nat option" where
  "pick_min partition_sums [] min_idx = min_idx"
| "pick_min partition_sums (j # js) min_idx = pick_min partition_sums js
     (case min_idx of
        None \<Rightarrow> Some j
      | Some i \<Rightarrow> if partition_sums ! j < partition_sums ! i then Some j else min_idx)"

fun greedy_loop :: "nat \<Rightarrow> (int \<times> nat) list \<Rightarrow> nat list list \<times> int list \<Rightarrow> (nat list list \<times> int list) res" where
  "greedy_loop k [] st = Inr st"
| "greedy_loop k ((seqlen, i) # rest) (partitions, partition_sums) =
     (case pick_min partition_sums [0..<k] None of
        None \<Rightarrow> Inl TypeError
      | Some m \<Rightarrow> greedy_loop k rest
          (partitions[m := partitions ! m @ [i]], partition_sums[m := partition_sums ! m + seqlen]))"

definition greedy_partition :: "int list \<Rightarrow> nat \<Rightarrow> bool \<Rightarrow> nat list list res" where
  "greedy_partition seqlen_list k equal_size =
     (let bias = (if equal_size then sum_list seqlen_list + 1 else 0);
          items = map (\<lambda>(i, seqlen). (seqlen + bias, i)) (enumerate 0 seqlen_list)
      in bind_res (greedy_loop k items (replicate k [], replicate k 0)) (\<lambda>(partitions, _).
           require (equal_size \<longrightarrow> list_all (\<lambda>p. length p * k = length seqlen_list) partitions)
             AssertionError (Inr partitions)))"

lemma pick_min_Some:
  assumes "set js \<subseteq> {0..<length ss}" "case m of None \<Rightarrow> js \<noteq> [] | Some i \<Rightarrow> i < length ss"
  shows "\<exists>i. pick_min ss js m = Some i \<and> i < length ss
    \<and> (\<forall>j \<in> set js. ss ! i \<le> ss ! j) \<and> (\<forall>i'. m = Some i' \<longrightarrow> ss ! i \<le> ss ! i')"
  using assms
proof (induction js arbitrary: m)
  case (Cons j js)
  let ?m = "case m of None \<Rightarrow> Some j | Some i \<Rightarrow> if ss ! j < ss ! i then Some j else m"
  have "case ?m of None \<Rightarrow> js \<noteq> [] | Some i \<Rightarrow> i < length ss"
    using Cons.prems by (auto split: option.splits)
  then obtain i where "pick_min ss js ?m = Some i" "i < length ss"
    "\<forall>j \<in> set js. ss ! i \<le> ss ! j" "\<forall>i'. ?m = Some i' \<longrightarrow> ss ! i \<le> ss ! i'"
    using Cons.IH[of ?m] Cons.prems(1) by auto
  then show ?case
    by (auto split: option.splits if_splits)
qed (auto split: option.splits)

text \<open>
  The invariant after the items in \<open>xs\<close>: every one of them is in one partition, each sum is that
  of the biased weights of its partition, and no two sums are further apart than \<open>d\<close>.
\<close>

definition greedy_inv :: "nat \<Rightarrow> int list \<Rightarrow> int \<Rightarrow> int \<Rightarrow> nat list \<Rightarrow> nat list list \<times> int list \<Rightarrow> bool" where
  "greedy_inv k ws bias d xs st \<longleftrightarrow>
     length (fst st) = k \<and> length (snd st) = k \<and> mset (concat (fst st)) = mset xs
     \<and> (\<forall>j < k. snd st ! j = index_sum ws (fst st ! j) + bias * int (length (fst st ! j)))
     \<and> (\<forall>a < k. \<forall>b < k. snd st ! a - snd st ! b \<le> d)"

lemma index_sum_append [simp]: "index_sum ws (p @ q) = index_sum ws p + index_sum ws q"
  by (simp add: index_sum_def)

lemma index_sum_simps [simp]: "index_sum ws [] = 0" "index_sum ws (i # p) = ws ! i + index_sum ws p"
  by (simp_all add: index_sum_def)

lemma mset_concat_update:
  "m < length ps \<Longrightarrow> mset (concat (ps[m := ps ! m @ ys])) = mset (concat ps) + mset ys"
  by (induction ps arbitrary: m) (auto split: nat.splits)

lemma greedy_step_inv:
  assumes inv: "greedy_inv k ws bias d xs (ps, ss)" and m: "m < k" "\<forall>j < k. ss ! m \<le> ss ! j"
    and i: "ws ! i + bias \<le> d" "0 \<le> ws ! i + bias"
  shows "greedy_inv k ws bias d (xs @ [i])
    (ps[m := ps ! m @ [i]], ss[m := ss ! m + (ws ! i + bias)])"
proof -
  from inv have len: "length ps = k" "length ss = k" by (simp_all add: greedy_inv_def)
  have within: "ss ! a - ss ! b \<le> d" if "a < k" "b < k" for a b
    using inv that unfolding greedy_inv_def fst_conv snd_conv by blast
  have sum_at: "ss ! j = index_sum ws (ps ! j) + bias * int (length (ps ! j))" if "j < k" for j
    using inv that unfolding greedy_inv_def fst_conv snd_conv by blast
  have "ss[m := ss ! m + (ws ! i + bias)] ! a - ss[m := ss ! m + (ws ! i + bias)] ! b \<le> d"
    if "a < k" "b < k" for a b
    using that m i within[OF that] within[of a m] within[of m b] len
    by (auto simp: nth_list_update)
  moreover have "ss[m := ss ! m + (ws ! i + bias)] ! j
      = index_sum ws (ps[m := ps ! m @ [i]] ! j) + bias * int (length (ps[m := ps ! m @ [i]] ! j))"
    if "j < k" for j
    using that m(1) len sum_at[OF that] by (cases "j = m") (simp_all add: algebra_simps)
  ultimately show ?thesis
    using inv m(1) len by (simp add: greedy_inv_def mset_concat_update)
qed

lemma greedy_loop_inv:
  assumes "0 < k" "greedy_inv k ws bias d xs st"
    and "\<And>v i. (v, i) \<in> set items \<Longrightarrow> v = ws ! i + bias \<and> v \<le> d \<and> 0 \<le> v"
    and step: "\<And>xs ps ss m i. greedy_inv k ws bias d xs (ps, ss) \<Longrightarrow> Q (ps, ss) \<Longrightarrow> m < k
      \<Longrightarrow> \<forall>j < k. ss ! m \<le> ss ! j \<Longrightarrow> distinct xs \<Longrightarrow> set xs \<subseteq> {0..<length ws}
      \<Longrightarrow> Q (ps[m := ps ! m @ [i]], ss[m := ss ! m + (ws ! i + bias)])"
    and "Q st" "distinct (xs @ map snd items)" "set (xs @ map snd items) \<subseteq> {0..<length ws}"
  shows "\<exists>st'. greedy_loop k items st = Inr st' \<and> greedy_inv k ws bias d (xs @ map snd items) st' \<and> Q st'"
  using assms(2,3,5-7)
proof (induction items arbitrary: xs st)
  case (Cons item items)
  obtain v i where item: "item = (v, i)" by fastforce
  obtain ps ss where st: "st = (ps, ss)" by fastforce
  have len: "length ss = k" using Cons.prems(1) by (simp add: st greedy_inv_def)
  obtain m where m: "pick_min ss [0..<k] None = Some m" "m < k" "\<forall>j < k. ss ! m \<le> ss ! j"
    using pick_min_Some[of "[0..<k]" ss None] assms(1) len by auto
  have v: "v = ws ! i + bias" "v \<le> d" "0 \<le> v"
    using Cons.prems(2)[of v i] by (simp_all add: item)
  let ?st = "(ps[m := ps ! m @ [i]], ss[m := ss ! m + (ws ! i + bias)])"
  have "greedy_inv k ws bias d (xs @ [i]) ?st"
    using Cons.prems(1) m v by (intro greedy_step_inv) (auto simp: st)
  moreover have "Q ?st"
    using Cons.prems by (intro step) (auto simp: st item m)
  ultimately have "\<exists>st'. greedy_loop k items ?st = Inr st'
      \<and> greedy_inv k ws bias d ((xs @ [i]) @ map snd items) st' \<and> Q st'"
    using Cons.prems by (intro Cons.IH) (auto simp: item)
  then show ?case
    by (simp add: item st m v)
qed simp

subsection \<open>Equal sizes from the bias\<close>

definition counts_level :: "nat \<Rightarrow> nat list list \<times> int list \<Rightarrow> bool" where
  "counts_level k st \<longleftrightarrow> (\<forall>a < k. \<forall>b < k. length (fst st ! a) \<le> length (fst st ! b) + 1)"

lemma index_sum_nonneg: "\<forall>v \<in> set ws. 0 \<le> v \<Longrightarrow> set p \<subseteq> {0..<length ws} \<Longrightarrow> 0 \<le> index_sum ws p"
  by (induction p) auto

lemma index_sum_perm: "mset p = mset q \<Longrightarrow> index_sum ws p = index_sum ws q"
  unfolding index_sum_def by (metis mset_map sum_mset_sum_list)

lemma index_sum_le_total:
  assumes "\<forall>v \<in> set ws. 0 \<le> v" "distinct p" "set p \<subseteq> {0..<length ws}"
  shows "index_sum ws p \<le> sum_list ws"
proof -
  have "index_sum ws p = (\<Sum>i\<in>set p. ws ! i)"
    using assms(2) by (simp add: index_sum_def sum_list_distinct_conv_sum_set)
  also have "\<dots> \<le> (\<Sum>i = 0..<length ws. ws ! i)"
    using assms by (intro sum_mono2) auto
  finally show ?thesis by (simp add: sum_list_sum_nth)
qed

lemma part_of_concat:
  assumes "mset (concat ps) = mset xs" "distinct xs" "j < length ps"
  shows "distinct (ps ! j)" "set (ps ! j) \<subseteq> set xs"
proof -
  have "distinct (concat ps)" using assms(1,2) by (metis mset_eq_imp_distinct_iff)
  then show "distinct (ps ! j)" using assms(3) by (auto simp: distinct_concat_iff)
  have "set (ps ! j) \<subseteq> set (concat ps)" using nth_mem[OF assms(3)] by auto
  then show "set (ps ! j) \<subseteq> set xs" using assms(1) by (metis mset_eq_setD)
qed

lemma counts_level_step:
  assumes inv: "greedy_inv k ws (sum_list ws + 1) d xs (ps, ss)" and level: "counts_level k (ps, ss)"
    and m: "m < k" "\<forall>j < k. ss ! m \<le> ss ! j"
    and xs: "distinct xs" "set xs \<subseteq> {0..<length ws}" and ws: "\<forall>v \<in> set ws. 0 \<le> v"
  shows "counts_level k (ps[m := ps ! m @ [i]], ss')"
proof -
  from inv have len: "length ps = k" and cover: "mset (concat ps) = mset xs"
    by (simp_all add: greedy_inv_def)
  have sum_at: "ss ! j = index_sum ws (ps ! j) + (sum_list ws + 1) * int (length (ps ! j))"
    if "j < k" for j
    using inv that unfolding greedy_inv_def fst_conv snd_conv by blast
  have part: "0 \<le> index_sum ws (ps ! j)" "index_sum ws (ps ! j) \<le> sum_list ws" if "j < k" for j
    using part_of_concat[OF cover xs(1)] that xs(2) len ws
    by (auto intro!: index_sum_nonneg index_sum_le_total)
  have least: "length (ps ! m) \<le> length (ps ! j)" if "j < k" for j
  proof (rule ccontr)
    assume "\<not> ?thesis"
    then have "(sum_list ws + 1) * (int (length (ps ! j)) + 1) \<le> (sum_list ws + 1) * int (length (ps ! m))"
      using ws by (intro mult_left_mono) (auto simp: sum_list_nonneg)
    then show False
      using m(2) that sum_at[OF that] sum_at[OF m(1)] part[OF that] part[OF m(1)]
      by (force simp: algebra_simps)
  qed
  have "length (ps[m := ps ! m @ [i]] ! a) \<le> length (ps[m := ps ! m @ [i]] ! b) + 1"
    if "a < k" "b < k" for a b
  proof -
    have "length (ps ! a) \<le> length (ps ! b) + 1"
      using level that by (simp add: counts_level_def)
    then show ?thesis
      using that least[OF that(2)] len m(1) by (cases "a = m"; cases "b = m") auto
  qed
  then show ?thesis by (simp add: counts_level_def)
qed

lemma counts_level_equal:
  assumes "counts_level k (ps, ss)" "length ps = k" "length (concat ps) = m * k" "p \<in> set ps"
  shows "length p = m"
proof -
  have sum: "(\<Sum>j<k. length (ps ! j)) = m * k"
    using assms(2,3) by (simp add: length_concat sum_list_sum_nth lessThan_atLeast0)
  have up: "length (ps ! a) \<le> m" if "a < k" for a
  proof (rule ccontr)
    assume big: "\<not> length (ps ! a) \<le> m"
    have "m \<le> length (ps ! b)" if "b < k" for b
    proof -
      have "length (ps ! a) \<le> length (ps ! b) + 1"
        using assms(1) that \<open>a < k\<close> by (simp add: counts_level_def)
      with big show ?thesis by simp
    qed
    then have "(\<Sum>j<k. m) < (\<Sum>j<k. length (ps ! j))"
      using \<open>a < k\<close> big by (intro sum_strict_mono_ex1) (auto simp: not_le)
    with sum show False by simp
  qed
  obtain a where a: "a < k" "p = ps ! a"
    using assms(2,4) by (auto simp: in_set_conv_nth)
  show ?thesis
  proof (rule ccontr)
    assume "\<not> ?thesis"
    with a up[OF a(1)] have "length (ps ! a) < m" by simp
    with a(1) have "\<exists>j \<in> {..<k}. length (ps ! j) < m" by blast
    then have "(\<Sum>j<k. length (ps ! j)) < (\<Sum>j<k. m)"
      using up by (intro sum_strict_mono_ex1) auto
    with sum show False by simp
  qed
qed

subsection \<open>What the greedy partitioner returns\<close>

lemma greedy_inv_init:
  "0 \<le> d \<Longrightarrow> greedy_inv k ws bias d [] (replicate k [], replicate k 0)"
  by (simp add: greedy_inv_def)

definition greedy_bias :: "int list \<Rightarrow> bool \<Rightarrow> int" where
  "greedy_bias ws e = (if e then sum_list ws + 1 else 0)"

lemma greedy_partition_run:
  assumes k: "0 < k" and ws: "\<forall>v \<in> set ws. 0 \<le> v" "ws \<noteq> []"
  shows "\<exists>ps ss. greedy_loop k (map (\<lambda>(i, v). (v + greedy_bias ws e, i)) (enumerate 0 ws))
      (replicate k [], replicate k 0) = Inr (ps, ss)
    \<and> greedy_inv k ws (greedy_bias ws e) (Max (set ws) + greedy_bias ws e) [0..<length ws] (ps, ss)
    \<and> (e \<longrightarrow> counts_level k (ps, ss))"
proof -
  let ?items = "map (\<lambda>(i, v). (v + greedy_bias ws e, i)) (enumerate 0 ws)"
  have snd: "map snd ?items = [0..<length ws]"
    by (intro nth_equalityI) (auto simp: nth_enumerate_eq)
  have bias: "0 \<le> greedy_bias ws e"
    using ws(1) by (auto simp: greedy_bias_def intro!: sum_list_nonneg add_nonneg_nonneg)
  have item: "v = ws ! i + greedy_bias ws e \<and> v \<le> Max (set ws) + greedy_bias ws e \<and> 0 \<le> v"
    if "(v, i) \<in> set ?items" for v i
    using that bias ws(1) by (auto simp: in_set_enumerate_eq)
  have max: "0 \<le> Max (set ws) + greedy_bias ws e"
    using bias ws by (intro add_nonneg_nonneg) (auto simp: Max_ge_iff neq_Nil_conv)
  have "\<exists>st. greedy_loop k ?items (replicate k [], replicate k 0) = Inr st
      \<and> greedy_inv k ws (greedy_bias ws e) (Max (set ws) + greedy_bias ws e) ([] @ map snd ?items) st
      \<and> (e \<longrightarrow> counts_level k st)"
  proof (rule greedy_loop_inv[OF k greedy_inv_init[OF max] item])
    show "e \<longrightarrow> counts_level k (ps[m := ps ! m @ [i]], ss[m := ss ! m + (ws ! i + greedy_bias ws e)])"
      if "greedy_inv k ws (greedy_bias ws e) (Max (set ws) + greedy_bias ws e) xs (ps, ss)"
        "e \<longrightarrow> counts_level k (ps, ss)" "m < k" "\<forall>j<k. ss ! m \<le> ss ! j"
        "distinct xs" "set xs \<subseteq> {0..<length ws}" for xs ps ss m i
      using that ws(1) counts_level_step by (auto simp: greedy_bias_def)
  qed (simp_all only: snd, auto simp: counts_level_def)
  then obtain st where "greedy_loop k ?items (replicate k [], replicate k 0) = Inr st"
    "greedy_inv k ws (greedy_bias ws e) (Max (set ws) + greedy_bias ws e) [0..<length ws] st"
    "e \<longrightarrow> counts_level k st"
    unfolding snd append_Nil by blast
  then show ?thesis by (cases st) blast
qed

text \<open>
  \<open>greedy_partition\<close> on non-negative weights returns without an error a partition of the indices
  into \<open>k\<close> lists; no two sums of the (unbiased) weights differ by more than the largest weight
  when sizes are free, and with \<open>equal_size\<close> the bias makes all sizes equal, so that its final
  assertion holds.
\<close>

theorem greedy_partition_correct:
  assumes k: "0 < k" and ws: "\<forall>v \<in> set ws. 0 \<le> v" "ws \<noteq> []" and "e \<longrightarrow> length ws mod k = 0"
  shows "\<exists>ps. greedy_partition ws k e = Inr ps \<and> length ps = k
    \<and> mset (concat ps) = mset [0..<length ws]
    \<and> (e \<longrightarrow> (\<forall>p \<in> set ps. length p * k = length ws))
    \<and> (\<not> e \<longrightarrow> (\<forall>p \<in> set ps. \<forall>q \<in> set ps. index_sum ws p - index_sum ws q \<le> Max (set ws)))"
proof -
  obtain ps ss where run: "greedy_loop k (map (\<lambda>(i, v). (v + greedy_bias ws e, i)) (enumerate 0 ws))
      (replicate k [], replicate k 0) = Inr (ps, ss)"
    and inv: "greedy_inv k ws (greedy_bias ws e) (Max (set ws) + greedy_bias ws e) [0..<length ws] (ps, ss)"
    and level: "e \<longrightarrow> counts_level k (ps, ss)"
    using greedy_partition_run[OF k ws] by blast
  have len: "length ps = k" and cover: "mset (concat ps) = mset [0..<length ws]"
    using inv by (simp_all add: greedy_inv_def)
  have "length (concat ps) = length ws div k * k" if e
    using mset_upt_length[OF cover] assms(4) that by auto
  then have "length p = length ws div k" if e "p \<in> set ps" for p
    using counts_level_equal[OF _ len _ that(2)] level that(1) by blast
  moreover have "length ws div k * k = length ws" if e
    using that assms(4) by auto
  ultimately have sizes: "e \<longrightarrow> (\<forall>p \<in> set ps. length p * k = length ws)"
    by simp
  have "index_sum ws p - index_sum ws q \<le> Max (set ws)" if ne: "\<not> e" and pq: "p \<in> set ps" "q \<in> set ps" for p q
  proof -
    obtain a b where ab: "a < k" "p = ps ! a" "b < k" "q = ps ! b"
      using pq len by (auto simp: in_set_conv_nth)
    have "ss ! a = index_sum ws p" "ss ! b = index_sum ws q" "ss ! a - ss ! b \<le> Max (set ws)"
      using inv ne ab unfolding greedy_inv_def greedy_bias_def fst_conv snd_conv
      by (metis (full_types) add_0_right mult_zero_left)+
    then show ?thesis by simp
  qed
  moreover have "greedy_partition ws k e = Inr ps"
    using run sizes by (simp add: greedy_partition_def greedy_bias_def Let_def list_all_iff)
  ultimately show ?thesis
    using len cover sizes by auto
qed

theorem greedy_partition_correct_witness:
  "\<exists>ps. greedy_partition [4, 1, 3, 2] 2 True = Inr ps \<and> length ps = 2
    \<and> mset (concat ps) = mset [0..<length [4, 1, 3, 2 :: int]]
    \<and> (True \<longrightarrow> (\<forall>p \<in> set ps. length p * 2 = length [4, 1, 3, 2 :: int]))
    \<and> (\<not> True \<longrightarrow> (\<forall>p \<in> set ps. \<forall>q \<in> set ps.
        index_sum [4, 1, 3, 2] p - index_sum [4, 1, 3, 2] q \<le> Max (set [4, 1, 3, 2])))"
  by (rule greedy_partition_correct) simp_all

end
