(* ===== verification/Micro_Batching.thy ===== *)
theory Micro_Batching
  imports Greedy_Partition "HOL-Library.Word"
begin

text \<open>
  The batching half of \<open>verl/verl/utils/seqlen_balancing.py\<close>: the workload estimate, the split of
  a batch into micro-batches (\<open>rearrange_micro_batches\<close>) and its inverse
  (\<open>restore_dynamic_batch\<close>), the imbalance report, and the partitioner that keeps the samples of a
  uid together.  A batch is the list of its rows; \<open>padded_width\<close> is the width of a padded batch
  and \<open>None\<close> for a nested one.  \<open>dp_peers\<close> holds the counts the other ranks contribute to the MAX
  all-reduce, and is \<open>None\<close> when there is no reduction.
\<close>

section \<open>The workload estimate\<close>

definition calculate_workload :: "int \<Rightarrow> int" where
  "calculate_workload seqlen = 24576 * seqlen + seqlen ^ 2"

text \<open>The same formula on the 64-bit tensors the code upcasts to.\<close>

definition calculate_workload_i64 :: "64 word \<Rightarrow> 64 word" where
  "calculate_workload_i64 seqlen = 24576 * seqlen + seqlen ^ 2"

lemma calculate_workload_nonneg: "0 \<le> v \<Longrightarrow> 0 \<le> calculate_workload v"
  by (simp add: calculate_workload_def)

lemma workload_bound:
  assumes "0 \<le> v" "v < 2 ^ 31"
  shows "calculate_workload v < 2 ^ 63"
proof -
  have "v ^ 2 \<le> (2 ^ 31) ^ 2" using assms by (intro power_mono) auto
  with assms show ?thesis by (simp add: calculate_workload_def)
qed

text \<open>
  For every sequence length that fits a signed 32-bit integer the 64-bit computation does not
  wrap: its signed value is the integer formula.
\<close>

theorem workload_no_overflow:
  assumes "0 \<le> v" "v < 2 ^ 31"
  shows "sint (calculate_workload_i64 (word_of_int v)) = calculate_workload v"
proof -
  have "calculate_workload_i64 (word_of_int v) = word_of_int (calculate_workload v)"
    by (simp add: calculate_workload_i64_def calculate_workload_def wi_hom_syms power2_eq_square)
  moreover have "- (2 ^ 63) \<le> calculate_workload v"
    using calculate_workload_nonneg[OF assms(1)] by simp
  ultimately show ?thesis
    using workload_bound[OF assms] by (simp add: sint_sbintrunc' signed_take_bit_int_eq_self)
qed

theorem workload_no_overflow_witness:
  "sint (calculate_workload_i64 (word_of_int 100000)) = calculate_workload 100000"
  by (rule workload_no_overflow) simp_all

section \<open>Micro-batches\<close>

definition max_seq_len :: "int list \<Rightarrow> int option \<Rightarrow> int res" where
  "max_seq_len seq_lens padded_width =
     (case padded_width of
        Some w \<Rightarrow> Inr w
      | None \<Rightarrow> (if seq_lens = [] then Inl ValueError else Inr (Max (set seq_lens))))"

definition micro_batch_count ::
  "int list \<Rightarrow> int option \<Rightarrow> int \<Rightarrow> int list option \<Rightarrow> int option \<Rightarrow> int option \<Rightarrow> nat \<Rightarrow> int res" where
  "micro_batch_count seq_lens padded_width max_token_len dp_peers divided_by min_num force_group_size =
     bind_res (max_seq_len seq_lens padded_width) (\<lambda>msl.
     require (msl \<le> max_token_len) AssertionError (
     require (force_group_size \<noteq> 0) ZeroDivisionError (
     require (length seq_lens mod force_group_size = 0) AssertionError (
     let num_groups = int (length seq_lens div force_group_size) in
     bind_res (ceildiv (sum_list seq_lens) max_token_len) (\<lambda>c.
     let num0 = min num_groups c;
         num1 = (case min_num of None \<Rightarrow> num0 | Some m \<Rightarrow> max m num0);
         num2 = (case dp_peers of None \<Rightarrow> num1 | Some peers \<Rightarrow> fold max peers num1) in
     bind_res (case divided_by of None \<Rightarrow> Inr num2 | Some d \<Rightarrow> roundup_divisible num2 d) (\<lambda>num.
     require (num \<le> num_groups) AssertionError (Inr num)))))))"

definition group_workloads :: "int list \<Rightarrow> nat \<Rightarrow> int list" where
  "group_workloads seq_lens g =
     map (\<lambda>ws. sum_list (map calculate_workload ws)) (kk_chunks g seq_lens)"

definition expand_group :: "nat \<Rightarrow> nat list \<Rightarrow> nat list" where
  "expand_group g part = concat (map (\<lambda>group_idx. [group_idx * g ..< group_idx * g + g]) part)"

definition bubble_order :: "(nat list \<Rightarrow> int \<times> nat) \<Rightarrow> nat list list \<Rightarrow> nat list list" where
  "bubble_order key idx =
     (let sorted_idx = sort_desc (\<lambda>p q. key p < key q) idx in rev (evens sorted_idx) @ odds sorted_idx)"

definition micro_batch_idx :: "int list \<Rightarrow> nat \<Rightarrow> bool \<Rightarrow> nat \<Rightarrow> nat list list res" where
  "micro_batch_idx seq_lens num use_balance g =
     (if 1 < g then
        (let workloads = group_workloads seq_lens g in
         bind_res (get_seqlen_balanced_partitions workloads num False) (\<lambda>parts.
         let idx = map (expand_group g) parts in
         Inr (if use_balance
              then bubble_order (\<lambda>p. (sum_list (map (\<lambda>i. workloads ! (i div g)) (py_stride g p)),
                                      if p \<noteq> [] then hd p else 0)) idx
              else idx)))
      else
        (let workloads = map calculate_workload seq_lens in
         bind_res (get_seqlen_balanced_partitions workloads num False) (\<lambda>idx.
         Inr (if use_balance
              then bubble_order (\<lambda>p. (sum_list (map (\<lambda>i. workloads ! i) p),
                                      if p \<noteq> [] then hd p else 0)) idx
              else idx))))"

definition rearrange_micro_batches ::
  "'a list \<Rightarrow> int list \<Rightarrow> int option \<Rightarrow> int \<Rightarrow> int list option \<Rightarrow> int option \<Rightarrow> bool \<Rightarrow> int option \<Rightarrow> nat
    \<Rightarrow> ('a list list \<times> nat list list) res" where
  "rearrange_micro_batches rows seq_lens padded_width max_token_len dp_peers divided_by use_balance
       min_num force_group_size =
     bind_res (micro_batch_count seq_lens padded_width max_token_len dp_peers divided_by min_num
       force_group_size) (\<lambda>num.
     bind_res (micro_batch_idx seq_lens (nat num) use_balance force_group_size) (\<lambda>idx.
     Inr (map (map (\<lambda>i. rows ! i)) idx, idx)))"

section \<open>Restoring the order\<close>

fun reverse_idx_loop :: "nat \<Rightarrow> nat list \<Rightarrow> nat list \<Rightarrow> nat list res" where
  "reverse_idx_loop i [] r = Inr r"
| "reverse_idx_loop i (idx # rest) r =
     (if idx < length r then reverse_idx_loop (Suc i) rest (r[idx := i]) else Inl IndexError)"

definition get_reverse_idx :: "nat list \<Rightarrow> nat list res" where
  "get_reverse_idx idx_map = reverse_idx_loop 0 idx_map idx_map"

definition restore_dynamic_batch :: "'a list \<Rightarrow> nat list list \<Rightarrow> 'a list res" where
  "restore_dynamic_batch data batch_idx_list =
     (let indices = concat batch_idx_list in
      require (length indices = length data) AssertionError
        (bind_res (get_reverse_idx indices) (\<lambda>revert.
          require (list_all (\<lambda>i. i < length data) revert) IndexError
            (Inr (map (\<lambda>i. data ! i) revert)))))"

lemma reverse_idx_loop_spec:
  assumes "distinct xs" "set xs \<subseteq> {0..<length r}"
  shows "\<exists>r'. reverse_idx_loop i xs r = Inr r' \<and> length r' = length r
    \<and> (\<forall>j < length xs. r' ! (xs ! j) = i + j) \<and> (\<forall>k < length r. k \<notin> set xs \<longrightarrow> r' ! k = r ! k)"
  using assms
proof (induction xs arbitrary: i r)
  case (Cons x xs)
  obtain r' where r': "reverse_idx_loop (Suc i) xs (r[x := i]) = Inr r'" "length r' = length r"
    "\<forall>j < length xs. r' ! (xs ! j) = Suc i + j"
    "\<forall>k < length r. k \<notin> set xs \<longrightarrow> r' ! k = r[x := i] ! k"
    using Cons.IH[of "r[x := i]" "Suc i"] Cons.prems by auto
  have "r' ! ((x # xs) ! j) = i + j" if "j < length (x # xs)" for j
    using that r' Cons.prems by (cases j) auto
  with r' Cons.prems show ?case by auto
qed simp

lemma get_reverse_idx_inverse:
  assumes "mset xs = mset [0..<n]"
  shows "\<exists>r. get_reverse_idx xs = Inr r \<and> length r = n \<and> (\<forall>j < n. r ! (xs ! j) = j)
    \<and> (\<forall>k < n. r ! k < n \<and> xs ! (r ! k) = k)"
proof -
  note perm = mset_upt_distinct[OF assms] mset_upt_set[OF assms] mset_upt_length[OF assms]
  obtain r where r: "get_reverse_idx xs = Inr r" "length r = n" "\<forall>j < n. r ! (xs ! j) = j"
    using reverse_idx_loop_spec[of xs xs 0] perm by (auto simp: get_reverse_idx_def)
  have "r ! k < n \<and> xs ! (r ! k) = k" if "k < n" for k
  proof -
    have "k \<in> set xs" using that perm by simp
    then obtain j where "j < n" "xs ! j = k" using perm(3) by (auto simp: in_set_conv_nth)
    with r(3) show ?thesis by auto
  qed
  with r show ?thesis by blast
qed

lemma restore_permutation:
  assumes "mset (concat idx) = mset [0..<length data]"
  shows "restore_dynamic_batch (map (\<lambda>i. data ! i) (concat idx)) idx = Inr data"
proof -
  let ?xs = "concat idx" and ?n = "length data"
  note len = mset_upt_length[OF assms]
  obtain r where r: "get_reverse_idx ?xs = Inr r" "length r = ?n"
    "\<forall>k < ?n. r ! k < ?n \<and> ?xs ! (r ! k) = k"
    using get_reverse_idx_inverse[OF assms] by auto
  have "list_all (\<lambda>i. i < ?n) r"
    using r by (auto simp: list_all_length)
  moreover have "map (\<lambda>i. map (\<lambda>i. data ! i) ?xs ! i) r = data"
    using r len by (intro nth_equalityI) auto
  ultimately show ?thesis
    using r(1) len by (simp add: restore_dynamic_batch_def Let_def)
qed

section \<open>What the split guarantees\<close>

lemma mset_bubble_order [simp]: "mset (bubble_order key idx) = mset idx"
  by (simp add: bubble_order_def Let_def mset_evens_odds)

lemma expand_group_cover:
  assumes "mset (concat parts) = mset [0..<m]"
  shows "mset (concat (map (expand_group g) parts)) = mset [0..<m * g]"
proof -
  have "concat (map (expand_group g) parts) = expand_group g (concat parts)"
    by (induction parts) (auto simp: expand_group_def)
  then have "mset (concat (map (expand_group g) parts)) = mset (expand_group g [0..<m])"
    unfolding expand_group_def by (simp only:) (rule mset_concat_cong, simp only: mset_map assms)
  also have "expand_group g [0..<m] = [0..<m * g]"
  proof (induction m)
    case (Suc m)
    then show ?case
      using upt_add_eq_append[of 0 "m * g" g] by (simp add: expand_group_def add.commute)
  qed (simp add: expand_group_def)
  finally show ?thesis .
qed

text \<open>A partition made of whole groups of \<open>g\<close> consecutive samples.\<close>

definition whole_groups :: "nat \<Rightarrow> nat list \<Rightarrow> bool" where
  "whole_groups g p \<longleftrightarrow> (\<forall>i \<in> set p. \<forall>j. j div g = i div g \<longrightarrow> j \<in> set p)"

lemma whole_groups_expand: "0 < g \<Longrightarrow> whole_groups g (expand_group g part)"
proof -
  assume "0 < g"
  have mem: "i \<in> set (expand_group g part) \<longleftrightarrow> i div g \<in> set part" for i
  proof
    assume "i div g \<in> set part"
    moreover have "i div g * g \<le> i" "i < i div g * g + g"
      using mod_less_divisor[OF \<open>0 < g\<close>, of i] div_mult_mod_eq[of i g] by linarith+
    ultimately show "i \<in> set (expand_group g part)"
      unfolding expand_group_def by (auto intro!: bexI[of _ "i div g"])
  next
    assume "i \<in> set (expand_group g part)"
    then obtain x where x: "x \<in> set part" "x * g \<le> i" "i < x * g + g"
      by (auto simp: expand_group_def)
    then have "i div g = x" by (intro div_nat_eqI) (simp_all add: mult.commute)
    with x(1) show "i div g \<in> set part" by simp
  qed
  show ?thesis by (auto simp: whole_groups_def mem)
qed

lemma length_group_workloads [simp]: "length (group_workloads seq_lens g) = length seq_lens div g"
  by (simp add: group_workloads_def kk_chunks_def)

lemma group_workloads_nonneg:
  "\<forall>v \<in> set seq_lens. 0 \<le> v \<Longrightarrow> w \<in> set (group_workloads seq_lens g) \<Longrightarrow> 0 \<le> w"
  by (auto simp: group_workloads_def kk_chunks_def py_slice_def intro!: sum_list_nonneg
      calculate_workload_nonneg dest!: in_set_takeD in_set_dropD)

lemma micro_batch_idx_ok:
  assumes "\<forall>v \<in> set seq_lens. 0 \<le> v" "0 < num" "0 < g" "length seq_lens mod g = 0"
    and "num \<le> length seq_lens div g"
  shows "\<exists>idx. micro_batch_idx seq_lens num use_balance g = Inr idx \<and> length idx = num
    \<and> mset (concat idx) = mset [0..<length seq_lens] \<and> (\<forall>p \<in> set idx. p \<noteq> [] \<and> whole_groups g p)"
proof (cases "1 < g")
  case True
  let ?w = "group_workloads seq_lens g"
  obtain parts where parts: "get_seqlen_balanced_partitions ?w num False = Inr parts" "length parts = num"
    "mset (concat parts) = mset [0..<length seq_lens div g]" "\<forall>p \<in> set parts. p \<noteq> []"
    using balanced_partitions_total[of num ?w False] assms group_workloads_nonneg by auto
  let ?idx = "map (expand_group g) parts"
  have cover: "mset (concat ?idx) = mset [0..<length seq_lens]"
    using expand_group_cover[OF parts(3), of g] assms(3,4) by auto
  have good: "\<forall>p \<in> set ?idx. p \<noteq> [] \<and> whole_groups g p"
    using parts(4) assms(3) by (auto simp: whole_groups_expand) (auto simp: expand_group_def)
  have "mset (concat (bubble_order key ?idx)) = mset [0..<length seq_lens]" for key
    using mset_concat_cong[OF mset_bubble_order] cover by metis
  moreover have "length (bubble_order key ?idx) = num \<and> set (bubble_order key ?idx) = set ?idx" for key
    using mset_bubble_order[of key ?idx] parts(2) by (metis length_map size_mset set_mset_mset)
  ultimately show ?thesis
    using True parts(1,2) cover good by (simp add: micro_batch_idx_def Let_def del: set_map)
next
  case False
  with assms(3) have g: "g = 1" by simp
  let ?w = "map calculate_workload seq_lens"
  obtain idx where idx: "get_seqlen_balanced_partitions ?w num False = Inr idx" "length idx = num"
    "mset (concat idx) = mset [0..<length seq_lens]" "\<forall>p \<in> set idx. p \<noteq> []"
    using balanced_partitions_total[of num ?w False] assms calculate_workload_nonneg g by auto
  have "mset (concat (bubble_order key idx)) = mset [0..<length seq_lens]" for key
    using mset_concat_cong[OF mset_bubble_order] idx(3) by metis
  moreover have "length (bubble_order key idx) = num \<and> set (bubble_order key idx) = set idx" for key
    using mset_bubble_order[of key idx] idx(2) by (metis size_mset set_mset_mset)
  ultimately show ?thesis
    using g idx by (simp add: micro_batch_idx_def Let_def whole_groups_def)
qed

lemma micro_batch_count_InrD:
  assumes "micro_batch_count seq_lens w m peers d mn g = Inr num"
  shows "0 < g" "length seq_lens mod g = 0" "num \<le> int (length seq_lens div g)"
  using assms by (auto simp: micro_batch_count_def bind_res_eq_Inr Let_def)

lemma rearrange_ok:
  assumes "micro_batch_count seq_lens w m peers d mn g = Inr num" "0 < num"
    and "\<forall>v \<in> set seq_lens. 0 \<le> v" "length rows = length seq_lens"
  shows "\<exists>idx. rearrange_micro_batches rows seq_lens w m peers d use_balance mn g
      = Inr (map (map (\<lambda>i. rows ! i)) idx, idx)
    \<and> int (length idx) = num \<and> mset (concat idx) = mset [0..<length rows]
    \<and> (\<forall>p \<in> set idx. p \<noteq> [] \<and> whole_groups g p)"
proof -
  note count = micro_batch_count_InrD[OF assms(1)]
  have num: "0 < nat num" "nat num \<le> length seq_lens div g"
    using assms(2) count(3) by (auto simp: nat_le_iff)
  obtain idx where "micro_batch_idx seq_lens (nat num) use_balance g = Inr idx" "length idx = nat num"
    "mset (concat idx) = mset [0..<length seq_lens]" "\<forall>p \<in> set idx. p \<noteq> [] \<and> whole_groups g p"
    using micro_batch_idx_ok[OF assms(3) num(1) count(1,2) num(2), of use_balance] by blast
  then show ?thesis
    using assms(1,2,4) by (simp add: rearrange_micro_batches_def)
qed

text \<open>
  C3. Whenever the computed number of micro-batches passes the code's own checks and is positive,
  the split succeeds: it returns that many non-empty micro-batches, every row is in exactly one
  of them, and the samples of a forced group stay together.
\<close>

theorem rearrange_micro_batches_partition:
  assumes "micro_batch_count seq_lens w m peers d mn g = Inr num" "0 < num"
    and "\<forall>v \<in> set seq_lens. 0 \<le> v" "length rows = length seq_lens"
  shows "\<exists>idx. rearrange_micro_batches rows seq_lens w m peers d use_balance mn g
      = Inr (map (map (\<lambda>i. rows ! i)) idx, idx)
    \<and> int (length idx) = num \<and> mset (concat idx) = mset [0..<length rows]
    \<and> (\<forall>p \<in> set idx. p \<noteq> [] \<and> whole_groups g p)"
  using assms by (rule rearrange_ok)

theorem rearrange_micro_batches_partition_witness:
  "\<exists>idx. rearrange_micro_batches [''a'', ''b'', ''c'', ''d''] [3, 4, 2, 5] None 8 (Some [1, 1]) None True (Some 1) 2
      = Inr (map (map (\<lambda>i. [''a'', ''b'', ''c'', ''d''] ! i)) idx, idx)
    \<and> int (length idx) = 2 \<and> mset (concat idx) = mset [0..<length [''a'', ''b'', ''c'', ''d'']]
    \<and> (\<forall>p \<in> set idx. p \<noteq> [] \<and> whole_groups 2 p)"
  by (rule rearrange_micro_batches_partition)
    (simp_all add: micro_batch_count_def max_seq_len_def ceildiv_def)

text \<open>
  C4. Round trip: outputs computed micro-batch by micro-batch (here: the rows themselves under any
  row-wise function) and concatenated are put back into the order of the batch by
  \<open>restore_dynamic_batch\<close> with the index lists of the split.
\<close>

theorem restore_rearranged:
  assumes "rearrange_micro_batches rows seq_lens w m peers d use_balance mn g = Inr (mbs, idx)"
    and "\<forall>v \<in> set seq_lens. 0 \<le> v" "length rows = length seq_lens"
    and "\<exists>num > 0. micro_batch_count seq_lens w m peers d mn g = Inr num"
  shows "restore_dynamic_batch (concat (map (map f) mbs)) idx = Inr (map f rows)"
proof -
  obtain num where num: "0 < num" "micro_batch_count seq_lens w m peers d mn g = Inr num"
    using assms(4) by blast
  have mbs: "mbs = map (map (\<lambda>i. rows ! i)) idx" and cover: "mset (concat idx) = mset [0..<length rows]"
    using rearrange_ok[OF num(2,1) assms(2,3), of use_balance] assms(1) by auto
  have "restore_dynamic_batch (map (\<lambda>i. map f rows ! i) (concat idx)) idx = Inr (map f rows)"
    by (rule restore_permutation) (simp add: cover)
  moreover have "map (\<lambda>i. map f rows ! i) (concat idx) = map (\<lambda>i. f (rows ! i)) (concat idx)"
    using mset_upt_set[OF cover] by (intro map_cong) auto
  moreover have "concat (map (map f) mbs) = map (\<lambda>i. f (rows ! i)) (concat idx)"
    by (simp add: mbs map_concat o_def)
  ultimately show ?thesis by simp
qed

theorem restore_rearranged_witness:
  "restore_dynamic_batch (concat (map (map (\<lambda>x. 2 * x)) [[30], [10, 20]])) [[2], [0, 1]]
    = Inr (map (\<lambda>x. 2 * x) [10, 20, 30 :: nat])"
proof (rule restore_rearranged)
  show "rearrange_micro_batches [10, 20, 30 :: nat] [2, 2, 6] None 6 None None False None 1
      = Inr ([[30], [10, 20]], [[2], [0, 1 :: nat]])"
    by code_simp
  show "\<exists>num > 0. micro_batch_count [2, 2, 6] None 6 None None None 1 = Inr num"
    by (simp add: micro_batch_count_def max_seq_len_def ceildiv_def)
qed simp_all

section \<open>The token budget\<close>

lemma fold_max_ge: "(x :: int) \<le> fold max peers x"
  by (induction peers arbitrary: x) (auto intro: order_trans[OF max.cobounded2])

lemma count_ge_min:
  assumes "micro_batch_count seq_lens w m peers d mn g = Inr num" "\<forall>x. d = Some x \<longrightarrow> 0 < x"
  obtains c where "ceildiv (sum_list seq_lens) m = Inr c" "min (int (length seq_lens div g)) c \<le> num"
    "\<forall>x. mn = Some x \<longrightarrow> x \<le> num"
proof -
  let ?n1 = "\<lambda>c. case mn of None \<Rightarrow> min (int (length seq_lens div g)) c
    | Some x \<Rightarrow> max x (min (int (length seq_lens div g)) c)"
  let ?n2 = "\<lambda>c. case peers of None \<Rightarrow> ?n1 c | Some ps \<Rightarrow> fold max ps (?n1 c)"
  obtain c where c: "ceildiv (sum_list seq_lens) m = Inr c"
    "(case d of None \<Rightarrow> Inr (?n2 c) | Some x \<Rightarrow> roundup_divisible (?n2 c) x) = Inr num"
    using assms(1) by (auto simp: micro_batch_count_def bind_res_eq_Inr Let_def)
  have "?n2 c \<le> num"
    using c(2) assms(2) roundup_bounds(2) by (cases d) auto
  moreover have "?n1 c \<le> ?n2 c"
    by (cases peers) (auto simp: fold_max_ge)
  ultimately have "?n1 c \<le> num" by linarith
  with c(1) show ?thesis by (intro that) (auto split: option.splits)
qed

text \<open>
  The number of micro-batches is large enough for the token budget on average: without forced
  groups, all tokens fit into that many batches of \<open>max_token_len\<close>.
\<close>

theorem micro_batch_count_budget:
  assumes "micro_batch_count seq_lens w m peers d mn 1 = Inr num"
    and "\<forall>x. d = Some x \<longrightarrow> 0 < x" "0 < m" "\<forall>v \<in> set seq_lens. v \<le> m"
  shows "sum_list seq_lens \<le> num * m"
proof -
  obtain c where c: "ceildiv (sum_list seq_lens) m = Inr c" "min (int (length seq_lens)) c \<le> num"
    using count_ge_min[OF assms(1,2)] by auto
  have "sum_list seq_lens \<le> int (length seq_lens) * m"
    using assms(4) by (induction seq_lens) (auto simp: algebra_simps)
  moreover have "sum_list seq_lens \<le> c * m"
    by (rule ceildiv_bounds(1)[OF assms(3) c(1)])
  ultimately have "sum_list seq_lens \<le> min (int (length seq_lens)) c * m"
    by (simp add: min_def)
  also have "\<dots> \<le> num * m" using c(2) assms(3) by (intro mult_right_mono) auto
  finally show ?thesis .
qed

theorem micro_batch_count_budget_witness: "sum_list [3, 3, 3] \<le> 2 * (5 :: int)"
  by (rule micro_batch_count_budget[of "[3, 3, 3]" None 5 None None None 2])
    (simp_all add: micro_batch_count_def max_seq_len_def ceildiv_def)

text \<open>
  A single micro-batch can exceed the budget, although the documentation of
  \<open>rearrange_micro_batches\<close> calls \<open>max_token_len\<close> the maximum of each: three rows of three tokens and
  a budget of five give two micro-batches, one of them with six tokens.
\<close>

theorem micro_batch_over_budget:
  "\<exists>mbs idx. rearrange_micro_batches [''a'', ''b'', ''c''] [3, 3, 3] None 5 None None True None 1
      = Inr (mbs, idx) \<and> (\<exists>p \<in> set idx. 5 < index_sum [3, 3, 3] p)"
proof -
  have "rearrange_micro_batches [''a'', ''b'', ''c''] [3, 3, 3] None 5 None None True None 1
      = Inr ([[''a'', ''b''], [''c'']], [[0, 1], [2]])"
    by code_simp
  then show ?thesis by auto
qed

text \<open>
  A forced minimum above the number of groups is refused with an \<open>AssertionError\<close>, where the
  documentation promises padding with empty micro-batches.
\<close>

theorem micro_batch_min_refused:
  assumes "max_seq_len seq_lens w = Inr msl" "msl \<le> m" "0 < m" "0 < g" "length seq_lens mod g = 0"
    and "int (length seq_lens div g) < x"
  shows "rearrange_micro_batches rows seq_lens w m None None use_balance (Some x) g = Inl AssertionError"
proof -
  obtain c where "ceildiv (sum_list seq_lens) m = Inr c"
    using assms(3) by (simp add: ceildiv_def)
  with assms show ?thesis
    by (simp add: rearrange_micro_batches_def micro_batch_count_def Let_def)
qed

theorem micro_batch_min_refused_witness:
  "rearrange_micro_batches [''a'', ''b''] [3, 3] None 5 None None True (Some 3) 1 = Inl AssertionError"
  by (rule micro_batch_min_refused[of _ _ 3]) (simp_all add: max_seq_len_def)

end
