(* ===== verification/Group_Partition.thy ===== *)
theory Group_Partition
  imports Micro_Batching
begin

text \<open>
  \<open>get_group_balanced_partitions\<close> and \<open>log_seqlen_unbalance\<close> of
  \<open>verl/verl/utils/seqlen_balancing.py\<close>.  A uid is an option, so that \<open>None\<close> stands for Python's
  \<open>None\<close>, the initial value of \<open>current_uid\<close>.
\<close>

section \<open>Runs of equal uids\<close>

fun group_loop :: "nat \<Rightarrow> (int \<times> 'u option) list \<Rightarrow> (nat list \<times> int) list \<Rightarrow> 'u option \<Rightarrow> nat list \<Rightarrow> int
    \<Rightarrow> (nat list \<times> int) list" where
  "group_loop i [] groups current_uid current_indices current_seqlen =
     (if current_indices \<noteq> [] then groups @ [(current_indices, current_seqlen)] else groups)"
| "group_loop i ((seqlen, uid) # rest) groups current_uid current_indices current_seqlen =
     (if uid \<noteq> current_uid
      then group_loop (Suc i) rest
        (if current_indices \<noteq> [] then groups @ [(current_indices, current_seqlen)] else groups)
        uid [i] seqlen
      else group_loop (Suc i) rest groups current_uid (current_indices @ [i]) (current_seqlen + seqlen))"

definition build_groups :: "int list \<Rightarrow> 'u option list \<Rightarrow> (nat list \<times> int) list" where
  "build_groups seqlen_list uid_list = group_loop 0 (zip seqlen_list uid_list) [] None [] 0"

definition get_group_balanced_partitions :: "int list \<Rightarrow> 'u option list \<Rightarrow> nat \<Rightarrow> nat list list res" where
  "get_group_balanced_partitions seqlen_list uid_list k =
     require (length seqlen_list = length uid_list) AssertionError (
     let groups = build_groups seqlen_list uid_list in
     require (k \<le> length groups) AssertionError (
     let workloads = map (\<lambda>(indices, _).
           sum_list (map (\<lambda>i. calculate_workload (seqlen_list ! i)) indices)) groups in
     bind_res (get_seqlen_balanced_partitions workloads k True) (\<lambda>group_partitions.
     Inr (map (\<lambda>gp. sort (concat (map (\<lambda>group_idx. fst (groups ! group_idx)) gp))) group_partitions))))"

text \<open>
  After the samples below \<open>i\<close>: the closed groups and the current one list them in order, and two
  neighbours with the same uid are in the same group.
\<close>

definition runs_ok :: "'u option list \<Rightarrow> nat \<Rightarrow> nat list list \<Rightarrow> bool" where
  "runs_ok uids i gs \<longleftrightarrow> concat gs = [0..<i]
     \<and> (\<forall>j. Suc j < i \<longrightarrow> uids ! j = uids ! Suc j \<longrightarrow> (\<exists>g \<in> set gs. j \<in> set g \<and> Suc j \<in> set g))"

lemma group_loop_ok:
  assumes "i \<le> length uids" "length ws = length uids"
    and "runs_ok uids i (map fst groups @ (if cur \<noteq> [] then [cur] else []))"
    and "0 < i \<longrightarrow> cu = uids ! (i - 1) \<and> i - 1 \<in> set cur" "i = 0 \<longrightarrow> cur = []"
  shows "runs_ok uids (length uids) (map fst (group_loop i (drop i (zip ws uids)) groups cu cur cs))"
  using assms
proof (induction "length uids - i" arbitrary: i groups cu cur cs)
  case 0
  then show ?case by (auto split: if_splits)
next
  case (Suc d)
  then have i: "i < length uids" by simp
  then have dr: "drop i (zip ws uids) = (ws ! i, uids ! i) # drop (Suc i) (zip ws uids)"
    using Suc.prems(2) by (simp add: Cons_nth_drop_Suc[symmetric])
  show ?case
  proof (cases "uids ! i = cu")
    case True
    let ?gs = "map fst groups @ (if cur \<noteq> [] then [cur] else [])"
    have "\<exists>g \<in> set (map fst groups @ [cur @ [i]]). j \<in> set g \<and> Suc j \<in> set g"
      if j: "Suc j < Suc i" "uids ! j = uids ! Suc j" for j
    proof (cases "Suc j = i")
      case True
      then show ?thesis using Suc.prems(4) by auto
    next
      case False
      then have "Suc j < i" using j(1) by simp
      then obtain g where "g \<in> set ?gs" "j \<in> set g" "Suc j \<in> set g"
        using Suc.prems(3) j(2) unfolding runs_ok_def by blast
      then show ?thesis by (cases "g = cur") (auto split: if_splits)
    qed
    then have "runs_ok uids (Suc i) (map fst groups @ [cur @ [i]])"
      using Suc.prems(3) by (auto simp: runs_ok_def split: if_splits)
    then show ?thesis
      using Suc.hyps(1)[of "Suc i" groups "cur @ [i]" cu "cs + ws ! i"] Suc.hyps(2) Suc.prems i True
      by (simp add: dr)
  next
    case False
    let ?groups = "if cur \<noteq> [] then groups @ [(cur, cs)] else groups"
    have "runs_ok uids (Suc i) (map fst ?groups @ [[i]])"
      using Suc.prems(3,4) False unfolding runs_ok_def
      by (auto split: if_splits simp: less_Suc_eq)
    then show ?thesis
      using Suc.hyps(1)[of "Suc i" ?groups "[i]" "uids ! i" "ws ! i"] Suc.hyps(2) Suc.prems i False
      by (simp add: dr)
  qed
qed

lemma build_groups_ok:
  assumes "length ws = length uids"
  shows "runs_ok uids (length uids) (map fst (build_groups ws uids))"
  using group_loop_ok[of 0 uids ws "[]" "[]" None 0] assms
  by (simp add: build_groups_def runs_ok_def)

lemma group_partitions_ok:
  assumes "get_group_balanced_partitions ws uids k = Inr ps" "0 < k" "\<forall>v \<in> set ws. 0 \<le> v"
  shows "length ps = k \<and> mset (concat ps) = mset [0..<length ws]
    \<and> (\<forall>p \<in> set ps. sorted p)
    \<and> (\<forall>j. Suc j < length ws \<longrightarrow> uids ! j = uids ! Suc j \<longrightarrow> (\<exists>p \<in> set ps. j \<in> set p \<and> Suc j \<in> set p))"
proof -
  let ?groups = "build_groups ws uids"
  let ?wl = "map (\<lambda>(indices, _). sum_list (map (\<lambda>i. calculate_workload (ws ! i)) indices)) ?groups"
  let ?members = "\<lambda>gp. concat (map (\<lambda>group_idx. fst (?groups ! group_idx)) gp)"
  from assms(1) obtain gps where len: "length ws = length uids" and kle: "k \<le> length ?groups"
    and gps: "get_seqlen_balanced_partitions ?wl k True = Inr gps"
    and ps: "ps = map (\<lambda>gp. sort (?members gp)) gps"
    by (auto simp: get_group_balanced_partitions_def Let_def bind_res_eq_Inr)
  have runs: "runs_ok uids (length uids) (map fst ?groups)" by (rule build_groups_ok[OF len])
  have mod: "length ?wl mod k = 0"
    using gps karmarkar_karp_divides[of ?wl k]
    by (auto simp: get_seqlen_balanced_partitions_def bind_res_eq_Inr)
  have "i < length ws" if "g \<in> set ?groups" "i \<in> set (fst g)" for g i
  proof -
    have "i \<in> set (concat (map fst ?groups))" using that by auto
    then have "i \<in> set [0..<length uids]" using runs unfolding runs_ok_def by metis
    then show ?thesis by (simp add: len)
  qed
  then have nonneg: "\<forall>v \<in> set ?wl. 0 \<le> v"
    using assms(3) by (fastforce intro!: sum_list_nonneg calculate_workload_nonneg)
  have gcover: "length gps = k" "mset (concat gps) = mset [0..<length ?groups]"
    using balanced_partitions_total[OF assms(2) _ nonneg, of True] kle mod gps by auto
  have "mset (concat ps) = mset (concat (map ?members gps))"
    by (simp add: ps mset_concat o_def)
  also have "concat (map ?members gps) = concat (map (\<lambda>i. fst (?groups ! i)) (concat gps))"
    by (induction gps) auto
  also have "mset \<dots> = mset (concat (map (\<lambda>i. fst (?groups ! i)) [0..<length ?groups]))"
    by (rule mset_concat_cong) (simp only: mset_map gcover(2))
  also have "map (\<lambda>i. fst (?groups ! i)) [0..<length ?groups] = map fst ?groups"
    by (intro nth_equalityI) auto
  finally have cover: "mset (concat ps) = mset [0..<length ws]"
    using runs by (simp add: runs_ok_def len)
  have "\<exists>p \<in> set ps. j \<in> set p \<and> Suc j \<in> set p"
    if j: "Suc j < length ws" "uids ! j = uids ! Suc j" for j
  proof -
    obtain g where g: "g \<in> set (map fst ?groups)" "j \<in> set g" "Suc j \<in> set g"
      using runs j unfolding runs_ok_def len by blast
    then obtain i where i: "i < length ?groups" "fst (?groups ! i) = g"
      by (auto simp: in_set_conv_nth)
    then have "i \<in> set (concat gps)" using mset_upt_set[OF gcover(2)] by simp
    then obtain gp where "gp \<in> set gps" "i \<in> set gp" by auto
    with g i show ?thesis unfolding ps by (intro bexI[of _ "sort (?members gp)"]) auto
  qed
  with cover gcover(1) show ?thesis by (auto simp: ps)
qed

text \<open>
  When it returns, the group partitioner puts every sample into exactly one partition, and
  two neighbouring samples with the same uid into the same one; so with contiguous uids all
  samples of a uid stay together.
\<close>

theorem group_partitions_together:
  assumes "get_group_balanced_partitions ws uids k = Inr ps" "0 < k" "\<forall>v \<in> set ws. 0 \<le> v"
  shows "length ps = k \<and> mset (concat ps) = mset [0..<length ws]
    \<and> (\<forall>p \<in> set ps. sorted p)
    \<and> (\<forall>j. Suc j < length ws \<longrightarrow> uids ! j = uids ! Suc j \<longrightarrow> (\<exists>p \<in> set ps. j \<in> set p \<and> Suc j \<in> set p))"
  using assms by (rule group_partitions_ok)

theorem group_partitions_together_witness:
  "get_group_balanced_partitions [5, 6, 7, 8] [Some ''x'', Some ''x'', None, None] 2
      = Inr [[2, 3], [0, 1]]
    \<and> mset (concat [[2, 3], [0, 1 :: nat]]) = mset [0..<length [5, 6, 7, 8 :: int]]
    \<and> (\<exists>p \<in> set [[2, 3], [0, 1 :: nat]]. 0 \<in> set p \<and> Suc 0 \<in> set p)"
proof -
  have run: "get_group_balanced_partitions [5, 6, 7, 8] [Some ''x'', Some ''x'', None, None] 2
      = Inr [[2, 3], [0, 1]]"
    by code_simp
  have spec: "length [[2, 3], [0, 1 :: nat]] = 2
      \<and> mset (concat [[2, 3], [0, 1 :: nat]]) = mset [0..<length [5, 6, 7, 8 :: int]]
      \<and> (\<forall>p \<in> set [[2, 3], [0, 1 :: nat]]. sorted p)
      \<and> (\<forall>j. Suc j < length [5, 6, 7, 8 :: int] \<longrightarrow>
          [Some ''x'', Some ''x'', None, None] ! j = [Some ''x'', Some ''x'', None, None] ! Suc j \<longrightarrow>
          (\<exists>p \<in> set [[2, 3], [0, 1 :: nat]]. j \<in> set p \<and> Suc j \<in> set p))"
    by (rule group_partitions_together[OF run]) simp_all
  show ?thesis
    by (intro conjI run spec[THEN conjunct2, THEN conjunct1]
        spec[THEN conjunct2, THEN conjunct2, THEN conjunct2, rule_format]) simp_all
qed

text \<open>
  Samples of one uid that are not contiguous can be separated, although the documentation
  guarantees one partition for equal uids.
\<close>

theorem group_partitions_split_uid:
  "\<exists>ps. get_group_balanced_partitions [9, 1, 9, 1] [Some ''x'', Some ''y'', Some ''x'', Some ''z''] 2 = Inr ps
    \<and> \<not> (\<exists>p \<in> set ps. 0 \<in> set p \<and> 2 \<in> set p)"
proof -
  have "get_group_balanced_partitions [9, 1, 9, 1] [Some ''x'', Some ''y'', Some ''x'', Some ''z''] 2
      = Inr [[1, 2], [0, 3]]"
    by code_simp
  then show ?thesis by simp
qed

section \<open>The imbalance report\<close>

record unbalance_report =
  rep_min :: int
  rep_max :: int
  rep_minmax_diff :: int
  rep_balanced_min :: int
  rep_balanced_max :: int
  rep_mean :: real

text \<open>
  The running minimum, maximum and total over consecutive batches of \<open>len(seqlen_list) // k\<close>
  elements.  \<open>range\<close> refuses a zero step, so a list shorter than the number of partitions raises.
\<close>

fun scan_batches :: "int list list \<Rightarrow> (int \<times> int) option \<Rightarrow> int \<Rightarrow> (int \<times> int) option \<times> int" where
  "scan_batches [] mm tot = (mm, tot)"
| "scan_batches (c # cs) mm tot =
     (let cur = sum_list c in
      scan_batches cs
        (case mm of
           None \<Rightarrow> Some (cur, cur)
         | Some (mn, mx) \<Rightarrow> Some (if cur < mn then cur else mn, if cur > mx then cur else mx))
        (tot + cur))"

definition log_seqlen_unbalance :: "int list \<Rightarrow> nat list list \<Rightarrow> unbalance_report res" where
  "log_seqlen_unbalance seqlen_list partitions =
     (let k = length partitions in
      require (k \<noteq> 0) ZeroDivisionError (
      let batch_size = length seqlen_list div k in
      require (batch_size \<noteq> 0) ValueError (
      require (list_all (list_all (\<lambda>i. i < length seqlen_list)) partitions) IndexError (
      let balanced = map (index_sum seqlen_list) partitions in
      (case scan_batches (step_chunks batch_size seqlen_list) None 0 of
         (Some (mn, mx), tot) \<Rightarrow>
           Inr \<lparr>rep_min = mn, rep_max = mx, rep_minmax_diff = mx - mn,
                rep_balanced_min = Min (set balanced), rep_balanced_max = Max (set balanced),
                rep_mean = real_of_int tot / real k\<rparr>
       | (None, tot) \<Rightarrow> Inl TypeError)))))"

lemma scan_batches_spec:
  "scan_batches cs mm tot = (mm', tot') \<Longrightarrow>
    tot' = tot + sum_list (map sum_list cs) \<and> (cs \<noteq> [] \<or> mm \<noteq> None \<longrightarrow> mm' \<noteq> None)"
  by (induction cs mm tot arbitrary: mm' tot' rule: scan_batches.induct)
    (auto simp: Let_def split: if_splits option.splits)

lemma index_sum_concat: "sum_list (map (index_sum ws) ps) = index_sum ws (concat ps)"
  by (induction ps) auto

lemma index_sum_all: "index_sum ws [0..<length ws] = sum_list ws"
  unfolding index_sum_def by (simp add: map_nth)

lemma Min_le_mean:
  fixes xs :: "int list"
  assumes "xs \<noteq> []"
  shows "real_of_int (Min (set xs)) \<le> real_of_int (sum_list xs) / real (length xs)"
    "real_of_int (sum_list xs) / real (length xs) \<le> real_of_int (Max (set xs))"
proof -
  have "int (length ys) * Min (set xs) \<le> sum_list ys \<and> sum_list ys \<le> int (length ys) * Max (set xs)"
    if "set ys \<subseteq> set xs" for ys
    using that by (induction ys) (auto simp: algebra_simps intro: add_mono)
  then have "int (length xs) * Min (set xs) \<le> sum_list xs" "sum_list xs \<le> int (length xs) * Max (set xs)"
    by auto
  then have "real_of_int (int (length xs) * Min (set xs)) \<le> real_of_int (sum_list xs)"
    "real_of_int (sum_list xs) \<le> real_of_int (int (length xs) * Max (set xs))"
    by (simp_all only: of_int_le_iff)
  then show "real_of_int (Min (set xs)) \<le> real_of_int (sum_list xs) / real (length xs)"
    "real_of_int (sum_list xs) / real (length xs) \<le> real_of_int (Max (set xs))"
    using assms by (simp_all add: field_simps)
qed

text \<open>
  For partitions that cover the indices of a list at least as long as their number, the
  report is produced without an error, its mean is the total divided by the number of
  partitions, and the balanced extremes enclose it.
\<close>

theorem log_seqlen_unbalance_report:
  assumes "mset (concat ps) = mset [0..<length ws]" "ps \<noteq> []" "length ps \<le> length ws"
  shows "\<exists>r. log_seqlen_unbalance ws ps = Inr r
    \<and> rep_mean r * real (length ps) = real_of_int (sum_list ws)
    \<and> real_of_int (rep_balanced_min r) \<le> rep_mean r \<and> rep_mean r \<le> real_of_int (rep_balanced_max r)"
proof -
  let ?k = "length ps" and ?b = "length ws div length ps"
  have k: "?k \<noteq> 0" using assms(2) by simp
  have b: "0 < ?b" using assms(2,3) by (simp add: div_greater_zero_iff)
  obtain mm tot where scan: "scan_batches (step_chunks ?b ws) None 0 = (mm, tot)" by fastforce
  have "step_chunks ?b ws \<noteq> []" using b assms(2,3) by (subst step_chunks.simps) auto
  then obtain mn mx where mm: "mm = Some (mn, mx)"
    using scan_batches_spec[OF scan] by auto
  have "sum_list (map sum_list xss) = sum_list (concat xss)" for xss :: "int list list"
    by (induction xss) auto
  then have tot: "tot = sum_list ws"
    using scan_batches_spec[OF scan] concat_step_chunks[OF b, of ws] by simp
  have "set (concat ps) = {0..<length ws}" by (rule mset_upt_set[OF assms(1)])
  then have range: "list_all (list_all (\<lambda>i. i < length ws)) ps" by (auto simp: list_all_iff)
  have "sum_list (map (index_sum ws) ps) = sum_list ws"
    using index_sum_perm[OF assms(1), of ws] by (simp only: index_sum_concat index_sum_all)
  then show ?thesis
    using k b scan mm tot range assms(2) Min_le_mean[of "map (index_sum ws) ps"]
    by (simp add: log_seqlen_unbalance_def Let_def)
qed

theorem log_seqlen_unbalance_report_witness:
  "\<exists>r. log_seqlen_unbalance [4, 1, 3, 2] [[0, 1], [2, 3]] = Inr r
    \<and> rep_mean r * real (length [[0, 1], [2, 3 :: nat]]) = real_of_int (sum_list [4, 1, 3, 2])
    \<and> real_of_int (rep_balanced_min r) \<le> rep_mean r \<and> rep_mean r \<le> real_of_int (rep_balanced_max r)"
  by (rule log_seqlen_unbalance_report) (simp_all add: upt_rec eval_nat_numeral)

end
