(* ===== verification/Tensor_Ops.thy ===== *)
theory Tensor_Ops
  imports Prelude
begin

text \<open>
  The tensor operations the loss and advantage code shares: the masked statistics of
  \<open>verl/verl/utils/torch_functional.py\<close> (\<open>masked_sum\<close>, \<open>masked_mean\<close>, \<open>masked_var\<close>,
  \<open>masked_whiten\<close>), rows of a matrix grouped by a label, and \<open>clamp\<close>.  A matrix is the list of its
  rows; the operands of an elementwise operation have one shape, as the callers document.  Reals
  stand for floats, so rounding, infinities and NaN are outside the model.
\<close>

section \<open>Elementwise operations\<close>

type_synonym mat = "real list list"

definition clamp :: "real \<Rightarrow> real \<Rightarrow> real \<Rightarrow> real" where
  "clamp lo hi x = min hi (max lo x)"

definition relu :: "real \<Rightarrow> real" where
  "relu x = max x 0"

definition mmap :: "(real \<Rightarrow> real) \<Rightarrow> mat \<Rightarrow> mat" where
  "mmap f t = map (map f) t"

definition mzip :: "(real \<Rightarrow> real \<Rightarrow> real) \<Rightarrow> mat \<Rightarrow> mat \<Rightarrow> mat" where
  "mzip f = map2 (map2 f)"

definition msum :: "mat \<Rightarrow> real" where
  "msum t = sum_list (map sum_list t)"

text \<open>\<open>v.unsqueeze(-1) * t\<close>: every row scaled by its entry of the vector.\<close>

definition scale_rows :: "real list \<Rightarrow> mat \<Rightarrow> mat" where
  "scale_rows v t = map2 (\<lambda>x. map ((*) x)) v t"

text \<open>\<open>t[mask.bool()]\<close>: the elements of a matrix where the mask is not zero, row by row.\<close>

definition masked_select :: "mat \<Rightarrow> mat \<Rightarrow> real list" where
  "masked_select t rmask =
     concat (map (\<lambda>(r, m). map fst (filter (\<lambda>(x, b). b \<noteq> 0) (zip r m))) (zip t rmask))"

definition same_shape :: "'a list list \<Rightarrow> 'b list list \<Rightarrow> bool" where
  "same_shape s t \<longleftrightarrow> map length s = map length t"

definition binary_mask :: "mat \<Rightarrow> bool" where
  "binary_mask m \<longleftrightarrow> list_all (list_all (\<lambda>b. b = 0 \<or> b = 1)) m"

section \<open>Masked statistics\<close>

definition masked_sum :: "mat \<Rightarrow> mat \<Rightarrow> real" where
  "masked_sum vals rmask = msum (mzip (\<lambda>v m. (if m \<noteq> 0 then v else 0) * m) vals rmask)"

definition mask_eps :: real where
  "mask_eps = 1 / 10 ^ 8"

definition masked_mean :: "mat \<Rightarrow> mat \<Rightarrow> real" where
  "masked_mean vals rmask = masked_sum vals rmask / (msum rmask + mask_eps)"

definition masked_var :: "mat \<Rightarrow> mat \<Rightarrow> bool \<Rightarrow> real res" where
  "masked_var vals rmask unbiased =
     (let mu = masked_mean vals rmask;
          centered = mmap (\<lambda>v. v - mu) vals;
          variance = masked_mean (mmap (\<lambda>v. v\<^sup>2) centered) rmask
      in if unbiased then
           (let mask_sum = msum rmask in
            require (mask_sum \<noteq> 0) ValueError (
            require (mask_sum \<noteq> 1) ValueError (
            Inr (variance * (mask_sum / (mask_sum - 1))))))
         else Inr variance)"

definition masked_whiten :: "mat \<Rightarrow> mat \<Rightarrow> bool \<Rightarrow> mat res" where
  "masked_whiten vals rmask shift_mean =
     bind_res (masked_var vals rmask True) (\<lambda>var.
     let mu = masked_mean vals rmask;
         whitened = mmap (\<lambda>v. (v - mu) * (1 / sqrt (var + mask_eps))) vals
     in Inr (if shift_mean then whitened else mmap (\<lambda>v. v + mu) whitened))"

section \<open>Lemmas on shapes and sums\<close>

named_theorems shape_simps \<open>lengths of the results of elementwise operations\<close>

lemma same_shape_length: "same_shape s t \<Longrightarrow> length s = length t"
  unfolding same_shape_def by (metis length_map)

lemma same_shape_row: "same_shape s t \<Longrightarrow> i < length s \<Longrightarrow> length (s ! i) = length (t ! i)"
  unfolding same_shape_def by (metis length_map nth_map)

lemma same_shape_Cons [simp]:
  "same_shape (r # s) (q # t) \<longleftrightarrow> length r = length q \<and> same_shape s t"
  by (simp add: same_shape_def)

lemma same_shape_Nil [simp]: "same_shape [] t \<longleftrightarrow> t = []" "same_shape s [] \<longleftrightarrow> s = []"
  by (auto simp: same_shape_def)

lemma length_mmap [shape_simps, simp]: "length (mmap f t) = length t"
  by (simp add: mmap_def)

lemma length_mzip [shape_simps, simp]: "length (mzip f s t) = min (length s) (length t)"
  by (simp add: mzip_def)

lemma length_scale_rows [shape_simps, simp]: "length (scale_rows v t) = min (length v) (length t)"
  by (simp add: scale_rows_def)

lemma nth_mmap [simp]: "i < length t \<Longrightarrow> mmap f t ! i = map f (t ! i)"
  by (simp add: mmap_def)

lemma nth_mzip [simp]: "i < length s \<Longrightarrow> i < length t \<Longrightarrow> mzip f s t ! i = map2 f (s ! i) (t ! i)"
  by (simp add: mzip_def)

lemma nth_scale_rows [simp]:
  "i < length v \<Longrightarrow> i < length t \<Longrightarrow> scale_rows v t ! i = map ((*) (v ! i)) (t ! i)"
  by (simp add: scale_rows_def)

lemma msum_Cons [simp]: "msum (r # t) = sum_list r + msum t"
  by (simp add: msum_def)

lemma msum_Nil [simp]: "msum [] = 0"
  by (simp add: msum_def)

lemma mask_eps_pos [simp]: "0 < mask_eps"
  by (simp add: mask_eps_def)

lemma sum_list_zeros: "(\<And>x. x \<in> set xs \<Longrightarrow> x = (0 :: real)) \<Longrightarrow> sum_list xs = 0"
  by (induction xs) auto

lemma sum_list_map2_add:
  "length xs = length ys \<Longrightarrow>
    sum_list (map2 (\<lambda>x y. f x y + g x y) xs ys) = sum_list (map2 f xs ys) + (sum_list (map2 g xs ys) :: real)"
  by (induction xs ys rule: list_induct2) auto

lemma sum_list_map2_const_mult:
  "length xs = length ys \<Longrightarrow> sum_list (map2 (\<lambda>x y. c * f x y) xs ys) = c * (sum_list (map2 f xs ys) :: real)"
  by (induction xs ys rule: list_induct2) (auto simp: algebra_simps)

lemma set_masked_select: "set (masked_select t rmask) \<subseteq> \<Union> (set ` set t)"
  by (fastforce simp: masked_select_def dest: set_zip_leftD set_zip_rightD)

lemma masked_select_all_masked:
  assumes "\<forall>m \<in> set rmask. \<forall>b \<in> set m. b = 0"
  shows "masked_select t rmask = []"
proof -
  have "filter (\<lambda>(x, b). b \<noteq> 0) (zip r m) = []" if "m \<in> set rmask" for r m
    using assms that by (auto simp: filter_empty_conv dest: set_zip_rightD)
  then show ?thesis by (auto simp: masked_select_def dest: set_zip_rightD)
qed

text \<open>For a mask the \<open>where\<close> of \<open>masked_sum\<close> does not matter: it only guards against NaN.\<close>

lemma masked_sum_alt: "masked_sum vals rmask = msum (mzip (*) vals rmask)"
proof -
  have "(\<lambda>v m :: real. (if m \<noteq> 0 then v else 0) * m) = (*)" by (auto intro!: ext)
  then show ?thesis by (simp add: masked_sum_def)
qed

lemma masked_sum_Cons [simp]:
  "masked_sum (r # vals) (m # rmask) = sum_list (map2 (*) r m) + masked_sum vals rmask"
  by (simp add: masked_sum_alt mzip_def)

lemma masked_sum_Nil [simp]: "masked_sum [] rmask = 0" "masked_sum vals [] = 0"
  by (simp_all add: masked_sum_alt mzip_def)

lemma binary_mask_Cons [simp]:
  "binary_mask (r # m) \<longleftrightarrow> (\<forall>b \<in> set r. b = 0 \<or> b = 1) \<and> binary_mask m"
  by (simp add: binary_mask_def list_all_iff)

lemma binary_mask_msum_nonneg: "binary_mask m \<Longrightarrow> 0 \<le> msum m"
proof (induction m)
  case (Cons r m)
  then show ?case by (fastforce intro!: add_nonneg_nonneg sum_list_nonneg)
qed simp

text \<open>A masked sum is affine in the values.\<close>

lemma row_affine:
  "length r = length m \<Longrightarrow>
    sum_list (map2 (*) (map (\<lambda>v. a * v + b) r) m) = a * sum_list (map2 (*) r m) + b * (sum_list m :: real)"
  by (induction r m rule: list_induct2) (auto simp: algebra_simps)

lemma masked_sum_affine:
  "same_shape vals rmask \<Longrightarrow>
    masked_sum (mmap (\<lambda>v. a * v + b) vals) rmask = a * masked_sum vals rmask + b * msum rmask"
proof (induction vals arbitrary: rmask)
  case (Cons r vals)
  then obtain m rest where [simp]: "rmask = m # rest" and l: "length r = length m" "same_shape vals rest"
    by (cases rmask) auto
  show ?case
    using Cons.IH[OF l(2)] row_affine[OF l(1), of a b] by (simp add: mmap_def algebra_simps)
qed (simp add: mmap_def)

section \<open>Grouping by label\<close>

definition group_of :: "'u list \<Rightarrow> nat \<Rightarrow> nat list" where
  "group_of uids i = filter (\<lambda>j. uids ! j = uids ! i) [0..<length uids]"

definition group_scores :: "'b list \<Rightarrow> 'u list \<Rightarrow> nat \<Rightarrow> 'b list" where
  "group_scores scores uids i = map (\<lambda>j. scores ! j) (group_of uids i)"

lemma group_of_mem: "i < length uids \<Longrightarrow> i \<in> set (group_of uids i)"
  by (simp add: group_of_def)

lemma group_of_less: "j \<in> set (group_of uids i) \<Longrightarrow> j < length uids"
  by (simp add: group_of_def)

lemma group_of_cong: "j \<in> set (group_of uids i) \<Longrightarrow> group_of uids j = group_of uids i"
  by (auto simp: group_of_def)

lemma group_scores_cong: "j \<in> set (group_of uids i) \<Longrightarrow> group_scores xs uids j = group_scores xs uids i"
  by (simp add: group_scores_def group_of_cong)

lemma length_group_scores [simp]: "length (group_scores xs uids i) = length (group_of uids i)"
  by (simp add: group_scores_def)

lemma group_of_nonempty: "i < length uids \<Longrightarrow> group_of uids i \<noteq> []"
  using group_of_mem[of i uids] by auto

end
