(* ===== verification/Evidence_Gating.thy ===== *)
theory Evidence_Gating
  imports Tensor_Ops
begin

text \<open>
  \<open>verl/verl/trainer/distillation/evidence_weighting.py\<close>: the contrastive evidence weights of
  V-Zero and the cue gate of ST-CueGate.  Tensors are lists of rows with their width, floats are
  reals (rounding, infinities and NaN are not modelled; every division below has a positive
  divisor when \<open>eps\<close> is positive, which the theorems assume where it matters).
\<close>

section \<open>Tensors\<close>

datatype logprob_tensor =
    Dim2 "real list list" nat
  | Dim3 "real list list list" nat nat
  | DimOther

type_synonym matrix = "real list list \<times> nat"

definition squeeze_single_logprob :: "logprob_tensor \<Rightarrow> matrix res" where
  "squeeze_single_logprob logprobs =
     (case logprobs of
        Dim2 rows w \<Rightarrow> Inr (rows, w)
      | Dim3 rows w last_dim \<Rightarrow> (if last_dim = 1 then Inr (map (map hd) rows, w) else Inl ValueError)
      | DimOther \<Rightarrow> Inl ValueError)"

definition pop_std :: "real list \<Rightarrow> real" where
  "pop_std xs = sqrt (mean (map (\<lambda>x. (x - mean xs)\<^sup>2) xs))"

definition zscore :: "real \<Rightarrow> real list \<Rightarrow> real \<Rightarrow> real" where
  "zscore eps xs x = (x - mean xs) / (pop_std xs + eps)"

section \<open>Token and sequence scores\<close>

definition token_score :: "real \<Rightarrow> real \<Rightarrow> real" where
  "token_score gamma d = relu d - gamma * relu (- d)"

definition seq_score :: "real \<Rightarrow> real list \<Rightarrow> real list \<Rightarrow> real" where
  "seq_score eps scores rmask = sum_list (map2 (*) scores rmask) / max (sum_list rmask) eps"

text \<open>
  The checks both functions share and the two response slices: \<open>(plus - minus)\<close> per token.  A mask
  with another number of rows than the log-probabilities always ends in an error: the masked
  selection \<open>delta[mask_bool]\<close> needs equal shapes.
\<close>

definition response_delta ::
  "logprob_tensor \<Rightarrow> logprob_tensor \<Rightarrow> matrix \<Rightarrow> nat \<Rightarrow> real list list res" where
  "response_delta lp_pos lp_neg rmask prompt_width =
     bind_res (squeeze_single_logprob lp_pos) (\<lambda>(p, pw).
     bind_res (squeeze_single_logprob lp_neg) (\<lambda>(m, mw).
     let response_end = prompt_width + snd rmask in
     require (length p = length m \<and> pw = mw) ValueError (
     require (response_end \<le> pw) ValueError (
     require (length p = length (fst rmask)) IndexError (
     Inr (map2 (map2 (-)) (map (py_slice prompt_width response_end) p)
            (map (py_slice prompt_width response_end) m)))))))"

section \<open>Group-relative advantages\<close>

definition uid_update :: "real \<Rightarrow> real list \<Rightarrow> 'u list \<Rightarrow> real list \<Rightarrow> 'u \<Rightarrow> real list" where
  "uid_update eps scores uids advantages uid =
     (let indices = filter (\<lambda>i. uids ! i = uid) [0..<length uids] in
      if length indices \<le> 1 then advantages
      else let group_scores = map (\<lambda>i. scores ! i) indices
           in fold (\<lambda>i adv. adv[i := zscore eps group_scores (scores ! i)]) indices advantages)"

text \<open>\<open>for uid in np.unique(uid_values)\<close>: in increasing order.\<close>

definition uid_advantages :: "real \<Rightarrow> real list \<Rightarrow> ('u :: linorder) list \<Rightarrow> real list" where
  "uid_advantages eps scores uids =
     foldl (uid_update eps scores uids) (replicate (length scores) 0) (sort (remdups uids))"

definition batch_advantages :: "real \<Rightarrow> real list \<Rightarrow> real list" where
  "batch_advantages eps scores =
     (if 1 < length scores then map (zscore eps scores) scores else replicate (length scores) 0)"

definition gate :: "real \<Rightarrow> real \<Rightarrow> real \<Rightarrow> real \<Rightarrow> real" where
  "gate alpha w_min w_max a = clamp w_min w_max (1 + alpha * a)"

section \<open>The evidence weights of V-Zero\<close>

record evidence_metrics =
  ev_score_mean :: real
  ev_score_std :: real
  ev_adv_mean :: real
  ev_adv_std :: real
  ev_gate_mean :: real
  ev_gate_min :: real
  ev_gate_max :: real
  ev_gate_zero_frac :: real
  ev_delta_mean :: real
  ev_delta_pos_frac :: real

definition frac :: "('a \<Rightarrow> bool) \<Rightarrow> 'a list \<Rightarrow> real" where
  "frac P xs = mean (map (\<lambda>x. if P x then 1 else 0) xs)"

definition compute_relative_evidence_opd_weights ::
  "logprob_tensor \<Rightarrow> logprob_tensor \<Rightarrow> matrix \<Rightarrow> nat \<Rightarrow> ('u :: linorder) list
    \<Rightarrow> real \<Rightarrow> real \<Rightarrow> real \<Rightarrow> real \<Rightarrow> real
    \<Rightarrow> (real list \<times> evidence_metrics \<times> (real list \<times> real list)) res" where
  "compute_relative_evidence_opd_weights teacher teacher_neg rmask prompt_width uids gamma alpha w_min w_max eps =
     require (length uids = length (fst rmask)) ValueError (
     bind_res (response_delta teacher teacher_neg rmask prompt_width) (\<lambda>delta.
     let token_scores = map (map (token_score gamma)) delta;
         scores = map2 (seq_score eps) token_scores (fst rmask);
         advantages = uid_advantages eps scores uids;
         weights = map (gate alpha w_min w_max) advantages;
         valid_delta = masked_select delta (fst rmask)
     in require (weights \<noteq> []) RuntimeError (Inr (weights,
          \<lparr>ev_score_mean = mean scores, ev_score_std = pop_std scores,
           ev_adv_mean = mean advantages, ev_adv_std = pop_std advantages,
           ev_gate_mean = mean weights, ev_gate_min = Min (set weights), ev_gate_max = Max (set weights),
           ev_gate_zero_frac = frac (\<lambda>w. w \<le> w_min + eps) weights,
           ev_delta_mean = (if valid_delta = [] then 0 else mean valid_delta),
           ev_delta_pos_frac = (if valid_delta = [] then 0 else frac (\<lambda>d. 0 < d) valid_delta)\<rparr>,
          (scores, advantages)))))"

section \<open>The cue gate\<close>

datatype group_mode = GroupBatch | GroupUid

record cue_metrics =
  cue_score_mean :: "real option"
  cue_score_std :: "real option"
  cue_gate_mean :: real
  cue_gate_min :: real
  cue_gate_max :: real
  cue_delta_mean :: real
  cue_delta_pos_frac :: real

text \<open>
  The per-token level: \<open>vals\<close> are the valid tokens of a group; a group with at most one of them
  keeps weight 1.
\<close>

definition token_row_weights ::
  "real \<Rightarrow> real \<Rightarrow> real \<Rightarrow> real \<Rightarrow> real list \<Rightarrow> real list \<Rightarrow> real list \<Rightarrow> real list" where
  "token_row_weights alpha w_min w_max eps vals scores rmask =
     map2 (\<lambda>s m. if m \<noteq> 0 then gate alpha w_min w_max (zscore eps vals s) else 1) scores rmask"

definition uid_token_update ::
  "real \<Rightarrow> real \<Rightarrow> real \<Rightarrow> real \<Rightarrow> real list list \<Rightarrow> real list list \<Rightarrow> 'u list
    \<Rightarrow> real list list \<Rightarrow> 'u \<Rightarrow> real list list" where
  "uid_token_update alpha w_min w_max eps token_scores rmask uids token_weights uid =
     (let indices = filter (\<lambda>i. uids ! i = uid) [0..<length uids];
          vals = masked_select (map (\<lambda>i. token_scores ! i) indices) (map (\<lambda>i. rmask ! i) indices)
      in if length vals \<le> 1 then token_weights
         else fold (\<lambda>i tw. tw[i := token_row_weights alpha w_min w_max eps vals (token_scores ! i) (rmask ! i)])
                indices token_weights)"

definition cue_token_weights ::
  "real \<Rightarrow> real \<Rightarrow> real \<Rightarrow> real \<Rightarrow> group_mode \<Rightarrow> ('u :: linorder) list option
    \<Rightarrow> real list list \<Rightarrow> real list list \<Rightarrow> real list list res" where
  "cue_token_weights alpha w_min w_max eps mode uids token_scores rmask =
     (let ones = map (map (\<lambda>_. 1)) token_scores in
      case mode of
        GroupUid \<Rightarrow>
          (case uids of
             None \<Rightarrow> Inl ValueError
           | Some us \<Rightarrow> require (length us = length token_scores) ValueError (Inr
               (foldl (uid_token_update alpha w_min w_max eps token_scores rmask us) ones (sort (remdups us)))))
      | GroupBatch \<Rightarrow>
          (let vals = masked_select token_scores rmask in
           Inr (if 1 < length vals
                then map2 (token_row_weights alpha w_min w_max eps vals) token_scores rmask
                else ones)))"

definition cue_seq_weights ::
  "real \<Rightarrow> real \<Rightarrow> real \<Rightarrow> real \<Rightarrow> group_mode \<Rightarrow> ('u :: linorder) list option \<Rightarrow> real list \<Rightarrow> real list res" where
  "cue_seq_weights alpha w_min w_max eps mode uids scores =
     bind_res
       (case mode of
          GroupUid \<Rightarrow>
            (case uids of
               None \<Rightarrow> Inl ValueError
             | Some us \<Rightarrow> require (length us = length scores) ValueError (Inr (uid_advantages eps scores us)))
        | GroupBatch \<Rightarrow> Inr (batch_advantages eps scores))
       (\<lambda>advantages. Inr (map (gate alpha w_min w_max) advantages))"

datatype gate_weights = SeqWeights "real list" | TokenWeights "real list list"

definition compute_cue_gate_weights ::
  "logprob_tensor \<Rightarrow> logprob_tensor \<Rightarrow> matrix \<Rightarrow> nat \<Rightarrow> real \<Rightarrow> real \<Rightarrow> real \<Rightarrow> real \<Rightarrow> real
    \<Rightarrow> group_mode \<Rightarrow> ('u :: linorder) list option \<Rightarrow> bool \<Rightarrow> (gate_weights \<times> cue_metrics) res" where
  "compute_cue_gate_weights teacher nocue rmask prompt_width alpha gamma w_min w_max eps mode uids token_level =
     bind_res (response_delta teacher nocue rmask prompt_width) (\<lambda>delta.
     let token_scores = map (map (token_score gamma)) delta;
         vd = masked_select delta (fst rmask);
         delta_mean = (if vd = [] then 0 else mean vd);
         pos_frac = (if vd = [] then 0 else frac (\<lambda>d. 0 < d) vd)
     in if token_level then
          bind_res (cue_token_weights alpha w_min w_max eps mode uids token_scores (fst rmask)) (\<lambda>weights.
          let gv = masked_select weights (fst rmask) in
          Inr (TokenWeights weights,
            \<lparr>cue_score_mean = None, cue_score_std = None,
             cue_gate_mean = (if gv = [] then 1 else mean gv),
             cue_gate_min = (if gv = [] then 1 else Min (set gv)),
             cue_gate_max = (if gv = [] then 1 else Max (set gv)),
             cue_delta_mean = delta_mean, cue_delta_pos_frac = pos_frac\<rparr>))
        else
          (let scores = map2 (seq_score eps) token_scores (fst rmask) in
           bind_res (cue_seq_weights alpha w_min w_max eps mode uids scores) (\<lambda>weights.
           require (weights \<noteq> []) RuntimeError (Inr (SeqWeights weights,
             \<lparr>cue_score_mean = Some (mean scores), cue_score_std = Some (pop_std scores),
              cue_gate_mean = mean weights, cue_gate_min = Min (set weights), cue_gate_max = Max (set weights),
              cue_delta_mean = delta_mean, cue_delta_pos_frac = pos_frac\<rparr>)))))"

section \<open>Lemmas on the gate and the z-score\<close>

named_theorems gate_simps \<open>neutral values of the gate\<close>

lemma gate_bounds: "w_min \<le> w_max \<Longrightarrow> w_min \<le> gate alpha w_min w_max a \<and> gate alpha w_min w_max a \<le> w_max"
  by (auto simp: gate_def clamp_def)

lemma gate_neutral [gate_simps]:
  "w_min \<le> 1 \<Longrightarrow> 1 \<le> w_max \<Longrightarrow> gate alpha w_min w_max 0 = 1"
  "w_min \<le> 1 \<Longrightarrow> 1 \<le> w_max \<Longrightarrow> gate 0 w_min w_max a = 1"
  by (auto simp: gate_def clamp_def)

lemma gate_mono: "0 \<le> alpha \<Longrightarrow> a \<le> b \<Longrightarrow> gate alpha w_min w_max a \<le> gate alpha w_min w_max b"
  unfolding gate_def clamp_def by (intro min.mono max.mono add_left_mono mult_left_mono order_refl)

lemma pop_std_nonneg [simp]: "0 \<le> pop_std xs"
  unfolding pop_std_def by (intro real_sqrt_ge_zero mean_nonneg) auto

lemma pop_std_square: "(pop_std xs)\<^sup>2 = mean (map (\<lambda>x. (x - mean xs)\<^sup>2) xs)"
  unfolding pop_std_def by (intro real_sqrt_pow2 mean_nonneg) auto

lemma zscore_mono: "0 < eps \<Longrightarrow> x \<le> y \<Longrightarrow> zscore eps xs x \<le> zscore eps xs y"
  unfolding zscore_def by (intro divide_right_mono) (auto simp: add_nonneg_nonneg less_imp_le)

lemma zscore_const [gate_simps]:
  "(\<And>y. y \<in> set xs \<Longrightarrow> y = c) \<Longrightarrow> xs \<noteq> [] \<Longrightarrow> zscore eps xs c = 0"
  by (simp add: zscore_def mean_const[of xs c])

lemma sum_zscore: "sum_list (map (zscore eps xs) xs) = 0"
proof -
  have "sum_list (map (zscore eps xs) ys) = sum_list (map (\<lambda>x. x - mean xs) ys) / (pop_std xs + eps)" for ys
    by (induction ys) (auto simp: zscore_def add_divide_distrib)
  then show ?thesis by (simp add: sum_list_centered)
qed

text \<open>No z-score exceeds the square root of the size of its group.\<close>

lemma zscore_bound:
  assumes "x \<in> set xs" "0 < eps"
  shows "\<bar>zscore eps xs x\<bar> \<le> sqrt (real (length xs))"
proof -
  have n: "0 < length xs" using assms(1) by (auto intro: length_pos_if_in_set)
  have "(x - mean xs)\<^sup>2 / real (length xs) \<le> (pop_std xs)\<^sup>2"
    using mean_ge_member[OF assms(1), of "\<lambda>x. (x - mean xs)\<^sup>2"]
    by (simp add: pop_std_square)
  then have "(x - mean xs)\<^sup>2 \<le> (sqrt (real (length xs)) * pop_std xs)\<^sup>2"
    using n by (simp add: power_mult_distrib field_simps)
  then have "\<bar>x - mean xs\<bar> \<le> \<bar>sqrt (real (length xs)) * pop_std xs\<bar>"
    by (simp only: abs_le_square_iff)
  then have "\<bar>x - mean xs\<bar> \<le> sqrt (real (length xs)) * pop_std xs"
    by (simp add: abs_mult)
  also have "\<dots> \<le> sqrt (real (length xs)) * (pop_std xs + eps)"
    using assms(2) by (intro mult_left_mono) auto
  finally show ?thesis
    using assms(2) add_nonneg_pos[OF pop_std_nonneg[of xs] assms(2)]
    by (simp add: zscore_def abs_divide pos_divide_le_eq)
qed

section \<open>Updates group by group\<close>

text \<open>
  Both levels of the gate visit the distinct uids and overwrite the entries of each group that is
  large enough.  The interface: one visit touches exactly the entries of its uid, with a value
  that does not depend on the entries so far.
\<close>

locale uid_grouping =
  fixes uids :: "'u list"
    and upd :: "'b list \<Rightarrow> 'u \<Rightarrow> 'b list"
    and val :: "nat \<Rightarrow> 'b option"
  assumes length_upd: "length (upd xs u) = length xs"
    and nth_upd: "length xs = length uids \<Longrightarrow> i < length xs \<Longrightarrow> upd xs u ! i =
      (if uids ! i = u then (case val i of None \<Rightarrow> xs ! i | Some v \<Rightarrow> v) else xs ! i)"
begin

lemma length_visits [simp]: "length (foldl upd xs us) = length xs"
  by (induction us arbitrary: xs) (auto simp: length_upd)

lemma nth_visits:
  "length xs = length uids \<Longrightarrow> i < length xs \<Longrightarrow> foldl upd xs us ! i =
    (if uids ! i \<in> set us then (case val i of None \<Rightarrow> xs ! i | Some v \<Rightarrow> v) else xs ! i)"
  by (induction us arbitrary: xs) (auto simp: length_upd nth_upd split: option.splits)

lemma nth_all_visits:
  "length xs = length uids \<Longrightarrow> i < length xs \<Longrightarrow> set us = set uids \<Longrightarrow>
    foldl upd xs us ! i = (case val i of None \<Rightarrow> xs ! i | Some v \<Rightarrow> v)"
  by (simp add: nth_visits)

end

interpretation seq_gate: uid_grouping uids "uid_update eps scores uids"
  "\<lambda>i. if length (group_of uids i) \<le> 1 then None
       else Some (zscore eps (group_scores scores uids i) (scores ! i))" for eps scores uids
  by unfold_locales
    (auto simp: uid_update_def Let_def nth_fold_update group_of_def group_scores_def)

definition token_group_vals :: "real list list \<Rightarrow> real list list \<Rightarrow> 'u list \<Rightarrow> nat \<Rightarrow> real list" where
  "token_group_vals scores rmask uids i =
     masked_select (map (\<lambda>j. scores ! j) (group_of uids i)) (map (\<lambda>j. rmask ! j) (group_of uids i))"

interpretation token_gate: uid_grouping uids "uid_token_update alpha w_min w_max eps scores rmask uids"
  "\<lambda>i. if length (token_group_vals scores rmask uids i) \<le> 1 then None
       else Some (token_row_weights alpha w_min w_max eps (token_group_vals scores rmask uids i)
         (scores ! i) (rmask ! i))" for alpha w_min w_max eps scores rmask uids
  by unfold_locales
    (auto simp: uid_token_update_def Let_def nth_fold_update group_of_def token_group_vals_def)

lemma length_uid_advantages [simp]: "length (uid_advantages eps scores uids) = length scores"
  by (simp add: uid_advantages_def)

lemma uid_advantages_Nil [simp]: "uid_advantages eps scores uids = [] \<longleftrightarrow> scores = []"
  by (metis length_0_conv length_uid_advantages)

text \<open>The loop over the distinct uids computes the pointwise definition.\<close>

lemma uid_advantages_nth:
  "length uids = length scores \<Longrightarrow> i < length scores \<Longrightarrow> uid_advantages eps scores uids ! i =
    (if length (group_of uids i) \<le> 1 then 0 else zscore eps (group_scores scores uids i) (scores ! i))"
  by (simp add: uid_advantages_def seq_gate.nth_all_visits)

lemma length_batch_advantages [simp]: "length (batch_advantages eps scores) = length scores"
  by (simp add: batch_advantages_def)

lemma cue_seq_weights_InrD:
  assumes "cue_seq_weights alpha w_min w_max eps mode uids scores = Inr ws"
  shows "\<exists>adv. length adv = length scores \<and> ws = map (gate alpha w_min w_max) adv"
  using assms
  by (auto simp: cue_seq_weights_def bind_res_eq_Inr split: group_mode.splits option.splits)
    (metis length_batch_advantages length_uid_advantages)+

lemma length_token_row [simp]:
  "length (token_row_weights alpha w_min w_max eps vals scores rmask) = min (length scores) (length rmask)"
  by (simp add: token_row_weights_def)

text \<open>The entries of a gate, at either level.\<close>

fun gate_entries :: "gate_weights \<Rightarrow> real list" where
  "gate_entries (SeqWeights ws) = ws"
| "gate_entries (TokenWeights tw) = concat tw"

lemma response_delta_length:
  "response_delta p n rmask pw = Inr delta \<Longrightarrow> length delta = length (fst rmask)"
  by (auto simp: response_delta_def bind_res_eq_Inr Let_def)

lemma cue_gate_InrD:
  assumes "compute_cue_gate_weights p n rmask pw alpha gamma w_min w_max eps mode uids lvl = Inr (W, m)"
  obtains delta where "response_delta p n rmask pw = Inr delta"
    "\<not> lvl \<Longrightarrow> \<exists>ws. W = SeqWeights ws \<and> cue_seq_weights alpha w_min w_max eps mode uids
        (map2 (seq_score eps) (map (map (token_score gamma)) delta) (fst rmask)) = Inr ws \<and> ws \<noteq> []
        \<and> cue_gate_min m = Min (set ws) \<and> cue_gate_max m = Max (set ws) \<and> cue_gate_mean m = mean ws"
    "lvl \<Longrightarrow> \<exists>tw. W = TokenWeights tw \<and> cue_token_weights alpha w_min w_max eps mode uids
        (map (map (token_score gamma)) delta) (fst rmask) = Inr tw"
  using assms
  by (cases lvl) (auto simp: compute_cue_gate_weights_def bind_res_eq_Inr Let_def)

text \<open>
  Each row of the per-token gate is neutral, or normalises over some of the tokens of the batch.
\<close>

lemma cue_token_rows:
  assumes "cue_token_weights alpha w_min w_max eps mode uids scores rmask = Inr tw"
    and len: "length scores = length rmask"
  shows "length tw = length scores \<and> (\<forall>i < length scores. tw ! i = map (\<lambda>_. 1) (scores ! i)
    \<or> (\<exists>vals. vals \<noteq> [] \<and> set vals \<subseteq> \<Union> (set ` set scores)
        \<and> tw ! i = token_row_weights alpha w_min w_max eps vals (scores ! i) (rmask ! i)))"
proof (cases mode)
  case GroupBatch
  then show ?thesis
    using assms set_masked_select[of scores rmask]
    by (auto simp: cue_token_weights_def Let_def split: if_splits
        intro!: exI[of _ "masked_select scores rmask"])
next
  case GroupUid
  then obtain us where us: "uids = Some us" "length us = length scores"
    "tw = foldl (uid_token_update alpha w_min w_max eps scores rmask us)
       (map (map (\<lambda>_. 1)) scores) (sort (remdups us))"
    using assms(1) by (auto simp: cue_token_weights_def Let_def split: option.splits)
  let ?vals = "token_group_vals scores rmask us"
  have "set (?vals i) \<subseteq> \<Union> (set ` set scores)" if "i < length scores" for i
  proof -
    have "set (map (\<lambda>j. scores ! j) (group_of us i)) \<subseteq> set scores"
      using us(2) by (auto simp: group_of_def)
    then show ?thesis
      unfolding token_group_vals_def by (rule order_trans[OF set_masked_select UN_mono]) simp
  qed
  moreover have "tw ! i = (if length (?vals i) \<le> 1 then map (\<lambda>_. 1) (scores ! i)
      else token_row_weights alpha w_min w_max eps (?vals i) (scores ! i) (rmask ! i))"
    if "i < length scores" for i
    using that us(2) by (simp add: us(3) token_gate.nth_all_visits)
  moreover have "?vals i \<noteq> []" if "\<not> length (?vals i) \<le> 1" for i
    using that by auto
  ultimately show ?thesis
    by (simp add: us(2,3)) metis
qed

lemma cue_token_entries:
  assumes "cue_token_weights alpha w_min w_max eps mode uids scores rmask = Inr tw"
    and "length scores = length rmask" "w \<in> set (concat tw)"
  shows "w = 1 \<or> (\<exists>vals s. vals \<noteq> [] \<and> set vals \<subseteq> \<Union> (set ` set scores) \<and> s \<in> \<Union> (set ` set scores)
    \<and> w = gate alpha w_min w_max (zscore eps vals s))"
proof -
  note rows = cue_token_rows[OF assms(1,2)]
  from assms(3) obtain r where r: "r \<in> set tw" "w \<in> set r" by auto
  from r(1) obtain i where i0: "i < length tw" "tw ! i = r" by (auto simp: in_set_conv_nth)
  have i: "i < length scores" "w \<in> set (tw ! i)" using i0 r(2) rows by auto
  have "scores ! i \<in> set scores" using i(1) by simp
  then show ?thesis
    using rows i by (fastforce simp: token_row_weights_def dest: set_zip_leftD)
qed


lemma relu_zero [simp]: "relu 0 = 0"
  by (simp add: relu_def)

lemma token_score_zero [simp]: "token_score gamma 0 = 0"
  by (simp add: token_score_def)

lemma response_delta_same:
  assumes "response_delta p p rmask pw = Inr delta"
  shows "\<forall>x \<in> \<Union> (set ` set delta). x = 0"
  using assms
  by (auto simp: response_delta_def bind_res_eq_Inr Let_def in_set_zip in_set_conv_nth)

lemma seq_score_zeros:
  "\<forall>x \<in> set scores. x = 0 \<Longrightarrow> seq_score eps scores m = 0"
proof -
  assume z: "\<forall>x \<in> set scores. x = 0"
  have "sum_list (map2 (*) scores m) = 0"
    using z by (intro sum_list_zeros) (auto dest: set_zip_leftD)
  then show ?thesis by (simp add: seq_score_def)
qed

text \<open>An advantage over a set of scores: neutral, or a z-score within some of them.\<close>

definition normalised :: "real \<Rightarrow> real set \<Rightarrow> real \<Rightarrow> bool" where
  "normalised eps S a \<longleftrightarrow>
     a = 0 \<or> (\<exists>vals s. vals \<noteq> [] \<and> set vals \<subseteq> S \<and> s \<in> S \<and> a = zscore eps vals s)"

lemma normalised_zero: "normalised eps S 0"
  by (simp add: normalised_def)

lemma normalised_zscore: "vals \<noteq> [] \<Longrightarrow> set vals \<subseteq> S \<Longrightarrow> s \<in> S \<Longrightarrow> normalised eps S (zscore eps vals s)"
  by (auto simp: normalised_def)

lemma normalised_const: "\<forall>x \<in> S. x = c \<Longrightarrow> normalised eps S a \<Longrightarrow> a = 0"
  unfolding normalised_def by (metis subset_iff zscore_const)

lemma uid_advantages_mem:
  assumes "length uids = length scores" "a \<in> set (uid_advantages eps scores uids)"
  shows "normalised eps (set scores) a"
proof -
  from assms obtain i where i: "i < length scores" "a = uid_advantages eps scores uids ! i"
    by (auto simp: in_set_conv_nth)
  have "set (group_scores scores uids i) \<subseteq> set scores"
    using assms(1) by (auto simp: group_scores_def group_of_def)
  moreover have "group_scores scores uids i \<noteq> []"
    using group_of_mem[of i uids] i(1) assms(1) by (auto simp: group_scores_def)
  ultimately show ?thesis
    using i assms(1) by (auto simp: uid_advantages_nth intro: normalised_zero normalised_zscore)
qed

lemma batch_advantages_mem:
  assumes "a \<in> set (batch_advantages eps scores)"
  shows "normalised eps (set scores) a"
  using assms
  by (auto simp: batch_advantages_def intro!: normalised_zscore normalised_zero split: if_splits)

lemma cue_seq_entries:
  assumes "cue_seq_weights alpha w_min w_max eps mode uids scores = Inr ws" "w \<in> set ws"
  shows "\<exists>a. w = gate alpha w_min w_max a \<and> normalised eps (set scores) a"
proof -
  obtain adv where adv: "ws = map (gate alpha w_min w_max) adv" "\<forall>a \<in> set adv. normalised eps (set scores) a"
    using assms(1) uid_advantages_mem[of "the uids" scores _ eps] batch_advantages_mem[of _ eps scores]
    by (cases mode) (auto simp: cue_seq_weights_def bind_res_eq_Inr split: option.splits)
  then show ?thesis using assms(2) by auto
qed

text \<open>Every entry of a gate is 1, or the gate of an advantage over some score set.\<close>

lemma cue_gate_entries:
  assumes "compute_cue_gate_weights p n rmask pw alpha gamma w_min w_max eps mode uids lvl = Inr (W, m)"
    and "w \<in> set (gate_entries W)"
  obtains delta S where "response_delta p n rmask pw = Inr delta"
    "(\<forall>x \<in> \<Union> (set ` set delta). x = 0) \<Longrightarrow> \<forall>s \<in> S. s = 0"
    "lvl \<and> w = 1 \<or> (\<exists>a. w = gate alpha w_min w_max a \<and> normalised eps S a)"
proof -
  from assms(1) obtain delta where d: "response_delta p n rmask pw = Inr delta"
    "\<not> lvl \<Longrightarrow> \<exists>ws. W = SeqWeights ws \<and> cue_seq_weights alpha w_min w_max eps mode uids
        (map2 (seq_score eps) (map (map (token_score gamma)) delta) (fst rmask)) = Inr ws"
    "lvl \<Longrightarrow> \<exists>tw. W = TokenWeights tw \<and> cue_token_weights alpha w_min w_max eps mode uids
        (map (map (token_score gamma)) delta) (fst rmask) = Inr tw"
    by (rule cue_gate_InrD) blast
  let ?ts = "map (map (token_score gamma)) delta"
  have zero: "\<forall>x \<in> \<Union> (set ` set ?ts). x = 0" if "\<forall>x \<in> \<Union> (set ` set delta). x = 0"
    using that by fastforce
  show thesis
  proof (cases lvl)
    case True
    then obtain tw where tw: "W = TokenWeights tw"
      "cue_token_weights alpha w_min w_max eps mode uids ?ts (fst rmask) = Inr tw"
      using d(3) by blast
    have "w = 1 \<or> (\<exists>a. w = gate alpha w_min w_max a \<and> normalised eps (\<Union> (set ` set ?ts)) a)"
    proof -
      have "w \<in> set (concat tw)" using assms(2) tw(1) by simp
      moreover have "length ?ts = length (fst rmask)" using response_delta_length[OF d(1)] by simp
      ultimately show ?thesis
        using cue_token_entries[OF tw(2)] normalised_zscore by meson
    qed
    then show thesis using that[OF d(1) zero] True by blast
  next
    case False
    then obtain ws where ws: "W = SeqWeights ws" "cue_seq_weights alpha w_min w_max eps mode uids
        (map2 (seq_score eps) ?ts (fst rmask)) = Inr ws"
      using d(2) by blast
    have z: "\<forall>s \<in> set (map2 (seq_score eps) ?ts (fst rmask)). s = 0"
      if "\<forall>x \<in> \<Union> (set ` set delta). x = 0"
      using zero[OF that] by (auto dest!: set_zip_leftD intro!: seq_score_zeros)
    show thesis
      using that[OF d(1) z] cue_seq_entries[OF ws(2)] assms(2) ws(1) by auto
  qed
qed


section \<open>Properties\<close>

text \<open>
  Whatever the level, the grouping and the scores, every weight of the cue gate lies between
  \<open>w_min\<close> and \<open>w_max\<close> or is the neutral weight 1, and a weight outside the bounds only occurs at
  the token level.
\<close>

theorem cue_gate_weights_bounded:
  assumes "w_min \<le> w_max"
    and "compute_cue_gate_weights p n rmask pw alpha gamma w_min w_max eps mode uids lvl = Inr (W, m)"
    and "w \<in> set (gate_entries W)"
  shows "w_min \<le> w \<and> w \<le> w_max \<or> lvl \<and> w = 1"
  using cue_gate_entries[OF assms(2,3)] gate_bounds[OF assms(1)] by metis

theorem cue_gate_weights_bounded_witness:
  "\<exists>W m. compute_cue_gate_weights (Dim2 [[2, 0], [1, 0]] 2) (Dim2 [[0, 0], [1, 0]] 2) ([[1, 0], [1, 0]], 2) 0
     1 0 0 2 1 GroupUid (Some [0 :: nat, 1]) False = Inr (W, m)
   \<and> (\<forall>w \<in> set (gate_entries W). 0 \<le> w \<and> w \<le> 2)"
proof -
  let ?r = "compute_cue_gate_weights (Dim2 [[2, 0], [1, 0]] 2) (Dim2 [[0, 0], [1, 0]] 2) ([[1, 0], [1, 0]], 2) 0
     1 0 0 2 1 GroupUid (Some [0 :: nat, 1]) False"
  have "\<not> isl ?r"
    by (simp add: compute_cue_gate_weights_def response_delta_def squeeze_single_logprob_def
        cue_seq_weights_def require_def py_slice_def Let_def)
  then obtain W m where r: "?r = Inr (W, m)"
    by (cases ?r) auto
  have "0 \<le> w \<and> w \<le> 2" if "w \<in> set (gate_entries W)" for w
    using cue_gate_weights_bounded[OF _ r that] by simp
  then show ?thesis using r by blast
qed

text \<open>
  The gate is neutral when it should be: with \<open>alpha = 0\<close>, or when the cue changes no
  log-probability, every weight is 1 at both levels, provided the interval of the clamp contains 1.
\<close>

theorem cue_gate_neutral:
  assumes "w_min \<le> 1" "1 \<le> w_max" "alpha = 0 \<or> p = n"
    and "compute_cue_gate_weights p n rmask pw alpha gamma w_min w_max eps mode uids lvl = Inr (W, m)"
    and "w \<in> set (gate_entries W)"
  shows "w = 1"
proof (cases "alpha = 0")
  case True
  then show ?thesis
    using cue_gate_entries[OF assms(4,5)] gate_neutral(2)[OF assms(1,2)] by metis
next
  case False
  with assms(3) have "p = n" by simp
  obtain delta S where d: "response_delta p n rmask pw = Inr delta"
    "(\<forall>x \<in> \<Union> (set ` set delta). x = 0) \<Longrightarrow> \<forall>s \<in> S. s = 0"
    "lvl \<and> w = 1 \<or> (\<exists>a. w = gate alpha w_min w_max a \<and> normalised eps S a)"
    by (rule cue_gate_entries[OF assms(4,5)]) blast
  have "\<forall>s \<in> S. s = 0"
    by (rule d(2)) (use response_delta_same d(1) \<open>p = n\<close> in blast)
  then show ?thesis
    using d(3) normalised_const[of S 0 eps] gate_neutral(1)[OF assms(1,2)] by metis
qed

theorem cue_gate_neutral_witness:
  "\<exists>W m. compute_cue_gate_weights (Dim2 [[2, 0], [1, 0]] 2) (Dim2 [[2, 0], [1, 0]] 2) ([[1, 0], [1, 1]], 2) 0
     3 0 0 2 1 GroupBatch (None :: nat list option) True = Inr (W, m) \<and> (\<forall>w \<in> set (gate_entries W). w = 1)"
proof -
  let ?r = "compute_cue_gate_weights (Dim2 [[2, 0], [1, 0]] 2) (Dim2 [[2, 0], [1, 0]] 2) ([[1, 0], [1, 1]], 2) 0
     3 0 0 2 1 GroupBatch (None :: nat list option) True"
  have "\<not> isl ?r"
    by (simp add: compute_cue_gate_weights_def response_delta_def squeeze_single_logprob_def
        cue_token_weights_def require_def py_slice_def Let_def)
  then obtain W m where r: "?r = Inr (W, m)"
    by (cases ?r) auto
  have "w = 1" if "w \<in> set (gate_entries W)" for w
    using cue_gate_neutral[OF _ _ _ r that] by simp
  then show ?thesis using r by blast
qed


text \<open>The two sums of a group: the advantages of its members cancel.\<close>

lemma group_scores_zscore:
  "map (\<lambda>j. zscore eps (group_scores scores uids i) (scores ! j)) (group_of uids i)
    = map (zscore eps (group_scores scores uids i)) (group_scores scores uids i)"
  by (simp add: group_scores_def)

lemma group_advantages_sum:
  assumes "length uids = length scores" "i < length scores"
  shows "sum_list (map (\<lambda>j. uid_advantages eps scores uids ! j) (group_of uids i)) = 0"
proof (cases "length (group_of uids i) \<le> 1")
  case True
  have "uid_advantages eps scores uids ! j = 0" if "j \<in> set (group_of uids i)" for j
    using that assms True group_of_cong[OF that]
    by (subst uid_advantages_nth) (auto simp: group_of_def)
  then show ?thesis by (intro sum_list_zeros) auto
next
  case False
  have "uid_advantages eps scores uids ! j = zscore eps (group_scores scores uids i) (scores ! j)"
    if "j \<in> set (group_of uids i)" for j
    using that assms False group_of_cong[OF that]
    by (subst uid_advantages_nth) (auto simp: group_of_def group_scores_def)
  then have "map (\<lambda>j. uid_advantages eps scores uids ! j) (group_of uids i)
      = map (\<lambda>j. zscore eps (group_scores scores uids i) (scores ! j)) (group_of uids i)"
    by (rule map_cong[OF refl])
  then show ?thesis by (simp only: group_scores_zscore sum_zscore)
qed

lemma evidence_InrD:
  assumes "compute_relative_evidence_opd_weights p n rmask pw uids gamma alpha w_min w_max eps
    = Inr (ws, m, (scores, adv))"
  shows "length uids = length scores \<and> adv = uid_advantages eps scores uids
    \<and> ws = map (gate alpha w_min w_max) adv \<and> length scores = length (fst rmask)"
  using assms response_delta_length[of p n rmask pw]
  by (auto simp: compute_relative_evidence_opd_weights_def bind_res_eq_Inr Let_def)

lemma evidence_length:
  assumes "compute_relative_evidence_opd_weights p n rmask pw uids gamma alpha w_min w_max eps
    = Inr (ws, m, (scores, adv))"
  shows "length ws = length (fst rmask)"
  using evidence_InrD[OF assms] by simp

lemma evidence_alpha_zero:
  assumes "compute_relative_evidence_opd_weights p n rmask pw uids gamma 0 w_min w_max eps
    = Inr (ws, m, (scores, adv))"
  shows "w_min \<le> 1 \<Longrightarrow> 1 \<le> w_max \<Longrightarrow> \<forall>w \<in> set ws. w = 1"
  using evidence_InrD[OF assms] gate_neutral(2) by auto

text \<open>
  The weights of V-Zero are group-relative: a rollout without a sibling gets the weight of
  advantage 0, any other the gate of its z-score within its own uid group; with \<open>alpha \<ge> 0\<close> two
  siblings are weighted in the order of their evidence scores; and no advantage exceeds the square
  root of the group's size.
\<close>

theorem evidence_weights_group_relative:
  assumes "compute_relative_evidence_opd_weights p n rmask pw uids gamma alpha w_min w_max eps
      = Inr (ws, m, (scores, adv))"
    and "0 < eps" "0 \<le> alpha" "i < length ws"
  shows "length ws = length (fst rmask)
    \<and> ws ! i = (if length (group_of uids i) \<le> 1 then gate alpha w_min w_max 0
        else gate alpha w_min w_max (zscore eps (group_scores scores uids i) (scores ! i)))
    \<and> (\<forall>j \<in> set (group_of uids i). scores ! i \<le> scores ! j \<longrightarrow> ws ! i \<le> ws ! j)
    \<and> \<bar>adv ! i\<bar> \<le> sqrt (real (length (group_of uids i)))"
proof -
  note D = evidence_InrD[OF assms(1)]
  have i: "i < length scores" using D assms(4) by simp
  have adv: "adv ! j = (if length (group_of uids j) \<le> 1 then 0
      else zscore eps (group_scores scores uids j) (scores ! j))" if "j < length scores" for j
    using D that by (simp add: uid_advantages_nth)
  have same: "group_of uids j = group_of uids i" "group_scores scores uids j = group_scores scores uids i"
      "j < length scores" if "j \<in> set (group_of uids i)" for j
    using that D group_of_cong[OF that] by (auto simp: group_scores_def group_of_def)
  have "ws ! i \<le> ws ! j" if "j \<in> set (group_of uids i)" "scores ! i \<le> scores ! j" for j
  proof -
    have "adv ! i \<le> adv ! j"
      using adv[OF i] adv[OF same(3)[OF that(1)]] same[OF that(1)] zscore_mono[OF assms(2) that(2)] by simp
    then show ?thesis using D i same(3)[OF that(1)] gate_mono[OF assms(3)] by simp
  qed
  moreover have "\<bar>adv ! i\<bar> \<le> sqrt (real (length (group_of uids i)))"
    using adv[OF i] zscore_bound[of "scores ! i" "group_scores scores uids i", OF _ assms(2)]
      group_of_mem[of i uids] D i by (auto simp: group_scores_def)
  moreover have "ws ! i = gate alpha w_min w_max (adv ! i)" using D i by simp
  ultimately show ?thesis using D adv[OF i] by simp
qed

theorem evidence_weights_group_relative_witness:
  "\<exists>ws m scores adv. compute_relative_evidence_opd_weights (Dim2 [[2], [1], [5]] 1) (Dim2 [[0], [0], [0]] 1)
      ([[1], [1], [1]], 1) 0 [0 :: nat, 0, 1] 0 1 0 2 1 = Inr (ws, m, (scores, adv))
    \<and> length ws = 3 \<and> \<bar>adv ! 1\<bar> \<le> sqrt (real (length (group_of [0 :: nat, 0, 1] 1)))"
proof -
  let ?r = "compute_relative_evidence_opd_weights (Dim2 [[2], [1], [5]] 1) (Dim2 [[0], [0], [0]] 1)
      ([[1], [1], [1]], 1) 0 [0 :: nat, 0, 1] 0 1 0 2 1"
  have "\<not> isl ?r"
    by (simp add: compute_relative_evidence_opd_weights_def response_delta_def squeeze_single_logprob_def
        require_def py_slice_def Let_def)
  then obtain ws m scores adv where r: "?r = Inr (ws, m, (scores, adv))"
    by (metis isl_def obj_sumE prod_cases4)
  have len: "length ws = 3" using evidence_length[OF r] by simp
  have "\<bar>adv ! 1\<bar> \<le> sqrt (real (length (group_of [0 :: nat, 0, 1] 1)))"
    by (rule evidence_weights_group_relative[OF r, THEN conjunct2, THEN conjunct2, THEN conjunct2])
      (simp_all add: len)
  then show ?thesis using r len by blast
qed

text \<open>
  Inside a uid group the weights of V-Zero only redistribute: when no member is clipped, the
  weights of the group sum to its size.
\<close>

theorem evidence_weights_redistribute:
  assumes "compute_relative_evidence_opd_weights p n rmask pw uids gamma alpha w_min w_max eps
      = Inr (ws, m, (scores, adv))"
    and "i < length ws"
    and "\<forall>j \<in> set (group_of uids i). w_min < ws ! j \<and> ws ! j < w_max"
  shows "sum_list (map (\<lambda>j. ws ! j) (group_of uids i)) = real (length (group_of uids i))"
proof -
  note D = evidence_InrD[OF assms(1)]
  have "ws ! j = 1 + alpha * adv ! j" if "j \<in> set (group_of uids i)" for j
    using assms(3)[rule_format, OF that] D that by (auto simp: group_of_def gate_def clamp_def min_def max_def split: if_splits)
  then have "map (\<lambda>j. ws ! j) (group_of uids i) = map (\<lambda>j. 1 + alpha * adv ! j) (group_of uids i)"
    by (rule map_cong[OF refl])
  then have "sum_list (map (\<lambda>j. ws ! j) (group_of uids i)) = sum_list (map (\<lambda>j. 1 + alpha * adv ! j) (group_of uids i))"
    by (rule arg_cong)
  also have "sum_list (map (\<lambda>j. 1 + alpha * adv ! j) js) = real (length js) + alpha * sum_list (map (\<lambda>j. adv ! j) js)"
    for js by (induction js) (auto simp: algebra_simps)
  also have "sum_list (map (\<lambda>j. adv ! j) (group_of uids i)) = 0"
    using group_advantages_sum[of uids scores i eps] D assms(2) by simp
  finally show ?thesis by simp
qed

theorem evidence_weights_redistribute_witness:
  "\<exists>ws m scores adv. compute_relative_evidence_opd_weights (Dim2 [[2], [1], [5]] 1) (Dim2 [[0], [0], [0]] 1)
      ([[1], [1], [1]], 1) 0 [0 :: nat, 0, 1] 0 0 0 2 1 = Inr (ws, m, (scores, adv))
    \<and> sum_list (map (\<lambda>j. ws ! j) (group_of [0 :: nat, 0, 1] 1)) = real (length (group_of [0 :: nat, 0, 1] 1))"
proof -
  let ?r = "compute_relative_evidence_opd_weights (Dim2 [[2], [1], [5]] 1) (Dim2 [[0], [0], [0]] 1)
      ([[1], [1], [1]], 1) 0 [0 :: nat, 0, 1] 0 0 0 2 1"
  have "\<not> isl ?r"
    by (simp add: compute_relative_evidence_opd_weights_def response_delta_def squeeze_single_logprob_def
        require_def py_slice_def Let_def)
  then obtain ws m scores adv where r: "?r = Inr (ws, m, (scores, adv))"
    by (metis isl_def obj_sumE prod_cases4)
  have len: "length ws = 3" "\<forall>w \<in> set ws. w = 1"
    using evidence_length[OF r] evidence_alpha_zero[OF r] by simp_all
  then have "0 < ws ! j \<and> ws ! j < 2" if "j < 3" for j using that nth_mem[of j ws] by fastforce
  then have "sum_list (map (\<lambda>j. ws ! j) (group_of [0 :: nat, 0, 1] 1)) = real (length (group_of [0 :: nat, 0, 1] 1))"
    by (intro evidence_weights_redistribute[OF r]) (simp_all add: len group_of_def)
  then show ?thesis using r by blast
qed


end
