(* ===== verification/Advantages.thy ===== *)
theory Advantages
  imports Tensor_Ops "HOL-Library.Char_ord" "HOL-Library.List_Lexorder"
begin

text \<open>
  The advantage estimators and KL controllers of \<open>verl/verl/trainer/ppo/core_algos.py\<close> and the
  grouping helpers of \<open>verl/verl/utils/groupwise.py\<close>.  Column loops over a batch act on each row
  on its own and are modelled per row; the dictionaries \<open>id2score\<close>, \<open>id2mean\<close> are maps.
\<close>

section \<open>Outcome rewards grouped by prompt\<close>

definition push_group :: "('u \<rightharpoonup> 'b list) \<Rightarrow> 'u \<times> 'b \<Rightarrow> ('u \<rightharpoonup> 'b list)" where
  "push_group m = (\<lambda>(u, x). m(u \<mapsto> (case m u of None \<Rightarrow> [] | Some xs \<Rightarrow> xs) @ [x]))"

definition id2list :: "'u list \<Rightarrow> 'b list \<Rightarrow> ('u \<rightharpoonup> 'b list)" where
  "id2list index xs = foldl push_group Map.empty (zip index xs)"

text \<open>
  The loop every outcome estimator shares: collect the entries of a group, compute a statistic per
  group, then combine each entry with the statistic of its group.
\<close>

definition outcome_advantages ::
  "'u list \<Rightarrow> 'b list \<Rightarrow> ('b list \<Rightarrow> 'c res) \<Rightarrow> ('b \<Rightarrow> 'c \<Rightarrow> real) \<Rightarrow> real list res" where
  "outcome_advantages index xs stat f =
     require (length xs \<le> length index) IndexError
       (let id2 = id2list index xs in
        map_res (\<lambda>i. case id2 (index ! i) of
            None \<Rightarrow> Inl KeyError
          | Some ys \<Rightarrow> bind_res (stat ys) (\<lambda>c. Inr (f (xs ! i) c))) [0..<length xs])"

definition unbiased_std :: "real list \<Rightarrow> real" where
  "unbiased_std xs = sqrt (sum_list (map (\<lambda>x. (x - mean xs)\<^sup>2) xs) / (real (length xs) - 1))"

definition group_mean :: "real list \<Rightarrow> real res" where
  "group_mean ys = (if length ys = 1 then Inr 0
     else if 1 < length ys then Inr (mean ys) else Inl ValueError)"

definition group_mean_dev :: "real list \<Rightarrow> (real \<times> real) res" where
  "group_mean_dev ys = (if length ys = 1 then Inr (0, 1)
     else if 1 < length ys then Inr (mean ys, unbiased_std ys) else Inl ValueError)"

definition grpo_scalar :: "bool \<Rightarrow> real \<Rightarrow> real \<Rightarrow> real \<times> real \<Rightarrow> real" where
  "grpo_scalar norm_by_std eps s = (\<lambda>(m, sd). if norm_by_std then (s - m) / (sd + eps) else s - m)"

definition compute_grpo_outcome_advantage ::
  "mat \<Rightarrow> mat \<Rightarrow> 'u list \<Rightarrow> real \<Rightarrow> bool \<Rightarrow> (mat \<times> mat) res" where
  "compute_grpo_outcome_advantage rewards rmask index eps norm_by_std =
     bind_res (outcome_advantages index (map sum_list rewards) group_mean_dev (grpo_scalar norm_by_std eps))
       (\<lambda>scores. Inr (scale_rows scores rmask, scale_rows scores rmask))"

definition compute_reinforce_plus_plus_baseline_outcome_advantage ::
  "mat \<Rightarrow> mat \<Rightarrow> 'u list \<Rightarrow> (mat \<times> mat) res" where
  "compute_reinforce_plus_plus_baseline_outcome_advantage rewards rmask index =
     bind_res (outcome_advantages index (map sum_list rewards) group_mean (\<lambda>s m. s - m))
       (\<lambda>scores. bind_res (masked_whiten (scale_rows scores rmask) rmask True)
         (\<lambda>w. Inr (mzip (*) w rmask, mzip (*) w rmask)))"

definition rloo_scalar :: "real \<Rightarrow> real \<times> nat \<Rightarrow> real" where
  "rloo_scalar s = (\<lambda>(m, n). if 1 < n
     then s * real n / (real n - 1) - m * real n / (real n - 1) else s)"

definition compute_rloo_outcome_advantage :: "mat \<Rightarrow> mat \<Rightarrow> 'u list \<Rightarrow> (mat \<times> mat) res" where
  "compute_rloo_outcome_advantage rewards rmask index =
     bind_res (outcome_advantages index (map sum_list rewards)
         (\<lambda>ys. bind_res (group_mean ys) (\<lambda>m. Inr (m, length ys))) rloo_scalar)
       (\<lambda>scores. Inr (scale_rows scores rmask, scale_rows scores rmask))"

definition opo_baseline :: "(real \<times> real) list \<Rightarrow> real res" where
  "opo_baseline ys = (if length ys = 1 then Inr 0
     else if 1 < length ys
          then Inr (sum_list (map (\<lambda>(s, n). n * s) ys) / sum_list (map snd ys)) else Inl ValueError)"

definition compute_opo_outcome_advantage :: "mat \<Rightarrow> mat \<Rightarrow> 'u list \<Rightarrow> (mat \<times> mat) res" where
  "compute_opo_outcome_advantage rewards rmask index =
     bind_res (outcome_advantages index (zip (map sum_list rewards) (map sum_list rmask))
         opo_baseline (\<lambda>(s, n) b. s - b))
       (\<lambda>scores. Inr (scale_rows scores rmask, scale_rows scores rmask))"

text \<open>The parameter \<open>alpha\<close> of GPG is overwritten by the share of non-zero rewards.\<close>

definition compute_gpg_outcome_advantage :: "mat \<Rightarrow> mat \<Rightarrow> 'u list \<Rightarrow> real \<Rightarrow> (mat \<times> mat) res" where
  "compute_gpg_outcome_advantage rewards rmask index f_norm =
     (let scores0 = map sum_list rewards;
          m = length (filter (\<lambda>s. s \<noteq> 0) scores0);
          alpha = real (length scores0) / real (max m 1)
      in bind_res (outcome_advantages index scores0 group_mean_dev (\<lambda>s (mu, sd). alpha * (s - mu) / f_norm))
           (\<lambda>scores. Inr (scale_rows scores rmask, scale_rows scores rmask)))"

section \<open>Pass@k\<close>

text \<open>
  \<open>torch.topk(rewards, 2)\<close>: the maximum, a position of it, and the maximum of the rest.  Which of
  several maxima is taken does not matter: the difference is 0 then.
\<close>

definition top2 :: "real list \<Rightarrow> real \<times> nat \<times> real" where
  "top2 rs = (let m = Max (set rs) in
     (m, hd (filter (\<lambda>j. rs ! j = m) [0..<length rs]), Max (set (remove1 m rs))))"

definition passk_update ::
  "real \<Rightarrow> bool \<Rightarrow> real list \<Rightarrow> 'u list \<Rightarrow> 'u \<Rightarrow> real list \<Rightarrow> real list res" where
  "passk_update eps norm_by_std scores index u advantages =
     (let idxs = filter (\<lambda>i. index ! i = u) [0..<length scores];
          rewards = map (\<lambda>i. scores ! i) idxs
      in require (2 \<le> length rewards) ValueError
        (case top2 rewards of (r_max, j, r_second_max) \<Rightarrow>
           let advantage = r_max - r_second_max in
           Inr (advantages[idxs ! j :=
             (if norm_by_std then advantage / (unbiased_std rewards + eps) else advantage)])))"

fun passk_loop ::
  "real \<Rightarrow> bool \<Rightarrow> real list \<Rightarrow> 'u list \<Rightarrow> 'u list \<Rightarrow> real list \<Rightarrow> real list res" where
  "passk_loop eps norm_by_std scores index [] advantages = Inr advantages"
| "passk_loop eps norm_by_std scores index (u # us) advantages =
     bind_res (passk_update eps norm_by_std scores index u advantages)
       (passk_loop eps norm_by_std scores index us)"

text \<open>A dictionary iterates over its keys in the order of their first insertion.\<close>

definition dict_keys :: "'u list \<Rightarrow> 'u list" where
  "dict_keys us = rev (remdups (rev us))"

definition compute_grpo_passk_outcome_advantage ::
  "mat \<Rightarrow> mat \<Rightarrow> 'u list \<Rightarrow> real \<Rightarrow> bool \<Rightarrow> (mat \<times> mat) res" where
  "compute_grpo_passk_outcome_advantage rewards rmask index eps norm_by_std =
     (let scores = map sum_list rewards in
      require (length scores \<le> length index) IndexError
       (bind_res (passk_loop eps norm_by_std scores index (dict_keys (take (length scores) index))
          (replicate (length scores) 0))
       (\<lambda>adv. Inr (scale_rows adv rmask, scale_rows adv rmask))))"

section \<open>Vectorised estimators\<close>

text \<open>
  \<open>as_torch_index\<close>: numpy arrays of integers, floats and texts.  \<open>parse\<close> stands for numpy's
  conversion of a text to a 64-bit integer (\<open>None\<close> when it raises).
\<close>

datatype labels = IntLabels "int list" | FloatLabels "real list" | TextLabels "string list"

definition unique_inverse :: "('a :: linorder) list \<Rightarrow> int list" where
  "unique_inverse xs = map (\<lambda>x. int (length (filter (\<lambda>y. y < x) (remdups xs)))) xs"

definition truncate_int :: "real \<Rightarrow> int" where
  "truncate_int x = (if x < 0 then \<lceil>x\<rceil> else \<lfloor>x\<rfloor>)"

definition as_torch_index :: "(string \<Rightarrow> int option) \<Rightarrow> labels \<Rightarrow> int list" where
  "as_torch_index parse lab =
     (case lab of
        IntLabels xs \<Rightarrow> xs
      | FloatLabels xs \<Rightarrow>
          (if list_all (\<lambda>x. \<bar>x - of_int (round x)\<bar> \<le> 1 / 10 ^ 6) xs then map round xs
           else map truncate_int xs)
      | TextLabels xs \<Rightarrow>
          (if list_all (\<lambda>x. parse x \<noteq> None) xs then map (\<lambda>x. the (parse x)) xs
           else unique_inverse xs))"

definition index_add :: "nat \<Rightarrow> nat list \<Rightarrow> real list \<Rightarrow> real list" where
  "index_add G gidx vals = foldl (\<lambda>t (g, v). t[g := t ! g + v]) (replicate G 0) (zip gidx vals)"

definition group_mean_std :: "real list \<Rightarrow> int list \<Rightarrow> real \<Rightarrow> (real list \<times> real list \<times> real list) res" where
  "group_mean_std scores gidx eps =
     require (length scores = length gidx) ValueError (
     if gidx = [] then Inr ([], [], [])
     else require (list_all (\<lambda>g. 0 \<le> g) gidx) IndexError (
       let G = nat (Max (set gidx)) + 1;
           gi = map nat gidx;
           count = index_add G gi (map (\<lambda>_. 1) scores);
           s1 = index_add G gi scores;
           mean0 = map2 (\<lambda>s c. s / max c 1) s1 count;
           centered = map2 (\<lambda>s g. s - mean0 ! g) scores gi;
           var_num = index_add G gi (map (\<lambda>c. c * c) centered);
           var = map2 (\<lambda>v c. v / max (c - 1) 1) var_num count;
           std0 = map (\<lambda>v. sqrt (max v eps)) var
       in Inr (map2 (\<lambda>m c. if c \<le> 1 then 0 else m) mean0 count,
               map2 (\<lambda>sd c. if c \<le> 1 then 1 else sd) std0 count, count)))"

definition compute_grpo_vectorized_outcome_advantage ::
  "(string \<Rightarrow> int option) \<Rightarrow> mat \<Rightarrow> mat \<Rightarrow> labels \<Rightarrow> real \<Rightarrow> bool \<Rightarrow> (mat \<times> mat) res" where
  "compute_grpo_vectorized_outcome_advantage parse rewards rmask index eps norm_by_std =
     (let scores = map sum_list rewards; g = as_torch_index parse index in
      bind_res (group_mean_std scores g 0) (\<lambda>(mean_g, std_g, _).
      let scalars = map2 (\<lambda>s k. if norm_by_std then (s - mean_g ! nat k) / (std_g ! nat k + eps)
                                 else s - mean_g ! nat k) scores g;
          advantages = scale_rows scalars rmask
      in Inr (advantages, advantages)))"

definition compute_rloo_vectorized_outcome_advantage ::
  "mat \<Rightarrow> mat \<Rightarrow> ('u :: linorder) list \<Rightarrow> mat \<times> mat" where
  "compute_rloo_vectorized_outcome_advantage rewards rmask index =
     (let scores = map sum_list rewards;
          inv = map nat (unique_inverse index);
          G = length (remdups index);
          counts = index_add G inv (map (\<lambda>_. 1) scores);
          totals = index_add G inv scores;
          adv = map2 (\<lambda>s g. ((counts ! g * s - totals ! g) / max (counts ! g - 1) 1)
                            * (if 1 < counts ! g then 1 else 0)) scores inv
      in (scale_rows adv rmask, scale_rows adv rmask))"


section \<open>The shared loop is pointwise\<close>

lemma foldl_push_group:
  "foldl push_group m (zip us xs) u =
    (let new = map snd (filter (\<lambda>(v, x). v = u) (zip us xs)) in
     if new = [] then m u else Some ((case m u of None \<Rightarrow> [] | Some ys \<Rightarrow> ys) @ new))"
proof (induction us arbitrary: m xs)
  case (Cons v us)
  show ?case
  proof (cases xs)
    case xs: (Cons x rest)
    define m' where "m' = push_group m (v, x)"
    have u: "m' u = (if v = u then Some ((case m u of None \<Rightarrow> [] | Some ys \<Rightarrow> ys) @ [x]) else m u)"
      by (simp add: m'_def push_group_def)
    have "foldl push_group m (zip (v # us) xs) u = foldl push_group m' (zip us rest) u"
      by (simp add: xs m'_def)
    then show ?thesis
      by (simp add: Cons.IH[of m' rest] xs u Let_def)
  qed simp
qed simp

lemma zip_group_scores:
  "length us = length xs \<Longrightarrow> map snd (filter (\<lambda>(v, x). v = us ! i) (zip us xs)) = group_scores xs us i"
proof -
  assume len: "length us = length xs"
  then have "zip us xs = map (\<lambda>j. (us ! j, xs ! j)) [0..<length us]"
    by (intro nth_equalityI) auto
  then show ?thesis
    by (simp add: group_scores_def group_of_def filter_map o_def)
qed

lemma id2list_group:
  assumes "length us = length xs" "i < length xs"
  shows "id2list us xs (us ! i) = Some (group_scores xs us i)"
  using assms group_of_nonempty[of i us]
  by (simp add: id2list_def foldl_push_group Let_def zip_group_scores group_scores_def)

text \<open>
  The interface between the shared loop and an estimator: the statistic of a non-empty group
  exists, so the \<open>ValueError\<close> branch and the missing key cannot be reached.
\<close>

locale outcome_estimator =
  fixes stat :: "'b list \<Rightarrow> 'c res" and value_of :: "'b list \<Rightarrow> 'c"
  assumes stat_total: "ys \<noteq> [] \<Longrightarrow> stat ys = Inr (value_of ys)"
begin

lemma pointwise:
  assumes "length index = length xs"
  shows "outcome_advantages index xs stat f
    = Inr (map (\<lambda>i. f (xs ! i) (value_of (group_scores xs index i))) [0..<length xs])"
proof -
  let ?F = "\<lambda>i. case id2list index xs (index ! i) of None \<Rightarrow> Inl KeyError
      | Some ys \<Rightarrow> bind_res (stat ys) (\<lambda>c. Inr (f (xs ! i) c))"
  let ?G = "\<lambda>i. f (xs ! i) (value_of (group_scores xs index i))"
  have "?F i = Inr (?G i)" if "i \<in> set [0..<length xs]" for i
    using that assms group_of_nonempty[of i index]
    by (simp add: id2list_group stat_total group_scores_def)
  then have "map_res ?F [0..<length xs] = Inr (map ?G [0..<length xs])"
    by (rule map_res_Inr)
  then show ?thesis
    using assms by (simp add: outcome_advantages_def Let_def)
qed

text \<open>An advantage depends on the rewards of its own group only.\<close>

lemma locality:
  assumes "length index = length xs" "length ys = length xs" "i < length xs"
    and "\<forall>j \<in> set (group_of index i). ys ! j = xs ! j"
  shows "projr (outcome_advantages index ys stat f) ! i = projr (outcome_advantages index xs stat f) ! i"
proof -
  have "group_scores ys index i = group_scores xs index i"
    using assms(4) by (simp add: group_scores_def)
  then show ?thesis
    using assms group_of_mem[of i index] by (simp add: pointwise)
qed

end

definition mean_or_zero :: "real list \<Rightarrow> real" where
  "mean_or_zero ys = (if length ys = 1 then 0 else mean ys)"

definition std_or_one :: "real list \<Rightarrow> real" where
  "std_or_one ys = (if length ys = 1 then 1 else unbiased_std ys)"

lemma group_mean_total: "ys \<noteq> [] \<Longrightarrow> group_mean ys = Inr (mean_or_zero ys)"
  by (cases ys) (auto simp: group_mean_def mean_or_zero_def)

interpretation mean_dev: outcome_estimator group_mean_dev "\<lambda>ys. (mean_or_zero ys, std_or_one ys)"
  by unfold_locales (auto simp: group_mean_dev_def mean_or_zero_def std_or_one_def Suc_lessI)

interpretation mean_only: outcome_estimator group_mean mean_or_zero
  by unfold_locales (rule group_mean_total)

interpretation rloo: outcome_estimator "\<lambda>ys. bind_res (group_mean ys) (\<lambda>m. Inr (m, length ys))"
  "\<lambda>ys. (mean_or_zero ys, length ys)"
  by unfold_locales (simp add: group_mean_total)

interpretation opo: outcome_estimator opo_baseline
  "\<lambda>ys. if length ys = 1 then 0 else sum_list (map (\<lambda>(s, n). n * s) ys) / sum_list (map snd ys)"
  by unfold_locales (auto simp: opo_baseline_def Suc_lessI)


section \<open>Scattered sums\<close>

lemma index_add_foldl:
  fixes t :: "real list"
  shows "length xs = length gs \<Longrightarrow> \<forall>g \<in> set gs. g < length t \<Longrightarrow> k < length t \<Longrightarrow>
    foldl (\<lambda>t (g, v). t[g := t ! g + v]) t (zip gs xs) ! k
      = t ! k + sum_list (map snd (filter (\<lambda>(g, v). g = k) (zip gs xs)))"
proof (induction gs arbitrary: t xs)
  case (Cons g gs)
  then obtain x rest where xs: "xs = x # rest" "length rest = length gs" by (cases xs) auto
  show ?case
    using Cons.IH[of rest "t[g := t ! g + x]"] Cons.prems xs by (simp add: nth_list_update)
qed simp

lemma length_index_add [simp]: "length (index_add G gs xs) = G"
proof -
  have "length (foldl (\<lambda>t (g, v). t[g := t ! g + v]) t (zip gs xs)) = length t" for t :: "real list"
    by (induction gs arbitrary: t xs) (auto simp: zip_Cons1 split: list.splits)
  then show ?thesis by (simp add: index_add_def)
qed

lemma index_add_group:
  assumes "length gs = length xs" "\<forall>g \<in> set gs. g < G" "i < length gs"
  shows "index_add G gs xs ! (gs ! i) = sum_list (group_scores xs gs i)"
proof -
  have "gs ! i < G" using assms by simp
  then show ?thesis
    using index_add_foldl[of xs gs "replicate G 0" "gs ! i"] assms zip_group_scores[of gs xs i]
    by (simp add: index_add_def)
qed

lemma group_scores_const: "i < length us \<Longrightarrow> length xs = length us \<Longrightarrow>
  sum_list (group_scores (map (\<lambda>_. 1 :: real) xs) us i) = real (length (group_of us i))"
proof -
  assume i: "length xs = length us"
  have "group_scores (map (\<lambda>_. 1 :: real) xs) us i = replicate (length (group_of us i)) 1"
    unfolding group_scores_def using i by (intro replicate_eqI) (auto dest!: group_of_less)
  then show ?thesis by (simp add: sum_list_replicate)
qed

lemma group_scores_map:
  assumes "length xs = length us"
    and "\<And>j. j \<in> set (group_of us i) \<Longrightarrow> ys ! j = f (xs ! j)"
  shows "group_scores ys us i = map f (group_scores xs us i)"
  using assms(2) by (simp add: group_scores_def)

text \<open>Two labellings with the same kernel have the same groups.\<close>

lemma group_of_kernel:
  assumes "length gs = length us"
    and "\<And>i j. i < length us \<Longrightarrow> j < length us \<Longrightarrow> gs ! i = gs ! j \<longleftrightarrow> us ! i = us ! j"
    and "i < length us"
  shows "group_of gs i = group_of us i"
  unfolding group_of_def using assms by (intro filter_cong) auto

lemma group_mean_std_nth:
  assumes len: "length scores = length gidx" and nonneg: "\<forall>g \<in> set gidx. 0 \<le> g" and "gidx \<noteq> []"
    and eps: "eps = 0"
  obtains mean_g std_g c where "group_mean_std scores gidx eps = Inr (mean_g, std_g, c)"
    "\<And>i. i < length gidx \<Longrightarrow> mean_g ! nat (gidx ! i) = mean_or_zero (group_scores scores gidx i)
      \<and> std_g ! nat (gidx ! i) = std_or_one (group_scores scores gidx i)"
proof -
  define G where "G = nat (Max (set gidx)) + 1"
  define gi where "gi = map nat gidx"
  define count where "count = index_add G gi (map (\<lambda>_. 1) scores)"
  define s1 where "s1 = index_add G gi scores"
  define mean0 where "mean0 = map2 (\<lambda>s c. s / max c 1) s1 count"
  define centered where "centered = map2 (\<lambda>s g. s - mean0 ! g) scores gi"
  define var_num where "var_num = index_add G gi (map (\<lambda>c. c * c) centered)"
  define std0 where "std0 = map (\<lambda>v. sqrt (max v eps)) (map2 (\<lambda>v c. v / max (c - 1) 1) var_num count)"
  have lengi: "length gi = length gidx" by (simp add: gi_def)
  have bound: "\<forall>g \<in> set gi. g < G"
    using nonneg by (auto simp: gi_def G_def less_Suc_eq_le intro!: nat_mono Max_ge)
  have run: "group_mean_std scores gidx eps =
      Inr (map2 (\<lambda>m c. if c \<le> 1 then 0 else m) mean0 count, map2 (\<lambda>sd c. if c \<le> 1 then 1 else sd) std0 count, count)"
    using assms
    by (simp add: group_mean_std_def Let_def G_def gi_def count_def s1_def mean0_def centered_def
        var_num_def std0_def list_all_iff map_map comp_def)
  have lens: "length mean0 = G" "length count = G" "length std0 = G" "length var_num = G" "length s1 = G"
    by (simp_all add: mean0_def s1_def count_def std0_def var_num_def)
  show thesis
  proof (rule that[OF run])
    fix i assume i: "i < length gidx"
    let ?g = "gi ! i" and ?grp = "group_of gidx i" and ?ys = "group_scores scores gidx i"
    have nat: "nat (gidx ! i) = ?g" "?g < G" using i bound by (simp_all add: gi_def)
    have same: "group_of gi i = ?grp"
      by (rule group_of_kernel) (use nonneg i in \<open>auto simp: gi_def eq_nat_nat_iff\<close>)
    have gs: "group_scores xs gi i = group_scores xs gidx i" for xs :: "real list"
      using same by (simp add: group_scores_def)
    have n: "?ys \<noteq> []" using group_of_nonempty[of i gidx] i by (simp add: group_scores_def)
    have c: "count ! ?g = real (length ?ys)"
      using index_add_group[of gi "map (\<lambda>_. 1) scores" G i] bound lengi len i
        group_scores_const[of i gi scores] same by (simp add: count_def)
    have m: "mean0 ! (gi ! j) = mean ?ys" if j: "j \<in> set ?grp" for j
    proof -
      have jl: "j < length gidx" "gi ! j = ?g"
        using j i by (auto simp: group_of_def gi_def)
      have "s1 ! ?g = sum_list ?ys"
        using index_add_group[of gi scores G i] bound lengi len i gs by (simp add: s1_def)
      moreover have "max (real (length ?ys)) 1 = real (length ?ys)"
        using n by (cases ?ys) auto
      ultimately show ?thesis
        using nat lens c jl by (simp add: mean0_def mean_def)
    qed
    have lc: "length centered = length gidx" using len lengi by (simp add: centered_def)
    have "centered ! j = scores ! j - mean ?ys" if j: "j \<in> set ?grp" for j
      using j m[OF j] len lengi group_of_less[OF j] by (simp add: centered_def)
    then have "map (\<lambda>c. c * c) centered ! j = (scores ! j - mean ?ys)\<^sup>2" if "j \<in> set ?grp" for j
      using that lc group_of_less[OF that] by (simp add: power2_eq_square)
    then have "group_scores (map (\<lambda>c. c * c) centered) gidx i = map (\<lambda>x. (x - mean ?ys)\<^sup>2) ?ys"
      by (rule group_scores_map[OF len])
    then have v: "var_num ! ?g = sum_list (map (\<lambda>x. (x - mean ?ys)\<^sup>2) ?ys)"
      using index_add_group[of gi "map (\<lambda>c. c * c) centered" G i] bound lengi len i gs
      by (simp add: var_num_def centered_def)
    have "0 \<le> sum_list (map (\<lambda>x. (x - mean ?ys)\<^sup>2) ?ys)"
      by (intro sum_list_nonneg) auto
    moreover have "max (real (length ?ys) - 1) 1 = real (length ?ys) - 1" if "1 < length ?ys"
      using that by simp
    ultimately have sd: "std0 ! ?g = unbiased_std ?ys" if "1 < length ?ys"
      using that nat lens v c eps by (simp add: std0_def unbiased_std_def max_absorb1)
    have "mean0 ! ?g = mean ?ys" using m[OF group_of_mem[OF i]] .
    then show "map2 (\<lambda>m c. if c \<le> 1 then 0 else m) mean0 count ! nat (gidx ! i) = mean_or_zero ?ys
      \<and> map2 (\<lambda>sd c. if c \<le> 1 then 1 else sd) std0 count ! nat (gidx ! i) = std_or_one ?ys"
      using nat lens c sd group_of_nonempty[OF i]
      by (cases "length ?ys = 1") (auto simp: mean_or_zero_def std_or_one_def not_le le_Suc_eq Suc_lessI)
  qed
qed


section \<open>Factorised labels\<close>

lemma rank_less_card:
  fixes x :: "'a :: linorder"
  assumes "x \<in> set xs"
  shows "length (filter (\<lambda>y. y < x) (remdups xs)) < length (remdups xs)"
  using assms by (intro length_filter_less[of x]) auto

lemma rank_mono:
  fixes x y :: "'a :: linorder"
  assumes "x < y" "x \<in> set xs"
  shows "length (filter (\<lambda>z. z < x) (remdups xs)) < length (filter (\<lambda>z. z < y) (remdups xs))"
proof -
  have "set (filter (\<lambda>z. z < x) (remdups xs)) \<subset> set (filter (\<lambda>z. z < y) (remdups xs))"
    using assms by auto
  then have "card (set (filter (\<lambda>z. z < x) (remdups xs))) < card (set (filter (\<lambda>z. z < y) (remdups xs)))"
    by (intro psubset_card_mono) auto
  then show ?thesis by (simp only: distinct_card distinct_filter distinct_remdups)
qed

lemma length_unique_inverse [simp]: "length (unique_inverse xs) = length xs"
  by (simp add: unique_inverse_def)

lemma unique_inverse_range:
  "g \<in> set (unique_inverse xs) \<Longrightarrow> 0 \<le> g \<and> g < int (length (remdups xs))"
  by (auto simp: unique_inverse_def rank_less_card)

lemma unique_inverse_kernel:
  assumes "i < length xs" "j < length xs"
  shows "unique_inverse xs ! i = unique_inverse xs ! j \<longleftrightarrow> xs ! i = xs ! j"
  using assms rank_mono[of "xs ! i" "xs ! j" xs] rank_mono[of "xs ! j" "xs ! i" xs]
  by (cases "xs ! i" "xs ! j" rule: linorder_cases) (auto simp: unique_inverse_def)

text \<open>The labels whose numeric conversion keeps groups apart.\<close>

definition faithful_labels :: "(string \<Rightarrow> int option) \<Rightarrow> string list \<Rightarrow> bool" where
  "faithful_labels parse us \<longleftrightarrow> (\<exists>u \<in> set us. parse u = None)
     \<or> (\<forall>u \<in> set us. \<forall>v \<in> set us. parse u = parse v \<longrightarrow> u = v) \<and> (\<forall>u \<in> set us. 0 \<le> the (parse u))"

lemma as_torch_index_text:
  assumes "faithful_labels parse us"
  shows "length (as_torch_index parse (TextLabels us)) = length us"
    and "\<forall>g \<in> set (as_torch_index parse (TextLabels us)). 0 \<le> g"
    and "\<And>i j. i < length us \<Longrightarrow> j < length us \<Longrightarrow>
      as_torch_index parse (TextLabels us) ! i = as_torch_index parse (TextLabels us) ! j \<longleftrightarrow> us ! i = us ! j"
proof -
  let ?num = "list_all (\<lambda>x. parse x \<noteq> None) us"
  show "length (as_torch_index parse (TextLabels us)) = length us"
    by (simp add: as_torch_index_def)
  show "\<forall>g \<in> set (as_torch_index parse (TextLabels us)). 0 \<le> g"
    using assms by (auto simp: as_torch_index_def faithful_labels_def list_all_iff dest: unique_inverse_range)
  show "as_torch_index parse (TextLabels us) ! i = as_torch_index parse (TextLabels us) ! j \<longleftrightarrow> us ! i = us ! j"
    if "i < length us" "j < length us" for i j
  proof (cases ?num)
    case True
    then have "\<forall>u \<in> set us. \<forall>v \<in> set us. parse u = parse v \<longrightarrow> u = v"
      using assms by (auto simp: faithful_labels_def list_all_iff)
    then show ?thesis
    proof -
      have "parse (us ! i) \<noteq> None" "parse (us ! j) \<noteq> None" "us ! i \<in> set us" "us ! j \<in> set us"
        using True that by (auto simp: list_all_iff)
      then have "the (parse (us ! i)) = the (parse (us ! j)) \<longleftrightarrow> us ! i = us ! j"
        using \<open>\<forall>u \<in> set us. \<forall>v \<in> set us. parse u = parse v \<longrightarrow> u = v\<close> by (metis option.expand)
      then show ?thesis using that True by (simp add: as_torch_index_def)
    qed
  next
    case False
    then show ?thesis using that by (auto simp: as_torch_index_def unique_inverse_kernel)
  qed
qed

section \<open>GRPO\<close>

definition grpo_scores :: "real list \<Rightarrow> 'u list \<Rightarrow> real \<Rightarrow> bool \<Rightarrow> real list" where
  "grpo_scores rs index eps norm_by_std =
     map (\<lambda>i. grpo_scalar norm_by_std eps (rs ! i)
       (mean_or_zero (group_scores rs index i), std_or_one (group_scores rs index i))) [0..<length rs]"

lemma grpo_pointwise:
  "length index = length rewards \<Longrightarrow>
    compute_grpo_outcome_advantage rewards rmask index eps norm_by_std
      = (let s = grpo_scores (map sum_list rewards) index eps norm_by_std
         in Inr (scale_rows s rmask, scale_rows s rmask))"
  by (simp add: compute_grpo_outcome_advantage_def mean_dev.pointwise grpo_scores_def Let_def)

lemma grpo_vectorized_pointwise:
  assumes "length (as_torch_index parse lab) = length rewards"
    and "\<forall>g \<in> set (as_torch_index parse lab). 0 \<le> g"
  shows "compute_grpo_vectorized_outcome_advantage parse rewards rmask lab eps norm_by_std
    = (let s = grpo_scores (map sum_list rewards) (as_torch_index parse lab) eps norm_by_std
       in Inr (scale_rows s rmask, scale_rows s rmask))"
proof (cases "rewards = []")
  case True
  then show ?thesis using assms(1)
    by (simp add: compute_grpo_vectorized_outcome_advantage_def group_mean_std_def grpo_scores_def Let_def)
next
  case False
  let ?g = "as_torch_index parse lab" and ?rs = "map sum_list rewards"
  have len: "length ?rs = length ?g" using assms(1) by simp
  have ne: "?g \<noteq> []" using assms(1) False by (metis length_0_conv)
  obtain mean_g std_g c where run: "group_mean_std ?rs ?g 0 = Inr (mean_g, std_g, c)"
    and nth: "\<And>i. i < length ?g \<Longrightarrow> mean_g ! nat (?g ! i) = mean_or_zero (group_scores ?rs ?g i)
      \<and> std_g ! nat (?g ! i) = std_or_one (group_scores ?rs ?g i)"
    by (rule group_mean_std_nth[OF len assms(2) ne refl]) blast
  have "map2 (\<lambda>s k. if norm_by_std then (s - mean_g ! nat k) / (std_g ! nat k + eps)
      else s - mean_g ! nat k) ?rs ?g = grpo_scores ?rs ?g eps norm_by_std"
    using assms(1) nth by (intro nth_equalityI) (auto simp: grpo_scores_def grpo_scalar_def)
  then show ?thesis
    by (simp add: compute_grpo_vectorized_outcome_advantage_def run Let_def)
qed

lemma grpo_scores_kernel:
  assumes "length gs = length us" "length rs = length us"
    and "\<And>i j. i < length us \<Longrightarrow> j < length us \<Longrightarrow> gs ! i = gs ! j \<longleftrightarrow> us ! i = us ! j"
  shows "grpo_scores rs gs eps norm_by_std = grpo_scores rs us eps norm_by_std"
proof -
  have "group_scores rs gs i = group_scores rs us i" if "i < length us" for i
    using group_of_kernel[OF assms(1,3) that] by (simp add: group_scores_def)
  then show ?thesis using assms(2) by (simp add: grpo_scores_def)
qed

text \<open>
  C6. The vectorised GRPO estimator computes exactly the advantages of the dictionary loop, when
  the numeric conversion of the prompt labels does not merge two of them: \<open>group_mean_std\<close> with its
  scattered sums, Bessel correction and singleton rule agrees with \<open>torch.mean\<close> and \<open>torch.std\<close>
  per group.
\<close>

theorem grpo_vectorized_equals_loop:
  assumes "faithful_labels parse index" "length index = length rewards"
  shows "compute_grpo_vectorized_outcome_advantage parse rewards rmask (TextLabels index) eps norm_by_std
    = compute_grpo_outcome_advantage rewards rmask index eps norm_by_std"
proof -
  note lab = as_torch_index_text[OF assms(1)]
  have "grpo_scores (map sum_list rewards) (as_torch_index parse (TextLabels index)) eps norm_by_std
      = grpo_scores (map sum_list rewards) index eps norm_by_std"
    by (rule grpo_scores_kernel[OF lab(1) _ lab(3)]) (use assms(2) in auto)
  then show ?thesis
    using grpo_vectorized_pointwise[OF _ lab(2), of rewards rmask eps norm_by_std] lab(1) assms(2)
      grpo_pointwise[OF assms(2), of rmask eps norm_by_std] by (simp only:)
qed

theorem grpo_vectorized_equals_loop_witness:
  "compute_grpo_vectorized_outcome_advantage (\<lambda>_. None) [[1, 0], [0, 3], [5, 5]] [[1, 1], [1, 0], [1, 1]]
      (TextLabels [''a'', ''a'', ''b'']) 0 True
    = compute_grpo_outcome_advantage [[1, 0], [0, 3], [5, 5]] [[1, 1], [1, 0], [1, 1]] [''a'', ''a'', ''b''] 0 True"
  by (rule grpo_vectorized_equals_loop) (auto simp: faithful_labels_def)


lemma group_scores_mem: "i < length us \<Longrightarrow> xs ! i \<in> set (group_scores xs us i)"
  using group_of_mem[of i us] by (auto simp: group_scores_def)

lemma unbiased_std_nonneg [simp]: "xs \<noteq> [] \<Longrightarrow> 0 \<le> unbiased_std xs"
  unfolding unbiased_std_def
  by (intro real_sqrt_ge_zero divide_nonneg_nonneg sum_list_nonneg) (auto simp: Suc_le_eq)

lemma std_or_one_nonneg: "xs \<noteq> [] \<Longrightarrow> 0 \<le> std_or_one xs"
  by (simp add: std_or_one_def)

lemma grpo_scalar_mono: "0 < eps \<Longrightarrow> 0 \<le> sd \<Longrightarrow> s \<le> t \<Longrightarrow>
  grpo_scalar norm_by_std eps s (m, sd) \<le> grpo_scalar norm_by_std eps t (m, sd)"
  by (auto simp: grpo_scalar_def intro!: divide_right_mono)

lemma sum_grpo_scalar:
  "sum_list (map (\<lambda>s. grpo_scalar norm_by_std eps s (mean ys, sd)) ys) = 0"
proof (cases norm_by_std)
  case True
  have "sum_list (map (\<lambda>s. (s - mean ys) / d) xs) = sum_list (map (\<lambda>s. s - mean ys) xs) / d" for d xs
    by (induction xs) (auto simp: add_divide_distrib)
  then show ?thesis using True by (simp add: grpo_scalar_def sum_list_centered)
next
  case False
  then show ?thesis by (simp add: grpo_scalar_def sum_list_centered)
qed

text \<open>Summing a pointwise estimator over a group is summing over the group's rewards.\<close>

lemma sum_over_group:
  assumes "length index = length xs"
    and "\<And>j. j \<in> set (group_of index i) \<Longrightarrow> s ! j = g (xs ! j)"
  shows "sum_list (map (\<lambda>j. s ! j) (group_of index i)) = sum_list (map g (group_scores xs index i))"
proof -
  have "map (\<lambda>j. s ! j) (group_of index i) = map g (group_scores xs index i)"
    using assms(2) by (simp add: group_scores_def)
  then show ?thesis by (rule arg_cong)
qed

text \<open>
  GRPO advantages are relative to their prompt: they are computed without an error, the
  advantages of a prompt with several responses cancel, a better reward never gets a smaller
  advantage than a worse one of the same prompt, and a prompt with a single response keeps its
  reward (divided by \<open>1 + epsilon\<close> when normalising).
\<close>

theorem grpo_group_relative:
  assumes "length index = length rewards" "0 < eps"
  shows "\<exists>s. compute_grpo_outcome_advantage rewards rmask index eps norm_by_std
        = Inr (scale_rows s rmask, scale_rows s rmask) \<and> length s = length rewards
    \<and> (\<forall>i < length rewards.
         (if length (group_of index i) = 1
          then s ! i = (if norm_by_std then sum_list (rewards ! i) / (1 + eps) else sum_list (rewards ! i))
          else sum_list (map (\<lambda>j. s ! j) (group_of index i)) = 0)
       \<and> (\<forall>j \<in> set (group_of index i). sum_list (rewards ! i) \<le> sum_list (rewards ! j) \<longrightarrow> s ! i \<le> s ! j))"
proof -
  let ?rs = "map sum_list rewards"
  define s where "s = grpo_scores ?rs index eps norm_by_std"
  have nth: "s ! j = grpo_scalar norm_by_std eps (?rs ! j)
      (mean_or_zero (group_scores ?rs index j), std_or_one (group_scores ?rs index j))"
    if "j < length rewards" for j
    using that by (simp add: s_def grpo_scores_def)
  have "(if length (group_of index i) = 1
          then s ! i = (if norm_by_std then sum_list (rewards ! i) / (1 + eps) else sum_list (rewards ! i))
          else sum_list (map (\<lambda>j. s ! j) (group_of index i)) = 0)
       \<and> (\<forall>j \<in> set (group_of index i). sum_list (rewards ! i) \<le> sum_list (rewards ! j) \<longrightarrow> s ! i \<le> s ! j)"
    if i: "i < length rewards" for i
  proof -
    let ?ys = "group_scores ?rs index i"
    have mem: "s ! j = grpo_scalar norm_by_std eps (?rs ! j) (mean_or_zero ?ys, std_or_one ?ys)"
      if "j \<in> set (group_of index i)" for j
      using nth[of j] group_of_less[OF that] group_scores_cong[OF that, of ?rs] assms(1) by simp
    have "sum_list (map (\<lambda>j. s ! j) (group_of index i)) = 0" if "length (group_of index i) \<noteq> 1"
      using sum_over_group[of index ?rs i s, OF _ mem] assms(1) that
        sum_grpo_scalar[of norm_by_std eps ?ys "std_or_one ?ys"] by (simp add: mean_or_zero_def)
    moreover have "s ! i = (if norm_by_std then sum_list (rewards ! i) / (1 + eps) else sum_list (rewards ! i))"
      if "length (group_of index i) = 1"
      using nth[OF i] that i by (simp add: grpo_scalar_def mean_or_zero_def std_or_one_def)
    moreover have "s ! i \<le> s ! j" if "j \<in> set (group_of index i)" "sum_list (rewards ! i) \<le> sum_list (rewards ! j)" for j
    proof -
      have "?ys \<noteq> []" using group_of_nonempty[of i index] i assms(1) by (simp add: group_scores_def)
      then show ?thesis
        using mem[OF that(1)] mem[OF group_of_mem] that(2) group_of_less[OF that(1)] i assms
        by (simp add: grpo_scalar_mono std_or_one_nonneg)
    qed
    ultimately show ?thesis by simp
  qed
  moreover have "compute_grpo_outcome_advantage rewards rmask index eps norm_by_std
      = Inr (scale_rows s rmask, scale_rows s rmask)"
    by (simp only: grpo_pointwise[OF assms(1)] Let_def s_def)
  moreover have "length s = length rewards"
    by (simp add: s_def grpo_scores_def)
  ultimately show ?thesis by blast
qed

theorem grpo_group_relative_witness:
  "\<exists>s. compute_grpo_outcome_advantage [[1, 0], [0, 3], [5, 5]] [[1, 1], [1, 0], [1, 1]]
        [''a'', ''a'', ''b''] 1 False
      = Inr (scale_rows s [[1, 1], [1, 0], [1, 1]], scale_rows s [[1, 1], [1, 0], [1, 1]]) \<and> length s = 3"
  using grpo_group_relative[of "[''a'', ''a'', ''b'']" "[[1, 0], [0, 3], [5, 5]]" 1
      "[[1, 1], [1, 0], [1, 1]]" False]
  by auto

section \<open>Leave-one-out\<close>

definition rloo_scores :: "real list \<Rightarrow> 'u list \<Rightarrow> real list" where
  "rloo_scores rs index =
     map (\<lambda>i. rloo_scalar (rs ! i) (mean_or_zero (group_scores rs index i), length (group_of index i))) [0..<length rs]"

lemma rloo_algebra:
  assumes "1 < (n :: real)"
  shows "r * n / (n - 1) - (t / n) * n / (n - 1) = (n * r - t) / (n - 1)"
    and "(n * r - (r + t)) / (n - 1) = r - t / (n - 1)"
  using assms by (simp_all add: diff_divide_distrib[symmetric] divide_simps) (simp add: algebra_simps)

lemma rloo_pointwise:
  "length index = length rewards \<Longrightarrow> compute_rloo_outcome_advantage rewards rmask index
    = (let s = rloo_scores (map sum_list rewards) index in Inr (scale_rows s rmask, scale_rows s rmask))"
  by (simp add: compute_rloo_outcome_advantage_def rloo.pointwise rloo_scores_def Let_def)

text \<open>
  RLOO gives every response of a prompt with at least two of them its reward minus the mean
  reward of the other ones; a single response keeps its raw reward.
\<close>

theorem rloo_leave_one_out:
  assumes "length index = length rewards"
  shows "\<exists>s. compute_rloo_outcome_advantage rewards rmask index
        = Inr (scale_rows s rmask, scale_rows s rmask) \<and> length s = length rewards
    \<and> (\<forall>i < length rewards. s ! i =
        (if length (group_of index i) = 1 then sum_list (rewards ! i)
         else sum_list (rewards ! i) - mean (map (\<lambda>j. sum_list (rewards ! j)) (remove1 i (group_of index i)))))"
proof -
  let ?rs = "map sum_list rewards"
  have "rloo_scores ?rs index ! i = (if length (group_of index i) = 1 then sum_list (rewards ! i)
         else sum_list (rewards ! i) - mean (map (\<lambda>j. sum_list (rewards ! j)) (remove1 i (group_of index i))))"
    if i: "i < length rewards" for i
  proof (cases "length (group_of index i) = 1")
    case False
    let ?g = "group_of index i" and ?r = "\<lambda>j. sum_list (rewards ! j)"
    have n: "1 < length ?g"
      using False group_of_nonempty[of i index] i assms by (cases ?g) auto
    have mem: "i \<in> set ?g" using i assms by (simp add: group_of_mem)
    have rest: "sum_list (map ?r ?g) = ?r i + sum_list (map ?r (remove1 i ?g))"
      using mem by (simp add: sum_list_map_remove1)
    have len: "length (remove1 i ?g) = length ?g - 1" using mem by (simp add: length_remove1)
    have grp: "group_scores ?rs index i = map ?r ?g"
      using assms by (auto simp: group_scores_def dest: group_of_less)
    have "?r i * real (length ?g) / (real (length ?g) - 1)
          - mean (map ?r ?g) * real (length ?g) / (real (length ?g) - 1)
        = ?r i - sum_list (map ?r (remove1 i ?g)) / (real (length ?g) - 1)"
      using rloo_algebra[of "real (length ?g)" "?r i"] n by (simp add: mean_def rest)
    then show ?thesis
      using i n False grp len by (simp add: rloo_scores_def rloo_scalar_def mean_or_zero_def mean_def of_nat_diff)
  qed (use that assms in \<open>simp add: rloo_scores_def rloo_scalar_def\<close>)
  moreover have "compute_rloo_outcome_advantage rewards rmask index
      = Inr (scale_rows (rloo_scores ?rs index) rmask, scale_rows (rloo_scores ?rs index) rmask)"
    by (simp only: rloo_pointwise[OF assms] Let_def)
  moreover have "length (rloo_scores ?rs index) = length rewards"
    by (simp add: rloo_scores_def)
  ultimately show ?thesis by blast
qed

theorem rloo_leave_one_out_witness:
  "\<exists>s. compute_rloo_outcome_advantage [[1, 0], [0, 3], [5, 5]] [[1, 1], [1, 0], [1, 1]] [''a'', ''a'', ''b'']
      = Inr (scale_rows s [[1, 1], [1, 0], [1, 1]], scale_rows s [[1, 1], [1, 0], [1, 1]])
    \<and> s ! 0 = - 2 \<and> s ! 2 = 10"
  using rloo_leave_one_out[of "[''a'', ''a'', ''b'']" "[[1, 0], [0, 3], [5, 5]]" "[[1, 1], [1, 0], [1, 1]]"]
  by (auto simp: group_of_def mean_def)

text \<open>
  The vectorised RLOO estimator agrees with the loop on prompts with several responses and
  not on the others: a single response gets advantage 0 instead of its raw reward.
\<close>

theorem rloo_vectorized_vs_loop:
  assumes "length index = length rewards"
  shows "\<exists>s v. compute_rloo_outcome_advantage rewards rmask index = Inr (scale_rows s rmask, scale_rows s rmask)
    \<and> compute_rloo_vectorized_outcome_advantage rewards rmask index = (scale_rows v rmask, scale_rows v rmask)
    \<and> length s = length rewards \<and> length v = length rewards
    \<and> (\<forall>i < length rewards. if length (group_of index i) = 1
         then s ! i = sum_list (rewards ! i) \<and> v ! i = 0 else v ! i = s ! i)"
proof -
  let ?rs = "map sum_list rewards"
  define inv where "inv = map nat (unique_inverse index)"
  define G where "G = length (remdups index)"
  define counts where "counts = index_add G inv (map (\<lambda>_. 1) ?rs)"
  define totals where "totals = index_add G inv ?rs"
  define v where "v = map2 (\<lambda>s g. ((counts ! g * s - totals ! g) / max (counts ! g - 1) 1)
    * (if 1 < counts ! g then 1 else 0)) ?rs inv"
  have len: "length inv = length rewards" using assms by (simp add: inv_def)
  have bound: "\<forall>g \<in> set inv. g < G"
    by (auto simp: inv_def G_def dest!: unique_inverse_range)
  have kern: "inv ! i = inv ! j \<longleftrightarrow> index ! i = index ! j" if "i < length index" "j < length index" for i j
  proof -
    have "0 \<le> unique_inverse index ! k" if "k < length index" for k
      using unique_inverse_range[of "unique_inverse index ! k" index] that by simp
    then show ?thesis using that unique_inverse_kernel[OF that] by (simp add: inv_def eq_nat_nat_iff)
  qed
  have "if length (group_of index i) = 1
         then rloo_scores ?rs index ! i = sum_list (rewards ! i) \<and> v ! i = 0
         else v ! i = rloo_scores ?rs index ! i" if i: "i < length rewards" for i
  proof -
    let ?n = "length (group_of index i)" and ?ys = "group_scores ?rs index i"
    have same: "group_of inv i = group_of index i"
      using group_of_kernel[of inv index i] len assms kern i by simp
    have c: "counts ! (inv ! i) = real ?n"
      using index_add_group[of inv "map (\<lambda>_. 1) ?rs" G i] group_scores_const[of i inv ?rs] bound len i same
      by (simp add: counts_def)
    have t: "totals ! (inv ! i) = sum_list ?ys"
      using index_add_group[of inv ?rs G i] bound len i same by (simp add: totals_def group_scores_def)
    have n: "0 < ?n" using group_of_nonempty[of i index] i assms by simp
    have vi: "v ! i = ((real ?n * ?rs ! i - sum_list ?ys) / max (real ?n - 1) 1) * (if 1 < real ?n then 1 else 0)"
      using len i c t by (simp add: v_def)
    show ?thesis
    proof (cases "?n = 1")
      case True
      then show ?thesis using vi i by (simp add: rloo_scores_def rloo_scalar_def)
    next
      case False
      then have n1: "1 < ?n" using n by (simp add: Suc_lessI)
      then have "real ?n \<noteq> 1" "max (real ?n - 1) 1 = real ?n - 1" by auto
      then show ?thesis
        using vi i n1 rloo_algebra(1)[of "real ?n" "?rs ! i" "sum_list ?ys"]
        by (simp add: rloo_scores_def rloo_scalar_def mean_or_zero_def mean_def)
    qed
  qed
  moreover have "compute_rloo_vectorized_outcome_advantage rewards rmask index = (scale_rows v rmask, scale_rows v rmask)"
    by (simp add: compute_rloo_vectorized_outcome_advantage_def v_def counts_def totals_def inv_def G_def Let_def)
  moreover have "length v = length rewards" "length (rloo_scores ?rs index) = length rewards"
    using len by (simp_all add: v_def rloo_scores_def)
  moreover have "compute_rloo_outcome_advantage rewards rmask index
      = Inr (scale_rows (rloo_scores ?rs index) rmask, scale_rows (rloo_scores ?rs index) rmask)"
    by (simp only: rloo_pointwise[OF assms] Let_def)
  ultimately show ?thesis by blast
qed

theorem rloo_vectorized_vs_loop_witness:
  "\<exists>s v. compute_rloo_outcome_advantage [[7]] [[1]] [''a''] = Inr (scale_rows s [[1]], scale_rows s [[1]])
    \<and> compute_rloo_vectorized_outcome_advantage [[7]] [[1]] [''a''] = (scale_rows v [[1]], scale_rows v [[1]])
    \<and> s ! 0 = 7 \<and> v ! 0 = 0"
  using rloo_vectorized_vs_loop[of "[''a'']" "[[7]]" "[[1]]"] by (auto simp: group_of_def)

end
