(* ===== verification/Token_Returns.thy ===== *)
theory Token_Returns
  imports Advantages
begin

text \<open>
  The estimators of \<open>verl/verl/trainer/ppo/core_algos.py\<close> that look at single tokens (GAE,
  REINFORCE++, ReMax), GDPO, and the KL controllers.  The loops run over the columns from the last
  to the first and act on each row on its own; a row is a list of tokens here.
\<close>

section \<open>Generalised advantage estimation\<close>

text \<open>One column of the loop: reward, value and mask of a token; the state is \<open>nextvalues\<close>,
  \<open>lastgaelam\<close> and the advantages so far (the code appends them reversed).\<close>

definition gae_step ::
  "real \<Rightarrow> real \<Rightarrow> real \<times> real \<times> real \<Rightarrow> real \<times> real \<times> real list \<Rightarrow> real \<times> real \<times> real list" where
  "gae_step gamma lam = (\<lambda>(r, v, m) (nextvalues, lastgaelam, advs).
     let delta = r + gamma * nextvalues - v;
         lastgaelam' = delta + gamma * lam * lastgaelam;
         nextvalues2 = v * m + (1 - m) * nextvalues;
         lastgaelam2 = lastgaelam' * m + (1 - m) * lastgaelam
     in (nextvalues2, lastgaelam2, lastgaelam2 # advs))"

definition gae_row :: "real \<Rightarrow> real \<Rightarrow> (real \<times> real \<times> real) list \<Rightarrow> real list" where
  "gae_row gamma lam toks = snd (snd (foldr (gae_step gamma lam) toks (0, 0, [])))"

definition zip3 :: "'a list \<Rightarrow> 'b list \<Rightarrow> 'c list \<Rightarrow> ('a \<times> 'b \<times> 'c) list" where
  "zip3 xs ys zs = zip xs (zip ys zs)"

definition gae_raw :: "mat \<Rightarrow> mat \<Rightarrow> mat \<Rightarrow> real \<Rightarrow> real \<Rightarrow> mat" where
  "gae_raw rewards vals rmask gamma lam =
     map (\<lambda>(r, v, m). gae_row gamma lam (zip3 r v m)) (zip3 rewards vals rmask)"

definition compute_gae_advantage_return ::
  "mat \<Rightarrow> mat \<Rightarrow> mat \<Rightarrow> real \<Rightarrow> real \<Rightarrow> (mat \<times> mat) res" where
  "compute_gae_advantage_return rewards vals rmask gamma lam =
     (let advantages = gae_raw rewards vals rmask gamma lam;
          returns = mzip (+) advantages vals
      in bind_res (masked_whiten advantages rmask True) (\<lambda>adv. Inr (adv, returns)))"

section \<open>REINFORCE++ and ReMax\<close>

definition rfpp_step :: "real \<Rightarrow> real \<times> real \<Rightarrow> real \<times> real list \<Rightarrow> real \<times> real list" where
  "rfpp_step gamma = (\<lambda>(r, m) (running_return, rets).
     let x = r + gamma * running_return in (x * m, x # rets))"

definition rfpp_row :: "real \<Rightarrow> (real \<times> real) list \<Rightarrow> real list" where
  "rfpp_row gamma toks = snd (foldr (rfpp_step gamma) toks (0, []))"

definition compute_reinforce_plus_plus_outcome_advantage :: "mat \<Rightarrow> mat \<Rightarrow> real \<Rightarrow> (mat \<times> mat) res" where
  "compute_reinforce_plus_plus_outcome_advantage rewards rmask gamma =
     (let returns = map2 (\<lambda>r m. rfpp_row gamma (zip r m)) rewards rmask
      in bind_res (masked_whiten returns rmask True) (\<lambda>w. Inr (mzip (*) w rmask, returns)))"

text \<open>\<open>t.flip(-1).cumsum(-1).flip(-1)\<close>.\<close>

fun cumsum :: "real \<Rightarrow> real list \<Rightarrow> real list" where
  "cumsum acc [] = []"
| "cumsum acc (x # xs) = (acc + x) # cumsum (acc + x) xs"

definition reward_to_go :: "real list \<Rightarrow> real list" where
  "reward_to_go r = rev (cumsum 0 (rev r))"

definition compute_remax_outcome_advantage :: "mat \<Rightarrow> real list \<Rightarrow> mat \<Rightarrow> mat \<times> mat" where
  "compute_remax_outcome_advantage rewards reward_baselines rmask =
     (let returns = map reward_to_go (mzip (*) rewards rmask);
          advantages = mzip (-) returns (scale_rows reward_baselines rmask)
      in (advantages, returns))"

definition compute_rewards :: "mat \<Rightarrow> mat \<Rightarrow> mat \<Rightarrow> real \<Rightarrow> mat" where
  "compute_rewards token_level_scores old_log_prob ref_log_prob kl_ratio =
     mzip (\<lambda>s kl. s - kl * kl_ratio) token_level_scores (mzip (-) old_log_prob ref_log_prob)"

section \<open>GDPO\<close>

text \<open>One reward dimension as a token-level tensor: the score at the last valid response token.\<close>

definition place_scores :: "mat \<Rightarrow> real list \<Rightarrow> int list \<Rightarrow> mat res" where
  "place_scores rmask rm_score valid_len =
     map_res (\<lambda>i. let n = length (rmask ! i); k = valid_len ! i;
                      p = (if k < 0 then k + int n else k) in
         require (0 \<le> p \<and> p < int n) IndexError (Inr ((replicate n 0)[nat p := rm_score ! i])))
       [0..<length rmask]"

definition gdpo_accumulate ::
  "mat list \<Rightarrow> real list \<Rightarrow> mat \<Rightarrow> 'u list \<Rightarrow> real \<Rightarrow> bool \<Rightarrow> mat option res" where
  "gdpo_accumulate score_list weights rmask index eps norm_by_std =
     foldl (\<lambda>acc (s, w). bind_res acc (\<lambda>new_advantage.
        bind_res (compute_grpo_outcome_advantage s rmask index eps norm_by_std) (\<lambda>(normalized_score, _).
        Inr (Some (case new_advantage of
             None \<Rightarrow> mmap ((*) w) normalized_score
           | Some a \<Rightarrow> mzip (+) a (mmap ((*) w) normalized_score))))))
       (Inr None) (zip score_list weights)"

definition compute_gdpo_outcome_advantage ::
  "mat list \<Rightarrow> real list option \<Rightarrow> mat \<Rightarrow> 'u list \<Rightarrow> real \<Rightarrow> bool \<Rightarrow> (mat \<times> mat) res" where
  "compute_gdpo_outcome_advantage score_list reward_weights rmask index eps norm_by_std =
     (let weights = (case reward_weights of Some ws \<Rightarrow> ws | None \<Rightarrow> replicate (length score_list) 1) in
      require (length score_list \<le> length weights) IndexError (
      bind_res (gdpo_accumulate score_list weights rmask index eps norm_by_std) (\<lambda>acc.
      case acc of
        None \<Rightarrow> Inl TypeError
      | Some a \<Rightarrow> bind_res (masked_whiten a rmask True) (\<lambda>w. Inr (mzip (*) w rmask, mzip (*) w rmask)))))"

section \<open>KL controllers\<close>

record adaptive_kl =
  kl_value :: real
  kl_target :: real
  kl_horizon :: real

datatype kl_controller = FixedKL real | AdaptiveKL adaptive_kl

definition adaptive_update :: "adaptive_kl \<Rightarrow> real \<Rightarrow> real \<Rightarrow> adaptive_kl res" where
  "adaptive_update c current_kl n_steps =
     require (kl_target c \<noteq> 0 \<and> kl_horizon c \<noteq> 0) ZeroDivisionError (
     let proportional_error = clamp (- 0.2) 0.2 (current_kl / kl_target c - 1);
         mult = 1 + proportional_error * n_steps / kl_horizon c
     in Inr (c\<lparr>kl_value := kl_value c * mult\<rparr>))"

definition kl_update :: "kl_controller \<Rightarrow> real \<Rightarrow> real \<Rightarrow> kl_controller res" where
  "kl_update c current_kl n_steps =
     (case c of
        FixedKL v \<Rightarrow> Inr (FixedKL v)
      | AdaptiveKL a \<Rightarrow> bind_res (adaptive_update a current_kl n_steps) (\<lambda>a'. Inr (AdaptiveKL a')))"

definition get_kl_controller :: "string \<Rightarrow> real \<Rightarrow> real \<Rightarrow> real \<Rightarrow> kl_controller res" where
  "get_kl_controller kl_type kl_coef target_kl horizon =
     (if kl_type = ''fixed'' then Inr (FixedKL kl_coef)
      else if kl_type = ''adaptive'' then
        require (0 < horizon) AssertionError
          (Inr (AdaptiveKL \<lparr>kl_value = kl_coef, kl_target = target_kl, kl_horizon = horizon\<rparr>))
      else Inl NotImplementedError)"


section \<open>Lemmas on the backward loops\<close>

lemma foldr_gae_lists: "snd (snd (foldr (gae_step gamma lam) toks (nv, lg, advs)))
    = snd (snd (foldr (gae_step gamma lam) toks (nv, lg, []))) @ advs
  \<and> fst (foldr (gae_step gamma lam) toks (nv, lg, advs)) = fst (foldr (gae_step gamma lam) toks (nv, lg, []))
  \<and> fst (snd (foldr (gae_step gamma lam) toks (nv, lg, advs))) = fst (snd (foldr (gae_step gamma lam) toks (nv, lg, [])))"
  by (induction toks) (auto simp: gae_step_def Let_def split: prod.splits)

definition gae_state :: "real \<Rightarrow> real \<Rightarrow> (real \<times> real \<times> real) list \<Rightarrow> real \<times> real" where
  "gae_state gamma lam toks = (let s = foldr (gae_step gamma lam) toks (0, 0, []) in (fst s, fst (snd s)))"

lemma gae_Nil [simp]: "gae_row gamma lam [] = []" "gae_state gamma lam [] = (0, 0)"
  by (simp_all add: gae_row_def gae_state_def Let_def)

lemma gae_Cons:
  "gae_state gamma lam ((r, v, m) # toks) = (let (nv, lg) = gae_state gamma lam toks;
      l = r + gamma * nv - v + gamma * lam * lg
    in (v * m + (1 - m) * nv, l * m + (1 - m) * lg))"
  "gae_row gamma lam (tok # toks) = snd (gae_state gamma lam (tok # toks)) # gae_row gamma lam toks"
  by (simp_all add: gae_row_def gae_state_def gae_step_def Let_def split: prod.splits)

lemma length_gae_row [simp]: "length (gae_row gamma lam toks) = length toks"
  by (induction toks) (auto simp: gae_Cons)

abbreviation valid_tok :: "real \<times> real \<times> real \<Rightarrow> bool" where
  "valid_tok \<equiv> (\<lambda>(r, v, m). m \<noteq> 0)"

text \<open>Masked tokens leave the state of the loop unchanged.\<close>

lemma gae_state_skip:
  "\<forall>(r, v, m) \<in> set toks. m = 0 \<or> m = 1 \<Longrightarrow>
    gae_state gamma lam toks = gae_state gamma lam (filter valid_tok toks)"
proof (induction toks)
  case (Cons tok toks)
  obtain r v m where tok: "tok = (r, v, m)" by (cases tok)
  show ?case
    using Cons.IH Cons.prems by (auto simp: tok gae_Cons(1) Let_def split: prod.splits)
qed simp

lemma gae_row_skip:
  "\<forall>(r, v, m) \<in> set toks. m = 0 \<or> m = 1 \<Longrightarrow>
    map fst (filter (\<lambda>(a, t). valid_tok t) (zip (gae_row gamma lam toks) toks))
      = gae_row gamma lam (filter valid_tok toks)"
proof (induction toks)
  case (Cons tok toks)
  obtain r v m where tok: "tok = (r, v, m)" by (cases tok)
  have "gae_state gamma lam (tok # toks) = gae_state gamma lam (filter valid_tok (tok # toks))"
    by (rule gae_state_skip[OF Cons.prems])
  then show ?case
    using Cons.IH Cons.prems by (auto simp: gae_Cons(2) tok)
qed simp

text \<open>On valid tokens: discounted sums of the temporal differences.\<close>

fun td_errors :: "real \<Rightarrow> (real \<times> real \<times> real) list \<Rightarrow> real list" where
  "td_errors gamma [] = []"
| "td_errors gamma [(r, v, m)] = [r - v]"
| "td_errors gamma ((r, v, m) # (r', v', m') # toks) = (r + gamma * v' - v) # td_errors gamma ((r', v', m') # toks)"

fun discounted :: "real \<Rightarrow> real list \<Rightarrow> real" where
  "discounted gamma [] = 0"
| "discounted gamma (x # xs) = x + gamma * discounted gamma xs"

lemma gae_state_valid:
  "\<forall>(r, v, m) \<in> set toks. m = 1 \<Longrightarrow>
    gae_state gamma lam toks = (case toks of [] \<Rightarrow> 0 | (r, v, m) # _ \<Rightarrow> v, discounted (gamma * lam) (td_errors gamma toks))"
proof (induction gamma toks rule: td_errors.induct)
  case (3 gamma r v m r' v' m' toks)
  then have ih: "gae_state gamma lam ((r', v', m') # toks)
      = (v', discounted (gamma * lam) (td_errors gamma ((r', v', m') # toks)))" by auto
  have m: "m = 1" using 3(2) by simp
  show ?case
    unfolding gae_Cons(1)[of gamma lam r v m "(r', v', m') # toks"] ih using m by simp
qed (auto simp: gae_Cons(1))

lemma td_telescope:
  "toks \<noteq> [] \<Longrightarrow> discounted gamma (td_errors gamma toks) + fst (snd (hd toks)) = discounted gamma (map fst toks)"
proof (induction gamma toks rule: td_errors.induct)
  case (3 gamma r v m r' v' m' toks)
  then have "gamma * (discounted gamma (td_errors gamma ((r', v', m') # toks)) + v')
      = gamma * discounted gamma (map fst ((r', v', m') # toks))" by simp
  then show ?case by (simp add: algebra_simps)
qed auto

lemma gae_row_valid:
  "\<forall>(r, v, m) \<in> set toks. m = 1 \<Longrightarrow> t < length toks \<Longrightarrow>
    gae_row gamma lam toks ! t = discounted (gamma * lam) (td_errors gamma (drop t toks))"
proof (induction toks arbitrary: t)
  case (Cons tok toks)
  show ?case
  proof (cases t)
    case 0
    then show ?thesis using gae_state_valid[OF Cons.prems(1)] by (simp add: gae_Cons(2))
  next
    case (Suc t')
    then show ?thesis using Cons by (simp add: gae_Cons(2))
  qed
qed simp

lemma gae_returns_valid:
  assumes "\<forall>(r, v, m) \<in> set toks. m = 1" "t < length toks"
  shows "gae_row gamma 1 toks ! t + fst (snd (toks ! t)) = discounted gamma (map fst (drop t toks))"
proof -
  have "drop t toks \<noteq> []" "hd (drop t toks) = toks ! t" using assms(2) by (simp_all add: hd_drop_conv_nth)
  then show ?thesis
    using gae_row_valid[OF assms, of gamma 1] td_telescope[of "drop t toks" gamma] by simp
qed

text \<open>
  C7. GAE skips the tokens the policy did not produce: with a 0/1 mask the advantages at the valid
  positions of a row are exactly those of the row with the masked tokens (tool observations,
  padding) cut out, whatever rewards and values these carry.
\<close>

theorem gae_skips_observations:
  assumes "\<forall>(r, v, m) \<in> set toks. m = 0 \<or> m = 1"
  shows "map fst (filter (\<lambda>(a, t). valid_tok t) (zip (gae_row gamma lam toks) toks))
    = gae_row gamma lam (filter valid_tok toks)"
  using assms by (rule gae_row_skip)

theorem gae_skips_observations_witness:
  "map fst (filter (\<lambda>(a, t). valid_tok t) (zip (gae_row 1 1 [(0, 1, 1), (9, 7, 0), (5, 2, 1)])
      [(0, 1, 1), (9, 7, 0), (5, 2, 1)])) = gae_row 1 1 (filter valid_tok [(0, 1, 1), (9, 7, 0), (5, 2, 1)])"
  by (rule gae_skips_observations) auto

text \<open>
  On the valid tokens of a row the advantage of GAE is the sum of the later temporal
  differences, discounted by \<open>gamma * lam\<close>; with \<open>lam = 1\<close> these telescope, and advantage plus
  value is the discounted reward to go.
\<close>

theorem gae_closed_form:
  assumes "\<forall>(r, v, m) \<in> set toks. m = 1" "t < length toks"
  shows "gae_row gamma lam toks ! t = discounted (gamma * lam) (td_errors gamma (drop t toks))
    \<and> gae_row gamma 1 toks ! t + fst (snd (toks ! t)) = discounted gamma (map fst (drop t toks))"
  using gae_row_valid[OF assms] gae_returns_valid[OF assms] by simp

theorem gae_closed_form_witness:
  "gae_row 1 0 [(0, 1 :: real, 1), (5 :: real, 2, 1 :: real)] ! 0 = discounted (1 * 0) (td_errors 1 (drop 0 [(0, 1 :: real, 1), (5 :: real, 2, 1 :: real)]))
    \<and> gae_row 1 1 [(0, 1 :: real, 1), (5 :: real, 2, 1 :: real)] ! 0 + fst (snd ([(0, 1 :: real, 1), (5 :: real, 2, 1 :: real)] ! 0))
      = discounted 1 (map fst (drop 0 [(0, 1 :: real, 1), (5 :: real, 2, 1 :: real)]))"
  by (rule gae_closed_form) auto


section \<open>REINFORCE++ and ReMax returns\<close>

definition rfpp_state :: "real \<Rightarrow> (real \<times> real) list \<Rightarrow> real" where
  "rfpp_state gamma toks = fst (foldr (rfpp_step gamma) toks (0, []))"

lemma rfpp_Nil [simp]: "rfpp_row gamma [] = []" "rfpp_state gamma [] = 0"
  by (simp_all add: rfpp_row_def rfpp_state_def)

lemma rfpp_Cons:
  "rfpp_state gamma ((r, m) # toks) = (r + gamma * rfpp_state gamma toks) * m"
  "rfpp_row gamma ((r, m) # toks) = (r + gamma * rfpp_state gamma toks) # rfpp_row gamma toks"
  by (simp_all add: rfpp_row_def rfpp_state_def rfpp_step_def Let_def split: prod.splits)

lemma length_rfpp_row [simp]: "length (rfpp_row gamma toks) = length toks"
proof (induction toks)
  case (Cons tok toks)
  then show ?case by (cases tok) (simp add: rfpp_Cons)
qed simp

lemma rfpp_state_cut: "rfpp_state gamma (xs @ (r, 0) # ys) = rfpp_state gamma xs"
proof (induction xs)
  case (Cons tok xs)
  then show ?case by (cases tok) (simp add: rfpp_Cons)
qed (simp add: rfpp_Cons)

lemma rfpp_row_cut: "take (length xs) (rfpp_row gamma (xs @ (r, 0) # ys)) = rfpp_row gamma xs"
proof (induction xs)
  case (Cons tok xs)
  then show ?case by (cases tok) (simp add: rfpp_Cons rfpp_state_cut)
qed simp

lemma rfpp_state_valid: "\<forall>(r, m) \<in> set toks. m = 1 \<Longrightarrow> rfpp_state gamma toks = discounted gamma (map fst toks)"
proof (induction toks)
  case (Cons tok toks)
  then show ?case by (cases tok) (auto simp: rfpp_Cons)
qed simp

lemma rfpp_row_valid:
  "\<forall>(r, m) \<in> set toks. m = 1 \<Longrightarrow> t < length toks \<Longrightarrow>
    rfpp_row gamma toks ! t = discounted gamma (map fst (drop t toks))"
proof (induction toks arbitrary: t)
  case (Cons tok toks)
  then show ?case by (cases tok; cases t) (auto simp: rfpp_Cons rfpp_state_valid)
qed simp

text \<open>
  The running return of REINFORCE++ is reset at every masked token: the returns of the valid
  tokens \<open>xs\<close> before it are the discounted rewards to go within \<open>xs\<close>, and no reward at or after the
  masked token reaches them.  (GAE, in contrast, carries rewards across observations.)
\<close>

theorem reinforce_plus_plus_resets:
  assumes "\<forall>(r, m) \<in> set xs. m = 1" "t < length xs"
  shows "rfpp_row gamma (xs @ (r, 0) # ys) ! t = discounted gamma (map fst (drop t xs))"
proof -
  have "rfpp_row gamma (xs @ (r, 0) # ys) ! t = take (length xs) (rfpp_row gamma (xs @ (r, 0) # ys)) ! t"
    using assms(2) by simp
  then show ?thesis by (simp only: rfpp_row_cut rfpp_row_valid[OF assms])
qed

theorem reinforce_plus_plus_resets_witness:
  "rfpp_row 1 ([(1, 1), (2, 1)] @ (5, 0) # [(7, 1)]) ! 0 = discounted 1 (map fst (drop 0 [(1, 1 :: real), (2, 1)]))"
  by (rule reinforce_plus_plus_resets) auto

lemma cumsum_nth: "t < length xs \<Longrightarrow> cumsum acc xs ! t = acc + sum_list (take (Suc t) xs)"
proof (induction xs arbitrary: acc t)
  case (Cons x xs)
  then show ?case by (cases t) auto
qed simp

lemma length_cumsum [simp]: "length (cumsum acc xs) = length xs"
  by (induction xs arbitrary: acc) auto

lemma length_reward_to_go [simp]: "length (reward_to_go r) = length r"
  by (simp add: reward_to_go_def)

lemma reward_to_go_nth:
  assumes "t < length r"
  shows "reward_to_go r ! t = sum_list (drop t r)"
proof -
  have "take (Suc (length r - Suc t)) (rev r) = rev (drop t r)"
    using assms by (simp add: rev_drop Suc_diff_Suc)
  then show ?thesis
    using assms by (simp add: reward_to_go_def rev_nth cumsum_nth sum_list_rev)
qed

text \<open>
  The double flip around \<open>cumsum\<close> computes rewards to go: every ReMax return is the sum of
  the valid rewards from its token on, and the advantage subtracts the baseline of the row on valid
  tokens.
\<close>

theorem remax_reward_to_go:
  assumes "same_shape rewards rmask" "length reward_baselines = length rewards"
    and "i < length rewards" "t < length (rewards ! i)"
  shows "case compute_remax_outcome_advantage rewards reward_baselines rmask of (adv, ret) \<Rightarrow>
    ret ! i ! t = sum_list (drop t (map2 (*) (rewards ! i) (rmask ! i)))
    \<and> adv ! i ! t = ret ! i ! t - reward_baselines ! i * rmask ! i ! t"
  using assms same_shape_length[OF assms(1)] same_shape_row[OF assms(1,3)]
  by (simp add: compute_remax_outcome_advantage_def Let_def reward_to_go_nth)

theorem remax_reward_to_go_witness:
  "case compute_remax_outcome_advantage [[1, 2, 9]] [4] [[1, 1, 0]] of (adv, ret) \<Rightarrow>
    ret ! 0 ! 0 = sum_list (drop 0 (map2 (*) ([[1, 2, 9]] ! 0) ([[1, 1, 0 :: real]] ! 0)))
    \<and> adv ! 0 ! 0 = ret ! 0 ! 0 - [4] ! 0 * [[1, 1, 0]] ! 0 ! 0"
  by (rule remax_reward_to_go) auto

section \<open>The adaptive KL coefficient\<close>

text \<open>
  One update of the adaptive controller moves the coefficient in the direction of the error
  and by at most the factor \<open>1 \<plusminus> 0.2 * n_steps / horizon\<close>; while a batch is shorter than five
  horizons a positive coefficient stays positive.  The target and the horizon never change.
\<close>

theorem adaptive_kl_update_bounded:
  assumes "0 < kl_target c" "0 < kl_horizon c" "0 \<le> n_steps" "0 < kl_value c" "n_steps < 5 * kl_horizon c"
  shows "\<exists>c'. adaptive_update c current_kl n_steps = Inr c'
    \<and> kl_target c' = kl_target c \<and> kl_horizon c' = kl_horizon c \<and> 0 < kl_value c'
    \<and> kl_value c * (1 - 0.2 * n_steps / kl_horizon c) \<le> kl_value c'
    \<and> kl_value c' \<le> kl_value c * (1 + 0.2 * n_steps / kl_horizon c)
    \<and> (if kl_target c \<le> current_kl then kl_value c \<le> kl_value c' else kl_value c' \<le> kl_value c)"
proof -
  define x where "x = current_kl / kl_target c - 1"
  define e where "e = clamp (- 0.2) 0.2 x"
  define q where "q = n_steps / kl_horizon c"
  have e: "- 0.2 \<le> e" "e \<le> 0.2" by (auto simp: e_def clamp_def min_def max_def)
  have q: "0 \<le> q" "q < 5" using assms by (simp_all add: q_def pos_divide_less_eq)
  have lo: "- (0.2 * q) \<le> e * q" using mult_right_mono[OF e(1) q(1)] by simp
  have hi: "e * q \<le> 0.2 * q" by (rule mult_right_mono[OF e(2) q(1)])
  have "kl_target c \<le> current_kl \<longleftrightarrow> 0 \<le> x"
    using assms(1) by (simp add: x_def pos_le_divide_eq)
  then have dir: "if kl_target c \<le> current_kl then 0 \<le> e else e \<le> 0"
    by (auto simp: e_def clamp_def min_def max_def)
  have sign: "if kl_target c \<le> current_kl then 0 \<le> e * q else e * q \<le> 0"
    using dir q(1) by (auto simp: mult_nonneg_nonneg mult_nonpos_nonneg split: if_splits)
  have pos: "0 < 1 + e * q" using lo q by simp
  have run: "adaptive_update c current_kl n_steps = Inr (c\<lparr>kl_value := kl_value c * (1 + e * q)\<rparr>)"
    using assms(1,2) by (simp add: adaptive_update_def Let_def e_def q_def x_def)
  have "kl_value c * (1 - 0.2 * q) \<le> kl_value c * (1 + e * q)"
    using lo assms(4) by (intro mult_left_mono) auto
  moreover have "kl_value c * (1 + e * q) \<le> kl_value c * (1 + 0.2 * q)"
    using hi assms(4) by (intro mult_left_mono) auto
  moreover have "if kl_target c \<le> current_kl then kl_value c \<le> kl_value c * (1 + e * q)
      else kl_value c * (1 + e * q) \<le> kl_value c"
    using sign assms(4) by (auto simp: mult_le_cancel_left1 mult_le_cancel_left2)
  moreover have "0 < kl_value c * (1 + e * q)" using pos assms(4) by simp
  moreover have scaled: "0.2 * n_steps / kl_horizon c = 0.2 * q" by (simp add: q_def)
  ultimately show ?thesis
    unfolding scaled run by auto
qed

theorem adaptive_kl_update_bounded_witness:
  "\<exists>c'. adaptive_update \<lparr>kl_value = 1, kl_target = 6, kl_horizon = 10000\<rparr> 12 256 = Inr c' \<and> 1 \<le> kl_value c'"
  using adaptive_kl_update_bounded[of "\<lparr>kl_value = 1, kl_target = 6, kl_horizon = 10000\<rparr>" 256 12] by auto

end
