(* ===== verification/Policy_Losses.thy ===== *)
theory Policy_Losses
  imports Tensor_Ops
begin

text \<open>
  The losses of \<open>verl/verl/trainer/ppo/core_algos.py\<close>: the KL estimators with their straight-through
  variants, the aggregation of a loss matrix to a scalar, the policy losses and their registry, the
  value loss.  A loss function maps a batch to a scalar and its metrics.  For the estimators the
  gradient matters: they are modelled on dual numbers, a value with its derivative in the current
  log-probability, where \<open>detach\<close> drops the derivative.
\<close>

section \<open>KL estimators\<close>

type_synonym dual = "real \<times> real"

definition d_const :: "real \<Rightarrow> dual" where "d_const c = (c, 0)"
definition d_add :: "dual \<Rightarrow> dual \<Rightarrow> dual" where "d_add x y = (fst x + fst y, snd x + snd y)"
definition d_sub :: "dual \<Rightarrow> dual \<Rightarrow> dual" where "d_sub x y = (fst x - fst y, snd x - snd y)"
definition d_scale :: "real \<Rightarrow> dual \<Rightarrow> dual" where "d_scale c x = (c * fst x, c * snd x)"
definition d_square :: "dual \<Rightarrow> dual" where "d_square x = ((fst x)\<^sup>2, 2 * fst x * snd x)"
definition d_exp :: "dual \<Rightarrow> dual" where "d_exp x = (exp (fst x), exp (fst x) * snd x)"
definition d_abs :: "dual \<Rightarrow> dual" where "d_abs x = (\<bar>fst x\<bar>, sgn (fst x) * snd x)"
definition detach :: "dual \<Rightarrow> dual" where "detach x = (fst x, 0)"

text \<open>The gradient of \<open>torch.clamp\<close> passes inside the closed interval.\<close>

definition d_clamp :: "real \<Rightarrow> real \<Rightarrow> dual \<Rightarrow> dual" where
  "d_clamp lo hi x = (clamp lo hi (fst x), if lo \<le> fst x \<and> fst x \<le> hi then snd x else 0)"

definition kl_penalty_forward :: "dual \<Rightarrow> dual \<Rightarrow> string \<Rightarrow> dual res" where
  "kl_penalty_forward logprob ref_logprob name =
     (if name \<in> {''kl'', ''k1''} then Inr (d_sub logprob ref_logprob)
      else if name = ''abs'' then Inr (d_abs (d_sub logprob ref_logprob))
      else if name \<in> {''mse'', ''k2''} then Inr (d_scale 0.5 (d_square (d_sub logprob ref_logprob)))
      else if name \<in> {''low_var_kl'', ''k3''} then
        (let kl = d_clamp (- 20) 20 (d_sub ref_logprob logprob);
             ratio = d_exp kl;
             kld = d_sub (d_sub ratio kl) (d_const 1)
         in Inr (d_clamp (- 10) 10 kld))
      else Inl NotImplementedError)"

definition ends_with_plus :: "string \<Rightarrow> bool" where
  "ends_with_plus name \<longleftrightarrow> name \<noteq> [] \<and> last name = CHR ''+''"

definition kl_penalty :: "dual \<Rightarrow> dual \<Rightarrow> string \<Rightarrow> dual res" where
  "kl_penalty logprob ref_logprob name =
     (let base = (if ends_with_plus name then butlast name else name) in
      bind_res (kl_penalty_forward logprob ref_logprob base) (\<lambda>forward_score.
      if \<not> ends_with_plus name \<or> name \<in> {''mse'', ''k2''} then Inr forward_score
      else
        (let backward_score = d_scale 0.5 (d_square (d_sub logprob ref_logprob)) in
         Inr (d_add (d_sub backward_score (detach backward_score)) (detach forward_score)))))"

section \<open>Aggregation\<close>

record batch_info =
  dp_size :: nat
  batch_num_tokens :: "real option"
  global_batch_size :: "real option"
  loss_scale_factor :: "real option"

definition no_batch_info :: batch_info where
  "no_batch_info = \<lparr>dp_size = 1, batch_num_tokens = None, global_batch_size = None, loss_scale_factor = None\<rparr>"

definition row_dots :: "mat \<Rightarrow> mat \<Rightarrow> real list" where
  "row_dots a b = map2 (\<lambda>r m. sum_list (map2 (*) r m)) a b"

definition seq_valid :: "mat \<Rightarrow> real list" where
  "seq_valid rmask = map (\<lambda>m. if 0 < sum_list m then 1 else 0) rmask"

definition vec_masked_sum :: "real list \<Rightarrow> real list \<Rightarrow> real" where
  "vec_masked_sum vals m = sum_list (map2 (\<lambda>v b. (if b \<noteq> 0 then v else 0) * b) vals m)"

text \<open>An omitted count is only accepted for a single data-parallel rank.\<close>

definition global_count :: "batch_info \<Rightarrow> real option \<Rightarrow> real \<Rightarrow> real res" where
  "global_count info given local =
     (case given of
        Some n \<Rightarrow> Inr n
      | None \<Rightarrow> require (dp_size info \<le> 1) ValueError (Inr local))"

definition agg_loss :: "mat \<Rightarrow> mat \<Rightarrow> string \<Rightarrow> batch_info \<Rightarrow> real res" where
  "agg_loss loss_mat loss_mask mode info =
     (if mode = ''token-mean'' then
        bind_res (global_count info (batch_num_tokens info) (msum loss_mask)) (\<lambda>n.
        Inr (masked_sum loss_mat loss_mask / n * real (dp_size info)))
      else if mode \<in> {''seq-mean-token-sum'', ''seq-mean-token-sum-norm''} then
        (let seq_losses = row_dots loss_mat loss_mask; seq_mask = seq_valid loss_mask in
         bind_res (global_count info (global_batch_size info) (sum_list seq_mask)) (\<lambda>n.
         let loss = vec_masked_sum seq_losses seq_mask / n * real (dp_size info) in
         Inr (if mode = ''seq-mean-token-sum-norm''
              then loss / (case loss_scale_factor info of
                     Some s \<Rightarrow> s
                   | None \<Rightarrow> real (case loss_mask of [] \<Rightarrow> 0 | m # _ \<Rightarrow> length m))
              else loss)))
      else if mode = ''seq-mean-token-mean'' then
        (let counts = map sum_list loss_mask;
             seq_losses = map2 (\<lambda>s c. s / (c + mask_eps)) (row_dots loss_mat loss_mask) counts;
             seq_mask = map (\<lambda>c. if 0 < c then 1 else 0) counts
         in bind_res (global_count info (global_batch_size info) (sum_list seq_mask)) (\<lambda>n.
            Inr (vec_masked_sum seq_losses seq_mask / n * real (dp_size info))))
      else Inl ValueError)"

section \<open>Policy losses\<close>

record actor_config =
  clip_ratio :: real
  clip_ratio_low :: "real option"
  clip_ratio_high :: "real option"
  clip_ratio_c :: "real option"
  tau_pos :: real
  tau_neg :: real
  global_batch_info :: batch_info

definition low_of :: "actor_config \<Rightarrow> real" where
  "low_of c = (case clip_ratio_low c of Some x \<Rightarrow> x | None \<Rightarrow> clip_ratio c)"

definition high_of :: "actor_config \<Rightarrow> real" where
  "high_of c = (case clip_ratio_high c of Some x \<Rightarrow> x | None \<Rightarrow> clip_ratio c)"

record pg_metrics =
  pg_clipfrac :: "real option"
  ppo_kl :: "real option"
  pg_clipfrac_lower :: "real option"

record policy_batch =
  old_lp :: mat
  cur_lp :: mat
  adv_mat :: mat
  resp_mask :: mat
  is_weights :: "mat option"

definition apply_is :: "mat option \<Rightarrow> mat \<Rightarrow> mat" where
  "apply_is w losses = (case w of None \<Rightarrow> losses | Some wm \<Rightarrow> mzip (*) losses wm)"

definition mzip3 :: "(real \<Rightarrow> real \<Rightarrow> real \<Rightarrow> real) \<Rightarrow> mat \<Rightarrow> mat \<Rightarrow> mat \<Rightarrow> mat" where
  "mzip3 f a b c = map2 (\<lambda>r (s, t). map2 (\<lambda>x (y, z). f x y z) r (zip s t)) a (zip b c)"

definition of_bool01 :: "bool \<Rightarrow> real" where
  "of_bool01 b = (if b then 1 else 0)"

definition clamped_kl :: "mat \<Rightarrow> mat \<Rightarrow> mat" where
  "clamped_kl lp old = mmap (clamp (- 20) 20) (mzip (-) lp old)"

text \<open>The PPO token loss with dual clipping: ratio \<open>r\<close>, advantage \<open>a\<close>.\<close>

definition vanilla_loss1 :: "real \<Rightarrow> real \<Rightarrow> real \<Rightarrow> real \<Rightarrow> real" where
  "vanilla_loss1 lo hi a r = max (- a * r) (- a * clamp (1 - lo) (1 + hi) r)"

definition vanilla_token :: "real \<Rightarrow> real \<Rightarrow> real \<Rightarrow> real \<Rightarrow> real \<Rightarrow> real" where
  "vanilla_token lo hi c a r =
     (if a < 0 then min (- a * c) (vanilla_loss1 lo hi a r) else vanilla_loss1 lo hi a r)"

definition compute_policy_loss_vanilla ::
  "string \<Rightarrow> actor_config \<Rightarrow> policy_batch \<Rightarrow> (real \<times> pg_metrics) res" where
  "compute_policy_loss_vanilla mode config b =
     (let c = (case clip_ratio_c config of Some x \<Rightarrow> x | None \<Rightarrow> 3);
          lo = low_of config; hi = high_of config;
          nkl = clamped_kl (cur_lp b) (old_lp b);
          ratio = mmap exp nkl;
          pg_losses = apply_is (is_weights b) (mzip (vanilla_token lo hi c) (adv_mat b) ratio)
      in require (1 < c) AssertionError (
         bind_res (agg_loss pg_losses (resp_mask b) mode (global_batch_info config)) (\<lambda>loss.
         Inr (loss,
           \<lparr>pg_clipfrac = Some (masked_mean (mzip (\<lambda>a r. of_bool01 (- a * clamp (1 - lo) (1 + hi) r > - a * r))
                (adv_mat b) ratio) (resp_mask b)),
            ppo_kl = Some (masked_mean (mmap uminus nkl) (resp_mask b)),
            pg_clipfrac_lower = Some (masked_mean (mzip (\<lambda>a r. of_bool01 (vanilla_loss1 lo hi a r > - a * c)
                * of_bool01 (a < 0)) (adv_mat b) ratio) (resp_mask b))\<rparr>))))"

text \<open>DPPO: importance sampling truncated at \<open>c\<close>, with a mask from the binary divergence.\<close>

definition dppo_tv_valid :: "real \<Rightarrow> real \<Rightarrow> real \<Rightarrow> real \<Rightarrow> real \<Rightarrow> bool" where
  "dppo_tv_valid lo hi a lp old =
     (if 0 < a then exp lp - exp old \<le> hi else exp lp - exp old \<ge> - lo)"

definition binary_kl :: "real \<Rightarrow> real \<Rightarrow> real" where
  "binary_kl lp old = exp old * (old - lp)
     + (1 - exp old) * ln ((1 - exp old + mask_eps) / (1 - exp lp + mask_eps))"

definition dppo_kl_valid :: "real \<Rightarrow> real \<Rightarrow> real \<Rightarrow> real \<Rightarrow> real \<Rightarrow> bool" where
  "dppo_kl_valid lo hi a lp old =
     (if 0 < a then binary_kl lp old \<le> hi \<or> exp lp \<le> exp old
      else binary_kl lp old \<le> lo \<or> exp lp \<ge> exp old)"

definition compute_policy_loss_dppo ::
  "(real \<Rightarrow> real \<Rightarrow> real \<Rightarrow> real \<Rightarrow> real \<Rightarrow> bool) \<Rightarrow> string \<Rightarrow> actor_config \<Rightarrow> policy_batch
    \<Rightarrow> (real \<times> pg_metrics) res" where
  "compute_policy_loss_dppo valid mode config b =
     (let c = (case clip_ratio_c config of Some x \<Rightarrow> x | None \<Rightarrow> 20);
          nkl = clamped_kl (cur_lp b) (old_lp b);
          ratio = mmap exp nkl;
          valid_mask = mzip3 (\<lambda>a lp old. of_bool01 (valid (low_of config) (high_of config) a lp old))
            (adv_mat b) (cur_lp b) (old_lp b);
          pg_losses = apply_is (is_weights b)
            (mzip (*) (mzip3 (\<lambda>a r lp. - a * min r c * lp) (adv_mat b) ratio (cur_lp b)) valid_mask)
      in bind_res (agg_loss pg_losses (resp_mask b) mode (global_batch_info config)) (\<lambda>loss.
         Inr (loss,
           \<lparr>pg_clipfrac = Some (masked_mean (mmap (\<lambda>v. 1 - v) valid_mask) (resp_mask b)),
            ppo_kl = Some (masked_mean (mmap uminus nkl) (resp_mask b)),
            pg_clipfrac_lower = Some (masked_mean (mzip (\<lambda>r v. of_bool01 (r > c) * v) ratio valid_mask) (resp_mask b))\<rparr>)))"

definition compute_policy_loss_dppo_tv :: "string \<Rightarrow> actor_config \<Rightarrow> policy_batch \<Rightarrow> (real \<times> pg_metrics) res" where
  "compute_policy_loss_dppo_tv = compute_policy_loss_dppo dppo_tv_valid"

definition compute_policy_loss_dppo_kl :: "string \<Rightarrow> actor_config \<Rightarrow> policy_batch \<Rightarrow> (real \<times> pg_metrics) res" where
  "compute_policy_loss_dppo_kl = compute_policy_loss_dppo dppo_kl_valid"


text \<open>GSPO: one ratio per sequence.  In its value \<open>log_prob - log_prob.detach()\<close> is 0, and the
  argument \<open>loss_agg_mode\<close> is ignored.\<close>

definition gspo_ratios :: "mat \<Rightarrow> mat \<Rightarrow> mat \<Rightarrow> real list" where
  "gspo_ratios lp old rmask =
     map2 (\<lambda>s n. exp (min (s / max n 1) 10)) (row_dots (mzip (-) lp old) rmask) (map sum_list rmask)"

definition gspo_loss1 :: "real \<Rightarrow> real \<Rightarrow> real \<Rightarrow> real \<Rightarrow> real" where
  "gspo_loss1 lo hi a r = max (- a * r) (- a * clamp (1 - lo) (1 + hi) r)"

definition compute_policy_loss_gspo :: "string \<Rightarrow> actor_config \<Rightarrow> policy_batch \<Rightarrow> (real \<times> pg_metrics) res" where
  "compute_policy_loss_gspo mode config b =
     (let lo = low_of config; hi = high_of config;
          ratios = gspo_ratios (cur_lp b) (old_lp b) (resp_mask b);
          pg_losses = apply_is (is_weights b) (map2 (\<lambda>r. map (\<lambda>a. gspo_loss1 lo hi a r)) ratios (adv_mat b));
          clipped = map2 (\<lambda>r. map (\<lambda>a. of_bool01 (- a * clamp (1 - lo) (1 + hi) r > - a * r))) ratios (adv_mat b)
      in bind_res (agg_loss pg_losses (resp_mask b) ''seq-mean-token-mean'' (global_batch_info config)) (\<lambda>loss.
         Inr (loss,
           \<lparr>pg_clipfrac = Some (masked_mean clipped (resp_mask b)),
            ppo_kl = Some (masked_mean (mmap uminus (mzip (-) (cur_lp b) (old_lp b))) (resp_mask b)),
            pg_clipfrac_lower = Some 0\<rparr>)))"

definition sigmoid :: "real \<Rightarrow> real" where
  "sigmoid x = 1 / (1 + exp (- x))"

definition gate_function :: "real \<Rightarrow> real \<Rightarrow> real" where
  "gate_function x tau = sigmoid (tau * (x - 1)) * (4 / tau)"

definition compute_policy_loss_sapo :: "string \<Rightarrow> actor_config \<Rightarrow> policy_batch \<Rightarrow> (real \<times> pg_metrics) res" where
  "compute_policy_loss_sapo mode config b =
     (let nkl = clamped_kl (cur_lp b) (old_lp b);
          ratio = mmap exp nkl;
          pg_losses = apply_is (is_weights b)
            (mzip (\<lambda>a r. - gate_function r (if 0 < a then tau_pos config else tau_neg config) * a) (adv_mat b) ratio)
      in bind_res (agg_loss pg_losses (resp_mask b) ''seq-mean-token-mean'' (global_batch_info config)) (\<lambda>loss.
         Inr (loss,
           \<lparr>pg_clipfrac = Some 0, ppo_kl = Some (masked_mean (mmap uminus nkl) (resp_mask b)),
            pg_clipfrac_lower = Some 0\<rparr>)))"

definition compute_policy_loss_gpg :: "string \<Rightarrow> actor_config \<Rightarrow> policy_batch \<Rightarrow> (real \<times> pg_metrics) res" where
  "compute_policy_loss_gpg mode config b =
     bind_res (agg_loss (apply_is (is_weights b) (mzip (\<lambda>lp a. - lp * a) (cur_lp b) (adv_mat b)))
       (resp_mask b) mode (global_batch_info config)) (\<lambda>loss.
     Inr (loss, \<lparr>pg_clipfrac = None, ppo_kl = None, pg_clipfrac_lower = None\<rparr>))"

definition compute_policy_loss_geo_mean :: "string \<Rightarrow> actor_config \<Rightarrow> policy_batch \<Rightarrow> (real \<times> pg_metrics) res" where
  "compute_policy_loss_geo_mean mode config b =
     (let lo = low_of config; hi = high_of config;
          nkl = mzip (-) (cur_lp b) (old_lp b);
          nkl_min = mzip (\<lambda>a k. sgn a * min (sgn a * k) (sgn a * clamp (- lo) hi k)) (adv_mat b) nkl;
          counts = map sum_list (resp_mask b);
          seq_mean = (\<lambda>t. map2 (\<lambda>s c. s / (c + mask_eps)) (row_dots t (resp_mask b)) counts);
          ratio = map exp (seq_mean nkl_min);
          pg_losses0 = map2 (\<lambda>a r. - a * r) (seq_mean (adv_mat b)) ratio;
          pg_losses = (case is_weights b of
              None \<Rightarrow> pg_losses0
            | Some w \<Rightarrow> map2 (*) pg_losses0 (map exp (seq_mean (mmap (\<lambda>x. ln (x + 1 / 10 ^ 10)) w))))
      in Inr (mean pg_losses,
           \<lparr>pg_clipfrac = Some (masked_mean (mzip (\<lambda>a k. of_bool01 (k \<noteq> clamp (- lo) hi k) * of_bool01 (0 < a))
                (adv_mat b) nkl) (resp_mask b)),
            ppo_kl = Some (masked_mean (mmap uminus nkl) (resp_mask b)),
            pg_clipfrac_lower = Some (masked_mean (mzip (\<lambda>a k. of_bool01 (k \<noteq> clamp (- lo) hi k) * of_bool01 (a < 0))
                (adv_mat b) nkl) (resp_mask b))\<rparr>))"

definition compute_policy_loss_cispo :: "string \<Rightarrow> actor_config \<Rightarrow> policy_batch \<Rightarrow> (real \<times> pg_metrics) res" where
  "compute_policy_loss_cispo mode config b =
     (let lo = low_of config; hi = high_of config;
          nkl = clamped_kl (cur_lp b) (old_lp b);
          ratio = mmap exp nkl;
          clipped_ratio = mmap (clamp (1 - lo) (1 + hi)) ratio;
          pg_losses = apply_is (is_weights b) (mzip3 (\<lambda>c a lp. - c * a * lp) clipped_ratio (adv_mat b) (cur_lp b))
      in bind_res (agg_loss pg_losses (resp_mask b) mode (global_batch_info config)) (\<lambda>loss.
         Inr (loss,
           \<lparr>pg_clipfrac = Some (masked_mean (mzip (\<lambda>r c. of_bool01 (r \<noteq> c)) ratio clipped_ratio) (resp_mask b)),
            ppo_kl = Some (masked_mean (mmap uminus nkl) (resp_mask b)), pg_clipfrac_lower = Some 0\<rparr>)))"

definition compute_policy_loss_reinforce :: "string \<Rightarrow> actor_config \<Rightarrow> policy_batch \<Rightarrow> (real \<times> pg_metrics) res" where
  "compute_policy_loss_reinforce mode config b =
     (let pg_losses = apply_is (is_weights b) (mzip (\<lambda>a lp. - a * lp) (adv_mat b) (cur_lp b)) in
      bind_res (agg_loss pg_losses (resp_mask b) mode (global_batch_info config)) (\<lambda>loss.
      Inr (loss,
        \<lparr>pg_clipfrac = None,
         ppo_kl = Some (masked_mean (mmap uminus (mzip (-) (cur_lp b) (old_lp b))) (resp_mask b)),
         pg_clipfrac_lower = None\<rparr>)))"

type_synonym policy_loss_fn = "string \<Rightarrow> actor_config \<Rightarrow> policy_batch \<Rightarrow> (real \<times> pg_metrics) res"

text \<open>The registry; \<open>rest\<close> holds the losses that are not modelled here (the randomised \<open>clip_cov\<close>,
  \<open>kl_cov\<close>, and \<open>bypass_mode\<close>, which \<open>Rollout_Correction\<close> models).\<close>

definition POLICY_LOSS_REGISTRY :: "(string \<rightharpoonup> policy_loss_fn) \<Rightarrow> (string \<rightharpoonup> policy_loss_fn)" where
  "POLICY_LOSS_REGISTRY rest = rest(
     ''vanilla'' \<mapsto> compute_policy_loss_vanilla,
     ''dppo_tv'' \<mapsto> compute_policy_loss_dppo_tv,
     ''dppo_kl'' \<mapsto> compute_policy_loss_dppo_kl,
     ''gspo'' \<mapsto> compute_policy_loss_gspo,
     ''sapo'' \<mapsto> compute_policy_loss_sapo,
     ''gpg'' \<mapsto> compute_policy_loss_gpg,
     ''geo_mean'' \<mapsto> compute_policy_loss_geo_mean,
     ''cispo'' \<mapsto> compute_policy_loss_cispo)"

definition get_policy_loss_fn :: "(string \<rightharpoonup> policy_loss_fn) \<Rightarrow> string \<Rightarrow> policy_loss_fn res" where
  "get_policy_loss_fn rest name =
     (case POLICY_LOSS_REGISTRY rest name of None \<Rightarrow> Inl ValueError | Some f \<Rightarrow> Inr f)"

section \<open>Value loss\<close>

definition clip_by_value :: "real \<Rightarrow> real \<Rightarrow> real \<Rightarrow> real" where
  "clip_by_value x tensor_min tensor_max = max (min x tensor_max) tensor_min"

definition value_token :: "real \<Rightarrow> real \<Rightarrow> real \<Rightarrow> real \<Rightarrow> real" where
  "value_token cliprange_value vpred ret val =
     max ((vpred - ret)\<^sup>2) ((clip_by_value vpred (val - cliprange_value) (val + cliprange_value) - ret)\<^sup>2)"

definition compute_value_loss :: "mat \<Rightarrow> mat \<Rightarrow> mat \<Rightarrow> mat \<Rightarrow> real \<Rightarrow> string \<Rightarrow> (real \<times> real) res" where
  "compute_value_loss vpreds returns vals rmask cliprange_value mode =
     bind_res (agg_loss (mzip3 (value_token cliprange_value) vpreds returns vals) rmask mode no_batch_info) (\<lambda>l.
     Inr (0.5 * l,
       masked_mean (mzip3 (\<lambda>vpred ret val. of_bool01
         ((clip_by_value vpred (val - cliprange_value) (val + cliprange_value) - ret)\<^sup>2 > (vpred - ret)\<^sup>2))
         vpreds returns vals) rmask))"


section \<open>Properties of the KL estimators\<close>

named_theorems dual_simps \<open>evaluation on dual numbers\<close>

lemmas [dual_simps] = d_const_def d_add_def d_sub_def d_scale_def d_square_def d_exp_def d_abs_def
  detach_def d_clamp_def

definition kl_names :: "string list" where
  "kl_names = [''kl'', ''k1'', ''abs'', ''mse'', ''k2'', ''low_var_kl'', ''k3'']"

lemma ends_with_plus_append [simp]: "ends_with_plus (name @ ''+'')"
  by (simp add: ends_with_plus_def)

lemma kl_names_no_plus: "name \<in> set kl_names \<Longrightarrow> \<not> ends_with_plus name"
  by (auto simp: kl_names_def ends_with_plus_def)

lemma kl_forward_known: "name \<in> set kl_names \<Longrightarrow> \<exists>d. kl_penalty_forward lp ref name = Inr d"
  by (auto simp: kl_names_def kl_penalty_forward_def Let_def)

text \<open>
  The straight-through variants do what they are for: with the suffix \<open>+\<close> every estimator
  keeps its value and gets the gradient of \<open>k2\<close>, which is the log-ratio of policy and reference.
\<close>

theorem kl_penalty_straight_through:
  assumes "name \<in> set kl_names"
  shows "\<exists>v g. kl_penalty (lp, 1) (ref, 0) name = Inr (v, g)
    \<and> kl_penalty (lp, 1) (ref, 0) (name @ ''+'') = Inr (v, lp - ref)"
proof -
  obtain d where d: "kl_penalty_forward (lp, 1) (ref, 0) name = Inr d"
    using kl_forward_known[OF assms] by blast
  have neq: "name @ ''+'' \<noteq> ''mse''" "name @ ''+'' \<noteq> ''k2''"
    using assms by (auto simp: kl_names_def)
  have "kl_penalty (lp, 1) (ref, 0) name = Inr (fst d, snd d)"
    using kl_names_no_plus[OF assms] d by (simp add: kl_penalty_def)
  moreover have "kl_penalty (lp, 1) (ref, 0) (name @ ''+'') = Inr (fst d, lp - ref)"
    using d neq by (simp add: kl_penalty_def Let_def dual_simps)
  ultimately show ?thesis by blast
qed

theorem kl_penalty_straight_through_witness:
  "\<exists>v g. kl_penalty (- 1, 1) (- 2, 0) ''k3'' = Inr (v, g)
    \<and> kl_penalty (- 1, 1) (- 2, 0) (''k3'' @ ''+'') = Inr (v, - 1 - - 2)"
  by (rule kl_penalty_straight_through) (simp add: kl_names_def)

lemma k3_value_bounds: "0 \<le> clamp (- 10) 10 (exp k - k - 1) \<and> clamp (- 10) 10 (exp k - k - 1) \<le> (10 :: real)"
proof -
  have "0 \<le> exp k - k - 1" by (simp add: le_diff_eq)
  then show ?thesis by (simp add: clamp_def)
qed

lemma kl_penalty_plain: "\<not> ends_with_plus name \<Longrightarrow> kl_penalty lp ref name = kl_penalty_forward lp ref name"
  by (cases "kl_penalty_forward lp ref name") (simp_all add: kl_penalty_def)

lemma kl_forward_values:
  "kl_penalty_forward (lp, 1) (ref, 0) ''abs'' = Inr (\<bar>lp - ref\<bar>, sgn (lp - ref))"
  "name \<in> {''mse'', ''k2''} \<Longrightarrow> kl_penalty_forward (lp, 1) (ref, 0) name = Inr ((lp - ref)\<^sup>2 / 2, lp - ref)"
  "name \<in> {''low_var_kl'', ''k3''} \<Longrightarrow> \<exists>g. kl_penalty_forward (lp, 1) (ref, 0) name
     = Inr (clamp (- 10) 10 (exp (clamp (- 20) 20 (ref - lp)) - clamp (- 20) 20 (ref - lp) - 1), g)"
  by (auto simp: kl_penalty_forward_def dual_simps Let_def)

text \<open>
  Unlike \<open>k1\<close>, the estimators \<open>abs\<close>, \<open>k2\<close> and \<open>k3\<close> are never negative and vanish where policy and
  reference agree; the clamps keep \<open>k3\<close> at most 10 whatever the log-probabilities.
\<close>

theorem kl_estimators_nonneg:
  assumes "name \<in> {''abs'', ''mse'', ''k2'', ''low_var_kl'', ''k3''}"
  shows "\<exists>v g. kl_penalty (lp, 1) (ref, 0) name = Inr (v, g) \<and> 0 \<le> v \<and> (lp = ref \<longrightarrow> v = 0)
    \<and> (name \<in> {''low_var_kl'', ''k3''} \<longrightarrow> v \<le> 10)"
proof -
  have plus: "\<not> ends_with_plus name"
    using assms by (auto simp: ends_with_plus_def)
  have zero: "clamp (- 20) 20 0 = (0 :: real)" "clamp (- 10) 10 0 = (0 :: real)" by (simp_all add: clamp_def)
  consider "name = ''abs''" | "name \<in> {''mse'', ''k2''}" | "name \<in> {''low_var_kl'', ''k3''}"
    using assms by blast
  then show ?thesis
  proof cases
    case 1
    then show ?thesis using plus by (simp add: kl_penalty_plain kl_forward_values)
  next
    case 2
    then have "name \<notin> {''low_var_kl'', ''k3''}" by auto
    then show ?thesis using kl_forward_values(2)[OF 2, of lp ref] plus
      by (intro exI[of _ "(lp - ref)\<^sup>2 / 2"] exI[of _ "lp - ref"]) (simp add: kl_penalty_plain)
  next
    case 3
    then show ?thesis
      using kl_forward_values(3)[OF 3, of lp ref] plus k3_value_bounds[of "clamp (- 20) 20 (ref - lp)"]
      by (auto simp: kl_penalty_plain zero)
  qed
qed

theorem kl_estimators_nonneg_witness:
  "\<exists>v g. kl_penalty (0, 1) (- 50, 0) ''k3'' = Inr (v, g) \<and> v \<le> 10"
  using kl_estimators_nonneg[of "''k3''" 0 "- 50"] by auto

section \<open>Properties of the policy losses\<close>

lemma max_scale_neg: "0 \<le> a \<Longrightarrow> max (- a * x) (- a * y) = - a * min x (y :: real)"
  by (cases "x \<le> y") (simp_all add: max_absorb1 max_absorb2 min_absorb1 min_absorb2 mult_left_mono)

lemma max_scale_pos: "a \<le> 0 \<Longrightarrow> max (- a * x) (- a * y) = - a * max x (y :: real)"
  by (cases "x \<le> y") (simp_all add: max_absorb1 max_absorb2 mult_left_mono_neg)

lemma vanilla_token_closed:
  assumes "1 - lo \<le> 1 + hi"
  shows "vanilla_token lo hi c a r =
    (if a < 0 then - a * min c (max r (1 - lo)) else - a * min r (1 + hi))"
proof (cases "a < 0")
  case True
  then have "vanilla_loss1 lo hi a r = - a * max r (1 - lo)"
    using assms unfolding vanilla_loss1_def max_scale_pos[OF less_imp_le[OF True]]
    by (auto simp: clamp_def max_def min_def)
  moreover have "min (- a * c) (- a * y) = - a * min c y" for y
    using True by (auto simp: min_def mult_le_cancel_left)
  ultimately show ?thesis using True by (simp add: vanilla_token_def)
next
  case False
  then have "vanilla_loss1 lo hi a r = - a * min r (1 + hi)"
    using assms unfolding vanilla_loss1_def by (subst max_scale_neg) (auto simp: clamp_def max_def min_def)
  then show ?thesis using False by (simp add: vanilla_token_def)
qed


text \<open>
  The PPO token loss in closed form, for the importance ratio \<open>r\<close>: a good token stops being
  rewarded above \<open>1 + high\<close>, a bad token is pushed down with a factor of at least \<open>1 - low\<close>, and dual
  clipping caps that factor at \<open>clip_ratio_c\<close>.
\<close>

theorem vanilla_dual_clip:
  assumes "0 \<le> low + high"
  shows "vanilla_token low high c a r =
    (if a < 0 then - a * min c (max r (1 - low)) else - a * min r (1 + high))"
  using assms by (intro vanilla_token_closed) simp

theorem vanilla_dual_clip_witness:
  "vanilla_token 0.2 0.2 3 (- 1) 7 = (if (- 1 :: real) < 0 then - (- 1) * min 3 (max 7 (1 - 0.2)) else - (- 1) * min 7 (1 + 0.2))"
  by (rule vanilla_dual_clip) simp

lemma mzip_self_sub: "mzip (-) t t = mmap (\<lambda>_. 0) t"
proof -
  have "map2 (-) r r = map (\<lambda>_. 0 :: real) r" for r
    by (induction r) auto
  then have "map2 (map2 (-)) t t = map (map (\<lambda>_. 0)) t"
    by (induction t) auto
  then show ?thesis by (simp add: mzip_def mmap_def)
qed

lemma mzip_const_right:
  "same_shape s t \<Longrightarrow> mzip f s (mmap (\<lambda>_. c) t) = mmap (\<lambda>x. f x c) s"
proof (induction s arbitrary: t)
  case (Cons r s)
  then obtain q t' where t: "t = q # t'" "length r = length q" "same_shape s t'" by (cases t) auto
  have "map2 f r (map (\<lambda>_. c) q) = map (\<lambda>x. f x c) r"
    using t(2) by (induction r q rule: list_induct2) auto
  then show ?case using Cons.IH[OF t(3)] t(1) by (simp add: mzip_def mmap_def)
qed (simp add: mzip_def mmap_def)

lemma masked_mean_zero: "masked_mean (mmap (\<lambda>_. 0) t) m = 0"
proof -
  have "sum_list (map2 (*) (map (\<lambda>_. 0) r) q) = 0" for r q :: "real list"
    by (induction r q rule: list_induct2') auto
  then have "masked_sum (mmap (\<lambda>_. 0) t) m = 0"
    by (induction t m rule: list_induct2') (auto simp: mmap_def masked_sum_alt mzip_def)
  then show ?thesis by (simp add: masked_mean_def)
qed

lemma vanilla_on_policy_base:
  assumes "cur_lp b = old_lp b" "same_shape (adv_mat b) (old_lp b)" "is_weights b = None"
    and "0 \<le> low_of config" "0 \<le> high_of config" "clip_ratio_c config = None"
  shows "compute_policy_loss_vanilla mode config b =
    bind_res (agg_loss (mmap uminus (adv_mat b)) (resp_mask b) mode (global_batch_info config)) (\<lambda>loss.
      Inr (loss, \<lparr>pg_clipfrac = Some 0, ppo_kl = Some 0, pg_clipfrac_lower = Some 0\<rparr>))"
proof -
  have c0: "clamp (- 20) 20 0 = (0 :: real)" by (simp add: clamp_def)
  have nkl: "clamped_kl (cur_lp b) (old_lp b) = mmap (\<lambda>_. 0) (old_lp b)"
    by (simp add: clamped_kl_def assms(1) mzip_self_sub mmap_def c0 comp_def)
  have ratio: "mmap exp (mmap (\<lambda>_. 0) (old_lp b)) = mmap (\<lambda>_. 1 :: real) (old_lp b)"
    "mmap uminus (mmap (\<lambda>_. 0) (old_lp b)) = mmap (\<lambda>_. 0 :: real) (old_lp b)"
    by (simp_all add: mmap_def comp_def)
  have cl: "clamp (1 - low_of config) (1 + high_of config) 1 = 1"
    using assms(4,5) by (simp add: clamp_def)
  have tok: "vanilla_token (low_of config) (high_of config) 3 a 1 = - a" for a
    using assms(4,5) by (subst vanilla_token_closed) (auto simp: min_def max_def)
  have l1: "vanilla_loss1 (low_of config) (high_of config) a 1 = - a" for a
    by (simp add: vanilla_loss1_def cl)
  have low: "of_bool01 (0 < a) * of_bool01 (a < 0) = 0" for a :: real
    by (simp add: of_bool01_def)
  show ?thesis
    using mzip_const_right[OF assms(2)] assms(3,6)
    by (simp add: compute_policy_loss_vanilla_def Let_def nkl ratio cl tok l1 apply_is_def low
        masked_mean_zero of_bool01_def[of False])
qed


text \<open>
  On policy, where the current log-probabilities are the old ones, the PPO loss is the plain
  policy-gradient loss: its matrix is the negated advantages, nothing is clipped and the measured
  KL divergence is 0.
\<close>

theorem vanilla_on_policy:
  assumes "cur_lp b = old_lp b" "same_shape (adv_mat b) (old_lp b)" "is_weights b = None"
    and "0 \<le> low_of config" "0 \<le> high_of config" "clip_ratio_c config = None"
  shows "compute_policy_loss_vanilla mode config b =
    bind_res (agg_loss (mmap uminus (adv_mat b)) (resp_mask b) mode (global_batch_info config)) (\<lambda>loss.
      Inr (loss, \<lparr>pg_clipfrac = Some 0, ppo_kl = Some 0, pg_clipfrac_lower = Some 0\<rparr>))"
  using assms by (rule vanilla_on_policy_base)

theorem vanilla_on_policy_witness:
  "compute_policy_loss_vanilla ''token-mean''
     \<lparr>clip_ratio = 1, clip_ratio_low = None, clip_ratio_high = None, clip_ratio_c = None, tau_pos = 1, tau_neg = 1,
       global_batch_info = no_batch_info\<rparr>
     \<lparr>old_lp = [[0, 0]], cur_lp = [[0, 0]], adv_mat = [[2, 4]], resp_mask = [[1, 1]], is_weights = None\<rparr>
   = bind_res (agg_loss (mmap uminus [[2, 4]]) [[1, 1]] ''token-mean'' no_batch_info) (\<lambda>loss.
       Inr (loss, \<lparr>pg_clipfrac = Some 0, ppo_kl = Some 0, pg_clipfrac_lower = Some 0\<rparr>))"
  using vanilla_on_policy[of
      "\<lparr>old_lp = [[0, 0]], cur_lp = [[0, 0]], adv_mat = [[2, 4]], resp_mask = [[1, 1]], is_weights = None\<rparr>"
      "\<lparr>clip_ratio = 1, clip_ratio_low = None, clip_ratio_high = None, clip_ratio_c = None, tau_pos = 1, tau_neg = 1,
         global_batch_info = no_batch_info\<rparr>" "''token-mean''"]
  by (simp add: low_of_def high_of_def)

section \<open>Aggregation across data-parallel ranks\<close>

lemma masked_sum_append:
  "length a = length c \<Longrightarrow> masked_sum (a @ b) (c @ d) = masked_sum a c + masked_sum b d"
  by (induction a c rule: list_induct2) auto

lemma row_dots_append: "length a = length c \<Longrightarrow> row_dots (a @ b) (c @ d) = row_dots a c @ row_dots b d"
  by (simp add: row_dots_def)

lemma length_row_dots [simp]: "length (row_dots a b) = min (length a) (length b)"
  by (simp add: row_dots_def)

lemma vec_masked_sum_append:
  "length a = length c \<Longrightarrow> vec_masked_sum (a @ b) (c @ d) = vec_masked_sum a c + vec_masked_sum b d"
  by (simp add: vec_masked_sum_def)

text \<open>What a mode sums over the rows of its rank, before dividing by the global count.\<close>

definition agg_numerator :: "string \<Rightarrow> mat \<Rightarrow> mat \<Rightarrow> real" where
  "agg_numerator mode l m =
     (if mode = ''token-mean'' then masked_sum l m
      else if mode \<in> {''seq-mean-token-sum'', ''seq-mean-token-sum-norm''}
           then vec_masked_sum (row_dots l m) (seq_valid m)
      else vec_masked_sum (map2 (\<lambda>s c. s / (c + mask_eps)) (row_dots l m) (map sum_list m))
             (map (\<lambda>c. if 0 < c then 1 else 0) (map sum_list m)))"

definition agg_modes :: "string list" where
  "agg_modes = [''token-mean'', ''seq-mean-token-sum'', ''seq-mean-token-sum-norm'', ''seq-mean-token-mean'']"

lemma agg_numerator_append:
  "length a = length c \<Longrightarrow> agg_numerator mode (a @ b) (c @ d) = agg_numerator mode a c + agg_numerator mode b d"
  by (simp add: agg_numerator_def masked_sum_append row_dots_append vec_masked_sum_append seq_valid_def)

lemma agg_numerator_concat:
  "\<forall>(l, m) \<in> set shards. length l = length m \<Longrightarrow>
    agg_numerator mode (concat (map fst shards)) (concat (map snd shards))
      = sum_list (map (\<lambda>(l, m). agg_numerator mode l m) shards)"
proof (induction shards)
  case Nil
  show ?case by (simp add: agg_numerator_def row_dots_def vec_masked_sum_def)
next
  case (Cons s shards)
  then show ?case by (cases s) (simp add: agg_numerator_append)
qed

lemma agg_loss_global:
  assumes "mode \<in> set agg_modes" "batch_num_tokens info = Some N" "global_batch_size info = Some B"
    and "loss_scale_factor info = Some S"
  shows "agg_loss l m mode info = Inr (agg_numerator mode l m
    * (real (dp_size info) / (if mode = ''token-mean'' then N else B)
       / (if mode = ''seq-mean-token-sum-norm'' then S else 1)))"
  using assms by (auto simp: agg_loss_def agg_modes_def agg_numerator_def global_count_def Let_def)

text \<open>
  C8. The aggregated loss does not depend on how the global batch is sharded: when the global
  counts are given, the average over the data-parallel ranks of the rank losses is the loss of the
  concatenated batch on one rank, in every aggregation mode.
\<close>

theorem agg_loss_sharding_invariant:
  assumes "mode \<in> set agg_modes" "batch_num_tokens info = Some N" "global_batch_size info = Some B"
    and "loss_scale_factor info = Some S"
    and "shards \<noteq> []" "\<forall>(l, m) \<in> set shards. length l = length m"
  shows "\<exists>ls. map_res (\<lambda>(l, m). agg_loss l m mode (info\<lparr>dp_size := length shards\<rparr>)) shards = Inr ls
    \<and> agg_loss (concat (map fst shards)) (concat (map snd shards)) mode (info\<lparr>dp_size := 1\<rparr>) = Inr (mean ls)"
proof -
  define n where "n = real (length shards)"
  define k where "k = 1 / (if mode = ''token-mean'' then N else B) / (if mode = ''seq-mean-token-sum-norm'' then S else 1)"
  define X where "X = (\<lambda>(l, m). agg_numerator mode l m)"
  have n: "0 < n" using assms(5) by (simp add: n_def)
  have loss: "agg_loss l m mode (info\<lparr>dp_size := d\<rparr>) = Inr (agg_numerator mode l m * (real d * k))" for l m d
    by (subst agg_loss_global[OF assms(1), of _ N B S]) (use assms(2-4) in \<open>simp_all add: k_def\<close>)
  have "map_res (\<lambda>(l, m). agg_loss l m mode (info\<lparr>dp_size := length shards\<rparr>)) shards
      = Inr (map (\<lambda>p. X p * (n * k)) shards)"
    by (rule map_res_Inr) (auto simp: loss X_def n_def)
  moreover have "sum_list (map (\<lambda>p. X p * (n * k)) ps) = sum_list (map X ps) * (n * k)" for ps
    by (induction ps) (auto simp: algebra_simps)
  then have "mean (map (\<lambda>p. X p * (n * k)) shards) = sum_list (map X shards) * k"
    using n by (simp add: mean_def n_def[symmetric])
  moreover have "agg_loss (concat (map fst shards)) (concat (map snd shards)) mode (info\<lparr>dp_size := 1\<rparr>)
      = Inr (sum_list (map X shards) * k)"
    using agg_numerator_concat[OF assms(6), of mode] by (simp add: loss X_def)
  ultimately show ?thesis by auto
qed

theorem agg_loss_sharding_invariant_witness:
  "\<exists>ls. map_res (\<lambda>(l, m). agg_loss l m ''token-mean''
        (\<lparr>dp_size = 1, batch_num_tokens = Some 3, global_batch_size = Some 2, loss_scale_factor = Some 1\<rparr>
          \<lparr>dp_size := length [([[1, 2 :: real]], [[1, 1 :: real]]), ([[5, 7]], [[1, 0]])]\<rparr>))
      [([[1, 2 :: real]], [[1, 1 :: real]]), ([[5, 7]], [[1, 0]])] = Inr ls
    \<and> agg_loss (concat (map fst [([[1, 2 :: real]], [[1, 1 :: real]]), ([[5, 7]], [[1, 0]])]))
        (concat (map snd [([[1, 2 :: real]], [[1, 1 :: real]]), ([[5, 7]], [[1, 0]])])) ''token-mean''
        (\<lparr>dp_size = 1, batch_num_tokens = Some 3, global_batch_size = Some 2, loss_scale_factor = Some 1\<rparr>
          \<lparr>dp_size := 1\<rparr>) = Inr (mean ls)"
  by (rule agg_loss_sharding_invariant[where N = 3 and B = 2 and S = 1]) (simp_all add: agg_modes_def)

end
