(* ===== verification/Distillation_Loss.thy ===== *)
theory Distillation_Loss
  imports Policy_Losses
begin

text \<open>
  \<open>verl/verl/trainer/distillation/losses.py\<close>: the per-token distillation losses, their clamps, the
  ExOPD and AD-ExOPD advantages, the sample and token weights (DAD, TSKL, evidence gate, cue gate)
  and the combination with the task loss.  The tensors are the padded response matrices the code
  gets from \<open>no_padding_2_padding\<close>; optional columns of the batch are options.  A weight vector that
  would be NaN (a standard deviation of a single sample) is \<open>None\<close>.
\<close>

section \<open>Configuration and batch\<close>

record distill_loss_config =
  loss_mode :: string
  use_task_rewards :: bool
  distillation_loss_coef :: real
  loss_max_clamp :: "real option"
  token_kl_clip :: "real option"
  use_policy_gradient :: bool
  policy_loss_mode :: string
  exopd_enabled :: bool
  exopd_lambda :: real
  exopd_axis_decomposed :: bool
  exopd_lambda_temporal :: real
  exopd_lambda_capacity :: real
  temporal_selective_kl :: bool
  contrastive_gate_enabled :: bool
  cue_gate_enabled :: bool
  difficulty_adaptive_enabled :: bool
  difficulty_alpha :: real
  difficulty_weight_min :: real
  difficulty_weight_max :: real
  difficulty_norm_mode :: string
  pg_config :: actor_config

text \<open>A weight per sample or per token.\<close>

datatype weight = SampleWeight "real list" | TokenWeight mat

record distill_data =
  student_lp :: mat
  old_lps :: mat
  response_mask :: mat
  teacher_lp :: mat
  base_lp :: "mat option"
  base_dense_lp :: "mat option"
  temporal_weight :: "weight option"
  evidence_gate :: "weight option"
  cue_gate :: "weight option"
  rollout_weights :: "mat option"
  topk_losses :: mat

section \<open>Registered losses\<close>

datatype loss_settings = UseTopk | UseEstimator

definition DISTILLATION_SETTINGS_REGISTRY :: "string \<rightharpoonup> loss_settings" where
  "DISTILLATION_SETTINGS_REGISTRY name =
     (if name = ''forward_kl_topk'' then Some UseTopk
      else if name \<in> set kl_names then Some UseEstimator else None)"

definition get_distillation_loss_settings :: "string \<Rightarrow> loss_settings res" where
  "get_distillation_loss_settings name =
     (case DISTILLATION_SETTINGS_REGISTRY name of None \<Rightarrow> Inl ValueError | Some s \<Rightarrow> Inr s)"

text \<open>The value of \<open>kl_penalty\<close> on every token.\<close>

definition kl_matrix :: "mat \<Rightarrow> mat \<Rightarrow> string \<Rightarrow> mat res" where
  "kl_matrix lp ref name =
     map_res (map_res (\<lambda>(x, y). bind_res (kl_penalty (x, 1) (y, 0) name) (\<lambda>d. Inr (fst d))))
       (map2 zip lp ref)"

definition front_positions :: "real list \<Rightarrow> nat list \<times> nat list" where
  "front_positions valid_row =
     (let cols = filter (\<lambda>c. valid_row ! c \<noteq> 0) [0..<length valid_row]; mid = length cols div 2
      in (take mid cols, drop mid cols))"

record gap_metrics =
  ts_logprob_gap :: "real option"
  ts_gap_front50 :: "real option"
  ts_gap_back50 :: "real option"

definition pick :: "mat \<Rightarrow> nat list list \<Rightarrow> real list" where
  "pick t cols = concat (map2 (\<lambda>row cs. map (\<lambda>c. row ! c) cs) t cols)"

definition mean_option :: "real list \<Rightarrow> real option" where
  "mean_option xs = (if xs = [] then None else Some (mean xs))"

definition gap_report :: "mat \<Rightarrow> mat \<Rightarrow> mat \<Rightarrow> gap_metrics" where
  "gap_report teacher student rmask =
     (let gap = mzip (-) teacher student;
          fronts = map (\<lambda>r. fst (front_positions r)) rmask;
          backs = map (\<lambda>r. snd (front_positions r)) rmask
      in \<lparr>ts_logprob_gap = mean_option (masked_select gap rmask),
          ts_gap_front50 = mean_option (pick gap fronts),
          ts_gap_back50 = mean_option (pick gap backs)\<rparr>)"

definition compute_forward_kl_topk :: "distill_data \<Rightarrow> mat res" where
  "compute_forward_kl_topk data =
     require (same_shape (topk_losses data) (response_mask data)) AssertionError
       (Inr (mmap (\<lambda>x. max x 0) (topk_losses data)))"

definition compute_distillation_loss_reverse_kl_estimator ::
  "string \<Rightarrow> distill_data \<Rightarrow> (mat \<times> gap_metrics) res" where
  "compute_distillation_loss_reverse_kl_estimator mode data =
     require (same_shape (teacher_lp data) (student_lp data) \<and> same_shape (student_lp data) (response_mask data))
       AssertionError (
     bind_res (kl_matrix (student_lp data) (teacher_lp data) mode) (\<lambda>losses.
     Inr (losses, gap_report (teacher_lp data) (student_lp data) (response_mask data))))"

definition token_losses :: "string \<Rightarrow> distill_data \<Rightarrow> mat res" where
  "token_losses mode data =
     bind_res (get_distillation_loss_settings mode) (\<lambda>s.
     case s of
       UseTopk \<Rightarrow> compute_forward_kl_topk data
     | UseEstimator \<Rightarrow> bind_res (compute_distillation_loss_reverse_kl_estimator mode data) (\<lambda>r. Inr (fst r)))"

definition compute_distillation_loss_range :: "mat \<Rightarrow> mat \<Rightarrow> (real \<times> real) res" where
  "compute_distillation_loss_range losses rmask =
     (let xs = masked_select losses rmask in
      require (xs \<noteq> []) RuntimeError (Inr (Min (set xs), Max (set xs))))"

section \<open>Clamps\<close>

definition symmetric_clamp :: "real option \<Rightarrow> mat \<Rightarrow> mat" where
  "symmetric_clamp c losses = (case c of None \<Rightarrow> losses | Some k \<Rightarrow> mmap (clamp (- k) k) losses)"

definition clip_losses :: "distill_loss_config \<Rightarrow> mat \<Rightarrow> mat" where
  "clip_losses cfg losses = symmetric_clamp (token_kl_clip cfg) (symmetric_clamp (loss_max_clamp cfg) losses)"

definition kl_clip_frac :: "distill_loss_config \<Rightarrow> mat \<Rightarrow> mat \<Rightarrow> real option" where
  "kl_clip_frac cfg losses rmask =
     (case token_kl_clip cfg of
        None \<Rightarrow> None
      | Some k \<Rightarrow>
          (let pre_clip = map abs (masked_select (symmetric_clamp (loss_max_clamp cfg) losses) rmask) in
           Some (if pre_clip = [] then 0 else mean (map (\<lambda>x. if k < x then 1 else 0) pre_clip))))"

section \<open>Advantages\<close>

definition exopd_token :: "real \<Rightarrow> real \<Rightarrow> real \<Rightarrow> real \<Rightarrow> real" where
  "exopd_token lam old base teacher =
     (if lam = 1 then - (old - teacher) else - ((old - base) - (teacher - base) * lam))"

definition ad_exopd_token :: "real \<Rightarrow> real \<Rightarrow> real \<Rightarrow> real \<Rightarrow> real \<Rightarrow> real \<Rightarrow> real" where
  "ad_exopd_token lt lc old base base_dense teacher =
     - ((old - base) - lt * (base_dense - base) - lc * (teacher - base_dense))"

definition mzip4 :: "(real \<Rightarrow> real \<Rightarrow> real \<Rightarrow> real \<Rightarrow> real) \<Rightarrow> mat \<Rightarrow> mat \<Rightarrow> mat \<Rightarrow> mat \<Rightarrow> mat" where
  "mzip4 f a b c d =
     map2 (\<lambda>r (s, t, u). map2 (\<lambda>x (y, z, w). f x y z w) r (zip s (zip t u))) a (zip b (zip c d))"

definition base_advantages :: "distill_loss_config \<Rightarrow> distill_data \<Rightarrow> mat \<Rightarrow> mat" where
  "base_advantages cfg data losses =
     (case (exopd_enabled cfg, base_lp data) of
        (True, Some base) \<Rightarrow>
          (case (exopd_axis_decomposed cfg, base_dense_lp data) of
             (True, Some dense) \<Rightarrow>
               mzip4 (ad_exopd_token (exopd_lambda_temporal cfg) (exopd_lambda_capacity cfg))
                 (old_lps data) base dense (teacher_lp data)
           | _ \<Rightarrow> mzip3 (exopd_token (exopd_lambda cfg)) (old_lps data) base (teacher_lp data))
      | _ \<Rightarrow> mmap uminus losses)"

text \<open>\<open>torch.median\<close> takes the lower of two middle elements.\<close>

definition median :: "real list \<Rightarrow> real" where
  "median xs = sort xs ! ((length xs - 1) div 2)"

definition sample_std :: "real list \<Rightarrow> real" where
  "sample_std xs = sqrt (sum_list (map (\<lambda>x. (x - mean xs)\<^sup>2) xs) / (real (length xs) - 1))"

definition difficulty_scores :: "mat \<Rightarrow> mat \<Rightarrow> real list" where
  "difficulty_scores losses rmask =
     map2 (\<lambda>s m. s / (sum_list m + mask_eps)) (row_dots (mmap abs losses) rmask) rmask"

definition difficulty_z :: "string \<Rightarrow> real list \<Rightarrow> real list option" where
  "difficulty_z norm_mode ds =
     (if norm_mode = ''robust'' then
        (let med = median ds; mad = median (map (\<lambda>d. \<bar>d - med\<bar>) ds) in
         Some (map (\<lambda>d. (d - med) / (1.4826 * mad + mask_eps)) ds))
      else if length ds \<le> 1 then None
      else Some (map (\<lambda>d. (d - mean ds) / (sample_std ds + mask_eps)) ds))"

definition dad_weights :: "distill_loss_config \<Rightarrow> mat \<Rightarrow> mat \<Rightarrow> real list option" where
  "dad_weights cfg losses rmask =
     (case difficulty_z (difficulty_norm_mode cfg) (difficulty_scores losses rmask) of
        None \<Rightarrow> None
      | Some z \<Rightarrow>
          (let w = map (\<lambda>x. exp (difficulty_alpha cfg * x)) z;
               w2 = map (\<lambda>x. x / (mean w + mask_eps)) w
           in Some (map (clamp (difficulty_weight_min cfg) (difficulty_weight_max cfg)) w2)))"

definition apply_weight :: "weight \<Rightarrow> mat \<Rightarrow> mat" where
  "apply_weight w adv =
     (case w of SampleWeight v \<Rightarrow> scale_rows v adv | TokenWeight t \<Rightarrow> mzip (*) adv t)"

definition gated :: "bool \<Rightarrow> weight option \<Rightarrow> mat \<Rightarrow> mat" where
  "gated enabled w adv = (case w of None \<Rightarrow> adv | Some v \<Rightarrow> if enabled then apply_weight v adv else adv)"

definition distillation_advantages :: "distill_loss_config \<Rightarrow> distill_data \<Rightarrow> mat \<Rightarrow> mat option" where
  "distillation_advantages cfg data losses =
     (let adv0 = base_advantages cfg data losses;
          adv1 = (if difficulty_adaptive_enabled cfg \<and> difficulty_alpha cfg \<noteq> 0
                  then map_option (\<lambda>w. scale_rows w adv0) (dad_weights cfg losses (response_mask data))
                  else Some adv0)
      in map_option (\<lambda>adv. gated (cue_gate_enabled cfg) (cue_gate data)
           (gated (contrastive_gate_enabled cfg) (evidence_gate data)
             (gated (temporal_selective_kl cfg) (temporal_weight data) adv))) adv1)"

section \<open>The loss\<close>

text \<open>The result is \<open>Inr None\<close> when the advantages are NaN.\<close>

definition distillation_loss ::
  "(string \<rightharpoonup> policy_loss_fn) \<Rightarrow> string \<Rightarrow> batch_info \<Rightarrow> distill_loss_config \<Rightarrow> distill_data \<Rightarrow> real option res" where
  "distillation_loss rest loss_agg_mode info cfg data =
     bind_res (token_losses (loss_mode cfg) data) (\<lambda>losses0.
     bind_res (compute_distillation_loss_range losses0 (response_mask data)) (\<lambda>_.
     let losses = clip_losses cfg losses0 in
     if use_policy_gradient cfg then
       bind_res (get_policy_loss_fn rest (policy_loss_mode cfg)) (\<lambda>fn.
       case distillation_advantages cfg data losses of
         None \<Rightarrow> Inr None
       | Some adv \<Rightarrow>
           bind_res (fn loss_agg_mode ((pg_config cfg)\<lparr>global_batch_info := info\<rparr>)
              \<lparr>old_lp = old_lps data, cur_lp = student_lp data, adv_mat = adv, resp_mask = response_mask data,
               is_weights = rollout_weights data\<rparr>) (\<lambda>r. Inr (Some (fst r))))
     else bind_res (agg_loss losses (response_mask data) loss_agg_mode info) (\<lambda>l. Inr (Some l))))"

definition combine_losses :: "distill_loss_config \<Rightarrow> real \<Rightarrow> real \<Rightarrow> real" where
  "combine_losses cfg policy_loss distill_loss =
     (let p = (if use_task_rewards cfg then policy_loss else 0);
          coef = (if use_task_rewards cfg then distillation_loss_coef cfg else 1)
      in p + distill_loss * coef)"

text \<open>\<open>ppo\<close> is the result of \<open>ppo_loss\<close> on the same batch.\<close>

definition distillation_ppo_loss ::
  "(string \<rightharpoonup> policy_loss_fn) \<Rightarrow> string \<Rightarrow> batch_info \<Rightarrow> distill_loss_config \<Rightarrow> distill_data \<Rightarrow> real res
    \<Rightarrow> real option res" where
  "distillation_ppo_loss rest loss_agg_mode info cfg data ppo =
     bind_res (distillation_loss rest loss_agg_mode info cfg data) (\<lambda>d.
     bind_res ppo (\<lambda>policy_loss. Inr (map_option (combine_losses cfg policy_loss) d)))"


section \<open>ExOPD\<close>

lemma row4_drop:
  assumes "length r = length s" "length s = length t" "length t = length u"
    and "\<And>x y z w. f x y z w = g x y w"
  shows "map2 (\<lambda>x (y, z, w). f x y z w) r (zip s (zip t u)) = map2 (\<lambda>x (y, w). g x y w) r (zip s u)"
  using assms(1-3) by (induction r s t u rule: list_induct4) (auto simp: assms(4))

lemma mzip4_drop:
  assumes "same_shape a b" "same_shape b c" "same_shape c d"
    and fg: "\<And>x y z w. f x y z w = g x y w"
  shows "mzip4 f a b c d = mzip3 g a b d"
  using assms(1-3)
proof (induction a arbitrary: b c d)
  case (Cons r a)
  then obtain s b' t c' u d' where [simp]: "b = s # b'" "c = t # c'" "d = u # d'"
    by (cases b; cases c; cases d) auto
  show ?case
    using Cons.IH[of b' c' d'] Cons.prems row4_drop[OF _ _ _ fg, of r s t u]
    by (simp add: mzip4_def mzip3_def)
qed (simp add: mzip4_def mzip3_def)

lemma ad_exopd_equal_lambdas: "ad_exopd_token lam lam old base dense teacher = exopd_token lam old base teacher"
  by (simp add: ad_exopd_token_def exopd_token_def algebra_simps)

text \<open>
  The axis-decomposed advantage is a conservative extension: with equal coefficients on the
  temporal and the capacity axis the dense reference cancels and the advantages are those of ExOPD
  with that coefficient, the special case \<open>lambda = 1\<close> included.
\<close>

theorem ad_exopd_degenerates:
  assumes "exopd_lambda_temporal cfg = exopd_lambda cfg" "exopd_lambda_capacity cfg = exopd_lambda cfg"
    and "base_lp data = Some base" "base_dense_lp data = Some dense"
    and "same_shape (old_lps data) base" "same_shape base dense" "same_shape dense (teacher_lp data)"
  shows "base_advantages cfg data losses = base_advantages (cfg\<lparr>exopd_axis_decomposed := False\<rparr>) data losses"
proof -
  have "mzip4 (ad_exopd_token (exopd_lambda_temporal cfg) (exopd_lambda_capacity cfg)) (old_lps data) base dense (teacher_lp data)
      = mzip3 (exopd_token (exopd_lambda cfg)) (old_lps data) base (teacher_lp data)"
    by (rule mzip4_drop[OF assms(5-7)]) (simp add: assms(1,2) ad_exopd_equal_lambdas)
  then show ?thesis
    using assms(3,4) by (simp add: base_advantages_def split: bool.splits)
qed

text \<open>
  ExOPD does not see the clamps: once a base model scores the batch and difficulty weighting is
  off, \<open>loss_max_clamp\<close> and \<open>token_kl_clip\<close> have no influence on the policy-gradient loss, although the
  configuration says every token's divergence is capped before it is used as a reward.
\<close>

theorem exopd_ignores_clamps:
  assumes "use_policy_gradient cfg" "exopd_enabled cfg" "base_lp data = Some base"
    and "\<not> difficulty_adaptive_enabled cfg"
  shows "distillation_loss rest mode info (cfg\<lparr>loss_max_clamp := c, token_kl_clip := k\<rparr>) data
    = distillation_loss rest mode info cfg data"
proof -
  let ?cfg = "cfg\<lparr>loss_max_clamp := c, token_kl_clip := k\<rparr>"
  define A where "A = base_advantages cfg data []"
  have "base_advantages ?cfg data l = A" "base_advantages cfg data l = A" for l
    using assms(2,3) by (simp_all add: A_def base_advantages_def split: bool.splits option.splits)
  moreover define B where "B = distillation_advantages cfg data []"
  ultimately have "distillation_advantages ?cfg data l = B" "distillation_advantages cfg data l = B" for l
    using assms(4) by (simp_all add: B_def distillation_advantages_def Let_def)
  moreover have pg: "pg_config ?cfg = pg_config cfg" by simp
  ultimately show ?thesis
    using assms(1) unfolding distillation_loss_def pg by (simp add: Let_def)
qed

text \<open>A configuration and a batch of one token, for examples.\<close>

definition example_config :: distill_loss_config where
  "example_config =
     \<lparr>loss_mode = ''k1'', use_task_rewards = False, distillation_loss_coef = 1, loss_max_clamp = Some 10,
      token_kl_clip = None, use_policy_gradient = True, policy_loss_mode = ''vanilla'', exopd_enabled = True,
      exopd_lambda = 1, exopd_axis_decomposed = True, exopd_lambda_temporal = 1, exopd_lambda_capacity = 1,
      temporal_selective_kl = False, contrastive_gate_enabled = False, cue_gate_enabled = False,
      difficulty_adaptive_enabled = False, difficulty_alpha = 1, difficulty_weight_min = 0.2,
      difficulty_weight_max = 3, difficulty_norm_mode = ''zscore'',
      pg_config = \<lparr>clip_ratio = 0.2, clip_ratio_low = None, clip_ratio_high = None, clip_ratio_c = None,
        tau_pos = 1, tau_neg = 1, global_batch_info = no_batch_info\<rparr>\<rparr>"

definition example_data :: distill_data where
  "example_data =
     \<lparr>student_lp = [[- 1]], old_lps = [[- 1]], response_mask = [[1]], teacher_lp = [[- 31]],
      base_lp = Some [[- 2]], base_dense_lp = Some [[- 3]], temporal_weight = None, evidence_gate = None,
      cue_gate = None, rollout_weights = None, topk_losses = [[0]]\<rparr>"

theorem ad_exopd_degenerates_witness:
  "base_advantages example_config example_data [[30]]
    = base_advantages (example_config\<lparr>exopd_axis_decomposed := False\<rparr>) example_data [[30]]"
  by (rule ad_exopd_degenerates[of _ _ "[[- 2]]" "[[- 3]]"]) (simp_all add: example_config_def example_data_def)

theorem exopd_ignores_clamps_witness:
  "distillation_loss Map.empty ''token-mean'' no_batch_info (example_config\<lparr>loss_max_clamp := None, token_kl_clip := Some 0.1\<rparr>)
      example_data
    = distillation_loss Map.empty ''token-mean'' no_batch_info example_config example_data"
  by (rule exopd_ignores_clamps[of _ _ "[[- 2]]"]) (simp_all add: example_config_def example_data_def)

section \<open>Clamps and ranges\<close>

lemma symmetric_clamp_entries:
  "x \<in> set (concat (mmap (clamp (- k) k) t)) \<Longrightarrow> 0 \<le> k \<Longrightarrow> \<bar>x\<bar> \<le> k"
  by (auto simp: mmap_def clamp_def)

text \<open>
  After the clamps every distillation loss is at most both caps in magnitude, keeps its sign,
  and only its magnitude above the smaller cap is lost.
\<close>

theorem clip_losses_bounded:
  assumes "loss_max_clamp cfg = Some c" "token_kl_clip cfg = Some k" "0 \<le> c" "0 \<le> k"
  shows "clip_losses cfg losses = mmap (\<lambda>x. sgn x * min \<bar>x\<bar> (min c k)) losses"
proof -
  have "clamp (- k) k (clamp (- c) c x) = sgn x * min \<bar>x\<bar> (min c k)" for x
    using assms(3,4) by (cases "0 < x"; cases "x = 0") (auto simp: clamp_def min_def max_def sgn_real_def)
  then show ?thesis
    using assms(1,2) by (simp add: clip_losses_def symmetric_clamp_def mmap_def comp_def)
qed

theorem clip_losses_bounded_witness:
  "clip_losses (example_config\<lparr>token_kl_clip := Some 0.5\<rparr>) [[30, - 0.25]]
    = mmap (\<lambda>x. sgn x * min \<bar>x\<bar> (min 10 0.5)) [[30, - 0.25]]"
  by (rule clip_losses_bounded) (simp_all add: example_config_def)

text \<open>
  A micro-batch without a valid response token ends in an error: the range metric takes the
  minimum of an empty selection before any branch that guards against it.
\<close>

theorem distillation_loss_all_masked:
  assumes "\<forall>m \<in> set (response_mask data). \<forall>b \<in> set m. b = 0" "token_losses (loss_mode cfg) data = Inr losses"
  shows "distillation_loss rest mode info cfg data = Inl RuntimeError"
proof -
  have "masked_select losses (response_mask data) = []"
    by (rule masked_select_all_masked[OF assms(1)])
  then show ?thesis
    by (simp add: distillation_loss_def assms(2) compute_distillation_loss_range_def)
qed

lemma kl_penalty_k1 [dual_simps]: "kl_penalty (x, 1) (y, 0) ''k1'' = Inr (x - y, 1)"
  by (simp add: kl_penalty_plain ends_with_plus_def kl_penalty_forward_def dual_simps)

lemma settings_k1: "get_distillation_loss_settings ''k1'' = Inr UseEstimator"
  by (simp add: get_distillation_loss_settings_def DISTILLATION_SETTINGS_REGISTRY_def kl_names_def)

lemma example_token_losses:
  "token_losses ''k1'' (example_data\<lparr>response_mask := [[b]]\<rparr>) = Inr [[30]]"
  by (simp add: token_losses_def settings_k1 example_data_def
      compute_distillation_loss_reverse_kl_estimator_def kl_matrix_def kl_penalty_k1)

theorem distillation_loss_all_masked_witness:
  "distillation_loss Map.empty ''token-mean'' no_batch_info example_config (example_data\<lparr>response_mask := [[0]]\<rparr>)
    = Inl RuntimeError"
proof (rule distillation_loss_all_masked)
  show "token_losses (loss_mode example_config) (example_data\<lparr>response_mask := [[0]]\<rparr>) = Inr [[30]]"
    using example_token_losses[of 0] by (simp add: example_config_def)
qed simp

section \<open>ExOPD without extrapolation\<close>

lemma row3_drop:
  assumes "length r = length s" "length s = length t" "\<And>x y z. f x y z = g x z"
  shows "map2 (\<lambda>x (y, z). f x y z) r (zip s t) = map2 g r t"
  using assms(1,2) by (induction r s t rule: list_induct3) (auto simp: assms(3))

lemma mzip3_drop:
  assumes "same_shape a b" "same_shape b c" and fg: "\<And>x y z. f x y z = g x z"
  shows "mzip3 f a b c = mzip g a c"
  using assms(1,2)
proof (induction a arbitrary: b c)
  case (Cons r a)
  then obtain s b' t c' where [simp]: "b = s # b'" "c = t # c'" by (cases b; cases c) auto
  show ?case
    using Cons.IH[of b' c'] Cons.prems row3_drop[OF _ _ fg, of r s t]
    by (simp add: mzip3_def mzip_def)
qed (simp add: mzip3_def mzip_def)

lemma mmap_mzip: "mmap f (mzip g a b) = mzip (\<lambda>x y. f (g x y)) a b"
  by (simp add: mmap_def mzip_def comp_def case_prod_unfold)

lemma kl_matrix_k1: "kl_matrix lp ref ''k1'' = Inr (mzip (-) lp ref)"
proof -
  have row: "map_res (\<lambda>(x, y). bind_res (kl_penalty (x, 1) (y, 0) ''k1'') (\<lambda>d. Inr (fst d))) r
      = Inr (map (\<lambda>(x, y). x - y) r)" for r
    by (rule map_res_Inr) (auto simp: kl_penalty_k1)
  have "kl_matrix lp ref ''k1'' = Inr (map (map (\<lambda>(x, y). x - y)) (map2 zip lp ref))"
    unfolding kl_matrix_def by (rule map_res_Inr) (rule row)
  then show ?thesis by (simp add: mzip_def comp_def case_prod_unfold)
qed

text \<open>
  Without extrapolation, \<open>lambda = 1\<close>, ExOPD is standard on-policy distillation: on policy its
  advantages are the negated \<open>k1\<close> losses before clamping, whatever the base model says.
\<close>

theorem exopd_one_is_standard:
  assumes "exopd_lambda cfg = 1" "\<not> exopd_axis_decomposed cfg" "loss_mode cfg = ''k1''"
    and "student_lp data = old_lps data" "base_lp data = Some base"
    and "same_shape (old_lps data) base" "same_shape base (teacher_lp data)"
    and "token_losses (loss_mode cfg) data = Inr losses"
  shows "base_advantages (cfg\<lparr>exopd_enabled := True\<rparr>) data any = base_advantages (cfg\<lparr>exopd_enabled := False\<rparr>) data losses"
proof -
  have "losses = mzip (-) (student_lp data) (teacher_lp data)"
    using assms(3,8) by (auto simp: token_losses_def settings_k1 compute_distillation_loss_reverse_kl_estimator_def
        kl_matrix_k1 bind_res_eq_Inr)
  then have "base_advantages (cfg\<lparr>exopd_enabled := False\<rparr>) data losses
      = mzip (\<lambda>o' t. - (o' - t)) (old_lps data) (teacher_lp data)"
    by (simp add: base_advantages_def mmap_mzip assms(4))
  moreover have "mzip3 (exopd_token 1) (old_lps data) base (teacher_lp data)
      = mzip (\<lambda>o' t. - (o' - t)) (old_lps data) (teacher_lp data)"
    by (rule mzip3_drop[OF assms(6,7)]) (simp add: exopd_token_def)
  ultimately show ?thesis
    using assms(1,2,5) by (simp add: base_advantages_def)
qed

theorem exopd_one_is_standard_witness:
  "base_advantages (example_config\<lparr>exopd_axis_decomposed := False, exopd_enabled := True\<rparr>)
      (example_data\<lparr>response_mask := [[1]]\<rparr>) []
    = base_advantages (example_config\<lparr>exopd_axis_decomposed := False, exopd_enabled := False\<rparr>)
      (example_data\<lparr>response_mask := [[1]]\<rparr>) [[30]]"
proof -
  have "token_losses (loss_mode example_config) (example_data\<lparr>response_mask := [[1]]\<rparr>) = Inr [[30]]"
    using example_token_losses[of 1] by (simp add: example_config_def)
  then show ?thesis
    using exopd_one_is_standard[of "example_config\<lparr>exopd_axis_decomposed := False\<rparr>"
        "example_data\<lparr>response_mask := [[1]]\<rparr>" "[[- 2]]" "[[30]]" "[]"]
    by (simp add: example_config_def example_data_def)
qed

section \<open>Difficulty weights\<close>

lemma median_mem: "xs \<noteq> [] \<Longrightarrow> median xs \<in> set xs"
proof -
  assume "xs \<noteq> []"
  then have "(length xs - 1) div 2 < length (sort xs)" by (cases xs) auto
  from nth_mem[OF this] show ?thesis by (simp add: median_def)
qed

lemma sample_std_nonneg [simp]: "1 < length xs \<Longrightarrow> 0 \<le> sample_std xs"
  unfolding sample_std_def by (intro real_sqrt_ge_zero divide_nonneg_nonneg sum_list_nonneg) auto

lemma difficulty_z_affine:
  assumes "difficulty_z norm_mode ds = Some z" "ds \<noteq> []"
  obtains c d where "0 < d" "z = map (\<lambda>x. (x - c) / d) ds"
proof (cases "norm_mode = ''robust''")
  case True
  let ?mad = "median (map (\<lambda>d. \<bar>d - median ds\<bar>) ds)"
  have "?mad \<in> set (map (\<lambda>d. \<bar>d - median ds\<bar>) ds)" by (rule median_mem) (simp add: assms(2))
  then have "0 \<le> ?mad" by auto
  then have "0 < 1.4826 * ?mad + mask_eps" by (intro add_nonneg_pos) auto
  then show thesis
    using assms(1) True by (intro that[of "1.4826 * ?mad + mask_eps" "median ds"]) (auto simp: difficulty_z_def Let_def)
next
  case False
  then have len: "1 < length ds" and z: "z = map (\<lambda>d. (d - mean ds) / (sample_std ds + mask_eps)) ds"
    using assms(1) by (auto simp: difficulty_z_def split: if_splits)
  have "0 < sample_std ds + mask_eps" using len by (intro add_nonneg_pos) auto
  then show thesis using z by (rule that)
qed

lemma clamp_mono: "x \<le> y \<Longrightarrow> clamp lo hi x \<le> clamp lo hi y"
  unfolding clamp_def by (intro min.mono max.mono order_refl)

text \<open>
  Difficulty weights stay inside their bounds and follow the difficulty: for a non-negative
  \<open>difficulty_alpha\<close> a sample whose mean divergence is larger never gets the smaller weight, with
  either normalisation.
\<close>

theorem dad_weights_monotone:
  assumes "dad_weights cfg losses rmask = Some w" "0 \<le> difficulty_alpha cfg"
    and "difficulty_weight_min cfg \<le> difficulty_weight_max cfg"
    and "i < length w" "j < length w"
    and "difficulty_scores losses rmask ! i \<le> difficulty_scores losses rmask ! j"
  shows "difficulty_weight_min cfg \<le> w ! i \<and> w ! i \<le> w ! j \<and> w ! j \<le> difficulty_weight_max cfg"
proof -
  let ?ds = "difficulty_scores losses rmask"
  obtain z where z: "difficulty_z (difficulty_norm_mode cfg) ?ds = Some z"
    using assms(1) by (auto simp: dad_weights_def split: option.splits)
  define e where "e = map (\<lambda>x. exp (difficulty_alpha cfg * x)) z"
  have w: "w = map (clamp (difficulty_weight_min cfg) (difficulty_weight_max cfg)) (map (\<lambda>x. x / (mean e + mask_eps)) e)"
    using assms(1) z by (simp add: dad_weights_def e_def Let_def comp_assoc)
  have lenz: "length z = length ?ds"
    using z by (auto simp: difficulty_z_def Let_def split: if_splits)
  then have ne: "?ds \<noteq> []" using assms(4) w by (auto simp: e_def)
  obtain c d where cd: "0 < d" "z = map (\<lambda>x. (x - c) / d) ?ds"
    by (rule difficulty_z_affine[OF z ne])
  have ij: "i < length ?ds" "j < length ?ds" using assms(4,5) lenz by (auto simp: w e_def)
  have "z ! i \<le> z ! j" using cd ij assms(6) by (simp add: divide_right_mono)
  then have "e ! i \<le> e ! j"
    using ij lenz assms(2) by (simp add: e_def mult_left_mono)
  moreover have "0 < mean e + mask_eps"
    by (intro add_nonneg_pos mean_nonneg) (auto simp: e_def)
  ultimately have "e ! i / (mean e + mask_eps) \<le> e ! j / (mean e + mask_eps)"
    by (intro divide_right_mono) auto
  moreover have "length e = length ?ds" using lenz by (simp add: e_def)
  ultimately show ?thesis
    using ij assms(3) by (simp add: w clamp_mono) (auto simp: clamp_def)
qed

theorem dad_weights_monotone_witness:
  "\<exists>w. dad_weights (example_config\<lparr>difficulty_norm_mode := ''robust''\<rparr>) [[1], [2]] [[1], [1]] = Some w
    \<and> w ! 0 \<le> w ! 1"
proof -
  let ?cfg = "example_config\<lparr>difficulty_norm_mode := ''robust''\<rparr>"
  obtain w where w: "dad_weights ?cfg [[1], [2]] [[1], [1]] = Some w"
    by (simp add: dad_weights_def difficulty_z_def Let_def)
  then have len: "length w = 2"
    by (auto simp: dad_weights_def difficulty_z_def Let_def difficulty_scores_def row_dots_def mmap_def)
  have "w ! 0 \<le> w ! 1"
    by (rule dad_weights_monotone[OF w, THEN conjunct2, THEN conjunct1])
      (simp_all add: len example_config_def difficulty_scores_def row_dots_def mmap_def divide_right_mono mask_eps_def)
  then show ?thesis using w by blast
qed

text \<open>
  With the default normalisation a micro-batch of one sample has no difficulty weight: the
  unbiased standard deviation of a single value is NaN, so the loss is NaN, where a neutral weight
  would leave the sample alone.
\<close>

theorem dad_single_sample_nan:
  assumes "use_policy_gradient cfg" "difficulty_adaptive_enabled cfg" "difficulty_alpha cfg \<noteq> 0"
    and "difficulty_norm_mode cfg = ''zscore''" "length (response_mask data) = 1" "policy_loss_mode cfg = ''vanilla''"
    and "token_losses (loss_mode cfg) data = Inr losses"
    and "compute_distillation_loss_range losses (response_mask data) = Inr r"
  shows "distillation_loss rest mode info cfg data = Inr None"
proof -
  have "length (difficulty_scores l (response_mask data)) \<le> 1" for l
    using assms(5) by (simp add: difficulty_scores_def)
  then have "dad_weights cfg l (response_mask data) = None" for l
    using assms(4) by (simp add: dad_weights_def difficulty_z_def)
  then have "distillation_advantages cfg data l = None" for l
    using assms(2,3) by (simp add: distillation_advantages_def Let_def)
  then show ?thesis
    using assms(1,6-8)
    by (simp add: distillation_loss_def Let_def get_policy_loss_fn_def POLICY_LOSS_REGISTRY_def)
qed

theorem dad_single_sample_nan_witness:
  "distillation_loss Map.empty ''token-mean'' no_batch_info (example_config\<lparr>difficulty_adaptive_enabled := True\<rparr>)
     (example_data\<lparr>response_mask := [[1]]\<rparr>) = Inr None"
proof (rule dad_single_sample_nan)
  show "token_losses (loss_mode (example_config\<lparr>difficulty_adaptive_enabled := True\<rparr>))
      (example_data\<lparr>response_mask := [[1]]\<rparr>) = Inr [[30]]"
    using example_token_losses[of 1] by (simp add: example_config_def)
  show "compute_distillation_loss_range [[30]] (response_mask (example_data\<lparr>response_mask := [[1]]\<rparr>)) = Inr (30, 30)"
    by (simp add: compute_distillation_loss_range_def masked_select_def)
qed (simp_all add: example_config_def)

section \<open>Neutral gates\<close>

text \<open>A weight of ones over the rows of a matrix.\<close>

definition neutral_weight :: "weight \<Rightarrow> mat \<Rightarrow> bool" where
  "neutral_weight w t =
     (case w of
        SampleWeight v \<Rightarrow> length v = length t \<and> list_all (\<lambda>x. x = 1) v
      | TokenWeight m \<Rightarrow> same_shape m t \<and> list_all (list_all (\<lambda>x. x = 1)) m)"

lemma scale_rows_ones: "length v = length t \<Longrightarrow> list_all (\<lambda>x. x = 1) v \<Longrightarrow> scale_rows v t = t"
  by (induction v t rule: list_induct2) (auto simp: scale_rows_def map_idI)

lemma mzip_ones: "same_shape m t \<Longrightarrow> list_all (list_all (\<lambda>x. x = 1)) m \<Longrightarrow> mzip (*) t m = t"
proof (induction t arbitrary: m)
  case (Cons r t)
  then obtain q m' where m: "m = q # m'" "length q = length r" "list_all (\<lambda>x. x = 1) q" by (cases m) auto
  have "map2 (*) r q = r" using m(2,3) by (induction q r rule: list_induct2) auto
  then show ?case using Cons m(1) by (simp add: mzip_def)
qed (simp add: mzip_def)

lemma apply_neutral: "neutral_weight w t \<Longrightarrow> apply_weight w t = t"
  by (cases w) (simp_all add: neutral_weight_def apply_weight_def scale_rows_ones mzip_ones)

lemma gated_neutral:
  "\<not> on \<or> w = None \<or> (\<exists>v. w = Some v \<and> neutral_weight v t) \<Longrightarrow> gated on w t = t"
  by (auto simp: gated_def apply_neutral split: option.splits)

lemma distillation_advantages_neutral:
  assumes "\<not> difficulty_adaptive_enabled cfg \<or> difficulty_alpha cfg = 0"
    and "\<And>on w. (on, w) \<in> {(temporal_selective_kl cfg, temporal_weight data),
        (contrastive_gate_enabled cfg, evidence_gate data), (cue_gate_enabled cfg, cue_gate data)} \<Longrightarrow>
      \<not> on \<or> w = None \<or> (\<exists>v. w = Some v \<and> neutral_weight v (base_advantages cfg data losses))"
  shows "distillation_advantages cfg data losses = Some (base_advantages cfg data losses)"
proof -
  let ?t = "base_advantages cfg data losses"
  have "gated (temporal_selective_kl cfg) (temporal_weight data) ?t = ?t"
    "gated (contrastive_gate_enabled cfg) (evidence_gate data) ?t = ?t"
    "gated (cue_gate_enabled cfg) (cue_gate data) ?t = ?t"
    by (rule gated_neutral, rule assms(2), simp)+
  then show ?thesis using assms(1) by (auto simp: distillation_advantages_def Let_def)
qed

section \<open>On-policy value of the policy-gradient loss\<close>

lemma same_shape_trans: "same_shape a b \<Longrightarrow> same_shape b c \<Longrightarrow> same_shape a c"
  by (simp add: same_shape_def)

lemma same_shape_sym: "same_shape a b \<Longrightarrow> same_shape b a"
  by (simp add: same_shape_def)

lemma same_shape_mmap [simp]: "same_shape (mmap f t) u \<longleftrightarrow> same_shape t u"
  by (simp add: same_shape_def mmap_def comp_def)

lemma map_res_shape:
  "map_res (map_res f) t = Inr u \<Longrightarrow> same_shape u t"
proof (induction t arbitrary: u)
  case (Cons r t)
  then show ?case by (auto simp: bind_res_eq_Inr dest: map_res_length)
qed simp

lemma map2_zip_shape: "same_shape a b \<Longrightarrow> same_shape (map2 zip a b) a"
proof (induction a arbitrary: b)
  case (Cons r a)
  then show ?case by (cases b) auto
qed simp

lemma kl_matrix_shape: "kl_matrix lp ref name = Inr t \<Longrightarrow> same_shape lp ref \<Longrightarrow> same_shape t lp"
  unfolding kl_matrix_def by (rule same_shape_trans[OF map_res_shape map2_zip_shape])

lemma token_losses_shape:
  assumes "token_losses mode data = Inr losses" "same_shape (student_lp data) (response_mask data)"
  shows "same_shape losses (student_lp data)"
proof -
  obtain st where st: "get_distillation_loss_settings mode = Inr st"
    using assms(1) by (auto simp: token_losses_def bind_res_eq_Inr)
  show ?thesis
  proof (cases st)
    case UseTopk
    then have "same_shape losses (response_mask data)"
      using assms(1) st by (auto simp: token_losses_def compute_forward_kl_topk_def)
    then show ?thesis using assms(2) by (rule same_shape_trans[OF _ same_shape_sym])
  next
    case UseEstimator
    then have "kl_matrix (student_lp data) (teacher_lp data) mode = Inr losses"
      "same_shape (teacher_lp data) (student_lp data)"
      using assms(1) st
      by (auto simp: token_losses_def compute_distillation_loss_reverse_kl_estimator_def bind_res_eq_Inr)
    then show ?thesis by (metis kl_matrix_shape same_shape_sym)
  qed
qed

lemma symmetric_clamp_shape [simp]: "same_shape (symmetric_clamp c t) u \<longleftrightarrow> same_shape t u"
  by (simp add: symmetric_clamp_def split: option.splits)

lemma mmap_uminus_twice [simp]: "mmap uminus (mmap uminus t) = t"
  by (simp add: mmap_def comp_def)

text \<open>
  C9. On policy and without ExOPD or weights, using the distillation loss as a reward has the same
  value as minimising it directly: the PPO loss with advantage \<open>- loss\<close> is the aggregated clipped
  loss, so switching \<open>use_policy_gradient\<close> changes the gradient only.
\<close>

theorem policy_gradient_value_is_loss:
  assumes "student_lp data = old_lps data" "same_shape (student_lp data) (response_mask data)"
    and "\<not> exopd_enabled cfg" "\<not> difficulty_adaptive_enabled cfg" "\<not> temporal_selective_kl cfg"
    and "\<not> contrastive_gate_enabled cfg" "\<not> cue_gate_enabled cfg" "rollout_weights data = None"
    and "policy_loss_mode cfg = ''vanilla''" "clip_ratio_c (pg_config cfg) = None"
    and "0 \<le> low_of (pg_config cfg)" "0 \<le> high_of (pg_config cfg)"
  shows "distillation_loss rest mode info (cfg\<lparr>use_policy_gradient := True\<rparr>) data
    = distillation_loss rest mode info (cfg\<lparr>use_policy_gradient := False\<rparr>) data"
proof (cases "token_losses (loss_mode cfg) data")
  case (Inl e)
  then show ?thesis by (simp add: distillation_loss_def)
next
  case (Inr losses0)
  let ?losses = "clip_losses cfg losses0" and ?pg = "(pg_config cfg)\<lparr>global_batch_info := info\<rparr>"
  let ?b = "\<lparr>old_lp = old_lps data, cur_lp = student_lp data, adv_mat = mmap uminus ?losses,
    resp_mask = response_mask data, is_weights = rollout_weights data\<rparr>"
  have shape: "same_shape ?losses (old_lps data)"
    using token_losses_shape[OF Inr assms(2)] assms(1) by (simp add: clip_losses_def)
  have adv: "distillation_advantages (cfg\<lparr>use_policy_gradient := True\<rparr>) data ?losses = Some (mmap uminus ?losses)"
    using assms by (simp add: distillation_advantages_def base_advantages_def gated_def Let_def split: option.splits)
  have "low_of ?pg = low_of (pg_config cfg)" "high_of ?pg = high_of (pg_config cfg)"
    by (simp_all add: low_of_def high_of_def split: option.splits)
  then have "compute_policy_loss_vanilla mode ?pg ?b =
    bind_res (agg_loss (mmap uminus (adv_mat ?b)) (resp_mask ?b) mode (global_batch_info ?pg)) (\<lambda>loss.
      Inr (loss, \<lparr>pg_clipfrac = Some 0, ppo_kl = Some 0, pg_clipfrac_lower = Some 0\<rparr>))"
    using assms shape by (intro vanilla_on_policy_base) auto
  then have run: "compute_policy_loss_vanilla mode ?pg ?b =
    bind_res (agg_loss ?losses (response_mask data) mode info) (\<lambda>loss.
      Inr (loss, \<lparr>pg_clipfrac = Some 0, ppo_kl = Some 0, pg_clipfrac_lower = Some 0\<rparr>))"
    by simp
  have clip: "clip_losses (cfg\<lparr>use_policy_gradient := b\<rparr>) losses0 = ?losses" for b
    by (simp add: clip_losses_def)
  have pg: "pg_config (cfg\<lparr>use_policy_gradient := b\<rparr>) = pg_config cfg" for b by simp
  have "bind_res (compute_policy_loss_vanilla mode ?pg ?b) (\<lambda>r. Inr (Some (fst r)))
      = bind_res (agg_loss ?losses (response_mask data) mode info) (\<lambda>l. Inr (Some l))"
    unfolding run by (cases "agg_loss ?losses (response_mask data) mode info") simp_all
  then show ?thesis
    using Inr adv assms(9)
    by (cases "compute_distillation_loss_range losses0 (response_mask data)")
      (simp_all add: distillation_loss_def clip pg get_policy_loss_fn_def POLICY_LOSS_REGISTRY_def Let_def)
qed

theorem policy_gradient_value_is_loss_witness:
  "distillation_loss Map.empty ''token-mean'' no_batch_info
      (example_config\<lparr>exopd_enabled := False, use_policy_gradient := True\<rparr>) (example_data\<lparr>response_mask := [[1]]\<rparr>)
    = distillation_loss Map.empty ''token-mean'' no_batch_info
      (example_config\<lparr>exopd_enabled := False, use_policy_gradient := False\<rparr>) (example_data\<lparr>response_mask := [[1]]\<rparr>)"
  by (rule policy_gradient_value_is_loss)
    (simp_all add: example_config_def example_data_def low_of_def high_of_def)

end
