(* ===== verification/Distillation_Config.thy ===== *)
theory Distillation_Config
  imports Distillation_Loss
begin

text \<open>
  \<open>verl/verl/workers/config/distillation.py\<close>: the validation of the distillation configuration, the
  resolution of the teacher models and their share of the GPU pool.  A dictionary is an association
  list in insertion order.
\<close>

section \<open>Teachers\<close>

record inference_config =
  engine_name :: string
  tensor_parallel :: int
  data_parallel :: int
  pipeline_parallel :: int
  prompt_length :: int
  response_length :: int
  max_model_len :: "int option"
  vllm_max_logprobs :: "int option"

record teacher =
  teacher_key :: "string option"
  model_path :: "string option"
  inference :: inference_config
  num_replicas :: "int option"

definition per_replica_world_size :: "teacher \<Rightarrow> int" where
  "per_replica_world_size t =
     tensor_parallel (inference t) * data_parallel (inference t) * pipeline_parallel (inference t)"

definition world_size :: "teacher \<Rightarrow> int res" where
  "world_size t = (case num_replicas t of None \<Rightarrow> Inl TypeError | Some n \<Rightarrow> Inr (n * per_replica_world_size t))"

definition check_configured :: "teacher \<Rightarrow> unit res" where
  "check_configured t =
     require (model_path t \<noteq> None) ValueError (
     require (teacher_key t \<noteq> None) ValueError (
     require (num_replicas t \<noteq> None) ValueError (Inr ())))"

definition validate_topk_logprobs :: "bool \<Rightarrow> int option \<Rightarrow> inference_config \<Rightarrow> inference_config res" where
  "validate_topk_logprobs use_topk topk ie =
     (if \<not> use_topk then Inr ie
      else (case topk of
          None \<Rightarrow> Inl ValueError
        | Some k \<Rightarrow>
            if engine_name ie = ''vllm'' then
              (let m = (case vllm_max_logprobs ie of None \<Rightarrow> k | Some m \<Rightarrow> m) in
               require (k \<le> m) ValueError (Inr (ie\<lparr>vllm_max_logprobs := Some m\<rparr>)))
            else if engine_name ie = ''sglang'' then Inr ie
            else Inl NotImplementedError))"

definition validate_and_prepare :: "bool \<Rightarrow> int option \<Rightarrow> teacher \<Rightarrow> teacher res" where
  "validate_and_prepare use_topk topk t =
     (let ie = inference t; required = prompt_length ie + response_length ie + 1 in
      require (case max_model_len ie of None \<Rightarrow> True | Some m \<Rightarrow> required \<le> m) ValueError (
      bind_res (validate_topk_logprobs use_topk topk
          (ie\<lparr>prompt_length := prompt_length ie + response_length ie, response_length := 1\<rparr>)) (\<lambda>ie2.
      Inr (t\<lparr>inference := ie2\<rparr>))))"

section \<open>The distillation configuration\<close>

type_synonym teacher_dict = "(string \<times> teacher) list"

record distill_config =
  enabled :: bool
  n_gpus_per_node :: int
  nnodes :: int
  teacher_models :: teacher_dict
  loss_cfg :: distill_loss_config
  loss_topk :: "int option"
  base_model :: "teacher option"

fun key_by_teacher_key :: "teacher list \<Rightarrow> teacher_dict \<Rightarrow> teacher_dict res" where
  "key_by_teacher_key [] acc = Inr acc"
| "key_by_teacher_key (t # ts) acc =
     bind_res (check_configured t) (\<lambda>_.
     let k = the (teacher_key t) in
     require (k \<notin> set (map fst acc)) ValueError (key_by_teacher_key ts (acc @ [(k, t)])))"

definition single_teacher :: "distill_config \<Rightarrow> teacher \<Rightarrow> teacher res" where
  "single_teacher c t =
     bind_res (case (exopd_enabled (loss_cfg c), base_model c) of
          (True, Some b) \<Rightarrow> world_size b
        | _ \<Rightarrow> Inr 0) (\<lambda>reserved.
     let pool_size = n_gpus_per_node c * nnodes c - reserved; per_replica = per_replica_world_size t in
     require (per_replica \<noteq> 0) ZeroDivisionError (
     require (pool_size mod per_replica = 0) ValueError (
     Inr (t\<lparr>num_replicas := Some (pool_size div per_replica), teacher_key := Some ''default''\<rparr>))))"

definition resolve_teacher_models :: "distill_config \<Rightarrow> teacher_dict res" where
  "resolve_teacher_models c =
     (case map_of (teacher_models c) ''teacher_model'' of
        None \<Rightarrow> Inl AssertionError
      | Some t \<Rightarrow>
          bind_res (if length (teacher_models c) = 1
               then bind_res (single_teacher c t) (\<lambda>t'. Inr [t'])
               else Inr (map snd (filter (\<lambda>(k, _). k \<noteq> ''teacher_model'') (teacher_models c))))
            (\<lambda>ts. key_by_teacher_key ts []))"

text \<open>\<open>d[k] = v\<close> keeps the position of an existing key.\<close>

definition dict_set :: "'k \<Rightarrow> 'v \<Rightarrow> ('k \<times> 'v) list \<Rightarrow> ('k \<times> 'v) list" where
  "dict_set k v d = (if k \<in> set (map fst d) then map (\<lambda>(a, b). if a = k then (a, v) else (a, b)) d else d @ [(k, v)])"

definition sum_world :: "teacher list \<Rightarrow> int res" where
  "sum_world ts = bind_res (map_res world_size ts) (\<lambda>ws. Inr (sum_list ws))"

definition distillation_post_init :: "distill_config \<Rightarrow> distill_config res" where
  "distillation_post_init c =
     (if \<not> enabled c then Inr c
      else
        bind_res (get_distillation_loss_settings (loss_mode (loss_cfg c))) (\<lambda>settings.
        bind_res (resolve_teacher_models c) (\<lambda>tm.
        bind_res (map_res (validate_and_prepare (settings = UseTopk) (loss_topk c)) (map snd tm)) (\<lambda>ts.
        bind_res (sum_world ts) (\<lambda>total0.
        let tm1 = zip (map fst tm) ts in
        bind_res
          (if exopd_enabled (loss_cfg c) then
             (case base_model c of
                None \<Rightarrow> Inl ValueError
              | Some b \<Rightarrow>
                  bind_res (validate_and_prepare False None (b\<lparr>teacher_key := Some ''exopd_base''\<rparr>)) (\<lambda>b'.
                  bind_res (world_size b') (\<lambda>w. Inr (dict_set ''exopd_base'' b' tm1, total0 + w, Some b'))))
           else Inr (tm1, total0, base_model c)) (\<lambda>(tm2, total, base').
        require (total = n_gpus_per_node c * nnodes c) ValueError
          (Inr (c\<lparr>teacher_models := tm2, base_model := base'\<rparr>))))))))"

definition loss_config_post_init :: "distill_loss_config \<Rightarrow> unit res" where
  "loss_config_post_init cfg =
     bind_res (get_distillation_loss_settings (loss_mode cfg)) (\<lambda>_.
     require (policy_loss_mode cfg = ''vanilla'') NotImplementedError (
     require (use_policy_gradient cfg \<or> loss_mode cfg \<noteq> ''k1'') ValueError (Inr ())))"

section \<open>Properties\<close>

lemma validate_and_prepareD:
  assumes "validate_and_prepare use_topk topk t = Inr t'"
  shows "num_replicas t' = num_replicas t \<and> per_replica_world_size t' = per_replica_world_size t
    \<and> prompt_length (inference t') + response_length (inference t')
        = prompt_length (inference t) + response_length (inference t) + 1
    \<and> (\<forall>m. max_model_len (inference t') = Some m \<longrightarrow>
         prompt_length (inference t') + response_length (inference t') \<le> m)"
  using assms
  by (auto simp: validate_and_prepare_def validate_topk_logprobs_def bind_res_eq_Inr Let_def
      per_replica_world_size_def split: if_splits option.splits)

lemma key_by_teacher_key_Inr:
  "key_by_teacher_key ts acc = Inr tm \<Longrightarrow> distinct (map fst acc) \<Longrightarrow>
    distinct (map fst tm) \<and> map snd tm = map snd acc @ ts"
  by (induction ts arbitrary: acc) (auto simp: bind_res_eq_Inr Let_def)

lemma set_dict_set: "(k, v) \<in> set (dict_set a b d) \<Longrightarrow> (k, v) \<in> set d \<or> v = b"
  by (auto simp: dict_set_def split: if_splits)

text \<open>
  An accepted configuration without ExOPD fits its resources: the GPUs of all teachers together
  are exactly the pool, the teachers have distinct routing keys, and every teacher's context holds
  the student's prompt, its full response and one more token.
\<close>

theorem distillation_config_fits:
  assumes "distillation_post_init c = Inr c'" "enabled c" "\<not> exopd_enabled (loss_cfg c)"
  shows "sum_world (map snd (teacher_models c')) = Inr (n_gpus_per_node c * nnodes c)
    \<and> distinct (map fst (teacher_models c'))
    \<and> (\<forall>t \<in> set (map snd (teacher_models c')). \<forall>m. max_model_len (inference t) = Some m \<longrightarrow>
         prompt_length (inference t) + response_length (inference t) \<le> m)"
proof -
  from assms obtain s tm ts total where r: "resolve_teacher_models c = Inr tm"
    "map_res (validate_and_prepare (s = UseTopk) (loss_topk c)) (map snd tm) = Inr ts"
    "sum_world ts = Inr total" "total = n_gpus_per_node c * nnodes c"
    "teacher_models c' = zip (map fst tm) ts"
    by (auto simp: distillation_post_init_def bind_res_eq_Inr Let_def)
  have len: "length ts = length tm" using map_res_length[OF r(2)] by simp
  then have snd: "map snd (teacher_models c') = ts" and fst: "map fst (teacher_models c') = map fst tm"
    by (simp_all add: r(5))
  obtain us where "key_by_teacher_key us [] = Inr tm"
    using r(1) by (auto simp: resolve_teacher_models_def bind_res_eq_Inr split: option.splits)
  then have "distinct (map fst tm)" using key_by_teacher_key_Inr by force
  moreover have "\<forall>m. max_model_len (inference t) = Some m \<longrightarrow>
      prompt_length (inference t) + response_length (inference t) \<le> m" if t: "t \<in> set ts" for t
  proof -
    obtain u where "validate_and_prepare (s = UseTopk) (loss_topk c) u = Inr t"
      by (rule map_res_mem[OF r(2) t])
    then show ?thesis using validate_and_prepareD by blast
  qed
  ultimately show ?thesis using r(3,4) snd fst by simp
qed


text \<open>A single teacher next to an ExOPD base model on a pool of four GPUs.\<close>

definition example_inference :: inference_config where
  "example_inference = \<lparr>engine_name = ''vllm'', tensor_parallel = 1, data_parallel = 1, pipeline_parallel = 1,
     prompt_length = 10, response_length = 5, max_model_len = Some 16, vllm_max_logprobs = None\<rparr>"

definition example_teacher :: teacher where
  "example_teacher = \<lparr>teacher_key = None, model_path = Some ''t'', inference = example_inference, num_replicas = Some 0\<rparr>"

definition example_distill :: "bool \<Rightarrow> int \<Rightarrow> distill_config" where
  "example_distill exopd base_replicas =
     \<lparr>enabled = True, n_gpus_per_node = 4, nnodes = 1, teacher_models = [(''teacher_model'', example_teacher)],
      loss_cfg = example_config\<lparr>exopd_enabled := exopd\<rparr>, loss_topk = None,
      base_model = Some (example_teacher\<lparr>num_replicas := Some base_replicas\<rparr>)\<rparr>"

lemma example_distill_run:
  "\<exists>c' t. distillation_post_init (example_distill True n) = Inr c'
    \<and> map_of (teacher_models c') ''default'' = Some t \<and> num_replicas t = Some (4 - n)"
  by (simp add: example_distill_def distillation_post_init_def settings_k1 example_config_def
      resolve_teacher_models_def single_teacher_def world_size_def per_replica_world_size_def
      example_teacher_def example_inference_def check_configured_def validate_and_prepare_def
      validate_topk_logprobs_def sum_world_def dict_set_def Let_def)

theorem distillation_config_fits_witness:
  "\<exists>c'. distillation_post_init (example_distill False 0) = Inr c'
    \<and> sum_world (map snd (teacher_models c')) = Inr (n_gpus_per_node (example_distill False 0) * nnodes (example_distill False 0))"
proof -
  have "\<exists>c'. distillation_post_init (example_distill False 0) = Inr c'"
    by (simp add: example_distill_def distillation_post_init_def settings_k1 example_config_def
        resolve_teacher_models_def single_teacher_def world_size_def per_replica_world_size_def
        example_teacher_def example_inference_def check_configured_def validate_and_prepare_def
        validate_topk_logprobs_def sum_world_def dict_set_def Let_def)
  then obtain c' where c': "distillation_post_init (example_distill False 0) = Inr c'" by blast
  have "sum_world (map snd (teacher_models c')) = Inr (n_gpus_per_node (example_distill False 0) * nnodes (example_distill False 0))"
    by (rule distillation_config_fits[OF c', THEN conjunct1]) (simp_all add: example_distill_def)
  then show ?thesis using c' by blast
qed

text \<open>
  The pool check does not notice a base model that is too large: with ExOPD a single teacher is
  given what the base model leaves of the pool, and when that is negative the teacher gets a negative
  number of replicas, the sum still equals the pool, and the configuration is accepted.
\<close>

theorem negative_teacher_replicas_accepted:
  "\<exists>c' t. distillation_post_init (example_distill True 6) = Inr c'
    \<and> map_of (teacher_models c') ''default'' = Some t \<and> num_replicas t = Some (- 2)"
  using example_distill_run[of 6] by simp

text \<open>
  The check that forbids \<open>k1\<close> as a supervised loss misses its alias: \<open>kl\<close> computes the very
  same losses and is accepted.
\<close>

theorem supervised_kl_alias_accepted:
  "loss_config_post_init (example_config\<lparr>loss_mode := ''k1'', use_policy_gradient := False\<rparr>) = Inl ValueError
    \<and> loss_config_post_init (example_config\<lparr>loss_mode := ''kl'', use_policy_gradient := False\<rparr>) = Inr ()
    \<and> kl_matrix lp ref ''kl'' = kl_matrix lp ref ''k1''"
proof -
  have "kl_penalty x y ''kl'' = kl_penalty x y ''k1''" for x y
    by (simp add: kl_penalty_plain ends_with_plus_def kl_penalty_forward_def)
  then show ?thesis
    by (simp add: kl_matrix_def loss_config_post_init_def example_config_def settings_k1
        get_distillation_loss_settings_def DISTILLATION_SETTINGS_REGISTRY_def kl_names_def)
qed

end
