(* ===== verification/Ovo_Scoring.thy ===== *)
theory Ovo_Scoring
  imports Prelude "HOL-Library.Char_ord"
begin

text \<open>
  The OVO-Bench prompts and scorers: \<open>streamopd/constants.py\<close>, the scoring half of
  \<open>streamopd/streaming/recent_window.py\<close> and \<open>streamopd/scoring/ovo_bench.py\<close>.  Texts are ASCII:
  case conversion, digits, word characters and white space are those of ASCII, the decimal form of
  an integer is the parameter-free \<open>str_of_int\<close>.
\<close>

section \<open>Text\<close>

definition is_digit :: "char \<Rightarrow> bool" where
  "is_digit c \<longleftrightarrow> CHR ''0'' \<le> c \<and> c \<le> CHR ''9''"

definition is_upper :: "char \<Rightarrow> bool" where
  "is_upper c \<longleftrightarrow> CHR ''A'' \<le> c \<and> c \<le> CHR ''Z''"

definition is_lower :: "char \<Rightarrow> bool" where
  "is_lower c \<longleftrightarrow> CHR ''a'' \<le> c \<and> c \<le> CHR ''z''"

definition is_word :: "char \<Rightarrow> bool" where
  "is_word c \<longleftrightarrow> is_digit c \<or> is_upper c \<or> is_lower c \<or> c = CHR ''_''"

definition to_upper :: "char \<Rightarrow> char" where
  "to_upper c = (if is_lower c then char_of (of_char c - 32 :: nat) else c)"

definition upper :: "string \<Rightarrow> string" where
  "upper = map to_upper"

fun is_prefix :: "string \<Rightarrow> string \<Rightarrow> bool" where
  "is_prefix [] t = True"
| "is_prefix (c # s) [] = False"
| "is_prefix (c # s) (d # t) = (c = d \<and> is_prefix s t)"

fun substring :: "string \<Rightarrow> string \<Rightarrow> bool" where
  "substring p [] = (p = [])"
| "substring p (c # t) = (is_prefix p (c # t) \<or> substring p t)"

text \<open>\<open>re.search(r"\b([...])\b", text)\<close>: the first character of the class that is a word of its own.
  \<open>pw\<close> says whether the character before is a word character.\<close>

fun search_alone :: "(char \<Rightarrow> bool) \<Rightarrow> bool \<Rightarrow> string \<Rightarrow> char option" where
  "search_alone P pw [] = None"
| "search_alone P pw (c # cs) =
     (if P c \<and> \<not> pw \<and> (case cs of [] \<Rightarrow> True | d # _ \<Rightarrow> \<not> is_word d) then Some c
      else search_alone P (is_word c) cs)"

text \<open>\<open>re.findall(r"\d+", text)\<close>.\<close>

fun digit_runs :: "string \<Rightarrow> string \<Rightarrow> string list" where
  "digit_runs run [] = (if run = [] then [] else [run])"
| "digit_runs run (c # cs) =
     (if is_digit c then digit_runs (run @ [c]) cs
      else (if run = [] then [] else [run]) @ digit_runs [] cs)"

fun str_of_nat :: "nat \<Rightarrow> string" where
  "str_of_nat n = (if n < 10 then [char_of (48 + n)] else str_of_nat (n div 10) @ [char_of (48 + n mod 10)])"

definition str_of_int :: "int \<Rightarrow> string" where
  "str_of_int k = (if k < 0 then CHR ''-'' # str_of_nat (nat (- k)) else str_of_nat (nat k))"

declare str_of_nat.simps [simp del]

section \<open>Tasks and prompts\<close>

definition BACKWARD_TASKS :: "string list" where
  "BACKWARD_TASKS = [''EPM'', ''ASI'', ''HLD'']"

definition REAL_TIME_TASKS :: "string list" where
  "REAL_TIME_TASKS = [''OCR'', ''ACR'', ''ATR'', ''STU'', ''FPD'', ''OJR'']"

definition FORWARD_TASKS :: "string list" where
  "FORWARD_TASKS = [''REC'', ''SSR'', ''CRR'']"

definition ALL_BR_TASKS :: "string list" where
  "ALL_BR_TASKS = BACKWARD_TASKS @ REAL_TIME_TASKS"

definition newline :: string where
  "newline = [char_of (10 :: nat)]"

definition BR_PROMPT :: "string \<Rightarrow> string \<Rightarrow> string" where
  "BR_PROMPT question opts = question @ newline @ ''Options: '' @ opts @ newline
     @ ''Only give the best option'' @ [CHR 0x27] @ ''s letter directly.''"

definition REC_PROMPT :: "string \<Rightarrow> string" where
  "REC_PROMPT question = question @ newline @ ''Only give a number as answer.''"

definition SSR_PROMPT :: "string \<Rightarrow> string" where
  "SSR_PROMPT step = ''Is this person performing the tutorial step: '' @ step @ newline @ ''Answer Yes or No only.''"

definition CRR_PROMPT :: "string \<Rightarrow> string" where
  "CRR_PROMPT question = question @ newline
     @ ''Is there enough information in the provided video to answer the question? '' @ ''Answer Yes or No only.''"

record ovo_anno =
  anno_question :: "string option"
  anno_options :: "string list option"
  anno_activity :: "string option"
  anno_test_info :: "string list option"

definition get_key :: "'a option \<Rightarrow> 'a res" where
  "get_key x = (case x of None \<Rightarrow> Inl KeyError | Some v \<Rightarrow> Inr v)"

definition option_lines :: "string list \<Rightarrow> string" where
  "option_lines opts =
     (let lines = map (\<lambda>(i, opt). [char_of (65 + i)] @ ''. '' @ opt) (enumerate 0 opts) in
      concat (map (\<lambda>(i, l). (if i = 0 then [] else ''; '') @ l) (enumerate 0 lines)) @ '';'')"

definition build_ovo_prompt :: "string \<Rightarrow> ovo_anno \<Rightarrow> nat \<Rightarrow> string res" where
  "build_ovo_prompt task anno index =
     (if task \<in> set ALL_BR_TASKS then
        bind_res (get_key (anno_options anno)) (\<lambda>opts.
        bind_res (get_key (anno_question anno)) (\<lambda>q. Inr (BR_PROMPT q (option_lines opts))))
      else if task = ''REC'' then
        bind_res (get_key (anno_activity anno)) (\<lambda>a.
        Inr (REC_PROMPT (''How many times did they '' @ a @ ''?'')))
      else if task = ''SSR'' then
        bind_res (get_key (anno_test_info anno)) (\<lambda>steps.
        if index < length steps then Inr (SSR_PROMPT (steps ! index)) else Inl IndexError)
      else if task = ''CRR'' then
        bind_res (get_key (anno_question anno)) (\<lambda>q. Inr (CRR_PROMPT q))
      else Inr (case anno_question anno of None \<Rightarrow> [] | Some q \<Rightarrow> q))"

section \<open>Scores of single answers\<close>

definition blank :: "string option \<Rightarrow> bool" where
  "blank response = (case response of None \<Rightarrow> True | Some r \<Rightarrow> strip r = [])"

definition is_choice :: "char \<Rightarrow> bool" where
  "is_choice c \<longleftrightarrow> CHR ''A'' \<le> c \<and> c \<le> CHR ''D''"

definition is_choice_digit :: "char \<Rightarrow> bool" where
  "is_choice_digit c \<longleftrightarrow> CHR ''1'' \<le> c \<and> c \<le> CHR ''4''"

definition extract_mcq_answer :: "string option \<Rightarrow> char option" where
  "extract_mcq_answer response =
     (case response of
        None \<Rightarrow> None
      | Some r \<Rightarrow>
          if strip r = [] then None
          else (let text = upper (strip r) in
            case search_alone is_choice False text of
              Some c \<Rightarrow> Some c
            | None \<Rightarrow> map_option (\<lambda>d. char_of (64 + (of_char d - 48 :: nat)))
                         (search_alone is_choice_digit False text)))"

definition score_ovo_br :: "string option \<Rightarrow> string \<Rightarrow> nat" where
  "score_ovo_br response gt =
     (case extract_mcq_answer response of None \<Rightarrow> 0 | Some c \<Rightarrow> if upper [c] = upper gt then 1 else 0)"

definition score_ovo_rec :: "string option \<Rightarrow> int \<Rightarrow> nat" where
  "score_ovo_rec response gt_count =
     (case response of
        None \<Rightarrow> 0
      | Some r \<Rightarrow>
          if strip r = [] then 0
          else (let nums = digit_runs [] r in
            if nums \<noteq> [] \<and> concat nums = str_of_int gt_count then 1 else 0))"

definition score_yes_no :: "string option \<Rightarrow> int \<Rightarrow> nat" where
  "score_yes_no response gt_type =
     (case response of
        None \<Rightarrow> 0
      | Some r \<Rightarrow>
          if strip r = [] then 0
          else (let text = upper (strip r) in
            if (text = ''N'' \<or> substring ''NO'' text) \<and> gt_type = 0 then 1
            else if (text = ''Y'' \<or> substring ''YES'' text) \<and> gt_type = 1 then 1
            else 0))"

section \<open>Scores of a run\<close>

record br_result =
  br_task :: string
  br_response :: "string option"
  br_truth :: string

record fwd_item =
  item_response :: "string option"
  item_count :: int
  item_type :: int

record fwd_result =
  fwd_task :: string
  fwd_items :: "fwd_item list"

record task_stats =
  correct :: nat
  tot :: nat
  accuracy :: real

text \<open>\<open>by_task[k].append(v)\<close> on a dictionary in insertion order.\<close>

fun dict_append :: "'k \<Rightarrow> 'v \<Rightarrow> ('k \<times> 'v list) list \<Rightarrow> ('k \<times> 'v list) list" where
  "dict_append k v [] = [(k, [v])]"
| "dict_append k v ((a, vs) # d) = (if a = k then (a, vs @ [v]) # d else (a, vs) # dict_append k v d)"

definition group_scores_by :: "('k \<times> 'v) list \<Rightarrow> ('k \<times> 'v list) list" where
  "group_scores_by xs = foldl (\<lambda>d (k, v). dict_append k v d) [] xs"

definition stats_of :: "nat list \<Rightarrow> task_stats" where
  "stats_of vals = \<lparr>correct = sum_list vals, tot = length vals,
     accuracy = 100 * real (sum_list vals) / real (length vals)\<rparr>"

definition forward_scores :: "fwd_result \<Rightarrow> (string \<times> nat) list" where
  "forward_scores r =
     (if fwd_task r = ''REC'' then map (\<lambda>i. (''REC'', score_ovo_rec (item_response i) (item_count i))) (fwd_items r)
      else if fwd_task r \<in> {''SSR'', ''CRR''}
           then map (\<lambda>i. (fwd_task r, score_yes_no (item_response i) (item_type i))) (fwd_items r)
      else [])"

record ovo_summary =
  sum_backward :: "(string \<times> task_stats) list"
  sum_realtime :: "(string \<times> task_stats) list"
  sum_forward :: "(string \<times> task_stats) list"

definition summarise :: "(string \<times> nat) list \<Rightarrow> (string \<times> task_stats) list" where
  "summarise xs = map (\<lambda>(k, vs). (k, stats_of vs)) (group_scores_by xs)"

definition br_scores :: "br_result list \<Rightarrow> (string \<times> nat) list" where
  "br_scores rs = map (\<lambda>r. (br_task r, score_ovo_br (br_response r) (br_truth r))) rs"

definition calculate_ovo_scores :: "br_result list \<Rightarrow> br_result list \<Rightarrow> fwd_result list \<Rightarrow> ovo_summary" where
  "calculate_ovo_scores backward realtime forward =
     \<lparr>sum_backward = summarise (br_scores backward),
      sum_realtime = summarise (br_scores realtime),
      sum_forward = summarise (concat (map forward_scores forward))\<rparr>"

text \<open>The averages \<open>print_ovo_results\<close> prints: per section, and over the sections present.\<close>

definition section_average :: "(string \<times> task_stats) list \<Rightarrow> real option" where
  "section_average rows = (if rows = [] then None else Some (mean (map (\<lambda>(_, s). accuracy s) rows)))"

definition print_ovo_results :: "ovo_summary \<Rightarrow> real option list \<times> real option" where
  "print_ovo_results s =
     (let avgs = [section_average (sum_backward s), section_average (sum_realtime s), section_average (sum_forward s)];
          category_scores = map the (filter (\<lambda>a. a \<noteq> None) avgs)
      in (avgs, if category_scores = [] then None else Some (mean category_scores)))"

section \<open>The official offline scorer\<close>

definition offline_br :: "string option \<Rightarrow> string \<Rightarrow> nat" where
  "offline_br response gt = (case response of None \<Rightarrow> 0 | Some r \<Rightarrow> if substring gt r then 1 else 0)"

definition offline_rec :: "string option \<Rightarrow> int \<Rightarrow> nat" where
  "offline_rec response gt =
     (case response of None \<Rightarrow> 0 | Some r \<Rightarrow> if concat (digit_runs [] r) = str_of_int gt then 1 else 0)"

definition offline_yes_no :: "string option \<Rightarrow> int \<Rightarrow> nat" where
  "offline_yes_no response gt_type =
     (if (response = Some ''N'' \<and> gt_type = 0) \<or> (response = Some ''Y'' \<and> gt_type = 1) then 1
      else offline_br response (if gt_type = 0 then ''No'' else ''Yes''))"

definition offline_forward :: "fwd_result \<Rightarrow> (string \<times> nat) list" where
  "offline_forward r =
     (if fwd_task r = ''REC'' then map (\<lambda>i. (''REC'', offline_rec (item_response i) (item_count i))) (fwd_items r)
      else if fwd_task r \<in> {''SSR'', ''CRR''}
           then map (\<lambda>i. (fwd_task r, offline_yes_no (item_response i) (item_type i))) (fwd_items r)
      else [])"

definition task_accuracy :: "(string \<times> nat list) list \<Rightarrow> (string \<times> real) list res" where
  "task_accuracy scores = map_res (\<lambda>(k, vs). require (vs \<noteq> []) ZeroDivisionError
     (Inr (k, real (sum_list vs) / real (length vs)))) scores"

definition section_score :: "(string \<times> real) list \<Rightarrow> real" where
  "section_score accs = 100 * sum_list (map snd accs) / real (length accs)"

record offline_report =
  off_backward :: real
  off_realtime :: real
  off_forward :: real
  off_total :: real
  off_br_macro :: "real option"
  off_br_no_hld :: "real option"

text \<open>
  \<open>calculate_score_forward\<close> creates an entry for every task that occurs, in the order of a set:
  \<open>fwd_tasks\<close> is any enumeration of it.
\<close>

definition offline_report_section :: "bool \<Rightarrow> (string \<times> nat list) list \<Rightarrow> (real \<times> (string \<times> real) list) res" where
  "offline_report_section present scores =
     (if \<not> present then Inr (0, []) else bind_res (task_accuracy scores) (\<lambda>accs. Inr (section_score accs, accs)))"

definition offline_score ::
  "string list \<Rightarrow> br_result list \<Rightarrow> br_result list \<Rightarrow> fwd_result list \<Rightarrow> offline_report res" where
  "offline_score fwd_tasks backward realtime forward =
     (let br = (\<lambda>rs. group_scores_by (map (\<lambda>r. (br_task r, offline_br (br_response r) (br_truth r))) rs));
          fwd_all = concat (map offline_forward forward);
          fwd = map (\<lambda>t. (t, map snd (filter (\<lambda>(k, _). k = t) fwd_all))) fwd_tasks
      in bind_res (offline_report_section (backward \<noteq> []) (br backward)) (\<lambda>(b, baccs).
         bind_res (offline_report_section (realtime \<noteq> []) (br realtime)) (\<lambda>(r, raccs).
         bind_res (offline_report_section (forward \<noteq> []) fwd) (\<lambda>(f, _).
         let no_hld = filter (\<lambda>(k, _). k \<noteq> ''HLD'') baccs in
         Inr \<lparr>off_backward = b, off_realtime = r, off_forward = f, off_total = (b + r + f) / 3,
              off_br_macro = (if baccs \<noteq> [] \<and> raccs \<noteq> [] then Some ((b + r) / 2) else None),
              off_br_no_hld = (if baccs \<noteq> [] \<and> raccs \<noteq> [] \<and> no_hld \<noteq> [] \<and> length no_hld < length baccs
                then Some ((section_score no_hld + r) / 2) else None)\<rparr>))))"


section \<open>Grouping by task\<close>

lemma dict_append_keys: "set (map fst (dict_append k v d)) = insert k (set (map fst d))"
proof (induction d)
  case (Cons e d)
  then show ?case by (cases e) (simp add: insert_commute)
qed simp

lemma dict_append_distinct: "distinct (map fst d) \<Longrightarrow> distinct (map fst (dict_append k v d))"
proof (induction d)
  case (Cons e d)
  obtain j vs where e: "e = (j, vs)" by (cases e)
  show ?case
  proof (cases "j = k")
    case True
    then show ?thesis using Cons.prems e by simp
  next
    case False
    then have "j \<notin> set (map fst (dict_append k v d))"
      using Cons.prems e unfolding dict_append_keys by simp
    then show ?thesis using False Cons e by simp
  qed
qed simp

lemma dict_append_map_of:
  "map_of (dict_append k v d) j = (if j = k then Some ((case map_of d k of None \<Rightarrow> [] | Some vs \<Rightarrow> vs) @ [v]) else map_of d j)"
proof (induction d)
  case (Cons e d)
  then show ?case by (cases e) auto
qed simp

lemma dict_append_size:
  "sum_list (map (\<lambda>(_, vs). length vs) (dict_append k v d)) = Suc (sum_list (map (\<lambda>(_, vs). length vs) d))"
proof (induction d)
  case (Cons e d)
  then show ?case by (cases e) auto
qed simp

lemma dict_append_nonempty: "\<forall>(_, vs) \<in> set d. vs \<noteq> [] \<Longrightarrow> \<forall>(_, vs) \<in> set (dict_append k v d). vs \<noteq> []"
proof (induction d)
  case (Cons e d)
  then show ?case by (cases e) auto
qed simp

lemma group_scores_by_snoc:
  "group_scores_by (xs @ [(k, v)]) = dict_append k v (group_scores_by xs)"
  by (simp add: group_scores_by_def)

text \<open>The dictionary holds, per task and in order, exactly the scores of the task.\<close>

lemma group_scores_by_map_of:
  "map_of (group_scores_by xs) k =
    (let vs = map snd (filter (\<lambda>(j, _). j = k) xs) in if vs = [] then None else Some vs)"
proof (induction xs rule: rev_induct)
  case (snoc x xs)
  then show ?case by (cases x) (auto simp: group_scores_by_snoc dict_append_map_of Let_def)
qed (simp add: group_scores_by_def)

lemma group_scores_by_distinct: "distinct (map fst (group_scores_by xs))"
proof (induction xs rule: rev_induct)
  case (snoc x xs)
  then show ?case by (cases x) (simp add: group_scores_by_snoc dict_append_distinct)
qed (simp add: group_scores_by_def)

lemma group_scores_by_size: "sum_list (map (\<lambda>(_, vs). length vs) (group_scores_by xs)) = length xs"
proof (induction xs rule: rev_induct)
  case (snoc x xs)
  then show ?case by (cases x) (simp add: group_scores_by_snoc dict_append_size)
qed (simp add: group_scores_by_def)

lemma group_scores_by_mem:
  assumes "(k, vs) \<in> set (group_scores_by xs)"
  shows "vs \<noteq> [] \<and> (\<forall>v \<in> set vs. (k, v) \<in> set xs)"
proof -
  have "map_of (group_scores_by xs) k = Some vs"
    using map_of_is_SomeI[OF group_scores_by_distinct assms] .
  then have "vs \<noteq> []" "vs = map snd (filter (\<lambda>(j, _). j = k) xs)"
    by (auto simp: group_scores_by_map_of Let_def split: if_splits)
  then show ?thesis by auto
qed

lemma summarise_tot: "sum_list (map (\<lambda>(_, s). tot s) (summarise xs)) = length xs"
  using group_scores_by_size[of xs] by (simp add: summarise_def stats_of_def comp_def case_prod_unfold)

lemma sum_list_01: "\<forall>v \<in> set vs. v \<le> (1 :: nat) \<Longrightarrow> sum_list vs \<le> length vs"
  by (induction vs) auto

lemma stats_accuracy:
  assumes "vs \<noteq> []" "\<forall>v \<in> set vs. v \<le> 1"
  shows "0 \<le> accuracy (stats_of vs) \<and> accuracy (stats_of vs) \<le> 100"
  using assms sum_list_01[OF assms(2)] by (auto simp: stats_of_def divide_le_eq)

lemma scores_01: "score_ovo_br r g \<le> 1" "score_ovo_rec r n \<le> 1" "score_yes_no r t \<le> 1"
  by (auto simp: score_ovo_br_def score_ovo_rec_def score_yes_no_def Let_def split: option.splits)

lemma summarise_accuracy:
  assumes "\<forall>(k, v) \<in> set xs. v \<le> 1" "(k, s) \<in> set (summarise xs)"
  shows "0 \<le> accuracy s \<and> accuracy s \<le> 100"
proof -
  obtain vs where "(k, vs) \<in> set (group_scores_by xs)" "s = stats_of vs"
    using assms(2) by (auto simp: summarise_def)
  then show ?thesis using group_scores_by_mem[of k vs xs] assms(1) stats_accuracy[of vs] by fastforce
qed

lemma section_average_bounds:
  assumes "\<forall>(k, s) \<in> set rows. 0 \<le> accuracy s \<and> accuracy s \<le> 100" "section_average rows = Some a"
  shows "0 \<le> a \<and> a \<le> 100"
proof -
  have ne: "rows \<noteq> []" and a: "a = mean (map (\<lambda>(_, s). accuracy s) rows)"
    using assms(2) by (auto simp: section_average_def split: if_splits)
  show ?thesis unfolding a by (rule mean_bounds) (use ne assms(1) in auto)
qed

text \<open>
  The summary counts every scored item once and reports percentages: per section the task totals
  sum to the number of scored items, every task accuracy, section average and the total average lie
  between 0 and 100, and a total is reported as soon as one section has results.
\<close>

theorem ovo_summary_sound:
  assumes "calculate_ovo_scores backward realtime forward = s" "print_ovo_results s = (avgs, total_avg)"
  shows "sum_list (map (\<lambda>(_, s). tot s) (sum_backward s)) = length backward
    \<and> sum_list (map (\<lambda>(_, s). tot s) (sum_realtime s)) = length realtime
    \<and> sum_list (map (\<lambda>(_, s). tot s) (sum_forward s)) = sum_list (map (length \<circ> forward_scores) forward)
    \<and> (\<forall>(k, st) \<in> set (sum_backward s) \<union> set (sum_realtime s) \<union> set (sum_forward s). 0 \<le> accuracy st \<and> accuracy st \<le> 100)
    \<and> (\<forall>a. Some a \<in> insert total_avg (set avgs) \<longrightarrow> 0 \<le> a \<and> a \<le> 100)
    \<and> (total_avg = None \<longleftrightarrow> sum_backward s = [] \<and> sum_realtime s = [] \<and> sum_forward s = [])"
proof -
  let ?f = "concat (map forward_scores forward)"
  have s: "sum_backward s = summarise (br_scores backward)" "sum_realtime s = summarise (br_scores realtime)"
    "sum_forward s = summarise ?f"
    using assms(1) by (auto simp: calculate_ovo_scores_def)
  have le1: "\<forall>(k, v) \<in> set (br_scores rs). v \<le> 1" for rs by (auto simp: br_scores_def scores_01[unfolded One_nat_def])
  have le1f: "\<forall>(k, v) \<in> set ?f. v \<le> 1" by (auto simp: forward_scores_def scores_01[unfolded One_nat_def])
  have acc: "\<forall>(k, st) \<in> set (sum_backward s). 0 \<le> accuracy st \<and> accuracy st \<le> 100"
    "\<forall>(k, st) \<in> set (sum_realtime s). 0 \<le> accuracy st \<and> accuracy st \<le> 100"
    "\<forall>(k, st) \<in> set (sum_forward s). 0 \<le> accuracy st \<and> accuracy st \<le> 100"
    using summarise_accuracy[OF le1] summarise_accuracy[OF le1f] unfolding s by blast+
  define cats where "cats = [section_average (sum_backward s), section_average (sum_realtime s), section_average (sum_forward s)]"
  have avgs: "avgs = cats" and total: "total_avg = (let c = map the (filter (\<lambda>a. a \<noteq> None) cats) in if c = [] then None else Some (mean c))"
    using assms(2) by (auto simp: print_ovo_results_def cats_def Let_def split: if_splits)
  have bnd: "0 \<le> a \<and> a \<le> 100" if "Some a \<in> set cats" for a
    using that section_average_bounds[OF acc(1), of a] section_average_bounds[OF acc(2), of a]
      section_average_bounds[OF acc(3), of a] by (auto simp: cats_def)
  have "0 \<le> a \<and> a \<le> 100" if t: "total_avg = Some a" for a
  proof -
    have ne: "map the (filter (\<lambda>a. a \<noteq> None) cats) \<noteq> []" and a: "a = mean (map the (filter (\<lambda>a. a \<noteq> None) cats))"
      using t unfolding total by (auto simp: Let_def split: if_splits)
    show ?thesis unfolding a by (rule mean_bounds[OF ne]) (use bnd in auto)
  qed
  moreover have "total_avg = None \<longleftrightarrow> sum_backward s = [] \<and> sum_realtime s = [] \<and> sum_forward s = []"
    unfolding total by (auto simp: cats_def section_average_def Let_def)
  moreover have "sum_list (map (length \<circ> forward_scores) forward) = length ?f"
    by (simp add: length_concat comp_def)
  ultimately show ?thesis
    using acc bnd avgs by (auto simp: s summarise_tot br_scores_def)
qed

theorem ovo_summary_sound_witness:
  "let s = calculate_ovo_scores [] [\<lparr>br_task = ''OCR'', br_response = Some ''B'', br_truth = ''B''\<rparr>] []
   in sum_list (map (\<lambda>(_, s). tot s) (sum_realtime s)) = 1"
  using ovo_summary_sound[of "[]" "[\<lparr>br_task = ''OCR'', br_response = Some ''B'', br_truth = ''B''\<rparr>]" "[]", OF refl prod.collapse[symmetric]]
  by (simp add: Let_def)

section \<open>The answer a response gives\<close>

text \<open>Position \<open>i\<close> of \<open>s\<close> is a one-character word of the class \<open>P\<close>; \<open>pw\<close> as for \<open>search_alone\<close>.\<close>

definition lone_at :: "(char \<Rightarrow> bool) \<Rightarrow> bool \<Rightarrow> string \<Rightarrow> nat \<Rightarrow> bool" where
  "lone_at P pw s i \<longleftrightarrow> i < length s \<and> P (s ! i)
     \<and> \<not> (if i = 0 then pw else is_word (s ! (i - 1)))
     \<and> (Suc i < length s \<longrightarrow> \<not> is_word (s ! Suc i))"

definition first_lone :: "(char \<Rightarrow> bool) \<Rightarrow> bool \<Rightarrow> string \<Rightarrow> char \<Rightarrow> bool" where
  "first_lone P pw s c \<longleftrightarrow> (\<exists>i. lone_at P pw s i \<and> s ! i = c \<and> (\<forall>j < i. \<not> lone_at P pw s j))"

lemma lone_at_Nil: "\<not> lone_at P pw [] i"
  by (simp add: lone_at_def)

lemma lone_at_0: "lone_at P pw (c # cs) 0 \<longleftrightarrow> P c \<and> \<not> pw \<and> (case cs of [] \<Rightarrow> True | d # _ \<Rightarrow> \<not> is_word d)"
  by (auto simp: lone_at_def split: list.splits)

lemma lone_at_Suc: "lone_at P pw (c # cs) (Suc i) \<longleftrightarrow> lone_at P (is_word c) cs i"
  by (cases i) (auto simp: lone_at_def)

lemma all_nat_split: "(\<forall>i :: nat. P i) \<longleftrightarrow> P 0 \<and> (\<forall>i. P (Suc i))"
  by (metis not0_implies_Suc)

lemma search_alone_None: "search_alone P pw s = None \<longleftrightarrow> (\<forall>i. \<not> lone_at P pw s i)"
proof (induction s arbitrary: pw)
  case (Cons c cs)
  have "(\<forall>i. \<not> lone_at P pw (c # cs) i) \<longleftrightarrow> \<not> lone_at P pw (c # cs) 0 \<and> (\<forall>i. \<not> lone_at P (is_word c) cs i)"
    by (subst all_nat_split) (simp only: lone_at_Suc)
  then show ?case using Cons by (simp add: lone_at_0)
qed (simp add: lone_at_Nil)

lemma first_lone_Cons:
  "first_lone P pw (c # cs) d \<longleftrightarrow>
     (if lone_at P pw (c # cs) 0 then d = c else first_lone P (is_word c) cs d)"
proof (cases "lone_at P pw (c # cs) 0")
  case True
  then show ?thesis unfolding first_lone_def by (metis neq0_conv not_less0 nth_Cons_0)
next
  case False
  have "first_lone P pw (c # cs) d"
    if i: "lone_at P (is_word c) cs i" "cs ! i = d" "\<forall>j < i. \<not> lone_at P (is_word c) cs j" for i
    unfolding first_lone_def
    by (rule exI[of _ "Suc i"]) (use i False in \<open>auto simp: lone_at_Suc less_Suc_eq_0_disj\<close>)
  moreover have "first_lone P (is_word c) cs d"
    if i: "lone_at P pw (c # cs) i" "(c # cs) ! i = d" "\<forall>j < i. \<not> lone_at P pw (c # cs) j" for i
  proof -
    obtain k where k: "i = Suc k" using i(1) False by (cases i) auto
    show ?thesis unfolding first_lone_def
      by (rule exI[of _ k]) (use i k in \<open>auto simp flip: lone_at_Suc[of P pw c]\<close>)
  qed
  ultimately show ?thesis using False unfolding first_lone_def by auto
qed

lemma search_alone_Some: "search_alone P pw s = Some c \<longleftrightarrow> first_lone P pw s c"
proof (induction s arbitrary: pw)
  case (Cons d s)
  then show ?case unfolding first_lone_Cons lone_at_0 by auto
qed (simp add: first_lone_def lone_at_Nil)

text \<open>
  The answer of a multiple-choice response is what the two patterns say: in the stripped,
  upper-cased text, the first letter A-D that is a word of its own, and only when there is none the
  first digit 1-4 that is a word of its own, read as the letter of that position; a missing or blank
  response, or a text with neither, gives no answer.
\<close>

theorem extract_mcq_answer_spec:
  "extract_mcq_answer response = Some a \<longleftrightarrow>
     (\<exists>r. response = Some r \<and> \<not> blank response
       \<and> (let text = upper (strip r) in
           first_lone is_choice False text a
           \<or> (\<nexists>i. lone_at is_choice False text i)
             \<and> (\<exists>d. first_lone is_choice_digit False text d \<and> a = char_of (64 + (of_char d - 48 :: nat)))))"
proof (cases response)
  case (Some r)
  let ?t = "upper (strip r)"
  show ?thesis
  proof (cases "search_alone is_choice False ?t")
    case None
    then have "\<nexists>i. lone_at is_choice False ?t i" by (simp add: search_alone_None)
    then have "\<nexists>a. first_lone is_choice False ?t a" by (auto simp: first_lone_def)
    then show ?thesis
      using None Some \<open>\<nexists>i. lone_at is_choice False ?t i\<close>
      by (auto simp: extract_mcq_answer_def blank_def Let_def search_alone_Some)
  next
    case (Some c)
    then have f: "first_lone is_choice False ?t c" by (simp add: search_alone_Some)
    then have "\<exists>i. lone_at is_choice False ?t i" by (auto simp: first_lone_def)
    moreover have "first_lone is_choice False ?t a \<longleftrightarrow> a = c"
      using Some by (auto simp: search_alone_Some[symmetric])
    ultimately show ?thesis
      using Some \<open>response = Some r\<close> by (auto simp: extract_mcq_answer_def blank_def Let_def)
  qed
qed (simp add: extract_mcq_answer_def)

section \<open>The two scorers\<close>

lemma is_prefix_append: "is_prefix p t \<longleftrightarrow> (\<exists>b. t = p @ b)"
  by (induction p t rule: is_prefix.induct) auto

lemma substring_iff: "substring p t \<longleftrightarrow> (\<exists>a b. t = a @ p @ b)"
proof (induction t)
  case (Cons c t)
  have "(\<exists>a b. c # t = a @ p @ b) \<longleftrightarrow> (\<exists>b. c # t = p @ b) \<or> (\<exists>a b. t = a @ p @ b)"
    by (auto simp: Cons_eq_append_conv)
  then show ?case using Cons by (simp add: is_prefix_append)
qed auto

lemma dropWhile_substring:
  assumes "substring p t" "p \<noteq> []" "\<not> P (hd p)"
  shows "substring p (dropWhile P t)"
proof -
  obtain a b where t: "t = a @ p @ b" using assms(1) substring_iff by blast
  obtain c q where p: "p = c # q" using assms(2) by (cases p) auto
  have "dropWhile P t = dropWhile P a @ p @ b"
    unfolding t using assms(3) p by (auto simp: dropWhile_append)
  then show ?thesis unfolding substring_iff by metis
qed

lemma substring_rev: "substring (rev p) (rev t) \<longleftrightarrow> substring p t"
proof -
  have "substring (rev p) (rev t)" if "substring p t" for p t
    using that unfolding substring_iff by (metis append.assoc rev_append)
  from this[of p t] this[of "rev p" "rev t"] show ?thesis by auto
qed

lemma strip_substring:
  assumes "substring p t" "p \<noteq> []" "\<not> is_space (hd p)" "\<not> is_space (last p)"
  shows "substring p (strip t)"
proof -
  have "substring (rev p) (rev (dropWhile is_space t))"
    using dropWhile_substring[of p t is_space] assms by (simp add: substring_rev)
  then have "substring (rev p) (dropWhile is_space (rev (dropWhile is_space t)))"
    by (rule dropWhile_substring) (use assms in \<open>auto simp: hd_rev\<close>)
  then show ?thesis unfolding strip_def using substring_rev by fastforce
qed

lemma upper_substring: "substring p t \<Longrightarrow> substring (upper p) (upper t)"
  unfolding substring_iff upper_def by (metis map_append)

lemma substring_Nil: "substring p [] \<longleftrightarrow> p = []"
  by simp

lemma strip_digit_runs: "strip r = [] \<Longrightarrow> concat (digit_runs [] r) = []"
proof -
  assume "strip r = []"
  then have "\<forall>c \<in> set r. is_space c"
    unfolding strip_def by (auto simp: dropWhile_eq_Nil_conv) (metis set_dropWhileD dropWhile_eq_Nil_conv list.set_sel(1) hd_dropWhile)
  moreover have "\<not> is_digit c" if "is_space c" for c
    using that by (cases c) (auto simp: is_space_def is_digit_def less_eq_char_def Let_def)
  ultimately have "\<forall>c \<in> set r. \<not> is_digit c" by blast
  then have "digit_runs [] r = []" by (induction r) auto
  then show ?thesis by simp
qed

lemma str_of_nat_not_Nil: "str_of_nat n \<noteq> []"
  by (subst str_of_nat.simps) simp

lemma str_of_int_not_Nil: "str_of_int k \<noteq> []"
  by (simp add: str_of_int_def str_of_nat_not_Nil)

lemma rec_scorers_equal: "score_ovo_rec response n = offline_rec response n"
proof (cases response)
  case (Some r)
  show ?thesis
  proof (cases "strip r = []")
    case True
    then show ?thesis
      using strip_digit_runs[OF True] str_of_int_not_Nil[of n] Some
      by (simp add: score_ovo_rec_def offline_rec_def del: concat_eq_Nil_conv)
  next
    case False
    then show ?thesis using str_of_int_not_Nil[of n] Some by (auto simp: score_ovo_rec_def offline_rec_def Let_def)
  qed
qed (simp add: score_ovo_rec_def offline_rec_def)

lemma spoken_credited:
  assumes "substring p r" "p \<noteq> []" "\<not> is_space (hd p)" "\<not> is_space (last p)"
  shows "strip r \<noteq> [] \<and> substring (upper p) (upper (strip r))"
  using strip_substring[OF assms] assms(2) upper_substring by auto

text \<open>
  On the forward tasks the streaming scorer never takes back a point the official one gives:
  counts are scored identically on every response, and a yes/no item (its type being 0 or 1) that
  the official scorer credits is credited by the streaming scorer too.
\<close>

theorem streaming_covers_official:
  assumes "kind = 0 \<or> kind = 1"
  shows "score_ovo_rec response n = offline_rec response n \<and> offline_yes_no response kind \<le> score_yes_no response kind"
proof -
  have up: "upper ''No'' = ''NO''" "upper ''Yes'' = ''YES''"
    "\<not> is_space CHR ''N''" "\<not> is_space CHR ''o''" "\<not> is_space CHR ''Y''" "\<not> is_space CHR ''s''"
    by code_simp+
  have no: "strip r \<noteq> [] \<and> substring ''NO'' (upper (strip r))" if "substring ''No'' r" for r
    using spoken_credited[OF that] by (simp add: up)
  have yes: "strip r \<noteq> [] \<and> substring ''YES'' (upper (strip r))" if "substring ''Yes'' r" for r
    using spoken_credited[OF that] by (simp add: up)
  have n: "upper (strip ''N'') = ''N''" "upper (strip ''Y'') = ''Y''" "strip ''N'' \<noteq> []" "strip ''Y'' \<noteq> []"
    by code_simp+
  have "offline_yes_no response kind \<le> score_yes_no response kind"
    using assms no yes n
    by (auto simp: offline_yes_no_def offline_br_def score_yes_no_def Let_def split: option.splits)
  then show ?thesis by (simp add: rec_scorers_equal)
qed

theorem streaming_covers_official_witness:
  "score_ovo_rec (Some ''3 times'') 3 = offline_rec (Some ''3 times'') 3
    \<and> offline_yes_no (Some ''Yes'') 1 \<le> score_yes_no (Some ''Yes'') 1"
  using streaming_covers_official[of 0 "Some ''3 times''" 3] streaming_covers_official[of 1 "Some ''Yes''" 3] by simp

text \<open>
  The lenient patterns misread ordinary sentences: an article is taken for choice A, so the
  sentence that answers C scores 0 against C and 1 against A; a response that starts with Yes and
  contains a word with "no" in it is credited for both truths; two counts are read as one number.
\<close>

theorem lenient_patterns_misread:
  "score_ovo_br (Some ''A dog is shown, so C'') ''C'' = 0 \<and> score_ovo_br (Some ''A dog is shown, so C'') ''A'' = 1
    \<and> score_yes_no (Some ''Yes, now'') 0 = 1 \<and> score_yes_no (Some ''Yes, now'') 1 = 1
    \<and> score_ovo_rec (Some ''1 or 2'') 12 = 1"
  by code_simp

end
