(* ===== verification/Recent_Window.thy ===== *)
theory Recent_Window
  imports Ovo_Scoring
begin

text \<open>
  The recent-window baseline, \<open>streamopd/streaming/recent_window.py\<close>, and its exact tail decoder,
  \<open>streamopd/streaming/exact_recent_decoder.py\<close>.  A decoded video is the list of its frames with the
  metadata the decoder reports; the decoders, the tokenizer, the embedding and the language model are
  arguments.  Times are exact reals.
\<close>

section \<open>Decoding a video to chunks\<close>

record video_req =
  req_fps :: "real option"
  req_nframes :: "int option"
  req_start :: "real option"
  req_end :: "real option"

text \<open>What the decoder returns: \<open>dec_tensor\<close> says that the video is a tensor of four dimensions.\<close>

record 'f decoded =
  dec_tensor :: bool
  dec_frames :: "'f list"
  dec_fps :: "real option"
  dec_indices :: "int list option"
  dec_backend :: "string option"

text \<open>The ValueErrors of the decoder; the first is the one whose message carries an interval.\<close>

datatype fetch_error = NframesInterval int int | FetchFailed

record 'f eval_chunk =
  chunk_frames :: "'f list"
  chunk_timestamps :: "real list"
  start_time :: real
  end_time :: real
  chunk_index :: int
  chunk_fps :: real

definition make_request :: "real \<Rightarrow> real option \<Rightarrow> real option \<Rightarrow> int option \<Rightarrow> video_req" where
  "make_request fps video_start video_end nframes =
     \<lparr>req_fps = (if nframes = None then Some fps else None), req_nframes = nframes,
      req_start = map_option (max 0) video_start, req_end = map_option (max 0) video_end\<rparr>"

text \<open>The dense mode retries once, with the count clamped to the interval the error reports.\<close>

definition clamped_nframes :: "int \<Rightarrow> int \<Rightarrow> int" where
  "clamped_nframes lo hi = max lo ((hi div 2) * 2)"

definition fetch_with_retry ::
  "(video_req \<Rightarrow> fetch_error + 'f decoded) \<Rightarrow> video_req \<Rightarrow> 'f decoded res" where
  "fetch_with_retry fetch_video req =
     (case fetch_video req of
        Inr d \<Rightarrow> Inr d
      | Inl FetchFailed \<Rightarrow> Inl ValueError
      | Inl (NframesInterval lo hi) \<Rightarrow>
          if req_nframes req = None then Inl ValueError
          else (case fetch_video (req\<lparr>req_nframes := Some (clamped_nframes lo hi)\<rparr>) of
                  Inr d \<Rightarrow> Inr d | Inl _ \<Rightarrow> Inl ValueError))"

definition fetch_exact_checked ::
  "(video_req \<Rightarrow> int \<Rightarrow> 'f decoded res) \<Rightarrow> real \<Rightarrow> real \<Rightarrow> int option \<Rightarrow> video_req \<Rightarrow> 'f decoded res" where
  "fetch_exact_checked fetch_exact chunk_duration fps recent_frames_only req =
     (case recent_frames_only of
        None \<Rightarrow> Inl ValueError
      | Some n \<Rightarrow>
          if n < 1 then Inl ValueError
          else if \<bar>chunk_duration * fps - 1\<bar> > 1 / 10 ^ 6 then Inl ValueError
          else fetch_exact req n)"

definition raw_fps_of :: "real \<Rightarrow> 'f decoded \<Rightarrow> real" where
  "raw_fps_of fps d = max (case dec_fps d of Some f \<Rightarrow> f | None \<Rightarrow> if fps > 0 then fps else 1) (1 / 10 ^ 6)"

definition frame_indices_of :: "real \<Rightarrow> real option \<Rightarrow> 'f decoded \<Rightarrow> int list" where
  "frame_indices_of raw_fps video_start d =
     (let n = length (dec_frames d);
          start_frame = \<lfloor>max 0 (case video_start of None \<Rightarrow> 0 | Some s \<Rightarrow> s) * raw_fps\<rfloor>;
          counted = map (\<lambda>i. start_frame + int i) [0..<n]
      in case dec_indices d of
           None \<Rightarrow> counted
         | Some idx \<Rightarrow> if length idx \<noteq> n then counted else idx)"

definition sampled_fps_of :: "real \<Rightarrow> real \<Rightarrow> int list \<Rightarrow> real" where
  "sampled_fps_of raw_fps fps idx =
     (if length idx > 1
      then real (length idx - 1) / max (real_of_int (last idx - hd idx) / raw_fps) (1 / 10 ^ 6)
      else max fps (1 / 10 ^ 6))"

definition max_valid_end :: "real \<Rightarrow> int list \<Rightarrow> real" where
  "max_valid_end raw_fps idx =
     (let max_ts = (if idx = [] then 0 else Max (set (map (\<lambda>i. real_of_int i / raw_fps) idx)));
          frame_dt = (if length idx > 1
            then max (real_of_int (last idx - idx ! (length idx - 2)) / raw_fps) (1 / raw_fps) else 1 / raw_fps)
      in max_ts + frame_dt)"

definition frame_buckets :: "real \<Rightarrow> real \<Rightarrow> int list \<Rightarrow> 'f list \<Rightarrow> (int \<times> ('f \<times> real) list) list" where
  "frame_buckets chunk_duration raw_fps idx frames =
     group_scores_by (map (\<lambda>(i, f). (\<lfloor>real_of_int i / raw_fps / chunk_duration\<rfloor>, (f, real_of_int i / raw_fps)))
       (zip idx frames))"

definition make_chunk :: "real \<Rightarrow> real \<Rightarrow> real \<Rightarrow> int \<Rightarrow> ('f \<times> real) list \<Rightarrow> 'f eval_chunk" where
  "make_chunk chunk_duration last_end fps k content =
     \<lparr>chunk_frames = map fst content, chunk_timestamps = map snd content,
      start_time = real_of_int k * chunk_duration,
      end_time = min (real_of_int (k + 1) * chunk_duration) last_end,
      chunk_index = k, chunk_fps = fps\<rparr>"

definition chunks_of :: "real \<Rightarrow> real \<Rightarrow> real option \<Rightarrow> 'f decoded \<Rightarrow> 'f eval_chunk list" where
  "chunks_of chunk_duration fps video_start d =
     (let raw_fps = raw_fps_of fps d;
          idx = frame_indices_of raw_fps video_start d;
          buckets = frame_buckets chunk_duration raw_fps idx (dec_frames d)
      in map (\<lambda>k. make_chunk chunk_duration (max_valid_end raw_fps idx) (sampled_fps_of raw_fps fps idx) k
                  (the (map_of buckets k)))
           (sort (map fst buckets)))"

definition decode_backend_of :: "real option \<Rightarrow> real option \<Rightarrow> 'f decoded \<Rightarrow> string" where
  "decode_backend_of video_start video_end d =
     (let b = (case dec_backend d of None \<Rightarrow> ''unknown'' | Some s \<Rightarrow> s)
      in if video_start \<noteq> None \<or> video_end \<noteq> None then b @ ''_window'' else b)"

text \<open>The two decoders a run has, and the switch \<open>QWEN_EXACT_RECENT_DECODE\<close>.\<close>

record 'f decoders =
  use_exact_recent :: bool
  fetch_video :: "video_req \<Rightarrow> fetch_error + 'f decoded"
  fetch_recent :: "video_req \<Rightarrow> int \<Rightarrow> 'f decoded res"

definition decode_frames ::
  "'f decoders \<Rightarrow> real \<Rightarrow> real \<Rightarrow> int option \<Rightarrow> real option \<Rightarrow> real option \<Rightarrow> int option \<Rightarrow> 'f decoded res" where
  "decode_frames dec chunk_duration fps recent_frames_only video_start video_end nframes =
     (if chunk_duration \<le> 0 then Inl ValueError
      else if nframes \<noteq> None \<and> use_exact_recent dec then Inl ValueError
      else let req = make_request fps video_start video_end nframes in
        bind_res (if use_exact_recent dec
                  then fetch_exact_checked (fetch_recent dec) chunk_duration fps recent_frames_only req
                  else fetch_with_retry (fetch_video dec) req) (\<lambda>d.
        if dec_tensor d then Inr d else Inl ValueError))"

definition decode_video_to_chunks_qwen ::
  "'f decoders \<Rightarrow> real \<Rightarrow> real \<Rightarrow> int option \<Rightarrow> real option \<Rightarrow> real option \<Rightarrow> int option
    \<Rightarrow> ('f eval_chunk list \<times> string) res" where
  "decode_video_to_chunks_qwen dec chunk_duration fps recent_frames_only video_start video_end nframes =
     bind_res (decode_frames dec chunk_duration fps recent_frames_only video_start video_end nframes) (\<lambda>d.
     Inr (chunks_of chunk_duration fps video_start d, decode_backend_of video_start video_end d))"

section \<open>Asking the model about the last chunks\<close>

text \<open>
  The question-answering model: \<open>qa_encode\<close> gives the rows of the vision embedding and those of its
  grid, \<open>qa_generate\<close> the answer from the cached embedding and the question.
\<close>

record ('f, 'e, 'g) qa_model =
  qa_encode :: "'f list \<Rightarrow> 'e list \<times> 'g list"
  qa_generate :: "'e list \<Rightarrow> 'g list \<Rightarrow> string \<Rightarrow> string res"

record recent_window_result =
  answer :: string
  final_chunk_ids :: "int list"
  num_vision_tokens :: nat
  num_vision_tokens_before :: nat
  num_vision_tokens_after :: nat
  num_frames :: nat

definition generate_from_frames ::
  "('f, 'e, 'g) qa_model \<Rightarrow> 'f list \<Rightarrow> string \<Rightarrow> (string \<times> nat \<times> nat) res" where
  "generate_from_frames qa frames question =
     (let (cached_embeds, cached_grid_thw) = qa_encode qa frames
      in bind_res (qa_generate qa cached_embeds cached_grid_thw question) (\<lambda>ans.
         Inr (ans, length cached_embeds, length cached_grid_thw)))"

definition window_frames :: "int \<Rightarrow> 'f eval_chunk list \<Rightarrow> 'f list" where
  "window_frames recent_frames_only chunks =
     concat (map chunk_frames (py_tail (nat (max 1 recent_frames_only)) chunks))"

definition query_recent_window ::
  "'f decoders \<Rightarrow> ('f, 'e, 'g) qa_model \<Rightarrow> string \<Rightarrow> real \<Rightarrow> real \<Rightarrow> int \<Rightarrow> real option \<Rightarrow> real option
    \<Rightarrow> (recent_window_result \<times> string) res" where
  "query_recent_window dec qa prompt chunk_duration fps recent_frames_only video_start video_end =
     bind_res (decode_video_to_chunks_qwen dec chunk_duration fps (Some recent_frames_only) video_start video_end None)
       (\<lambda>(chunks, backend).
     if chunks = [] then Inl ValueError
     else let recent_chunks = py_tail (nat (max 1 recent_frames_only)) chunks in
       bind_res (generate_from_frames qa (window_frames recent_frames_only chunks) prompt) (\<lambda>(ans, tokens, frames).
       Inr (\<lparr>answer = ans, final_chunk_ids = map chunk_index recent_chunks, num_vision_tokens = tokens,
             num_vision_tokens_before = tokens, num_vision_tokens_after = tokens, num_frames = frames\<rparr>, backend)))"

text \<open>An annotation with what the evaluators read beside the prompt's fields.\<close>

record ovo_case = ovo_anno +
  case_id :: string
  case_task :: string
  case_gt :: nat

text \<open>\<open>videos path\<close> are the decoders of an existing video file.\<close>

type_synonym 'f videos = "string \<Rightarrow> 'f decoders option"

definition chunk_path :: "string \<Rightarrow> string \<Rightarrow> string" where
  "chunk_path dir name = dir @ ''/'' @ name @ ''.mp4''"

record ovo_br_row =
  row_response :: "string option"
  row_truth :: string
  row_result :: "(recent_window_result \<times> string) option"

definition evaluate_ovo_backward_realtime ::
  "'f videos \<Rightarrow> ('f, 'e, 'g) qa_model \<Rightarrow> ovo_case \<Rightarrow> string \<Rightarrow> real \<Rightarrow> real \<Rightarrow> int \<Rightarrow> ovo_br_row res" where
  "evaluate_ovo_backward_realtime videos qa anno chunked_dir chunk_duration fps recent_frames_only =
     bind_res
       (case videos (chunk_path chunked_dir (case_id anno)) of
          None \<Rightarrow> Inr None
        | Some dec \<Rightarrow>
            bind_res (build_ovo_prompt (case_task anno) (ovo_anno.truncate anno) 0) (\<lambda>prompt.
            bind_res (query_recent_window dec qa prompt chunk_duration fps recent_frames_only None None)
              (\<lambda>r. Inr (Some r))))
       (\<lambda>r. bind_res (get_key (anno_question anno)) (\<lambda>_.
         Inr \<lparr>row_response = map_option (answer \<circ> fst) r, row_truth = [char_of (65 + case_gt anno)], row_result = r\<rparr>))"

definition evaluate_ovo_forward ::
  "'f videos \<Rightarrow> ('f, 'e, 'g) qa_model \<Rightarrow> ovo_case \<Rightarrow> string \<Rightarrow> real \<Rightarrow> real \<Rightarrow> int
    \<Rightarrow> (recent_window_result \<times> string) option list res" where
  "evaluate_ovo_forward videos qa anno chunked_dir chunk_duration fps recent_frames_only =
     bind_res (get_key (anno_test_info anno)) (\<lambda>infos.
     map_res (\<lambda>index.
       case videos (chunk_path chunked_dir (case_id anno @ ''_'' @ str_of_nat index)) of
         None \<Rightarrow> Inr None
       | Some dec \<Rightarrow>
           bind_res (build_ovo_prompt (case_task anno) (ovo_anno.truncate anno) index) (\<lambda>prompt.
           bind_res (query_recent_window dec qa prompt chunk_duration fps recent_frames_only None None)
             (\<lambda>r. Inr (Some r))))
       [0..<length infos])"

datatype 'a gathered = GatheredList "'a list" | GatheredItem 'a

fun flatten_gathered_results :: "'a gathered list \<Rightarrow> 'a list" where
  "flatten_gathered_results [] = []"
| "flatten_gathered_results (GatheredList xs # g) = xs @ flatten_gathered_results g"
| "flatten_gathered_results (GatheredItem x # g) = x # flatten_gathered_results g"

text \<open>Lines of a results file: \<open>parse\<close> is \<open>json.loads\<close>, \<open>key\<close> the entry \<open>_key\<close> when it is a string.\<close>

fun load_jsonl_results ::
  "(string \<Rightarrow> 'r res) \<Rightarrow> ('r \<Rightarrow> string option) \<Rightarrow> string list \<Rightarrow> 'r list \<Rightarrow> string set \<Rightarrow> ('r list \<times> string set) res" where
  "load_jsonl_results parse key [] results done_keys = Inr (results, done_keys)"
| "load_jsonl_results parse key (line # lines) results done_keys =
     (if strip line = [] then load_jsonl_results parse key lines results done_keys
      else bind_res (parse (strip line)) (\<lambda>item.
        load_jsonl_results parse key lines (results @ [item])
          (case key item of Some (c # k) \<Rightarrow> insert (c # k) done_keys | _ \<Rightarrow> done_keys)))"

section \<open>The prompt with cached vision rows\<close>

record tokenizer =
  encode :: "string \<Rightarrow> int list"
  im_start_id :: int
  im_end_id :: int
  vision_start_id :: int
  vision_end_id :: int
  image_token_id :: int

definition prompt_ids :: "tokenizer \<Rightarrow> nat \<Rightarrow> string \<Rightarrow> int list" where
  "prompt_ids t n question =
     [im_start_id t] @ encode t (''user'' @ newline) @ [vision_start_id t]
     @ replicate n (image_token_id t) @ [vision_end_id t] @ encode t newline @ encode t question
     @ [im_end_id t] @ encode t newline @ [im_start_id t] @ encode t (''assistant'' @ newline)"

text \<open>\<open>masked_scatter\<close> with the mask \<open>ids = image_token_id\<close>: the rows fill the masked places in order;
  more masked places than rows is a RuntimeError.\<close>

fun scatter_rows :: "int \<Rightarrow> int list \<Rightarrow> 'e list \<Rightarrow> 'e list \<Rightarrow> 'e list res" where
  "scatter_rows img (i # ids) (e # es) rows =
     (if i = img
      then (case rows of [] \<Rightarrow> Inl RuntimeError
            | r # rs \<Rightarrow> bind_res (scatter_rows img ids es rs) (\<lambda>out. Inr (r # out)))
      else bind_res (scatter_rows img ids es rows) (\<lambda>out. Inr (e # out)))"
| "scatter_rows img ids es rows = Inr []"

definition trim_generated :: "nat \<Rightarrow> int list \<Rightarrow> int list" where
  "trim_generated prompt_length ids = (if length ids > prompt_length then drop prompt_length ids else ids)"

text \<open>
  \<open>emb\<close> is the input embedding, \<open>rope\<close> the position index, \<open>generate\<close> the decoding from embeddings and
  positions (the attention mask is all ones), \<open>decode\<close> the text of tokens.
\<close>

definition generate_with_cached_vision ::
  "tokenizer \<Rightarrow> (int \<Rightarrow> 'e) \<Rightarrow> (int list \<Rightarrow> 'g list \<Rightarrow> 'p) \<Rightarrow> ('e list \<Rightarrow> 'p \<Rightarrow> int list)
    \<Rightarrow> (int list \<Rightarrow> string) \<Rightarrow> 'e list \<Rightarrow> 'g list \<Rightarrow> string \<Rightarrow> string res" where
  "generate_with_cached_vision t emb rope generate decode cached_embeds cached_grid_thw question =
     (let ids = prompt_ids t (length cached_embeds) question in
      bind_res (scatter_rows (image_token_id t) ids (map emb ids) cached_embeds) (\<lambda>inputs_embeds.
      Inr (strip (decode (trim_generated (length ids) (generate inputs_embeds (rope ids cached_grid_thw)))))))"

section \<open>The exact tail decoder\<close>

definition linspace :: "int \<Rightarrow> int \<Rightarrow> nat \<Rightarrow> real list" where
  "linspace a b n =
     map (\<lambda>i. if n = 1 then real_of_int a else real_of_int a + real i * (real_of_int (b - a) / real (n - 1))) [0..<n]"

datatype video_backend = Decord | Torchcodec | OtherBackend

record video_ele =
  ele_path :: "string option"
  ele_min_pixels :: "real option"
  ele_total_pixels :: "real option"
  ele_max_pixels :: "real option"
  ele_resized :: "(int \<times> int) option"

text \<open>The library's side: the backend in use, the counts of the file, the sampling functions.\<close>

record 'f video_lib =
  lib_backend :: video_backend
  lib_total :: "string \<Rightarrow> int"
  lib_fps :: "string \<Rightarrow> real"
  lib_range :: "video_ele \<Rightarrow> int \<Rightarrow> real \<Rightarrow> int \<times> int \<times> int"
  lib_nframes :: "video_ele \<Rightarrow> int \<Rightarrow> real \<Rightarrow> nat"
  lib_frame :: "string \<Rightarrow> int \<Rightarrow> 'f"
  lib_height_width :: "string \<Rightarrow> real \<times> real"
  lib_resize_to :: "int \<Rightarrow> int \<Rightarrow> int \<Rightarrow> int \<times> int"
  lib_smart_resize :: "real \<Rightarrow> real \<Rightarrow> int \<Rightarrow> real \<Rightarrow> real \<Rightarrow> int \<times> int"
  lib_resize :: "int \<times> int \<Rightarrow> 'f \<Rightarrow> 'f"

record sampling_plan =
  plan_raw_fps :: real
  plan_raw_total :: int
  plan_start :: int
  plan_end :: int
  plan_available :: int
  plan_nframes :: nat
  plan_sample_fps :: real
  plan_full :: "int list"
  plan_tail :: "int list"

definition build_sampling_plan :: "'f video_lib \<Rightarrow> video_ele \<Rightarrow> int \<Rightarrow> sampling_plan res" where
  "build_sampling_plan lib ele last_nframes =
     (case ele_path ele of
        None \<Rightarrow> Inl TypeError
      | Some path \<Rightarrow>
          if lib_backend lib = OtherBackend then Inl NotImplementedError
          else let raw_fps = lib_fps lib path; raw_total = lib_total lib path;
                   (a, b, available) = lib_range lib ele raw_total raw_fps;
                   n = lib_nframes lib ele available raw_fps;
                   full = map round_even (linspace a b n)
               in Inr \<lparr>plan_raw_fps = raw_fps, plan_raw_total = raw_total, plan_start = a, plan_end = b,
                       plan_available = available, plan_nframes = n,
                       plan_sample_fps = real n / max (real_of_int available) (1 / 10 ^ 6) * raw_fps,
                       plan_full = full, plan_tail = py_tail (nat (max 1 last_nframes)) full\<rparr>)"

text \<open>The pixel budget of the resize, from the library's constants.\<close>

record pixel_budget =
  SPATIAL_MERGE_SIZE :: int
  VIDEO_MIN_TOKEN_NUM :: int
  VIDEO_MAX_TOKEN_NUM :: int
  MODEL_SEQ_LEN :: int
  FRAME_FACTOR :: int

definition or_default :: "'a option \<Rightarrow> 'a \<Rightarrow> 'a" where
  "or_default x d = (case x of None \<Rightarrow> d | Some v \<Rightarrow> v)"

definition resize_target :: "'f video_lib \<Rightarrow> pixel_budget \<Rightarrow> video_ele \<Rightarrow> string \<Rightarrow> nat \<Rightarrow> int \<Rightarrow> (int \<times> int) res" where
  "resize_target lib pb ele path sampled_nframes_full image_patch_size =
     (let image_factor = image_patch_size * SPATIAL_MERGE_SIZE pb;
          area = real_of_int (image_factor * image_factor);
          min_pixels = or_default (ele_min_pixels ele) (real_of_int (VIDEO_MIN_TOKEN_NUM pb) * area);
          total_pixels = or_default (ele_total_pixels ele) (real_of_int (MODEL_SEQ_LEN pb) * area * (9 / 10))
      in require (sampled_nframes_full \<noteq> 0) ZeroDivisionError
        (let max_pixels = max (min (real_of_int (VIDEO_MAX_TOKEN_NUM pb) * area)
                                 (total_pixels / real sampled_nframes_full * real_of_int (FRAME_FACTOR pb)))
                              (real_of_int \<lfloor>min_pixels * (105 / 100)\<rfloor>);
             max_pixels = min (or_default (ele_max_pixels ele) max_pixels) max_pixels
         in Inr (case ele_resized ele of
              Some (h, w) \<Rightarrow> lib_resize_to lib h w image_factor
            | None \<Rightarrow> (let (height, width) = lib_height_width lib path
                      in lib_smart_resize lib height width image_factor min_pixels max_pixels))))"

definition fetch_recent_video_exact ::
  "'f video_lib \<Rightarrow> pixel_budget \<Rightarrow> video_ele \<Rightarrow> int \<Rightarrow> int \<Rightarrow> ('f list \<times> sampling_plan) res" where
  "fetch_recent_video_exact lib pb ele last_nframes image_patch_size =
     bind_res (build_sampling_plan lib ele last_nframes) (\<lambda>plan.
     bind_res (get_key (ele_path ele)) (\<lambda>path.
     bind_res (resize_target lib pb ele path (plan_nframes plan) image_patch_size) (\<lambda>target.
     Inr (map (\<lambda>i. lib_resize lib target (lib_frame lib path i)) (plan_tail plan), plan))))"

text \<open>The comparison with a full decode: the frames and indices \<open>fetch_video\<close> returns.\<close>

record exact_report =
  expected_indices :: "int list"
  actual_indices :: "int list"
  same_indices :: bool
  same_pixels :: bool

definition verify_recent_video_exact_matches_full ::
  "'f video_lib \<Rightarrow> pixel_budget \<Rightarrow> (video_ele \<Rightarrow> int \<Rightarrow> ('f list \<times> int list) res) \<Rightarrow> video_ele \<Rightarrow> int \<Rightarrow> int
    \<Rightarrow> exact_report res" where
  "verify_recent_video_exact_matches_full lib pb fetch ele last_nframes image_patch_size =
     bind_res (fetch ele image_patch_size) (\<lambda>(full_video, full_indices).
     bind_res (fetch_recent_video_exact lib pb ele last_nframes image_patch_size) (\<lambda>(exact_video, plan).
     let idx = plan_tail plan; n = length idx;
         expected_video = (if n = 0 then full_video else py_tail n full_video);
         expected = (if n = 0 then full_indices else py_tail n full_indices)
     in Inr \<lparr>expected_indices = expected, actual_indices = idx,
             same_indices = (expected = idx), same_pixels = (expected_video = exact_video)\<rparr>))"

section \<open>The chunks of a video\<close>

lemma filter_min_first:
  "sorted (map fst xs) \<Longrightarrow> \<forall>x \<in> set xs. k \<le> fst x \<Longrightarrow>
   filter (\<lambda>x. fst x = k) xs @ filter (\<lambda>x. fst x \<noteq> k) xs = xs"
proof (induction xs)
  case (Cons x xs)
  show ?case
  proof (cases "fst x = k")
    case False
    then have "\<forall>y \<in> set (x # xs). k < fst y" using Cons.prems by fastforce
    then have "filter (\<lambda>x. fst x = k) (x # xs) = []" "filter (\<lambda>x. fst x \<noteq> k) (x # xs) = x # xs"
      by (auto simp: filter_empty_conv intro!: filter_True)
    then show ?thesis by simp
  qed (use Cons in simp)
qed simp

lemma concat_filter_keys:
  fixes xs :: "('k :: linorder \<times> 'v) list"
  shows "sorted (map fst xs) \<Longrightarrow> sorted_wrt (<) ks \<Longrightarrow> fst ` set xs \<subseteq> set ks \<Longrightarrow>
    concat (map (\<lambda>k. filter (\<lambda>x. fst x = k) xs) ks) = xs"
proof (induction ks arbitrary: xs)
  case (Cons k ks)
  let ?ys = "filter (\<lambda>x. fst x \<noteq> k) xs"
  have "concat (map (\<lambda>k. filter (\<lambda>x. fst x = k) ?ys) ks) = ?ys"
  proof (rule Cons.IH)
    show "sorted (map fst ?ys)" using Cons.prems(1) by (rule sorted_filter)
    show "fst ` set ?ys \<subseteq> set ks" using Cons.prems(3) by auto
  qed (use Cons.prems in auto)
  moreover have "filter (\<lambda>x. fst x = j) ?ys = filter (\<lambda>x. fst x = j) xs" if "j \<in> set ks" for j
    using that Cons.prems(2) by (auto intro!: filter_cong simp: filter_filter)
  ultimately have "concat (map (\<lambda>k. filter (\<lambda>x. fst x = k) xs) ks) = ?ys"
    by (metis (mono_tags, lifting) map_cong)
  moreover have "\<forall>x \<in> set xs. k \<le> fst x" using Cons.prems(2,3) by force
  ultimately show ?case using filter_min_first[OF Cons.prems(1)] by simp
qed simp

lemma mset_filter_keys:
  "distinct ks \<Longrightarrow> fst ` set xs \<subseteq> set ks \<Longrightarrow>
   mset (concat (map (\<lambda>k. filter (\<lambda>x. fst x = k) xs) ks)) = mset xs"
proof (induction ks arbitrary: xs)
  case (Cons k ks)
  let ?ys = "filter (\<lambda>x. fst x \<noteq> k) xs"
  have "mset (concat (map (\<lambda>k. filter (\<lambda>x. fst x = k) ?ys) ks)) = mset ?ys"
    by (rule Cons.IH) (use Cons.prems in auto)
  moreover have "filter (\<lambda>x. fst x = j) ?ys = filter (\<lambda>x. fst x = j) xs" if "j \<in> set ks" for j
    using that Cons.prems(1) by (auto intro!: filter_cong simp: filter_filter)
  ultimately have "mset (concat (map (\<lambda>k. filter (\<lambda>x. fst x = k) xs) ks)) = mset ?ys"
    by (metis (mono_tags, lifting) map_cong)
  then show ?case using multiset_partition[of "mset xs" "\<lambda>x. fst x = k"] by simp
qed simp

lemma group_scores_by_keys: "set (map fst (group_scores_by xs)) = fst ` set xs"
proof (induction xs rule: rev_induct)
  case (snoc x xs)
  then show ?case by (cases x) (simp add: group_scores_by_snoc dict_append_keys del: set_map)
qed (simp add: group_scores_by_def)

lemma group_scores_by_lookup:
  "k \<in> fst ` set xs \<Longrightarrow> the (map_of (group_scores_by xs) k) = map snd (filter (\<lambda>x. fst x = k) xs)"
  by (auto simp: group_scores_by_map_of Let_def filter_empty_conv case_prod_unfold)

text \<open>The timed frames in the order of the video, with the index of their chunk.\<close>

definition keyed :: "real \<Rightarrow> real \<Rightarrow> int list \<Rightarrow> 'f list \<Rightarrow> (int \<times> ('f \<times> real)) list" where
  "keyed cd r idx frames = map (\<lambda>(i, f). (\<lfloor>real_of_int i / r / cd\<rfloor>, (f, real_of_int i / r))) (zip idx frames)"

definition chunk_keys :: "real \<Rightarrow> real \<Rightarrow> int list \<Rightarrow> 'f list \<Rightarrow> int list" where
  "chunk_keys cd r idx frames = sort (map fst (frame_buckets cd r idx frames))"

lemma chunk_keys:
  "set (chunk_keys cd r idx frames) = fst ` set (keyed cd r idx frames)"
  "sorted_wrt (<) (chunk_keys cd r idx frames)"
proof -
  show "set (chunk_keys cd r idx frames) = fst ` set (keyed cd r idx frames)"
    using group_scores_by_keys[of "keyed cd r idx frames"]
    by (simp add: chunk_keys_def frame_buckets_def keyed_def)
  show "sorted_wrt (<) (chunk_keys cd r idx frames)"
    using group_scores_by_distinct[of "keyed cd r idx frames"]
    by (simp add: strict_sorted_iff chunk_keys_def frame_buckets_def keyed_def)
qed

lemma chunks_of_eq:
  assumes "r = raw_fps_of fps d" "idx = frame_indices_of r vs d"
  shows "chunks_of cd fps vs d =
    map (\<lambda>k. make_chunk cd (max_valid_end r idx) (sampled_fps_of r fps idx) k
          (map snd (filter (\<lambda>x. fst x = k) (keyed cd r idx (dec_frames d)))))
      (chunk_keys cd r idx (dec_frames d))"
proof -
  have lookup: "the (map_of (frame_buckets cd r idx (dec_frames d)) k) = map snd (filter (\<lambda>x. fst x = k) (keyed cd r idx (dec_frames d)))"
    if "k \<in> set (chunk_keys cd r idx (dec_frames d))" for k
    using group_scores_by_lookup[of k "keyed cd r idx (dec_frames d)"] that
    unfolding chunk_keys(1) frame_buckets_def keyed_def by simp
  show ?thesis
    unfolding chunks_of_def Let_def assms[symmetric] chunk_keys_def[symmetric] by (simp add: lookup)
qed

lemma raw_fps_pos: "0 < raw_fps_of fps d"
  by (simp add: raw_fps_of_def less_max_iff_disj)

lemma frame_indices_length: "length (frame_indices_of r vs d) = length (dec_frames d)"
  by (simp add: frame_indices_of_def Let_def split: option.splits)

lemma keyed_frames:
  "length idx = length frames \<Longrightarrow> map (fst \<circ> snd) (keyed cd r idx frames) = frames"
  by (simp add: keyed_def comp_def case_prod_unfold)

lemma keyed_sorted:
  assumes "sorted idx" "0 < r" "0 < cd" "length idx = length frames"
  shows "sorted (map fst (keyed cd r idx frames))"
proof -
  have "map fst (keyed cd r idx frames) = map (\<lambda>i. \<lfloor>real_of_int i / r / cd\<rfloor>) idx"
    using map_fst_zip[OF assms(4)] map_map[of "\<lambda>i. \<lfloor>real_of_int i / r / cd\<rfloor>" fst "zip idx frames"]
    by (simp add: keyed_def comp_def case_prod_unfold)
  moreover have "mono (\<lambda>i. \<lfloor>real_of_int i / r / cd\<rfloor>)"
    using assms(2,3) by (auto intro!: monoI floor_mono divide_right_mono)
  ultimately show ?thesis
    using assms(1) unfolding sorted_map
    by (metis (no_types, lifting) monoD sorted_wrt_mono_rel sorted_map)
qed

lemma floor_div_bounds:
  assumes "0 < cd" "\<lfloor>t / cd\<rfloor> = k"
  shows "real_of_int k * cd \<le> t \<and> t < real_of_int (k + 1) * cd"
  using assms floor_correct[of "t / cd"] by (simp add: field_simps)

lemma max_valid_end_gt:
  assumes "0 < r" "i \<in> set idx"
  shows "real_of_int i / r < max_valid_end r idx"
proof -
  have ne: "idx \<noteq> []" using assms(2) by auto
  have le: "real_of_int i / r \<le> Max (set (map (\<lambda>i. real_of_int i / r) idx))"
    by (rule Max_ge) (use assms(2) in auto)
  obtain dt where dt: "max_valid_end r idx = Max (set (map (\<lambda>i. real_of_int i / r) idx)) + dt" "1 / r \<le> dt"
    using ne by (auto simp: max_valid_end_def Let_def)
  have "0 < 1 / r" using assms(1) by simp
  then show ?thesis using le dt by linarith
qed

lemma chunk_fields [simp]:
  "chunk_frames (make_chunk cd e f k c) = map fst c" "chunk_timestamps (make_chunk cd e f k c) = map snd c"
  "chunk_index (make_chunk cd e f k c) = k" "start_time (make_chunk cd e f k c) = real_of_int k * cd"
  "end_time (make_chunk cd e f k c) = min (real_of_int (k + 1) * cd) e"
  by (simp_all add: make_chunk_def)

lemma chunk_mem:
  assumes "c \<in> set (chunks_of cd fps vs d)" "0 < cd"
  shows "chunk_frames c \<noteq> [] \<and> length (chunk_timestamps c) = length (chunk_frames c)
    \<and> (\<forall>t \<in> set (chunk_timestamps c). start_time c \<le> t \<and> t < end_time c)"
proof -
  define r idx where r: "r = raw_fps_of fps d" and idx: "idx = frame_indices_of r vs d"
  let ?kd = "keyed cd r idx (dec_frames d)"
  obtain k where k: "k \<in> set (chunk_keys cd r idx (dec_frames d))"
    and c: "c = make_chunk cd (max_valid_end r idx) (sampled_fps_of r fps idx) k (map snd (filter (\<lambda>x. fst x = k) ?kd))"
    using assms(1) unfolding chunks_of_eq[OF r idx] by auto
  have "k \<in> fst ` set ?kd" using k chunk_keys(1) by blast
  moreover have "start_time c \<le> t \<and> t < end_time c" if t: "t \<in> set (chunk_timestamps c)" for t
  proof -
    obtain i where i: "i \<in> set idx" "t = real_of_int i / r" "\<lfloor>real_of_int i / r / cd\<rfloor> = k"
      using t by (auto simp: c keyed_def dest: set_zip_leftD)
    then show ?thesis
      using floor_div_bounds[OF assms(2) i(3)] max_valid_end_gt[OF _ i(1)] raw_fps_pos[of fps d] by (simp add: c r)
  qed
  ultimately show ?thesis by (auto simp: c filter_empty_conv)
qed

lemma chunk_indices: "sorted_wrt (<) (map chunk_index (chunks_of cd fps vs d))"
  using chunk_keys(2) by (simp add: chunks_of_eq[OF refl refl] comp_def)

lemma chunks_frames_mset: "mset (concat (map chunk_frames (chunks_of cd fps vs d))) = mset (dec_frames d)"
proof -
  define r idx where r: "r = raw_fps_of fps d" and idx: "idx = frame_indices_of r vs d"
  let ?kd = "keyed cd r idx (dec_frames d)" and ?ks = "chunk_keys cd r idx (dec_frames d)"
  have "concat (map chunk_frames (chunks_of cd fps vs d)) =
      map (fst \<circ> snd) (concat (map (\<lambda>k. filter (\<lambda>x. fst x = k) ?kd) ?ks))"
    by (simp add: chunks_of_eq[OF r idx] map_concat comp_def)
  moreover have "mset (concat (map (\<lambda>k. filter (\<lambda>x. fst x = k) ?kd) ?ks)) = mset ?kd"
  proof (rule mset_filter_keys)
    show "distinct ?ks" using chunk_keys(2) strict_sorted_iff by blast
  qed (simp add: chunk_keys(1))
  ultimately have "mset (concat (map chunk_frames (chunks_of cd fps vs d))) = mset (map (fst \<circ> snd) ?kd)"
    unfolding mset_map by simp
  then show ?thesis using keyed_frames[of idx "dec_frames d" cd r] by (simp only: idx frame_indices_length)
qed

lemma chunks_frames_sorted:
  assumes "sorted (frame_indices_of (raw_fps_of fps d) vs d)" "0 < cd"
  shows "concat (map chunk_frames (chunks_of cd fps vs d)) = dec_frames d"
proof -
  define r idx where r: "r = raw_fps_of fps d" and idx: "idx = frame_indices_of r vs d"
  let ?kd = "keyed cd r idx (dec_frames d)" and ?ks = "chunk_keys cd r idx (dec_frames d)"
  have l: "length idx = length (dec_frames d)" by (simp add: idx frame_indices_length)
  have "concat (map (\<lambda>k. filter (\<lambda>x. fst x = k) ?kd) ?ks) = ?kd"
    by (rule concat_filter_keys)
       (use chunk_keys[of cd r idx "dec_frames d"] keyed_sorted[OF _ _ assms(2) l, of r] assms(1) r idx raw_fps_pos in auto)
  moreover have "concat (map chunk_frames (chunks_of cd fps vs d)) =
      map (fst \<circ> snd) (concat (map (\<lambda>k. filter (\<lambda>x. fst x = k) ?kd) ?ks))"
    by (simp add: chunks_of_eq[OF r idx] map_concat comp_def)
  ultimately show ?thesis using keyed_frames[OF l, of cd r] by simp
qed

text \<open>
  C10. Chunking keeps every frame exactly once: a returned list of chunks has strictly increasing chunk
  indices, every chunk has at least one frame, one timestamp per frame, and all its timestamps within
  its start and end times; together the chunks hold the decoded frames, in the order of the video when
  the decoder's frame indices ascend.
\<close>

theorem decode_video_to_chunks_qwen_partition:
  assumes "decode_video_to_chunks_qwen dec cd fps recent vs ve nf = Inr (chunks, backend)"
    and "decode_frames dec cd fps recent vs ve nf = Inr d"
  shows "sorted_wrt (<) (map chunk_index chunks)
    \<and> (\<forall>c \<in> set chunks. chunk_frames c \<noteq> [] \<and> length (chunk_timestamps c) = length (chunk_frames c)
        \<and> (\<forall>t \<in> set (chunk_timestamps c). start_time c \<le> t \<and> t < end_time c))
    \<and> mset (concat (map chunk_frames chunks)) = mset (dec_frames d)
    \<and> (sorted (frame_indices_of (raw_fps_of fps d) vs d) \<longrightarrow> concat (map chunk_frames chunks) = dec_frames d)"
proof -
  have "0 < cd" using assms(2) by (auto simp: decode_frames_def split: if_splits)
  moreover have "chunks = chunks_of cd fps vs d" using assms by (simp add: decode_video_to_chunks_qwen_def)
  ultimately show ?thesis
    using chunk_indices chunk_mem chunks_frames_mset chunks_frames_sorted by blast
qed

definition example_decoders :: "int list \<Rightarrow> int decoders" where
  "example_decoders idx = \<lparr>use_exact_recent = False,
     fetch_video = (\<lambda>_. Inr \<lparr>dec_tensor = True, dec_frames = idx, dec_fps = Some 30,
       dec_indices = Some idx, dec_backend = None\<rparr>),
     fetch_recent = (\<lambda>_ _. Inl ValueError)\<rparr>"

theorem decode_video_to_chunks_qwen_partition_witness:
  "\<exists>chunks backend. decode_video_to_chunks_qwen (example_decoders [0, 30, 59, 89]) 1 1 None None None None = Inr (chunks, backend)
     \<and> concat (map chunk_frames chunks) = [0, 30, 59, 89]"
proof -
  obtain d where d: "decode_frames (example_decoders [0, 30, 59, 89]) 1 1 None None None None = Inr d"
    "dec_frames d = [0, 30, 59, 89]" "dec_indices d = Some [0, 30, 59, 89]"
    by (simp add: decode_frames_def example_decoders_def fetch_with_retry_def)
  then have "sorted (frame_indices_of (raw_fps_of 1 d) None d)" by (simp add: frame_indices_of_def)
  moreover have e: "decode_video_to_chunks_qwen (example_decoders [0, 30, 59, 89]) 1 1 None None None None
      = Inr (chunks_of 1 1 None d, decode_backend_of None None d)"
    by (simp add: decode_video_to_chunks_qwen_def d(1))
  ultimately have "concat (map chunk_frames (chunks_of 1 1 None d)) = [0, 30, 59, 89]"
    using decode_video_to_chunks_qwen_partition[OF e d(1)] d(2) by metis
  then show ?thesis using e by blast
qed

lemma length_filter_key: "distinct (map fst xs) \<Longrightarrow> length (filter (\<lambda>x. fst x = k) xs) \<le> 1"
proof (induction xs)
  case (Cons x xs)
  show ?case
  proof (cases "fst x = k")
    case True
    then have "\<not> (fst y = k)" if "y \<in> set xs" for y
      using that Cons.prems by (metis distinct.simps(2) imageI list.set_map list.simps(9))
    then have "filter (\<lambda>x. fst x = k) xs = []" by (simp add: filter_empty_conv)
    then show ?thesis by simp
  qed (use Cons in simp)
qed simp

definition spaced :: "real \<Rightarrow> int list \<Rightarrow> bool" where
  "spaced gap idx = sorted_wrt (\<lambda>i j. gap \<le> real_of_int (j - i)) idx"

lemma spaced_sorted: "spaced gap idx \<Longrightarrow> 0 \<le> gap \<Longrightarrow> sorted idx"
  unfolding spaced_def by (erule sorted_wrt_mono_rel[rotated]) simp

lemma spaced_tail: "spaced gap idx \<Longrightarrow> spaced gap (py_tail n idx)"
  unfolding spaced_def py_tail_def by (rule sorted_wrt_drop)

lemma keyed_distinct:
  assumes "spaced (cd * r) idx" "0 < r" "0 < cd" "length idx = length frames"
  shows "distinct (map fst (keyed cd r idx frames))"
proof -
  have "\<lfloor>real_of_int i / r / cd\<rfloor> < \<lfloor>real_of_int j / r / cd\<rfloor>" if "cd * r \<le> real_of_int (j - i)" for i j
  proof -
    have "real_of_int i / r / cd + 1 \<le> real_of_int j / r / cd"
    proof -
      have "real_of_int i / r / cd + 1 = (real_of_int i + cd * r) / (cd * r)"
        using assms(2,3) by (simp add: add_divide_distrib mult.commute)
      also have "\<dots> \<le> real_of_int j / (cd * r)"
        by (rule divide_right_mono) (use that assms(2,3) in auto)
      also have "\<dots> = real_of_int j / r / cd" by (simp add: mult.commute)
      finally show ?thesis .
    qed
    then show ?thesis by linarith
  qed
  then have "sorted_wrt (<) (map (\<lambda>i. \<lfloor>real_of_int i / r / cd\<rfloor>) idx)"
    using assms(1) unfolding spaced_def sorted_wrt_map by (metis (mono_tags, lifting) sorted_wrt_mono_rel)
  moreover have "map fst (keyed cd r idx frames) = map (\<lambda>i. \<lfloor>real_of_int i / r / cd\<rfloor>) idx"
    using map_fst_zip[OF assms(4)] map_map[of "\<lambda>i. \<lfloor>real_of_int i / r / cd\<rfloor>" fst "zip idx frames"]
    by (simp add: keyed_def comp_def case_prod_unfold)
  ultimately show ?thesis by (simp add: strict_sorted_iff)
qed

lemma chunk_single:
  assumes "c \<in> set (chunks_of cd fps vs d)" "0 < cd"
    and "spaced (cd * raw_fps_of fps d) (frame_indices_of (raw_fps_of fps d) vs d)"
  shows "length (chunk_frames c) = 1"
proof -
  define r idx where r: "r = raw_fps_of fps d" and idx: "idx = frame_indices_of r vs d"
  have "distinct (map fst (keyed cd r idx (dec_frames d)))"
    using keyed_distinct[OF _ _ assms(2)] assms(3) r idx raw_fps_pos frame_indices_length by blast
  from length_filter_key[OF this] have "length (chunk_frames c) \<le> 1"
    using assms(1) unfolding chunks_of_eq[OF r idx] by auto
  moreover have "chunk_frames c \<noteq> []" using chunk_mem[OF assms(1,2)] by blast
  ultimately show ?thesis by (cases "chunk_frames c") auto
qed

lemma length_window_frames_ge:
  "\<forall>c \<in> set cs. chunk_frames c \<noteq> [] \<Longrightarrow> length cs \<le> length (concat (map chunk_frames cs))"
proof (induction cs)
  case (Cons c cs)
  then show ?case by (cases "chunk_frames c") auto
qed simp

lemma length_window_frames_single:
  "\<forall>c \<in> set cs. length (chunk_frames c) = 1 \<Longrightarrow> length (concat (map chunk_frames cs)) = length cs"
  by (induction cs) auto

lemma window_suffix:
  assumes "concat (map chunk_frames chunks) = frames"
  shows "window_frames n chunks = py_tail (length (window_frames n chunks)) frames"
proof -
  obtain pre where "chunks = pre @ py_tail (nat (max 1 n)) chunks" using py_tail_suffix by blast
  then have "frames = concat (map chunk_frames pre) @ window_frames n chunks"
    using assms unfolding window_frames_def by (metis concat_append map_append)
  then show ?thesis by (simp add: py_tail_def)
qed

lemma py_tail_min: "py_tail (min m (length xs)) xs = py_tail m xs"
  by (simp add: py_tail_def min_def)

lemma window_spaced:
  assumes cd: "0 < cd" and sp: "spaced (cd * raw_fps_of fps d) (frame_indices_of (raw_fps_of fps d) vs d)"
  shows "window_frames n (chunks_of cd fps vs d) = py_tail (nat (max 1 n)) (dec_frames d)"
proof -
  let ?cs = "chunks_of cd fps vs d"
  let ?w = "py_tail (nat (max 1 n)) ?cs"
  have "sorted (frame_indices_of (raw_fps_of fps d) vs d)"
    using spaced_sorted[OF sp] cd raw_fps_pos[of fps d] by simp
  then have all: "concat (map chunk_frames ?cs) = dec_frames d" by (rule chunks_frames_sorted[OF _ cd])
  have one: "\<forall>c \<in> set ?cs. length (chunk_frames c) = 1" using chunk_single[OF _ cd sp] by blast
  then have "\<forall>c \<in> set ?w. length (chunk_frames c) = 1" using set_py_tail[of "nat (max 1 n)" ?cs] by auto
  then have "length (window_frames n ?cs) = min (nat (max 1 n)) (length (dec_frames d))"
    using length_window_frames_single[of ?w] length_window_frames_single[OF one] all
    unfolding window_frames_def by simp
  then show ?thesis using window_suffix[OF all, of n] py_tail_min by metis
qed

text \<open>
  The model is asked about the end of the video: when the frame indices ascend, the frames of the
  recent window are the last frames of the decoded video, at least as many as the window asks for, and
  exactly as many when consecutive frames are at least a chunk apart.
\<close>

theorem recent_window_last_frames:
  assumes "decode_video_to_chunks_qwen dec cd fps recent vs ve nf = Inr (chunks, backend)"
    and "decode_frames dec cd fps recent vs ve nf = Inr d"
    and "sorted (frame_indices_of (raw_fps_of fps d) vs d)"
  shows "window_frames n chunks = py_tail (length (window_frames n chunks)) (dec_frames d)
    \<and> min (nat (max 1 n)) (length (dec_frames d)) \<le> length (window_frames n chunks)
    \<and> (spaced (cd * raw_fps_of fps d) (frame_indices_of (raw_fps_of fps d) vs d)
         \<longrightarrow> window_frames n chunks = py_tail (nat (max 1 n)) (dec_frames d))"
proof -
  have cd: "0 < cd" using assms(2) by (auto simp: decode_frames_def split: if_splits)
  have cs: "chunks = chunks_of cd fps vs d" using assms(1,2) by (simp add: decode_video_to_chunks_qwen_def)
  have all: "concat (map chunk_frames chunks) = dec_frames d"
    unfolding cs by (rule chunks_frames_sorted[OF assms(3) cd])
  let ?w = "py_tail (nat (max 1 n)) chunks"
  have mem: "c \<in> set chunks" if "c \<in> set ?w" for c
    using that set_py_tail[of "nat (max 1 n)" chunks] by auto
  have ge: "min (nat (max 1 n)) (length (dec_frames d)) \<le> length (window_frames n chunks)"
  proof (cases "length chunks \<le> nat (max 1 n)")
    case True
    then show ?thesis using all by (simp add: window_frames_def py_tail_all)
  next
    case False
    have "\<forall>c \<in> set ?w. chunk_frames c \<noteq> []" using mem chunk_mem[OF _ cd] cs by blast
    then have "length ?w \<le> length (window_frames n chunks)"
      unfolding window_frames_def by (rule length_window_frames_ge)
    then show ?thesis using False by simp
  qed
  show ?thesis
    using window_suffix[OF all, of n] ge window_spaced[OF cd, of fps d vs n] cs by blast
qed

theorem recent_window_last_frames_witness:
  "\<exists>chunks backend. decode_video_to_chunks_qwen (example_decoders [0, 30, 59, 89]) 1 1 None None None None = Inr (chunks, backend)
     \<and> (\<exists>m \<ge> 2. window_frames 2 chunks = py_tail m [0, 30, 59, 89])"
proof -
  obtain d where d: "decode_frames (example_decoders [0, 30, 59, 89]) 1 1 None None None None = Inr d"
    "dec_frames d = [0, 30, 59, 89]" "dec_indices d = Some [0, 30, 59, 89]"
    by (simp add: decode_frames_def example_decoders_def fetch_with_retry_def)
  then have s: "sorted (frame_indices_of (raw_fps_of 1 d) None d)" by (simp add: frame_indices_of_def)
  have e: "decode_video_to_chunks_qwen (example_decoders [0, 30, 59, 89]) 1 1 None None None None
      = Inr (chunks_of 1 1 None d, decode_backend_of None None d)"
    by (simp add: decode_video_to_chunks_qwen_def d(1))
  let ?w = "window_frames 2 (chunks_of 1 1 None d)"
  have "?w = py_tail (length ?w) [0, 30, 59, 89]" "2 \<le> length ?w"
    using recent_window_last_frames[OF e d(1) s, of 2] unfolding d(2) by (simp_all add: numeral_2_eq_2)
  then show ?thesis using e by blast
qed


definition example_video :: "int list \<Rightarrow> int decoded" where
  "example_video idx =
     \<lparr>dec_tensor = True, dec_frames = idx, dec_fps = Some 30, dec_indices = Some idx, dec_backend = None\<rparr>"

lemma example_raw_fps: "raw_fps_of fps (example_video idx) = 30"
  by (simp add: raw_fps_of_def example_video_def)


text \<open>
  When sampled frames are closer than a chunk the tail decoder is not exact: four frames sampled
  from a three-second video at 30 frames a second fall into three one-second chunks, so the window of
  two chunks has three frames after a full decode and two after the exact one.
\<close>

theorem exact_recent_window_differs:
  "window_frames 2 (chunks_of 1 1 None (example_video [0, 30, 59, 89])) = [30, 59, 89]
    \<and> window_frames 2 (chunks_of 1 1 None (example_video [59, 89])) = [59, 89]"
  by (simp add: window_frames_def chunks_of_def Let_def frame_indices_of_def example_raw_fps)
     (simp add: example_video_def frame_buckets_def group_scores_by_def make_chunk_def py_tail_def)

section \<open>The sampling plan\<close>

lemma linspace_mono:
  assumes "a \<le> b"
  shows "sorted (linspace a b n)" and "\<And>x. x \<in> set (linspace a b n) \<Longrightarrow> real_of_int a \<le> x \<and> x \<le> real_of_int b"
proof -
  have step: "0 \<le> real_of_int (b - a) / real (n - 1)" using assms by simp
  show "sorted (linspace a b n)"
  proof (cases "n = 1")
    case False
    have "real i * (real_of_int (b - a) / real (n - 1)) \<le> real j * (real_of_int (b - a) / real (n - 1))"
      if "i \<le> j" for i j
      using that step by (intro mult_right_mono) auto
    then show ?thesis
      unfolding linspace_def sorted_map using False
      by (intro sorted_wrt_mono_rel[OF _ sorted_upt]) simp
  qed (simp add: linspace_def)
  show "real_of_int a \<le> x \<and> x \<le> real_of_int b" if x: "x \<in> set (linspace a b n)" for x
  proof -
    obtain i where i: "i < n" "x = (if n = 1 then real_of_int a else real_of_int a + real i * (real_of_int (b - a) / real (n - 1)))"
      using x unfolding linspace_def set_map image_iff by auto
    show ?thesis
    proof (cases "n = 1")
      case False
      have "real i * (real_of_int (b - a) / real (n - 1)) \<le> real (n - 1) * (real_of_int (b - a) / real (n - 1))"
        using i(1) step by (intro mult_right_mono) auto
      also have "\<dots> = real_of_int (b - a)" using False i(1) by simp
      finally show ?thesis using i(2) False mult_nonneg_nonneg[OF of_nat_0_le_iff step, of i] by (simp del: times_divide_eq_right)
    qed (use i assms in simp)
  qed
qed

text \<open>
  A sampling plan reads the frames the full sampling would: the indices ascend and stay within the
  frame range, there is one for each sampled frame, the first is the start of the range and, with two
  or more, the last is its end; the tail is the last \<open>n\<close> of them, and at least one is kept.
\<close>

theorem sampling_plan_indices:
  assumes "build_sampling_plan lib ele n = Inr plan" "plan_start plan \<le> plan_end plan"
  shows "sorted (plan_full plan) \<and> length (plan_full plan) = plan_nframes plan
    \<and> (\<forall>i \<in> set (plan_full plan). plan_start plan \<le> i \<and> i \<le> plan_end plan)
    \<and> (plan_nframes plan \<noteq> 0 \<longrightarrow> hd (plan_full plan) = plan_start plan)
    \<and> (2 \<le> plan_nframes plan \<longrightarrow> last (plan_full plan) = plan_end plan)
    \<and> plan_tail plan = py_tail (nat (max 1 n)) (plan_full plan)
    \<and> (plan_nframes plan \<noteq> 0 \<longrightarrow> plan_tail plan \<noteq> [])"
proof -
  define a b m where abm: "a = plan_start plan" "b = plan_end plan" "m = plan_nframes plan"
  have full: "plan_full plan = map round_even (linspace a b m)"
    and tail: "plan_tail plan = py_tail (nat (max 1 n)) (plan_full plan)"
    using assms(1) by (auto simp: abm build_sampling_plan_def Let_def split: option.splits if_splits prod.splits)
  have ab: "a \<le> b" using assms(2) by (simp add: abm)
  have "sorted (plan_full plan)"
    unfolding full sorted_map by (rule sorted_wrt_mono_rel[OF _ linspace_mono(1)[OF ab]]) (rule round_even_mono)
  moreover have "a \<le> i \<and> i \<le> b" if i: "i \<in> set (plan_full plan)" for i
  proof -
    obtain x where x: "x \<in> set (linspace a b m)" "i = round_even x" using i full by auto
    then have "real_of_int a \<le> x" "x \<le> real_of_int b" using linspace_mono(2)[OF ab] by auto
    then show ?thesis using round_even_mono round_even_of_int x(2) by metis
  qed
  moreover have len: "length (plan_full plan) = m" by (simp add: full linspace_def)
  moreover have "hd (plan_full plan) = a" if "m \<noteq> 0"
  proof -
    have "linspace a b m ! 0 = real_of_int a" using that by (simp add: linspace_def)
    then show ?thesis
      using that len by (cases "linspace a b m") (auto simp: full round_even_of_int)
  qed
  moreover have "last (plan_full plan) = b" if "2 \<le> m"
  proof -
    have "linspace a b m ! (m - 1) = real_of_int b" using that by (simp add: linspace_def)
    moreover have "linspace a b m \<noteq> []" "length (linspace a b m) = m" using that by (auto simp: linspace_def)
    ultimately have "last (linspace a b m) = real_of_int b" by (simp add: last_conv_nth)
    then show ?thesis using \<open>linspace a b m \<noteq> []\<close> by (simp add: full last_map round_even_of_int)
  qed
  moreover have "plan_tail plan \<noteq> []" if "m \<noteq> 0"
  proof -
    have "0 < length (plan_tail plan)" using that len tail by simp
    then show ?thesis by simp
  qed
  ultimately show ?thesis using tail by (simp add: abm)
qed

definition example_lib :: "int video_lib" where
  "example_lib = \<lparr>lib_backend = Decord, lib_total = (\<lambda>_. 90), lib_fps = (\<lambda>_. 30),
     lib_range = (\<lambda>_ total _. (0, total - 1, total)), lib_nframes = (\<lambda>_ _ _. 4), lib_frame = (\<lambda>_ i. i),
     lib_height_width = (\<lambda>_. (28, 28)), lib_resize_to = (\<lambda>h w _. (h, w)),
     lib_smart_resize = (\<lambda>_ _ f _ _. (f, f)), lib_resize = (\<lambda>_ f. f)\<rparr>"

definition example_ele :: video_ele where
  "example_ele = \<lparr>ele_path = Some ''v.mp4'', ele_min_pixels = None, ele_total_pixels = None,
     ele_max_pixels = None, ele_resized = None\<rparr>"

theorem sampling_plan_indices_witness:
  "\<exists>plan. build_sampling_plan example_lib example_ele 2 = Inr plan \<and> sorted (plan_full plan)
     \<and> last (plan_full plan) = 89 \<and> plan_tail plan = py_tail 2 (plan_full plan)"
proof -
  obtain plan where plan: "build_sampling_plan example_lib example_ele 2 = Inr plan"
    "plan_start plan = 0" "plan_end plan = 89" "plan_nframes plan = 4"
    by (simp add: build_sampling_plan_def example_lib_def example_ele_def Let_def)
  then show ?thesis using sampling_plan_indices[OF plan(1)] by simp
qed

text \<open>
  When the full decode reads every planned frame and resizes each as the plan's count tells it to, the
  comparison the module offers finds equal indices and equal pixels.
\<close>

lemma exact_decoder_matches_full:
  assumes fetch: "\<And>e k. fetch e k = bind_res (build_sampling_plan lib e 1) (\<lambda>p. bind_res (get_key (ele_path e)) (\<lambda>path.
      bind_res (resize_target lib pb e path (plan_nframes p) k) (\<lambda>t.
      Inr (map (\<lambda>i. lib_resize lib t (lib_frame lib path i)) (plan_full p), plan_full p))))"
    and report: "verify_recent_video_exact_matches_full lib pb fetch ele n k = Inr rep"
  shows "same_indices rep \<and> same_pixels rep"
proof -
  obtain path p1 where p1: "ele_path ele = Some path" "build_sampling_plan lib ele 1 = Inr p1"
    using report unfolding verify_recent_video_exact_matches_full_def fetch
    by (auto simp: bind_res_eq_Inr get_key_def split: option.splits)
  obtain p where p: "build_sampling_plan lib ele n = Inr p"
    using report unfolding verify_recent_video_exact_matches_full_def fetch_recent_video_exact_def
    by (auto simp: bind_res_eq_Inr)
  have same: "plan_full p1 = plan_full p" "plan_nframes p1 = plan_nframes p"
    and tail: "plan_tail p = py_tail (nat (max 1 n)) (plan_full p)"
    using p1 p by (auto simp: build_sampling_plan_def Let_def split: option.splits if_splits prod.splits)
  have tl: "(if xs = [] then ys else py_tail (length xs) ys) = py_tail (nat (max 1 n)) ys"
    if "xs = py_tail (nat (max 1 n)) zs" "length ys = length zs" for xs :: "int list" and ys :: "'c list" and zs
  proof (cases "ys = []")
    case False
    have l: "length xs = min (nat (max 1 n)) (length ys)" using that by simp
    moreover have "xs \<noteq> []"
    proof
      assume "xs = []"
      then have "min (nat (max 1 n)) (length ys) = 0" using l by simp
      moreover have "0 < nat (max 1 n)" "0 < length ys" using False by simp_all
      ultimately show False by linarith
    qed
    ultimately show ?thesis using py_tail_min[of _ ys] by simp
  qed (simp add: py_tail_def)
  show ?thesis
    using report p1 p same tl[OF tail, of "plan_full p"]
      tl[OF tail, of "map (\<lambda>i. lib_resize lib t (lib_frame lib path i)) (plan_full p)" for t] tail
    by (auto simp: verify_recent_video_exact_matches_full_def fetch fetch_recent_video_exact_def get_key_def Let_def
        bind_res_eq_Inr map_py_tail)
qed

section \<open>The rows of the cached vision prompt\<close>

lemma scatter_free:
  "img \<notin> set ids \<Longrightarrow> length es = length ids \<Longrightarrow> scatter_rows img ids es rows = Inr es"
  by (induction img ids es rows rule: scatter_rows.induct) auto

lemma scatter_append_free:
  "img \<notin> set pre \<Longrightarrow> length es1 = length pre \<Longrightarrow>
   scatter_rows img (pre @ ids) (es1 @ es) rows = bind_res (scatter_rows img ids es rows) (\<lambda>out. Inr (es1 @ out))"
proof (induction pre arbitrary: es1)
  case Nil
  then show ?case by (cases "scatter_rows img ids es rows") auto
next
  case (Cons i pre)
  then obtain e es1' where "es1 = e # es1'" by (cases es1) auto
  then show ?case using Cons by (cases "scatter_rows img ids es rows") auto
qed

lemma scatter_block:
  "length es1 = length rows \<Longrightarrow>
   scatter_rows img (replicate (length rows) img @ ids) (es1 @ es) (rows @ rest)
     = bind_res (scatter_rows img ids es rest) (\<lambda>out. Inr (rows @ out))"
proof (induction rows arbitrary: es1)
  case Nil
  then show ?case by (cases "scatter_rows img ids es rest") auto
next
  case (Cons r rows)
  then obtain e es1' where "es1 = e # es1'" by (cases es1) auto
  then show ?case using Cons by (cases "scatter_rows img ids es rest") auto
qed

lemma scatter_exhausted:
  "img \<in> set ids \<Longrightarrow> length es = length ids \<Longrightarrow> scatter_rows img ids es [] = Inl RuntimeError"
proof (induction ids arbitrary: es)
  case (Cons i ids)
  then obtain e es' where "es = e # es'" by (cases es) auto
  then show ?case using Cons by auto
qed simp

text \<open>The tokens before and after the image tokens of the prompt.\<close>

definition prompt_head :: "tokenizer \<Rightarrow> int list" where
  "prompt_head t = [im_start_id t] @ encode t (''user'' @ newline) @ [vision_start_id t]"

definition prompt_rest :: "tokenizer \<Rightarrow> string \<Rightarrow> int list" where
  "prompt_rest t question = [vision_end_id t] @ encode t newline @ encode t question
     @ [im_end_id t] @ encode t newline @ [im_start_id t] @ encode t (''assistant'' @ newline)"

lemma prompt_ids_split: "prompt_ids t n q = prompt_head t @ replicate n (image_token_id t) @ prompt_rest t q"
  by (simp add: prompt_ids_def prompt_head_def prompt_rest_def)

text \<open>
  The cached vision rows stand where the image tokens are: when neither the chat template nor the
  question contains the image token, the model runs on the embedded head, exactly the cached rows in
  their order, and the embedded rest; a question that contains the image token, which the tokenizer
  produces for the literal special token, is a runtime error.
\<close>

theorem cached_vision_rows:
  assumes "image_token_id t \<notin> set (prompt_head t)" "image_token_id t \<notin> set (prompt_rest t [] )"
    and "encode t [] = []"
  shows "generate_with_cached_vision t emb rope generate decode rows grid q =
    (if image_token_id t \<in> set (encode t q) then Inl RuntimeError
     else Inr (strip (decode (trim_generated (length (prompt_head t) + length rows + length (prompt_rest t q))
       (generate (map emb (prompt_head t) @ rows @ map emb (prompt_rest t q))
         (rope (prompt_ids t (length rows) q) grid))))))"
proof -
  let ?img = "image_token_id t"
  have rest: "?img \<in> set (prompt_rest t q) \<longleftrightarrow> ?img \<in> set (encode t q)"
    using assms(2,3) by (auto simp: prompt_rest_def)
  have "scatter_rows ?img (prompt_ids t (length rows) q) (map emb (prompt_ids t (length rows) q)) rows
      = bind_res (scatter_rows ?img (prompt_rest t q) (map emb (prompt_rest t q)) [])
          (\<lambda>out. Inr (map emb (prompt_head t) @ rows @ out))"
    using scatter_append_free[OF assms(1), of "map emb (prompt_head t)"]
      scatter_block[of "replicate (length rows) (emb ?img)" rows ?img "prompt_rest t q" "map emb (prompt_rest t q)" "[]"]
    by (cases "scatter_rows ?img (prompt_rest t q) (map emb (prompt_rest t q)) []")
       (simp_all add: prompt_ids_split)
  then show ?thesis
    using scatter_exhausted[of ?img "prompt_rest t q" "map emb (prompt_rest t q)"]
      scatter_free[of ?img "prompt_rest t q" "map emb (prompt_rest t q)" "[]"] rest
    by (auto simp: generate_with_cached_vision_def Let_def prompt_ids_split add.assoc)
qed

definition example_tokenizer :: tokenizer where
  "example_tokenizer = \<lparr>encode = map (\<lambda>c. int (of_char c)), im_start_id = 1001, im_end_id = 1002,
     vision_start_id = 1003, vision_end_id = 1004, image_token_id = 1005\<rparr>"

theorem cached_vision_rows_witness:
  "\<exists>a. generate_with_cached_vision example_tokenizer (\<lambda>i. i) (\<lambda>_ (_ :: unit list). ()) (\<lambda>es _. [int (length es)])
     (\<lambda>ids. ''ok'') [7, 8 :: int] [] ''Hi?'' = Inr a"
proof -
  have "(1005 :: int) \<noteq> int (of_char c)" for c :: char
    using nat_of_char_less_256[of c] by linarith
  then have "image_token_id example_tokenizer \<notin> set (prompt_head example_tokenizer)"
    "\<And>q. image_token_id example_tokenizer \<notin> set (prompt_rest example_tokenizer q)"
    "\<And>q. image_token_id example_tokenizer \<notin> set (encode example_tokenizer q)"
    "encode example_tokenizer [] = []"
    by (auto simp: example_tokenizer_def prompt_head_def prompt_rest_def)
  then show ?thesis by (simp add: cached_vision_rows)
qed

end
