(* ===== verification/Data_Proto.thy ===== *)
theory Data_Proto
  imports Prelude
begin

text \<open>
  The batch protocol, \<open>verl/protocol.py\<close>.  A batch has tensor columns (a \<open>TensorDict\<close> with one batch
  dimension), numpy columns and meta information, all dictionaries in insertion order.  A column is
  the list of its rows along the batch dimension; what a row is, a tensor or any object, is a type
  parameter.  Devices, serialisation and the element-wise shapes below a row are not modelled.
\<close>

section \<open>Dictionaries\<close>

type_synonym 'v dict = "(string \<times> 'v) list"

text \<open>\<open>d[k] = v\<close>: in place for a known key, at the end for a new one.\<close>

fun dict_put :: "string \<Rightarrow> 'v \<Rightarrow> 'v dict \<Rightarrow> 'v dict" where
  "dict_put k v [] = [(k, v)]"
| "dict_put k v ((a, b) # d) = (if a = k then (a, v) # d else (a, b) # dict_put k v d)"

definition has_key :: "'v dict \<Rightarrow> string \<Rightarrow> bool" where
  "has_key d k \<longleftrightarrow> k \<in> set (map fst d)"

definition map_dict :: "('v \<Rightarrow> 'w) \<Rightarrow> 'v dict \<Rightarrow> 'w dict" where
  "map_dict f d = map (\<lambda>(k, v). (k, f v)) d"

text \<open>The values meta information holds.\<close>

datatype py = PNone | PBool bool | PNum real | PStr string | PList "py list" | PDict "py dict"

fun truthy :: "py \<Rightarrow> bool" where
  "truthy PNone = False"
| "truthy (PBool b) = b"
| "truthy (PNum x) = (x \<noteq> 0)"
| "truthy (PStr s) = (s \<noteq> [])"
| "truthy (PList l) = (l \<noteq> [])"
| "truthy (PDict d) = (d \<noteq> [])"

text \<open>\<open>union_two_dict\<close> and \<open>union_numpy_dict\<close>: the values of a shared key must be equal.\<close>

fun union_dict :: "'v dict \<Rightarrow> 'v dict \<Rightarrow> 'v dict res" where
  "union_dict d1 [] = Inr d1"
| "union_dict d1 ((k, v) # d2) =
     (case map_of d1 k of
        None \<Rightarrow> union_dict (dict_put k v d1) d2
      | Some w \<Rightarrow> require (w = v) AssertionError (union_dict (dict_put k v d1) d2))"

text \<open>\<open>list_of_dict_to_dict_of_list\<close>: the keys are those of the first dictionary.\<close>

fun append_items :: "'v list dict \<Rightarrow> 'v dict \<Rightarrow> 'v list dict res" where
  "append_items out [] = Inr out"
| "append_items out ((k, v) # d) =
     (case map_of out k of
        None \<Rightarrow> Inl AssertionError
      | Some vs \<Rightarrow> append_items (dict_put k (vs @ [v]) out) d)"

fun append_dicts :: "'v list dict \<Rightarrow> 'v dict list \<Rightarrow> 'v list dict res" where
  "append_dicts out [] = Inr out"
| "append_dicts out (d # ds) = bind_res (append_items out d) (\<lambda>out'. append_dicts out' ds)"

definition list_of_dict_to_dict_of_list :: "'v dict list \<Rightarrow> 'v list dict res" where
  "list_of_dict_to_dict_of_list ds =
     (case ds of [] \<Rightarrow> Inr [] | d # _ \<Rightarrow> append_dicts (map_dict (\<lambda>_. []) d) ds)"

section \<open>Batches\<close>

record 'a tensor_dict =
  td_size :: nat
  td_cols :: "'a list dict"

record ('a, 'b) data_proto =
  batch :: "'a tensor_dict option"
  non_tensor_batch :: "'b list dict"
  meta_info :: "py dict"

definition check_consistency :: "('a, 'b) data_proto \<Rightarrow> bool" where
  "check_consistency d \<longleftrightarrow>
     (case batch d of None \<Rightarrow> True
      | Some td \<Rightarrow> list_all (\<lambda>(_, col). length col = td_size td) (non_tensor_batch d))"

definition make_proto ::
  "'a tensor_dict option \<Rightarrow> 'b list dict \<Rightarrow> py dict \<Rightarrow> ('a, 'b) data_proto res" where
  "make_proto b nt meta =
     (let d = \<lparr>batch = b, non_tensor_batch = nt, meta_info = meta\<rparr> in
      require (check_consistency d) AssertionError (Inr d))"

definition proto_len :: "('a, 'b) data_proto \<Rightarrow> nat" where
  "proto_len d =
     (case batch d of
        Some td \<Rightarrow> td_size td
      | None \<Rightarrow> (case non_tensor_batch d of [] \<Rightarrow> 0 | (_, col) # _ \<Rightarrow> length col))"

text \<open>Every operation on rows treats all columns alike: \<open>f\<close> on the tensor columns, \<open>g\<close> on the numpy
  ones, \<open>n\<close> the new batch size.\<close>

definition map_columns ::
  "('a list \<Rightarrow> 'c list) \<Rightarrow> ('b list \<Rightarrow> 'd list) \<Rightarrow> nat \<Rightarrow> ('a, 'b) data_proto \<Rightarrow> ('c, 'd) data_proto res" where
  "map_columns f g n d =
     make_proto (map_option (\<lambda>td. \<lparr>td_size = n, td_cols = map_dict f (td_cols td)\<rparr>) (batch d))
       (map_dict g (non_tensor_batch d)) (meta_info d)"

section \<open>Rows by position\<close>

text \<open>An index may count from the end.\<close>

definition norm_idx :: "nat \<Rightarrow> int \<Rightarrow> nat res" where
  "norm_idx n i = (let j = (if i < 0 then i + int n else i) in
     require (0 \<le> j \<and> j < int n) IndexError (Inr (nat j)))"

definition gather :: "nat list \<Rightarrow> 'x list \<Rightarrow> 'x list" where
  "gather js col = map ((!) col) js"

definition select_idxs :: "int list \<Rightarrow> ('a, 'b) data_proto \<Rightarrow> ('a, 'b) data_proto res" where
  "select_idxs idxs d =
     bind_res (map_res (norm_idx (proto_len d)) idxs) (\<lambda>js. map_columns (gather js) (gather js) (length idxs) d)"

definition mask_positions :: "bool list \<Rightarrow> nat list" where
  "mask_positions m = filter ((!) m) [0..<length m]"

definition select_mask :: "bool list \<Rightarrow> ('a, 'b) data_proto \<Rightarrow> ('a, 'b) data_proto res" where
  "select_mask m d =
     require (length m = proto_len d) IndexError
       (map_columns (gather (mask_positions m)) (gather (mask_positions m)) (length (mask_positions m)) d)"

text \<open>\<open>slice(start, end, step)\<close> with a positive step: bounds from the end, clipped to the length.\<close>

definition slice_bound :: "nat \<Rightarrow> nat \<Rightarrow> int option \<Rightarrow> nat" where
  "slice_bound n dflt b =
     (case b of None \<Rightarrow> dflt
      | Some i \<Rightarrow> nat (min (int n) (max 0 (if i < 0 then i + int n else i))))"

definition slice_positions :: "nat \<Rightarrow> int option \<Rightarrow> int option \<Rightarrow> nat \<Rightarrow> nat list" where
  "slice_positions n start stop step =
     filter (\<lambda>i. (i - slice_bound n 0 start) mod step = 0) [slice_bound n 0 start ..< slice_bound n n stop]"

definition proto_slice ::
  "int option \<Rightarrow> int option \<Rightarrow> int option \<Rightarrow> ('a, 'b) data_proto \<Rightarrow> ('a, 'b) data_proto res" where
  "proto_slice start stop step d =
     (let s = (case step of None \<Rightarrow> 1 | Some k \<Rightarrow> k) in
      require (0 < s) ValueError
        (let js = slice_positions (proto_len d) start stop (nat s) in map_columns (gather js) (gather js) (length js) d))"

text \<open>One row, \<open>self[item]\<close>.\<close>

record ('a, 'b) data_item =
  item_batch :: "'a dict option"
  item_non_tensor :: "'b dict"
  item_meta :: "py dict"

definition get_item :: "int \<Rightarrow> ('a, 'b) data_proto \<Rightarrow> ('a, 'b) data_item res" where
  "get_item i d =
     bind_res (norm_idx (proto_len d) i) (\<lambda>j.
     Inr \<lparr>item_batch = map_option (\<lambda>td. map_dict (\<lambda>col. col ! j) (td_cols td)) (batch d),
          item_non_tensor = map_dict (\<lambda>col. col ! j) (non_tensor_batch d), item_meta = meta_info d\<rparr>)"

text \<open>\<open>reorder\<close> assigns in place and is not checked again; a batch without tensors cannot be indexed.\<close>

definition reorder :: "int list \<Rightarrow> ('a, 'b) data_proto \<Rightarrow> ('a, 'b) data_proto res" where
  "reorder indices d =
     (case batch d of
        None \<Rightarrow> Inl TypeError
      | Some td \<Rightarrow>
          bind_res (map_res (norm_idx (td_size td)) indices) (\<lambda>js.
          Inr (d\<lparr>batch := Some \<lparr>td_size = length indices, td_cols = map_dict (gather js) (td_cols td)\<rparr>,
                 non_tensor_batch := map_dict (gather js) (non_tensor_batch d)\<rparr>)))"

section \<open>Repetition\<close>

definition repeat_interleave :: "nat \<Rightarrow> 'x list \<Rightarrow> 'x list" where
  "repeat_interleave n col = concat (map (replicate n) col)"

definition tile :: "nat \<Rightarrow> 'x list \<Rightarrow> 'x list" where
  "tile n col = concat (replicate n col)"

definition proto_repeat :: "nat \<Rightarrow> bool \<Rightarrow> ('a, 'b) data_proto \<Rightarrow> ('a, 'b) data_proto res" where
  "proto_repeat n interleave d =
     (if interleave then map_columns (repeat_interleave n) (repeat_interleave n) (proto_len d * n) d
      else map_columns (tile n) (tile n) (proto_len d * n) d)"

definition repeat_each :: "nat list \<Rightarrow> 'x list \<Rightarrow> 'x list" where
  "repeat_each ns col = concat (map2 replicate ns col)"

definition sample_level_repeat :: "nat list \<Rightarrow> ('a, 'b) data_proto \<Rightarrow> ('a, 'b) data_proto res" where
  "sample_level_repeat ns d =
     require (length ns = proto_len d) RuntimeError (map_columns (repeat_each ns) (repeat_each ns) (sum_list ns) d)"

section \<open>Columns by name\<close>

text \<open>\<open>from_dict\<close> over one batch dimension: the tensors must agree on their length.\<close>

fun common_size :: "nat option \<Rightarrow> 'a list dict \<Rightarrow> nat option res" where
  "common_size n [] = Inr n"
| "common_size n ((k, col) # d) =
     (case n of
        None \<Rightarrow> common_size (Some (length col)) d
      | Some m \<Rightarrow> require (m = length col) AssertionError (common_size n d))"

definition from_dict ::
  "'a list dict \<Rightarrow> 'b list dict \<Rightarrow> py dict \<Rightarrow> bool \<Rightarrow> ('a, 'b) data_proto res" where
  "from_dict tensors non_tensors meta auto_padding =
     bind_res (common_size None tensors) (\<lambda>n.
     make_proto (map_option (\<lambda>m. \<lparr>td_size = m, td_cols = tensors\<rparr>) n) non_tensors
       (if auto_padding then dict_put ''_verl_auto_padding'' (PBool True) meta else meta))"

datatype ('a, 'b) column = TensorCol "'a list" | NumpyCol "'b list" | OtherCol

fun split_columns ::
  "('a, 'b) column dict \<Rightarrow> 'a list dict \<Rightarrow> 'b list dict \<Rightarrow> ('a list dict \<times> 'b list dict) res" where
  "split_columns [] ts ns = Inr (ts, ns)"
| "split_columns ((k, TensorCol c) # d) ts ns = split_columns d (dict_put k c ts) ns"
| "split_columns ((k, NumpyCol c) # d) ts ns = split_columns d ts (dict_put k c ns)"
| "split_columns ((k, OtherCol) # d) ts ns = Inl ValueError"

definition from_single_dict :: "('a, 'b) column dict \<Rightarrow> py dict \<Rightarrow> bool \<Rightarrow> ('a, 'b) data_proto res" where
  "from_single_dict data meta auto_padding =
     bind_res (split_columns data [] []) (\<lambda>(ts, ns). from_dict ts ns meta auto_padding)"

text \<open>\<open>select\<close>: the tensor keys in the order asked for, the others filtered.\<close>

definition select_td :: "string list \<Rightarrow> 'a tensor_dict \<Rightarrow> 'a tensor_dict res" where
  "select_td ks td =
     bind_res (map_res (\<lambda>k. case map_of (td_cols td) k of None \<Rightarrow> Inl KeyError | Some c \<Rightarrow> Inr (k, c)) ks)
       (\<lambda>cols. Inr \<lparr>td_size = td_size td, td_cols = cols\<rparr>)"

definition filter_keys :: "string list option \<Rightarrow> 'v dict \<Rightarrow> 'v dict" where
  "filter_keys ks d = (case ks of None \<Rightarrow> d | Some l \<Rightarrow> filter (\<lambda>(k, _). k \<in> set l) d)"

definition proto_select ::
  "string list option \<Rightarrow> string list option \<Rightarrow> string list option \<Rightarrow> ('a, 'b) data_proto \<Rightarrow> ('a, 'b) data_proto res" where
  "proto_select batch_keys non_tensor_keys meta_keys d =
     bind_res (case (batch_keys, batch d) of
         (None, b) \<Rightarrow> Inr b
       | (Some ks, None) \<Rightarrow> Inl AttributeError
       | (Some ks, Some td) \<Rightarrow> bind_res (select_td ks td) (\<lambda>t. Inr (Some t)))
       (\<lambda>b. make_proto b (filter_keys non_tensor_keys (non_tensor_batch d)) (filter_keys meta_keys (meta_info d)))"

text \<open>\<open>pop\<close> moves columns out of the batch: the popped batch and what is left.\<close>

fun pop_keys :: "string list \<Rightarrow> 'v dict \<Rightarrow> 'v dict \<Rightarrow> ('v dict \<times> 'v dict) res" where
  "pop_keys [] out d = Inr (out, d)"
| "pop_keys (k # ks) out d =
     (case map_of d k of
        None \<Rightarrow> Inl AssertionError
      | Some v \<Rightarrow> pop_keys ks (dict_put k v out) (filter (\<lambda>(j, _). j \<noteq> k) d))"

definition proto_pop ::
  "string list \<Rightarrow> string list \<Rightarrow> string list \<Rightarrow> ('a, 'b) data_proto \<Rightarrow> (('a, 'b) data_proto \<times> ('a, 'b) data_proto) res" where
  "proto_pop batch_keys non_tensor_keys meta_keys d =
     bind_res (case batch d of
         None \<Rightarrow> if batch_keys = [] then Inr ([], None) else Inl AttributeError
       | Some td \<Rightarrow> bind_res (pop_keys batch_keys [] (td_cols td)) (\<lambda>(out, rest). Inr (out, Some (td\<lparr>td_cols := rest\<rparr>))))
       (\<lambda>(tensors, b).
     bind_res (pop_keys non_tensor_keys [] (non_tensor_batch d)) (\<lambda>(nts, nt_rest).
     bind_res (pop_keys meta_keys [] (meta_info d)) (\<lambda>(metas, meta_rest).
     bind_res (from_dict tensors nts metas False) (\<lambda>popped.
     Inr (popped, \<lparr>batch = b, non_tensor_batch = nt_rest, meta_info = meta_rest\<rparr>)))))"

text \<open>\<open>union\<close> adds the columns of another batch; it needs tensors on both sides.\<close>

definition union_tensor_dict :: "'a tensor_dict option \<Rightarrow> 'a tensor_dict option \<Rightarrow> 'a tensor_dict res" where
  "union_tensor_dict t1 t2 =
     (case (t1, t2) of
        (Some a, Some b) \<Rightarrow>
          require (td_size a = td_size b) AssertionError
            (bind_res (union_dict (td_cols a) (td_cols b)) (\<lambda>cols. Inr (a\<lparr>td_cols := cols\<rparr>)))
      | _ \<Rightarrow> Inl AttributeError)"

definition proto_union :: "('a, 'b) data_proto \<Rightarrow> ('a, 'b) data_proto \<Rightarrow> ('a, 'b) data_proto res" where
  "proto_union d other =
     bind_res (union_tensor_dict (batch d) (batch other)) (\<lambda>b.
     bind_res (union_dict (non_tensor_batch d) (non_tensor_batch other)) (\<lambda>nt.
     bind_res (union_dict (meta_info d) (meta_info other)) (\<lambda>meta.
     Inr \<lparr>batch = Some b, non_tensor_batch = nt, meta_info = meta\<rparr>)))"

section \<open>Concatenation\<close>

text \<open>Tensor columns are matched by name, over the names of the first batch.\<close>

definition cat_td :: "'a tensor_dict list \<Rightarrow> 'a tensor_dict res" where
  "cat_td tds =
     (let ks = map fst (td_cols (hd tds)) in
      require (list_all (\<lambda>t. set (map fst (td_cols t)) = set ks) tds) KeyError
        (Inr \<lparr>td_size = sum_list (map td_size tds),
              td_cols = map (\<lambda>k. (k, concat (map (\<lambda>t. the (map_of (td_cols t) k)) tds))) ks\<rparr>))"

definition cat_batches :: "('a, 'b) data_proto list \<Rightarrow> 'a tensor_dict option res" where
  "cat_batches ds =
     (case batch (hd ds) of
        None \<Rightarrow> Inr None
      | Some _ \<Rightarrow>
          require (list_all (\<lambda>d. batch d \<noteq> None) ds) TypeError
            (bind_res (cat_td (map (\<lambda>d. the (batch d)) ds)) (\<lambda>t. Inr (Some t))))"

text \<open>Meta information: equal values merge, the metrics of all batches become lists.\<close>

fun merge_meta :: "py dict \<Rightarrow> py dict \<Rightarrow> py list \<Rightarrow> (py dict \<times> py list) res" where
  "merge_meta [] merged metrics = Inr (merged, metrics)"
| "merge_meta ((k, v) # meta) merged metrics =
     (if k = ''metrics'' then
        merge_meta meta merged (case v of PNone \<Rightarrow> metrics | PList l \<Rightarrow> metrics @ l | _ \<Rightarrow> metrics @ [v])
      else (case map_of merged k of
              None \<Rightarrow> merge_meta meta (dict_put k v merged) metrics
            | Some w \<Rightarrow> require (w = v) AssertionError (merge_meta meta merged metrics)))"

fun merge_metas :: "py dict list \<Rightarrow> py dict \<Rightarrow> py list \<Rightarrow> (py dict \<times> py list) res" where
  "merge_metas [] merged metrics = Inr (merged, metrics)"
| "merge_metas (m # ms) merged metrics = bind_res (merge_meta m merged metrics) (\<lambda>(a, b). merge_metas ms a b)"

definition as_dict :: "py \<Rightarrow> py dict res" where
  "as_dict v = (case v of PDict d \<Rightarrow> Inr d | _ \<Rightarrow> Inl AttributeError)"

definition concat_meta :: "py dict list \<Rightarrow> py dict res" where
  "concat_meta metas =
     bind_res (merge_metas metas [] []) (\<lambda>(merged, metrics).
     if metrics = [] then Inr merged
     else bind_res (map_res as_dict metrics) (\<lambda>ds.
          bind_res (list_of_dict_to_dict_of_list ds) (\<lambda>cols.
          Inr (dict_put ''metrics'' (PDict (map_dict PList cols)) merged))))"

definition proto_concat :: "('a, 'b) data_proto list \<Rightarrow> ('a, 'b) data_proto res" where
  "proto_concat ds =
     (if ds = [] then Inl IndexError
      else bind_res (cat_batches ds) (\<lambda>b.
           bind_res (list_of_dict_to_dict_of_list (map non_tensor_batch ds)) (\<lambda>cols.
           bind_res (concat_meta (map meta_info ds)) (\<lambda>meta.
           make_proto b (map_dict concat cols) meta))))"

section \<open>Chunks, padding and splits\<close>

definition is_padding_enabled :: "bool \<Rightarrow> ('a, 'b) data_proto \<Rightarrow> bool" where
  "is_padding_enabled config d =
     (truthy (case map_of (meta_info d) ''_verl_auto_padding'' of None \<Rightarrow> PBool False | Some v \<Rightarrow> v) \<or> config)"

text \<open>The sizes of \<open>torch.chunk\<close>: pieces of the rounded-up quotient, possibly fewer than asked for.\<close>

function piece_sizes :: "nat \<Rightarrow> nat \<Rightarrow> nat list" where
  "piece_sizes s n = (if s = 0 \<or> n = 0 then [] else min s n # piece_sizes s (n - s))"
  by auto

termination
  by (relation "measure snd") auto

declare piece_sizes.simps [simp del]

definition chunk_sizes :: "nat \<Rightarrow> nat \<Rightarrow> nat list" where
  "chunk_sizes n chunks = (if n = 0 then replicate chunks 0 else piece_sizes ((n + chunks - 1) div chunks) n)"

text \<open>The sizes of \<open>np.array_split\<close> into a number of sections.\<close>

definition array_split_sizes :: "nat \<Rightarrow> nat \<Rightarrow> nat list" where
  "array_split_sizes n chunks = map (\<lambda>i. n div chunks + (if i < n mod chunks then 1 else 0)) [0..<chunks]"

text \<open>Piece \<open>i\<close> of a column cut at the running sums of the sizes.\<close>

definition piece :: "nat list \<Rightarrow> nat \<Rightarrow> 'x list \<Rightarrow> 'x list" where
  "piece sizes i col = take (sizes ! i) (drop (sum_list (take i sizes)) col)"

definition proto_chunk :: "bool \<Rightarrow> nat \<Rightarrow> ('a, 'b) data_proto \<Rightarrow> ('a, 'b) data_proto list res" where
  "proto_chunk config chunks d =
     require (0 < chunks) (if is_padding_enabled config d then RuntimeError else ZeroDivisionError) (
     require (is_padding_enabled config d \<or> proto_len d mod chunks = 0) AssertionError (
     let n = proto_len d;
         sizes = (case batch d of Some _ \<Rightarrow> chunk_sizes n chunks | None \<Rightarrow> array_split_sizes n chunks)
     in require (non_tensor_batch d = [] \<or> length sizes = chunks) AssertionError (
        require (length sizes = chunks) IndexError (
        map_res (\<lambda>i. map_columns (piece sizes i) (piece sizes i) (sizes ! i) d) [0..<chunks]))))"

definition proto_split :: "nat \<Rightarrow> ('a, 'b) data_proto \<Rightarrow> ('a, 'b) data_proto list res" where
  "proto_split split_size d =
     require (0 < split_size) ValueError
       (map_res (\<lambda>k. proto_slice (Some (int (k * split_size))) (Some (int (k * split_size + split_size))) None d)
          [0..<(proto_len d + split_size - 1) div split_size])"

text \<open>\<open>padding\<close> appends copies of the first or the last row, in place and unchecked.\<close>

definition padding :: "nat \<Rightarrow> bool \<Rightarrow> ('a, 'b) data_proto \<Rightarrow> ('a, 'b) data_proto res" where
  "padding padding_size from_first d =
     (if padding_size = 0 then Inr d
      else bind_res (select_idxs [if from_first then 0 else int (proto_len d) - 1] d) (\<lambda>cand.
           bind_res (proto_repeat padding_size True cand) (\<lambda>part.
           bind_res (proto_concat [d, part]) (\<lambda>padded.
           Inr (d\<lparr>batch := batch padded, non_tensor_batch := non_tensor_batch padded\<rparr>)))))"

text \<open>\<open>pad_dataproto_to_divisor\<close> repeats the batch from its start until a multiple is reached.\<close>

function padding_protos :: "nat \<Rightarrow> ('a, 'b) data_proto \<Rightarrow> ('a, 'b) data_proto list res" where
  "padding_protos remaining d =
     (if remaining = 0 \<or> proto_len d = 0 then Inr []
      else let take_size = min remaining (proto_len d) in
        bind_res (proto_slice None (Some (int take_size)) None d) (\<lambda>p.
        bind_res (padding_protos (remaining - take_size) d) (\<lambda>ps. Inr (p # ps))))"
  by auto

termination
  by (relation "measure fst") auto

declare padding_protos.simps [simp del]

definition pad_dataproto_to_divisor :: "('a, 'b) data_proto \<Rightarrow> nat \<Rightarrow> (('a, 'b) data_proto \<times> nat) res" where
  "pad_dataproto_to_divisor d size_divisor =
     require (0 < size_divisor) ZeroDivisionError (
     if proto_len d mod size_divisor \<noteq> 0 then
       let pad_size = size_divisor - proto_len d mod size_divisor in
       bind_res (padding_protos pad_size d) (\<lambda>ps.
       bind_res (proto_concat (d # ps)) (\<lambda>padded. Inr (padded, pad_size)))
     else Inr (d, 0))"

definition unpad_dataproto :: "('a, 'b) data_proto \<Rightarrow> nat \<Rightarrow> ('a, 'b) data_proto res" where
  "unpad_dataproto d pad_size =
     (if pad_size \<noteq> 0 then proto_slice None (Some (- int pad_size)) None d else Inr d)"

section \<open>Mini-batches\<close>

text \<open>\<open>collate_fn\<close> stacks single rows; the tensor keys are those of the first row.\<close>

definition stack_items :: "'a dict option list \<Rightarrow> 'a tensor_dict option res" where
  "stack_items items =
     (if list_all (\<lambda>b. b \<noteq> None) items \<and> items \<noteq> [] then
        let ds = map the items; ks = map fst (hd ds) in
        require (list_all (\<lambda>d. set (map fst d) = set ks) ds) RuntimeError
          (Inr (Some \<lparr>td_size = length items, td_cols = map (\<lambda>k. (k, map (\<lambda>d. the (map_of d k)) ds)) ks\<rparr>))
      else Inl TypeError)"

definition collate_fn :: "('a, 'b) data_item list \<Rightarrow> ('a, 'b) data_proto res" where
  "collate_fn items =
     bind_res (stack_items (map item_batch items)) (\<lambda>b.
     bind_res (list_of_dict_to_dict_of_list (map item_non_tensor items)) (\<lambda>nt. make_proto b nt []))"

text \<open>\<open>make_iterator\<close>: each epoch visits the rows in the order the loader draws, in mini-batches.\<close>

definition epoch_batches :: "nat \<Rightarrow> ('a, 'b) data_proto \<Rightarrow> nat list \<Rightarrow> ('a, 'b) data_proto list res" where
  "epoch_batches mini d order =
     map_res (\<lambda>idxs. bind_res (map_res (\<lambda>i. get_item (int i) d) idxs) (\<lambda>items.
         bind_res (collate_fn items) (\<lambda>b. Inr (b\<lparr>meta_info := meta_info d\<rparr>))))
       (step_chunks mini order)"

definition make_iterator :: "nat \<Rightarrow> nat list list \<Rightarrow> ('a, 'b) data_proto \<Rightarrow> ('a, 'b) data_proto list res" where
  "make_iterator mini orders d =
     (case batch d of
        None \<Rightarrow> Inl AttributeError
      | Some td \<Rightarrow>
          require (0 < mini) ZeroDivisionError (
          require (td_size td mod mini = 0) AssertionError (
          bind_res (map_res (epoch_batches mini d) orders) (\<lambda>bs. Inr (concat bs)))))"

section \<open>Well-formed batches and their rows\<close>

definition tensor_cols :: "('a, 'b) data_proto \<Rightarrow> 'a list dict" where
  "tensor_cols d = (case batch d of None \<Rightarrow> [] | Some td \<Rightarrow> td_cols td)"

definition cols_ok :: "nat \<Rightarrow> 'x list dict \<Rightarrow> bool" where
  "cols_ok n cols \<longleftrightarrow> distinct (map fst cols) \<and> (\<forall>(k, c) \<in> set cols. length c = n)"

definition wf :: "('a, 'b) data_proto \<Rightarrow> bool" where
  "wf d \<longleftrightarrow> cols_ok (proto_len d) (tensor_cols d) \<and> cols_ok (proto_len d) (non_tensor_batch d)"

text \<open>The abstract view: a list of rows, each the values of the columns by name.\<close>

type_synonym ('a, 'b) row = "(string \<rightharpoonup> 'a) \<times> (string \<rightharpoonup> 'b)"

definition col_row :: "'x list dict \<Rightarrow> nat \<Rightarrow> string \<rightharpoonup> 'x" where
  "col_row cols j = (\<lambda>k. map_option (\<lambda>c. c ! j) (map_of cols k))"

definition rows :: "('a, 'b) data_proto \<Rightarrow> ('a, 'b) row list" where
  "rows d = map (\<lambda>j. (col_row (tensor_cols d) j, col_row (non_tensor_batch d) j)) [0..<proto_len d]"

lemma length_rows [simp]: "length (rows d) = proto_len d"
  by (simp add: rows_def)

lemma nth_rows: "j < proto_len d \<Longrightarrow> rows d ! j = (col_row (tensor_cols d) j, col_row (non_tensor_batch d) j)"
  by (simp add: rows_def)

lemma map_of_map_dict: "map_of (map_dict f d) k = map_option f (map_of d k)"
  by (induction d) (auto simp: map_dict_def)

lemma map_fst_map_dict [simp]: "map fst (map_dict f d) = map fst d"
  by (simp add: map_dict_def comp_def case_prod_unfold)

lemma map_dict_Nil [simp]: "map_dict f [] = []" "map_dict f d = [] \<longleftrightarrow> d = []"
  by (auto simp: map_dict_def)

lemma set_map_dict: "set (map_dict f d) = (\<lambda>(k, c). (k, f c)) ` set d"
  by (simp add: map_dict_def)

lemma cols_ok_lookup: "cols_ok n cols \<Longrightarrow> map_of cols k = Some c \<Longrightarrow> length c = n"
  by (auto simp: cols_ok_def dest: map_of_SomeD)

lemma make_proto_Inr: "make_proto b nt meta = Inr d \<Longrightarrow> d = \<lparr>batch = b, non_tensor_batch = nt, meta_info = meta\<rparr>"
  by (auto simp: make_proto_def Let_def)

lemma proto_len_simps:
  "proto_len \<lparr>batch = Some td, non_tensor_batch = nt, meta_info = m\<rparr> = td_size td"
  "proto_len \<lparr>batch = None, non_tensor_batch = nt, meta_info = m\<rparr> = (case nt of [] \<Rightarrow> 0 | (_, c) # _ \<Rightarrow> length c)"
  by (simp_all add: proto_len_def)

definition same_names :: "('a, 'b) data_proto \<Rightarrow> ('c, 'd) data_proto \<Rightarrow> bool" where
  "same_names d' d \<longleftrightarrow> (batch d' = None) = (batch d = None)
     \<and> map fst (tensor_cols d') = map fst (tensor_cols d) \<and> map fst (non_tensor_batch d') = map fst (non_tensor_batch d)"

section \<open>The row operations as an interface\<close>

text \<open>
  What the operations on positions share: a function on columns that reads the same positions of
  every column.
\<close>

locale row_op =
  fixes f :: "'a list \<Rightarrow> 'a list" and g :: "'b list \<Rightarrow> 'b list" and ix :: "nat \<Rightarrow> nat list"
  assumes f_reads: "f col = map ((!) col) (ix (length col))"
    and g_reads: "g ncol = map ((!) ncol) (ix (length ncol))"
begin

lemma cols_ok_f: "cols_ok n cols \<Longrightarrow> cols_ok (length (ix n)) (map_dict f cols)"
  by (auto simp: cols_ok_def set_map_dict f_reads)

lemma cols_ok_g: "cols_ok n cols \<Longrightarrow> cols_ok (length (ix n)) (map_dict g cols)"
  by (auto simp: cols_ok_def set_map_dict g_reads)

lemma col_row_f:
  assumes "cols_ok n cols" "j < length (ix n)"
  shows "col_row (map_dict f cols) j = col_row cols (ix n ! j)"
proof
  fix k
  show "col_row (map_dict f cols) j k = col_row cols (ix n ! j) k"
    using assms by (cases "map_of cols k") (auto simp: col_row_def map_of_map_dict f_reads dest: cols_ok_lookup)
qed

lemma col_row_g:
  assumes "cols_ok n cols" "j < length (ix n)"
  shows "col_row (map_dict g cols) j = col_row cols (ix n ! j)"
proof
  fix k
  show "col_row (map_dict g cols) j k = col_row cols (ix n ! j) k"
    using assms by (cases "map_of cols k") (auto simp: col_row_def map_of_map_dict g_reads dest: cols_ok_lookup)
qed

text \<open>A row operation keeps a batch well-formed and its names, and reads the same positions of its rows.\<close>

lemma map_columns_rows:
  assumes "wf d" "set (ix (proto_len d)) \<subseteq> {..<proto_len d}"
  shows "\<exists>d'. map_columns f g (length (ix (proto_len d))) d = Inr d' \<and> wf d'
    \<and> rows d' = map ((!) (rows d)) (ix (proto_len d)) \<and> meta_info d' = meta_info d \<and> same_names d' d"
proof -
  let ?n = "proto_len d" and ?m = "length (ix (proto_len d))"
  define d' where "d' = \<lparr>batch = map_option (\<lambda>td. \<lparr>td_size = ?m, td_cols = map_dict f (td_cols td)\<rparr>) (batch d),
    non_tensor_batch = map_dict g (non_tensor_batch d), meta_info = meta_info d\<rparr>"
  have ok: "cols_ok ?n (tensor_cols d)" "cols_ok ?n (non_tensor_batch d)" using assms(1) by (auto simp: wf_def)
  have tc: "tensor_cols d' = map_dict f (tensor_cols d)"
    by (simp add: tensor_cols_def d'_def split: option.splits)
  have empty: "?m = 0" if "?n = 0" using assms(2) that by simp
  have len: "proto_len d' = ?m"
  proof (cases "batch d")
    case None
    show ?thesis
    proof (cases "non_tensor_batch d")
      case Nil
      then show ?thesis using empty None by (simp add: d'_def proto_len_def map_dict_def)
    next
      case (Cons kc nt)
      then have "length (g (snd kc)) = ?m"
        using ok(2) by (cases kc) (simp add: cols_ok_def g_reads)
      then show ?thesis using None Cons by (cases kc) (simp add: d'_def proto_len_def map_dict_def)
    qed
  qed (simp add: d'_def proto_len_def)
  have "cols_ok ?m (tensor_cols d')" "cols_ok ?m (non_tensor_batch d')"
    unfolding tc by (auto simp: d'_def cols_ok_f[OF ok(1)] cols_ok_g[OF ok(2)])
  then have wf': "wf d'" by (simp add: wf_def len)
  have "check_consistency d'"
    using \<open>cols_ok ?m (non_tensor_batch d')\<close>
    by (auto simp: check_consistency_def d'_def cols_ok_def list_all_iff split: option.splits)
  then have "map_columns f g ?m d = Inr d'" by (simp add: map_columns_def make_proto_def d'_def)
  moreover have "rows d' = map ((!) (rows d)) (ix ?n)"
  proof (rule nth_equalityI)
    fix j assume j: "j < length (rows d')"
    then have j': "j < ?m" by (simp add: len)
    then have "ix ?n ! j < ?n" using subsetD[OF assms(2) nth_mem[OF j']] by simp
    then show "rows d' ! j = map ((!) (rows d)) (ix ?n) ! j"
      using j' col_row_f[OF ok(1) j'] col_row_g[OF ok(2) j'] by (simp add: nth_rows len tc) (simp add: d'_def)
  qed (simp add: len)
  moreover have "same_names d' d" unfolding same_names_def tc by (auto simp: d'_def)
  ultimately show ?thesis using wf' by (auto simp: d'_def)
qed

end

lemma map_nth_upt: "map ((!) col) [0..<length col] = col"
  by (rule map_nth)

lemma natural_repeat_interleave: "repeat_interleave k (map h xs) = map h (repeat_interleave k xs)"
  by (simp add: repeat_interleave_def map_concat comp_def map_replicate)

lemma natural_tile: "tile k (map h xs) = map h (tile k xs)"
  by (simp add: tile_def map_concat map_replicate)

lemma natural_repeat_each: "repeat_each ns (map h xs) = map h (repeat_each ns xs)"
  unfolding repeat_each_def map_concat
  by (simp add: zip_map2 comp_def case_prod_unfold map_replicate)

lemma natural_piece: "piece sizes i (map h xs) = map h (piece sizes i xs)"
  by (simp add: piece_def take_map drop_map)

interpretation gth: row_op "gather js" "gather js" "\<lambda>_. js"
  by unfold_locales (simp_all add: gather_def)

interpretation rep: row_op "repeat_interleave k" "repeat_interleave k" "\<lambda>n. repeat_interleave k [0..<n]"
  by unfold_locales (simp_all add: natural_repeat_interleave[symmetric] map_nth_upt)

interpretation til: row_op "tile k" "tile k" "\<lambda>n. tile k [0..<n]"
  by unfold_locales (simp_all add: natural_tile[symmetric] map_nth_upt)

interpretation rea: row_op "repeat_each ns" "repeat_each ns" "\<lambda>n. repeat_each ns [0..<n]"
  by unfold_locales (simp_all add: natural_repeat_each[symmetric] map_nth_upt)

interpretation pce: row_op "piece sizes i" "piece sizes i" "\<lambda>n. piece sizes i [0..<n]"
  by unfold_locales (simp_all add: natural_piece[symmetric] map_nth_upt)

section \<open>Operations on rows\<close>

lemma map_nth_natural:
  assumes "\<And>h :: nat \<Rightarrow> 'x. F (map h [0..<length xs]) = map h (F' [0..<length xs])"
  shows "map ((!) xs) (F' [0..<length xs]) = F xs"
  using assms[of "(!) xs"] by (simp add: map_nth)

lemma map_nth_gather: "map ((!) xs) js = gather js xs"
  by (simp add: gather_def)

lemma map_nth_upt_take_drop: "hi \<le> length xs \<Longrightarrow> map ((!) xs) [lo..<hi] = take (hi - lo) (drop lo xs)"
  by (rule nth_equalityI) auto

lemma set_repeat_interleave: "set (repeat_interleave k xs) \<subseteq> set xs"
  by (auto simp: repeat_interleave_def)

lemma set_tile: "set (tile k xs) \<subseteq> set xs"
  by (auto simp: tile_def)

lemma set_repeat_each: "set (repeat_each ns xs) \<subseteq> set xs"
  by (auto simp: repeat_each_def dest: set_zip_rightD)

lemma set_piece: "set (piece sizes i xs) \<subseteq> set xs"
  by (auto simp: piece_def dest: in_set_takeD in_set_dropD)

lemma length_repeat_interleave [simp]: "length (repeat_interleave k xs) = length xs * k"
  by (simp add: repeat_interleave_def length_concat comp_def sum_list_triv)

lemma length_tile [simp]: "length (tile k xs) = k * length xs"
  by (simp add: tile_def length_concat sum_list_replicate)

lemma length_repeat_each: "length ns = length xs \<Longrightarrow> length (repeat_each ns xs) = sum_list ns"
  unfolding repeat_each_def by (induction ns xs rule: list_induct2) auto

lemma norm_idx_all:
  assumes "\<forall>i \<in> set idxs. - int n \<le> i \<and> i < int n"
  shows "map_res (norm_idx n) idxs = Inr (map (\<lambda>i. nat (i mod int n)) idxs)"
proof (rule map_res_Inr)
  fix i assume "i \<in> set idxs"
  then have i: "- int n \<le> i" "i < int n" using assms by auto
  show "norm_idx n i = Inr (nat (i mod int n))"
  proof (cases "i < 0")
    case True
    then have "i mod int n = i + int n" using i by (metis add.commute mod_add_self1 mod_pos_pos_trivial add_nonneg_nonneg neg_le_iff_le
        minus_le_iff uminus_add_conv_diff diff_ge_0_iff_ge add_less_same_cancel1 diff_minus_eq_add)
    then show ?thesis using True i by (simp add: norm_idx_def Let_def)
  next
    case False
    then show ?thesis using i by (simp add: norm_idx_def Let_def)
  qed
qed

lemma select_idxs_rows:
  assumes "wf d" "\<forall>i \<in> set idxs. - int (proto_len d) \<le> i \<and> i < int (proto_len d)"
  shows "\<exists>d'. select_idxs idxs d = Inr d' \<and> wf d'
    \<and> rows d' = map (\<lambda>i. rows d ! nat (i mod int (proto_len d))) idxs
    \<and> meta_info d' = meta_info d \<and> same_names d' d"
proof -
  let ?js = "map (\<lambda>i. nat (i mod int (proto_len d))) idxs"
  have "set ?js \<subseteq> {..<proto_len d}" using assms(2) by (auto simp: nat_less_iff pos_mod_sign) 
  then show ?thesis
    using gth.map_columns_rows[OF assms(1), of ?js] by (simp add: select_idxs_def norm_idx_all[OF assms(2)] comp_def)
qed

lemma proto_repeat_rows:
  assumes "wf d"
  shows "\<exists>d'. proto_repeat k interleave d = Inr d' \<and> wf d'
    \<and> rows d' = (if interleave then concat (map (replicate k) (rows d)) else concat (replicate k (rows d)))
    \<and> meta_info d' = meta_info d \<and> same_names d' d"
proof -
  have "map ((!) (rows d)) (repeat_interleave k [0..<proto_len d]) = repeat_interleave k (rows d)"
    "map ((!) (rows d)) (tile k [0..<proto_len d]) = tile k (rows d)"
    by (simp_all add: natural_repeat_interleave[symmetric] natural_tile[symmetric] map_nth flip: length_rows)
  then show ?thesis
    using rep.map_columns_rows[OF assms, of k] til.map_columns_rows[OF assms, of k]
      set_repeat_interleave[of k "[0..<proto_len d]"] set_tile[of k "[0..<proto_len d]"]
    by (auto simp: proto_repeat_def atLeast0LessThan repeat_interleave_def[of k "rows d"] tile_def[of k "rows d"] mult.commute)
qed

lemma proto_slice_rows:
  assumes "wf d"
  shows "\<exists>d'. proto_slice start stop None d = Inr d' \<and> wf d'
    \<and> (let lo = slice_bound (proto_len d) 0 start; hi = slice_bound (proto_len d) (proto_len d) stop
       in rows d' = take (hi - lo) (drop lo (rows d)))
    \<and> meta_info d' = meta_info d \<and> same_names d' d"
proof -
  let ?n = "proto_len d"
  let ?lo = "slice_bound ?n 0 start" and ?hi = "slice_bound ?n ?n stop"
  have pos: "slice_positions ?n start stop (nat 1) = [?lo..<?hi]" by (simp add: slice_positions_def)
  have hi: "?hi \<le> ?n" by (auto simp: slice_bound_def split: option.splits)
  have "map ((!) (rows d)) [?lo..<?hi] = take (?hi - ?lo) (drop ?lo (rows d))"
    by (rule map_nth_upt_take_drop) (use hi in simp)
  moreover have "set [?lo..<?hi] \<subseteq> {..<?n}" using hi by auto
  ultimately show ?thesis
    using gth.map_columns_rows[OF assms, of "[?lo..<?hi]"]
    unfolding proto_slice_def Let_def option.case pos by simp
qed

lemma piece_sizes_exact: "0 < s \<Longrightarrow> piece_sizes s (s * k) = replicate k s"
proof (induction k)
  case (Suc k)
  have "piece_sizes s (s * Suc k) = min s (s * Suc k) # piece_sizes s (s * Suc k - s)"
    using Suc.prems by (subst piece_sizes.simps) simp
  then show ?case using Suc by simp
qed (simp add: piece_sizes.simps)

lemma chunk_sizes_exact:
  assumes "0 < c" "n mod c = 0"
  shows "chunk_sizes n c = replicate c (n div c)" "array_split_sizes n c = replicate c (n div c)"
proof -
  obtain k where n: "n = c * k" using assms by (auto simp: mod_eq_0_iff_dvd elim: dvdE)
  show "chunk_sizes n c = replicate c (n div c)"
  proof (cases "k = 0")
    case False
    have "(c - 1 + c * k) div c = k" using assms(1) by (subst div_mult_self2) auto
    moreover have "c * k + c - 1 = c - 1 + c * k" using assms(1) by simp
    ultimately have "(c * k + c - 1) div c = k" by simp
    then show ?thesis using False assms(1) piece_sizes_exact[of k c] by (simp add: chunk_sizes_def n mult.commute)
  qed (simp add: chunk_sizes_def n)
  show "array_split_sizes n c = replicate c (n div c)"
    using assms by (simp add: array_split_sizes_def map_replicate_const)
qed

lemma concat_pieces:
  "k \<le> length sizes \<Longrightarrow> concat (map (\<lambda>i. piece sizes i xs) [0..<k]) = take (sum_list (take k sizes)) xs"
proof (induction k)
  case (Suc k)
  then show ?case by (simp add: piece_def take_add take_Suc_conv_app_nth)
qed simp

lemma length_piece_exact:
  assumes "i < c" "length xs = c * s"
  shows "length (piece (replicate c s) i xs) = s"
proof -
  have "i * s + s \<le> c * s" using assms(1) mult_le_mono1[of "Suc i" c s] by simp
  then have "s \<le> c * s - i * s" by simp
  then show ?thesis using assms by (simp add: piece_def sum_list_replicate min_def)
qed

text \<open>The chunks of a batch whose size they divide.\<close>

lemma proto_chunk_rows:
  assumes "wf d" "0 < c" "proto_len d mod c = 0"
  shows "\<exists>ds. proto_chunk config c d = Inr ds \<and> length ds = c
    \<and> (\<forall>i < c. wf (ds ! i) \<and> rows (ds ! i) = piece (replicate c (proto_len d div c)) i (rows d)
        \<and> proto_len (ds ! i) = proto_len d div c
        \<and> meta_info (ds ! i) = meta_info d \<and> same_names (ds ! i) d)"
proof -
  define n s where ns: "n = proto_len d" "s = n div c"
  let ?sizes = "replicate c s"
  have sizes: "(case batch d of None \<Rightarrow> array_split_sizes n c | Some _ \<Rightarrow> chunk_sizes n c) = ?sizes"
    using chunk_sizes_exact[OF assms(2,3)] by (simp add: ns split: option.split)
  have n: "n = c * s" using assms(3) mult_div_mod_eq[of c n] by (simp add: ns)
  have piece: "\<exists>p. map_columns (piece ?sizes i) (piece ?sizes i) (?sizes ! i) d = Inr p \<and> wf p
      \<and> rows p = piece ?sizes i (rows d) \<and> proto_len p = s
      \<and> meta_info p = meta_info d \<and> same_names p d" if i: "i < c" for i
  proof -
    have len: "length (piece ?sizes i [0..<n]) = ?sizes ! i" using length_piece_exact[OF i, of "[0..<n]"] n i by simp
    have rd: "map ((!) (rows d)) (piece ?sizes i [0..<n]) = piece ?sizes i (rows d)"
      using natural_piece[of ?sizes i "(!) (rows d)" "[0..<n]"] map_nth[of "rows d"] ns(1) by simp
    have "set (piece ?sizes i [0..<n]) \<subseteq> {..<n}" using set_piece[of ?sizes i "[0..<n]"] by auto
    from pce.map_columns_rows[OF assms(1), of ?sizes i, folded ns, OF this]
    obtain p where p: "map_columns (piece ?sizes i) (piece ?sizes i) (?sizes ! i) d = Inr p" "wf p"
      "rows p = piece ?sizes i (rows d)" "meta_info p = meta_info d" "same_names p d"
      unfolding len rd by (elim exE conjE) (rule that)
    have "proto_len p = s"
      using arg_cong[OF p(3), of length] length_piece_exact[OF i, of "rows d" s] n ns(1) by simp
    with p show ?thesis by (intro exI[of _ p] conjI)
  qed
  then obtain F where F: "\<And>i. i < c \<Longrightarrow> map_columns (piece ?sizes i) (piece ?sizes i) (?sizes ! i) d = Inr (F i) \<and> wf (F i)
      \<and> rows (F i) = piece ?sizes i (rows d) \<and> proto_len (F i) = s
      \<and> meta_info (F i) = meta_info d \<and> same_names (F i) d"
    by metis
  have "map_res (\<lambda>i. map_columns (piece ?sizes i) (piece ?sizes i) (?sizes ! i) d) [0..<c] = Inr (map F [0..<c])"
    by (rule map_res_Inr) (use F in auto)
  then have "proto_chunk config c d = Inr (map F [0..<c])"
    using assms(2,3) sizes by (simp add: proto_chunk_def Let_def flip: ns)
  then show ?thesis using F by (simp flip: ns)
qed

section \<open>Concatenation of rows\<close>

lemma dict_put_known: "distinct (map fst d) \<Longrightarrow> k \<in> set (map fst d) \<Longrightarrow>
    dict_put k v d = map (\<lambda>(a, w). (a, if a = k then v else w)) d"
proof (induction d)
  case (Cons e d)
  obtain a b where e: "e = (a, b)" by (cases e)
  show ?case
  proof (cases "a = k")
    case True
    then have "map (\<lambda>(a, w). (a, if a = k then v else w)) d = d"
      using Cons.prems e by (intro map_idI) (auto simp: image_iff split: prod.splits)
    then show ?thesis using True e by simp
  qed (use Cons e in auto)
qed simp

lemma append_items_known:
  "distinct (map fst out) \<Longrightarrow> distinct (map fst d) \<Longrightarrow> set (map fst d) \<subseteq> set (map fst out) \<Longrightarrow>
   append_items out d = Inr (map (\<lambda>(k, vs). (k, case map_of d k of None \<Rightarrow> vs | Some v \<Rightarrow> vs @ [v])) out)"
proof (induction d arbitrary: out)
  case (Cons e d)
  obtain k v where e: "e = (k, v)" by (cases e)
  then obtain vs where vs: "map_of out k = Some vs"
    using Cons.prems(3) by (cases "map_of out k") (auto simp: map_of_eq_None_iff)
  let ?out = "dict_put k (vs @ [v]) out"
  have put: "?out = map (\<lambda>(a, w). (a, if a = k then vs @ [v] else w)) out"
    using dict_put_known[of out k] Cons.prems e by auto
  then have keys: "map fst ?out = map fst out" by (simp add: comp_def case_prod_unfold)
  have "append_items ?out d = Inr (map (\<lambda>(k, vs). (k, case map_of d k of None \<Rightarrow> vs | Some v \<Rightarrow> vs @ [v])) ?out)"
    by (rule Cons.IH) (use Cons.prems e keys in \<open>auto simp flip: set_map simp del: set_map\<close>)
  moreover have "map_of d k = None" using Cons.prems(2) e by (simp add: map_of_eq_None_iff)
  moreover have "w = vs" if "(k, w) \<in> set out" for w
    using that vs Cons.prems(1) by (metis map_of_is_SomeI option.inject)
  ultimately have "append_items ?out d
      = Inr (map (\<lambda>(j, vs). (j, case map_of (e # d) j of None \<Rightarrow> vs | Some v \<Rightarrow> vs @ [v])) out)"
    unfolding put by (auto simp: e split: option.splits)
  then show ?case using e vs by simp
qed (simp add: case_prod_unfold)

lemma append_dicts_known:
  "distinct (map fst out) \<Longrightarrow> \<forall>d \<in> set ds. distinct (map fst d) \<and> set (map fst d) = set (map fst out) \<Longrightarrow>
   append_dicts out ds = Inr (map (\<lambda>(k, vs). (k, vs @ map (\<lambda>d. the (map_of d k)) ds)) out)"
proof (induction ds arbitrary: out)
  case (Cons d ds)
  let ?out = "map (\<lambda>(k, vs). (k, vs @ [the (map_of d k)])) out"
  have "append_items out d = Inr (map (\<lambda>(k, vs). (k, case map_of d k of None \<Rightarrow> vs | Some v \<Rightarrow> vs @ [v])) out)"
    by (rule append_items_known) (use Cons.prems in auto)
  moreover have "(k, case map_of d k of None \<Rightarrow> vs | Some v \<Rightarrow> vs @ [v]) = (k, vs @ [the (map_of d k)])"
    if "(k, vs) \<in> set out" for k vs
  proof -
    have "k \<in> set (map fst d)" using Cons.prems(2) that by force
    then obtain v where "map_of d k = Some v" by (cases "map_of d k") (auto simp: map_of_eq_None_iff)
    then show ?thesis by simp
  qed
  ultimately have items: "append_items out d = Inr ?out" by (auto intro!: map_cong)
  have keys: "map fst ?out = map fst out" by (simp add: comp_def case_prod_unfold)
  have "append_dicts ?out ds = Inr (map (\<lambda>(k, vs). (k, vs @ map (\<lambda>d. the (map_of d k)) ds)) ?out)"
  proof (rule Cons.IH)
    show "distinct (map fst ?out)" unfolding keys by (rule Cons.prems(1))
    show "\<forall>d \<in> set ds. distinct (map fst d) \<and> set (map fst d) = set (map fst ?out)"
      unfolding keys using Cons.prems(2) by simp
  qed
  then show ?case by (simp add: items comp_def case_prod_unfold)
qed (simp add: case_prod_unfold)

definition same_keys :: "'v dict list \<Rightarrow> bool" where
  "same_keys ds \<longleftrightarrow> (\<forall>d \<in> set ds. distinct (map fst d) \<and> set (map fst d) = set (map fst (hd ds)))"

definition cat_cols :: "string list \<Rightarrow> 'x list dict list \<Rightarrow> 'x list dict" where
  "cat_cols ks ds = map (\<lambda>k. (k, concat (map (\<lambda>d. the (map_of d k)) ds))) ks"

lemma list_of_dict_same_keys:
  assumes "ds \<noteq> []" "same_keys ds"
  shows "list_of_dict_to_dict_of_list ds
    = Inr (map (\<lambda>k. (k, map (\<lambda>d. the (map_of d k)) ds)) (map fst (hd ds)))"
proof -
  obtain d ds' where ds: "ds = d # ds'" using assms(1) by (cases ds) auto
  have "append_dicts (map_dict (\<lambda>_. []) d) ds
      = Inr (map (\<lambda>(k, vs). (k, vs @ map (\<lambda>d. the (map_of d k)) ds)) (map_dict (\<lambda>_. []) d))"
    by (rule append_dicts_known) (use assms(2) ds in \<open>auto simp: same_keys_def simp flip: set_map\<close>)
  then show ?thesis by (simp add: list_of_dict_to_dict_of_list_def ds map_dict_def comp_def case_prod_unfold)
qed

lemma cat_cols_lookup:
  "map_of (cat_cols ks ds) k = (if k \<in> set ks then Some (concat (map (\<lambda>d. the (map_of d k)) ds)) else None)"
  by (simp add: cat_cols_def map_of_map_restrict)

lemma map_fst_cat_cols [simp]: "map fst (cat_cols ks ds) = ks"
  by (simp add: cat_cols_def comp_def)

lemma cols_ok_cat:
  assumes "distinct ks" "\<forall>x \<in> set xs. cols_ok (fst x) (snd x) \<and> set (map fst (snd x)) = set ks"
  shows "cols_ok (sum_list (map fst xs)) (cat_cols ks (map snd xs))"
proof -
  have "length (the (map_of (snd x) k)) = fst x" if "x \<in> set xs" "k \<in> set ks" for x k
  proof -
    have "k \<in> set (map fst (snd x))" using assms(2) that by auto
    then obtain c where "map_of (snd x) k = Some c" by (cases "map_of (snd x) k") (auto simp: map_of_eq_None_iff)
    then show ?thesis using assms(2) that(1) cols_ok_lookup by fastforce
  qed
  then have "length (concat (map (\<lambda>d. the (map_of d k)) (map snd xs))) = sum_list (map fst xs)" if "k \<in> set ks" for k
    using that by (auto simp: length_concat comp_def intro!: arg_cong[of _ _ sum_list] map_cong)
  then show ?thesis using assms(1) by (auto simp: cols_ok_def) (auto simp: cat_cols_def)
qed

text \<open>The rows of concatenated columns are those of the first columns, then those of the others.\<close>

lemma col_row_cat:
  assumes "cols_ok n cols" "set (map fst cols) = set ks"
  shows "j < n \<Longrightarrow> col_row (cat_cols ks (cols # ds)) j = col_row cols j"
    and "col_row (cat_cols ks (cols # ds)) (n + j) = col_row (cat_cols ks ds) j"
proof -
  have k: "\<exists>c. map_of cols k = Some c \<and> length c = n" if "k \<in> set ks" for k
    using that assms cols_ok_lookup by (cases "map_of cols k") (auto simp: map_of_eq_None_iff)
  have no: "map_of cols k = None" if "k \<notin> set ks" for k
    using that assms(2) by (simp add: map_of_eq_None_iff)
  show "col_row (cat_cols ks (cols # ds)) j = col_row cols j" if "j < n"
  proof
    fix i
    show "col_row (cat_cols ks (cols # ds)) j i = col_row cols j i"
      using k[of i] no[of i] that by (cases "i \<in> set ks") (auto simp: col_row_def cat_cols_lookup nth_append)
  qed
  show "col_row (cat_cols ks (cols # ds)) (n + j) = col_row (cat_cols ks ds) j"
  proof
    fix i
    show "col_row (cat_cols ks (cols # ds)) (n + j) i = col_row (cat_cols ks ds) j i"
      using k[of i] no[of i] by (cases "i \<in> set ks") (auto simp: col_row_def cat_cols_lookup nth_append)
  qed
qed

lemma upt_add: "[0..<n + m] = [0..<n] @ map ((+) n) [0..<m]"
  by (rule nth_equalityI) (auto simp: nth_append)

lemma rows_cat:
  assumes "\<forall>x \<in> set xs. cols_ok (fst x) (fst (snd x)) \<and> set (map fst (fst (snd x))) = set ks
      \<and> cols_ok (fst x) (snd (snd x)) \<and> set (map fst (snd (snd x))) = set js"
  shows "map (\<lambda>j. (col_row (cat_cols ks (map (fst \<circ> snd) xs)) j, col_row (cat_cols js (map (snd \<circ> snd) xs)) j))
      [0..<sum_list (map fst xs)]
    = concat (map (\<lambda>(n, t, u). map (\<lambda>j. (col_row t j, col_row u j)) [0..<n]) xs)"
  using assms
proof (induction xs)
  case (Cons x xs)
  obtain n t u where x: "x = (n, t, u)" by (cases x)
  then have t: "cols_ok n t" "set (map fst t) = set ks" and u: "cols_ok n u" "set (map fst u) = set js"
    using Cons.prems by auto
  show ?case
    using Cons.IH Cons.prems
    by (simp add: x upt_add comp_def col_row_cat(2)[OF t] col_row_cat(2)[OF u])
       (simp add: col_row_cat(1)[OF t] col_row_cat(1)[OF u])
qed simp

definition compatible :: "('a, 'b) data_proto list \<Rightarrow> bool" where
  "compatible ds \<longleftrightarrow> ds \<noteq> [] \<and> (\<forall>d \<in> set ds. wf d \<and> (batch d = None) = (batch (hd ds) = None))
     \<and> same_keys (map tensor_cols ds) \<and> same_keys (map non_tensor_batch ds)"

lemma proto_concat_rows:
  assumes "compatible ds" "concat_meta (map meta_info ds) = Inr meta"
  shows "\<exists>d'. proto_concat ds = Inr d' \<and> wf d' \<and> rows d' = concat (map rows ds) \<and> meta_info d' = meta
    \<and> (batch d' = None) = (batch (hd ds) = None) \<and> map fst (tensor_cols d') = map fst (tensor_cols (hd ds))
    \<and> map fst (non_tensor_batch d') = map fst (non_tensor_batch (hd ds))"
proof -
  have ne: "ds \<noteq> []" and wf: "\<forall>d \<in> set ds. wf d" and none: "\<forall>d \<in> set ds. (batch d = None) = (batch (hd ds) = None)"
    and sk: "same_keys (map tensor_cols ds)" "same_keys (map non_tensor_batch ds)"
    using assms(1) unfolding compatible_def by blast+
  let ?ks = "map fst (tensor_cols (hd ds))" and ?js = "map fst (non_tensor_batch (hd ds))"
  let ?n = "sum_list (map proto_len ds)"
  let ?nt = "cat_cols ?js (map non_tensor_batch ds)" and ?t = "cat_cols ?ks (map tensor_cols ds)"
  let ?xs = "map (\<lambda>d. (proto_len d, tensor_cols d, non_tensor_batch d)) ds"
  have hd: "hd (map f ds) = f (hd ds)" for f :: "_ \<Rightarrow> 'x" using ne by (simp add: hd_map)
  have keys: "\<forall>d \<in> set ds. set (map fst (tensor_cols d)) = set ?ks \<and> set (map fst (non_tensor_batch d)) = set ?js"
    using sk by (simp add: same_keys_def hd_map[OF ne])
  have dist: "distinct ?ks" "distinct ?js" using wf ne by (auto simp: wf_def cols_ok_def)
  have "cols_ok (sum_list (map fst (map (\<lambda>d. (proto_len d, tensor_cols d)) ds)))
      (cat_cols ?ks (map snd (map (\<lambda>d. (proto_len d, tensor_cols d)) ds)))"
    by (rule cols_ok_cat[OF dist(1)]) (use keys wf in \<open>simp add: wf_def del: set_map\<close>, simp)
  moreover have "cols_ok (sum_list (map fst (map (\<lambda>d. (proto_len d, non_tensor_batch d)) ds)))
      (cat_cols ?js (map snd (map (\<lambda>d. (proto_len d, non_tensor_batch d)) ds)))"
    by (rule cols_ok_cat[OF dist(2)]) (use keys wf in \<open>simp add: wf_def del: set_map\<close>, simp)
  ultimately have ok: "cols_ok ?n ?t" "cols_ok ?n ?nt" by (simp_all add: comp_def)
  define b where "b = (if batch (hd ds) = None then None else Some \<lparr>td_size = ?n, td_cols = ?t\<rparr>)"
  have cb: "cat_batches ds = Inr b"
  proof (cases "batch (hd ds)")
    case (Some td)
    have nn: "batch d \<noteq> None" if "d \<in> set ds" for d using bspec[OF none that] Some by simp
    have td: "td_size (the (batch d)) = proto_len d" "td_cols (the (batch d)) = tensor_cols d" if "d \<in> set ds" for d
      using nn[OF that] unfolding proto_len_def tensor_cols_def by (cases "batch d"; simp)+
    have "cat_td (map (\<lambda>d. the (batch d)) ds) = Inr \<lparr>td_size = ?n, td_cols = ?t\<rparr>"
    proof -
      let ?tds = "map (\<lambda>d. the (batch d)) ds"
      have "map (\<lambda>t. the (map_of (td_cols t) k)) ?tds = map (\<lambda>d. the (map_of d k)) (map tensor_cols ds)" for k
        unfolding map_map by (rule map_cong[OF refl]) (simp add: td)
      moreover have "map td_size ?tds = map proto_len ds"
        unfolding map_map by (rule map_cong[OF refl]) (simp add: td)
      moreover have "map fst (td_cols (hd ?tds)) = ?ks" using td(2) ne by (simp add: hd_map)
      moreover have "list_all (\<lambda>t. set (map fst (td_cols t)) = set ?ks) ?tds"
      proof (unfold list_all_iff, rule ballI)
        fix t assume "t \<in> set ?tds"
        then obtain d where d: "d \<in> set ds" "t = the (batch d)" by auto
        then show "set (map fst (td_cols t)) = set ?ks" using bspec[OF keys d(1)] td(2)[OF d(1)] by simp
      qed
      ultimately show ?thesis by (simp only: cat_td_def Let_def require_simps cat_cols_def)
    qed
    moreover have "list_all (\<lambda>d. batch d \<noteq> None) ds" using nn by (simp add: list_all_iff)
    ultimately show ?thesis using Some by (simp add: cat_batches_def b_def)
  qed (simp add: cat_batches_def b_def)
  have cn: "list_of_dict_to_dict_of_list (map non_tensor_batch ds)
      = Inr (map (\<lambda>k. (k, map (\<lambda>d. the (map_of d k)) (map non_tensor_batch ds))) ?js)"
    using list_of_dict_same_keys[OF _ sk(2)] ne by (simp add: hd_map)
  define d' where "d' = \<lparr>batch = b, non_tensor_batch = ?nt, meta_info = meta\<rparr>"
  have nt: "map_dict concat (map (\<lambda>k. (k, map (\<lambda>d. the (map_of d k)) (map non_tensor_batch ds))) ?js) = ?nt"
    by (simp add: map_dict_def cat_cols_def comp_def)
  have cc: "check_consistency d'"
    using ok(2) by (auto simp: check_consistency_def d'_def b_def cols_ok_def list_all_iff)
  have "proto_concat ds = Inr d'"
    using ne cc by (simp add: proto_concat_def cb cn assms(2) nt make_proto_def d'_def del: map_map)
  have tc: "batch (hd ds) = None \<Longrightarrow> tensor_cols (hd ds) = []" by (simp add: tensor_cols_def)
  have tc': "tensor_cols d' = ?t"
    using tc by (cases "batch (hd ds) = None") (auto simp: tensor_cols_def d'_def b_def cat_cols_def)
  have len: "proto_len d' = ?n"
  proof (cases "batch (hd ds) = None \<and> non_tensor_batch (hd ds) = []")
    case True
    then have "proto_len d = 0" if "d \<in> set ds" for d
      using bspec[OF none that] bspec[OF keys that] True by (simp add: proto_len_def)
    then have "?n = 0" by simp
    then show ?thesis using True by (simp add: proto_len_def d'_def b_def cat_cols_def)
  next
    case False
    show ?thesis
    proof (cases "batch (hd ds) = None")
      case True
      then have "?nt \<noteq> []" using False by (simp add: cat_cols_def)
      then obtain k c rest where "?nt = (k, c) # rest" by (cases ?nt) auto
      then show ?thesis using ok(2) True by (auto simp: proto_len_def d'_def b_def cols_ok_def)
    qed (auto simp: proto_len_def d'_def b_def)
  qed
  have "rows d' = concat (map rows ds)"
  proof -
    have "\<forall>x \<in> set ?xs. cols_ok (fst x) (fst (snd x)) \<and> set (map fst (fst (snd x))) = set ?ks
      \<and> cols_ok (fst x) (snd (snd x)) \<and> set (map fst (snd (snd x))) = set ?js"
      using wf keys by (auto simp: wf_def)
    note cat = rows_cat[OF this]
    have "rows d' = map (\<lambda>j. (col_row ?t j, col_row ?nt j)) [0..<?n]"
      unfolding rows_def len tc' by (simp add: d'_def)
    moreover have m: "map rows ds = map (\<lambda>(n, t, u). map (\<lambda>j. (col_row t j, col_row u j)) [0..<n]) ?xs"
      by (simp add: rows_def)
    moreover have "map (fst \<circ> snd) ?xs = map tensor_cols ds" "map (snd \<circ> snd) ?xs = map non_tensor_batch ds"
      "map fst ?xs = map proto_len ds" by simp_all
    ultimately show ?thesis using cat by (simp only:)
  qed
  moreover have "wf d'" using ok tc' len by (simp add: wf_def) (simp add: d'_def)
  moreover have "map fst (tensor_cols d') = ?ks" "map fst (non_tensor_batch d') = ?js"
    by (simp_all add: tc') (simp add: d'_def)
  ultimately show ?thesis using \<open>proto_concat ds = Inr d'\<close> by (auto simp: d'_def b_def)
qed

section \<open>Round trips\<close>

lemma same_keysI: "distinct ks \<Longrightarrow> \<forall>d \<in> set ds. map fst d = ks \<Longrightarrow> same_keys ds"
  unfolding same_keys_def by (cases ds) (simp_all del: set_map)

lemma same_names_compatible:
  assumes "ds \<noteq> []" "\<forall>e \<in> set ds. wf e \<and> same_names e d" "wf d"
  shows "compatible ds"
proof -
  have "distinct (map fst (tensor_cols d))" "distinct (map fst (non_tensor_batch d))"
    using assms(3) by (auto simp: wf_def cols_ok_def)
  moreover have "same_names (hd ds) d" using assms(1,2) by simp
  moreover have "same_keys (map tensor_cols ds)"
    by (rule same_keysI[OF calculation(1)]) (use assms(2) in \<open>auto simp: same_names_def\<close>)
  moreover have "same_keys (map non_tensor_batch ds)"
    by (rule same_keysI[OF calculation(2)]) (use assms(2) in \<open>auto simp: same_names_def\<close>)
  ultimately show ?thesis
    using assms(1,2) unfolding compatible_def same_names_def by simp
qed

definition plain_meta :: "py dict \<Rightarrow> bool" where
  "plain_meta m \<longleftrightarrow> distinct (map fst m) \<and> ''metrics'' \<notin> set (map fst m)"

lemma dict_put_lookup: "map_of (dict_put k v d) j = (if j = k then Some v else map_of d j)"
  by (induction k v d rule: dict_put.induct) auto

lemma dict_put_new: "k \<notin> set (map fst d) \<Longrightarrow> dict_put k v d = d @ [(k, v)]"
  by (induction d) auto

lemma merge_meta_fresh:
  "plain_meta (merged @ m) \<Longrightarrow> merge_meta m merged metrics = Inr (merged @ m, metrics)"
proof (induction m arbitrary: merged)
  case (Cons e m)
  obtain k v where e: "e = (k, v)" by (cases e)
  then have k: "k \<notin> set (map fst merged)" "k \<noteq> ''metrics''" using Cons.prems by (auto simp: plain_meta_def)
  have "merge_meta m (merged @ [(k, v)]) metrics = Inr ((merged @ [(k, v)]) @ m, metrics)"
    by (rule Cons.IH) (use Cons.prems e in \<open>auto simp: plain_meta_def\<close>)
  moreover have "map_of merged k = None" using k(1) by (simp add: map_of_eq_None_iff)
  ultimately show ?case using k by (simp add: e dict_put_new)
qed simp

lemma merge_meta_same:
  assumes "plain_meta merged"
  shows "set m \<subseteq> set merged \<Longrightarrow> merge_meta m merged metrics = Inr (merged, metrics)"
proof (induction m)
  case (Cons e m)
  obtain k v where e: "e = (k, v)" by (cases e)
  then have "map_of merged k = Some v" "k \<noteq> ''metrics''"
    using Cons.prems assms by (auto simp: plain_meta_def intro: map_of_is_SomeI rev_image_eqI)
  then show ?case using Cons by (simp add: e)
qed simp

lemma concat_meta_same:
  assumes "plain_meta m" "ms \<noteq> []" "\<forall>x \<in> set ms. x = m"
  shows "concat_meta ms = Inr m"
proof -
  obtain ms' where ms: "ms = m # ms'" "\<forall>x \<in> set ms'. x = m" using assms(2,3) by (cases ms) auto
  have "merge_metas ms' m [] = Inr (m, [])" using ms(2)
    by (induction ms') (auto simp: merge_meta_same[OF assms(1)])
  moreover have "merge_meta m [] [] = Inr (m, [])" using merge_meta_fresh[of "[]" m "[]"] assms(1) by simp
  ultimately show ?thesis by (simp add: concat_meta_def ms(1))
qed

lemma concat_same_names:
  assumes "ds \<noteq> []" "\<forall>e \<in> set ds. wf e \<and> same_names e d \<and> meta_info e = meta_info d" "wf d" "plain_meta (meta_info d)"
  shows "\<exists>d'. proto_concat ds = Inr d' \<and> wf d' \<and> rows d' = concat (map rows ds) \<and> meta_info d' = meta_info d
    \<and> same_names d' d"
proof -
  have meta: "concat_meta (map meta_info ds) = Inr (meta_info d)"
    by (rule concat_meta_same[OF assms(4)]) (use assms(1,2) in auto)
  have names: "\<forall>e \<in> set ds. wf e \<and> same_names e d" using assms(2) by simp
  obtain d' where d': "proto_concat ds = Inr d'" "wf d'" "rows d' = concat (map rows ds)" "meta_info d' = meta_info d"
      "(batch d' = None) = (batch (hd ds) = None)" "map fst (tensor_cols d') = map fst (tensor_cols (hd ds))"
      "map fst (non_tensor_batch d') = map fst (non_tensor_batch (hd ds))"
    using proto_concat_rows[OF same_names_compatible[OF assms(1) names assms(3)] meta] by (elim exE conjE) (rule that)
  have "same_names (hd ds) d" using assms(1,2) by simp
  then have "same_names d' d" unfolding same_names_def by (simp only: d'(5-7))
  then show ?thesis using d'(1-4) by (intro exI[of _ d']) simp
qed

lemma chunk_rows_concat:
  assumes "wf d" "0 < c" "proto_len d mod c = 0"
  obtains ds where "proto_chunk config c d = Inr ds" "length ds = c" "concat (map rows ds) = rows d"
    "\<forall>e \<in> set ds. wf e \<and> same_names e d \<and> meta_info e = meta_info d \<and> proto_len e = proto_len d div c"
proof -
  let ?s = "proto_len d div c"
  obtain ds where ds: "proto_chunk config c d = Inr ds" "length ds = c"
    and each: "\<forall>i < c. wf (ds ! i) \<and> rows (ds ! i) = piece (replicate c ?s) i (rows d)
        \<and> proto_len (ds ! i) = ?s \<and> meta_info (ds ! i) = meta_info d \<and> same_names (ds ! i) d"
    using proto_chunk_rows[OF assms, of config] by (elim exE conjE) (rule that)
  have "map rows ds = map (\<lambda>i. piece (replicate c ?s) i (rows d)) [0..<c]"
    by (rule nth_equalityI) (use each ds(2) in auto)
  then have "concat (map rows ds) = take (sum_list (take c (replicate c ?s))) (rows d)"
    using concat_pieces[of c "replicate c ?s" "rows d"] by simp
  also have "\<dots> = rows d" using assms(3) mult_div_mod_eq[of c "proto_len d"] by (simp add: sum_list_replicate)
  finally have "concat (map rows ds) = rows d" .
  moreover have "\<forall>e \<in> set ds. wf e \<and> same_names e d \<and> meta_info e = meta_info d \<and> proto_len e = ?s"
    using each ds(2) by (metis in_set_conv_nth)
  ultimately show thesis using that[OF ds] by blast
qed

text \<open>
  Cutting a batch for the workers and putting the pieces together again gives the batch back: when
  the number of pieces divides its size, \<open>chunk\<close> returns that many well-formed pieces of equal size, and
  \<open>concat\<close> of them has the rows of the batch in their order and its meta information (metrics, which
  \<open>concat\<close> collects into lists, aside).
\<close>

theorem chunk_concat_roundtrip:
  assumes "wf d" "plain_meta (meta_info d)" "0 < c" "proto_len d mod c = 0"
  shows "\<exists>ds d'. proto_chunk config c d = Inr ds \<and> length ds = c
    \<and> (\<forall>i < c. wf (ds ! i) \<and> proto_len (ds ! i) = proto_len d div c)
    \<and> proto_concat ds = Inr d' \<and> wf d' \<and> rows d' = rows d \<and> meta_info d' = meta_info d"
proof -
  obtain ds where ds: "proto_chunk config c d = Inr ds" "length ds = c" "concat (map rows ds) = rows d"
    and each: "\<forall>e \<in> set ds. wf e \<and> same_names e d \<and> meta_info e = meta_info d \<and> proto_len e = proto_len d div c"
    by (rule chunk_rows_concat[OF assms(1,3,4)])
  have ne: "ds \<noteq> []" using ds(2) assms(3) by auto
  obtain d' where "proto_concat ds = Inr d'" "wf d'" "rows d' = rows d" "meta_info d' = meta_info d"
    using concat_same_names[OF ne _ assms(1,2)] each ds(3) by auto
  then show ?thesis using ds each by (intro exI[of _ ds] exI[of _ d']) simp
qed

text \<open>A batch to try the theorems on.\<close>

definition example_proto :: "nat \<Rightarrow> (nat, string) data_proto" where
  "example_proto n = \<lparr>batch = Some \<lparr>td_size = n, td_cols = [(''ids'', [0..<n])]\<rparr>,
     non_tensor_batch = [(''uid'', map (\<lambda>_. ''u'') [0..<n])], meta_info = [(''temperature'', PNum 1)]\<rparr>"

lemma example_proto_wf: "wf (example_proto n)" "plain_meta (meta_info (example_proto n))" "proto_len (example_proto n) = n"
  by (simp_all add: example_proto_def wf_def cols_ok_def tensor_cols_def proto_len_def plain_meta_def)

theorem chunk_concat_roundtrip_witness:
  "\<exists>ds d'. proto_chunk False 2 (example_proto 4) = Inr ds \<and> length ds = 2 \<and> proto_concat ds = Inr d'
     \<and> rows d' = rows (example_proto 4)"
  using chunk_concat_roundtrip[of "example_proto 4" 2 False] by (auto simp: example_proto_wf)

lemma prefix_slice_rows:
  assumes "wf d" "m \<le> proto_len d"
  shows "\<exists>d'. proto_slice None (Some (int m)) None d = Inr d' \<and> wf d' \<and> rows d' = take m (rows d)
    \<and> meta_info d' = meta_info d \<and> same_names d' d"
proof -
  have "slice_bound (proto_len d) 0 None = 0" "slice_bound (proto_len d) (proto_len d) (Some (int m)) = m"
    using assms(2) by (simp_all add: slice_bound_def)
  then show ?thesis using proto_slice_rows[OF assms(1), of None "Some (int m)"] by (simp add: Let_def)
qed

lemma padding_protos_rows:
  assumes "wf d" "proto_len d \<noteq> 0"
  shows "\<exists>ps. padding_protos r d = Inr ps \<and> length (concat (map rows ps)) = r
    \<and> (\<forall>p \<in> set ps. wf p \<and> same_names p d \<and> meta_info p = meta_info d \<and> set (rows p) \<subseteq> set (rows d))"
proof (induction r rule: less_induct)
  case (less r)
  show ?case
  proof (cases "r = 0")
    case True
    then show ?thesis by (simp add: padding_protos.simps)
  next
    case False
    let ?t = "min r (proto_len d)"
    obtain p where p: "proto_slice None (Some (int ?t)) None d = Inr p" "wf p" "rows p = take ?t (rows d)"
      "meta_info p = meta_info d" "same_names p d"
      using prefix_slice_rows[OF assms(1), of ?t] by auto
    obtain ps where ps: "padding_protos (r - ?t) d = Inr ps" "length (concat (map rows ps)) = r - ?t"
      "\<forall>p \<in> set ps. wf p \<and> same_names p d \<and> meta_info p = meta_info d \<and> set (rows p) \<subseteq> set (rows d)"
      using less.IH[of "r - ?t"] False assms(2) by auto
    have "padding_protos r d = Inr (p # ps)"
      using False assms(2) p(1) ps(1) by (subst padding_protos.simps) (simp add: Let_def)
    moreover have "length (concat (map rows (p # ps))) = r" using p(3) ps(2) by simp
    moreover have "set (rows p) \<subseteq> set (rows d)" unfolding p(3) by (rule set_take_subset)
    ultimately show ?thesis using p ps(3) by auto
  qed
qed

lemma negative_slice_rows:
  assumes "wf d" "0 < m" "m \<le> proto_len d"
  shows "\<exists>d'. proto_slice None (Some (- int m)) None d = Inr d' \<and> wf d' \<and> rows d' = take (proto_len d - m) (rows d)
    \<and> meta_info d' = meta_info d \<and> same_names d' d"
proof -
  have "slice_bound (proto_len d) 0 None = 0" "slice_bound (proto_len d) (proto_len d) (Some (- int m)) = proto_len d - m"
    using assms(2,3) by (simp_all add: slice_bound_def nat_diff_distrib nat_int_add)
  then show ?thesis using proto_slice_rows[OF assms(1), of None "Some (- int m)"] by (simp add: Let_def)
qed

text \<open>
  C13. Padding to a divisor can be undone: a batch is extended, by copies of its own rows, to the next
  multiple of the divisor, also when more rows are missing than the batch has, the reported padding is
  smaller than the divisor, and dropping that many rows gives the batch back.  Only an empty batch and
  one whose size is a multiple already stay as they are.
\<close>

theorem pad_unpad_roundtrip:
  assumes "wf d" "plain_meta (meta_info d)" "0 < k"
  shows "\<exists>p n u. pad_dataproto_to_divisor d k = Inr (p, n) \<and> wf p \<and> n < k \<and> proto_len p mod k = 0
    \<and> proto_len p = proto_len d + n \<and> set (rows p) \<subseteq> set (rows d) \<and> (n = 0 \<longrightarrow> p = d)
    \<and> unpad_dataproto p n = Inr u \<and> rows u = rows d \<and> meta_info u = meta_info d"
proof (cases "proto_len d mod k = 0")
  case True
  then show ?thesis using assms by (auto simp: pad_dataproto_to_divisor_def unpad_dataproto_def)
next
  case False
  define m where m: "m = k - proto_len d mod k"
  have n: "0 < m" "m < k" using False assms(3) by (auto simp: m)
  have div: "(proto_len d + m) mod k = 0"
  proof -
    have "proto_len d + m = k * (proto_len d div k) + k"
      using mult_div_mod_eq[of k "proto_len d"] mod_less_divisor[OF assms(3), of "proto_len d"] m by linarith
    then show ?thesis by simp
  qed
  have "proto_len d \<noteq> 0" using False by (metis mod_0)
  from padding_protos_rows[OF assms(1) this, of m]
  obtain ps where ps: "padding_protos m d = Inr ps" "length (concat (map rows ps)) = m"
    "\<forall>p \<in> set ps. wf p \<and> same_names p d \<and> meta_info p = meta_info d \<and> set (rows p) \<subseteq> set (rows d)"
    by blast
  have "\<forall>e \<in> set (d # ps). wf e \<and> same_names e d \<and> meta_info e = meta_info d"
    using ps(3) assms(1) by (auto simp: same_names_def)
  from concat_same_names[OF _ this assms(1,2)]
  obtain p where p: "proto_concat (d # ps) = Inr p" "wf p" "rows p = rows d @ concat (map rows ps)" "meta_info p = meta_info d"
    by auto
  have len: "proto_len p = proto_len d + m" using arg_cong[OF p(3), of length] ps(2) by simp
  obtain u where u: "proto_slice None (Some (- int m)) None p = Inr u" "rows u = take (proto_len p - m) (rows p)"
    "meta_info u = meta_info p"
    using negative_slice_rows[OF p(2) n(1)] len by auto
  have "pad_dataproto_to_divisor d k = Inr (p, m)"
    using assms(3) False ps(1) p(1) by (simp add: pad_dataproto_to_divisor_def Let_def flip: m)
  moreover have "unpad_dataproto p m = Inr u" using u(1) n(1) by (simp add: unpad_dataproto_def)
  moreover have "set (rows p) \<subseteq> set (rows d)" using ps(3) p(3) by auto
  moreover have "rows u = rows d" using u(2) p(3) len by simp
  ultimately show ?thesis using n p len div u(3) by (intro exI[of _ p] exI[of _ m] exI[of _ u]) auto
qed

theorem pad_unpad_roundtrip_witness:
  "\<exists>p n u. pad_dataproto_to_divisor (example_proto 3) 8 = Inr (p, n) \<and> proto_len p = 3 + n
     \<and> unpad_dataproto p n = Inr u \<and> rows u = rows (example_proto 3)"
  using pad_unpad_roundtrip[of "example_proto 3" 8] by (auto simp: example_proto_wf)

section \<open>Refinement of the row view\<close>

text \<open>
  C12. A batch is its list of rows: selecting positions (negative ones count from the end), slicing, and
  both forms of repetition are the list operations on the rows of a well-formed batch, which they keep
  well-formed, with its column names and its meta information.
\<close>

theorem row_operations_refine:
  assumes "wf d"
  shows "(\<forall>idxs. (\<forall>i \<in> set idxs. - int (proto_len d) \<le> i \<and> i < int (proto_len d)) \<longrightarrow>
      (\<exists>d'. select_idxs idxs d = Inr d' \<and> wf d' \<and> same_names d' d \<and> meta_info d' = meta_info d
        \<and> rows d' = map (\<lambda>i. rows d ! nat (i mod int (proto_len d))) idxs))
    \<and> (\<exists>d'. proto_slice start stop None d = Inr d' \<and> wf d' \<and> same_names d' d \<and> meta_info d' = meta_info d
        \<and> rows d' = drop (slice_bound (proto_len d) 0 start) (take (slice_bound (proto_len d) (proto_len d) stop) (rows d)))
    \<and> (\<exists>d'. proto_repeat k interleave d = Inr d' \<and> wf d' \<and> same_names d' d \<and> meta_info d' = meta_info d
        \<and> rows d' = (if interleave then concat (map (replicate k) (rows d)) else concat (replicate k (rows d))))"
proof (intro conjI allI impI)
  fix idxs assume "\<forall>i \<in> set idxs. - int (proto_len d) \<le> i \<and> i < int (proto_len d)"
  from select_idxs_rows[OF assms this]
  show "\<exists>d'. select_idxs idxs d = Inr d' \<and> wf d' \<and> same_names d' d \<and> meta_info d' = meta_info d
        \<and> rows d' = map (\<lambda>i. rows d ! nat (i mod int (proto_len d))) idxs" by blast
next
  show "\<exists>d'. proto_slice start stop None d = Inr d' \<and> wf d' \<and> same_names d' d \<and> meta_info d' = meta_info d
        \<and> rows d' = drop (slice_bound (proto_len d) 0 start) (take (slice_bound (proto_len d) (proto_len d) stop) (rows d))"
    using proto_slice_rows[OF assms, of start stop] by (auto simp: Let_def drop_take)
next
  show "\<exists>d'. proto_repeat k interleave d = Inr d' \<and> wf d' \<and> same_names d' d \<and> meta_info d' = meta_info d
        \<and> rows d' = (if interleave then concat (map (replicate k) (rows d)) else concat (replicate k (rows d)))"
    using proto_repeat_rows[OF assms, of k interleave] by blast
qed

theorem row_operations_refine_witness:
  "\<exists>d'. proto_repeat 2 True (example_proto 3) = Inr d' \<and> rows d' = concat (map (replicate 2) (rows (example_proto 3)))"
  using row_operations_refine[OF example_proto_wf(1), of 3 None None 2 True] by auto

section \<open>Columns that leave and come back\<close>

lemma pop_keys_spec:
  "pop_keys ks out d = Inr (out', rest) \<Longrightarrow> distinct (map fst d) \<Longrightarrow> distinct (map fst out) \<Longrightarrow>
   set (map fst out) \<inter> set (map fst d) = {} \<Longrightarrow>
   rest = filter (\<lambda>(k, _). k \<notin> set ks) d \<and> out' = out @ map (\<lambda>k. (k, the (map_of d k))) ks
     \<and> set ks \<subseteq> set (map fst d) \<and> distinct ks"
proof (induction ks arbitrary: out d)
  case Nil
  then show ?case by (simp add: case_prod_unfold)
next
  case (Cons k ks)
  obtain v where v: "map_of d k = Some v" using Cons.prems(1) by (cases "map_of d k") auto
  then have kd: "k \<in> set (map fst d)" using map_of_SomeD[OF v] by force
  then have "k \<notin> set (map fst out)" using Cons.prems(4) by blast
  then have put: "dict_put k v out = out @ [(k, v)]" by (rule dict_put_new)
  let ?d = "filter (\<lambda>(j, _). j \<noteq> k) d"
  have pk: "pop_keys ks (out @ [(k, v)]) ?d = Inr (out', rest)" using Cons.prems(1) v put by simp
  have "rest = filter (\<lambda>(j, _). j \<notin> set ks) ?d \<and> out' = (out @ [(k, v)]) @ map (\<lambda>j. (j, the (map_of ?d j))) ks
     \<and> set ks \<subseteq> set (map fst ?d) \<and> distinct ks"
  proof (rule Cons.IH[OF pk])
    show "distinct (map fst ?d)" using Cons.prems(2) by (simp add: distinct_map_filter)
    show "distinct (map fst (out @ [(k, v)]))" using Cons.prems(3) \<open>k \<notin> set (map fst out)\<close> by simp
    have "k \<notin> set (map fst ?d)" by auto
    moreover have "set (map fst ?d) \<subseteq> set (map fst d)" by auto
    ultimately show "set (map fst (out @ [(k, v)])) \<inter> set (map fst ?d) = {}"
      using Cons.prems(4) by auto
  qed
  moreover have "map_of ?d j = map_of d j" if "j \<noteq> k" for j
    using that by (induction d) auto
  moreover have "k \<notin> set ks" "set ks \<subseteq> set (map fst d)" using calculation(1) by auto
  moreover have "filter (\<lambda>(j, _). j \<notin> set ks) ?d = filter (\<lambda>(j, _). j \<notin> set (k # ks)) d"
    by (auto simp: filter_filter case_prod_unfold intro: filter_cong)
  ultimately show ?case using v kd by auto
qed

lemma union_dict_disjoint:
  "distinct (map fst d2) \<Longrightarrow> set (map fst d1) \<inter> set (map fst d2) = {} \<Longrightarrow> union_dict d1 d2 = Inr (d1 @ d2)"
proof (induction d2 arbitrary: d1)
  case (Cons e d2)
  obtain k v where e: "e = (k, v)" by (cases e)
  then have k: "k \<notin> set (map fst d1)" using Cons.prems(2) by auto
  have "union_dict (d1 @ [(k, v)]) d2 = Inr ((d1 @ [(k, v)]) @ d2)"
    by (rule Cons.IH) (use Cons.prems e in auto)
  then show ?case using k by (simp add: e map_of_eq_None_iff[THEN iffD2] dict_put_new)
qed simp

lemma map_of_filter_out: "map_of (filter (\<lambda>(k, _). k \<notin> K) d) j = (if j \<in> K then None else map_of d j)"
  by (induction d) auto

text \<open>The dictionary with the popped entries at its end holds the same values.\<close>

lemma pop_union_lookup:
  assumes "set ks \<subseteq> set (map fst d)" "distinct ks"
  shows "map_of (filter (\<lambda>(k, _). k \<notin> set ks) d @ map (\<lambda>k. (k, the (map_of d k))) ks) = map_of d"
proof
  fix j
  show "map_of (filter (\<lambda>(k, _). k \<notin> set ks) d @ map (\<lambda>k. (k, the (map_of d k))) ks) j = map_of d j"
  proof (cases "j \<in> set ks")
    case True
    then have "map_of d j = Some (the (map_of d j))"
      using assms(1) by (cases "map_of d j") (auto simp: map_of_eq_None_iff)
    then show ?thesis using True by (simp add: map_of_filter_out map_add_def map_of_map_restrict split: option.split)
  next
    case False
    then have "map_of (map (\<lambda>k. (k, the (map_of d k))) ks) j = None" by (simp add: map_of_map_restrict)
    then show ?thesis using False by (simp add: map_of_filter_out map_add_def split: option.split)
  qed
qed

lemma pop_keys_total:
  assumes "distinct ks" "set ks \<subseteq> set (map fst d)" "distinct (map fst d)"
  shows "pop_keys ks [] d
    = Inr (map (\<lambda>k. (k, the (map_of d k))) ks, filter (\<lambda>(k, _). k \<notin> set ks) d)"
proof -
  have "\<exists>r. pop_keys ks out d = Inr r" if "distinct ks" "set ks \<subseteq> set (map fst d)" for out d
    using that
  proof (induction ks arbitrary: out d)
    case (Cons k ks)
    then obtain v where "map_of d k = Some v" by (cases "map_of d k") (auto simp: map_of_eq_None_iff)
    moreover have "set ks \<subseteq> set (map fst (filter (\<lambda>(j, _). j \<noteq> k) d))" using Cons.prems by force
    ultimately show ?case using Cons.IH[of "filter (\<lambda>(j, _). j \<noteq> k) d"] Cons.prems(1) by simp
  qed simp
  from this[OF assms(1,2)] obtain out rest where "pop_keys ks [] d = Inr (out, rest)" by (metis surj_pair)
  with pop_keys_spec[OF this assms(3)] show ?thesis by simp
qed

lemma common_size_agree:
  assumes "cols \<noteq> []" "\<forall>(k, c) \<in> set cols. length c = n"
  shows "common_size None cols = Inr (Some n)"
proof -
  have "\<forall>(k, c) \<in> set cs. length c = n \<Longrightarrow> common_size (Some n) cs = Inr (Some n)" for cs :: "'a list dict"
    by (induction cs) auto
  with assms show ?thesis by (cases cols) auto
qed

lemma popped_columns:
  assumes "cols_ok n cols" "set ks \<subseteq> set (map fst cols)"
  shows "\<forall>(k, c) \<in> set (map (\<lambda>k. (k, the (map_of cols k))) ks). length c = n"
proof (clarsimp)
  fix k assume "k \<in> set ks"
  then obtain c where "map_of cols k = Some c"
    using assms(2) by (cases "map_of cols k") (auto simp: map_of_eq_None_iff)
  then show "length (the (map_of cols k)) = n" using cols_ok_lookup[OF assms(1)] by simp
qed

lemma union_popped:
  assumes "distinct (map fst d)" "distinct ks"
  shows "union_dict (filter (\<lambda>(k, _). k \<notin> set ks) d) (map (\<lambda>k. (k, the (map_of d k))) ks)
    = Inr (filter (\<lambda>(k, _). k \<notin> set ks) d @ map (\<lambda>k. (k, the (map_of d k))) ks)"
  by (rule union_dict_disjoint) (use assms in \<open>auto simp: comp_def\<close>)

text \<open>
  Popping existing columns (at least one of them a tensor column) always succeeds: the popped batch
  has exactly those columns and the same length, and the union of what is left with what was popped holds
  the rows and the meta information of the batch again.
\<close>

theorem pop_union_roundtrip:
  assumes "wf d" and "distinct (map fst (meta_info d))"
    and "ks \<noteq> []" "distinct ks" "set ks \<subseteq> set (map fst (tensor_cols d))"
    and "distinct js" "set js \<subseteq> set (map fst (non_tensor_batch d))"
    and "distinct ms" "set ms \<subseteq> set (map fst (meta_info d))"
  shows "\<exists>p r d'. proto_pop ks js ms d = Inr (p, r) \<and> proto_len p = proto_len d
    \<and> map fst (tensor_cols p) = ks \<and> map fst (non_tensor_batch p) = js \<and> map fst (meta_info p) = ms
    \<and> proto_union r p = Inr d' \<and> rows d' = rows d \<and> map_of (meta_info d') = map_of (meta_info d)"
proof -
  obtain td where td: "batch d = Some td" "tensor_cols d = td_cols td" "proto_len d = td_size td"
    using assms(3,5) by (cases "batch d") (auto simp: tensor_cols_def proto_len_def)
  let ?out = "\<lambda>(xs :: string list) cols. map (\<lambda>k. (k, the (map_of cols k))) xs"
  have ok: "cols_ok (td_size td) (td_cols td)" "cols_ok (td_size td) (non_tensor_batch d)"
    using assms(1) td by (auto simp: wf_def)
  then have dist: "distinct (map fst (td_cols td))" "distinct (map fst (non_tensor_batch d))"
    by (auto simp: cols_ok_def)
  have sub: "set ks \<subseteq> set (map fst (td_cols td))" using assms(5) td by simp
  define p where p: "p = \<lparr>batch = Some \<lparr>td_size = td_size td, td_cols = ?out ks (td_cols td)\<rparr>,
    non_tensor_batch = ?out js (non_tensor_batch d), meta_info = ?out ms (meta_info d)\<rparr>"
  have "common_size None (?out ks (td_cols td)) = Inr (Some (td_size td))"
    by (rule common_size_agree) (use assms(3) popped_columns[OF ok(1) sub] in auto)
  moreover have "check_consistency p"
    using popped_columns[OF ok(2) assms(7)] by (simp add: p check_consistency_def list_all_iff)
  ultimately have "from_dict (?out ks (td_cols td)) (?out js (non_tensor_batch d)) (?out ms (meta_info d)) False = Inr p"
    by (simp add: from_dict_def make_proto_def p Let_def)
  moreover define r where r: "r = \<lparr>batch = Some (td\<lparr>td_cols := filter (\<lambda>(k, _). k \<notin> set ks) (td_cols td)\<rparr>),
    non_tensor_batch = filter (\<lambda>(k, _). k \<notin> set js) (non_tensor_batch d),
    meta_info = filter (\<lambda>(k, _). k \<notin> set ms) (meta_info d)\<rparr>"
  ultimately have pop: "proto_pop ks js ms d = Inr (p, r)"
    by (simp add: proto_pop_def td(1) pop_keys_total[OF assms(4) sub dist(1)]
        pop_keys_total[OF assms(6,7) dist(2)] pop_keys_total[OF assms(8,9,2)])
  define d' where d': "d' = \<lparr>batch = Some (td\<lparr>td_cols := filter (\<lambda>(k, _). k \<notin> set ks) (td_cols td) @ ?out ks (td_cols td)\<rparr>),
    non_tensor_batch = filter (\<lambda>(k, _). k \<notin> set js) (non_tensor_batch d) @ ?out js (non_tensor_batch d),
    meta_info = filter (\<lambda>(k, _). k \<notin> set ms) (meta_info d) @ ?out ms (meta_info d)\<rparr>"
  have union: "proto_union r p = Inr d'"
    by (simp add: proto_union_def union_tensor_dict_def r p d' union_popped dist assms(2,4,6,8))
  have "rows d' = rows d"
    using pop_union_lookup[OF sub assms(4)] pop_union_lookup[OF assms(7,6)]
    by (simp add: rows_def d' td col_row_def tensor_cols_def proto_len_def)
  moreover have "map_of (meta_info d') = map_of (meta_info d)"
    using pop_union_lookup[OF assms(9,8)] by (simp add: d')
  ultimately show ?thesis using pop union
    by (intro exI[of _ p] exI[of _ r] exI[of _ d']) (simp add: p td tensor_cols_def proto_len_def comp_def)
qed

theorem pop_union_roundtrip_witness:
  "\<exists>p r d'. proto_pop [''ids''] [''uid''] [''temperature''] (example_proto 2) = Inr (p, r) \<and> proto_len p = 2
     \<and> map fst (tensor_cols p) = [''ids''] \<and> proto_union r p = Inr d' \<and> rows d' = rows (example_proto 2)"
  using pop_union_roundtrip[OF example_proto_wf(1), of 2 "[''ids'']" "[''uid'']" "[''temperature'']"]
  by (auto simp: example_proto_def tensor_cols_def proto_len_def)

end
