(* ===== verification/Dispatch.thy ===== *)
theory Dispatch
  imports Data_Proto
begin

text \<open>
  The call of a worker group from the controller: the dispatch and collect functions of
  \<open>verl/verl/single_controller/base/decorator.py\<close>, the execution of a method on every worker and
  the call object that composes them (\<open>verl/verl/single_controller/ray/base.py\<close>), over the dispatch
  registry a worker keeps (\<open>verl/verl/single_controller/base/worker.py\<close>).  Putting a value in the
  object store and getting it back is the identity.  The theorems say that a distributed call of a
  row-wise method is the map of the method over the rows, with and without automatic padding, and
  what the padding leaves behind.
\<close>

section \<open>The registry of a worker\<close>

record worker =
  dispatch_dp_rank :: "nat dict"
  collect_dp_rank :: "bool dict"

definition register_dispatch_collect_info :: "string \<Rightarrow> nat \<Rightarrow> bool \<Rightarrow> worker \<Rightarrow> worker res" where
  "register_dispatch_collect_info mesh dp_rank is_collect w =
     require (\<not> has_key (dispatch_dp_rank w) mesh \<and> \<not> has_key (collect_dp_rank w) mesh) ValueError
       (Inr (w\<lparr>dispatch_dp_rank := dict_put mesh dp_rank (dispatch_dp_rank w),
               collect_dp_rank := dict_put mesh is_collect (collect_dp_rank w)\<rparr>))"

definition query_dispatch_info :: "string \<Rightarrow> worker \<Rightarrow> nat res" where
  "query_dispatch_info mesh w =
     (case map_of (dispatch_dp_rank w) mesh of None \<Rightarrow> Inl AssertionError | Some r \<Rightarrow> Inr r)"

definition query_collect_info :: "string \<Rightarrow> worker \<Rightarrow> bool res" where
  "query_collect_info mesh w =
     (case map_of (collect_dp_rank w) mesh of None \<Rightarrow> Inl AssertionError | Some b \<Rightarrow> Inr b)"

text \<open>The group: its workers in rank order and the two caches it fills lazily.\<close>

record worker_group =
  workers :: "worker list"
  dispatch_info :: "nat list dict"
  collect_info :: "bool list dict"

definition group_world_size :: "worker_group \<Rightarrow> nat" where
  "group_world_size wg = length (workers wg)"

section \<open>Arguments and execution\<close>

text \<open>
  An argument of the execution is a list with one element per worker, or any other object.  A worker
  is called with objects; \<open>call i\<close> is the method of the worker of rank \<open>i\<close>.
\<close>

datatype 'v arg = Shards "'v list" | Whole 'v

definition sharded :: "nat \<Rightarrow> 'v arg \<Rightarrow> bool" where
  "sharded n a = (case a of Shards xs \<Rightarrow> length xs = n | Whole _ \<Rightarrow> False)"

definition shard :: "nat \<Rightarrow> 'v arg \<Rightarrow> 'v arg" where
  "shard i a = (case a of Shards xs \<Rightarrow> Whole (xs ! i) | Whole v \<Rightarrow> Whole v)"

definition execute_all ::
  "nat \<Rightarrow> (nat \<Rightarrow> 'v arg list \<Rightarrow> 'v arg dict \<Rightarrow> 'r) \<Rightarrow> 'v arg list \<Rightarrow> 'v arg dict \<Rightarrow> 'r list" where
  "execute_all n call args kwargs =
     (if list_all (sharded n) args \<and> list_all (\<lambda>(_, v). sharded n v) kwargs
      then map (\<lambda>i. call i (map (shard i) args) (map_dict (shard i) kwargs)) [0..<n]
      else map (\<lambda>i. call i args kwargs) [0..<n])"

definition dispatch_one_to_all :: "nat \<Rightarrow> 'v list \<Rightarrow> 'v dict \<Rightarrow> 'v arg list \<times> 'v arg dict" where
  "dispatch_one_to_all n args kwargs =
     (map (\<lambda>a. Shards (replicate n a)) args, map_dict (\<lambda>v. Shards (replicate n v)) kwargs)"

definition collect_dp_compute :: "nat \<Rightarrow> 'r list \<Rightarrow> 'r list res" where
  "collect_dp_compute n outs = require (length outs = n) AssertionError (Inr outs)"

definition dispatch_dp_compute :: "nat \<Rightarrow> 'v arg list \<Rightarrow> 'v arg dict \<Rightarrow> ('v arg list \<times> 'v arg dict) res" where
  "dispatch_dp_compute n args kwargs =
     require (list_all (sharded n) args \<and> list_all (\<lambda>(_, v). sharded n v) kwargs) AssertionError (Inr (args, kwargs))"

definition concat_outputs :: "('a, 'b) data_proto list \<Rightarrow> ('a, 'b) data_proto res" where
  "concat_outputs outs = require (outs \<noteq> []) AssertionError (proto_concat outs)"

definition collect_dp_compute_data_proto :: "nat \<Rightarrow> ('a, 'b) data_proto list \<Rightarrow> ('a, 'b) data_proto res" where
  "collect_dp_compute_data_proto n outs =
     require (outs \<noteq> []) AssertionError (bind_res (collect_dp_compute n outs) concat_outputs)"

section \<open>Dispatch over a device mesh\<close>

definition split_even :: "bool \<Rightarrow> nat \<Rightarrow> ('a, 'b) data_proto \<Rightarrow> ('a, 'b) data_proto list res" where
  "split_even config chunks d =
     bind_res (proto_chunk config chunks d) (\<lambda>cs. require (length cs = chunks) AssertionError (Inr cs))"

definition map_dict_res :: "('x \<Rightarrow> 'y res) \<Rightarrow> 'x dict \<Rightarrow> 'y dict res" where
  "map_dict_res f d = map_res (\<lambda>(k, v). bind_res (f v) (\<lambda>w. Inr (k, w))) d"

definition split_args_kwargs_data_proto ::
  "bool \<Rightarrow> nat \<Rightarrow> ('a, 'b) data_proto list \<Rightarrow> ('a, 'b) data_proto dict
     \<Rightarrow> (('a, 'b) data_proto list list \<times> ('a, 'b) data_proto list dict) res" where
  "split_args_kwargs_data_proto config chunks args kwargs =
     bind_res (map_res (split_even config chunks) args) (\<lambda>as.
     bind_res (map_dict_res (split_even config chunks) kwargs) (\<lambda>kws. Inr (as, kws)))"

definition spread :: "nat list \<Rightarrow> nat \<Rightarrow> nat \<Rightarrow> 'v list \<Rightarrow> 'v arg res" where
  "spread dp_rank_mapping dp_size n xs =
     require (length xs = dp_size) AssertionError
       (bind_res (map_res (\<lambda>i. require (i < length dp_rank_mapping \<and> dp_rank_mapping ! i < length xs) IndexError
            (Inr (xs ! (dp_rank_mapping ! i)))) [0..<n]) (\<lambda>ys. Inr (Shards ys)))"

text \<open>
  The first positional argument sizes the thread pool, so that a call without one fails, and an empty
  list cannot be put in the object store.
\<close>

definition dispatch_nd_compute ::
  "nat list \<Rightarrow> nat \<Rightarrow> nat \<Rightarrow> 'v list list \<Rightarrow> 'v list dict \<Rightarrow> ('v arg list \<times> 'v arg dict) res" where
  "dispatch_nd_compute dp_rank_mapping dp_size n args kwargs =
     require (args \<noteq> []) IndexError (
     require (list_all (\<lambda>a. a \<noteq> []) args \<and> list_all (\<lambda>(_, v). v \<noteq> []) kwargs) AssertionError (
     bind_res (map_res (spread dp_rank_mapping dp_size n) args) (\<lambda>as.
     bind_res (map_dict_res (spread dp_rank_mapping dp_size n) kwargs) (\<lambda>kws. Inr (as, kws)))))"

definition collect_nd_compute :: "bool list \<Rightarrow> nat \<Rightarrow> 'r list \<Rightarrow> 'r list res" where
  "collect_nd_compute collect_mask n outs =
     require (length outs = n) AssertionError (
     require (n \<le> length collect_mask) IndexError
       (Inr (map ((!) outs) (filter ((!) collect_mask) [0..<n]))))"

definition dispatch_nd_compute_dataproto ::
  "bool \<Rightarrow> nat list \<Rightarrow> nat \<Rightarrow> nat \<Rightarrow> ('a, 'b) data_proto list \<Rightarrow> ('a, 'b) data_proto dict
     \<Rightarrow> (('a, 'b) data_proto arg list \<times> ('a, 'b) data_proto arg dict) res" where
  "dispatch_nd_compute_dataproto config dp_rank_mapping dp_size n args kwargs =
     bind_res (split_args_kwargs_data_proto config dp_size args kwargs) (\<lambda>(as, kws).
     dispatch_nd_compute dp_rank_mapping dp_size n as kws)"

definition collect_nd_compute_dataproto ::
  "bool list \<Rightarrow> nat \<Rightarrow> ('a, 'b) data_proto list \<Rightarrow> ('a, 'b) data_proto res" where
  "collect_nd_compute_dataproto collect_mask n outs =
     bind_res (collect_nd_compute collect_mask n outs) concat_outputs"

text \<open>The lazy variants ask the workers once for each mesh and keep the answers.\<close>

definition dispatch_ranks :: "string \<Rightarrow> worker_group \<Rightarrow> (nat list \<times> worker_group) res" where
  "dispatch_ranks mesh wg =
     (case map_of (dispatch_info wg) mesh of
        Some ranks \<Rightarrow> Inr (ranks, wg)
      | None \<Rightarrow> bind_res (map_res (query_dispatch_info mesh) (workers wg)) (\<lambda>ranks.
          Inr (ranks, wg\<lparr>dispatch_info := dict_put mesh ranks (dispatch_info wg)\<rparr>)))"

definition dispatch_lazy_compute_data_proto ::
  "bool \<Rightarrow> string \<Rightarrow> worker_group \<Rightarrow> ('a, 'b) data_proto list \<Rightarrow> ('a, 'b) data_proto dict
     \<Rightarrow> (('a, 'b) data_proto arg list \<times> ('a, 'b) data_proto arg dict \<times> worker_group) res" where
  "dispatch_lazy_compute_data_proto config mesh wg args kwargs =
     bind_res (dispatch_ranks mesh wg) (\<lambda>(ranks, wg').
     require (ranks \<noteq> []) ValueError (
     bind_res (dispatch_nd_compute_dataproto config ranks (Max (set ranks) + 1) (group_world_size wg') args kwargs)
       (\<lambda>(as, kws). Inr (as, kws, wg'))))"

definition collect_lazy_compute_data_proto ::
  "string \<Rightarrow> worker_group \<Rightarrow> ('a, 'b) data_proto list \<Rightarrow> (('a, 'b) data_proto \<times> worker_group) res" where
  "collect_lazy_compute_data_proto mesh wg outs =
     require (has_key (dispatch_info wg) mesh) AssertionError (
     bind_res (case map_of (collect_info wg) mesh of
         Some cmask \<Rightarrow> Inr (cmask, wg)
       | None \<Rightarrow> bind_res (map_res (query_collect_info mesh) (workers wg)) (\<lambda>cmask.
           Inr (cmask, wg\<lparr>collect_info := dict_put mesh cmask (collect_info wg)\<rparr>)))
       (\<lambda>(cmask, wg'). bind_res (collect_nd_compute_dataproto cmask (group_world_size wg') outs) (\<lambda>out. Inr (out, wg'))))"

text \<open>A blocking call of a method registered with the lazy dispatch over a mesh.\<close>

definition nd_call ::
  "bool \<Rightarrow> string \<Rightarrow> (nat \<Rightarrow> ('a, 'b) data_proto arg list \<Rightarrow> ('a, 'b) data_proto arg dict \<Rightarrow> ('c, 'd) data_proto)
     \<Rightarrow> worker_group \<Rightarrow> ('a, 'b) data_proto list \<Rightarrow> ('a, 'b) data_proto dict
     \<Rightarrow> (('c, 'd) data_proto \<times> worker_group) res" where
  "nd_call config mesh call wg args kwargs =
     bind_res (dispatch_lazy_compute_data_proto config mesh wg args kwargs) (\<lambda>(as, kws, wg').
     collect_lazy_compute_data_proto mesh wg' (execute_all (group_world_size wg') call as kws))"

section \<open>Dispatch over the data-parallel workers, with automatic padding\<close>

text \<open>
  Padding changes the caller's object, so the arguments are references into a store of batches.  The
  state carries the store, the length of the first padded batch and the padding computed from it.
\<close>

type_synonym ('a, 'b) store = "nat \<Rightarrow> ('a, 'b) data_proto"
type_synonym ('a, 'b) pad_state = "('a, 'b) store \<times> nat option \<times> nat option"

definition padding_for :: "nat \<Rightarrow> nat \<Rightarrow> nat" where
  "padding_for chunks n = (if 0 < n mod chunks then chunks - n mod chunks else 0)"

definition pad_and_split ::
  "bool \<Rightarrow> nat \<Rightarrow> nat \<Rightarrow> ('a, 'b) pad_state \<Rightarrow> (('a, 'b) data_proto list \<times> ('a, 'b) pad_state) res" where
  "pad_and_split config chunks r s =
     (case s of (st, len, pad) \<Rightarrow>
        bind_res
          (if is_padding_enabled config (st r) then
             (case len of
                None \<Rightarrow> require (0 < chunks) ZeroDivisionError
                  (let n = proto_len (st r); p = padding_for chunks n in
                   bind_res (padding p False (st r)) (\<lambda>d. Inr (st(r := d), Some n, Some p)))
              | Some n \<Rightarrow> require (n = proto_len (st r)) AssertionError
                  (bind_res (padding (the pad) False (st r)) (\<lambda>d. Inr (st(r := d), len, pad))))
           else Inr (st, len, pad))
          (\<lambda>(st', len', pad'). bind_res (proto_chunk config chunks (st' r)) (\<lambda>cs. Inr (cs, st', len', pad'))))"

fun split_refs ::
  "bool \<Rightarrow> nat \<Rightarrow> nat list \<Rightarrow> ('a, 'b) pad_state \<Rightarrow> (('a, 'b) data_proto list list \<times> ('a, 'b) pad_state) res" where
  "split_refs config chunks [] s = Inr ([], s)"
| "split_refs config chunks (r # rs) s =
     bind_res (pad_and_split config chunks r s) (\<lambda>(cs, s').
     bind_res (split_refs config chunks rs s') (\<lambda>(css, s''). Inr (cs # css, s'')))"

text \<open>
  The result: the arguments, the keyword arguments, the padding the call object pops off the keyword
  arguments (0 when there is none) and the store.
\<close>

definition split_with_auto_padding ::
  "bool \<Rightarrow> nat \<Rightarrow> nat list \<Rightarrow> nat dict \<Rightarrow> ('a, 'b) store
     \<Rightarrow> (('a, 'b) data_proto arg list \<times> ('a, 'b) data_proto arg dict \<times> nat \<times> ('a, 'b) store) res" where
  "split_with_auto_padding config chunks args kwargs st =
     bind_res (split_refs config chunks args (st, None, None)) (\<lambda>(as, s).
     bind_res (split_refs config chunks (map snd kwargs) s) (\<lambda>(kws, st', len, pad).
     Inr (map Shards as, zip (map fst kwargs) (map Shards kws), (case pad of None \<Rightarrow> 0 | Some p \<Rightarrow> p), st')))"

text \<open>\<open>xs[:-p]\<close> for a positive \<open>p\<close>.\<close>

definition butlast_n :: "nat \<Rightarrow> 'x list \<Rightarrow> 'x list" where
  "butlast_n p xs = take (length xs - p) xs"

text \<open>What the call object does with the collected output: a batch loses its last rows, a list its last elements.\<close>

definition drop_padding_proto :: "nat \<Rightarrow> ('a, 'b) data_proto \<Rightarrow> ('a, 'b) data_proto res" where
  "drop_padding_proto p d = (if 0 < p then select_idxs (map int (butlast_n p [0..<proto_len d])) d else Inr d)"

definition drop_padding_list :: "nat \<Rightarrow> 'r list \<Rightarrow> 'r list" where
  "drop_padding_list p outs = (if 0 < p then butlast_n p outs else outs)"

definition dp_proto_call ::
  "bool \<Rightarrow> nat \<Rightarrow> (nat \<Rightarrow> ('a, 'b) data_proto arg list \<Rightarrow> ('a, 'b) data_proto arg dict \<Rightarrow> ('c, 'd) data_proto)
     \<Rightarrow> nat list \<Rightarrow> nat dict \<Rightarrow> ('a, 'b) store \<Rightarrow> (('c, 'd) data_proto \<times> ('a, 'b) store) res" where
  "dp_proto_call config n call args kwargs st =
     bind_res (split_with_auto_padding config n args kwargs st) (\<lambda>(as, kws, pad, st').
     bind_res (collect_dp_compute_data_proto n (execute_all n call as kws)) (\<lambda>out.
     bind_res (drop_padding_proto pad out) (\<lambda>out'. Inr (out', st'))))"

definition dp_metric_call ::
  "bool \<Rightarrow> nat \<Rightarrow> (nat \<Rightarrow> ('a, 'b) data_proto arg list \<Rightarrow> ('a, 'b) data_proto arg dict \<Rightarrow> 'r)
     \<Rightarrow> nat list \<Rightarrow> nat dict \<Rightarrow> ('a, 'b) store \<Rightarrow> ('r list \<times> ('a, 'b) store) res" where
  "dp_metric_call config n call args kwargs st =
     bind_res (split_with_auto_padding config n args kwargs st) (\<lambda>(as, kws, pad, st').
     bind_res (collect_dp_compute n (execute_all n call as kws)) (\<lambda>outs.
     Inr (drop_padding_list pad outs, st')))"

section \<open>A call is the map of the method\<close>

text \<open>
  A row-wise method: on a part of the batch \<open>d\<close> every worker returns a well-formed batch with the rows
  mapped by \<open>g\<close>, and the column names and the meta information of a template \<open>t\<close>.
\<close>

definition row_wise ::
  "nat \<Rightarrow> (nat \<Rightarrow> ('a, 'b) data_proto arg list \<Rightarrow> ('a, 'b) data_proto arg dict \<Rightarrow> ('c, 'd) data_proto)
     \<Rightarrow> (('a, 'b) row \<Rightarrow> ('c, 'd) row) \<Rightarrow> ('a, 'b) data_proto \<Rightarrow> ('c, 'd) data_proto \<Rightarrow> bool" where
  "row_wise n call g d t \<longleftrightarrow> wf t \<and> plain_meta (meta_info t)
     \<and> (\<forall>i < n. \<forall>c. wf c \<and> same_names c d \<and> meta_info c = meta_info d \<longrightarrow>
          wf (call i [Whole c] []) \<and> rows (call i [Whole c] []) = map g (rows c)
          \<and> same_names (call i [Whole c] []) t \<and> meta_info (call i [Whole c] []) = meta_info t)"

text \<open>Outputs of a row-wise method on the parts of a batch concatenate to the mapped batch.\<close>

lemma row_wise_outputs:
  assumes "row_wise n call g d t" "ds \<noteq> []" "length is = length ds" "\<forall>i \<in> set is. i < n"
    and "\<forall>e \<in> set ds. wf e \<and> same_names e d \<and> meta_info e = meta_info d"
  shows "\<exists>out. concat_outputs (map2 (\<lambda>i c. call i [Whole c] []) is ds) = Inr out \<and> wf out
    \<and> rows out = map g (concat (map rows ds)) \<and> meta_info out = meta_info t"
proof -
  let ?outs = "map2 (\<lambda>i c. call i [Whole c] []) is ds"
  have each: "wf (call i [Whole c] []) \<and> rows (call i [Whole c] []) = map g (rows c)
      \<and> same_names (call i [Whole c] []) t \<and> meta_info (call i [Whole c] []) = meta_info t"
    if "(i, c) \<in> set (zip is ds)" for i c
    using assms(1,4,5) set_zip_leftD[OF that] set_zip_rightD[OF that] by (simp add: row_wise_def)
  then have "\<forall>e \<in> set ?outs. wf e \<and> same_names e t \<and> meta_info e = meta_info t" by auto
  moreover have ne: "?outs \<noteq> []" using assms(2,3) by (cases ds; cases "is") auto
  ultimately obtain out where out: "proto_concat ?outs = Inr out" "wf out"
      "rows out = concat (map rows ?outs)" "meta_info out = meta_info t"
    using concat_same_names[OF ne, of t] assms(1) unfolding row_wise_def by blast
  have "map rows ?outs = map (\<lambda>(i, c). map g (rows c)) (zip is ds)"
    unfolding map_map by (rule map_cong[OF refl]) (use each in auto)
  also have "\<dots> = map (map g) (map rows ds)" using assms(3)
    by (induction "is" ds rule: list_induct2) auto
  finally have "rows out = map g (concat (map rows ds))" using out(3) by (simp add: map_concat)
  then show ?thesis using out ne by (simp add: concat_outputs_def)
qed

lemma spread_ok:
  assumes "length xs = dp" "length ranks = n" "\<forall>r \<in> set ranks. r < dp"
  shows "spread ranks dp n xs = Inr (Shards (map (\<lambda>i. xs ! (ranks ! i)) [0..<n]))"
proof -
  have "map_res (\<lambda>i. require (i < length ranks \<and> ranks ! i < length xs) IndexError (Inr (xs ! (ranks ! i)))) [0..<n]
    = Inr (map (\<lambda>i. xs ! (ranks ! i)) [0..<n])"
    by (rule map_res_Inr) (use assms in \<open>auto simp: require_def\<close>)
  then show ?thesis using assms(1) by (simp add: spread_def)
qed

lemma execute_all_shards:
  "length xs = n \<Longrightarrow> execute_all n call [Shards xs] [] = map (\<lambda>i. call i [Whole (xs ! i)] []) [0..<n]"
  by (simp add: execute_all_def sharded_def shard_def)

lemma dispatch_lazy_shards:
  assumes "wf d" "n = group_world_size wg" "0 < n" "map_res (query_dispatch_info mesh) (workers wg) = Inr ranks"
    and "map_of (dispatch_info wg) mesh \<in> {None, Some ranks}" "proto_len d mod (Max (set ranks) + 1) = 0"
  obtains ds wg' where
    "dispatch_lazy_compute_data_proto config mesh wg [d] [] = Inr ([Shards (map (\<lambda>i. ds ! (ranks ! i)) [0..<n])], [], wg')"
    and "length ds = Max (set ranks) + 1" "concat (map rows ds) = rows d"
    and "\<forall>e \<in> set ds. wf e \<and> same_names e d \<and> meta_info e = meta_info d"
    and "workers wg' = workers wg" "collect_info wg' = collect_info wg" "map_of (dispatch_info wg') mesh = Some ranks"
proof -
  define dp where "dp = Max (set ranks) + 1"
  have len: "length ranks = n" using map_res_length[OF assms(4)] assms(2) by (simp add: group_world_size_def)
  have ne: "ranks \<noteq> []" using len assms(3) by auto
  have below: "\<forall>r \<in> set ranks. r < dp" unfolding dp_def by (simp add: less_Suc_eq_le)
  have "0 < dp" "proto_len d mod dp = 0" using assms(6) by (simp_all add: dp_def)
  then obtain ds where ds: "proto_chunk config dp d = Inr ds" "length ds = dp" "concat (map rows ds) = rows d"
    and each: "\<forall>e \<in> set ds. wf e \<and> same_names e d \<and> meta_info e = meta_info d \<and> proto_len e = proto_len d div dp"
    by (rule chunk_rows_concat[OF assms(1), of dp config])
  have ds_ne: "ds \<noteq> []" using ds(2) \<open>0 < dp\<close> by auto
  define wg1 where "wg1 = (if map_of (dispatch_info wg) mesh = None
      then wg\<lparr>dispatch_info := dict_put mesh ranks (dispatch_info wg)\<rparr> else wg)"
  have wg1: "workers wg1 = workers wg" "collect_info wg1 = collect_info wg" "group_world_size wg1 = n"
      "map_of (dispatch_info wg1) mesh = Some ranks"
    using assms(2,5) by (auto simp: wg1_def group_world_size_def dict_put_lookup)
  have "dispatch_ranks mesh wg = Inr (ranks, wg1)"
    using assms(4,5) by (auto simp: dispatch_ranks_def wg1_def)
  moreover have "dispatch_nd_compute_dataproto config ranks dp n [d] []
      = Inr ([Shards (map (\<lambda>i. ds ! (ranks ! i)) [0..<n])], [])"
    using ds ds_ne by (simp add: dispatch_nd_compute_dataproto_def split_args_kwargs_data_proto_def split_even_def
        map_dict_res_def dispatch_nd_compute_def spread_ok[OF ds(2) len below])
  ultimately have "dispatch_lazy_compute_data_proto config mesh wg [d] []
      = Inr ([Shards (map (\<lambda>i. ds ! (ranks ! i)) [0..<n])], [], wg1)"
    using ne wg1(3) by (simp add: dispatch_lazy_compute_data_proto_def dp_def)
  then show thesis using that ds(2,3) each wg1 unfolding dp_def by blast
qed

lemma collect_lazy_concat:
  assumes "map_res (query_collect_info mesh) (workers wg) = Inr collecting" "length outs = group_world_size wg"
    and "map_of (collect_info wg) mesh \<in> {None, Some collecting}" "map_of (dispatch_info wg) mesh = Some ranks"
    and "concat_outputs (map ((!) outs) (filter ((!) collecting) [0..<group_world_size wg])) = Inr out"
  obtains wg' where "collect_lazy_compute_data_proto mesh wg outs = Inr (out, wg')"
    and "workers wg' = workers wg" "map_of (dispatch_info wg') mesh = Some ranks"
    and "map_of (collect_info wg') mesh = Some collecting"
proof -
  define wg1 where "wg1 = (if map_of (collect_info wg) mesh = None
      then wg\<lparr>collect_info := dict_put mesh collecting (collect_info wg)\<rparr> else wg)"
  have wg1: "workers wg1 = workers wg" "dispatch_info wg1 = dispatch_info wg" "group_world_size wg1 = group_world_size wg"
      "map_of (collect_info wg1) mesh = Some collecting"
    using assms(3) by (auto simp: wg1_def group_world_size_def dict_put_lookup)
  have "length collecting = group_world_size wg"
    using map_res_length[OF assms(1)] by (simp add: group_world_size_def)
  then have "collect_nd_compute_dataproto collecting (group_world_size wg) outs = Inr out"
    using assms(2,5) by (simp add: collect_nd_compute_dataproto_def collect_nd_compute_def)
  moreover have "has_key (dispatch_info wg) mesh"
    using map_of_SomeD[OF assms(4)] by (force simp: has_key_def)
  ultimately have "collect_lazy_compute_data_proto mesh wg outs = Inr (out, wg1)"
    using assms(1,3) by (auto simp: collect_lazy_compute_data_proto_def wg1_def group_world_size_def)
  then show thesis using that wg1 assms(4) by simp
qed

text \<open>
  C14. A call over a device mesh is a distributed map.  When the ranks that collect are the data-parallel
  ranks \<open>0, 1, \<dots>\<close> in order (the other ranks repeat the work of one of them) and the number of
  data-parallel ranks divides the batch, a row-wise method returns the batch of the mapped rows, in their
  order, and the group remembers the ranks and the collecting ranks of the mesh.
\<close>

theorem nd_call_maps_rows:
  assumes "wf d" "row_wise n call g d t"
    and "n = group_world_size wg" "0 < n"
    and "map_res (query_dispatch_info mesh) (workers wg) = Inr ranks"
    and "map_res (query_collect_info mesh) (workers wg) = Inr collecting"
    and "map_of (dispatch_info wg) mesh \<in> {None, Some ranks}"
    and "map_of (collect_info wg) mesh \<in> {None, Some collecting}"
    and "map ((!) ranks) (filter ((!) collecting) [0..<n]) = [0..<Max (set ranks) + 1]"
    and "proto_len d mod (Max (set ranks) + 1) = 0"
  shows "\<exists>out wg'. nd_call config mesh call wg [d] [] = Inr (out, wg') \<and> wf out
    \<and> rows out = map g (rows d) \<and> meta_info out = meta_info t
    \<and> workers wg' = workers wg \<and> map_of (dispatch_info wg') mesh = Some ranks
    \<and> map_of (collect_info wg') mesh = Some collecting"
proof -
  obtain ds wg1 where disp: "dispatch_lazy_compute_data_proto config mesh wg [d] []
      = Inr ([Shards (map (\<lambda>i. ds ! (ranks ! i)) [0..<n])], [], wg1)"
    and ds: "length ds = Max (set ranks) + 1" "concat (map rows ds) = rows d"
      "\<forall>e \<in> set ds. wf e \<and> same_names e d \<and> meta_info e = meta_info d"
    and wg1: "workers wg1 = workers wg" "collect_info wg1 = collect_info wg" "map_of (dispatch_info wg1) mesh = Some ranks"
    by (rule dispatch_lazy_shards[OF assms(1,3,4,5,7,10), of config])
  have n: "group_world_size wg1 = n" using wg1(1) assms(3) by (simp add: group_world_size_def)
  define outs where "outs = map (\<lambda>i. call i [Whole (ds ! (ranks ! i))] []) [0..<n]"
  define chosen where "chosen = filter ((!) collecting) [0..<n]"
  have ds_chosen: "map (\<lambda>i. ds ! (ranks ! i)) chosen = ds"
  proof -
    have "map (\<lambda>i. ds ! (ranks ! i)) chosen = map ((!) ds) (map ((!) ranks) chosen)" by simp
    also have "\<dots> = ds" using assms(9) map_nth_upt[of ds] ds(1) by (simp add: chosen_def del: upt_Suc map_map)
    finally show ?thesis .
  qed
  have "map ((!) outs) chosen = map (\<lambda>i. call i [Whole (ds ! (ranks ! i))] []) chosen"
    by (auto simp: outs_def chosen_def)
  also have "\<dots> = map2 (\<lambda>i c. call i [Whole c] []) chosen (map (\<lambda>i. ds ! (ranks ! i)) chosen)"
    by (simp add: zip_map2 zip_same_conv_map comp_def)
  finally have coll: "map ((!) outs) chosen = map2 (\<lambda>i c. call i [Whole c] []) chosen ds" by (simp only: ds_chosen)
  have "length chosen = length ds" "ds \<noteq> []"
    using arg_cong[OF ds_chosen, of length] ds(1) by auto
  moreover have "\<forall>i \<in> set chosen. i < n" by (simp add: chosen_def)
  ultimately obtain out where out: "concat_outputs (map ((!) outs) chosen) = Inr out" "wf out"
      "rows out = map g (rows d)" "meta_info out = meta_info t"
    using row_wise_outputs[OF assms(2) _ _ _ ds(3)] unfolding coll ds(2) by metis
  obtain wg2 where "collect_lazy_compute_data_proto mesh wg1 outs = Inr (out, wg2)" "workers wg2 = workers wg1"
      "map_of (dispatch_info wg2) mesh = Some ranks" "map_of (collect_info wg2) mesh = Some collecting"
  proof (rule collect_lazy_concat[of mesh wg1 collecting outs ranks out])
    show "map_res (query_collect_info mesh) (workers wg1) = Inr collecting" using assms(6) wg1(1) by simp
    show "length outs = group_world_size wg1" by (simp add: outs_def n)
    show "map_of (collect_info wg1) mesh \<in> {None, Some collecting}" using assms(8) wg1(2) by simp
    show "concat_outputs (map ((!) outs) (filter ((!) collecting) [0..<group_world_size wg1])) = Inr out"
      using out(1) by (simp add: n chosen_def)
  qed (use wg1(3) in blast)+
  moreover have "execute_all n call [Shards (map (\<lambda>i. ds ! (ranks ! i)) [0..<n])] [] = outs"
    by (simp add: execute_all_shards outs_def)
  ultimately have "nd_call config mesh call wg [d] [] = Inr (out, wg2)" by (simp add: nd_call_def disp n)
  then show ?thesis using out wg1(1) \<open>workers wg2 = workers wg1\<close> \<open>map_of (dispatch_info wg2) mesh = Some ranks\<close>
      \<open>map_of (collect_info wg2) mesh = Some collecting\<close> by simp
qed

text \<open>Two data-parallel ranks of two workers each: the first worker of each pair collects.\<close>

definition example_group :: worker_group where
  "example_group =
     \<lparr>workers = map (\<lambda>i. \<lparr>dispatch_dp_rank = [(''actor'', i div 2)], collect_dp_rank = [(''actor'', i mod 2 = 0)]\<rparr>) [0..<4],
      dispatch_info = [], collect_info = []\<rparr>"

definition same_batch :: "nat \<Rightarrow> 'v arg list \<Rightarrow> 'v arg dict \<Rightarrow> 'v" where
  "same_batch i args kwargs = (case args of Whole v # _ \<Rightarrow> v | Shards vs # _ \<Rightarrow> hd vs)"

lemma same_batch_row_wise: "wf d \<Longrightarrow> plain_meta (meta_info d) \<Longrightarrow> row_wise n same_batch (\<lambda>r. r) d d"
  by (simp add: row_wise_def same_batch_def)

theorem nd_call_maps_rows_witness:
  "\<exists>out wg'. nd_call False ''actor'' same_batch example_group [example_proto 4] [] = Inr (out, wg')
     \<and> rows out = rows (example_proto 4)"
proof -
  have up: "[0..<4] = [0, 1, 2, 3 :: nat]" "[0..<Suc (Suc 0)] = [0, 1 :: nat]"
    "4 mod Suc (Suc 0) = 0" by (simp_all add: upt_rec numeral_2_eq_2[symmetric] del: upt_Suc)
  have "\<exists>out wg'. nd_call False ''actor'' same_batch example_group [example_proto 4] [] = Inr (out, wg') \<and> wf out
    \<and> rows out = map (\<lambda>r. r) (rows (example_proto 4)) \<and> meta_info out = meta_info (example_proto 4)
    \<and> workers wg' = workers example_group \<and> map_of (dispatch_info wg') ''actor'' = Some [0, 0, 1, 1]
    \<and> map_of (collect_info wg') ''actor'' = Some [True, False, True, False]"
    by (rule nd_call_maps_rows[where n = 4, OF example_proto_wf(1) same_batch_row_wise[OF example_proto_wf(1,2)]])
       (simp_all add: example_group_def group_world_size_def up query_dispatch_info_def query_collect_info_def example_proto_wf(3)
          del: upt_Suc)
  then show ?thesis by auto
qed

section \<open>Automatic padding\<close>

lemma padding_rows:
  assumes "wf d" "plain_meta (meta_info d)" "0 < proto_len d"
  shows "\<exists>d'. padding p False d = Inr d' \<and> wf d' \<and> rows d' = rows d @ replicate p (last (rows d))
    \<and> meta_info d' = meta_info d \<and> same_names d' d"
proof (cases "p = 0")
  case True
  then show ?thesis using assms by (simp add: padding_def same_names_def)
next
  case False
  have ne: "rows d \<noteq> []" using assms(3) length_rows[of d] by fastforce
  have last: "rows d ! (proto_len d - 1) = last (rows d)" using ne by (simp add: last_conv_nth)
  have "(int (proto_len d) - 1) mod int (proto_len d) = int (proto_len d) - 1"
    by (rule mod_pos_pos_trivial) (use assms(3) in auto)
  then have idx: "nat ((int (proto_len d) - 1) mod int (proto_len d)) = proto_len d - 1" using assms(3) by linarith
  obtain c where c: "select_idxs [int (proto_len d) - 1] d = Inr c" "wf c" "rows c = [last (rows d)]"
      "meta_info c = meta_info d" "same_names c d"
    using select_idxs_rows[OF assms(1), of "[int (proto_len d) - 1]"] assms(3) unfolding list.map idx last by auto
  obtain e where e: "proto_repeat p True c = Inr e" "wf e" "rows e = replicate p (last (rows d))"
      "meta_info e = meta_info d" "same_names e d"
    using proto_repeat_rows[OF c(2), of p True] c(3,4,5) by (auto simp: same_names_def)
  obtain u where u: "proto_concat [d, e] = Inr u" "wf u" "rows u = rows d @ replicate p (last (rows d))"
      "meta_info u = meta_info d" "same_names u d"
    using concat_same_names[of "[d, e]" d] assms(1,2) e by (auto simp: same_names_def)
  have "d\<lparr>batch := batch u, non_tensor_batch := non_tensor_batch u\<rparr> = u" using u(4) by simp
  then have "padding p False d = Inr u" using False c(1) e(1) u(1) by (simp add: padding_def)
  then show ?thesis using u by blast
qed

lemma padding_for_divides:
  assumes "0 < n"
  shows "(m + padding_for n m) mod n = 0"
proof (cases "m mod n = 0")
  case False
  have "m + (n - m mod n) = n * (m div n) + n"
    using mult_div_mod_eq[of n m] mod_less_divisor[OF assms, of m] by linarith
  then show ?thesis using False by (simp add: padding_for_def)
qed (simp add: padding_for_def)

text \<open>Dispatching one padded batch.\<close>

lemma pad_and_split_first:
  assumes "wf (st r)" "plain_meta (meta_info (st r))" "0 < proto_len (st r)" "0 < n" "is_padding_enabled config (st r)"
  obtains d' ds where "padding (padding_for n (proto_len (st r))) False (st r) = Inr d'"
    and "pad_and_split config n r (st, None, None)
      = Inr (ds, st(r := d'), Some (proto_len (st r)), Some (padding_for n (proto_len (st r))))"
    and "length ds = n" "concat (map rows ds) = rows d'"
    and "rows d' = rows (st r) @ replicate (padding_for n (proto_len (st r))) (last (rows (st r)))"
    and "\<forall>e \<in> set ds. wf e \<and> same_names e (st r) \<and> meta_info e = meta_info (st r)"
proof -
  let ?p = "padding_for n (proto_len (st r))"
  obtain d' where d': "padding ?p False (st r) = Inr d'" "wf d'"
      "rows d' = rows (st r) @ replicate ?p (last (rows (st r)))" "meta_info d' = meta_info (st r)" "same_names d' (st r)"
    using padding_rows[OF assms(1-3), of ?p] by (elim exE conjE) (rule that)
  have "proto_len d' = proto_len (st r) + ?p" using arg_cong[OF d'(3), of length] by simp
  then have "proto_len d' mod n = 0" using padding_for_divides[OF assms(4)] by simp
  then obtain ds where ds: "proto_chunk config n d' = Inr ds" "length ds = n" "concat (map rows ds) = rows d'"
      "\<forall>e \<in> set ds. wf e \<and> same_names e d' \<and> meta_info e = meta_info d' \<and> proto_len e = proto_len d' div n"
    by (rule chunk_rows_concat[OF d'(2) assms(4), of config])
  moreover have "pad_and_split config n r (st, None, None) = Inr (ds, st(r := d'), Some (proto_len (st r)), Some ?p)"
    using assms(4,5) d'(1) ds(1) by (simp add: pad_and_split_def Let_def)
  moreover have "\<forall>e \<in> set ds. wf e \<and> same_names e (st r) \<and> meta_info e = meta_info (st r)"
    using ds(4) d'(4,5) by (simp add: same_names_def)
  ultimately show thesis using that d'(1,3) by blast
qed

lemma execute_all_parts:
  "length ds = n \<Longrightarrow> execute_all n call [Shards ds] [] = map2 (\<lambda>i c. call i [Whole c] []) [0..<n] ds"
  by (simp add: execute_all_shards) (rule nth_equalityI, auto)

text \<open>Dropping the padding leaves the first rows.\<close>

lemma drop_padding_rows:
  assumes "wf d" "proto_len d = m + p"
  shows "\<exists>d'. drop_padding_proto p d = Inr d' \<and> rows d' = take m (rows d)"
proof (cases "p = 0")
  case False
  define idxs where "idxs = map int (butlast_n p [0..<proto_len d])"
  have idxs: "idxs = map int [0..<m]" using assms(2) by (simp add: idxs_def butlast_n_def take_upt)
  obtain d' where d': "select_idxs idxs d = Inr d'" "rows d' = map (\<lambda>i. rows d ! nat (i mod int (proto_len d))) idxs"
    using select_idxs_rows[OF assms(1), of idxs] assms(2) by (auto simp: idxs)
  have "rows d' = take m (rows d)"
    by (rule nth_equalityI) (use assms(2) in \<open>auto simp: d'(2) idxs nth_append\<close>)
  then show ?thesis using d'(1) False by (simp add: drop_padding_proto_def idxs_def)
qed (use assms in \<open>simp add: drop_padding_proto_def\<close>)

text \<open>
  C15. With automatic padding a call over \<open>n\<close> workers takes a batch of any positive length: a row-wise
  method returns the mapped rows of the original batch, without padding.  The caller's batch itself
  keeps the padding: it has grown by the copies of its last row, every other batch is as it was.
\<close>

theorem dp_call_padding:
  assumes "wf (st r)" "plain_meta (meta_info (st r))" "0 < proto_len (st r)"
    and "is_padding_enabled config (st r)" "0 < n" "row_wise n call g (st r) t"
  shows "\<exists>out st'. dp_proto_call config n call [r] [] st = Inr (out, st') \<and> rows out = map g (rows (st r))
    \<and> rows (st' r) = rows (st r) @ replicate (padding_for n (proto_len (st r))) (last (rows (st r)))
    \<and> (\<forall>q. q \<noteq> r \<longrightarrow> st' q = st q)"
proof -
  let ?p = "padding_for n (proto_len (st r))"
  obtain d' ds where split: "pad_and_split config n r (st, None, None)
      = Inr (ds, st(r := d'), Some (proto_len (st r)), Some ?p)"
    and ds: "length ds = n" "concat (map rows ds) = rows d'"
    and d': "rows d' = rows (st r) @ replicate ?p (last (rows (st r)))"
    and each: "\<forall>e \<in> set ds. wf e \<and> same_names e (st r) \<and> meta_info e = meta_info (st r)"
    using pad_and_split_first[of st r n config, OF assms(1-3,5,4)] by metis
  define outs where "outs = map2 (\<lambda>i c. call i [Whole c] []) [0..<n] ds"
  have ne: "ds \<noteq> []" "outs \<noteq> []" using ds(1) assms(5) by (auto simp: outs_def)
  have len: "length outs = n" using ds(1) by (simp add: outs_def)
  obtain out where out: "concat_outputs outs = Inr out" "wf out" "rows out = map g (rows d')"
    using row_wise_outputs[OF assms(6) ne(1), of "[0..<n]"] ds each unfolding outs_def by auto
  have outlen: "proto_len out = proto_len (st r) + ?p" using arg_cong[OF out(3), of length] d' by simp
  then obtain out' where out': "drop_padding_proto ?p out = Inr out'" "rows out' = take (proto_len (st r)) (rows out)"
    using drop_padding_rows[OF out(2)] by blast
  then have "rows out' = map g (rows (st r))" by (simp add: out(3) d' take_map)
  moreover have "dp_proto_call config n call [r] [] st = Inr (out', st(r := d'))"
    using out(1) out'(1) ne(2) len ds(1)
    by (simp add: dp_proto_call_def split_with_auto_padding_def split execute_all_parts outs_def[symmetric]
        collect_dp_compute_data_proto_def collect_dp_compute_def)
  ultimately show ?thesis using d' by (intro exI[of _ out'] exI[of _ "st(r := d')"]) simp
qed

theorem dp_call_padding_witness:
  "\<exists>out st'. dp_proto_call True 4 same_batch [0] [] (\<lambda>_. example_proto 6) = Inr (out, st')
     \<and> rows out = rows (example_proto 6)
     \<and> rows (st' 0) = rows (example_proto 6) @ replicate 2 (last (rows (example_proto 6)))"
proof -
  have "row_wise 4 same_batch (\<lambda>r. r) (example_proto 6) (example_proto 6)"
    by (rule same_batch_row_wise[OF example_proto_wf(1,2)])
  from dp_call_padding[of "\<lambda>_. example_proto 6" 0 True 4 same_batch, OF _ _ _ _ _ this]
  obtain out st' where "dp_proto_call True 4 same_batch [0] [] (\<lambda>_. example_proto 6) = Inr (out, st')"
      "rows out = map (\<lambda>r. r) (rows (example_proto 6))"
      "rows (st' 0) = rows (example_proto 6) @ replicate (padding_for 4 6) (last (rows (example_proto 6)))"
    by (auto simp: example_proto_wf is_padding_enabled_def)
  then show ?thesis by (auto simp: example_proto_wf(3) padding_for_def)
qed

text \<open>
  The padded length is remembered for the call, and the batch it was computed from has grown: when
  the batch is not divisible, the same batch passed twice raises, whatever the worker does and whatever
  other arguments follow.
\<close>

theorem dp_call_same_batch_twice:
  assumes "wf (st r)" "plain_meta (meta_info (st r))" "0 < proto_len (st r)"
    and "is_padding_enabled config (st r)" "0 < n" "proto_len (st r) mod n \<noteq> 0"
  shows "dp_proto_call config n call (r # r # rs) kwargs st = Inl AssertionError"
proof -
  let ?p = "padding_for n (proto_len (st r))"
  obtain d' ds where pad: "padding ?p False (st r) = Inr d'"
    and split: "pad_and_split config n r (st, None, None) = Inr (ds, st(r := d'), Some (proto_len (st r)), Some ?p)"
    and d': "rows d' = rows (st r) @ replicate ?p (last (rows (st r)))"
    using pad_and_split_first[of st r n config, OF assms(1-3,5,4)] by metis
  have "proto_len d' = proto_len (st r) + ?p" using arg_cong[OF d', of length] by simp
  moreover have "0 < ?p" using assms(5,6) by (simp add: padding_for_def)
  moreover have "is_padding_enabled config d'"
    using padding_rows[OF assms(1-3), of ?p] pad assms(4) by (auto simp: is_padding_enabled_def)
  ultimately have "pad_and_split config n r (st(r := d'), Some (proto_len (st r)), Some ?p) = Inl AssertionError"
    by (simp add: pad_and_split_def)
  then show ?thesis by (simp add: dp_proto_call_def split_with_auto_padding_def split)
qed

theorem dp_call_same_batch_twice_witness:
  "dp_proto_call True 4 same_batch [0, 0] [] (\<lambda>_. example_proto 6) = Inl AssertionError"
  using dp_call_same_batch_twice[of "\<lambda>_. example_proto 6" 0 True 4 same_batch "[]" "[]"]
  by (simp add: example_proto_wf is_padding_enabled_def)

text \<open>
  A call that collects one result per worker cuts the padding, which counts rows, off the list of
  results: the results of the last workers are lost, although all but the very last of them may have
  worked on real rows.
\<close>

theorem dp_metric_call_loses_workers:
  assumes "wf (st r)" "plain_meta (meta_info (st r))" "0 < proto_len (st r)"
    and "is_padding_enabled config (st r)" "0 < n"
  shows "\<exists>ds outs st'. dp_metric_call config n call [r] [] st = Inr (outs, st')
    \<and> length ds = n \<and> concat (map rows ds) = rows (st' r)
    \<and> outs = take (n - padding_for n (proto_len (st r))) (map2 (\<lambda>i c. call i [Whole c] []) [0..<n] ds)"
proof -
  let ?p = "padding_for n (proto_len (st r))"
  obtain d' ds where split: "pad_and_split config n r (st, None, None)
      = Inr (ds, st(r := d'), Some (proto_len (st r)), Some ?p)"
    and ds: "length ds = n" "concat (map rows ds) = rows d'"
    using pad_and_split_first[of st r n config, OF assms(1-3,5,4)] by metis
  define outs where "outs = map2 (\<lambda>i c. call i [Whole c] []) [0..<n] ds"
  have "length outs = n" using ds(1) by (simp add: outs_def)
  then have "dp_metric_call config n call [r] [] st = Inr (take (n - ?p) outs, st(r := d'))"
    using ds(1) by (simp add: dp_metric_call_def split_with_auto_padding_def split execute_all_parts outs_def[symmetric]
        collect_dp_compute_def drop_padding_list_def butlast_n_def)
  then show ?thesis using ds unfolding outs_def by (intro exI[of _ ds]) auto
qed

theorem dp_metric_call_loses_workers_witness:
  "\<exists>outs st'. dp_metric_call True 4 (\<lambda>i args kwargs. i) [0] [] (\<lambda>_. example_proto 5) = Inr (outs, st') \<and> outs = [0]"
proof -
  have up: "[0..<4] = [0, 1, 2, 3 :: nat]" by (simp add: upt_rec)
  obtain ds :: "(nat, string) data_proto list" and outs st' where
    "dp_metric_call True 4 (\<lambda>i args kwargs. i) [0] [] (\<lambda>_. example_proto 5) = Inr (outs, st')" "length ds = 4"
    "outs = take (4 - padding_for 4 5) (map2 (\<lambda>i c. i) [0..<4] ds)"
    using dp_metric_call_loses_workers[of "\<lambda>_. example_proto 5" 0 True 4 "\<lambda>i args kwargs. i"]
    by (auto simp: example_proto_wf is_padding_enabled_def)
  moreover obtain a b c e where "ds = [a, b, c, e]"
    using \<open>length ds = 4\<close> by (auto simp: eval_nat_numeral length_Suc_conv)
  ultimately show ?thesis by (simp add: up padding_for_def)
qed

end
