(* ===== verification/Tool_Agent_Loop.thy ===== *)
theory Tool_Agent_Loop
  imports Data_Proto
begin

text \<open>
  The tool agent loop (\<open>verl/verl/experimental/agent_loop/tool_agent_loop.py\<close>): a state machine that
  alternates between generating with the model and calling the tools it asked for, and accumulates
  the response with its mask and log-probabilities.  The inference server, the chat template, the
  tokenizer, the tool parser and the tools are an argument, a record of functions; their answers may
  depend on the whole state of the trajectory.  The response text of gpt-oss comes from
  \<open>verl/verl/experimental/agent_loop/utils.py\<close>.
\<close>

section \<open>Tools\<close>

record function_call =
  call_name :: string
  call_arguments :: string

record 'i tool_response =
  resp_text :: "string option"
  resp_image :: "'i option list option"
  resp_video :: "'i option list option"

datatype tool_kind = Function_Tool | Base_Tool

text \<open>What happens to the instances of the stateful tools, by tool name and instance.\<close>

datatype tool_event = Created string string | Executed string string | Released string string

text \<open>
  The tools: parsing the arguments, the creation of an instance (an exception with its text, or the
  instance) and the execution (an exception, or the response and the reward).  A function tool is
  called without an instance.
\<close>

record ('i, 'j) toolbox =
  json_loads :: "string \<Rightarrow> string + 'j"
  create_instance :: "string \<Rightarrow> string + string"
  call_function :: "string \<Rightarrow> 'j \<Rightarrow> string + ('i tool_response \<times> real)"
  execute_instance :: "string \<Rightarrow> string \<Rightarrow> 'j \<Rightarrow> string + ('i tool_response \<times> real option)"

definition text_response :: "string \<Rightarrow> 'i tool_response" where
  "text_response t = \<lparr>resp_text = Some t, resp_image = None, resp_video = None\<rparr>"

definition truncate_text :: "nat \<Rightarrow> string \<Rightarrow> string \<Rightarrow> string" where
  "truncate_text max_length side t =
     (if length t > max_length then
        if side = ''left'' then ''(truncated)...'' @ last_n max_length t
        else if side = ''right'' then take max_length t @ ''...(truncated)''
        else (let n = max_length div 2 in take n t @ ''...(truncated)...'' @ last_n n t)
      else t)"

text \<open>The names in a list as Python prints them, for names without quotes and backslashes.\<close>

definition quoted :: "string \<Rightarrow> string" where
  "quoted n = [CHR 0x27] @ n @ [CHR 0x27]"

fun name_list :: "string list \<Rightarrow> string" where
  "name_list [] = ''''"
| "name_list [n] = quoted n"
| "name_list (n # ns) = quoted n @ '', '' @ name_list ns"

definition finish_response :: "nat \<Rightarrow> string \<Rightarrow> 'i tool_response \<Rightarrow> 'i tool_response" where
  "finish_response max_length side r = r\<lparr>resp_text := map_option (truncate_text max_length side) (resp_text r)\<rparr>"

definition error_text :: "string \<Rightarrow> string \<Rightarrow> string" where
  "error_text name e = ''Error executing tool '' @ quoted name @ '': '' @ e"

text \<open>
  \<open>_call_tool\<close>, with the events of the instance it creates.  An exception of the creation leaves no
  instance, an exception of the execution still releases it; an empty instance is not released.
\<close>

definition call_tool ::
  "('i, 'j) toolbox \<Rightarrow> tool_kind dict \<Rightarrow> nat \<Rightarrow> string \<Rightarrow> function_call
     \<Rightarrow> ('i tool_response \<times> real option) \<times> tool_event list" where
  "call_tool tb active max_length side c =
     (let name = call_name c in
      case map_of active name of
        None \<Rightarrow> ((text_response (''Unknown function '' @ quoted name @ ''. Available tools: ['' @ name_list (map fst active) @ '']''),
                Some 0), [])
      | Some kind \<Rightarrow>
          (case json_loads tb (call_arguments c) of
             Inl e \<Rightarrow> ((text_response (''Invalid JSON in arguments for '' @ quoted name @ '': '' @ e), Some 0), [])
           | Inr args \<Rightarrow>
               (case kind of
                  Function_Tool \<Rightarrow>
                    (case call_function tb name args of
                       Inl e \<Rightarrow> ((text_response (error_text name e), Some 0), [])
                     | Inr (r, reward) \<Rightarrow> ((finish_response max_length side r, Some reward), []))
                | Base_Tool \<Rightarrow>
                    (case create_instance tb name of
                       Inl e \<Rightarrow> ((text_response (error_text name e), Some 0), [])
                     | Inr inst \<Rightarrow>
                         (let released = (if inst = '''' then [] else [Released name inst]);
                              events = [Created name inst, Executed name inst] @ released in
                          case execute_instance tb name inst args of
                            Inl e \<Rightarrow> ((text_response (error_text name e), Some 0), events)
                          | Inr (r, reward) \<Rightarrow> ((finish_response max_length side r, reward), events))))))"

section \<open>The state of a trajectory\<close>

text \<open>The content of a tool message: a text, or parts.\<close>

datatype content_part = Image_Part | Video_Part | Text_Part string
datatype content = Text_Content string | Parts "content_part list"
datatype 'm message = Raw 'm | Tool_Message content

record ('m, 'i, 'e) agent_data =
  messages :: "'m message list"
  image_data :: "'i list option"
  num_preempted :: "int option"
  prompt_ids :: "nat list"
  response_ids :: "nat list"
  response_mask :: "nat list"
  response_logprobs :: "real list"
  tool_rewards :: "real list"
  user_turns :: nat
  assistant_turns :: nat
  tool_calls :: "function_call list"
  routed_experts :: "'e list option"
  extra_fields :: "py dict"
  tool_events :: "tool_event list"

datatype agent_state = PENDING | GENERATING | PROCESSING_TOOLS | TERMINATED

record 'e token_output =
  token_ids :: "nat list"
  log_probs :: "real list option"
  out_routed_experts :: "'e list option"
  out_num_preempted :: "int option"
  out_extra_fields :: "py dict"

record agent_config =
  max_user_turns :: "nat option"
  max_assistant_turns :: "nat option"
  max_parallel_calls :: nat
  max_tool_response_length :: nat
  truncate_side :: string
  response_length :: nat
  parser_name :: string
  image_processor :: bool
  active_tools :: "tool_kind dict"

text \<open>
  The services the loop calls: the prompt of the conversation, the tokens of the tool messages without
  the system prompt, the encoding of a text, the generation, the tool parser and how Python prints a
  list content.
\<close>

record ('m, 'i, 'e, 'j) services =
  template_prompt :: "('m, 'i, 'e) agent_data \<Rightarrow> nat list"
  template_tools :: "content list \<Rightarrow> 'i list option \<Rightarrow> nat list"
  encode_text :: "string \<Rightarrow> nat list"
  generate :: "('m, 'i, 'e) agent_data \<Rightarrow> 'e token_output"
  extract_tool_calls :: "nat list \<Rightarrow> function_call list"
  show_parts :: "content_part list \<Rightarrow> string"
  toolbox :: "('i, 'j) toolbox"

definition init_agent_data :: "'m list \<Rightarrow> 'i list option \<Rightarrow> ('m, 'i, 'e) agent_data" where
  "init_agent_data msgs images =
     \<lparr>messages = map Raw msgs, image_data = images, num_preempted = None, prompt_ids = [], response_ids = [],
      response_mask = [], response_logprobs = [], tool_rewards = [], user_turns = 0, assistant_turns = 0,
      tool_calls = [], routed_experts = None, extra_fields = [], tool_events = []\<rparr>"

text \<open>The tools of a sample: a selection of the registered ones, in the order of the selection.\<close>

definition select_tools :: "string list option \<Rightarrow> tool_kind dict \<Rightarrow> tool_kind dict" where
  "select_tools selection tools =
     (case selection of
        None \<Rightarrow> tools
      | Some names \<Rightarrow>
          if names = [] \<or> tools = [] then tools
          else foldl (\<lambda>d n. case map_of tools n of None \<Rightarrow> d | Some t \<Rightarrow> dict_put n t d) [] names)"

section \<open>The handlers\<close>

definition handle_pending ::
  "('m, 'i, 'e, 'j) services \<Rightarrow> ('m, 'i, 'e) agent_data \<Rightarrow> agent_state \<times> ('m, 'i, 'e) agent_data" where
  "handle_pending env d = (GENERATING, d\<lparr>prompt_ids := template_prompt env d\<rparr>)"

definition reached :: "nat option \<Rightarrow> nat \<Rightarrow> bool" where
  "reached limit n = (case limit of None \<Rightarrow> False | Some m \<Rightarrow> m \<noteq> 0 \<and> m \<le> n)"

definition count_preempted :: "int option \<Rightarrow> int option \<Rightarrow> int option" where
  "count_preempted old new =
     (case old of
        None \<Rightarrow> Some (case new of None \<Rightarrow> - 1 | Some n \<Rightarrow> n)
      | Some m \<Rightarrow> Some (m + (case new of None \<Rightarrow> 0 | Some n \<Rightarrow> n)))"

definition merge_extra_fields :: "py dict \<Rightarrow> py dict \<Rightarrow> py dict" where
  "merge_extra_fields old new =
     (if old = [] then foldl (\<lambda>d (k, v). dict_put k v d) [] new
      else case map_of new ''max_global_steps'' of
             None \<Rightarrow> old
           | Some v \<Rightarrow> if truthy v then dict_put ''max_global_steps'' v old else old)"

definition add_generated :: "'e token_output \<Rightarrow> ('m, 'i, 'e) agent_data \<Rightarrow> ('m, 'i, 'e) agent_data" where
  "add_generated out d =
     d\<lparr>num_preempted := count_preempted (num_preempted d) (out_num_preempted out),
       extra_fields := merge_extra_fields (extra_fields d) (out_extra_fields out),
       assistant_turns := assistant_turns d + 1,
       response_ids := token_ids out,
       prompt_ids := prompt_ids d @ token_ids out,
       response_mask := response_mask d @ replicate (length (token_ids out)) 1,
       response_logprobs := (case log_probs out of None \<Rightarrow> response_logprobs d | Some ls \<Rightarrow> response_logprobs d @ ls),
       routed_experts := (case out_routed_experts out of None \<Rightarrow> routed_experts d | Some r \<Rightarrow> Some r)\<rparr>"

definition handle_generating ::
  "agent_config \<Rightarrow> ('m, 'i, 'e, 'j) services \<Rightarrow> ('m, 'i, 'e) agent_data \<Rightarrow> agent_state \<times> ('m, 'i, 'e) agent_data" where
  "handle_generating cfg env d =
     (let d' = add_generated (generate env d) d in
      if response_length cfg \<le> length (response_mask d') then (TERMINATED, d')
      else if reached (max_assistant_turns cfg) (assistant_turns d') then (TERMINATED, d')
      else if reached (max_user_turns cfg) (user_turns d') then (TERMINATED, d')
      else (let calls = extract_tool_calls env (response_ids d') in
            (if calls = [] then TERMINATED else PROCESSING_TOOLS, d'\<lparr>tool_calls := calls\<rparr>)))"

definition some_text :: "string option \<Rightarrow> string" where
  "some_text t = (case t of None \<Rightarrow> '''' | Some s \<Rightarrow> s)"

definition has_items :: "'a list option \<Rightarrow> bool" where
  "has_items xs = (case xs of None \<Rightarrow> False | Some l \<Rightarrow> l \<noteq> [])"

text \<open>The content of the message of one response and its images.\<close>

definition response_content :: "'i tool_response \<Rightarrow> content" where
  "response_content r =
     (if has_items (resp_image r) \<or> has_items (resp_video r)
      then Parts ((if has_items (resp_image r) then [Image_Part] else [])
                @ (if has_items (resp_video r) then [Video_Part] else [])
                @ (if some_text (resp_text r) \<noteq> '''' then [Text_Part (some_text (resp_text r))] else []))
      else Text_Content (some_text (resp_text r)))"

definition response_images :: "'i tool_response \<Rightarrow> 'i list" where
  "response_images r = List.map_filter (\<lambda>i. i) (case resp_image r of None \<Rightarrow> [] | Some l \<Rightarrow> l)"

fun process_responses ::
  "bool \<Rightarrow> ('i tool_response \<times> real option) list \<Rightarrow> (content list \<times> 'i list \<times> real list) res" where
  "process_responses processor [] = Inr ([], [], [])"
| "process_responses processor ((r, reward) # rs) =
     require (processor \<or> \<not> (has_items (resp_image r) \<or> has_items (resp_video r))) ValueError (
     require (\<not> has_items (resp_video r)) NotImplementedError (
     bind_res (process_responses processor rs) (\<lambda>(cs, imgs, rewards).
     Inr (response_content r # cs, response_images r @ imgs, (case reward of None \<Rightarrow> [] | Some x \<Rightarrow> [x]) @ rewards))))"

definition gpt_oss_text :: "(content_part list \<Rightarrow> string) \<Rightarrow> content list \<Rightarrow> string list \<Rightarrow> string" where
  "gpt_oss_text show_content contents names =
     concat (map2 (\<lambda>c n. ''<|start|>functions.'' @ n @ '' to=assistant<|channel|>commentary<|message|>''
        @ (case c of Text_Content t \<Rightarrow> t | Parts ps \<Rightarrow> show_content ps) @ ''<|end|>'') contents names) @ ''<|start|>assistant''"

definition gemma4_text :: "content list \<Rightarrow> string list \<Rightarrow> string" where
  "gemma4_text contents names =
     concat (map2 (\<lambda>c n. ''<|tool_response>response:'' @ n @ ''{value:<|'' @ [CHR 0x22] @ ''|>''
        @ (case c of Text_Content t \<Rightarrow> t
           | Parts ps \<Rightarrow> concat (map (\<lambda>p. case p of Text_Part t \<Rightarrow> t | _ \<Rightarrow> '''') ps))
        @ ''<|'' @ [CHR 0x22] @ ''|>}<tool_response|>'') contents names)"

text \<open>The tokens of the tool responses: formatted by hand for two parsers, with the chat template otherwise.\<close>

definition tool_tokens ::
  "agent_config \<Rightarrow> ('m, 'i, 'e, 'j) services \<Rightarrow> content list \<Rightarrow> string list \<Rightarrow> 'i list \<Rightarrow> nat list" where
  "tool_tokens cfg env contents names images =
     (if parser_name cfg = ''gpt-oss'' then encode_text env (gpt_oss_text (show_parts env) contents names)
      else if parser_name cfg = ''gemma4'' then encode_text env (gemma4_text contents names)
      else template_tools env contents (if images = [] then None else Some images))"

definition handle_processing_tools ::
  "agent_config \<Rightarrow> ('m, 'i, 'e, 'j) services \<Rightarrow> ('m, 'i, 'e) agent_data
     \<Rightarrow> (agent_state \<times> ('m, 'i, 'e) agent_data) res" where
  "handle_processing_tools cfg env d =
     (let calls = take (max_parallel_calls cfg) (tool_calls d);
          results = map (call_tool (toolbox env) (active_tools cfg) (max_tool_response_length cfg) (truncate_side cfg)) calls in
      bind_res (process_responses (image_processor cfg) (map fst results)) (\<lambda>(contents, images, rewards).
      let d1 = d\<lparr>tool_rewards := tool_rewards d @ rewards, messages := messages d @ map Tool_Message contents,
                 tool_events := tool_events d @ concat (map snd results)\<rparr>;
          ids = tool_tokens cfg env contents (map call_name calls) images in
      if response_length cfg \<le> length (response_mask d1) + length ids then Inr (TERMINATED, d1)
      else Inr (GENERATING,
        d1\<lparr>image_data := (if images = [] then image_data d1
             else Some ((case image_data d1 of None \<Rightarrow> [] | Some l \<Rightarrow> l) @ images)),
           prompt_ids := prompt_ids d1 @ ids,
           response_mask := response_mask d1 @ replicate (length ids) 0,
           response_logprobs := (if response_logprobs d1 = [] then [] else response_logprobs d1 @ replicate (length ids) 0),
           user_turns := user_turns d1 + 1\<rparr>)))"

section \<open>The loop and its output\<close>

definition agent_next ::
  "agent_config \<Rightarrow> ('m, 'i, 'e, 'j) services \<Rightarrow> agent_state \<times> ('m, 'i, 'e) agent_data
     \<Rightarrow> (agent_state \<times> ('m, 'i, 'e) agent_data) res" where
  "agent_next cfg env s =
     (case s of (st, d) \<Rightarrow>
        (case st of
           PENDING \<Rightarrow> Inr (handle_pending env d)
         | GENERATING \<Rightarrow> Inr (handle_generating cfg env d)
         | PROCESSING_TOOLS \<Rightarrow> handle_processing_tools cfg env d
         | TERMINATED \<Rightarrow> Inr (TERMINATED, d)))"

text \<open>The loop with a bound on its rounds; \<open>None\<close> when the bound is too small.\<close>

fun agent_loop ::
  "agent_config \<Rightarrow> ('m, 'i, 'e, 'j) services \<Rightarrow> nat \<Rightarrow> agent_state \<times> ('m, 'i, 'e) agent_data
     \<Rightarrow> ('m, 'i, 'e) agent_data res option" where
  "agent_loop cfg env 0 s = (if fst s = TERMINATED then Some (Inr (snd s)) else None)"
| "agent_loop cfg env (Suc fuel) s =
     (if fst s = TERMINATED then Some (Inr (snd s))
      else case agent_next cfg env s of
             Inl e \<Rightarrow> Some (Inl e)
           | Inr s' \<Rightarrow> agent_loop cfg env fuel s')"

record ('i, 'e) agent_output =
  out_prompt_ids :: "nat list"
  out_response_ids :: "nat list"
  out_response_mask :: "nat list"
  out_images :: "'i list option"
  out_logprobs :: "real list option"
  num_turns :: nat
  out_preempted :: "int option"
  out_experts :: "'e list option"
  out_fields :: "py dict"
  out_tool_rewards :: "real list"

definition finalize_output :: "agent_config \<Rightarrow> ('m, 'i, 'e) agent_data \<Rightarrow> ('i, 'e) agent_output" where
  "finalize_output cfg d =
     (let n = length (response_mask d);
          response = last_n n (prompt_ids d);
          prompt = take (length (prompt_ids d) - n) (prompt_ids d) in
      \<lparr>out_prompt_ids = prompt,
       out_response_ids = take (response_length cfg) response,
       out_response_mask = take (response_length cfg) (response_mask d),
       out_images = image_data d,
       out_logprobs = (if response_logprobs d = [] then None else Some (take (response_length cfg) (response_logprobs d))),
       num_turns = user_turns d + assistant_turns d + 1,
       out_preempted = num_preempted d,
       out_experts = map_option (take (length prompt + response_length cfg)) (routed_experts d),
       out_fields = extra_fields d,
       out_tool_rewards = tool_rewards d\<rparr>)"

definition agent_run ::
  "agent_config \<Rightarrow> ('m, 'i, 'e, 'j) services \<Rightarrow> nat \<Rightarrow> 'm list \<Rightarrow> 'i list option \<Rightarrow> ('i, 'e) agent_output res option" where
  "agent_run cfg env fuel msgs images =
     map_option (\<lambda>r. bind_res r (\<lambda>d. Inr (finalize_output cfg d)))
       (agent_loop cfg env fuel (PENDING, init_agent_data msgs images))"

section \<open>Steps and executions\<close>

text \<open>
  A step of the loop, labelled with what it adds to the response: tokens of the model (\<open>True\<close>) or of
  the tool messages (\<open>False\<close>).
\<close>

inductive agent_step ::
  "agent_config \<Rightarrow> ('m, 'i, 'e, 'j) services \<Rightarrow> agent_state \<times> ('m, 'i, 'e) agent_data
     \<Rightarrow> (bool \<times> nat list) list \<Rightarrow> agent_state \<times> ('m, 'i, 'e) agent_data \<Rightarrow> bool"
  for cfg env where
  pending: "agent_step cfg env (PENDING, d) [] (handle_pending env d)"
| generating: "agent_step cfg env (GENERATING, d) [(True, token_ids (generate env d))] (handle_generating cfg env d)"
| tools_over: "handle_processing_tools cfg env d = Inr (TERMINATED, d') \<Longrightarrow>
    agent_step cfg env (PROCESSING_TOOLS, d) [] (TERMINATED, d')"
| tools_more: "handle_processing_tools cfg env d = Inr (GENERATING, d') \<Longrightarrow>
    agent_step cfg env (PROCESSING_TOOLS, d) [(False, drop (length (prompt_ids d)) (prompt_ids d'))] (GENERATING, d')"

inductive agent_exec ::
  "agent_config \<Rightarrow> ('m, 'i, 'e, 'j) services \<Rightarrow> agent_state \<times> ('m, 'i, 'e) agent_data
     \<Rightarrow> (bool \<times> nat list) list \<Rightarrow> agent_state \<times> ('m, 'i, 'e) agent_data \<Rightarrow> bool"
  for cfg env s0 where
  start: "agent_exec cfg env s0 [] s0"
| more: "agent_exec cfg env s0 segs s \<Longrightarrow> agent_step cfg env s l s' \<Longrightarrow> agent_exec cfg env s0 (segs @ l) s'"

inductive_cases from_pending: "agent_step cfg env (PENDING, d) l s'"
inductive_cases from_generating: "agent_step cfg env (GENERATING, d) l s'"
inductive_cases from_tools: "agent_step cfg env (PROCESSING_TOOLS, d) l s'"
inductive_cases from_terminated: "agent_step cfg env (TERMINATED, d) l s'"

text \<open>What the two handlers do to the response.\<close>

lemma handle_generating_result:
  assumes "handle_generating cfg env d = (st, d')"
  defines "out \<equiv> generate env d"
  shows "prompt_ids d' = prompt_ids d @ token_ids out"
    and "response_mask d' = response_mask d @ replicate (length (token_ids out)) 1"
    and "response_logprobs d' = (case log_probs out of None \<Rightarrow> response_logprobs d | Some ls \<Rightarrow> response_logprobs d @ ls)"
    and "user_turns d' = user_turns d" "assistant_turns d' = assistant_turns d + 1"
    and "st = TERMINATED \<or> st = PROCESSING_TOOLS \<and> extract_tool_calls env (token_ids out) \<noteq> []
      \<and> length (response_mask d') < response_length cfg"
  using assms(1) unfolding out_def
  by (auto simp: handle_generating_def add_generated_def Let_def split: if_splits)

lemma handle_processing_tools_result:
  assumes "handle_processing_tools cfg env d = Inr (st, d')"
  obtains "st = TERMINATED" "prompt_ids d' = prompt_ids d" "response_mask d' = response_mask d"
      "response_logprobs d' = response_logprobs d" "user_turns d' = user_turns d" "assistant_turns d' = assistant_turns d"
  | ids where "st = GENERATING" "prompt_ids d' = prompt_ids d @ ids"
      "response_mask d' = response_mask d @ replicate (length ids) 0"
      "response_logprobs d' = (if response_logprobs d = [] then [] else response_logprobs d @ replicate (length ids) 0)"
      "user_turns d' = user_turns d + 1" "assistant_turns d' = assistant_turns d"
      "length (response_mask d') < response_length cfg"
proof -
  obtain contents images rewards where
    "process_responses (image_processor cfg) (map fst (map (call_tool (toolbox env) (active_tools cfg)
        (max_tool_response_length cfg) (truncate_side cfg)) (take (max_parallel_calls cfg) (tool_calls d))))
      = Inr (contents, images, rewards)"
    using assms by (auto simp: handle_processing_tools_def Let_def bind_res_eq_Inr)
  note r = this
  define ids where "ids = tool_tokens cfg env contents (map call_name (take (max_parallel_calls cfg) (tool_calls d))) images"
  show thesis
  proof (cases "response_length cfg \<le> length (response_mask d) + length ids")
    case True
    show thesis by (rule that(1)) (use assms r True in \<open>auto simp: handle_processing_tools_def Let_def ids_def\<close>)
  next
    case False
    show thesis by (rule that(2)[of ids])
      (use assms r False in \<open>auto simp: handle_processing_tools_def Let_def ids_def[symmetric]\<close>)
  qed
qed

section \<open>The loop terminates\<close>

text \<open>From the generating state two rounds shorten what is left of the response.\<close>

lemma agent_loop_generating:
  assumes "extract_tool_calls env [] = []" "response_length cfg - length (response_mask d) \<le> n" "2 * n + 1 \<le> fuel"
  shows "agent_loop cfg env fuel (GENERATING, d) \<noteq> None"
  using assms(2,3)
proof (induction n arbitrary: d fuel)
  case (0 d fuel)
  obtain fuel' where fuel: "fuel = Suc fuel'" using 0 by (cases fuel) auto
  obtain st d' where h: "handle_generating cfg env d = (st, d')" by fastforce
  have "st = TERMINATED" using handle_generating_result(2,6)[OF h] 0(1) by auto
  then show ?case by (cases fuel') (simp_all add: fuel agent_next_def h)
next
  case (Suc n d fuel)
  define fuel' where "fuel' = fuel - 2"
  then have fuel: "fuel = Suc (Suc fuel')" "2 * n + 1 \<le> fuel'" using Suc.prems(2) by simp_all
  obtain st d1 where h: "handle_generating cfg env d = (st, d1)" by fastforce
  note g = handle_generating_result[OF h]
  show ?case
  proof (cases "st = TERMINATED")
    case True
    then show ?thesis by (simp add: fuel agent_next_def h)
  next
    case False
    then have st: "st = PROCESSING_TOOLS" "token_ids (generate env d) \<noteq> []" "length (response_mask d1) < response_length cfg"
      using g(6) assms(1) by metis+
    show ?thesis
    proof (cases "handle_processing_tools cfg env d1")
      case (Inl e)
      then show ?thesis by (simp add: fuel agent_next_def h st)
    next
      case (Inr r)
      obtain st2 d2 where r: "r = (st2, d2)" by fastforce
      have "agent_loop cfg env fuel' (st2, d2) \<noteq> None"
      proof (rule handle_processing_tools_result[OF Inr[unfolded r]])
        assume "st2 = TERMINATED"
        then show ?thesis by (cases fuel') simp_all
      next
        fix ids assume a: "st2 = GENERATING" "response_mask d2 = response_mask d1 @ replicate (length ids) 0"
        have "0 < length (token_ids (generate env d))" using st(2) by simp
        then have "response_length cfg - length (response_mask d2) \<le> n"
          using Suc.prems(1) unfolding a(2) g(2) length_append length_replicate by linarith
        then show ?thesis using Suc.IH[OF _ fuel(2)] a(1) by simp
      qed
      then show ?thesis using Inr by (simp add: fuel agent_next_def h st r)
    qed
  qed
qed

text \<open>
  C16. The loop terminates, whatever the model and the tools answer, also without limits on the turns:
  when the parser finds no tool call in an empty text, \<open>2 * response_length + 2\<close> rounds suffice, because
  every generation that is followed by tool calls adds a token to the response and the loop stops at
  the response length.
\<close>

theorem tool_agent_terminates:
  assumes "extract_tool_calls env [] = []" "2 * response_length cfg + 2 \<le> fuel"
  shows "\<exists>r. agent_run cfg env fuel msgs images = Some r"
proof -
  obtain f where f: "fuel = Suc f" "2 * response_length cfg + 1 \<le> f" using assms(2) by (cases fuel) auto
  have "agent_loop cfg env f (handle_pending env (init_agent_data msgs images)) \<noteq> None"
    unfolding handle_pending_def by (rule agent_loop_generating[OF assms(1) _ f(2)]) simp
  then show ?thesis by (auto simp: agent_run_def f(1) agent_next_def)
qed

section \<open>The response and its mask\<close>

definition mask_of :: "(bool \<times> nat list) list \<Rightarrow> nat list" where
  "mask_of segs = concat (map (\<lambda>(model, ts). replicate (length ts) (if model then 1 else 0)) segs)"

definition tokens_of :: "(bool \<times> nat list) list \<Rightarrow> nat list" where
  "tokens_of segs = concat (map snd segs)"

definition rounds :: "nat \<Rightarrow> bool list" where
  "rounds n = concat (replicate n [True, False])"

lemma mask_of_append [simp]: "mask_of (a @ b) = mask_of a @ mask_of b"
  by (simp add: mask_of_def)

lemma tokens_of_append [simp]: "tokens_of (a @ b) = tokens_of a @ tokens_of b"
  by (simp add: tokens_of_def)

lemma length_mask_of [simp]: "length (mask_of segs) = length (tokens_of segs)"
  by (induction segs) (auto simp: mask_of_def tokens_of_def)

lemma mask_of_Nil [simp]: "mask_of segs = [] \<longleftrightarrow> tokens_of segs = []"
  using length_mask_of[of segs] by (metis length_0_conv)

lemma segs_single [simp]:
  "mask_of [(m, ts)] = replicate (length ts) (if m then 1 else 0)" "tokens_of [(m, ts)] = ts"
  "mask_of [] = []" "tokens_of [] = []"
  by (simp_all add: mask_of_def tokens_of_def)

lemma rounds_Suc: "rounds n @ [True, False] = rounds (Suc n)"
proof -
  have "replicate n [True, False] @ [[True, False]] = replicate (Suc n) [True, False]"
    by (simp add: replicate_append_same)
  then show ?thesis by (metis concat.simps(1,2) concat_append append_Nil2 rounds_def)
qed

text \<open>
  The invariant: the prompt of the template followed by the segments, the mask of the segments, and
  model and tool segments in turn.
\<close>

definition agent_inv ::
  "('m, 'i, 'e, 'j) services \<Rightarrow> nat list \<Rightarrow> (bool \<times> nat list) list
     \<Rightarrow> agent_state \<times> ('m, 'i, 'e) agent_data \<Rightarrow> bool" where
  "agent_inv env base segs s =
     (case s of (st, d) \<Rightarrow>
        response_mask d = mask_of segs
        \<and> map fst segs = rounds (user_turns d) @ (if st = PENDING \<or> st = GENERATING then [] else [True])
        \<and> assistant_turns d = user_turns d + (if st = PENDING \<or> st = GENERATING then 0 else 1)
        \<and> (st \<noteq> PENDING \<longrightarrow> prompt_ids d = base @ tokens_of segs))"

lemma agent_step_inv:
  assumes "agent_step cfg env s l s'" "agent_inv env base segs s"
    and "fst s = PENDING \<Longrightarrow> segs = [] \<and> template_prompt env (snd s) = base"
  shows "agent_inv env base (segs @ l) s'"
  using assms(1)
proof cases
  case (pending d)
  then show ?thesis using assms(2,3) by (simp add: agent_inv_def handle_pending_def)
next
  case (generating d)
  obtain st d' where h: "handle_generating cfg env d = (st, d')" by fastforce
  note g = handle_generating_result[OF h]
  show ?thesis using assms(2) g generating(1,2) h by (auto simp: agent_inv_def generating(3))
next
  case (tools_over d d')
  show ?thesis
    by (rule handle_processing_tools_result[OF tools_over(4)])
       (use assms(2) tools_over(1,2,3) in \<open>auto simp: agent_inv_def\<close>)
next
  case (tools_more d d')
  show ?thesis
    by (rule handle_processing_tools_result[OF tools_more(4)])
       (use assms(2) tools_more(1,2,3) rounds_Suc in \<open>auto simp: agent_inv_def\<close>)
qed

lemma agent_exec_inv:
  assumes "agent_exec cfg env s0 segs s" "s0 = (PENDING, init_agent_data msgs images)"
    and "base = template_prompt env (init_agent_data msgs images)"
  shows "agent_inv env base segs s \<and> (fst s = PENDING \<longrightarrow> segs = [] \<and> snd s = init_agent_data msgs images)"
  using assms(1)
proof induction
  case start
  then show ?case using assms(2) by (simp add: agent_inv_def init_agent_data_def rounds_def)
next
  case (more segs s l s')
  have "agent_inv env base (segs @ l) s'"
    by (rule agent_step_inv[OF more.hyps(2)]) (use more.IH assms(3) in auto)
  moreover have "fst s' \<noteq> PENDING"
    using more.hyps(2)
  proof cases
    case (generating d)
    obtain st d' where "handle_generating cfg env d = (st, d')" by fastforce
    with handle_generating_result(6)[OF this] show ?thesis using generating by auto
  qed (auto simp: handle_pending_def)
  ultimately show ?case by simp
qed

text \<open>Every round of the loop is a step.\<close>

lemma agent_next_step:
  assumes "agent_next cfg env (st, d) = Inr s'" "st \<noteq> TERMINATED"
  shows "\<exists>l. agent_step cfg env (st, d) l s'"
proof (cases st)
  case PROCESSING_TOOLS
  obtain st' d' where s': "s' = (st', d')" by fastforce
  have h: "handle_processing_tools cfg env d = Inr (st', d')"
    using assms PROCESSING_TOOLS by (simp add: agent_next_def s')
  then show ?thesis unfolding s' PROCESSING_TOOLS
    by (rule handle_processing_tools_result) (use h in \<open>auto intro: agent_step.intros\<close>)
qed (use assms in \<open>auto simp: agent_next_def intro: agent_step.intros\<close>)

lemma agent_loop_exec:
  assumes "agent_loop cfg env fuel s = Some (Inr d)" "agent_exec cfg env s0 segs s"
  shows "\<exists>segs'. agent_exec cfg env s0 segs' (TERMINATED, d)"
  using assms
proof (induction fuel arbitrary: s segs)
  case 0
  then show ?case by (cases s) (auto split: if_splits)
next
  case (Suc fuel)
  obtain st d0 where s: "s = (st, d0)" by fastforce
  show ?case
  proof (cases "st = TERMINATED")
    case True
    then show ?thesis using Suc.prems s by auto
  next
    case False
    then obtain s' where s': "agent_next cfg env (st, d0) = Inr s'" "agent_loop cfg env fuel s' = Some (Inr d)"
      using Suc.prems(1) s by (auto split: sum.splits)
    then obtain l where "agent_step cfg env (st, d0) l s'" using agent_next_step False by blast
    then show ?thesis using Suc.IH[OF s'(2)] agent_exec.more Suc.prems(2) s by blast
  qed
qed

lemma agent_run_exec:
  assumes "agent_run cfg env fuel msgs images = Some (Inr out)"
  obtains segs d where "agent_exec cfg env (PENDING, init_agent_data msgs images) segs (TERMINATED, d)"
    and "out = finalize_output cfg d"
proof -
  obtain d where d: "agent_loop cfg env fuel (PENDING, init_agent_data msgs images) = Some (Inr d)"
      "out = finalize_output cfg d"
    using assms by (auto simp: agent_run_def bind_res_eq_Inr)
  from agent_loop_exec[OF d(1) agent_exec.start] that d(2) show thesis by blast
qed

text \<open>
  C17. A finished trajectory is the template's prompt and a response of model and tool segments in turn,
  beginning and ending with the model; the mask is 1 exactly on the tokens of the model, and unless the
  response is empty the response is the segments, both cut at the response length.  The turns are
  counted.
\<close>

theorem tool_agent_response:
  assumes "agent_run cfg env fuel msgs images = Some (Inr out)"
  shows "\<exists>segs d n. agent_exec cfg env (PENDING, init_agent_data msgs images) segs (TERMINATED, d)
    \<and> map fst segs = rounds n @ [True] \<and> num_turns out = 2 * n + 2
    \<and> out_prompt_ids out = template_prompt env (init_agent_data msgs images)
    \<and> out_response_mask out = take (response_length cfg) (mask_of segs)
    \<and> (tokens_of segs \<noteq> [] \<longrightarrow> out_response_ids out = take (response_length cfg) (tokens_of segs))"
proof -
  obtain segs d where e: "agent_exec cfg env (PENDING, init_agent_data msgs images) segs (TERMINATED, d)"
    and out: "out = finalize_output cfg d"
    by (rule agent_run_exec[OF assms])
  let ?base = "template_prompt env (init_agent_data msgs images)"
  have inv: "agent_inv env ?base segs (TERMINATED, d)" using agent_exec_inv[OF e refl refl] by blast
  then have "out_prompt_ids out = ?base" "num_turns out = 2 * user_turns d + 2"
    and "out_response_mask out = take (response_length cfg) (mask_of segs)"
    and "tokens_of segs \<noteq> [] \<longrightarrow> out_response_ids out = take (response_length cfg) (tokens_of segs)"
    by (auto simp: out finalize_output_def agent_inv_def Let_def last_n_append)
  then show ?thesis using e inv
    by (intro exI[of _ segs] exI[of _ d] exI[of _ "user_turns d"]) (simp add: agent_inv_def)
qed

text \<open>With log-probabilities for every generation the three lists of the response stay parallel.\<close>

lemma agent_exec_logprobs:
  assumes "agent_exec cfg env s0 segs s" "s0 = (PENDING, init_agent_data msgs images)"
    and "extract_tool_calls env [] = []"
    and "\<And>d. \<exists>ls. log_probs (generate env d) = Some ls \<and> length ls = length (token_ids (generate env d))"
  shows "length (response_logprobs (snd s)) = length (response_mask (snd s))
    \<and> (fst s = PROCESSING_TOOLS \<longrightarrow> response_mask (snd s) \<noteq> [])"
  using assms(1)
proof induction
  case start
  then show ?case using assms(2) by (simp add: init_agent_data_def)
next
  case (more segs s l s')
  show ?case using more.hyps(2)
  proof cases
    case (pending d)
    then show ?thesis using more.IH by (simp add: handle_pending_def)
  next
    case (generating d)
    obtain st d' where h: "handle_generating cfg env d = (st, d')" by fastforce
    obtain ls where "log_probs (generate env d) = Some ls" "length ls = length (token_ids (generate env d))"
      using assms(4) by blast
    with handle_generating_result[OF h] show ?thesis using more.IH generating h assms(3) by auto
  next
    case (tools_over d d')
    show ?thesis by (rule handle_processing_tools_result[OF tools_over(4)]) (use more.IH tools_over in auto)
  next
    case (tools_more d d')
    show ?thesis by (rule handle_processing_tools_result[OF tools_more(4)]) (use more.IH tools_more in auto)
  qed
qed

text \<open>
  C18. The response, its mask and its log-probabilities have one length, at most the response length:
  for a server that returns a log-probability for every token (and a parser that finds no call in an
  empty text), a non-empty response comes with as many mask entries and log-probabilities as tokens.
\<close>

theorem tool_agent_parallel:
  assumes "agent_run cfg env fuel msgs images = Some (Inr out)" "extract_tool_calls env [] = []"
    and "\<And>d. \<exists>ls. log_probs (generate env d) = Some ls \<and> length ls = length (token_ids (generate env d))"
  shows "length (out_response_mask out) \<le> response_length cfg
    \<and> (out_response_mask out \<noteq> [] \<longrightarrow> length (out_response_ids out) = length (out_response_mask out)
        \<and> (\<exists>ls. out_logprobs out = Some ls \<and> length ls = length (out_response_mask out)))"
proof -
  obtain segs d where e: "agent_exec cfg env (PENDING, init_agent_data msgs images) segs (TERMINATED, d)"
    and out: "out = finalize_output cfg d"
    by (rule agent_run_exec[OF assms(1)])
  have "agent_inv env (template_prompt env (init_agent_data msgs images)) segs (TERMINATED, d)"
    using agent_exec_inv[OF e refl refl] by blast
  then have "prompt_ids d = template_prompt env (init_agent_data msgs images) @ tokens_of segs"
      "response_mask d = mask_of segs" by (simp_all add: agent_inv_def)
  moreover have "length (response_logprobs d) = length (response_mask d)"
    using agent_exec_logprobs[OF e refl assms(2,3)] by simp
  moreover have "response_logprobs d \<noteq> []" if "tokens_of segs \<noteq> []"
    using calculation(2,3) that by (metis length_0_conv length_mask_of)
  ultimately show ?thesis
    by (cases "tokens_of segs = []") (auto simp: out finalize_output_def Let_def last_n_append)
qed

text \<open>
  A first generation without tokens ends the trajectory, and the response of the output is then the
  prompt (the slice of the last 0 tokens is all of them) beside an empty mask.
\<close>

theorem tool_agent_empty_response:
  assumes "extract_tool_calls env [] = []"
    and "token_ids (generate env (snd (handle_pending env (init_agent_data msgs images)))) = []"
    and "2 \<le> fuel"
  shows "\<exists>out. agent_run cfg env fuel msgs images = Some (Inr out) \<and> out_response_mask out = []
    \<and> out_response_ids out = take (response_length cfg) (template_prompt env (init_agent_data msgs images))"
proof -
  define f where "f = fuel - 2"
  then have f: "fuel = Suc (Suc f)" using assms(3) by simp
  let ?d = "snd (handle_pending env (init_agent_data msgs images))"
  obtain st d' where h: "handle_generating cfg env ?d = (st, d')" by fastforce
  note g = handle_generating_result[OF h]
  have "st = TERMINATED" using g(6) assms(1,2) by auto
  moreover have "agent_loop cfg env f (TERMINATED, d') = Some (Inr d')" by (cases f) simp_all
  ultimately have "agent_run cfg env fuel msgs images = Some (Inr (finalize_output cfg d'))"
    using h by (simp add: agent_run_def f agent_next_def handle_pending_def)
  moreover have "response_mask d' = []" "prompt_ids d' = template_prompt env (init_agent_data msgs images)"
    using g(1,2) assms(2) by (simp_all add: handle_pending_def init_agent_data_def)
  ultimately show ?thesis by (simp add: finalize_output_def last_n_def)
qed

section \<open>Tool instances and tool texts\<close>

definition lifecycle :: "string \<times> string \<Rightarrow> tool_event list" where
  "lifecycle = (\<lambda>(name, inst). [Created name inst, Executed name inst] @ (if inst = '''' then [] else [Released name inst]))"

lemma call_tool_events:
  "snd (call_tool tb active n side c) = [] \<or>
   (\<exists>inst. map_of active (call_name c) = Some Base_Tool \<and> snd (call_tool tb active n side c) = lifecycle (call_name c, inst))"
  by (auto simp: call_tool_def Let_def lifecycle_def split: option.splits sum.splits tool_kind.splits prod.splits)

lemma calls_events:
  "\<exists>xs. concat (map (\<lambda>c. snd (call_tool tb active n side c)) cs) = concat (map lifecycle xs)
     \<and> (\<forall>x \<in> set xs. map_of active (fst x) = Some Base_Tool)"
proof (induction cs)
  case (Cons c cs)
  then obtain xs where xs: "concat (map (\<lambda>c. snd (call_tool tb active n side c)) cs) = concat (map lifecycle xs)"
      "\<forall>x \<in> set xs. map_of active (fst x) = Some Base_Tool" by blast
  show ?case using call_tool_events[of tb active n side c]
  proof
    assume "snd (call_tool tb active n side c) = []"
    then show ?thesis using xs by (intro exI[of _ xs]) simp
  next
    assume "\<exists>inst. map_of active (call_name c) = Some Base_Tool \<and> snd (call_tool tb active n side c) = lifecycle (call_name c, inst)"
    then obtain inst where "map_of active (call_name c) = Some Base_Tool"
      "snd (call_tool tb active n side c) = lifecycle (call_name c, inst)" by blast
    then show ?thesis using xs by (intro exI[of _ "(call_name c, inst) # xs"]) simp
  qed
qed (auto intro: exI[of _ "[]"])

lemma handle_processing_tools_events:
  assumes "handle_processing_tools cfg env d = Inr (st, d')"
  shows "tool_events d' = tool_events d @ concat (map (\<lambda>c. snd (call_tool (toolbox env) (active_tools cfg)
    (max_tool_response_length cfg) (truncate_side cfg) c)) (take (max_parallel_calls cfg) (tool_calls d)))"
  using assms by (auto simp: handle_processing_tools_def Let_def bind_res_eq_Inr comp_def split: if_splits)


text \<open>
  A truncated tool text keeps at most the configured number of characters around its marker, for
  at least two characters; a text that fits is unchanged.  With less the slices of the last 0 characters
  keep everything: the "truncated" text is longer than the text.
\<close>

theorem truncate_text_bounds:
  "(length t \<le> n \<longrightarrow> truncate_text n side t = t)
   \<and> (2 \<le> n \<and> n < length t \<longrightarrow> (\<exists>a b c marker. truncate_text n side t = a @ marker @ b
        \<and> marker \<in> {''(truncated)...'', ''...(truncated)'', ''...(truncated)...''}
        \<and> t = a @ c @ b \<and> length a + length b \<le> n))
   \<and> (n < length t \<and> (side = ''left'' \<and> n = 0 \<or> side \<notin> {''left'', ''right''} \<and> n \<le> 1) \<longrightarrow>
        length t < length (truncate_text n side t))"
proof (intro conjI impI)
  assume n: "2 \<le> n \<and> n < length t"
  have tail: "take (length t - k) t @ last_n k t = t" "length (last_n k t) = k" if "0 < k" "k < length t" for k
    using that by (simp_all add: last_n_def py_tail_def)
  consider "side = ''left''" | "side = ''right''" | "side \<notin> {''left'', ''right''}" by blast
  then show "\<exists>a b c marker. truncate_text n side t = a @ marker @ b
        \<and> marker \<in> {''(truncated)...'', ''...(truncated)'', ''...(truncated)...''}
        \<and> t = a @ c @ b \<and> length a + length b \<le> n"
  proof cases
    case 1
    then show ?thesis using n tail[of n]
      by (intro exI[of _ "[]"] exI[of _ "last_n n t"] exI[of _ "take (length t - n) t"] exI[of _ "''(truncated)...''"])
         (simp add: truncate_text_def)
  next
    case 2
    then show ?thesis using n
      by (intro exI[of _ "take n t"] exI[of _ "[]"] exI[of _ "drop n t"] exI[of _ "''...(truncated)''"])
         (simp add: truncate_text_def)
  next
    case 3
    define k where "k = n div 2"
    have k: "0 < k" "k < length t" "k + k \<le> n" using n by (auto simp: k_def)
    have "t = take k t @ drop k (take (length t - k) t) @ last_n k t"
    proof -
      have "k \<le> length t - k" using n k(3) by linarith
      then have "take k (take (length t - k) t) = take k t" by (simp add: min_def)
      then have "take k t @ drop k (take (length t - k) t) = take (length t - k) t" by (metis append_take_drop_id)
      then show ?thesis using tail(1)[OF k(1,2)] by (metis append.assoc)
    qed
    then show ?thesis using n 3 k tail(2)[OF k(1,2)]
      by (intro exI[of _ "take k t"] exI[of _ "last_n k t"] exI[of _ "drop k (take (length t - k) t)"] exI[of _ "''...(truncated)...''"])
         (simp add: truncate_text_def k_def[symmetric] Let_def)
  qed
qed (auto simp: truncate_text_def Let_def last_n_def)

section \<open>A trajectory\<close>

text \<open>
  A toy model to try the theorems on: it asks for a tool in its first turn (token 7) and answers with
  token 9 in the second; the tool answers with one token.
\<close>

definition example_env :: "(unit, unit, unit, unit) services" where
  "example_env =
     \<lparr>template_prompt = (\<lambda>_. [1, 2, 3]), template_tools = (\<lambda>_ _. [5]), encode_text = (\<lambda>_. []),
      generate = (\<lambda>d. \<lparr>token_ids = (if assistant_turns d = 0 then [6, 7] else [9]),
                       log_probs = Some (if assistant_turns d = 0 then [-1, -2] else [-3]),
                       out_routed_experts = None, out_num_preempted = None, out_extra_fields = []\<rparr>),
      extract_tool_calls = (\<lambda>ids. if 7 \<in> set ids then [\<lparr>call_name = ''search'', call_arguments = ''{}''\<rparr>] else []),
      show_parts = (\<lambda>_. []),
      toolbox = \<lparr>json_loads = (\<lambda>_. Inr ()), create_instance = (\<lambda>_. Inr ''i1''), call_function = (\<lambda>_ _. Inl ''none''),
                 execute_instance = (\<lambda>_ _ _. Inr (text_response ''hit'', Some 1))\<rparr>\<rparr>"

definition example_agent :: agent_config where
  "example_agent =
     \<lparr>max_user_turns = None, max_assistant_turns = None, max_parallel_calls = 1, max_tool_response_length = 256,
      truncate_side = ''middle'', response_length = 5, parser_name = ''hermes'', image_processor = False,
      active_tools = [(''search'', Base_Tool)]\<rparr>"

lemma example_agent_run:
  "\<exists>out. agent_run example_agent example_env 12 [()] None = Some (Inr out)
     \<and> out_response_ids out = [6, 7, 5, 9] \<and> out_response_mask out = [1, 1, 0, 1]
     \<and> out_logprobs out = Some [-1, -2, 0, -3] \<and> num_turns out = 4"
  by (simp add: agent_run_def eval_nat_numeral agent_next_def handle_pending_def handle_generating_def add_generated_def
      handle_processing_tools_def call_tool_def finish_response_def truncate_text_def text_response_def has_items_def
      response_content_def some_text_def tool_tokens_def reached_def Let_def init_agent_data_def finalize_output_def
      last_n_def py_tail_def example_env_def example_agent_def)

lemma example_env_silent: "extract_tool_calls example_env [] = []"
  by (simp add: example_env_def)

theorem tool_agent_terminates_witness: "\<exists>r. agent_run example_agent example_env 12 [()] None = Some r"
  by (rule tool_agent_terminates[OF example_env_silent]) (simp add: example_agent_def)

theorem tool_agent_response_witness:
  "\<exists>out segs d n. agent_run example_agent example_env 12 [()] None = Some (Inr out)
     \<and> agent_exec example_agent example_env (PENDING, init_agent_data [()] None) segs (TERMINATED, d)
     \<and> map fst segs = rounds n @ [True] \<and> num_turns out = 2 * n + 2 \<and> out_response_mask out = take 5 (mask_of segs)"
proof -
  obtain out where run: "agent_run example_agent example_env 12 [()] None = Some (Inr out)"
    using example_agent_run by blast
  from tool_agent_response[OF run] run show ?thesis by (auto simp: example_agent_def)
qed

theorem tool_agent_parallel_witness:
  "\<exists>out ls. agent_run example_agent example_env 12 [()] None = Some (Inr out)
     \<and> out_logprobs out = Some ls \<and> length ls = length (out_response_mask out)"
proof -
  obtain out where run: "agent_run example_agent example_env 12 [()] None = Some (Inr out)"
      "out_response_mask out = [1, 1, 0, 1]"
    using example_agent_run by blast
  have "\<exists>ls. log_probs (generate example_env d) = Some ls \<and> length ls = length (token_ids (generate example_env d))" for d
    by (simp add: example_env_def)
  from tool_agent_parallel[OF run(1) example_env_silent this] run show ?thesis by auto
qed

theorem tool_agent_empty_response_witness:
  "\<exists>out. agent_run example_agent
      (example_env\<lparr>generate := \<lambda>_. \<lparr>token_ids = [], log_probs = None, out_routed_experts = None,
         out_num_preempted = None, out_extra_fields = []\<rparr>\<rparr>) 2 [()] None = Some (Inr out)
     \<and> out_response_mask out = [] \<and> out_response_ids out = [1, 2, 3]"
proof -
  let ?env = "example_env\<lparr>generate := \<lambda>_. \<lparr>token_ids = [], log_probs = None, out_routed_experts = None,
         out_num_preempted = None, out_extra_fields = []\<rparr>\<rparr>"
  have "extract_tool_calls ?env [] = []" by (simp add: example_env_def)
  from tool_agent_empty_response[OF this, of "[()]" None 2 example_agent]
  show ?thesis by (simp add: example_env_def example_agent_def)
qed


theorem truncate_text_bounds_witness:
  "\<exists>a b c marker. truncate_text 4 ''middle'' ''abcdefgh'' = a @ marker @ b \<and> ''abcdefgh'' = a @ c @ b \<and> length a + length b \<le> 4"
  using truncate_text_bounds[of "''abcdefgh''" 4 "''middle''"] by auto

end
