(* ===== verification/Message_Queue.thy ===== *)
theory Message_Queue
  imports Prelude "HOL-Library.Sublist"
begin

text \<open>
  The bounded sample queue between the rollouter and the trainer
  (\<open>verl/verl/experimental/fully_async_policy/message_queue.py\<close>).  Every method runs under one lock,
  so a history of the queue is a sequence of method calls.  A full queue drops its oldest sample.
\<close>

section \<open>The queue and its methods\<close>

record 'a message_queue =
  max_queue_size :: nat
  queue :: "'a list"
  val_queue :: "'a list"
  mq_running :: bool
  total_produced :: nat
  total_consumed :: nat
  dropped_samples :: nat

definition mq_init :: "nat \<Rightarrow> 'a message_queue" where
  "mq_init cap = \<lparr>max_queue_size = cap, queue = [], val_queue = [], mq_running = True,
     total_produced = 0, total_consumed = 0, dropped_samples = 0\<rparr>"

text \<open>\<open>deque.append\<close> of a queue with a maximal length, and \<open>popleft\<close>.\<close>

definition deque_append :: "nat \<Rightarrow> 'a list \<Rightarrow> 'a \<Rightarrow> 'a list" where
  "deque_append maxlen xs x = py_tail maxlen (xs @ [x])"

definition popleft :: "'a list \<Rightarrow> ('a \<times> 'a list) res" where
  "popleft xs = (case xs of [] \<Rightarrow> Inl IndexError | x # ys \<Rightarrow> Inr (x, ys))"

definition put_sample :: "'a \<Rightarrow> 'a message_queue \<Rightarrow> (bool \<times> 'a message_queue) res" where
  "put_sample x q =
     bind_res
       (if max_queue_size q \<le> length (queue q)
        then bind_res (popleft (queue q)) (\<lambda>(_, rest).
               Inr (True, q\<lparr>queue := rest, dropped_samples := dropped_samples q + 1\<rparr>))
        else Inr (False, q))
       (\<lambda>(is_drop, q').
     Inr (\<not> is_drop, q'\<lparr>queue := deque_append (max_queue_size q') (queue q') x, total_produced := total_produced q' + 1\<rparr>))"

text \<open>
  A caller of \<open>get_sample\<close> waits while the queue is empty and open, gets nothing once it is closed and
  empty, and otherwise the oldest sample with the number of samples left.
\<close>

datatype 'a answer = Wait | Closed | Sample 'a nat

definition get_sample :: "'a message_queue \<Rightarrow> 'a answer \<times> 'a message_queue" where
  "get_sample q =
     (case queue q of
        [] \<Rightarrow> (if mq_running q then Wait else Closed, q)
      | x # rest \<Rightarrow> (Sample x (length rest), q\<lparr>queue := rest, total_consumed := total_consumed q + 1\<rparr>))"

definition get_queue_size :: "'a message_queue \<Rightarrow> nat" where
  "get_queue_size q = length (queue q)"

definition clear_queue :: "'a message_queue \<Rightarrow> 'a message_queue" where
  "clear_queue q = q\<lparr>queue := []\<rparr>"

definition mq_shutdown :: "'a message_queue \<Rightarrow> 'a message_queue" where
  "mq_shutdown q = q\<lparr>mq_running := False\<rparr>"

definition put_validate :: "'a \<Rightarrow> 'a message_queue \<Rightarrow> 'a message_queue" where
  "put_validate x q = q\<lparr>val_queue := val_queue q @ [x]\<rparr>"

definition get_validate :: "'a message_queue \<Rightarrow> 'a option \<times> 'a message_queue" where
  "get_validate q = (case val_queue q of [] \<Rightarrow> (None, q) | x # rest \<Rightarrow> (Some x, q\<lparr>val_queue := rest\<rparr>))"

section \<open>What a client of the queue relies on\<close>

text \<open>
  A bounded queue that never refuses: below its capacity it appends, at its capacity it replaces the
  oldest item and says so.
\<close>

locale bounded_queue =
  fixes put :: "'a \<Rightarrow> 'q \<Rightarrow> bool \<times> 'q" and items :: "'q \<Rightarrow> 'a list" and cap :: nat and ok :: "'q \<Rightarrow> bool"
  assumes cap_pos: "0 < cap"
    and ok_put: "ok q \<Longrightarrow> ok (snd (put x q))"
    and ok_bound: "ok q \<Longrightarrow> length (items q) \<le> cap"
    and put_room: "ok q \<Longrightarrow> length (items q) < cap \<Longrightarrow> items (snd (put x q)) = items q @ [x] \<and> fst (put x q)"
    and put_full: "ok q \<Longrightarrow> length (items q) = cap \<Longrightarrow> items (snd (put x q)) = tl (items q) @ [x] \<and> \<not> fst (put x q)"
begin

fun put_all :: "'a list \<Rightarrow> 'q \<Rightarrow> bool list \<times> 'q" where
  "put_all [] q = ([], q)"
| "put_all (x # xs) q = (let (b, q') = put x q; (bs, q'') = put_all xs q' in (b # bs, q''))"

lemma put_keeps_newest:
  assumes "ok q"
  shows "items (snd (put x q)) = py_tail cap (items q @ [x])"
proof (cases "length (items q) = cap")
  case True
  then have "py_tail cap (items q @ [x]) = tl (items q) @ [x]"
    using cap_pos by (cases "items q") (auto simp: py_tail_def)
  then show ?thesis using put_full[OF assms True] by simp
next
  case False
  then have "length (items q) < cap" using ok_bound[OF assms] by simp
  then show ?thesis using put_room[OF assms] by (simp add: py_tail_def)
qed

lemma ok_put_all: "ok q \<Longrightarrow> ok (snd (put_all xs q))"
  by (induction xs arbitrary: q) (auto simp: Let_def ok_put case_prod_unfold)

lemma put_all_keeps_newest:
  "ok q \<Longrightarrow> items (snd (put_all xs q)) = py_tail cap (items q @ xs)"
proof (induction xs arbitrary: q)
  case Nil
  then show ?case using ok_bound by (simp add: py_tail_all)
next
  case (Cons x xs)
  have "items (snd (put_all (x # xs) q)) = py_tail cap (py_tail cap (items q @ [x]) @ xs)"
    using Cons.IH[OF ok_put[OF Cons.prems]] put_keeps_newest[OF Cons.prems] by (simp add: Let_def case_prod_unfold)
  also have "\<dots> = py_tail cap (items q @ x # xs)" by (simp add: py_tail_append)
  finally show ?case .
qed

lemma put_all_no_loss: "ok q \<Longrightarrow> length (items q) + length xs \<le> cap \<Longrightarrow> list_all (\<lambda>b. b) (fst (put_all xs q))"
proof (induction xs arbitrary: q)
  case (Cons x xs)
  have r: "items (snd (put x q)) = items q @ [x] \<and> fst (put x q)" using put_room[OF Cons.prems(1)] Cons.prems(2) by simp
  then show ?case using Cons.IH[OF ok_put[OF Cons.prems(1)]] Cons.prems(2)
    by (simp add: Let_def case_prod_unfold)
qed simp

end

section \<open>The message queue is a bounded queue\<close>

definition mq_ok :: "nat \<Rightarrow> 'a message_queue \<Rightarrow> bool" where
  "mq_ok cap q \<longleftrightarrow> max_queue_size q = cap \<and> length (queue q) \<le> cap"

definition mq_put :: "'a \<Rightarrow> 'a message_queue \<Rightarrow> bool \<times> 'a message_queue" where
  "mq_put x q = (case put_sample x q of Inl _ \<Rightarrow> (False, q) | Inr r \<Rightarrow> r)"

lemma put_sample_room:
  assumes "mq_ok cap q" "length (queue q) < cap"
  shows "put_sample x q = Inr (True, q\<lparr>queue := queue q @ [x], total_produced := total_produced q + 1\<rparr>)"
  using assms by (simp add: put_sample_def mq_ok_def deque_append_def py_tail_def)

lemma put_sample_full:
  assumes "mq_ok cap q" "length (queue q) = cap" "0 < cap"
  shows "put_sample x q = Inr (False, q\<lparr>queue := tl (queue q) @ [x], dropped_samples := dropped_samples q + 1,
    total_produced := total_produced q + 1\<rparr>)"
  using assms by (cases "queue q") (auto simp: put_sample_def mq_ok_def popleft_def deque_append_def py_tail_def)

lemma mq_put_cases:
  assumes "mq_ok cap q" "0 < cap"
  shows "length (queue q) < cap \<Longrightarrow> mq_put x q = (True, q\<lparr>queue := queue q @ [x], total_produced := total_produced q + 1\<rparr>)"
    and "length (queue q) = cap \<Longrightarrow> mq_put x q = (False, q\<lparr>queue := tl (queue q) @ [x],
      dropped_samples := dropped_samples q + 1, total_produced := total_produced q + 1\<rparr>)"
  by (simp_all add: mq_put_def put_sample_room[OF assms(1)] put_sample_full[OF assms(1) _ assms(2)])

lemma mq_ok_put:
  assumes "mq_ok cap q" "0 < cap"
  shows "mq_ok cap (snd (mq_put x q))"
proof (cases "length (queue q) = cap")
  case True
  then show ?thesis using mq_put_cases(2)[OF assms True, of x] assms by (simp add: mq_ok_def)
next
  case False
  then have "length (queue q) < cap" using assms(1) by (simp add: mq_ok_def)
  then show ?thesis using mq_put_cases(1)[OF assms, of x] assms by (simp add: mq_ok_def)
qed

lemma put_sample_mq_put: "mq_ok cap q \<Longrightarrow> 0 < cap \<Longrightarrow> put_sample x q = Inr (mq_put x q)"
  using put_sample_room[of cap q] put_sample_full[of cap q]
  by (cases "length (queue q) = cap") (auto simp: mq_put_def mq_ok_def)

interpretation mq: bounded_queue mq_put queue "Suc n" "mq_ok (Suc n)" for n
proof
  fix q :: "'a message_queue" and x :: 'a
  assume q: "mq_ok (Suc n) q"
  show "mq_ok (Suc n) (snd (mq_put x q))" by (rule mq_ok_put[OF q]) simp
  show "length (queue q) \<le> Suc n" using q by (simp add: mq_ok_def)
  show "queue (snd (mq_put x q)) = queue q @ [x] \<and> fst (mq_put x q)" if "length (queue q) < Suc n"
    using mq_put_cases(1)[OF q _ that] by simp
  show "queue (snd (mq_put x q)) = tl (queue q) @ [x] \<and> \<not> fst (mq_put x q)" if "length (queue q) = Suc n"
    using mq_put_cases(2)[OF q _ that] by simp
qed simp

section \<open>Histories\<close>

datatype 'a mq_op = Put 'a | Get | Clear | Shutdown

text \<open>A history of method calls: what was delivered, or the error of the first call that raises.\<close>

fun mq_run :: "'a mq_op list \<Rightarrow> 'a message_queue \<Rightarrow> ('a list \<times> 'a message_queue) res" where
  "mq_run [] q = Inr ([], q)"
| "mq_run (Put x # ops) q = bind_res (put_sample x q) (\<lambda>(_, q'). mq_run ops q')"
| "mq_run (Get # ops) q =
     (case get_sample q of
        (Sample x _, q') \<Rightarrow> bind_res (mq_run ops q') (\<lambda>(xs, q''). Inr (x # xs, q''))
      | (_, q') \<Rightarrow> mq_run ops q')"
| "mq_run (Clear # ops) q = mq_run ops (clear_queue q)"
| "mq_run (Shutdown # ops) q = mq_run ops (mq_shutdown q)"

fun puts :: "'a mq_op list \<Rightarrow> 'a list" where
  "puts [] = []"
| "puts (Put x # ops) = x # puts ops"
| "puts (_ # ops) = puts ops"

lemma get_sample_cases:
  obtains "queue q = []" "snd (get_sample q) = q" "fst (get_sample q) = (if mq_running q then Wait else Closed)"
  | x rest where "queue q = x # rest"
      "get_sample q = (Sample x (length rest), q\<lparr>queue := rest, total_consumed := total_consumed q + 1\<rparr>)"
  by (cases "queue q") (auto simp: get_sample_def)

text \<open>Every history of an open queue of positive size runs, stays within the size and delivers in order.\<close>

lemma mq_run_fifo:
  assumes "mq_ok cap q" "0 < cap"
  shows "\<exists>xs q'. mq_run ops q = Inr (xs, q') \<and> mq_ok cap q' \<and> subseq (xs @ queue q') (queue q @ puts ops)"
  using assms(1)
proof (induction ops arbitrary: q)
  case (Cons op ops)
  show ?case
  proof (cases op)
    case (Put x)
    note step = put_sample_mq_put[OF Cons.prems assms(2), of x]
    obtain b q1 where q1: "mq_put x q = (b, q1)" by fastforce
    have ok: "mq_ok cap q1" using mq_ok_put[OF Cons.prems assms(2), of x] q1 by simp
    obtain xs q' where r: "mq_run ops q1 = Inr (xs, q')" "mq_ok cap q'" "subseq (xs @ queue q') (queue q1 @ puts ops)"
      using Cons.IH[OF ok] by blast
    have "subseq (queue q1 @ puts ops) (queue q @ x # puts ops)"
    proof (cases "length (queue q) = cap")
      case True
      have "queue q1 = tl (queue q) @ [x]" using mq_put_cases(2)[OF Cons.prems assms(2) True, of x] q1 by auto
      then show ?thesis using True assms(2) by (cases "queue q") auto
    next
      case False
      then have "length (queue q) < cap" using Cons.prems by (simp add: mq_ok_def)
      then have "queue q1 = queue q @ [x]" using mq_put_cases(1)[OF Cons.prems assms(2), of x] q1 by auto
      then show ?thesis by simp
    qed
    then show ?thesis using r subseq_order.order_trans[OF r(3)] by (simp add: Put step q1)
  next
    case Get
    show ?thesis
    proof (rule get_sample_cases[of q])
      assume a: "queue q = []" "snd (get_sample q) = q" "fst (get_sample q) = (if mq_running q then Wait else Closed)"
      then have g: "get_sample q = (if mq_running q then Wait else Closed, q)" by (metis prod.collapse)
      then show ?thesis using Cons.IH[OF Cons.prems] by (simp add: Get)
    next
      fix x rest
      let ?q = "q\<lparr>queue := rest, total_consumed := total_consumed q + 1\<rparr>"
      assume a: "queue q = x # rest" "get_sample q = (Sample x (length rest), ?q)"
      have "mq_ok cap ?q" using Cons.prems a(1) by (simp add: mq_ok_def)
      then obtain xs q' where "mq_run ops ?q = Inr (xs, q')" "mq_ok cap q'" "subseq (xs @ queue q') (rest @ puts ops)"
        using Cons.IH[of ?q] by auto
      then show ?thesis by (simp add: Get a)
    qed
  next
    case Clear
    have "mq_ok cap (clear_queue q)" using Cons.prems by (simp add: mq_ok_def clear_queue_def)
    then obtain xs q' where r: "mq_run ops (clear_queue q) = Inr (xs, q')" "mq_ok cap q'" "subseq (xs @ queue q') (puts ops)"
      using Cons.IH[of "clear_queue q"] by (auto simp: clear_queue_def)
    have "subseq (xs @ queue q') (queue q @ puts ops)" by (rule list_emb_append2[OF r(3)])
    then show ?thesis using r by (simp add: Clear)
  next
    case Shutdown
    have "mq_ok cap (mq_shutdown q)" "queue (mq_shutdown q) = queue q"
      using Cons.prems by (simp_all add: mq_ok_def mq_shutdown_def)
    then show ?thesis using Cons.IH[of "mq_shutdown q"] by (simp add: Shutdown)
  qed
qed simp

lemma mq_run_counts:
  assumes "mq_ok cap q" "0 < cap" "mq_run ops q = Inr (xs, q')"
  shows "total_produced q' = total_produced q + length (puts ops)" (is ?produced)
    and "total_consumed q' = total_consumed q + length xs" (is ?consumed)
    and "Clear \<notin> set ops \<Longrightarrow> dropped_samples q' + length (queue q') + length xs
      = dropped_samples q + length (queue q) + length (puts ops)" (is "_ \<Longrightarrow> ?balance")
proof -
  have "?produced \<and> ?consumed \<and> (Clear \<notin> set ops \<longrightarrow> ?balance)"
    using assms(1,3)
  proof (induction ops arbitrary: q xs)
    case (Cons op ops)
    show ?case
    proof (cases op)
      case (Put x)
      obtain b q1 where q1: "mq_put x q = (b, q1)" by fastforce
      have ok: "mq_ok cap q1" using mq_ok_put[OF Cons.prems(1) assms(2), of x] q1 by simp
      have run: "mq_run ops q1 = Inr (xs, q')"
        using Cons.prems(2) by (simp add: Put put_sample_mq_put[OF Cons.prems(1) assms(2)] q1)
      have "total_produced q1 = total_produced q + 1" "total_consumed q1 = total_consumed q"
        "dropped_samples q1 + length (queue q1) = dropped_samples q + length (queue q) + 1"
        using mq_put_cases[OF Cons.prems(1) assms(2), of x] q1 Cons.prems(1) assms(2)
        by (cases "length (queue q) = cap"; auto simp: mq_ok_def)+
      then show ?thesis using Cons.IH[OF ok run] by (simp add: Put)
    next
      case Get
      show ?thesis
      proof (rule get_sample_cases[of q])
        assume a: "snd (get_sample q) = q" "fst (get_sample q) = (if mq_running q then Wait else Closed)"
        then have "get_sample q = (if mq_running q then Wait else Closed, q)" by (metis prod.collapse)
        then have "mq_run ops q = Inr (xs, q')" using Cons.prems(2) by (simp add: Get split: if_splits)
        then show ?thesis using Cons.IH[OF Cons.prems(1)] by (simp add: Get)
      next
        fix x rest
        let ?q = "q\<lparr>queue := rest, total_consumed := total_consumed q + 1\<rparr>"
        assume a: "queue q = x # rest" "get_sample q = (Sample x (length rest), ?q)"
        have ok: "mq_ok cap ?q" using Cons.prems(1) a(1) by (simp add: mq_ok_def)
        obtain ys where ys: "xs = x # ys" "mq_run ops ?q = Inr (ys, q')"
          using Cons.prems(2) by (auto simp: Get a(2) bind_res_eq_Inr)
        then show ?thesis using Cons.IH[OF ok ys(2)] a(1) by (simp add: Get)
      qed
    next
      case Clear
      then show ?thesis using Cons.IH[of "clear_queue q"] Cons.prems by (simp add: mq_ok_def clear_queue_def)
    next
      case Shutdown
      then show ?thesis using Cons.IH[of "mq_shutdown q"] Cons.prems by (simp add: mq_ok_def mq_shutdown_def)
    qed
  qed simp
  then show ?produced ?consumed "Clear \<notin> set ops \<Longrightarrow> ?balance" by simp_all
qed

text \<open>
  C20. Every history of a queue of positive size runs without error; the queue stays within its size,
  what was delivered and what is still queued is a subsequence of what was put, and the counters count.
  Without clearing, every sample put was delivered, dropped or is queued, and without a drop the
  deliveries and the queue are exactly the samples put, in order.
\<close>

theorem mq_history:
  assumes "0 < cap"
  shows "\<exists>xs q. mq_run ops (mq_init cap) = Inr (xs, q) \<and> length (queue q) \<le> cap
    \<and> subseq (xs @ queue q) (puts ops) \<and> total_produced q = length (puts ops) \<and> total_consumed q = length xs
    \<and> (Clear \<notin> set ops \<longrightarrow> total_produced q = total_consumed q + dropped_samples q + length (queue q)
        \<and> (dropped_samples q = 0 \<longrightarrow> xs @ queue q = puts ops))"
proof -
  have ok: "mq_ok cap (mq_init cap)" by (simp add: mq_ok_def mq_init_def)
  obtain xs q where r: "mq_run ops (mq_init cap) = Inr (xs, q)" "mq_ok cap q" "subseq (xs @ queue q) (puts ops)"
    using mq_run_fifo[OF ok assms, of ops] by (auto simp: mq_init_def)
  note counts = mq_run_counts[OF ok assms r(1)]
  have "xs @ queue q = puts ops" if "Clear \<notin> set ops" "dropped_samples q = 0"
    by (rule subseq_same_length[OF r(3)]) (use counts(3) that in \<open>simp add: mq_init_def\<close>)
  then show ?thesis using r counts by (auto simp: mq_ok_def mq_init_def)
qed

theorem mq_history_witness:
  "\<exists>xs q. mq_run [Put 1, Put 2, Put 3, Get] (mq_init 2) = Inr (xs, q) \<and> subseq (xs @ queue q) [1, 2, 3 :: nat]
     \<and> total_produced q = 3"
  using mq_history[of 2 "[Put 1, Put 2, Put 3, Get] :: nat mq_op list"] by auto

text \<open>
  A burst of samples leaves the newest ones that fit.
\<close>

theorem mq_burst_keeps_newest:
  assumes "mq_ok (Suc n) q"
  shows "\<exists>q'. mq_run (map Put xs) q = Inr ([], q') \<and> queue q' = py_tail (Suc n) (queue q @ xs)"
proof -
  have "mq_run (map Put xs) q = Inr ([], snd (mq.put_all xs q))"
    using assms
  proof (induction xs arbitrary: q)
    case (Cons x xs)
    then show ?case using put_sample_mq_put[OF Cons.prems, of x] mq.ok_put[OF Cons.prems, of x]
      by (simp add: Let_def case_prod_unfold)
  qed simp
  then show ?thesis using mq.put_all_keeps_newest[OF assms] by simp
qed

theorem mq_burst_keeps_newest_witness:
  "\<exists>q'. mq_run (map Put [1, 2, 3]) (mq_init 2) = Inr ([], q') \<and> queue q' = [2, 3 :: nat]"
  using mq_burst_keeps_newest[of 1 "mq_init 2" "[1, 2, 3 :: nat]"]
  by (simp add: mq_ok_def mq_init_def py_tail_def numeral_2_eq_2)

text \<open>A queue of size 0 cannot take a sample: it is full and there is nothing to drop.\<close>

lemma put_sample_no_room: "put_sample x (mq_init 0) = Inl IndexError"
  by (simp add: put_sample_def mq_init_def popleft_def)

end
