(* ===== verification/Async_Rollout.thy ===== *)
theory Async_Rollout
  imports Message_Queue
begin

text \<open>
  The fully asynchronous rollouter
  (\<open>verl/verl/experimental/fully_async_policy/fully_async_rollouter.py\<close>): a feeder, a processor that
  submits samples and pauses when they would become too stale, the generation tasks, a monitor and the
  trainer that consumes the message queue and resets the staleness after a parameter update.  They
  are coroutines; a step of the model is what one of them does between two suspension points.
  Generation itself, timing and the replicas are not modelled, and neither is the lock while the
  processor waits for a free slot, so that the model has every interleaving of the code and more.
\<close>

section \<open>Limits\<close>

record limits =
  max_required_samples :: nat
  max_concurrent_samples :: nat
  queue_limit :: nat
  total_train_steps :: nat

definition set_max_required_samples :: "nat \<Rightarrow> real \<Rightarrow> nat \<Rightarrow> nat \<Rightarrow> nat \<Rightarrow> limits" where
  "set_max_required_samples required_samples staleness_threshold trigger_steps total_rollout_steps replicas =
     (let m = nat \<lfloor>real required_samples * (staleness_threshold + 1) * real trigger_steps\<rfloor> in
      \<lparr>max_required_samples = m, max_concurrent_samples = min (replicas * 16) m, queue_limit = m,
       total_train_steps = total_rollout_steps div (required_samples * trigger_steps)\<rparr>)"

text \<open>The samples \<open>_feed_samples\<close> puts, from the step counter it starts with.\<close>

fun feed_plan :: "nat \<Rightarrow> nat \<Rightarrow> 'a list \<Rightarrow> 'a list" where
  "feed_plan global_steps max_step [] = []"
| "feed_plan global_steps max_step (x # xs) = x # (if max_step \<le> global_steps then [] else feed_plan (global_steps + 1) max_step xs)"

lemma feed_plan_take: "feed_plan g max_step xs = take (max 1 (max_step + 1 - g)) xs"
proof (induction xs arbitrary: g)
  case (Cons x xs)
  show ?case
  proof (cases "max_step \<le> g")
    case True
    then have "max 1 (Suc max_step - g) = 1" by auto
    then show ?thesis using True by simp
  next
    case False
    then obtain k where k: "max_step - g = Suc k" "max 1 (max_step - g) = Suc k" by (cases "max_step - g") auto
    then have "max 1 (Suc max_step - g) = Suc (Suc k)" by auto
    then show ?thesis using Cons[of "g + 1"] False k by simp
  qed
qed simp

section \<open>The coroutines\<close>

text \<open>
  Where the processor is: before the pause check, with the queue size it was told, about to pause,
  paused, waiting for a sample, with a sample it has counted but not submitted, waiting for the last
  tasks, done, and after the end signal is in the message queue.
\<close>

datatype 'a processor =
    Checking | Asked nat | Pausing | Draining | Waiting | Holding 'a | Finishing | Finished | Stopped

record 'a rollouter =
  feed_rest :: "'a list"
  feed_ended :: bool
  pending :: "'a option list"
  proc :: "'a processor"
  running_tasks :: "'a multiset"
  returned_tasks :: nat
  mqueue :: "'a option message_queue"
  staleness_samples :: nat
  paused :: bool
  resetting :: "nat option"
  monitor_ok :: bool
  total_generated_samples :: nat
  dropped_stale_samples :: nat
  consumed :: "'a option list"

definition rollouter_init :: "limits \<Rightarrow> 'a list \<Rightarrow> 'a rollouter" where
  "rollouter_init cfg xs =
     \<lparr>feed_rest = xs, feed_ended = False, pending = [], proc = Checking, running_tasks = {#}, returned_tasks = 0,
      mqueue = mq_init (queue_limit cfg), staleness_samples = 0, paused = False, resetting = None,
      monitor_ok = False, total_generated_samples = 0, dropped_stale_samples = 0, consumed = []\<rparr>"

definition active_tasks :: "'a rollouter \<Rightarrow> nat" where
  "active_tasks s = size (running_tasks s) + returned_tasks s"

definition should_pause_generation :: "limits \<Rightarrow> nat \<Rightarrow> nat \<Rightarrow> bool" where
  "should_pause_generation cfg queue_size staleness \<longleftrightarrow>
     queue_limit cfg \<le> queue_size \<or> max_required_samples cfg \<le> staleness"

definition pending_size :: nat where
  "pending_size = 128"

inductive roll_step :: "limits \<Rightarrow> 'a rollouter \<Rightarrow> 'a rollouter \<Rightarrow> bool" for cfg where
  feed: "feed_rest s = x # xs \<Longrightarrow> length (pending s) < pending_size \<Longrightarrow>
    roll_step cfg s (s\<lparr>feed_rest := xs, pending := pending s @ [Some x]\<rparr>)"
| feed_end: "feed_rest s = [] \<Longrightarrow> \<not> feed_ended s \<Longrightarrow> length (pending s) < pending_size \<Longrightarrow>
    roll_step cfg s (s\<lparr>feed_ended := True, pending := pending s @ [None]\<rparr>)"
| check_paused: "proc s = Checking \<Longrightarrow> paused s \<Longrightarrow> roll_step cfg s (s\<lparr>proc := Pausing\<rparr>)"
| ask: "proc s = Checking \<Longrightarrow> \<not> paused s \<Longrightarrow> roll_step cfg s (s\<lparr>proc := Asked (get_queue_size (mqueue s))\<rparr>)"
| decide_pause: "proc s = Asked n \<Longrightarrow> should_pause_generation cfg n (staleness_samples s) \<Longrightarrow>
    roll_step cfg s (s\<lparr>proc := Pausing\<rparr>)"
| decide_go: "proc s = Asked n \<Longrightarrow> \<not> should_pause_generation cfg n (staleness_samples s) \<Longrightarrow>
    roll_step cfg s (s\<lparr>proc := Waiting\<rparr>)"
| pause: "proc s = Pausing \<Longrightarrow> resetting s = None \<Longrightarrow> roll_step cfg s (s\<lparr>proc := Draining, paused := True\<rparr>)"
| resume: "proc s = Draining \<Longrightarrow> \<not> paused s \<Longrightarrow> roll_step cfg s (s\<lparr>proc := Checking\<rparr>)"
| take_one: "proc s = Waiting \<Longrightarrow> pending s = Some x # rest \<Longrightarrow>
    roll_step cfg s (s\<lparr>proc := Holding x, pending := rest, staleness_samples := staleness_samples s + 1\<rparr>)"
| take_end: "proc s = Waiting \<Longrightarrow> pending s = None # rest \<Longrightarrow>
    roll_step cfg s (s\<lparr>proc := Finishing, pending := rest, staleness_samples := staleness_samples s + 1\<rparr>)"
| submit: "proc s = Holding x \<Longrightarrow> active_tasks s < max_concurrent_samples cfg \<Longrightarrow> \<not> paused s \<Longrightarrow> resetting s = None \<Longrightarrow>
    roll_step cfg s (s\<lparr>proc := Checking, running_tasks := running_tasks s + {#x#}\<rparr>)"
| finish: "proc s = Finishing \<Longrightarrow> active_tasks s = 0 \<Longrightarrow> roll_step cfg s (s\<lparr>proc := Finished\<rparr>)"
| stop: "proc s = Finished \<Longrightarrow> put_sample None (mqueue s) = Inr (b, q) \<Longrightarrow>
    roll_step cfg s (s\<lparr>proc := Stopped, mqueue := q\<rparr>)"
| deliver: "x \<in># running_tasks s \<Longrightarrow> put_sample (Some x) (mqueue s) = Inr (b, q) \<Longrightarrow>
    roll_step cfg s (s\<lparr>running_tasks := running_tasks s - {#x#}, returned_tasks := returned_tasks s + 1, mqueue := q,
      total_generated_samples := total_generated_samples s + (if b then 1 else 0),
      dropped_stale_samples := dropped_stale_samples s + (if b then 0 else 1)\<rparr>)"
| retire: "0 < returned_tasks s \<Longrightarrow> roll_step cfg s (s\<lparr>returned_tasks := returned_tasks s - 1\<rparr>)"
| consume: "get_sample (mqueue s) = (Sample v n, q) \<Longrightarrow>
    roll_step cfg s (s\<lparr>mqueue := q, consumed := consumed s @ [v]\<rparr>)"
| reset_begin: "resetting s = None \<Longrightarrow>
    roll_step cfg s (s\<lparr>paused := False, resetting := Some (active_tasks s)\<rparr>)"
| reset_end: "resetting s = Some n \<Longrightarrow>
    roll_step cfg s (s\<lparr>staleness_samples := n + get_queue_size (mqueue s), resetting := None\<rparr>)"
| monitor_check: "paused s \<Longrightarrow> \<not> should_pause_generation cfg (get_queue_size (mqueue s)) (staleness_samples s) \<Longrightarrow>
    roll_step cfg s (s\<lparr>monitor_ok := True\<rparr>)"
| monitor_resume: "monitor_ok s \<Longrightarrow> resetting s = None \<Longrightarrow>
    roll_step cfg s (s\<lparr>monitor_ok := False, paused := False\<rparr>)"

inductive reachable :: "limits \<Rightarrow> 'a list \<Rightarrow> 'a rollouter \<Rightarrow> bool" for cfg xs where
  init: "reachable cfg xs (rollouter_init cfg xs)"
| step: "reachable cfg xs s \<Longrightarrow> roll_step cfg s s' \<Longrightarrow> reachable cfg xs s'"

section \<open>Nothing is lost but what the queue drops\<close>

text \<open>The samples (and the end signal) by the place they are in.\<close>

definition held :: "'a rollouter \<Rightarrow> 'a option multiset" where
  "held s = (case proc s of Holding x \<Rightarrow> {#Some x#} | Finishing \<Rightarrow> {#None#} | Finished \<Rightarrow> {#None#} | _ \<Rightarrow> {#})"

definition in_flight :: "'a rollouter \<Rightarrow> 'a option multiset" where
  "in_flight s = mset (queue (mqueue s)) + image_mset Some (running_tasks s) + held s"

definition to_feed :: "'a rollouter \<Rightarrow> 'a option multiset" where
  "to_feed s = image_mset Some (mset (feed_rest s)) + (if feed_ended s then {#} else {#None#}) + mset (pending s)"

definition conserved :: "limits \<Rightarrow> 'a list \<Rightarrow> 'a rollouter \<Rightarrow> bool" where
  "conserved cfg xs s \<longleftrightarrow> mq_ok (queue_limit cfg) (mqueue s)
     \<and> (\<exists>lost. to_feed s + in_flight s + mset (consumed s) + lost = image_mset Some (mset xs) + {#None#}
          \<and> size lost = dropped_samples (mqueue s))"

lemma put_sample_effect:
  assumes "mq_ok cap q" "0 < cap" "put_sample x q = Inr (b, q')"
  obtains lost where "mq_ok cap q'" "mset (queue q') + lost = mset (queue q) + {#x#}"
    "dropped_samples q' = dropped_samples q + size lost" "size lost = (if b then 0 else 1)"
    "size lost = (if length (queue q) = cap then 1 else 0)"
proof (cases "length (queue q) = cap")
  case True
  then obtain y ys where y: "queue q = y # ys" using assms(2) by (cases "queue q") auto
  have q': "b = False" "q' = q\<lparr>queue := ys @ [x], dropped_samples := dropped_samples q + 1, total_produced := total_produced q + 1\<rparr>"
    using put_sample_full[OF assms(1) True assms(2), of x] assms(3) y by simp_all
  show thesis by (rule that[of "{#y#}"]) (use assms(1) True y in \<open>auto simp: q' mq_ok_def\<close>)
next
  case False
  then have "length (queue q) < cap" using assms(1) by (simp add: mq_ok_def)
  then have q': "b = True" "q' = q\<lparr>queue := queue q @ [x], total_produced := total_produced q + 1\<rparr>"
    using put_sample_room[OF assms(1), of x] assms(3) by simp_all
  show thesis by (rule that[of "{#}"]) (use assms(1) False in \<open>auto simp: q' mq_ok_def\<close>)
qed

lemma conserved_put:
  assumes "conserved cfg xs s" "mq_ok (queue_limit cfg) (mqueue s')" "to_feed s' = to_feed s" "consumed s' = consumed s"
    and "in_flight s' + l = in_flight s" "dropped_samples (mqueue s') = dropped_samples (mqueue s) + size l"
  shows "conserved cfg xs s'"
proof -
  obtain lost where all: "to_feed s + in_flight s + mset (consumed s) + lost = image_mset Some (mset xs) + {#None#}"
    and lost: "size lost = dropped_samples (mqueue s)"
    using assms(1) by (auto simp: conserved_def)
  have "to_feed s' + in_flight s' + mset (consumed s') + (l + lost) = to_feed s + (in_flight s' + l) + mset (consumed s) + lost"
    by (simp add: assms(3,4) ac_simps)
  also have "\<dots> = image_mset Some (mset xs) + {#None#}" by (simp only: assms(5) all)
  finally show ?thesis using assms(2,6) lost unfolding conserved_def by (intro conjI exI[of _ "l + lost"]) simp_all
qed

lemma roll_step_conserved:
  assumes "roll_step cfg s s'" "conserved cfg xs s" "0 < queue_limit cfg"
  shows "conserved cfg xs s'"
proof -
  obtain lost where ok: "mq_ok (queue_limit cfg) (mqueue s)"
    and all: "to_feed s + in_flight s + mset (consumed s) + lost = image_mset Some (mset xs) + {#None#}"
    and lost: "size lost = dropped_samples (mqueue s)"
    using assms(2) by (auto simp: conserved_def)
  have same: ?thesis if "mqueue s' = mqueue s"
      "to_feed s' + in_flight s' + mset (consumed s') = to_feed s + in_flight s + mset (consumed s)"
    using that ok all lost by (auto simp: conserved_def)
  show ?thesis using assms(1)
  proof cases
    case (stop b q)
    obtain l where l: "mq_ok (queue_limit cfg) q" "mset (queue q) + l = mset (queue (mqueue s)) + {#None#}"
        "dropped_samples q = dropped_samples (mqueue s) + size l"
      by (rule put_sample_effect[OF ok assms(3) stop(3)])
    have "in_flight s' + l = (mset (queue q) + l) + image_mset Some (running_tasks s)"
      by (simp add: stop(1) in_flight_def held_def ac_simps)
    also have "\<dots> = in_flight s" unfolding l(2) using stop(2) by (simp add: in_flight_def held_def)
    finally have eq: "in_flight s' + l = in_flight s" .
    show ?thesis by (rule conserved_put[OF assms(2) _ _ _ eq]) (use l stop(1) in \<open>simp_all add: to_feed_def\<close>)
  next
    case (deliver x b q)
    obtain l where l: "mq_ok (queue_limit cfg) q" "mset (queue q) + l = mset (queue (mqueue s)) + {#Some x#}"
        "dropped_samples q = dropped_samples (mqueue s) + size l"
      by (rule put_sample_effect[OF ok assms(3) deliver(3)])
    obtain R where R: "running_tasks s = R + {#x#}" using deliver(2) by (metis insert_DiffM2)
    have "in_flight s' + l = (mset (queue q) + l) + image_mset Some R + held s"
      by (simp add: deliver(1) R in_flight_def held_def ac_simps)
    also have "\<dots> = in_flight s" unfolding l(2) by (simp add: R in_flight_def)
    finally have eq: "in_flight s' + l = in_flight s" .
    show ?thesis by (rule conserved_put[OF assms(2) _ _ _ eq]) (use l deliver(1) in \<open>simp_all add: to_feed_def\<close>)
  next
    case (consume v n q)
    have q: "queue (mqueue s) = v # queue q" "mq_ok (queue_limit cfg) q" "dropped_samples q = dropped_samples (mqueue s)"
      using consume(2) ok by (auto simp: get_sample_def mq_ok_def split: list.splits if_splits)
    then show ?thesis using all lost consume(1) unfolding conserved_def
      by (intro conjI exI[of _ lost]) (simp_all add: to_feed_def in_flight_def held_def ac_simps)
  qed (rule same; simp add: to_feed_def in_flight_def held_def ac_simps)+
qed

text \<open>
  C21. Samples are conserved: in every reachable state, whatever the interleaving, every sample of the
  plan and the end signal is in exactly one place (to be fed, pending, held, generating, queued or
  consumed) but for those the full message queue dropped, which it counts.
\<close>

theorem rollouter_conserves_samples:
  assumes "reachable cfg xs s" "0 < queue_limit cfg"
  shows "\<exists>lost. to_feed s + in_flight s + mset (consumed s) + lost = image_mset Some (mset xs) + {#None#}
    \<and> size lost = dropped_samples (mqueue s)"
proof -
  have "conserved cfg xs s" using assms(1)
  proof induction
    case init
    show ?case by (auto simp: conserved_def rollouter_init_def to_feed_def in_flight_def held_def mq_init_def mq_ok_def)
  next
    case (step s s')
    then show ?case using roll_step_conserved assms(2) by blast
  qed
  then show ?thesis by (auto simp: conserved_def)
qed

section \<open>Staleness\<close>

text \<open>
  A sample is submitted only while the counter is below its limit, and the counter lags behind what is
  in flight by at most one: a reset that runs while the processor holds a sample forgets that sample.
\<close>

definition bounded :: "limits \<Rightarrow> 'a rollouter \<Rightarrow> bool" where
  "bounded cfg s \<longleftrightarrow> mq_ok (queue_limit cfg) (mqueue s)
     \<and> size (in_flight s) \<le> staleness_samples s + 1
     \<and> size (in_flight s) \<le> max_required_samples cfg + 1
     \<and> (proc s = Waiting \<longrightarrow> size (in_flight s) \<le> max_required_samples cfg)
     \<and> (\<forall>n. resetting s = Some n \<longrightarrow> size (running_tasks s) \<le> n)"

lemma size_in_flight:
  "size (in_flight s) = length (queue (mqueue s)) + size (running_tasks s) + size (held s)"
  by (simp add: in_flight_def)

lemma size_held: "size (held s) \<le> 1"
  by (cases "proc s") (auto simp: held_def)

lemma roll_step_bounded:
  assumes "roll_step cfg s s'" "bounded cfg s" "0 < queue_limit cfg"
  shows "bounded cfg s'"
proof -
  have ok: "mq_ok (queue_limit cfg) (mqueue s)" using assms(2) by (simp add: bounded_def)
  show ?thesis using assms(1)
  proof cases
    case (stop b q)
    obtain l where l: "mq_ok (queue_limit cfg) q" "mset (queue q) + l = mset (queue (mqueue s)) + {#None#}"
      by (rule put_sample_effect[OF ok assms(3) stop(3)])
    have "size (mset (queue q) + l) = size (mset (queue (mqueue s)) + {#None#})" by (simp only: l(2))
    then have "length (queue q) \<le> length (queue (mqueue s)) + 1" by simp
    then show ?thesis using assms(2) l(1) stop(1,2) by (auto simp: bounded_def size_in_flight held_def)
  next
    case (deliver x b q)
    obtain l where l: "mq_ok (queue_limit cfg) q" "mset (queue q) + l = mset (queue (mqueue s)) + {#Some x#}"
      by (rule put_sample_effect[OF ok assms(3) deliver(3)])
    have "size (mset (queue q) + l) = size (mset (queue (mqueue s)) + {#Some x#})" by (simp only: l(2))
    then have q: "length (queue q) \<le> length (queue (mqueue s)) + 1" by simp
    obtain R where R: "running_tasks s = R + {#x#}" using deliver(2) by (metis insert_DiffM2)
    show ?thesis using assms(2) l(1) deliver(1) q by (auto simp: bounded_def size_in_flight held_def R)
  next
    case (consume v n q)
    have q: "length (queue (mqueue s)) = length (queue q) + 1" "mq_ok (queue_limit cfg) q"
      using consume(2) ok by (auto simp: get_sample_def mq_ok_def split: list.splits if_splits)
    then show ?thesis using assms(2) consume(1) by (auto simp: bounded_def size_in_flight held_def)
  next
    case (reset_end n)
    then show ?thesis using assms(2) size_held[of s]
      by (auto simp: bounded_def size_in_flight held_def get_queue_size_def)
  next
    case (decide_go n)
    then show ?thesis using assms(2)
      by (auto simp: bounded_def size_in_flight held_def should_pause_generation_def)
  qed (use assms(2) in \<open>auto simp: bounded_def size_in_flight held_def active_tasks_def\<close>)
qed

text \<open>
  C22. Staleness is bounded: in every reachable state at most one sample more than the limit is queued,
  generating or held, and the counter lags by at most one behind them.
\<close>

theorem staleness_bounded:
  assumes "reachable cfg xs s" "0 < queue_limit cfg"
  shows "size (in_flight s) \<le> max_required_samples cfg + 1 \<and> size (in_flight s) \<le> staleness_samples s + 1
    \<and> length (queue (mqueue s)) \<le> queue_limit cfg"
proof -
  have "bounded cfg s" using assms(1)
  proof induction
    case init
    show ?case by (simp add: bounded_def size_in_flight held_def rollouter_init_def mq_init_def mq_ok_def)
  next
    case (step s s')
    then show ?case using roll_step_bounded assms(2) by blast
  qed
  then show ?thesis by (simp add: bounded_def mq_ok_def)
qed

text \<open>A step of an execution in which no reset ends while the processor holds a sample.\<close>

definition calm_step :: "limits \<Rightarrow> 'a rollouter \<Rightarrow> 'a rollouter \<Rightarrow> bool" where
  "calm_step cfg s s' \<longleftrightarrow> roll_step cfg s s' \<and> (resetting s \<noteq> None \<and> resetting s' = None \<longrightarrow> held s = {#})"

inductive calm :: "limits \<Rightarrow> 'a list \<Rightarrow> 'a rollouter \<Rightarrow> bool" for cfg xs where
  calm_init: "calm cfg xs (rollouter_init cfg xs)"
| calm_more: "calm cfg xs s \<Longrightarrow> calm_step cfg s s' \<Longrightarrow> calm cfg xs s'"

definition tight :: "limits \<Rightarrow> 'a rollouter \<Rightarrow> bool" where
  "tight cfg s \<longleftrightarrow> mq_ok (queue_limit cfg) (mqueue s) \<and> dropped_samples (mqueue s) = 0
     \<and> size (in_flight s) \<le> staleness_samples s \<and> size (in_flight s) \<le> max_required_samples cfg
     \<and> (proc s = Waiting \<longrightarrow> size (in_flight s) < max_required_samples cfg)
     \<and> (\<forall>n. resetting s = Some n \<longrightarrow> size (running_tasks s) \<le> n)"

lemma calm_step_tight:
  assumes "calm_step cfg s s'" "tight cfg s" "0 < queue_limit cfg" "queue_limit cfg = max_required_samples cfg"
  shows "tight cfg s'"
proof -
  have ok: "mq_ok (queue_limit cfg) (mqueue s)" using assms(2) by (simp add: tight_def)
  have le: "size (in_flight s) \<le> queue_limit cfg" using assms(2,4) by (simp add: tight_def)
  from assms(1) have "roll_step cfg s s'" by (simp add: calm_step_def)
  then show ?thesis
  proof cases
    case (stop b q)
    have room: "length (queue (mqueue s)) < queue_limit cfg" using le stop(2) by (simp add: size_in_flight held_def)
    then show ?thesis using assms(2) stop put_sample_room[OF ok room, of None] room
      by (auto simp: tight_def size_in_flight held_def mq_ok_def)
  next
    case (deliver x b q)
    obtain R where R: "running_tasks s = R + {#x#}" using deliver(2) by (metis insert_DiffM2)
    have room: "length (queue (mqueue s)) < queue_limit cfg" using le by (simp add: size_in_flight R)
    show ?thesis using assms(2) deliver(1,3) put_sample_room[OF ok room, of "Some x"] room
      by (auto simp: tight_def size_in_flight held_def mq_ok_def R)
  next
    case (consume v n q)
    have q: "length (queue (mqueue s)) = length (queue q) + 1" "mq_ok (queue_limit cfg) q"
        "dropped_samples q = dropped_samples (mqueue s)"
      using consume(2) ok by (auto simp: get_sample_def mq_ok_def split: list.splits if_splits)
    then show ?thesis using assms(2) consume(1) by (auto simp: tight_def size_in_flight held_def)
  next
    case (reset_end n)
    then have "held s = {#}" using assms(1) by (simp add: calm_step_def)
    then show ?thesis using assms(2) reset_end
      by (auto simp: tight_def size_in_flight held_def get_queue_size_def)
  next
    case (decide_go n)
    then show ?thesis using assms(2)
      by (auto simp: tight_def size_in_flight held_def should_pause_generation_def)
  next
    case reset_begin
    then show ?thesis using assms(2) size_held[of s] by (auto simp: tight_def size_in_flight held_def active_tasks_def)
  qed (use assms(2) in \<open>auto simp: tight_def size_in_flight held_def active_tasks_def\<close>)
qed

text \<open>
  Without that race nothing is dropped: when no reset ends while the processor holds a sample, what
  is in flight stays within the limit and the counter, and the queue never drops a sample.
\<close>

theorem calm_never_drops:
  assumes "calm cfg xs s" "0 < queue_limit cfg" "queue_limit cfg = max_required_samples cfg"
  shows "dropped_samples (mqueue s) = 0 \<and> size (in_flight s) \<le> max_required_samples cfg
    \<and> size (in_flight s) \<le> staleness_samples s"
proof -
  have "tight cfg s" using assms(1)
  proof induction
    case calm_init
    show ?case by (simp add: tight_def size_in_flight held_def rollouter_init_def mq_init_def mq_ok_def)
  next
    case (calm_more s s')
    then show ?case using calm_step_tight assms(2,3) by blast
  qed
  then show ?thesis by (simp add: tight_def)
qed

section \<open>Executing steps\<close>

text \<open>The steps by name, and the state each leads to when it is enabled.\<close>

datatype 'a action =
    Feed | Feed_End | Check_Paused | Ask | Decide | Pause | Resume | Take | Submit | Finish | Stop
  | Deliver 'a | Retire | Consume | Reset_Begin | Reset_End | Monitor_Check | Monitor_Resume

fun perform :: "limits \<Rightarrow> 'a action \<Rightarrow> 'a rollouter \<Rightarrow> 'a rollouter option" where
  "perform cfg Feed s =
     (case feed_rest s of
        [] \<Rightarrow> None
      | x # xs \<Rightarrow> if length (pending s) < pending_size then Some (s\<lparr>feed_rest := xs, pending := pending s @ [Some x]\<rparr>) else None)"
| "perform cfg Feed_End s =
     (if feed_rest s = [] \<and> \<not> feed_ended s \<and> length (pending s) < pending_size
      then Some (s\<lparr>feed_ended := True, pending := pending s @ [None]\<rparr>) else None)"
| "perform cfg Check_Paused s = (if proc s = Checking \<and> paused s then Some (s\<lparr>proc := Pausing\<rparr>) else None)"
| "perform cfg Ask s =
     (if proc s = Checking \<and> \<not> paused s then Some (s\<lparr>proc := Asked (get_queue_size (mqueue s))\<rparr>) else None)"
| "perform cfg Decide s =
     (case proc s of
        Asked n \<Rightarrow> Some (if should_pause_generation cfg n (staleness_samples s) then s\<lparr>proc := Pausing\<rparr> else s\<lparr>proc := Waiting\<rparr>)
      | _ \<Rightarrow> None)"
| "perform cfg Pause s = (if proc s = Pausing \<and> resetting s = None then Some (s\<lparr>proc := Draining, paused := True\<rparr>) else None)"
| "perform cfg Resume s = (if proc s = Draining \<and> \<not> paused s then Some (s\<lparr>proc := Checking\<rparr>) else None)"
| "perform cfg Take s =
     (if proc s = Waiting then
        (case pending s of
           [] \<Rightarrow> None
         | p # rest \<Rightarrow> Some (s\<lparr>proc := (case p of Some x \<Rightarrow> Holding x | None \<Rightarrow> Finishing), pending := rest,
                              staleness_samples := staleness_samples s + 1\<rparr>))
      else None)"
| "perform cfg Submit s =
     (case proc s of
        Holding x \<Rightarrow> if active_tasks s < max_concurrent_samples cfg \<and> \<not> paused s \<and> resetting s = None
                    then Some (s\<lparr>proc := Checking, running_tasks := running_tasks s + {#x#}\<rparr>) else None
      | _ \<Rightarrow> None)"
| "perform cfg Finish s = (if proc s = Finishing \<and> active_tasks s = 0 then Some (s\<lparr>proc := Finished\<rparr>) else None)"
| "perform cfg Stop s =
     (if proc s = Finished then
        (case put_sample None (mqueue s) of Inl _ \<Rightarrow> None | Inr (b, q) \<Rightarrow> Some (s\<lparr>proc := Stopped, mqueue := q\<rparr>))
      else None)"
| "perform cfg (Deliver x) s =
     (if x \<in># running_tasks s then
        (case put_sample (Some x) (mqueue s) of
           Inl _ \<Rightarrow> None
         | Inr (b, q) \<Rightarrow> Some (s\<lparr>running_tasks := running_tasks s - {#x#}, returned_tasks := returned_tasks s + 1, mqueue := q,
             total_generated_samples := total_generated_samples s + (if b then 1 else 0),
             dropped_stale_samples := dropped_stale_samples s + (if b then 0 else 1)\<rparr>))
      else None)"
| "perform cfg Retire s = (if 0 < returned_tasks s then Some (s\<lparr>returned_tasks := returned_tasks s - 1\<rparr>) else None)"
| "perform cfg Consume s =
     (case get_sample (mqueue s) of
        (Sample v n, q) \<Rightarrow> Some (s\<lparr>mqueue := q, consumed := consumed s @ [v]\<rparr>)
      | _ \<Rightarrow> None)"
| "perform cfg Reset_Begin s =
     (if resetting s = None then Some (s\<lparr>paused := False, resetting := Some (active_tasks s)\<rparr>) else None)"
| "perform cfg Reset_End s =
     (case resetting s of
        None \<Rightarrow> None
      | Some n \<Rightarrow> Some (s\<lparr>staleness_samples := n + get_queue_size (mqueue s), resetting := None\<rparr>))"
| "perform cfg Monitor_Check s =
     (if paused s \<and> \<not> should_pause_generation cfg (get_queue_size (mqueue s)) (staleness_samples s)
      then Some (s\<lparr>monitor_ok := True\<rparr>) else None)"
| "perform cfg Monitor_Resume s =
     (if monitor_ok s \<and> resetting s = None then Some (s\<lparr>monitor_ok := False, paused := False\<rparr>) else None)"

fun perform_all :: "limits \<Rightarrow> 'a action list \<Rightarrow> 'a rollouter \<Rightarrow> 'a rollouter option" where
  "perform_all cfg [] s = Some s"
| "perform_all cfg (a # as) s = (case perform cfg a s of None \<Rightarrow> None | Some s' \<Rightarrow> perform_all cfg as s')"

lemma perform_sound:
  assumes "perform cfg a s = Some s'"
  shows "roll_step cfg s s'"
proof (cases a)
  case Take
  then show ?thesis using assms roll_step.take_one[of s _ _ cfg] roll_step.take_end[of s _ cfg]
    by (auto split: if_splits list.splits option.splits)
next
  case Submit
  then show ?thesis using assms roll_step.submit[of s _ cfg] by (auto split: processor.splits if_splits)
next
  case (Deliver x)
  then show ?thesis using assms roll_step.deliver[of x s _ _ cfg] by (auto split: if_splits sum.splits prod.splits)
next
  case Retire
  then show ?thesis using assms roll_step.retire[of s cfg] by (auto split: if_splits)
qed (use assms in \<open>auto intro: roll_step.intros split: if_splits list.splits option.splits processor.splits
    sum.splits prod.splits answer.splits\<close>)

lemma perform_complete: "roll_step cfg s s' \<Longrightarrow> \<exists>a. perform cfg a s = Some s'"
proof (induction rule: roll_step.cases)
  case (feed x xs) then show ?case by (intro exI[of _ Feed]) simp
next
  case feed_end then show ?case by (intro exI[of _ Feed_End]) simp
next
  case check_paused then show ?case by (intro exI[of _ Check_Paused]) simp
next
  case ask then show ?case by (intro exI[of _ Ask]) simp
next
  case (decide_pause n) then show ?case by (intro exI[of _ Decide]) simp
next
  case (decide_go n) then show ?case by (intro exI[of _ Decide]) simp
next
  case pause then show ?case by (intro exI[of _ Pause]) simp
next
  case resume then show ?case by (intro exI[of _ Resume]) simp
next
  case (take_one x rest) then show ?case by (intro exI[of _ Take]) simp
next
  case (take_end rest) then show ?case by (intro exI[of _ Take]) simp
next
  case (submit x) then show ?case by (intro exI[of _ Submit]) simp
next
  case finish then show ?case by (intro exI[of _ Finish]) simp
next
  case (stop b q) then show ?case by (intro exI[of _ Stop]) simp
next
  case (deliver x b q) then show ?case by (intro exI[of _ "Deliver x"]) simp
next
  case retire then show ?case by (intro exI[of _ Retire]) simp
next
  case (consume v n q) then show ?case by (intro exI[of _ Consume]) simp
next
  case reset_begin then show ?case by (intro exI[of _ Reset_Begin]) simp
next
  case (reset_end n) then show ?case by (intro exI[of _ Reset_End]) simp
next
  case monitor_check then show ?case by (intro exI[of _ Monitor_Check]) simp
next
  case monitor_resume then show ?case by (intro exI[of _ Monitor_Resume]) simp
qed

lemma perform_all_reachable: "perform_all cfg as s = Some s' \<Longrightarrow> reachable cfg xs s \<Longrightarrow> reachable cfg xs s'"
  by (induction as arbitrary: s) (auto split: option.splits dest: perform_sound intro: reachable.step)

definition race_limits :: limits where
  "race_limits = set_max_required_samples 1 1 1 100 1"

lemma race_limits_simps [simp]:
  "race_limits = \<lparr>max_required_samples = 2, max_concurrent_samples = 2, queue_limit = 2, total_train_steps = 100\<rparr>"
  by (simp add: race_limits_def set_max_required_samples_def Let_def)

text \<open>The reset overlaps with the submission of the first sample; then two more fit under the counter.\<close>

definition race_script :: "nat action list" where
  "race_script =
     [Feed, Feed, Feed, Ask, Decide, Take, Reset_Begin, Reset_End, Submit,
      Ask, Decide, Take, Submit, Ask, Decide, Take, Deliver 1, Retire, Submit, Deliver 2, Deliver 3]"

lemma reset_race_state:
  "\<exists>s. reachable race_limits [1, 2, 3 :: nat] s \<and> dropped_samples (mqueue s) = 1
     \<and> queue (mqueue s) = [Some 2, Some 3] \<and> consumed s = []"
proof -
  have "\<exists>s. perform_all race_limits race_script (rollouter_init race_limits [1, 2, 3]) = Some s
     \<and> dropped_samples (mqueue s) = 1 \<and> queue (mqueue s) = [Some 2, Some 3] \<and> consumed s = []"
    by (simp add: race_script_def rollouter_init_def pending_size_def should_pause_generation_def get_queue_size_def
        mq_init_def active_tasks_def put_sample_def popleft_def deque_append_def py_tail_def)
  then show ?thesis using perform_all_reachable[OF _ reachable.init] by metis
qed

text \<open>
  The race exists: with a limit of two samples (and a queue of two) a reset that overlaps with a
  submission lets three samples into flight, and the queue drops the oldest one.
\<close>

theorem reset_race_drops_sample:
  "\<exists>s. reachable race_limits [1, 2, 3 :: nat] s \<and> max_required_samples race_limits = 2 \<and> dropped_samples (mqueue s) = 1
     \<and> queue (mqueue s) = [Some 2, Some 3] \<and> consumed s = []"
  using reset_race_state by simp

section \<open>The rollouter can always finish\<close>

abbreviation steps :: "limits \<Rightarrow> 'a rollouter \<Rightarrow> 'a rollouter \<Rightarrow> bool" where
  "steps cfg \<equiv> (roll_step cfg)\<^sup>*\<^sup>*"

text \<open>What is left to feed, and where the end signal may be.\<close>

definition left_to_feed :: "'a rollouter \<Rightarrow> nat" where
  "left_to_feed s = length (feed_rest s) + (if feed_ended s then 0 else 1) + length (pending s)"

definition end_ok :: "limits \<Rightarrow> 'a rollouter \<Rightarrow> bool" where
  "end_ok cfg s \<longleftrightarrow> mq_ok (queue_limit cfg) (mqueue s) \<and> (feed_ended s \<longrightarrow> feed_rest s = [])
     \<and> (feed_ended s \<and> None \<notin> set (pending s) \<longrightarrow> proc s \<in> {Finishing, Finished, Stopped})"

lemma roll_step_mq_ok:
  assumes "roll_step cfg s s'" "mq_ok (queue_limit cfg) (mqueue s)" "0 < queue_limit cfg"
  shows "mq_ok (queue_limit cfg) (mqueue s')"
  using assms(1)
proof cases
  case (stop b q)
  then show ?thesis using put_sample_effect[OF assms(2,3) stop(3)] by auto
next
  case (deliver x b q)
  then show ?thesis using put_sample_effect[OF assms(2,3) deliver(3)] by auto
next
  case (consume v n q)
  then show ?thesis using assms(2) by (auto simp: get_sample_def mq_ok_def split: list.splits if_splits)
qed (use assms(2) in auto)

lemma roll_step_end_ok:
  assumes "roll_step cfg s s'" "end_ok cfg s" "0 < queue_limit cfg"
  shows "end_ok cfg s'"
proof -
  have "mq_ok (queue_limit cfg) (mqueue s')" using roll_step_mq_ok[OF assms(1) _ assms(3)] assms(2) by (simp add: end_ok_def)
  with assms(1,2) show ?thesis by cases (auto simp: end_ok_def)
qed

lemma steps_end_ok: "steps cfg s s' \<Longrightarrow> end_ok cfg s \<Longrightarrow> 0 < queue_limit cfg \<Longrightarrow> end_ok cfg s'"
  by (induction rule: rtranclp_induct) (auto intro: roll_step_end_ok)

text \<open>The state the tasks and the trainer can always bring about without the feeder and the processor.\<close>

definition core :: "'a rollouter \<Rightarrow> 'a processor \<times> 'a option list \<times> 'a list \<times> bool" where
  "core s = (proc s, pending s, feed_rest s, feed_ended s)"

definition quiet :: "'a rollouter \<Rightarrow> bool" where
  "quiet s \<longleftrightarrow> queue (mqueue s) = [] \<and> active_tasks s = 0 \<and> resetting s = None \<and> \<not> paused s \<and> staleness_samples s = 0"

lemma end_resetting: "\<exists>s'. steps cfg s s' \<and> core s' = core s \<and> mqueue s' = mqueue s \<and> resetting s' = None"
proof (cases "resetting s")
  case (Some n)
  show ?thesis
    by (rule exI, rule conjI, rule r_into_rtranclp, rule roll_step.reset_end[OF Some]) (simp add: core_def)
qed (auto intro: exI[of _ s])

lemma deliver_all:
  "mq_ok (queue_limit cfg) (mqueue s) \<Longrightarrow> 0 < queue_limit cfg \<Longrightarrow>
   \<exists>s'. steps cfg s s' \<and> core s' = core s \<and> resetting s' = resetting s \<and> running_tasks s' = {#}
     \<and> mq_ok (queue_limit cfg) (mqueue s')"
proof (induction "size (running_tasks s)" arbitrary: s)
  case 0
  then show ?case by (intro exI[of _ s]) simp
next
  case (Suc n)
  then obtain x where x: "x \<in># running_tasks s" by (metis size_eq_Suc_imp_elem)
  obtain b q where q: "put_sample (Some x) (mqueue s) = Inr (b, q)"
    using put_sample_mq_put[OF Suc.prems] by (metis surj_pair)
  let ?s = "s\<lparr>running_tasks := running_tasks s - {#x#}, returned_tasks := returned_tasks s + 1, mqueue := q,
      total_generated_samples := total_generated_samples s + (if b then 1 else 0),
      dropped_stale_samples := dropped_stale_samples s + (if b then 0 else 1)\<rparr>"
  have st: "roll_step cfg s ?s" by (rule roll_step.deliver[OF x q])
  have "n = size (running_tasks ?s)" using Suc.hyps(2) x by (simp add: size_Diff_singleton)
  then obtain s' where "steps cfg ?s s'" "core s' = core ?s" "resetting s' = resetting ?s" "running_tasks s' = {#}"
      "mq_ok (queue_limit cfg) (mqueue s')"
    using Suc.hyps(1)[of ?s] roll_step_mq_ok[OF st Suc.prems] Suc.prems(2) by blast
  then show ?case using converse_rtranclp_into_rtranclp[of "roll_step cfg", OF st]
    by (intro exI[of _ s']) (simp add: core_def)
qed

lemma retire_all:
  "\<exists>s'. steps cfg s s' \<and> core s' = core s \<and> resetting s' = resetting s \<and> running_tasks s' = running_tasks s
     \<and> returned_tasks s' = 0 \<and> mqueue s' = mqueue s"
proof (induction "returned_tasks s" arbitrary: s)
  case 0
  then show ?case by (intro exI[of _ s]) simp
next
  case (Suc n)
  let ?s = "s\<lparr>returned_tasks := returned_tasks s - 1\<rparr>"
  have st: "roll_step cfg s ?s" by (rule roll_step.retire) (use Suc.hyps(2) in simp)
  have "n = returned_tasks ?s" using Suc.hyps(2)[symmetric] by simp
  from Suc.hyps(1)[OF this] obtain s' where "steps cfg ?s s'" "core s' = core ?s" "resetting s' = resetting ?s"
      "running_tasks s' = running_tasks ?s" "returned_tasks s' = 0" "mqueue s' = mqueue ?s"
    by blast
  then show ?case using converse_rtranclp_into_rtranclp[of "roll_step cfg", OF st]
    by (intro exI[of _ s']) (simp add: core_def)
qed

lemma consume_all:
  "mq_ok (queue_limit cfg) (mqueue s) \<Longrightarrow> \<exists>s'. steps cfg s s' \<and> core s' = core s \<and> resetting s' = resetting s
     \<and> active_tasks s' = active_tasks s \<and> queue (mqueue s') = [] \<and> mq_ok (queue_limit cfg) (mqueue s')"
proof (induction "queue (mqueue s)" arbitrary: s)
  case Nil
  then show ?case by (intro exI[of _ s]) simp
next
  case (Cons v rest)
  let ?q = "(mqueue s)\<lparr>queue := rest, total_consumed := total_consumed (mqueue s) + 1\<rparr>"
  let ?s = "s\<lparr>mqueue := ?q, consumed := consumed s @ [v]\<rparr>"
  have "get_sample (mqueue s) = (Sample v (length rest), ?q)" by (simp add: get_sample_def Cons.hyps(2)[symmetric])
  then have st: "roll_step cfg s ?s" by (rule roll_step.consume)
  have "rest = queue (mqueue ?s)" "mq_ok (queue_limit cfg) (mqueue ?s)"
    using Cons.hyps(2) Cons.prems by (auto simp: mq_ok_def Cons.hyps(2)[symmetric])
  then obtain s' where "steps cfg ?s s'" "core s' = core ?s" "resetting s' = resetting ?s"
      "active_tasks s' = active_tasks ?s" "queue (mqueue s') = []" "mq_ok (queue_limit cfg) (mqueue s')"
    using Cons.hyps(1)[of ?s] by blast
  then show ?case using converse_rtranclp_into_rtranclp[of "roll_step cfg", OF st]
    by (intro exI[of _ s']) (simp add: core_def active_tasks_def)
qed

lemma quiesce:
  assumes "mq_ok (queue_limit cfg) (mqueue s)" "0 < queue_limit cfg"
  shows "\<exists>s'. steps cfg s s' \<and> core s' = core s \<and> quiet s'"
proof -
  obtain s1 where s1: "steps cfg s s1" "core s1 = core s" "mqueue s1 = mqueue s" "resetting s1 = None"
    using end_resetting by blast
  obtain s2 where s2: "steps cfg s1 s2" "core s2 = core s1" "resetting s2 = None" "running_tasks s2 = {#}"
      "mq_ok (queue_limit cfg) (mqueue s2)"
    using deliver_all[of cfg s1] assms s1(3,4) by auto
  obtain s3 where s3: "steps cfg s2 s3" "core s3 = core s2" "resetting s3 = None" "active_tasks s3 = 0"
      "mq_ok (queue_limit cfg) (mqueue s3)"
    using retire_all[of cfg s2] s2(3-5) by (auto simp: active_tasks_def)
  obtain s4 where s4: "steps cfg s3 s4" "core s4 = core s3" "resetting s4 = None" "active_tasks s4 = 0"
      "queue (mqueue s4) = []"
    using consume_all[OF s3(5)] s3(3,4) by auto
  let ?s5 = "s4\<lparr>paused := False, resetting := Some (active_tasks s4)\<rparr>"
  let ?s6 = "?s5\<lparr>staleness_samples := active_tasks s4 + get_queue_size (mqueue ?s5), resetting := None\<rparr>"
  have "roll_step cfg s4 ?s5" by (rule roll_step.reset_begin[OF s4(3)])
  moreover have "roll_step cfg ?s5 ?s6" by (rule roll_step.reset_end) simp
  ultimately have "steps cfg s ?s6"
    using s1(1) s2(1) s3(1) s4(1) by (meson rtranclp.rtrancl_into_rtrancl rtranclp_trans)
  moreover have "core ?s6 = core s" using s1(2) s2(2) s3(2) s4(2) by (simp add: core_def)
  moreover have "quiet ?s6" using s4(4,5) by (simp add: quiet_def active_tasks_def get_queue_size_def)
  ultimately show ?thesis by blast
qed

text \<open>From a quiet state the processor comes to wait for a sample.\<close>

lemma checking_to_waiting:
  assumes "proc s = Checking" "quiet s" "0 < queue_limit cfg" "0 < max_required_samples cfg"
  shows "steps cfg s (s\<lparr>proc := Waiting\<rparr>)"
proof -
  have "roll_step cfg s (s\<lparr>proc := Asked 0\<rparr>)"
    using roll_step.ask[of s cfg] assms(1,2) by (simp add: quiet_def get_queue_size_def)
  moreover have "roll_step cfg (s\<lparr>proc := Asked 0\<rparr>) (s\<lparr>proc := Waiting\<rparr>)"
    using roll_step.decide_go[of "s\<lparr>proc := Asked 0\<rparr>" 0 cfg] assms(2-4)
    by (simp add: quiet_def should_pause_generation_def)
  ultimately show ?thesis by (meson converse_rtranclp_into_rtranclp rtranclp.rtrancl_refl)
qed

lemma draining_to_waiting:
  assumes "proc s = Draining" "mq_ok (queue_limit cfg) (mqueue s)" "0 < queue_limit cfg" "0 < max_required_samples cfg"
  shows "\<exists>s'. steps cfg s s' \<and> proc s' = Waiting \<and> left_to_feed s' = left_to_feed s"
proof -
  obtain s1 where s1: "steps cfg s s1" "core s1 = core s" "quiet s1" using quiesce[OF assms(2,3)] by blast
  have "roll_step cfg s1 (s1\<lparr>proc := Checking\<rparr>)"
    using s1 assms(1) roll_step.resume[of s1 cfg] by (simp add: core_def quiet_def)
  moreover have "steps cfg (s1\<lparr>proc := Checking\<rparr>) (s1\<lparr>proc := Waiting\<rparr>)"
    using checking_to_waiting[of "s1\<lparr>proc := Checking\<rparr>" cfg] s1(3) assms(3,4) by (simp add: quiet_def active_tasks_def)
  ultimately have "steps cfg s (s1\<lparr>proc := Waiting\<rparr>)"
    using s1(1) by (meson converse_rtranclp_into_rtranclp rtranclp_trans)
  then show ?thesis using s1(2) by (intro exI[of _ "s1\<lparr>proc := Waiting\<rparr>"]) (simp add: core_def left_to_feed_def)
qed

lemma quiet_to_waiting:
  assumes "quiet s" "mq_ok (queue_limit cfg) (mqueue s)" "proc s \<notin> {Finishing, Finished, Stopped}"
    and "0 < queue_limit cfg" "0 < max_required_samples cfg" "0 < max_concurrent_samples cfg"
  shows "\<exists>s'. steps cfg s s' \<and> proc s' = Waiting \<and> left_to_feed s' = left_to_feed s"
proof -
  have pausing: ?thesis if "steps cfg s (s\<lparr>proc := Pausing\<rparr>)"
  proof -
    let ?t = "s\<lparr>proc := Draining, paused := True\<rparr>"
    have "roll_step cfg (s\<lparr>proc := Pausing\<rparr>) ?t"
      using roll_step.pause[of "s\<lparr>proc := Pausing\<rparr>" cfg] assms(1) by (simp add: quiet_def)
    then have "steps cfg s ?t" using that by (rule rtranclp.rtrancl_into_rtrancl[rotated])
    moreover obtain s' where "steps cfg ?t s'" "proc s' = Waiting" "left_to_feed s' = left_to_feed ?t"
      using draining_to_waiting[of ?t cfg] assms(2,4,5) by auto
    ultimately show ?thesis by (intro exI[of _ s']) (auto simp: left_to_feed_def intro: rtranclp_trans)
  qed
  have waiting: ?thesis if "steps cfg s (s\<lparr>proc := Waiting\<rparr>)"
    using that by (intro exI[of _ "s\<lparr>proc := Waiting\<rparr>"]) (simp add: left_to_feed_def)
  show ?thesis
  proof (cases "proc s")
    case Checking
    then show ?thesis using waiting checking_to_waiting assms(1,4,5) by blast
  next
    case (Asked n)
    have "roll_step cfg s (s\<lparr>proc := Pausing\<rparr>) \<or> roll_step cfg s (s\<lparr>proc := Waiting\<rparr>)"
      using roll_step.decide_pause[OF Asked] roll_step.decide_go[OF Asked] by blast
    then show ?thesis using pausing waiting by blast
  next
    case Pausing
    then have "s\<lparr>proc := Pausing\<rparr> = s" by simp
    then show ?thesis using pausing by simp
  next
    case Draining
    then show ?thesis using draining_to_waiting assms(2,4,5) by blast
  next
    case Waiting
    then show ?thesis by (intro exI[of _ s]) simp
  next
    case (Holding x)
    let ?t = "s\<lparr>proc := Checking, running_tasks := running_tasks s + {#x#}\<rparr>"
    have st: "roll_step cfg s ?t"
      by (rule roll_step.submit[OF Holding]) (use assms(1,6) in \<open>auto simp: quiet_def\<close>)
    obtain u where u: "steps cfg ?t u" "core u = core ?t" "quiet u" using quiesce[of cfg ?t] assms(2,4) by auto
    have "steps cfg u (u\<lparr>proc := Waiting\<rparr>)"
      by (rule checking_to_waiting[OF _ u(3) assms(4,5)]) (use u(2) in \<open>simp add: core_def\<close>)
    then have "steps cfg s (u\<lparr>proc := Waiting\<rparr>)"
      using u(1) st by (meson converse_rtranclp_into_rtranclp rtranclp_trans)
    then show ?thesis using u(2) by (intro exI[of _ "u\<lparr>proc := Waiting\<rparr>"]) (simp add: core_def left_to_feed_def)
  qed (use assms(3) in auto)
qed

lemma waiting_takes:
  assumes "proc s = Waiting" "end_ok cfg s"
  shows "\<exists>s'. steps cfg s s' \<and> left_to_feed s' < left_to_feed s"
proof -
  have takes: "\<exists>t'. roll_step cfg t t' \<and> left_to_feed t' < left_to_feed t" if "proc t = Waiting" "pending t \<noteq> []" for t
  proof -
    obtain p rest where p: "pending t = p # rest" using \<open>pending t \<noteq> []\<close> by (cases "pending t") auto
    show ?thesis
    proof (cases p)
      case None
      then show ?thesis using roll_step.take_end[OF \<open>proc t = Waiting\<close>, of rest] p
        by (intro exI conjI) (assumption | simp add: left_to_feed_def p)+
    next
      case (Some x)
      then show ?thesis using roll_step.take_one[OF \<open>proc t = Waiting\<close>, of x rest] p
        by (intro exI conjI) (assumption | simp add: left_to_feed_def p)+
    qed
  qed
  show ?thesis
  proof (cases "pending s")
    case Nil
    then have open_end: "\<not> feed_ended s" using assms by (auto simp: end_ok_def)
    obtain t where t: "roll_step cfg s t" "proc t = Waiting" "pending t \<noteq> []" "left_to_feed t = left_to_feed s"
    proof (cases "feed_rest s")
      case Nil
      show thesis by (rule that[OF roll_step.feed_end[OF Nil open_end]])
        (use assms(1) open_end Nil \<open>pending s = []\<close> in \<open>auto simp: left_to_feed_def pending_size_def\<close>)
    next
      case (Cons x xs)
      show thesis by (rule that[OF roll_step.feed[OF Cons]])
        (use assms(1) Cons \<open>pending s = []\<close> in \<open>auto simp: left_to_feed_def pending_size_def\<close>)
    qed
    then show ?thesis using takes[OF t(2,3)] by (metis converse_rtranclp_into_rtranclp r_into_rtranclp)
  next
    case Cons
    then show ?thesis using takes[OF assms(1)] by (metis list.distinct(1) r_into_rtranclp)
  qed
qed

lemma finishing_stops:
  assumes "proc s \<in> {Finishing, Finished, Stopped}" "mq_ok (queue_limit cfg) (mqueue s)" "0 < queue_limit cfg"
  shows "\<exists>s'. steps cfg s s' \<and> proc s' = Stopped"
proof -
  obtain t where t: "steps cfg s t" "core t = core s" "quiet t" using quiesce[OF assms(2,3)] by blast
  have ok: "mq_ok (queue_limit cfg) (mqueue t)"
    using t(1) assms(2) by (induction rule: rtranclp_induct) (auto intro: roll_step_mq_ok[OF _ _ assms(3)])
  obtain b q where q: "put_sample None (mqueue t) = Inr (b, q)" using put_sample_mq_put[OF ok assms(3)] by (metis surj_pair)
  have fin: "\<exists>s'. steps cfg u s' \<and> proc s' = Stopped" if "proc u = Finished" "mqueue u = mqueue t" for u
    using roll_step.stop[of u b q cfg] that q by (intro exI[of _ "u\<lparr>proc := Stopped, mqueue := q\<rparr>"]) auto
  have proc: "proc t = proc s" using t(2) by (simp add: core_def)
  from assms(1) consider "proc s = Finishing" | "proc s = Finished" | "proc s = Stopped" by blast
  then show ?thesis
  proof cases
    case 1
    then have "roll_step cfg t (t\<lparr>proc := Finished\<rparr>)"
      using t(3) proc roll_step.finish[of t cfg] by (simp add: quiet_def)
    then show ?thesis using fin[of "t\<lparr>proc := Finished\<rparr>"] t(1)
      by simp (meson converse_rtranclp_into_rtranclp rtranclp_trans)
  next
    case 2
    then show ?thesis using fin[of t] t(1) proc by simp (meson rtranclp_trans)
  qed auto
qed

lemma can_stop:
  assumes "end_ok cfg s" "0 < queue_limit cfg" "0 < max_required_samples cfg" "0 < max_concurrent_samples cfg"
  shows "\<exists>s'. steps cfg s s' \<and> proc s' = Stopped"
  using assms(1)
proof (induction "left_to_feed s" arbitrary: s rule: less_induct)
  case less
  have ok: "mq_ok (queue_limit cfg) (mqueue s)" using less.prems by (simp add: end_ok_def)
  show ?case
  proof (cases "proc s \<in> {Finishing, Finished, Stopped}")
    case True
    then show ?thesis using finishing_stops ok assms(2) by blast
  next
    case False
    obtain t where t: "steps cfg s t" "core t = core s" "quiet t" using quiesce[OF ok assms(2)] by blast
    have okt: "mq_ok (queue_limit cfg) (mqueue t)" using steps_end_ok[OF t(1) less.prems assms(2)] by (simp add: end_ok_def)
    obtain u where u: "steps cfg t u" "proc u = Waiting" "left_to_feed u = left_to_feed t"
      using quiet_to_waiting[OF t(3) okt _ assms(2-4)] t(2) False by (auto simp: core_def)
    have end_u: "end_ok cfg u" using steps_end_ok[OF rtranclp_trans[OF t(1) u(1)] less.prems assms(2)] .
    obtain v where v: "steps cfg u v" "left_to_feed v < left_to_feed u" using waiting_takes[OF u(2) end_u] by blast
    have "left_to_feed v < left_to_feed s" using v(2) u(3) t(2) by (simp add: core_def left_to_feed_def)
    then obtain w where "steps cfg v w" "proc w = Stopped"
      using less.hyps[OF _ steps_end_ok[OF v(1) end_u assms(2)]] by blast
    then show ?thesis using t(1) u(1) v(1) by (meson rtranclp_trans)
  qed
qed


section \<open>Witnesses\<close>

lemma race_reached: obtains s where "reachable race_limits [1, 2, 3 :: nat] s" "dropped_samples (mqueue s) = 1"
  using reset_race_state by blast

theorem rollouter_conserves_samples_witness:
  "\<exists>s lost. reachable race_limits [1, 2, 3 :: nat] s
     \<and> to_feed s + in_flight s + mset (consumed s) + lost = {#Some 1, Some 2, Some 3, None#} \<and> size lost = 1"
proof -
  obtain s where s: "reachable race_limits [1, 2, 3 :: nat] s" "dropped_samples (mqueue s) = 1" by (rule race_reached)
  from rollouter_conserves_samples[OF s(1)] s show ?thesis by (auto simp: ac_simps)
qed

theorem staleness_bounded_witness:
  "\<exists>s. reachable race_limits [1, 2, 3 :: nat] s \<and> size (in_flight s) \<le> 3 \<and> length (queue (mqueue s)) \<le> 2"
proof -
  obtain s where s: "reachable race_limits [1, 2, 3 :: nat] s" by (rule race_reached)
  from staleness_bounded[OF s] s show ?thesis by auto
qed

theorem calm_never_drops_witness:
  "\<exists>s. calm race_limits [1, 2, 3 :: nat] s \<and> proc s \<noteq> Checking \<and> dropped_samples (mqueue s) = 0"
proof -
  define s0 where "s0 = rollouter_init race_limits [1, 2, 3 :: nat]"
  define t where "t = s0\<lparr>proc := Asked (get_queue_size (mqueue s0))\<rparr>"
  have "calm_step race_limits s0 t"
    unfolding calm_step_def t_def by (intro conjI roll_step.ask) (simp_all add: s0_def rollouter_init_def)
  then have c: "calm race_limits [1, 2, 3] t" using calm_more[OF calm_init] unfolding s0_def by blast
  have "dropped_samples (mqueue t) = 0" using calm_never_drops[OF c] by simp
  then show ?thesis using c by (intro exI[of _ t]) (simp add: t_def)
qed


end
