(* ===== verification/Frame_Superset.thy ===== *)
theory Frame_Superset
  imports Prelude
begin

text \<open>
  \<open>verl/verl/utils/dataset/frame_superset.py\<close>: the frame indices the teacher sees, a superset of
  the indices the student sampled, and the clamping of the indices by their caller,
  \<open>AgentLoopWorker._build_teacher_superset_inputs\<close>.  Indices are integers and the positions
  inside a gap and the ends of the evidence window are reals (the rounding of floats is not modelled).
\<close>

section \<open>The index sets\<close>

text \<open>\<open>sorted(set(xs))\<close>.\<close>

definition sorted_set :: "int list \<Rightarrow> int list" where
  "sorted_set xs = sort (remdups xs)"

text \<open>The evenly spread positions of the inserted frames that a budget keeps.\<close>

definition spread_positions :: "nat \<Rightarrow> nat \<Rightarrow> nat list" where
  "spread_positions n keep =
     map (\<lambda>i. nat (round_even (real i * real (n - 1) / real (keep - 1)))) [0..<keep]"

definition cap_keeping_student :: "int list \<Rightarrow> int list \<Rightarrow> int option \<Rightarrow> int list" where
  "cap_keeping_student S inserted max_frames =
     (case max_frames of
        None \<Rightarrow> sorted_set (S @ inserted)
      | Some m \<Rightarrow>
          if int (length S + length inserted) \<le> m then sorted_set (S @ inserted)
          else let keep = m - int (length S); n = length inserted in
            if keep \<le> 0 then S
            else let chosen = (if int n \<le> keep then inserted
                               else if 1 < keep then map (\<lambda>p. inserted ! p) (spread_positions n (nat keep))
                               else [inserted ! (n div 2)])
                 in sorted_set (S @ chosen))"

text \<open>
  \<open>round(a + gap * (k + 1) / (insert_per_gap + 1))\<close> for every \<open>k\<close>, without the frames the student
  has already.
\<close>

definition gap_position :: "int \<Rightarrow> int \<Rightarrow> int \<Rightarrow> int \<Rightarrow> int" where
  "gap_position insert_per_gap a b k =
     round_even (real_of_int a + real_of_int ((b - a) * (k + 1)) / real_of_int (insert_per_gap + 1))"

definition gap_inserts :: "int \<Rightarrow> int list \<Rightarrow> int \<times> int \<Rightarrow> int list" where
  "gap_inserts insert_per_gap S = (\<lambda>(a, b).
     if b - a \<le> 1 then []
     else filter (\<lambda>p. p \<notin> set S) (map (gap_position insert_per_gap a b) [0..insert_per_gap - 1]))"

definition gaps :: "int list \<Rightarrow> (int \<times> int) list" where
  "gaps S = zip (butlast S) (tl S)"

definition build_superset_indices :: "int list \<Rightarrow> int \<Rightarrow> int option \<Rightarrow> int list" where
  "build_superset_indices student_indices insert_per_gap max_frames =
     (let S = sorted_set student_indices in
      if S = [] then []
      else if insert_per_gap \<le> 0 then cap_keeping_student S [] max_frames
      else cap_keeping_student S (sorted_set (concat (map (gap_inserts insert_per_gap S) (gaps S)))) max_frames)"

definition in_window :: "real \<Rightarrow> real \<Rightarrow> int \<times> int \<Rightarrow> bool" where
  "in_window lo hi = (\<lambda>(a, b). let mid = real_of_int (a + b) / 2 in lo \<le> mid \<and> mid \<le> hi)"

definition build_span_directed_indices ::
  "int list \<Rightarrow> int \<Rightarrow> (real \<times> real) option \<Rightarrow> int \<Rightarrow> int option \<Rightarrow> int list" where
  "build_span_directed_indices student_indices n_total evidence_span insert_per_gap max_frames =
     (case evidence_span of
        None \<Rightarrow> build_superset_indices student_indices insert_per_gap max_frames
      | Some (s_rel, e_rel) \<Rightarrow>
          let S = sorted_set student_indices in
          if S = [] then []
          else if insert_per_gap \<le> 0 then cap_keeping_student S [] max_frames
          else if \<not> (0 \<le> s_rel \<and> s_rel < e_rel \<and> e_rel \<le> 10001 / 10000)
          then build_superset_indices S insert_per_gap max_frames
          else let lo = s_rel * real_of_int (max n_total 1); hi = e_rel * real_of_int (max n_total 1)
               in cap_keeping_student S
                    (sorted_set (concat (map (gap_inserts insert_per_gap S) (filter (in_window lo hi) (gaps S)))))
                    max_frames)"

text \<open>
  The caller: the span when the sample carries one, then every index clamped into the decoded video.
\<close>

definition teacher_frame_indices ::
  "int list \<Rightarrow> int \<Rightarrow> (real \<times> real) option \<Rightarrow> int \<Rightarrow> int option \<Rightarrow> int list" where
  "teacher_frame_indices student_indices n_total answer_span insert_per_gap max_frames =
     (let T = build_superset_indices student_indices insert_per_gap max_frames;
          T' = (case answer_span of
                  None \<Rightarrow> T
                | Some sp \<Rightarrow> build_span_directed_indices student_indices n_total (Some sp) insert_per_gap max_frames)
      in map (\<lambda>idx. min (max 0 idx) (n_total - 1)) T')"

section \<open>Sorted sets\<close>

lemma set_sorted_set [simp]: "set (sorted_set xs) = set xs"
  by (simp add: sorted_set_def)

lemma sorted_sorted_set [simp]: "sorted (sorted_set xs)"
  by (simp add: sorted_set_def)

lemma distinct_sorted_set [simp]: "distinct (sorted_set xs)"
  by (simp add: sorted_set_def)

lemma sorted_set_idem [simp]: "sorted_set (sorted_set xs) = sorted_set xs"
  by (rule sorted_distinct_set_unique) simp_all

lemma sorted_set_fixed: "sorted xs \<Longrightarrow> distinct xs \<Longrightarrow> sorted_set xs = xs"
  by (simp add: sorted_distinct_set_unique)

lemma sorted_set_Nil [simp]: "sorted_set xs = [] \<longleftrightarrow> xs = []"
  by (metis set_empty set_sorted_set)

lemma length_sorted_set: "length (sorted_set xs) = card (set xs)"
  by (metis distinct_card distinct_sorted_set set_sorted_set)

lemma length_sorted_set_append:
  "distinct xs \<Longrightarrow> distinct ys \<Longrightarrow> set xs \<inter> set ys = {} \<Longrightarrow> length (sorted_set (xs @ ys)) = length xs + length ys"
  by (simp add: length_sorted_set card_Un_disjoint distinct_card)

section \<open>The budget\<close>

lemma spread_positions:
  assumes "1 < keep" "keep < n"
  shows "sorted_wrt (<) (spread_positions n keep)" and "\<And>p. p \<in> set (spread_positions n keep) \<Longrightarrow> p < n"
    and "length (spread_positions n keep) = keep"
proof -
  define step where "step = real (n - 1) / real (keep - 1)"
  have step: "1 < step" unfolding step_def using assms by simp
  have pos: "spread_positions n keep = map (\<lambda>i. nat (round_even (real i * step))) [0..<keep]"
    by (simp add: spread_positions_def step_def)
  have nonneg: "0 \<le> round_even (real i * step)" for i
    using round_even_mono[of 0 "real i * step"] round_even_of_int[of 0] step by simp
  have less: "round_even (real i * step) < round_even (real j * step)" if "i < j" for i j
  proof -
    have "step \<le> (real j - real i) * step" using that step by simp
    then show ?thesis using step by (intro round_even_less) (simp add: algebra_simps)
  qed
  show "sorted_wrt (<) (spread_positions n keep)"
    unfolding pos sorted_wrt_map
  proof (rule sorted_wrt_mono_rel[OF _ sorted_wrt_upt])
    fix i j :: nat
    assume "i < j"
    then show "nat (round_even (real i * step)) < nat (round_even (real j * step))"
      using less[of i j] nonneg[of i] by simp
  qed
  show "p < n" if p: "p \<in> set (spread_positions n keep)" for p
  proof -
    from p pos obtain i where i: "i < keep" "p = nat (round_even (real i * step))" by auto
    have "real i * step \<le> real (keep - 1) * step" using i(1) step by (intro mult_right_mono) auto
    also have "\<dots> = real_of_int (int (n - 1))" using assms by (simp add: step_def)
    finally have "round_even (real i * step) \<le> int (n - 1)"
      using round_even_mono round_even_of_int by metis
    then show ?thesis using i(2) assms by simp
  qed
  show "length (spread_positions n keep) = keep" by (simp add: spread_positions_def)
qed

lemma spread_choice:
  assumes "1 < keep" "keep < length xs" "distinct xs"
  defines "ys \<equiv> map (\<lambda>p. xs ! p) (spread_positions (length xs) keep)"
  shows "distinct ys" "set ys \<subseteq> set xs" "length ys = keep"
proof -
  note sp = spread_positions[OF assms(1,2)]
  have "distinct (spread_positions (length xs) keep)"
    using sp(1) strict_sorted_iff by blast
  then show "distinct ys"
    unfolding ys_def distinct_map using sp(2) assms(3) by (auto intro: inj_on_nth)
  show "set ys \<subseteq> set xs" unfolding ys_def using sp(2) by auto
  show "length ys = keep" unfolding ys_def using sp(3) by simp
qed

lemma cap_keeping_student:
  fixes mf :: "int option"
  assumes S: "sorted S" "distinct S" and ins: "distinct ins" "set S \<inter> set ins = {}"
  defines "T \<equiv> cap_keeping_student S ins mf"
  shows "sorted T \<and> distinct T \<and> set S \<subseteq> set T \<and> set T \<subseteq> set S \<union> set ins
    \<and> int (length T) = (case mf of None \<Rightarrow> int (length S + length ins)
                        | Some m \<Rightarrow> min (int (length S + length ins)) (max (int (length S)) m))"
proof (cases mf)
  case None
  then show ?thesis by (simp add: T_def cap_keeping_student_def length_sorted_set_append S ins)
next
  case (Some m)
  define keep where "keep = m - int (length S)"
  define chosen where
    "chosen = (if 1 < keep then map (\<lambda>p. ins ! p) (spread_positions (length ins) (nat keep)) else [ins ! (length ins div 2)])"
  consider "int (length S + length ins) \<le> m" | "m < int (length S + length ins)" "keep \<le> 0"
    | "m < int (length S + length ins)" "0 < keep" by linarith
  then show ?thesis
  proof cases
    case 3
    then have keep: "nat keep < length ins" "ins \<noteq> []" "int (length S) + keep = m" by (auto simp: keep_def)
    have ch: "distinct chosen \<and> set chosen \<subseteq> set ins \<and> int (length chosen) = keep"
    proof (cases "1 < keep")
      case True
      then show ?thesis using spread_choice[of "nat keep" ins] keep ins by (simp add: chosen_def)
    next
      case False
      then show ?thesis using 3 keep by (simp add: chosen_def)
    qed
    have T: "T = sorted_set (S @ chosen)"
      using 3 keep by (simp add: T_def Some cap_keeping_student_def chosen_def keep_def Let_def)
    have "length T = length S + length chosen"
      unfolding T using ch ins S by (intro length_sorted_set_append) auto
    then show ?thesis using ch T keep(3) 3 by (auto simp: Some)
  qed (auto simp: T_def Some cap_keeping_student_def keep_def Let_def length_sorted_set_append S ins)
qed

section \<open>The gaps\<close>

lemma gaps_adjacent:
  assumes "sorted S" "distinct S" "(a, b) \<in> set (gaps S)"
  shows "a \<in> set S" "b \<in> set S" "a < b" "\<And>s. s \<in> set S \<Longrightarrow> s \<le> a \<or> b \<le> s"
proof -
  obtain i where "i < length (gaps S)" "gaps S ! i = (a, b)"
    using assms(3) by (metis in_set_conv_nth)
  then have i: "Suc i < length S" "a = S ! i" "b = S ! Suc i"
    by (simp_all add: gaps_def nth_butlast nth_tl)
  have strict: "sorted_wrt (<) S" using assms(1,2) by (simp add: strict_sorted_iff)
  show "a \<in> set S" "b \<in> set S" using i by auto
  show "a < b" using strict i by (simp add: sorted_wrt_nth_less)
  show "s \<le> a \<or> b \<le> s" if "s \<in> set S" for s
  proof -
    from that obtain j where j: "j < length S" "s = S ! j" by (auto simp: in_set_conv_nth)
    then show ?thesis using i assms(1) by (cases "j \<le> i") (auto simp: sorted_nth_mono)
  qed
qed

lemma gap_position_between:
  assumes "a < b" "0 \<le> k" "k < r"
  shows "a \<le> gap_position r a b k \<and> gap_position r a b k \<le> b"
proof -
  have "real_of_int (k + 1) / real_of_int (r + 1) \<le> 1" "0 \<le> real_of_int (k + 1) / real_of_int (r + 1)"
    using assms by simp_all
  moreover have "0 \<le> real_of_int (b - a)" using assms by simp
  ultimately have "0 \<le> real_of_int (b - a) * (real_of_int (k + 1) / real_of_int (r + 1))
      \<and> real_of_int (b - a) * (real_of_int (k + 1) / real_of_int (r + 1)) \<le> real_of_int (b - a) * 1"
    using mult_nonneg_nonneg mult_left_mono by blast
  then show ?thesis unfolding gap_position_def
    by (intro round_even_between) (simp_all add: algebra_simps)
qed

lemma gap_inserts_between:
  assumes "sorted S" "distinct S" "g \<in> set (gaps S)" "p \<in> set (gap_inserts r S g)"
  shows "0 < r" "p \<notin> set S" "fst g < p" "p < snd g"
proof -
  obtain a b where g: "g = (a, b)" by (cases g)
  note adj = gaps_adjacent[OF assms(1,2)] and p = assms(4)[unfolded g gap_inserts_def]
  then obtain k where k: "0 \<le> k" "k < r" "p = gap_position r a b k" "p \<notin> set S" "\<not> b - a \<le> 1"
    by (auto split: if_splits)
  have "a \<in> set S" "b \<in> set S" "a < b" using adj(1-3)[of a b] assms(3) g by simp_all
  then have "a \<le> p \<and> p \<le> b" "p \<noteq> a" "p \<noteq> b" using gap_position_between k by auto
  then show "0 < r" "p \<notin> set S" "fst g < p" "p < snd g" using k by (simp_all add: g)
qed

section \<open>The teacher's frames\<close>

text \<open>
  Both constructions fill some gaps \<open>gs\<close> of the student's frames, all of them or those whose
  midpoint lies in the window, and apply the budget.
\<close>

lemma filled_gaps:
  fixes mf :: "int option" and r :: int
  assumes gs: "set gs \<subseteq> set (gaps (sorted_set xs))"
  defines "S \<equiv> sorted_set xs"
  defines "ins \<equiv> sorted_set (concat (map (gap_inserts r S) gs))"
  defines "T \<equiv> cap_keeping_student S ins mf"
  shows "sorted T" "distinct T" "set xs \<subseteq> set T"
    "\<And>t. t \<in> set T - set xs \<Longrightarrow> \<exists>g\<in>set gs. fst g < t \<and> t < snd g"
    "int (length T) = (case mf of None \<Rightarrow> int (length S + length ins)
                        | Some m \<Rightarrow> min (int (length S + length ins)) (max (int (length S)) m))"
proof -
  have ins: "\<exists>g\<in>set gs. fst g < t \<and> t < snd g \<and> t \<notin> set S" if t: "t \<in> set ins" for t
  proof -
    obtain g where g: "g \<in> set gs" "t \<in> set (gap_inserts r S g)"
      using t unfolding ins_def set_sorted_set set_concat set_map by blast
    then have "g \<in> set (gaps S)" using gs by (auto simp: S_def)
    from gap_inserts_between[OF _ _ this g(2)] show ?thesis using g(1) by (auto simp: S_def)
  qed
  then have disj: "set S \<inter> set ins = {}" by blast
  have cap: "sorted T \<and> distinct T \<and> set S \<subseteq> set T \<and> set T \<subseteq> set S \<union> set ins
    \<and> int (length T) = (case mf of None \<Rightarrow> int (length S + length ins)
                        | Some m \<Rightarrow> min (int (length S + length ins)) (max (int (length S)) m))"
    unfolding T_def by (rule cap_keeping_student) (use disj in \<open>simp_all add: S_def ins_def\<close>)
  then show "sorted T" "distinct T" "set xs \<subseteq> set T"
    "int (length T) = (case mf of None \<Rightarrow> int (length S + length ins)
                        | Some m \<Rightarrow> min (int (length S + length ins)) (max (int (length S)) m))"
    by (auto simp: S_def)
  show "\<exists>g\<in>set gs. fst g < t \<and> t < snd g" if "t \<in> set T - set xs" for t
  proof -
    have "t \<in> set ins" using that cap by (auto simp: S_def)
    then show ?thesis using ins by blast
  qed
qed

text \<open>The gaps a call fills: none, all, or those in the window.\<close>

definition filled :: "int list \<Rightarrow> int \<Rightarrow> (real \<times> real) option \<Rightarrow> int \<Rightarrow> (int \<times> int) list" where
  "filled xs n_total evidence_span r =
     (if r \<le> 0 then []
      else case evidence_span of
        None \<Rightarrow> gaps (sorted_set xs)
      | Some (s, e) \<Rightarrow>
          if 0 \<le> s \<and> s < e \<and> e \<le> 10001 / 10000
          then filter (in_window (s * real_of_int (max n_total 1)) (e * real_of_int (max n_total 1))) (gaps (sorted_set xs))
          else gaps (sorted_set xs))"

lemma set_filled: "set (filled xs n sp r) \<subseteq> set (gaps (sorted_set xs))"
  by (auto simp: filled_def split: option.splits if_splits)

lemma build_uniform_filled:
  "build_superset_indices xs r mf =
     cap_keeping_student (sorted_set xs) (sorted_set (concat (map (gap_inserts r (sorted_set xs)) (filled xs n None r)))) mf"
  by (cases mf) (auto simp: build_superset_indices_def filled_def cap_keeping_student_def gaps_def sorted_set_def Let_def)

lemma build_span_filled:
  "build_span_directed_indices xs n sp r mf =
     cap_keeping_student (sorted_set xs) (sorted_set (concat (map (gap_inserts r (sorted_set xs)) (filled xs n sp r)))) mf"
proof (cases sp)
  case None
  then show ?thesis by (simp add: build_span_directed_indices_def build_uniform_filled[where n = n])
next
  case (Some se)
  obtain s e where se: "se = (s, e)" by (cases se)
  have empty: "cap_keeping_student [] (sorted_set (concat (map f (filter P (gaps []))))) mf = []" for f P
    by (cases mf) (auto simp: cap_keeping_student_def gaps_def sorted_set_def)
  show ?thesis
  proof (cases "0 < r \<and> 0 \<le> s \<and> s < e \<and> e \<le> 10001 / 10000")
    case True
    have "sorted_set [] = []" by (simp add: sorted_set_def)
    with True show ?thesis using empty[of "gap_inserts r []"]
      by (cases "xs = []") (simp_all add: sorted_set_def[of "[]"] build_span_directed_indices_def Some se filled_def Let_def)
  next
    case False
    then have "build_span_directed_indices xs n sp r mf = build_superset_indices (sorted_set xs) r mf"
      by (auto simp: build_span_directed_indices_def Some se Let_def build_superset_indices_def)
    moreover have "filled xs n sp r = filled (sorted_set xs) n None r"
      using False by (auto simp: filled_def Some se)
    ultimately show ?thesis by (simp add: build_uniform_filled[where n = n])
  qed
qed

text \<open>
  C26. The frames of the teacher contain the student's, come in increasing order without repetition, and
  every other frame lies strictly between two frames that are adjacent for the student, in a gap
  whose midpoint is in the evidence window when the sample has one.  A budget that holds the
  student's frames bounds their number, and is used up when frames had to be dropped.
\<close>

theorem teacher_frames_superset:
  assumes T: "T = build_span_directed_indices student n_total evidence_span r max_frames"
  shows "sorted T \<and> distinct T \<and> set student \<subseteq> set T
    \<and> (\<forall>t\<in>set T - set student. 0 < r \<and> (\<exists>a\<in>set student. \<exists>b\<in>set student. a < t \<and> t < b
         \<and> (\<forall>s\<in>set student. s \<le> a \<or> b \<le> s)
         \<and> (\<forall>s e. evidence_span = Some (s, e) \<and> 0 \<le> s \<and> s < e \<and> e \<le> 1 \<longrightarrow>
              s * real_of_int (max n_total 1) \<le> real_of_int (a + b) / 2
              \<and> real_of_int (a + b) / 2 \<le> e * real_of_int (max n_total 1))))
    \<and> (\<forall>m. max_frames = Some m \<and> int (card (set student)) \<le> m \<longrightarrow>
         int (length T) = min m (int (length (build_span_directed_indices student n_total evidence_span r None))))"
proof -
  note fg = filled_gaps[where gs = "filled student n_total evidence_span r" and xs = student and r = r,
      OF set_filled, folded build_span_filled]
  have between: "0 < r \<and> (\<exists>a\<in>set student. \<exists>b\<in>set student. a < t \<and> t < b
         \<and> (\<forall>s\<in>set student. s \<le> a \<or> b \<le> s)
         \<and> (\<forall>s e. evidence_span = Some (s, e) \<and> 0 \<le> s \<and> s < e \<and> e \<le> 1 \<longrightarrow>
              s * real_of_int (max n_total 1) \<le> real_of_int (a + b) / 2
              \<and> real_of_int (a + b) / 2 \<le> e * real_of_int (max n_total 1)))"
    if t: "t \<in> set T - set student" for t
  proof -
    obtain a b where g: "(a, b) \<in> set (filled student n_total evidence_span r)" "a < t" "t < b"
      using fg(4)[of t max_frames] t unfolding T by (metis prod.collapse)
    have "0 < r" using g(1) by (auto simp: filled_def split: if_splits)
    moreover have "(a, b) \<in> set (gaps (sorted_set student))" using g(1) set_filled by blast
    from gaps_adjacent[OF sorted_sorted_set distinct_sorted_set this]
    have "a \<in> set student" "b \<in> set student" "\<forall>s\<in>set student. s \<le> a \<or> b \<le> s" by simp_all
    moreover have "\<forall>s e. evidence_span = Some (s, e) \<and> 0 \<le> s \<and> s < e \<and> e \<le> 1 \<longrightarrow>
              s * real_of_int (max n_total 1) \<le> real_of_int (a + b) / 2
              \<and> real_of_int (a + b) / 2 \<le> e * real_of_int (max n_total 1)"
      using g(1) by (auto simp: filled_def in_window_def Let_def split: if_splits)
    ultimately show ?thesis using g(2,3) by blast
  qed
  have "int (length T) = min m (int (length (build_span_directed_indices student n_total evidence_span r None)))"
    if "max_frames = Some m" "int (card (set student)) \<le> m" for m
    using fg(5)[of max_frames] fg(5)[of None] that by (simp add: T length_sorted_set min.commute)
  then show ?thesis using fg(1-3)[of max_frames] between T by blast
qed

theorem teacher_frames_superset_witness:
  "[0, 5, 10, 20] = build_span_directed_indices [20, 0, 10, 0] 40 (Some (0, 1 / 4)) 1 (Some 8)
    \<and> sorted [0, 5, 10, 20 :: int] \<and> set [20, 0, 10, 0] \<subseteq> set [0, 5, 10, 20 :: int]"
proof -
  have "gap_position 1 0 10 0 = 5" using round_even_of_int[of 5] by (simp add: gap_position_def)
  then have "[0, 5, 10, 20] = build_span_directed_indices [20, 0, 10, 0] 40 (Some (0, 1 / 4)) 1 (Some 8)"
    by (simp add: build_span_directed_indices_def sorted_set_def gaps_def in_window_def gap_inserts_def
        cap_keeping_student_def)
  then show ?thesis using teacher_frames_superset[of "[0, 5, 10, 20]" "[20, 0, 10, 0]" 40 "Some (0, 1 / 4)" 1 "Some 8"]
    by blast
qed

text \<open>
  A window that lies beside the midpoint of the only gap it meets densifies nothing, and a gap whose
  midpoint is in the window receives frames outside the window.
\<close>

theorem span_window_missed:
  "build_span_directed_indices [0, 100] 100 (Some (1 / 10, 2 / 5)) 3 None = [0, 100]
    \<and> build_span_directed_indices [0, 100] 100 (Some (2 / 5, 3 / 5)) 3 None = [0, 25, 50, 75, 100]"
proof -
  have "gap_position 3 0 100 0 = 25" "gap_position 3 0 100 1 = 50" "gap_position 3 0 100 2 = 75"
    using round_even_of_int[of 25] round_even_of_int[of 50] round_even_of_int[of 75] by (simp_all add: gap_position_def)
  moreover have "[0..2] = [0, 1, 2 :: int]" by (simp add: upto_rec1)
  ultimately show ?thesis
    by (simp add: build_span_directed_indices_def sorted_set_def gaps_def in_window_def gap_inserts_def
        cap_keeping_student_def)
qed

section \<open>The shuffled negative view\<close>

text \<open>
  \<open>AgentLoopWorker._build_neg_view_inputs\<close> with mode \<open>shuffle\<close>: the frames of the video number
  \<open>vid_idx\<close> in the order of a fixed stride, or reversed when the stride repeats a frame.
\<close>

definition shuffle_perm :: "nat \<Rightarrow> nat \<Rightarrow> nat list" where
  "shuffle_perm n_frames vid_idx =
     (let stride = (if n_frames mod 7 \<noteq> 0 then 7 else 5);
          perm = map (\<lambda>i. (i * stride + vid_idx) mod n_frames) [0..<n_frames]
      in if card (set perm) \<noteq> n_frames then rev [0..<n_frames] else perm)"

definition shuffle_frames :: "nat \<Rightarrow> 'f list \<Rightarrow> 'f list" where
  "shuffle_frames vid_idx stu_tensor =
     (if 1 < length stu_tensor
      then map (\<lambda>i. stu_tensor ! i) (shuffle_perm (length stu_tensor) vid_idx)
      else stu_tensor)"

lemma shuffle_perm_mset: "0 < n \<Longrightarrow> mset (shuffle_perm n v) = mset [0..<n]"
proof -
  assume n: "0 < n"
  define stride :: nat where "stride = (if n mod 7 \<noteq> 0 then 7 else 5)"
  define perm where "perm = map (\<lambda>i. (i * stride + v) mod n) [0..<n]"
  have sp: "shuffle_perm n v = (if card (set perm) \<noteq> n then rev [0..<n] else perm)"
    by (simp add: shuffle_perm_def perm_def stride_def Let_def)
  have "mset perm = mset [0..<n]" if "card (set perm) = n"
  proof -
    have "set perm \<subseteq> {0..<n}" using n by (auto simp: perm_def)
    then have "set perm = {0..<n}" using that by (intro card_subset_eq) auto
    moreover have "distinct perm" by (rule card_distinct) (use that in \<open>simp add: perm_def\<close>)
    ultimately show ?thesis by (intro set_eq_iff_mset_eq_distinct[THEN iffD1]) auto
  qed
  then show ?thesis by (simp add: sp)
qed

lemma shuffle_perm_identity:
  assumes "1 < n"
  shows "shuffle_perm n v = [0..<n] \<longleftrightarrow> n dvd 6 \<and> n dvd v"
proof
  assume id: "shuffle_perm n v = [0..<n]"
  define stride :: nat where "stride = (if n mod 7 \<noteq> 0 then 7 else 5)"
  define perm where "perm = map (\<lambda>i. (i * stride + v) mod n) [0..<n]"
  have sp: "shuffle_perm n v = (if card (set perm) \<noteq> n then rev [0..<n] else perm)"
    by (simp add: shuffle_perm_def perm_def stride_def Let_def)
  have "rev [0..<n] ! 0 \<noteq> [0..<n] ! 0" using assms by (simp add: rev_nth)
  then have perm: "perm = [0..<n]" using id sp by (metis (full_types))
  then have eq: "(i * stride + v) mod n = i" if "i < n" for i
  proof -
    have "perm ! i = [0..<n] ! i" by (simp only: perm)
    then show ?thesis using that by (simp add: perm_def)
  qed
  have v: "n dvd v" using eq[of 0] assms by (simp add: mod_eq_0_iff_dvd)
  then have "stride mod n = 1" using eq[of 1] assms by (metis mod_add_right_eq add.right_neutral dvd_imp_mod_0 mult_1)
  then have "n dvd stride - 1" using assms by (metis dvd_minus_mod)
  moreover have "\<not> (n mod 7 = 0 \<and> n dvd 4)"
    using assms by (auto dest!: dvd_imp_le simp: mod_eq_0_iff_dvd)
  ultimately show "n dvd 6 \<and> n dvd v" using v by (auto simp: stride_def split: if_splits)
next
  assume dvd: "n dvd 6 \<and> n dvd v"
  then have "n \<le> 6" by (auto dest: dvd_imp_le)
  then have "n mod 7 \<noteq> 0" using assms by simp
  moreover have "(i * 7 + v) mod n = i" if "i < n" for i
  proof -
    have "(i * 7 + v) mod n = (i + (i * 6 + v)) mod n" by (simp add: algebra_simps)
    also have "\<dots> = i mod n" using dvd by (metis dvd_add dvd_mult mod_add_right_eq dvd_imp_mod_0 add.right_neutral)
    finally show ?thesis using that by simp
  qed
  then have perm: "map (\<lambda>i. (i * 7 + v) mod n) [0..<n] = [0..<n]" by (intro map_idI) simp
  moreover have "card (set (map (\<lambda>i. (i * 7 + v) mod n) [0..<n])) = n" unfolding perm by simp
  ultimately show "shuffle_perm n v = [0..<n]" unfolding shuffle_perm_def Let_def by simp
qed

text \<open>
  The negative view has the frames of the positive one, and another order except for a video of
  one, two, three or six frames whose number is a multiple of its length: there it is the positive view.
\<close>

theorem shuffle_frames_order:
  assumes "distinct frames" "frames \<noteq> []"
  shows "mset (shuffle_frames v frames) = mset frames
    \<and> (shuffle_frames v frames = frames \<longleftrightarrow> length frames = 1 \<or> length frames dvd 6 \<and> length frames dvd v)"
proof (cases "1 < length frames")
  case True
  have "mset (shuffle_frames v frames) = image_mset (\<lambda>i. frames ! i) (mset [0..<length frames])"
    using True shuffle_perm_mset[of "length frames" v] less_trans[OF zero_less_one True]
    by (simp add: shuffle_frames_def del: mset_upt)
  also have "\<dots> = mset (map (\<lambda>i. frames ! i) [0..<length frames])" by (simp only: mset_map)
  finally have m: "mset (shuffle_frames v frames) = mset frames" by (simp add: map_nth)
  have len: "set (shuffle_perm (length frames) v) = {0..<length frames}"
    using shuffle_perm_mset[of "length frames" v] True by (metis set_mset_mset set_upt less_trans zero_less_one)
  have "shuffle_frames v frames = frames \<longleftrightarrow> map (\<lambda>i. frames ! i) (shuffle_perm (length frames) v) = map (\<lambda>i. frames ! i) [0..<length frames]"
    using True by (simp add: shuffle_frames_def map_nth)
  also have "\<dots> \<longleftrightarrow> shuffle_perm (length frames) v = [0..<length frames]"
    by (intro inj_on_map_eq_map inj_on_nth) (use assms(1) len in auto)
  finally show ?thesis using m shuffle_perm_identity[OF True] True by auto
next
  case False
  then have "length frames = 1" using assms(2) by (cases frames) auto
  then show ?thesis by (simp add: shuffle_frames_def)
qed

theorem shuffle_frames_order_witness:
  "mset (shuffle_frames 0 ''abcdef'') = mset ''abcdef''
    \<and> (shuffle_frames 0 ''abcdef'' = ''abcdef'') = (length ''abcdef'' = 1 \<or> length ''abcdef'' dvd 6 \<and> length ''abcdef'' dvd (0 :: nat))"
  by (rule shuffle_frames_order) simp_all

end
