(* ===== verification/Teacher_Views.thy ===== *)
theory Teacher_Views
  imports Evidence_Gating
begin

text \<open>
  The teacher's side of a sample: the log-probabilities a server reports for a prompt
  (\<open>verl/verl/workers/rollout/vllm_rollout/utils.py\<close>, \<open>.../sglang_rollout/async_sglang_server.py\<close>),
  their alignment with the student's sequence
  (\<open>verl/verl/experimental/teacher_loop/teacher_manager.py\<close>) and the views of a sample that
  \<open>AgentLoopWorker._compute_teacher_logprobs\<close> asks for.  The inference servers and the builders of the
  prompts of the views are arguments.  A two-dimensional tensor is the list of its rows, all of one width.
\<close>

section \<open>The log-probabilities of a prompt\<close>

text \<open>vLLM: for every position but the first a dictionary from token to log-probability and rank.\<close>

record vllm_logprob =
  vl_logprob :: real
  vl_rank :: nat

type_synonym vllm_position = "(int \<times> vllm_logprob) list"
type_synonym 'a rows = "'a list list"

text \<open>\<open>xs[rank - 1]\<close>: rank 0 would address the last place.\<close>

definition rank_place :: "nat \<Rightarrow> nat \<Rightarrow> nat" where
  "rank_place k rank = (if rank = 0 then k - 1 else rank - 1)"

definition place_ranked ::
  "nat \<Rightarrow> int \<times> vllm_logprob \<Rightarrow> int option list \<times> real option list \<Rightarrow> int option list \<times> real option list" where
  "place_ranked k = (\<lambda>(token_id, l) (ids, lps).
     if k < vl_rank l then (ids, lps)
     else (ids[rank_place k (vl_rank l) := Some token_id], lps[rank_place k (vl_rank l) := Some (vl_logprob l)]))"

definition extract_position :: "nat \<Rightarrow> vllm_position option \<Rightarrow> (int option list \<times> real option list) res" where
  "extract_position k pos =
     (case pos of
        None \<Rightarrow> Inl (if k = 0 then AttributeError else TypeError)
      | Some d \<Rightarrow>
          if k = 0 then (case d of [] \<Rightarrow> Inl IndexError | (t, l) # _ \<Rightarrow> Inr ([Some t], [Some (vl_logprob l)]))
          else require (length d = k \<or> length d = k + 1) AssertionError
                 (Inr (fold (place_ranked k) d (replicate k None, replicate k None))))"

definition extract_prompt_logprobs ::
  "vllm_position option list \<Rightarrow> nat option \<Rightarrow> (int option rows \<times> real option rows) option res" where
  "extract_prompt_logprobs prompt_logprobs num_prompt_logprobs =
     (case num_prompt_logprobs of
        None \<Rightarrow> Inr None
      | Some k \<Rightarrow>
          bind_res (map_res (extract_position k) (tl prompt_logprobs)) (\<lambda>ps.
          Inr (Some (map fst ps @ [replicate (max k 1) (Some 0)], map snd ps @ [replicate (max k 1) (Some 0)]))))"

text \<open>
  SGLang: the log-probability of every token (none for the first) and, for a positive number of
  log-probabilities, the best tokens of every position in the order of their rank.
\<close>

definition py_float :: "real option \<Rightarrow> real res" where
  "py_float x = (case x of None \<Rightarrow> Inl TypeError | Some r \<Rightarrow> Inr r)"

definition sglang_position ::
  "nat \<Rightarrow> (real option \<times> int) list \<Rightarrow> (real option \<times> int) list option list \<Rightarrow> nat
    \<Rightarrow> (int option list \<times> real option list) res" where
  "sglang_position k toks tops position =
     (if k = 0 then
        (case toks ! position of (lp, token_id) \<Rightarrow>
           bind_res (py_float lp) (\<lambda>r. Inr ([Some token_id], [Some r])))
      else if length tops \<le> position then Inl IndexError
      else (case tops ! position of
              None \<Rightarrow> Inl TypeError
            | Some entries \<Rightarrow>
                bind_res (map_res (\<lambda>e. py_float (fst e)) entries) (\<lambda>lps.
                require (length entries = k) AssertionError
                  (Inr (map (\<lambda>e. Some (snd e)) entries, map Some lps)))))"

definition extract_prompt_logprobs_sglang ::
  "(real option \<times> int) list \<Rightarrow> (real option \<times> int) list option list \<Rightarrow> nat \<Rightarrow> nat
    \<Rightarrow> (int option rows \<times> real option rows) res" where
  "extract_prompt_logprobs_sglang input_token_logprobs input_top_logprobs k sequence_length =
     bind_res (map_res (sglang_position k input_token_logprobs input_top_logprobs)
                 [1..<length input_token_logprobs]) (\<lambda>ps.
     let ids = map fst ps @ [replicate (max k 1) (Some 0)];
         lps = map snd ps @ [replicate (max k 1) (Some 0)]
     in require (length ids = sequence_length) AssertionError (Inr (ids, lps)))"

text \<open>\<open>torch.tensor\<close> of the rows: a missing entry or rows of several widths are refused.\<close>

definition to_tensor :: "'a option rows \<Rightarrow> 'a rows res" where
  "to_tensor rows =
     require (\<forall>r\<in>set rows. length r = length (hd rows)) ValueError
       (require (\<forall>r\<in>set rows. None \<notin> set r) TypeError (Inr (map (map the) rows)))"

section \<open>The teacher manager\<close>

definition resolve_teacher_key :: "(string \<times> 'c) list \<Rightarrow> string option \<Rightarrow> string res" where
  "resolve_teacher_key teacher_model_configs routing_key =
     (let normal_teachers = filter (\<lambda>kv. fst kv \<noteq> ''exopd_base'') teacher_model_configs in
      case routing_key of
        Some k \<Rightarrow>
          if k \<in> fst ` set teacher_model_configs then Inr k
          else if length normal_teachers = 1 then Inr (fst (hd normal_teachers))
          else if k \<notin> fst ` set normal_teachers then Inl ValueError
          else Inr k
      | None \<Rightarrow> if length normal_teachers = 1 then Inr (fst (hd normal_teachers)) else Inl ValueError)"

definition teacher_sampling_logprobs :: "real \<Rightarrow> bool \<Rightarrow> nat \<Rightarrow> nat res" where
  "teacher_sampling_logprobs temperature use_topk topk =
     require (temperature = 1) NotImplementedError (Inr (if use_topk then topk else 0))"

text \<open>
  The response part of the server's rows behind a prompt part of the student's length.  Both results are
  two-dimensional: the server's rows always hold the trailing dummy row.
\<close>

definition align_response ::
  "int rows \<Rightarrow> real rows \<Rightarrow> int list \<Rightarrow> nat option \<Rightarrow> (int rows \<times> real rows) res" where
  "align_response teacher_ids teacher_logprobs align_ids response_length =
     (case response_length of
        None \<Rightarrow> Inr (teacher_ids, teacher_logprobs)
      | Some r \<Rightarrow>
          if length teacher_ids = length align_ids then Inr (teacher_ids, teacher_logprobs)
          else require (r \<le> length align_ids) RuntimeError (
            let ids = last_n r teacher_ids;
                lps = last_n r teacher_logprobs;
                prompt_length = length align_ids - r;
                prompt_ids_pad = map (\<lambda>t. replicate (length (hd ids)) t) (take prompt_length align_ids);
                prompt_logprobs_pad = replicate prompt_length (replicate (length (hd lps)) 0)
            in Inr (prompt_ids_pad @ ids, prompt_logprobs_pad @ lps)))"

text \<open>
  The teacher models with their sampling temperature, the loss settings, and the servers: the rows for
  a teacher, a sequence, its multi-modal data and the number of log-probabilities.
\<close>

record 'm teacher_env =
  teacher_models :: "(string \<times> real) list"
  loss_use_topk :: bool
  loss_topk :: nat
  generate :: "string \<Rightarrow> int list \<Rightarrow> 'm \<Rightarrow> nat \<Rightarrow> (int option rows \<times> real option rows) res"

definition compute_teacher_logprobs_single ::
  "'m teacher_env \<Rightarrow> int list \<Rightarrow> 'm \<Rightarrow> string option \<Rightarrow> nat option \<Rightarrow> int list option
    \<Rightarrow> (int rows \<times> real rows) res" where
  "compute_teacher_logprobs_single env sequence_ids mm routing_key response_length pad_to_sequence_ids =
     bind_res (resolve_teacher_key (teacher_models env) routing_key) (\<lambda>key.
     bind_res (case map_of (teacher_models env) key of None \<Rightarrow> Inl KeyError | Some t \<Rightarrow> Inr t) (\<lambda>temperature.
     bind_res (teacher_sampling_logprobs temperature (loss_use_topk env) (loss_topk env)) (\<lambda>k.
     bind_res (generate env key sequence_ids mm k) (\<lambda>(ids, lps).
     bind_res (to_tensor ids) (\<lambda>teacher_ids.
     bind_res (to_tensor lps) (\<lambda>teacher_logprobs.
     align_response teacher_ids teacher_logprobs
       (case pad_to_sequence_ids of None \<Rightarrow> sequence_ids | Some s \<Rightarrow> s) response_length))))))"

text \<open>\<open>F.pad(rows, (0, 0, left, right), value)\<close>; a negative size removes rows.\<close>

definition pad_front :: "int \<Rightarrow> 'a \<Rightarrow> 'a list \<Rightarrow> 'a list" where
  "pad_front n v xs = (if 0 \<le> n then replicate (nat n) v @ xs else drop (nat (- n)) xs)"

definition pad_back :: "int \<Rightarrow> 'a \<Rightarrow> 'a list \<Rightarrow> 'a list" where
  "pad_back n v xs = (if 0 \<le> n then xs @ replicate (nat n) v else take (length xs - nat (- n)) xs)"

definition pad_rows :: "int \<Rightarrow> int \<Rightarrow> 'a \<Rightarrow> 'a rows \<Rightarrow> 'a rows res" where
  "pad_rows left right v rows =
     (let row = replicate (length (hd rows)) v in
      require (0 \<le> int (length rows) + left + right) RuntimeError
        (Inr (pad_back right row (pad_front left row rows))))"

definition pad_teacher_outputs ::
  "int rows \<Rightarrow> real rows \<Rightarrow> nat \<Rightarrow> nat \<Rightarrow> nat \<Rightarrow> nat \<Rightarrow> int \<Rightarrow> (int rows \<times> real rows) res" where
  "pad_teacher_outputs teacher_ids teacher_logprobs prompt_width response_width prompt_length response_length pad_token_id =
     (let left_pad_size = int prompt_width - int prompt_length;
          right_pad_size = int response_width - int response_length
      in bind_res (pad_rows left_pad_size right_pad_size pad_token_id teacher_ids) (\<lambda>ids.
         bind_res (pad_rows left_pad_size right_pad_size 0 teacher_logprobs) (\<lambda>lps.
         Inr (ids, lps))))"

section \<open>The views of a sample\<close>

text \<open>
  The switches of the worker: a dense frame budget for the teacher, another prompt for it, another thinking
  mode, and the extra passes; \<open>teacher_enable_thinking\<close> is whether it is set.
\<close>

record view_config =
  distillation_enabled :: bool
  teacher_frame_budget :: bool
  teacher_prompt_key :: bool
  teacher_enable_thinking :: bool
  cue_gate_enabled :: bool
  exopd_enabled :: bool
  exopd_axis_decomposed :: bool
  contrastive_gate_enabled :: bool

text \<open>
  What the sample brings: its routing key, whether it has a prompt for the teacher and a raw prompt, and
  the prompts the builders make, each of which may fail: dense frames, the teacher's prompt, the other
  thinking mode and the degraded video.
\<close>

record 'm sample_kwargs =
  kw_routing :: "string option"
  kw_teacher_raw_prompt :: bool
  kw_raw_prompt :: bool
  build_dense :: "(int list \<times> 'm) res"
  build_teacher_prompt :: "(int list \<times> 'm) res"
  build_thinking :: "(int list \<times> 'm) res"
  build_neg_view :: "(int list \<times> 'm) res"

type_synonym view = "int rows \<times> real rows"

record views =
  teacher_view :: "view option"
  base_view :: "view option"
  base_dense_view :: "view option"
  neg_view :: "view option"
  nocue_view :: "view option"

definition no_views :: views where
  "no_views = \<lparr>teacher_view = None, base_view = None, base_dense_view = None, neg_view = None, nocue_view = None\<rparr>"

text \<open>
  The sequence and data the teacher scores, whether it has dense frames, and whether it has another prompt.
\<close>

definition teacher_input ::
  "view_config \<Rightarrow> int list \<Rightarrow> int list \<Rightarrow> 'm \<Rightarrow> 'm sample_kwargs option \<Rightarrow> int list \<times> 'm \<times> bool \<times> bool" where
  "teacher_input cfg prompt_ids response_ids mm kwargs =
     (let student = (prompt_ids @ response_ids, mm, False, False);
          cue = (\<lambda>built. case built of Inl _ \<Rightarrow> student | Inr (p, m) \<Rightarrow> (p @ response_ids, m, False, True))
      in case kwargs of
           None \<Rightarrow> student
         | Some kw \<Rightarrow>
             if teacher_frame_budget cfg then
               (case build_dense kw of Inl _ \<Rightarrow> student | Inr (p, m) \<Rightarrow> (p @ response_ids, m, True, False))
             else if teacher_prompt_key cfg then
               (if kw_teacher_raw_prompt kw then cue (build_teacher_prompt kw) else student)
             else if teacher_enable_thinking cfg then
               (if kw_raw_prompt kw then cue (build_thinking kw) else student)
             else student)"

text \<open>An optional pass whose failure is logged and leaves the view out.\<close>

definition swallow :: "'a res \<Rightarrow> 'a option" where
  "swallow r = (case r of Inl _ \<Rightarrow> None | Inr x \<Rightarrow> Some x)"

definition base_dense_input ::
  "view_config \<Rightarrow> int list \<Rightarrow> int list \<Rightarrow> 'm \<Rightarrow> 'm sample_kwargs option \<Rightarrow> int list \<times> 'm" where
  "base_dense_input cfg prompt_ids response_ids mm kwargs =
     (case kwargs of
        None \<Rightarrow> (prompt_ids @ response_ids, mm)
      | Some kw \<Rightarrow>
          if \<not> teacher_frame_budget cfg then (prompt_ids @ response_ids, mm)
          else (case build_dense kw of
                  Inl _ \<Rightarrow> (prompt_ids @ response_ids, mm)
                | Inr (p, m) \<Rightarrow> (p @ response_ids, m)))"

definition compute_teacher_logprobs ::
  "'m teacher_env \<Rightarrow> view_config \<Rightarrow> int list \<Rightarrow> int list \<Rightarrow> 'm \<Rightarrow> bool \<Rightarrow> 'm sample_kwargs option \<Rightarrow> views res" where
  "compute_teacher_logprobs env cfg prompt_ids response_ids mm validate kwargs =
     (if \<not> (distillation_enabled cfg \<and> \<not> validate) then Inr no_views
      else
        let student_sequence_ids = prompt_ids @ response_ids;
            routing_key = (case kwargs of None \<Rightarrow> None | Some kw \<Rightarrow> kw_routing kw);
            n = Some (length response_ids);
            (teacher_sequence_ids, teacher_mm, afd_active, cue_active) =
              teacher_input cfg prompt_ids response_ids mm kwargs
        in
        bind_res (compute_teacher_logprobs_single env teacher_sequence_ids teacher_mm routing_key n
                    (if afd_active \<or> cue_active then Some student_sequence_ids else None)) (\<lambda>teacher.
        let nocue = (if cue_gate_enabled cfg \<and> cue_active
                     then swallow (compute_teacher_logprobs_single env student_sequence_ids mm routing_key n
                            (Some student_sequence_ids))
                     else None) in
        bind_res (if exopd_enabled cfg
                  then bind_res (compute_teacher_logprobs_single env student_sequence_ids mm (Some ''exopd_base'') n None)
                         (\<lambda>b. Inr (Some b))
                  else Inr None) (\<lambda>base.
        bind_res (if exopd_enabled cfg \<and> exopd_axis_decomposed cfg
                  then (case base_dense_input cfg prompt_ids response_ids mm kwargs of (q, m) \<Rightarrow>
                          bind_res (compute_teacher_logprobs_single env q m (Some ''exopd_base'') n
                                      (Some student_sequence_ids)) (\<lambda>b. Inr (Some b)))
                  else Inr None) (\<lambda>base_dense.
        let neg = (case kwargs of
                     None \<Rightarrow> None
                   | Some kw \<Rightarrow>
                       if contrastive_gate_enabled cfg
                       then swallow (bind_res (build_neg_view kw) (\<lambda>(p, m).
                              compute_teacher_logprobs_single env (p @ response_ids) m routing_key n
                                (Some student_sequence_ids)))
                       else None)
        in Inr \<lparr>teacher_view = Some teacher, base_view = base, base_dense_view = base_dense,
                neg_view = neg, nocue_view = nocue\<rparr>))))"

text \<open>The views padded to the width of the batch, every one the same way.\<close>

definition pad_view :: "nat \<Rightarrow> nat \<Rightarrow> nat \<Rightarrow> nat \<Rightarrow> int \<Rightarrow> view option \<Rightarrow> view option res" where
  "pad_view prompt_width response_width prompt_length response_length pad_token_id v =
     (case v of
        None \<Rightarrow> Inr None
      | Some (ids, lps) \<Rightarrow>
          bind_res (pad_teacher_outputs ids lps prompt_width response_width prompt_length response_length pad_token_id)
            (\<lambda>p. Inr (Some p)))"

definition pad_views :: "nat \<Rightarrow> nat \<Rightarrow> nat \<Rightarrow> nat \<Rightarrow> int \<Rightarrow> views \<Rightarrow> views res" where
  "pad_views pw rw pl rl pad v =
     bind_res (pad_view pw rw pl rl pad (teacher_view v)) (\<lambda>t.
     bind_res (pad_view pw rw pl rl pad (base_view v)) (\<lambda>b.
     bind_res (pad_view pw rw pl rl pad (base_dense_view v)) (\<lambda>bd.
     bind_res (pad_view pw rw pl rl pad (neg_view v)) (\<lambda>ng.
     bind_res (pad_view pw rw pl rl pad (nocue_view v)) (\<lambda>nc.
     Inr \<lparr>teacher_view = t, base_view = b, base_dense_view = bd, neg_view = ng, nocue_view = nc\<rparr>)))))"

section \<open>One contract for both servers\<close>

text \<open>
  A position of vLLM and the same position of SGLang report the same scores: without top
  log-probabilities the first key of the dictionary is the token; with \<open>k\<close> of them the best tokens by
  rank, and possibly the sampled token behind them.
\<close>

definition same_scores :: "nat \<Rightarrow> vllm_position \<Rightarrow> (real option \<times> int) \<Rightarrow> (real option \<times> int) list option \<Rightarrow> bool" where
  "same_scores k d tok best \<longleftrightarrow>
     (if k = 0 then (\<exists>t l d'. d = (t, l) # d' \<and> tok = (Some (vl_logprob l), t))
      else (length d = k \<or> length d = k + 1)
        \<and> (\<exists>es. best = Some es \<and> length es = k \<and> (\<forall>e\<in>set es. fst e \<noteq> None)
             \<and> (\<forall>(t, l)\<in>set d. vl_rank l \<le> k \<longrightarrow> 1 \<le> vl_rank l \<and> es ! (vl_rank l - 1) = (Some (vl_logprob l), t))
             \<and> (\<forall>r\<in>{1..k}. \<exists>(t, l)\<in>set d. vl_rank l = r)))"

lemma fold_place_ranked:
  assumes "\<forall>(t, l)\<in>set d. vl_rank l \<le> k \<longrightarrow> 1 \<le> vl_rank l \<and> es ! (vl_rank l - 1) = (Some (vl_logprob l), t)"
    and "length ids = k" "length lps = k"
  shows "length (fst (fold (place_ranked k) d (ids, lps))) = k \<and> length (snd (fold (place_ranked k) d (ids, lps))) = k
    \<and> (\<forall>i<k. fst (fold (place_ranked k) d (ids, lps)) ! i =
          (if \<exists>(t, l)\<in>set d. vl_rank l = i + 1 then Some (snd (es ! i)) else ids ! i)
        \<and> snd (fold (place_ranked k) d (ids, lps)) ! i =
          (if \<exists>(t, l)\<in>set d. vl_rank l = i + 1 then fst (es ! i) else lps ! i))"
  using assms
proof (induction d arbitrary: ids lps)
  case (Cons e d)
  obtain t l where e: "e = (t, l)" by (cases e)
  obtain ids' lps' where pl: "place_ranked k e (ids, lps) = (ids', lps')" by fastforce
  have len: "length ids' = k" "length lps' = k"
    using pl Cons.prems by (auto simp: place_ranked_def e split: if_splits)
  have first: "ids' ! i = (if vl_rank l = i + 1 then Some (snd (es ! i)) else ids ! i)
      \<and> lps' ! i = (if vl_rank l = i + 1 then fst (es ! i) else lps ! i)" if "i < k" for i
    using pl Cons.prems that
    by (auto simp: place_ranked_def e rank_place_def nth_list_update split: if_splits)
  have tail: "\<forall>(t, l)\<in>set d. vl_rank l \<le> k \<longrightarrow> 1 \<le> vl_rank l \<and> es ! (vl_rank l - 1) = (Some (vl_logprob l), t)"
    using Cons.prems(1) by simp
  have ex: "(\<exists>(t, l)\<in>set (e # d). vl_rank l = i + 1) \<longleftrightarrow> vl_rank l = i + 1 \<or> (\<exists>(t, l)\<in>set d. vl_rank l = i + 1)" for i
    by (auto simp: e)
  show ?case using Cons.IH[OF tail len] unfolding ex by (simp add: pl first)
qed simp

lemma extract_position_sglang:
  assumes "same_scores k d (toks ! p) best" "p < length toks" "k \<noteq> 0 \<longrightarrow> p < length tops \<and> tops ! p = best"
  shows "extract_position k (Some d) = sglang_position k toks tops p"
proof (cases "k = 0")
  case True
  then show ?thesis using assms(1)
    by (auto simp: same_scores_def extract_position_def sglang_position_def py_float_def)
next
  case False
  from assms(1) False obtain es where es: "best = Some es" "length es = k" "\<forall>e\<in>set es. fst e \<noteq> None"
      "\<forall>(t, l)\<in>set d. vl_rank l \<le> k \<longrightarrow> 1 \<le> vl_rank l \<and> es ! (vl_rank l - 1) = (Some (vl_logprob l), t)"
      "\<forall>r\<in>{1..k}. \<exists>(t, l)\<in>set d. vl_rank l = r"
    and len: "length d = k \<or> length d = k + 1"
    by (auto simp: same_scores_def)
  define res where "res = fold (place_ranked k) d (replicate k None, replicate k None)"
  have "length (fst res) = k \<and> length (snd res) = k
      \<and> (\<forall>i<k. fst res ! i = Some (snd (es ! i)) \<and> snd res ! i = fst (es ! i))"
    using fold_place_ranked[OF es(4), of "replicate k None" "replicate k None"] es(5)
    by (fastforce simp: res_def)
  then have "fst res = map (\<lambda>e. Some (snd e)) es" "snd res = map fst es"
    using es(2) by (auto intro: nth_equalityI)
  then have res: "res = (map (\<lambda>e. Some (snd e)) es, map fst es)" by (metis prod.collapse)
  have floats: "map_res (\<lambda>e. py_float (fst e)) es = Inr (map (\<lambda>e. the (fst e)) es)"
    by (rule map_res_Inr) (use es(3) in \<open>auto simp: py_float_def split: option.split\<close>)
  have some: "map (Some \<circ> (\<lambda>e. the (fst e))) es = map fst es" using es(3) by simp
  have "extract_position k (Some d) = Inr res"
    using False len by (auto simp: extract_position_def res_def)
  then show ?thesis using False assms(3) es(1,2) floats some
    by (simp add: sglang_position_def res)
qed

text \<open>
  For outputs that report the same scores at every position but the first, of a prompt of the length the
  request names, the vLLM and the SGLang extractor return the same rows.
\<close>

theorem extractors_agree:
  assumes "length toks = sequence_length" "0 < sequence_length" "length outs = sequence_length"
    and "k \<noteq> 0 \<longrightarrow> length tops = sequence_length"
    and "\<forall>p\<in>{1..<sequence_length}. \<exists>d. outs ! p = Some d \<and> same_scores k d (toks ! p) (if k = 0 then None else tops ! p)"
  shows "extract_prompt_logprobs outs (Some k)
    = bind_res (extract_prompt_logprobs_sglang toks tops k sequence_length) (\<lambda>r. Inr (Some r))"
proof -
  have "map_res (extract_position k) (map (\<lambda>p. outs ! p) ps) = map_res (sglang_position k toks tops) ps"
    if "set ps \<subseteq> {1..<sequence_length}" for ps
    using that
  proof (induction ps)
    case (Cons p ps)
    have "p \<in> {1..<sequence_length}" using Cons.prems by auto
    with assms(5) obtain d where d: "outs ! p = Some d" "same_scores k d (toks ! p) (if k = 0 then None else tops ! p)"
      by blast
    have "extract_position k (Some d) = sglang_position k toks tops p"
      by (rule extract_position_sglang[OF d(2)]) (use Cons.prems assms(1,4) in auto)
    then show ?case using Cons by (simp add: d(1))
  qed simp
  moreover have "map (\<lambda>p. outs ! p) [1..<sequence_length] = tl outs"
    using assms(2,3) by (auto intro!: nth_equalityI simp: nth_tl)
  ultimately have same: "map_res (extract_position k) (tl outs) = map_res (sglang_position k toks tops) [1..<length toks]"
    using assms(1) by (metis atLeastLessThan_upt order_refl)
  show ?thesis
  proof (cases "map_res (sglang_position k toks tops) [1..<length toks]")
    case (Inl e)
    then show ?thesis by (simp add: extract_prompt_logprobs_def extract_prompt_logprobs_sglang_def same)
  next
    case (Inr ps)
    then have "length ps = sequence_length - 1" using map_res_length[OF Inr] assms(1) by simp
    then show ?thesis using assms(2)
      by (simp add: extract_prompt_logprobs_def extract_prompt_logprobs_sglang_def same Inr [simplified] Let_def)
  qed
qed

theorem extractors_agree_witness:
  "extract_prompt_logprobs [None, Some [(7, \<lparr>vl_logprob = -2, vl_rank = 3\<rparr>), (5, \<lparr>vl_logprob = -1, vl_rank = 1\<rparr>)]] (Some 1)
    = bind_res (extract_prompt_logprobs_sglang [(None, 4), (Some (-2), 7)] [None, Some [(Some (-1), 5)]] 1 2) (\<lambda>r. Inr (Some r))"
  by (rule extractors_agree) (auto simp: same_scores_def)

section \<open>Where the scores of the response land\<close>

text \<open>
  Row \<open>i\<close> of a server belongs to token \<open>i + 1\<close>, and a dummy row closes the list.  So when \<open>S\<close> are the rows of
  the response tokens, the server's rows end in \<open>S @ [D]\<close>.  After the alignment with a student sequence of
  \<open>P\<close> prompt and \<open>r\<close> response tokens, the rows from \<open>P - 1\<close> on are \<open>S\<close> when the lengths agree, and lose the
  first row of \<open>S\<close> to the padding of the prompt when they do not.
\<close>

lemma py_slice_append: "length xs = a \<Longrightarrow> length ys = n \<Longrightarrow> py_slice a (a + n) (xs @ ys @ zs) = ys"
  by (simp add: py_slice_def)

lemma align_response_rows:
  assumes rows: "teacher_logprobs = front @ S @ [D]" "length teacher_ids = length teacher_logprobs"
    and r: "length S = r" "0 < r" and align: "length align_ids = P + r" "0 < P"
    and width: "\<forall>x\<in>set teacher_logprobs. length x = w" "\<forall>x\<in>set teacher_ids. length x = w"
  shows "\<exists>ids lps front'. align_response teacher_ids teacher_logprobs align_ids (Some r) = Inr (ids, lps)
    \<and> length ids = P + r \<and> lps = front' @ (if length teacher_logprobs = P + r then hd S else replicate w 0) # tl S @ [D]
    \<and> length front' = P - 1 \<and> (\<forall>x\<in>set lps. length x = w) \<and> (\<forall>x\<in>set ids. length x = w)"
proof (cases "length teacher_logprobs = P + r")
  case True
  then have "align_response teacher_ids teacher_logprobs align_ids (Some r) = Inr (teacher_ids, teacher_logprobs)"
    using rows align by (simp add: align_response_def)
  moreover have "teacher_logprobs = front @ hd S # tl S @ [D]" using rows(1) r by (cases S) auto
  moreover have "length front = P - 1" using True rows(1) r by simp
  ultimately show ?thesis using True rows(2) width by (intro exI[of _ teacher_ids] exI[of _ teacher_logprobs] exI[of _ front]) simp
next
  case False
  have tail: "last_n r teacher_logprobs = tl S @ [D]"
  proof -
    have "teacher_logprobs = (front @ [hd S]) @ (tl S @ [D])" using rows(1) r by (cases S) auto
    moreover have "length (tl S @ [D]) = r" using r by simp
    ultimately show ?thesis using last_n_append[of "tl S @ [D]" "front @ [hd S]"] by simp
  qed
  have wS: "\<forall>x\<in>set (tl S @ [D]). length x = w"
    using width(1) r rows(1) by (cases S) auto
  then have w: "length (hd (tl S @ [D])) = w" by (cases "tl S") auto
  have len: "length (last_n r teacher_ids) = r" using rows r by (simp add: last_n_def)
  define ids where "ids = map (\<lambda>t. replicate (length (hd (last_n r teacher_ids))) t) (take P align_ids) @ last_n r teacher_ids"
  define lps where "lps = replicate (P - 1) (replicate w (0 :: real)) @ replicate w 0 # tl S @ [D]"
  have pad: "replicate P (replicate w 0) @ tl S @ [D] = lps"
    using align unfolding lps_def by (cases P) (simp_all add: replicate_app_Cons_same)
  have "align_response teacher_ids teacher_logprobs align_ids (Some r)
      = Inr (ids, replicate P (replicate w 0) @ tl S @ [D])"
    using False rows(2) align by (simp add: align_response_def tail w ids_def Let_def)
  then have al: "align_response teacher_ids teacher_logprobs align_ids (Some r) = Inr (ids, lps)"
    unfolding pad .
  have tail_ids: "\<forall>x\<in>set (last_n r teacher_ids). length x = w"
    using width(2) by (auto simp: last_n_def py_tail_def dest: in_set_dropD)
  moreover have "last_n r teacher_ids \<noteq> []" using len r by auto
  ultimately have "length (hd (last_n r teacher_ids)) = w" by simp
  then have "length ids = P + r" "\<forall>x\<in>set lps. length x = w" "\<forall>x\<in>set ids. length x = w"
    using align len wS tail_ids by (auto simp: ids_def lps_def)
  then show ?thesis using False al
    by (intro exI[of _ ids] exI[of _ lps] exI[of _ "replicate (P - 1) (replicate w 0)"]) (simp add: lps_def)
qed

lemma pad_rows_inside:
  assumes "P \<le> pw" "r \<le> rw" "length xs = P + r"
  shows "pad_rows (int pw - int P) (int rw - int r) v xs
    = Inr (replicate (pw - P) (replicate (length (hd xs)) v) @ xs @ replicate (rw - r) (replicate (length (hd xs)) v))"
  using assms by (simp add: pad_rows_def pad_front_def pad_back_def nat_diff_distrib Let_def)

end
