(* ===== verification/Agent_Batch.thy ===== *)
theory Agent_Batch
  imports Teacher_Views
begin

text \<open>
  From the outputs of the agent loops to the tensors of a training batch: the padding of a sample
  (\<open>AgentLoopWorker._agent_loop_postprocess\<close>), the replacement of failed samples and the assembly of the
  batch (\<open>generate_sequences\<close>, \<open>_postprocess\<close>) in \<open>verl/verl/experimental/agent_loop/agent_loop.py\<close>, and
  the change between padded and unpadded layouts in \<open>verl/verl/workers/utils/padding.py\<close>.  The padding of
  the tokenizer and the vision part of the position ids are arguments.  A tensor of one sample, with a
  leading dimension of one, is the list of its columns.
\<close>

section \<open>One sample\<close>

record 'x loop_output =
  out_prompt_ids :: "int list"
  out_response_ids :: "int list"
  out_response_mask :: "int list"
  out_response_logprobs :: "real list option"
  out_routed_experts :: "'x list option"
  out_reward_score :: "real option"
  out_num_turns :: nat

record 'x padded_output =
  pd_prompt_ids :: "int list"
  pd_response_ids :: "int list"
  pd_input_ids :: "int list"
  pd_position_ids :: "nat list list"
  pd_response_mask :: "int list"
  pd_attention_mask :: "nat list"
  pd_response_logprobs :: "real list option"
  pd_routed_experts :: "'x list option"
  pd_views :: views
  pd_reward_score :: "real option"
  pd_num_turns :: nat

text \<open>
  \<open>tokenizer.pad(..., padding="max_length")\<close>: the side (left or not), the maximum length and the ids give
  the padded ids and the attention mask.  It fills up to the maximum length and never cuts.
\<close>

type_synonym tok_pad = "bool \<Rightarrow> nat \<Rightarrow> int list \<Rightarrow> int list \<times> nat list"

definition pads_with :: "tok_pad \<Rightarrow> int \<Rightarrow> bool" where
  "pads_with pad pad_id \<longleftrightarrow>
     (\<forall>m ids. pad True m ids = (replicate (m - length ids) pad_id @ ids,
                             replicate (m - length ids) 0 @ replicate (length ids) 1)
           \<and> pad False m ids = (ids @ replicate (m - length ids) pad_id,
                             replicate (length ids) 1 @ replicate (m - length ids) 0))"

definition place_experts :: "'x \<Rightarrow> nat \<Rightarrow> int \<Rightarrow> 'x list \<Rightarrow> 'x list res" where
  "place_experts z total_length start_pos experts =
     (let n = length experts; end_pos = min (start_pos + int n) (int total_length) in
      require (\<not> (start_pos < 0 \<or> int total_length < end_pos)) ValueError (
      let room = nat (end_pos - start_pos) in
      require (n = room \<or> n = 1) RuntimeError
        (Inr (replicate (nat start_pos) z @ (if n = room then experts else replicate room (hd experts))
               @ replicate (total_length - nat start_pos - room) z))))"

text \<open>\<open>clip(cumsum(mask) - 1, min=0)\<close>.\<close>

definition compute_position_id_with_mask :: "nat list \<Rightarrow> nat list" where
  "compute_position_id_with_mask m = map (\<lambda>i. sum_list (take (Suc i) m) - 1) [0..<length m]"

text \<open>With a processor: the text row counts the valid tokens and is 1 elsewhere, above the vision rows.\<close>

fun text_position_ids :: "nat \<Rightarrow> nat list \<Rightarrow> nat list" where
  "text_position_ids k [] = []"
| "text_position_ids k (m # ms) =
     (if m \<noteq> 0 then k # text_position_ids (Suc k) ms else 1 # text_position_ids k ms)"

definition compute_position_ids ::
  "(int list \<Rightarrow> nat list \<Rightarrow> nat list list) option \<Rightarrow> int list \<Rightarrow> nat list \<Rightarrow> nat list list" where
  "compute_position_ids rope input_ids attention_mask =
     (case rope of
        None \<Rightarrow> [compute_position_id_with_mask attention_mask]
      | Some get_rope_index \<Rightarrow> text_position_ids 0 attention_mask # get_rope_index input_ids attention_mask)"

record 'x post_env =
  post_pad :: tok_pad
  post_pad_token_id :: int
  post_prompt_length :: nat
  post_response_length :: nat
  post_rope :: "(int list \<Rightarrow> nat list \<Rightarrow> nat list list) option"
  post_zero_expert :: 'x

definition agent_loop_postprocess ::
  "'x post_env \<Rightarrow> 'x loop_output \<Rightarrow> views res \<Rightarrow> 'x padded_output res" where
  "agent_loop_postprocess env out teacher =
     (let (prompt_input_ids, prompt_attention) = post_pad env True (post_prompt_length env) (out_prompt_ids out);
          (response_input_ids, response_attention) = post_pad env False (post_response_length env) (out_response_ids out);
          (mask_input_ids, _) = post_pad env False (post_response_length env) (out_response_mask out);
          logprobs = (case out_response_logprobs out of
                        None \<Rightarrow> None
                      | Some l \<Rightarrow> Some (l @ replicate (post_response_length env - length l) 0));
          attention = prompt_attention @ response_attention;
          input_ids = prompt_input_ids @ response_input_ids
      in require (length mask_input_ids = length response_attention) RuntimeError (
         bind_res (case out_routed_experts out of
                     None \<Rightarrow> Inr None
                   | Some e \<Rightarrow> bind_res (place_experts (post_zero_expert env) (length input_ids)
                       (int (length prompt_input_ids) - int (length (out_prompt_ids out))) e) (\<lambda>x. Inr (Some x))) (\<lambda>experts.
         bind_res teacher (\<lambda>v.
         bind_res (pad_views (length prompt_input_ids) (length response_input_ids) (length (out_prompt_ids out))
                     (length (out_response_ids out)) (post_pad_token_id env) v) (\<lambda>pv.
         Inr \<lparr>pd_prompt_ids = prompt_input_ids, pd_response_ids = response_input_ids, pd_input_ids = input_ids,
              pd_position_ids = compute_position_ids (post_rope env) input_ids attention,
              pd_response_mask = map2 (\<lambda>m a. m * int a) mask_input_ids response_attention,
              pd_attention_mask = attention, pd_response_logprobs = logprobs, pd_routed_experts = experts,
              pd_views = pv, pd_reward_score = out_reward_score out, pd_num_turns = out_num_turns out\<rparr>)))))"

section \<open>The batch\<close>

text \<open>
  \<open>generate_sequences\<close>: a failed sample takes the output of the first one that succeeded; when all failed,
  the first is run again without its videos and its output fills the batch, or the first error is raised.
\<close>

definition replace_failed :: "'o res list \<Rightarrow> 'o res \<Rightarrow> 'o list res" where
  "replace_failed outputs retry_result =
     (let good = filter (\<lambda>r. case r of Inl _ \<Rightarrow> False | Inr _ \<Rightarrow> True) outputs in
      if length good = length outputs then map_res (\<lambda>r. r) outputs
      else case good of
        [] \<Rightarrow> (case retry_result of Inl _ \<Rightarrow> bind_res (hd outputs) (\<lambda>_. Inr [])
              | Inr r \<Rightarrow> Inr (replicate (length outputs) r))
      | g # _ \<Rightarrow> map_res (\<lambda>r. case r of Inl _ \<Rightarrow> g | Inr x \<Rightarrow> Inr x) outputs)"

text \<open>\<open>get_trajectory_info\<close>: equal neighbours in the index are the rollouts of one sample.\<close>

fun rollout_numbers :: "('i \<times> nat) option \<Rightarrow> 'i list \<Rightarrow> nat list" where
  "rollout_numbers prev [] = []"
| "rollout_numbers prev (i # idx) =
     (let n = (case prev of None \<Rightarrow> 0 | Some (j, m) \<Rightarrow> if j = i then Suc m else 0)
      in n # rollout_numbers (Some (i, n)) idx)"

definition get_trajectory_info :: "int \<Rightarrow> 'i list \<Rightarrow> bool \<Rightarrow> (int \<times> 'i \<times> nat \<times> bool) list" where
  "get_trajectory_info step index validate =
     map2 (\<lambda>i n. (step, i, n, validate)) index (rollout_numbers None index)"

text \<open>\<open>torch.cat\<close> along the batch: at least one tensor, all of one width; a missing one is refused.\<close>

definition cat_rows :: "'a list list \<Rightarrow> 'a list list res" where
  "cat_rows xs = require (xs \<noteq> [] \<and> (\<forall>x\<in>set xs. length x = length (hd xs))) RuntimeError (Inr xs)"

definition cat_views :: "'a rows list \<Rightarrow> 'a rows list res" where
  "cat_views xs =
     bind_res (cat_rows xs) (\<lambda>ys.
     require (\<forall>x\<in>set xs. \<forall>row\<in>set x. length row = length (hd (hd xs))) RuntimeError (Inr ys))"

definition all_some :: "'a option list \<Rightarrow> 'a list res" where
  "all_some xs = require (None \<notin> set xs) TypeError (Inr (map the xs))"

definition cat_when :: "bool \<Rightarrow> ('a list \<Rightarrow> 'b res) \<Rightarrow> 'a option list \<Rightarrow> 'b option res" where
  "cat_when b f xs =
     (if b then bind_res (all_some xs) (\<lambda>ys. bind_res (f ys) (\<lambda>y. Inr (Some y))) else Inr None)"

record 'x batch_out =
  bo_prompts :: "int list list"
  bo_responses :: "int list list"
  bo_response_mask :: "int list list"
  bo_input_ids :: "int list list"
  bo_attention_mask :: "nat list list"
  bo_position_ids :: "nat list list list"
  bo_rollout_log_probs :: "real list list option"
  bo_routed_experts :: "'x list list option"
  bo_teacher :: "(real rows list \<times> int rows list) option"
  bo_base_logprobs :: "real rows list option"
  bo_base_dense_logprobs :: "real rows list option"
  bo_neg_view_logprobs :: "real rows list option"
  bo_nocue_logprobs :: "real rows list option"
  bo_rm_scores :: "real list list option"

definition lps_of :: "view option \<Rightarrow> real rows option" where
  "lps_of v = map_option snd v"

text \<open>A view that some samples have: the others take the teacher's.\<close>

definition fallback_view :: "(views \<Rightarrow> view option) \<Rightarrow> views \<Rightarrow> real rows option" where
  "fallback_view sel v = (case sel v of None \<Rightarrow> lps_of (teacher_view v) | Some w \<Rightarrow> Some (snd w))"

text \<open>
  The reward at the last token of the response; the index of an empty response is -1, the last column.
\<close>

definition rm_score_row :: "nat \<Rightarrow> nat \<Rightarrow> nat list \<Rightarrow> real \<Rightarrow> real list res" where
  "rm_score_row prompt_length width attention score =
     (let n = sum_list (drop prompt_length attention) in
      require (n \<le> width \<and> 0 < width) IndexError
        (Inr ((replicate width 0)[(if n = 0 then width - 1 else n - 1) := score])))"

definition postprocess_batch :: "'x padded_output list \<Rightarrow> 'x batch_out res" where
  "postprocess_batch inputs =
     bind_res (cat_rows (map pd_prompt_ids inputs)) (\<lambda>prompts.
     bind_res (cat_rows (map pd_response_ids inputs)) (\<lambda>responses.
     bind_res (cat_rows (map pd_response_mask inputs)) (\<lambda>rmask.
     bind_res (cat_rows (map pd_attention_mask inputs)) (\<lambda>attention.
     bind_res (cat_rows (map pd_input_ids inputs)) (\<lambda>input_ids.
     bind_res (cat_rows (map pd_position_ids inputs)) (\<lambda>position_ids.
     let first = hd inputs; vs = map pd_views inputs in
     bind_res (cat_when (pd_response_logprobs first \<noteq> None) cat_rows (map pd_response_logprobs inputs)) (\<lambda>logprobs.
     bind_res (cat_when (pd_routed_experts first \<noteq> None) cat_rows (map pd_routed_experts inputs)) (\<lambda>experts.
     bind_res (cat_when (teacher_view (pd_views first) \<noteq> None) cat_views (map (\<lambda>v. lps_of (teacher_view v)) vs)) (\<lambda>tlps.
     bind_res (cat_when (teacher_view (pd_views first) \<noteq> None) cat_views (map (\<lambda>v. map_option fst (teacher_view v)) vs)) (\<lambda>tids.
     bind_res (cat_when (base_view (pd_views first) \<noteq> None) cat_views (map (\<lambda>v. lps_of (base_view v)) vs)) (\<lambda>base.
     bind_res (cat_when (base_dense_view (pd_views first) \<noteq> None) cat_views (map (\<lambda>v. lps_of (base_dense_view v)) vs)) (\<lambda>dense.
     bind_res (cat_when (\<exists>v\<in>set vs. neg_view v \<noteq> None) cat_views (map (fallback_view neg_view) vs)) (\<lambda>neg.
     bind_res (cat_when (\<exists>v\<in>set vs. nocue_view v \<noteq> None) cat_views (map (fallback_view nocue_view) vs)) (\<lambda>nocue.
     bind_res (if \<forall>i\<in>set inputs. pd_reward_score i \<noteq> None
               then bind_res (map_res (\<lambda>i. rm_score_row (length (hd prompts)) (length (hd rmask))
                                (pd_attention_mask i) (the (pd_reward_score i))) inputs) (\<lambda>s. Inr (Some s))
               else Inr None) (\<lambda>scores.
     Inr \<lparr>bo_prompts = prompts, bo_responses = responses, bo_response_mask = rmask, bo_input_ids = input_ids,
          bo_attention_mask = attention, bo_position_ids = position_ids, bo_rollout_log_probs = logprobs,
          bo_routed_experts = experts,
          bo_teacher = (case (tlps, tids) of (Some l, Some i) \<Rightarrow> Some (l, i) | _ \<Rightarrow> None),
          bo_base_logprobs = base, bo_base_dense_logprobs = dense, bo_neg_view_logprobs = neg,
          bo_nocue_logprobs = nocue, bo_rm_scores = scores\<rparr>)))))))))))))))"

section \<open>Padded and unpadded layouts\<close>

text \<open>A nested tensor: its values and the lengths its offsets give.\<close>

record 'a jagged =
  jag_values :: "'a list"
  jag_lens :: "nat list"

definition take_masked :: "nat list \<Rightarrow> 'a list \<Rightarrow> 'a list" where
  "take_masked m xs = map snd (filter (\<lambda>(b, _). b \<noteq> 0) (zip m xs))"

text \<open>\<open>index_first_axis(x.flatten(0, 1), indices)\<close> with the offsets of the attention mask.\<close>

definition rmpad :: "nat list list \<Rightarrow> 'a list list \<Rightarrow> 'a jagged" where
  "rmpad attention_mask rows =
     \<lparr>jag_values = take_masked (concat attention_mask) (concat rows), jag_lens = map sum_list attention_mask\<rparr>"

record 'x nested_batch =
  nb_input_ids :: "int jagged"
  nb_position_ids :: "nat list list list"
  nb_loss_mask :: "int list list"
  nb_max_seq_len :: nat
  nb_max_response_len :: nat
  nb_routed_experts :: "'x jagged option"
  nb_teacher :: "(real list jagged \<times> int list jagged) option"
  nb_base_logprobs :: "real list jagged option"
  nb_base_dense_logprobs :: "real list jagged option"

definition left_right_2_no_padding :: "'x batch_out \<Rightarrow> 'x nested_batch" where
  "left_right_2_no_padding d =
     (let am = bo_attention_mask d in
      \<lparr>nb_input_ids = rmpad am (bo_input_ids d),
       nb_position_ids = map2 (\<lambda>m p. map (take_masked m) p) am (bo_position_ids d),
       nb_loss_mask = bo_response_mask d,
       nb_max_seq_len = length (hd (bo_input_ids d)),
       nb_max_response_len = length (hd (bo_response_mask d)),
       nb_routed_experts = map_option (rmpad am) (bo_routed_experts d),
       nb_teacher = map_option (\<lambda>(l, i). (rmpad am l, rmpad am i)) (bo_teacher d),
       nb_base_logprobs = map_option (rmpad am) (bo_base_logprobs d),
       nb_base_dense_logprobs = map_option (rmpad am) (bo_base_dense_logprobs d)\<rparr>)"

fun running_sum :: "nat \<Rightarrow> nat list \<Rightarrow> nat list" where
  "running_sum acc [] = []"
| "running_sum acc (n # ns) = (acc + n) # running_sum (acc + n) ns"

text \<open>The slices of the response, one token to the left, filled with \<open>z\<close>.\<close>

definition slice_responses :: "'a \<Rightarrow> 'a list \<Rightarrow> nat list \<Rightarrow> nat list \<Rightarrow> nat \<Rightarrow> 'a list list res" where
  "slice_responses z values prompt_lens response_lens max_response_len =
     (let sequence_offsets = running_sum 0 (map2 (+) prompt_lens response_lens) in
      require (sequence_offsets \<noteq> []) IndexError (
      require (last sequence_offsets = length values) AssertionError (
      require (0 \<notin> set prompt_lens) AssertionError (
      Inr (map2 (\<lambda>resp_len seq_offset.
             pad_back (int max_response_len - int resp_len) z
               (py_slice (seq_offset - resp_len - 1) (seq_offset - 1) values))
           response_lens sequence_offsets)))))"

definition no_padding_2_padding :: "'a \<Rightarrow> 'a list \<Rightarrow> 'x batch_out \<Rightarrow> 'a list list res" where
  "no_padding_2_padding z values d =
     (let prompt_width = length (hd (bo_prompts d)) in
      slice_responses z values
        (map (\<lambda>m. sum_list (take prompt_width m)) (bo_attention_mask d))
        (map (\<lambda>m. sum_list (drop prompt_width m)) (bo_attention_mask d))
        (length (hd (bo_responses d))))"

text \<open>The same functions for nested prompts and responses.\<close>

definition no_padding_2_padding_nested :: "'a \<Rightarrow> 'a list \<Rightarrow> int jagged \<Rightarrow> int jagged \<Rightarrow> nat option \<Rightarrow> 'a list list res" where
  "no_padding_2_padding_nested z values prompts responses max_response_len =
     slice_responses z values (jag_lens prompts) (jag_lens responses)
       (case max_response_len of Some n \<Rightarrow> n | None \<Rightarrow> Max (set (jag_lens responses)))"

definition response_from_nested :: "'a jagged \<Rightarrow> nat list \<Rightarrow> 'a list list" where
  "response_from_nested t response_lens =
     map2 (\<lambda>resp_len seq_offset. py_slice (seq_offset - resp_len - 1) (seq_offset - 1) (jag_values t))
       response_lens (running_sum 0 (jag_lens t))"

definition response_to_nested :: "'a list list \<Rightarrow> nat list \<Rightarrow> 'a list list" where
  "response_to_nested t response_lens = map2 (\<lambda>row n. take n row) t response_lens"

section \<open>Unpadding and slicing\<close>

lemma take_masked_append:
  "length m = length xs \<Longrightarrow> take_masked (m @ m') (xs @ xs') = take_masked m xs @ take_masked m' xs'"
  by (simp add: take_masked_def)

lemma take_masked_concat:
  "(\<And>i. i \<in> set ks \<Longrightarrow> length (m i) = length (x i))
    \<Longrightarrow> take_masked (concat (map m ks)) (concat (map x ks)) = concat (map (\<lambda>i. take_masked (m i) (x i)) ks)"
  by (induction ks) (simp_all add: take_masked_append, simp add: take_masked_def)

lemma take_masked_zero: "take_masked (replicate n 0) xs = []"
  by (auto simp: take_masked_def filter_empty_conv in_set_zip)

lemma take_masked_one: "length xs = n \<Longrightarrow> take_masked (replicate n 1) xs = xs"
proof -
  assume n: "length xs = n"
  have "filter (\<lambda>(b, _). b \<noteq> 0) (zip (replicate n (1 :: nat)) xs) = zip (replicate n 1) xs"
    by (intro filter_True) (auto simp: in_set_zip)
  then show ?thesis using n by (simp add: take_masked_def)
qed

text \<open>The attention mask of a sample: a left-padded prompt and a right-padded response.\<close>

definition mask_row :: "nat \<Rightarrow> nat \<Rightarrow> nat \<Rightarrow> nat \<Rightarrow> nat list" where
  "mask_row pw rw P r = (replicate (pw - P) 0 @ replicate P 1) @ (replicate r 1 @ replicate (rw - r) 0)"

lemma mask_row_simps:
  assumes "P \<le> pw" "r \<le> rw"
  shows "length (mask_row pw rw P r) = pw + rw"
    and "sum_list (take pw (mask_row pw rw P r)) = P" and "sum_list (drop pw (mask_row pw rw P r)) = r"
  using assms by (simp_all add: mask_row_def sum_list_replicate)

lemma take_masked_row:
  assumes "P \<le> pw" "r \<le> rw" "length xs = pw + rw"
  shows "take_masked (mask_row pw rw P r) xs = py_slice (pw - P) (pw + r) xs"
proof -
  define a b c where "a = take (pw - P) xs" "b = py_slice (pw - P) (pw + r) xs" "c = drop (pw + r) xs"
  have split: "xs = a @ b @ c"
  proof -
    have "pw + r - (pw - P) + (pw - P) = pw + r" using assms(1) by simp
    then have "drop (pw + r - (pw - P)) (drop (pw - P) xs) = c" by (simp add: a_b_c_def)
    then show ?thesis unfolding a_b_c_def py_slice_def by (metis append_take_drop_id)
  qed
  have len: "length a = pw - P" "length b = P + r" "length c = rw - r"
    using assms by (simp_all add: a_b_c_def)
  have "mask_row pw rw P r = replicate (length a) 0 @ replicate (length b) 1 @ replicate (length c) 0"
    by (simp add: mask_row_def len replicate_add)
  then have "take_masked (mask_row pw rw P r) xs = b"
    unfolding split by (simp add: take_masked_append take_masked_zero take_masked_one [simplified])
  then show ?thesis by (simp add: a_b_c_def)
qed

lemma slices_concat:
  assumes "\<forall>i\<in>set ks. length (y i) = p i + r i \<and> 0 < p i"
  shows "map2 (\<lambda>n off. f n (py_slice (off - n - 1) (off - 1) (pre @ concat (map y ks)))) (map r ks)
           (running_sum (length pre) (map (\<lambda>i. p i + r i) ks))
       = map (\<lambda>i. f (r i) (py_slice (p i - 1) (p i - 1 + r i) (y i))) ks"
  using assms
proof (induction ks arbitrary: pre)
  case (Cons i ks)
  have i: "length (y i) = p i + r i" "0 < p i" using Cons.prems by auto
  have "py_slice (length pre + (p i + r i) - r i - 1) (length pre + (p i + r i) - 1) (pre @ y i @ concat (map y ks))
      = py_slice (p i - 1) (p i - 1 + r i) (y i)"
    using i by (simp add: py_slice_def)
  moreover have "map2 (\<lambda>n off. f n (py_slice (off - n - 1) (off - 1) ((pre @ y i) @ concat (map y ks)))) (map r ks)
           (running_sum (length (pre @ y i)) (map (\<lambda>i. p i + r i) ks))
       = map (\<lambda>i. f (r i) (py_slice (p i - 1) (p i - 1 + r i) (y i))) ks"
    by (rule Cons.IH) (use Cons.prems in simp)
  ultimately show ?case using i by (simp add: add.assoc)
qed simp

lemma running_sum_Nil [simp]: "running_sum acc ns = [] \<longleftrightarrow> ns = []"
  by (cases ns) simp_all

lemma last_running_sum: "ns \<noteq> [] \<Longrightarrow> last (running_sum acc ns) = acc + sum_list ns"
  by (induction acc ns rule: running_sum.induct) auto

text \<open>
  Unpadding by the attention mask and slicing the response back reads, for every sample, the columns from the
  last column of the prompt on: the values of the positions that predict the response tokens.
\<close>

theorem unpad_slice_window:
  assumes masks: "bo_attention_mask d = map (\<lambda>i. mask_row pw rw (P i) (r i)) ks"
    and widths: "length (hd (bo_prompts d)) = pw" "length (hd (bo_responses d)) = rw"
    and "ks \<noteq> []"
    and ok: "\<forall>i\<in>set ks. 0 < P i \<and> P i \<le> pw \<and> r i \<le> rw \<and> length (X i) = pw + rw"
  shows "no_padding_2_padding z (jag_values (rmpad (bo_attention_mask d) (map X ks))) d
    = Inr (map (\<lambda>i. py_slice (pw - 1) (pw - 1 + r i) (X i) @ replicate (rw - r i) z) ks)"
proof -
  define y where "y i = py_slice (pw - P i) (pw + r i) (X i)" for i
  have vals: "jag_values (rmpad (bo_attention_mask d) (map X ks)) = concat (map y ks)"
  proof -
    have "jag_values (rmpad (bo_attention_mask d) (map X ks))
        = concat (map (\<lambda>i. take_masked (mask_row pw rw (P i) (r i)) (X i)) ks)"
      unfolding rmpad_def masks by (simp, rule take_masked_concat) (use ok mask_row_simps(1) in metis)
    also have "\<dots> = concat (map y ks)"
      by (rule arg_cong[where f = concat], rule map_cong) (use ok in \<open>simp_all add: y_def take_masked_row\<close>)
    finally show ?thesis .
  qed
  have lens: "map (\<lambda>m. sum_list (take pw m)) (bo_attention_mask d) = map P ks"
    "map (\<lambda>m. sum_list (drop pw m)) (bo_attention_mask d) = map r ks"
    using ok by (auto simp: masks mask_row_simps)
  have sums: "map2 (+) (map P ks) (map r ks) = map (\<lambda>i. P i + r i) ks"
    by (simp add: zip_map1 zip_map2 zip_same_conv_map)
  have y: "\<forall>i\<in>set ks. length (y i) = P i + r i \<and> 0 < P i" using ok by (auto simp: y_def)
  have total: "sum_list (map (\<lambda>i. P i + r i) ks) = length (concat (map y ks))"
    using y by (induction ks) auto
  have window: "py_slice (P i - 1) (P i - 1 + r i) (y i) = py_slice (pw - 1) (pw - 1 + r i) (X i)" if i: "i \<in> set ks" for i
  proof -
    have "0 < P i" "P i \<le> pw" using ok i by auto
    then have "pw + r i - (pw - P i) = P i + r i" "P i - 1 + (pw - P i) = pw - 1" by simp_all
    then show ?thesis using \<open>0 < P i\<close> by (simp add: y_def py_slice_def drop_take)
  qed
  have "0 \<notin> set (map P ks)" using ok by auto
  then have "no_padding_2_padding z (concat (map y ks)) d
      = Inr (map2 (\<lambda>resp_len off. pad_back (int rw - int resp_len) z (py_slice (off - resp_len - 1) (off - 1) (concat (map y ks))))
               (map r ks) (running_sum 0 (map (\<lambda>i. P i + r i) ks)))"
    using \<open>ks \<noteq> []\<close> total
    unfolding no_padding_2_padding_def slice_responses_def Let_def widths lens sums
    by (simp add: last_running_sum)
  also have "\<dots> = Inr (map (\<lambda>i. pad_back (int rw - int (r i)) z (py_slice (P i - 1) (P i - 1 + r i) (y i))) ks)"
    using slices_concat[OF y, of "\<lambda>n s. pad_back (int rw - int n) z s" "[]"] by simp
  also have "\<dots> = Inr (map (\<lambda>i. py_slice (pw - 1) (pw - 1 + r i) (X i) @ replicate (rw - r i) z) ks)"
    using ok window by (auto simp: pad_back_def nat_diff_distrib)
  finally show ?thesis unfolding vals .
qed

section \<open>From the server to the loss\<close>

text \<open>
  A server's rows for a sequence that ends in the response: row \<open>i\<close> belongs to token \<open>i + 1\<close>, so the rows
  \<open>scores\<close> of the response tokens stand just before the closing dummy row.
\<close>

definition server_scored :: "nat \<Rightarrow> int list \<Rightarrow> int rows \<Rightarrow> real rows \<Rightarrow> real rows \<Rightarrow> bool" where
  "server_scored w response ids lps scores \<longleftrightarrow>
     (\<exists>front. lps = front @ scores @ [replicate w 0]) \<and> length ids = length lps
     \<and> length scores = length response \<and> (\<forall>x\<in>set lps. length x = w) \<and> (\<forall>x\<in>set ids. length x = w)"

record scored_view =
  sv_ids :: "int rows"
  sv_lps :: "real rows"
  sv_scores :: "real rows"

definition aligned_view :: "nat \<Rightarrow> int list \<Rightarrow> int list \<Rightarrow> scored_view \<Rightarrow> view \<Rightarrow> bool" where
  "aligned_view w prompt response sv v \<longleftrightarrow>
     server_scored w response (sv_ids sv) (sv_lps sv) (sv_scores sv)
     \<and> align_response (sv_ids sv) (sv_lps sv) (prompt @ response) (Some (length response)) = Inr v"

text \<open>
  A sample on its way: the output of its loop, the scores of its teacher view and of its negative view
  when it has one, its views, and its padded output.
\<close>

record 'x scored_sample =
  ss_out :: "'x loop_output"
  ss_teacher :: scored_view
  ss_neg :: "scored_view option"
  ss_views :: views
  ss_padded :: "'x padded_output"

abbreviation ss_prompt :: "'x scored_sample \<Rightarrow> int list" where
  "ss_prompt s \<equiv> out_prompt_ids (ss_out s)"

abbreviation ss_response :: "'x scored_sample \<Rightarrow> int list" where
  "ss_response s \<equiv> out_response_ids (ss_out s)"

definition sample_ok :: "'x post_env \<Rightarrow> nat \<Rightarrow> 'x scored_sample \<Rightarrow> bool" where
  "sample_ok env w s \<longleftrightarrow>
     0 < length (ss_prompt s) \<and> length (ss_prompt s) \<le> post_prompt_length env
     \<and> 0 < length (ss_response s) \<and> length (ss_response s) \<le> post_response_length env
     \<and> (\<exists>v. teacher_view (ss_views s) = Some v \<and> aligned_view w (ss_prompt s) (ss_response s) (ss_teacher s) v)
     \<and> (case ss_neg s of
          None \<Rightarrow> neg_view (ss_views s) = None
        | Some sv \<Rightarrow> \<exists>v. neg_view (ss_views s) = Some v \<and> aligned_view w (ss_prompt s) (ss_response s) sv v)
     \<and> agent_loop_postprocess env (ss_out s) (Inr (ss_views s)) = Inr (ss_padded s)"

text \<open>What a view leaves at the columns from the last prompt column on.\<close>

definition landed :: "nat \<Rightarrow> 'x scored_sample \<Rightarrow> scored_view \<Rightarrow> real rows" where
  "landed w s sv =
     (if length (sv_lps sv) = length (ss_prompt s) + length (ss_response s) then hd (sv_scores sv)
      else replicate w 0) # tl (sv_scores sv)"

lemma padded_view_lands:
  assumes view: "aligned_view w prompt response sv v"
    and len: "0 < length prompt" "length prompt \<le> pw" "0 < length response" "length response \<le> rw"
    and pad: "pad_view pw rw (length prompt) (length response) pid (Some v) = Inr (Some (i, x))"
  shows "\<exists>front. length front = pw - 1
    \<and> x = front @ ((if length (sv_lps sv) = length prompt + length response then hd (sv_scores sv) else replicate w 0)
                     # tl (sv_scores sv))
             @ replicate (rw - length response + 1) (replicate w 0)"
    and "length i = pw + rw" "\<forall>row\<in>set i. length row = w" "\<forall>row\<in>set x. length row = w" "length x = pw + rw"
proof -
  define P r where "P = length prompt" and "r = length response"
  obtain front where front: "sv_lps sv = front @ sv_scores sv @ [replicate w 0]"
    and sv: "length (sv_ids sv) = length (sv_lps sv)" "length (sv_scores sv) = r" "\<forall>x\<in>set (sv_lps sv). length x = w"
      "\<forall>x\<in>set (sv_ids sv). length x = w"
    using view by (auto simp: aligned_view_def server_scored_def r_def)
  have al: "align_response (sv_ids sv) (sv_lps sv) (prompt @ response) (Some r) = Inr v"
    using view by (simp add: aligned_view_def r_def)
  have total: "length (prompt @ response) = P + r" by (simp add: P_def r_def)
  have "\<exists>ids lps front'. align_response (sv_ids sv) (sv_lps sv) (prompt @ response) (Some r) = Inr (ids, lps)
    \<and> length ids = P + r
    \<and> lps = front' @ (if length (sv_lps sv) = P + r then hd (sv_scores sv) else replicate w 0)
                    # tl (sv_scores sv) @ [replicate w 0]
    \<and> length front' = P - 1 \<and> (\<forall>x\<in>set lps. length x = w) \<and> (\<forall>x\<in>set ids. length x = w)"
    by (rule align_response_rows[OF front sv(1,2) _ total]) (use len sv(3,4) in \<open>auto simp: P_def r_def\<close>)
  with al obtain ids lps front' where al': "v = (ids, lps)" "length ids = P + r"
    "lps = front' @ (if length (sv_lps sv) = P + r then hd (sv_scores sv) else replicate w 0)
                    # tl (sv_scores sv) @ [replicate w 0]" "length front' = P - 1" "\<forall>x\<in>set lps. length x = w"
    "\<forall>x\<in>set ids. length x = w"
    by auto
  have lps: "length lps = P + r" using al'(3,4) sv(2) len by (simp add: P_def r_def)
  have w: "length (hd lps) = w" using al'(5) lps len by (cases lps) (auto simp: P_def)
  define row where "row = replicate (length (hd lps)) (0 :: real)"
  have row: "row = replicate w 0" by (simp add: row_def w)
  have "ids \<noteq> []" using al'(2) len by (auto simp: P_def)
  then have wi: "length (hd ids) = w" using al'(6) by simp
  have padded: "x = replicate (pw - P) row @ lps @ replicate (rw - r) row"
    "i = replicate (pw - P) (replicate w pid) @ ids @ replicate (rw - r) (replicate w pid)"
    using pad pad_rows_inside[of P pw r rw ids pid] pad_rows_inside[of P pw r rw lps 0] al'(2) lps len
    by (simp_all add: pad_view_def pad_teacher_outputs_def al'(1) row_def wi flip: P_def r_def)
  show "length i = pw + rw" "\<forall>row\<in>set i. length row = w" "\<forall>row\<in>set x. length row = w" "length x = pw + rw"
    using padded al'(2,5,6) len lps by (auto simp: row P_def r_def)
  from padded(1) have "x = (replicate (pw - P) row @ front')
      @ ((if length (sv_lps sv) = P + r then hd (sv_scores sv) else replicate w 0) # tl (sv_scores sv))
      @ replicate (rw - r + 1) (replicate w 0)"
    by (simp add: al'(3) row)
  moreover have "length (replicate (pw - P) row @ front') = pw - 1"
  proof -
    have "0 < P" "P \<le> pw" using len by (simp_all add: P_def)
    then show ?thesis using al'(4) by simp
  qed
  ultimately show "\<exists>front. length front = pw - 1
    \<and> x = front @ ((if length (sv_lps sv) = length prompt + length response then hd (sv_scores sv) else replicate w 0)
                     # tl (sv_scores sv))
             @ replicate (rw - length response + 1) (replicate w 0)"
    unfolding P_def r_def by blast
qed

lemma postprocess_sample:
  assumes pads: "pads_with (post_pad env) (post_pad_token_id env)"
    and len: "length (out_prompt_ids out) \<le> post_prompt_length env" "length (out_response_ids out) \<le> post_response_length env"
    and run: "agent_loop_postprocess env out (Inr v) = Inr i"
  shows "pd_attention_mask i = mask_row (post_prompt_length env) (post_response_length env)
           (length (out_prompt_ids out)) (length (out_response_ids out))"
    and "length (pd_prompt_ids i) = post_prompt_length env" and "length (pd_response_ids i) = post_response_length env"
    and "pad_views (post_prompt_length env) (post_response_length env) (length (out_prompt_ids out))
           (length (out_response_ids out)) (post_pad_token_id env) v = Inr (pd_views i)"
proof -
  have pad: "post_pad env True m ids = (replicate (m - length ids) (post_pad_token_id env) @ ids,
        replicate (m - length ids) 0 @ replicate (length ids) 1)"
    "post_pad env False m ids = (ids @ replicate (m - length ids) (post_pad_token_id env),
        replicate (length ids) 1 @ replicate (m - length ids) 0)" for m ids
    using pads by (simp_all add: pads_with_def)
  show "pd_attention_mask i = mask_row (post_prompt_length env) (post_response_length env)
           (length (out_prompt_ids out)) (length (out_response_ids out))"
    "length (pd_prompt_ids i) = post_prompt_length env" "length (pd_response_ids i) = post_response_length env"
    "pad_views (post_prompt_length env) (post_response_length env) (length (out_prompt_ids out))
           (length (out_response_ids out)) (post_pad_token_id env) v = Inr (pd_views i)"
    using run len by (auto simp: agent_loop_postprocess_def pad bind_res_eq_Inr mask_row_def Let_def)
qed

lemma pad_views_each:
  assumes "pad_views pw rw pl rl pid v = Inr pv"
  shows "pad_view pw rw pl rl pid (teacher_view v) = Inr (teacher_view pv)"
    and "pad_view pw rw pl rl pid (neg_view v) = Inr (neg_view pv)"
  using assms by (auto simp: pad_views_def bind_res_eq_Inr)

lemma pad_view_Some:
  assumes "pad_view pw rw pl rl pid (Some v) = Inr pv"
  obtains i x where "pv = Some (i, x)"
  using assms by (cases v) (auto simp: pad_view_def bind_res_eq_Inr)

text \<open>Both views of a sample are padded the same way.\<close>

lemma sample_views_pad:
  assumes pads: "pads_with (post_pad env) (post_pad_token_id env)" and ok: "sample_ok env w s"
  defines "pad \<equiv> pad_view (post_prompt_length env) (post_response_length env) (length (ss_prompt s))
                     (length (ss_response s)) (post_pad_token_id env)"
  shows "\<exists>v. aligned_view w (ss_prompt s) (ss_response s) (ss_teacher s) v
           \<and> pad (Some v) = Inr (teacher_view (pd_views (ss_padded s)))"
    and "ss_neg s = Some sv \<Longrightarrow> \<exists>v. aligned_view w (ss_prompt s) (ss_response s) sv v
           \<and> pad (Some v) = Inr (neg_view (pd_views (ss_padded s)))"
    and "ss_neg s = None \<Longrightarrow> neg_view (pd_views (ss_padded s)) = None"
proof -
  have len: "length (ss_prompt s) \<le> post_prompt_length env" "length (ss_response s) \<le> post_response_length env"
    and run: "agent_loop_postprocess env (ss_out s) (Inr (ss_views s)) = Inr (ss_padded s)"
    using ok by (simp_all add: sample_ok_def)
  note each = pad_views_each[OF postprocess_sample(4)[OF pads len run], folded pad_def]
  show "\<exists>v. aligned_view w (ss_prompt s) (ss_response s) (ss_teacher s) v
           \<and> pad (Some v) = Inr (teacher_view (pd_views (ss_padded s)))"
  proof -
    obtain v where "teacher_view (ss_views s) = Some v" "aligned_view w (ss_prompt s) (ss_response s) (ss_teacher s) v"
      using ok by (auto simp: sample_ok_def)
    then show ?thesis using each(1) by (intro exI[of _ v]) simp
  qed
  show "\<exists>v. aligned_view w (ss_prompt s) (ss_response s) sv v
           \<and> pad (Some v) = Inr (neg_view (pd_views (ss_padded s)))" if neg: "ss_neg s = Some sv"
  proof -
    obtain v where "neg_view (ss_views s) = Some v" "aligned_view w (ss_prompt s) (ss_response s) sv v"
      using ok neg by (auto simp: sample_ok_def)
    then show ?thesis using each(2) by (intro exI[of _ v]) simp
  qed
  show "neg_view (pd_views (ss_padded s)) = None" if "ss_neg s = None"
    using ok each(2) that by (simp add: sample_ok_def pad_def pad_view_def)
qed

text \<open>So both land the same way, and have one width.\<close>

lemma sample_views_land:
  assumes pads: "pads_with (post_pad env) (post_pad_token_id env)" and ok: "sample_ok env w s"
  defines "r \<equiv> length (ss_response s)" and "pw \<equiv> post_prompt_length env" and "rw \<equiv> post_response_length env"
  shows "\<exists>i front. teacher_view (pd_views (ss_padded s)) = Some (i, front @ landed w s (ss_teacher s)
            @ replicate (rw - r + 1) (replicate w 0)) \<and> length front = pw - 1"
    and "ss_neg s = Some sv \<Longrightarrow> \<exists>i front. neg_view (pd_views (ss_padded s)) = Some (i, front @ landed w s sv
            @ replicate (rw - r + 1) (replicate w 0)) \<and> length front = pw - 1"
    and "ss_neg s = None \<Longrightarrow> neg_view (pd_views (ss_padded s)) = None"
proof -
  have len: "0 < length (ss_prompt s)" "length (ss_prompt s) \<le> pw" "0 < length (ss_response s)" "length (ss_response s) \<le> rw"
    using ok by (simp_all add: sample_ok_def pw_def rw_def)
  note pad = sample_views_pad[OF pads ok, folded pw_def rw_def]
  have land: "\<exists>i front. sel = Some (i, front @ landed w s sv @ replicate (rw - r + 1) (replicate w 0)) \<and> length front = pw - 1"
    if view: "aligned_view w (ss_prompt s) (ss_response s) sv v"
      and p: "pad_view pw rw (length (ss_prompt s)) (length (ss_response s)) (post_pad_token_id env) (Some v) = Inr sel" for sv v sel
  proof -
    obtain i x where sel: "sel = Some (i, x)" using pad_view_Some[OF p] .
    show ?thesis using padded_view_lands(1)[OF view len p[unfolded sel]] by (auto simp: sel landed_def r_def)
  qed
  show "\<exists>i front. teacher_view (pd_views (ss_padded s)) = Some (i, front @ landed w s (ss_teacher s)
            @ replicate (rw - r + 1) (replicate w 0)) \<and> length front = pw - 1"
    using pad(1) land by blast
  show "\<exists>i front. neg_view (pd_views (ss_padded s)) = Some (i, front @ landed w s sv
            @ replicate (rw - r + 1) (replicate w 0)) \<and> length front = pw - 1" if "ss_neg s = Some sv"
    using pad(2)[OF that] land by blast
  show "neg_view (pd_views (ss_padded s)) = None" if "ss_neg s = None"
    using pad(3)[OF that] .
qed

definition wide :: "nat \<Rightarrow> nat \<Rightarrow> 'a rows \<Rightarrow> bool" where
  "wide n w rows \<longleftrightarrow> length rows = n \<and> (\<forall>row\<in>set rows. length row = w)"

lemma sample_views_wide:
  assumes pads: "pads_with (post_pad env) (post_pad_token_id env)" and ok: "sample_ok env w s"
  defines "n \<equiv> post_prompt_length env + post_response_length env"
  shows "\<exists>i x. teacher_view (pd_views (ss_padded s)) = Some (i, x) \<and> wide n w i \<and> wide n w x"
    and "ss_neg s = Some sv \<Longrightarrow> \<exists>i x. neg_view (pd_views (ss_padded s)) = Some (i, x) \<and> wide n w i \<and> wide n w x"
proof -
  define pw rw where "pw = post_prompt_length env" and "rw = post_response_length env"
  have len: "0 < length (ss_prompt s)" "length (ss_prompt s) \<le> pw" "0 < length (ss_response s)" "length (ss_response s) \<le> rw"
    using ok by (simp_all add: sample_ok_def pw_def rw_def)
  note pad = sample_views_pad[OF pads ok, folded pw_def rw_def]
  have width: "\<exists>i x. sel = Some (i, x) \<and> wide n w i \<and> wide n w x"
    if view: "aligned_view w (ss_prompt s) (ss_response s) sv v"
      and p: "pad_view pw rw (length (ss_prompt s)) (length (ss_response s)) (post_pad_token_id env) (Some v) = Inr sel" for sv v sel
  proof -
    obtain i x where sel: "sel = Some (i, x)" using pad_view_Some[OF p] .
    show ?thesis using padded_view_lands(2-5)[OF view len p[unfolded sel]] by (simp add: sel wide_def n_def pw_def rw_def)
  qed
  show "\<exists>i x. teacher_view (pd_views (ss_padded s)) = Some (i, x) \<and> wide n w i \<and> wide n w x"
    using pad(1) width by blast
  show "\<exists>i x. neg_view (pd_views (ss_padded s)) = Some (i, x) \<and> wide n w i \<and> wide n w x" if "ss_neg s = Some sv"
    using pad(2)[OF that] width by blast
qed

section \<open>The batch the loss and the gates read\<close>

lemma cat_simps:
  "cat_rows xs = Inr ys \<longleftrightarrow> xs \<noteq> [] \<and> (\<forall>x\<in>set xs. length x = length (hd xs)) \<and> ys = xs"
  "cat_when True f os = Inr y \<longleftrightarrow> None \<notin> set os \<and> (\<exists>z. f (map the os) = Inr z \<and> y = Some z)"
  "cat_when False f os = Inr y \<longleftrightarrow> y = None"
  by (auto simp: cat_rows_def cat_when_def all_some_def bind_res_eq_Inr)

lemma cat_views_Inr: "cat_views xs = Inr ys \<Longrightarrow> ys = xs"
  by (auto simp: cat_views_def bind_res_eq_Inr cat_simps)

lemma cat_when_views: "cat_when c cat_views os = Inr y \<Longrightarrow> y = (if c then Some (map the os) else None)"
  using cat_views_Inr by (cases c) (auto simp: cat_simps)

lemma postprocess_batch_Inr:
  assumes "postprocess_batch ins = Inr b"
  shows "ins \<noteq> []" "bo_prompts b = map pd_prompt_ids ins" "bo_responses b = map pd_response_ids ins"
    "bo_response_mask b = map pd_response_mask ins" "bo_attention_mask b = map pd_attention_mask ins"
    "teacher_view (pd_views (hd ins)) \<noteq> None \<Longrightarrow>
       bo_teacher b = Some (map (\<lambda>i. the (lps_of (teacher_view (pd_views i)))) ins,
                            map (\<lambda>i. the (map_option fst (teacher_view (pd_views i)))) ins)"
    "\<exists>i\<in>set ins. neg_view (pd_views i) \<noteq> None \<Longrightarrow>
       bo_neg_view_logprobs b = Some (map (\<lambda>i. the (fallback_view neg_view (pd_views i))) ins)"
proof -
  have prog: "ins \<noteq> [] \<and> bo_prompts b = map pd_prompt_ids ins \<and> bo_responses b = map pd_response_ids ins
    \<and> bo_response_mask b = map pd_response_mask ins \<and> bo_attention_mask b = map pd_attention_mask ins
    \<and> (\<exists>tlps tids. cat_when (teacher_view (pd_views (hd ins)) \<noteq> None) cat_views
                       (map (\<lambda>v. lps_of (teacher_view v)) (map pd_views ins)) = Inr tlps
         \<and> cat_when (teacher_view (pd_views (hd ins)) \<noteq> None) cat_views
                       (map (\<lambda>v. map_option fst (teacher_view v)) (map pd_views ins)) = Inr tids
         \<and> bo_teacher b = (case (tlps, tids) of (Some l, Some i) \<Rightarrow> Some (l, i) | _ \<Rightarrow> None))
    \<and> cat_when (\<exists>v\<in>set (map pd_views ins). neg_view v \<noteq> None) cat_views
         (map (fallback_view neg_view) (map pd_views ins)) = Inr (bo_neg_view_logprobs b)"
    using assms unfolding postprocess_batch_def Let_def
    by (elim bind_res_eq_Inr[THEN iffD1, elim_format] exE conjE) (auto simp: cat_simps)
  from prog show "ins \<noteq> []" "bo_prompts b = map pd_prompt_ids ins" "bo_responses b = map pd_response_ids ins"
    "bo_response_mask b = map pd_response_mask ins" "bo_attention_mask b = map pd_attention_mask ins"
    by simp_all
  show "bo_teacher b = Some (map (\<lambda>i. the (lps_of (teacher_view (pd_views i)))) ins,
                            map (\<lambda>i. the (map_option fst (teacher_view (pd_views i)))) ins)"
    if "teacher_view (pd_views (hd ins)) \<noteq> None"
    using prog that by (auto dest!: cat_when_views simp: comp_def)
  show "bo_neg_view_logprobs b = Some (map (\<lambda>i. the (fallback_view neg_view (pd_views i))) ins)"
    if "\<exists>i\<in>set ins. neg_view (pd_views i) \<noteq> None"
    using prog that by (auto dest!: cat_when_views simp: comp_def)
qed

lemma length_landed:
  assumes "sample_ok env w s"
  shows "length (landed w s (ss_teacher s)) = length (ss_response s)"
    and "ss_neg s = Some sv \<Longrightarrow> length (landed w s sv) = length (ss_response s)"
    and "length (sv_scores (ss_teacher s)) = length (ss_response s)"
    and "ss_neg s = Some sv \<Longrightarrow> length (sv_scores sv) = length (ss_response s)"
  using assms by (auto simp: sample_ok_def aligned_view_def server_scored_def landed_def)

lemma batch_masks:
  assumes pads: "pads_with (post_pad env) (post_pad_token_id env)"
    and ok: "\<forall>s\<in>set samples. sample_ok env w s"
    and run: "postprocess_batch (map ss_padded samples) = Inr b"
  shows "samples \<noteq> []"
    and "bo_attention_mask b = map (\<lambda>s. mask_row (post_prompt_length env) (post_response_length env)
           (length (ss_prompt s)) (length (ss_response s))) samples"
    and "length (hd (bo_prompts b)) = post_prompt_length env"
    and "length (hd (bo_responses b)) = post_response_length env"
proof -
  note b = postprocess_batch_Inr[OF run]
  show ne: "samples \<noteq> []" using b(1) by simp
  have each: "pd_attention_mask (ss_padded s) = mask_row (post_prompt_length env) (post_response_length env)
      (length (ss_prompt s)) (length (ss_response s))"
    "length (pd_prompt_ids (ss_padded s)) = post_prompt_length env"
    "length (pd_response_ids (ss_padded s)) = post_response_length env" if "s \<in> set samples" for s
    using postprocess_sample(1-3)[OF pads, of "ss_out s" "ss_views s" "ss_padded s"] ok that
    by (auto simp: sample_ok_def)
  show "bo_attention_mask b = map (\<lambda>s. mask_row (post_prompt_length env) (post_response_length env)
           (length (ss_prompt s)) (length (ss_response s))) samples"
    using each(1) by (simp add: b(5))
  show "length (hd (bo_prompts b)) = post_prompt_length env" "length (hd (bo_responses b)) = post_response_length env"
    using each(2,3) ne by (simp_all add: b(2,3) hd_map)
qed

text \<open>
  C24. The distillation loss reads, for every response token, the row the teacher's server gave it, when the
  server scored a sequence as long as the student's.  When the teacher saw another prompt of another
  length, the first token gets the padding row, log-probability 0, instead of its score, and the
  others their own rows.
\<close>

theorem teacher_scores_reach_loss:
  assumes pads: "pads_with (post_pad env) (post_pad_token_id env)"
    and ok: "\<forall>s\<in>set samples. sample_ok env w s"
    and run: "postprocess_batch (map ss_padded samples) = Inr b"
  shows "\<exists>l i. nb_teacher (left_right_2_no_padding b) = Some (l, i)
    \<and> no_padding_2_padding (replicate w 0) (jag_values l) b
       = Inr (map (\<lambda>s.
           (if length (sv_lps (ss_teacher s)) = length (ss_prompt s) + length (ss_response s)
            then hd (sv_scores (ss_teacher s)) else replicate w 0) # tl (sv_scores (ss_teacher s))
           @ replicate (post_response_length env - length (ss_response s)) (replicate w 0)) samples)"
proof -
  define pw rw where "pw = post_prompt_length env" and "rw = post_response_length env"
  note masks = batch_masks[OF pads ok run, folded pw_def rw_def]
  define X where "X s = the (lps_of (teacher_view (pd_views (ss_padded s))))" for s :: "'a scored_sample"
  have X: "\<exists>front. X s = front @ landed w s (ss_teacher s) @ replicate (rw - length (ss_response s) + 1) (replicate w 0)
      \<and> length front = pw - 1" if "s \<in> set samples" for s
    using sample_views_land(1)[OF pads, of w s] ok that by (auto simp: X_def lps_of_def pw_def rw_def)
  have len: "0 < length (ss_prompt s)" "length (ss_prompt s) \<le> pw" "length (ss_response s) \<le> rw"
    "length (landed w s (ss_teacher s)) = length (ss_response s)" if "s \<in> set samples" for s
    using ok that length_landed(1)[of env w s] by (auto simp: sample_ok_def pw_def rw_def)
  have "teacher_view (pd_views (hd (map ss_padded samples))) \<noteq> None"
    using sample_views_land(1)[OF pads, of w "hd samples"] ok masks(1) by (auto simp: hd_map)
  from postprocess_batch_Inr(6)[OF run this]
  obtain tids where teacher: "bo_teacher b = Some (map X samples, tids)" by (auto simp: X_def comp_def)
  have read: "no_padding_2_padding (replicate w 0) (jag_values (rmpad (bo_attention_mask b) (map X samples))) b
      = Inr (map (\<lambda>s. py_slice (pw - 1) (pw - 1 + length (ss_response s)) (X s)
               @ replicate (rw - length (ss_response s)) (replicate w 0)) samples)"
  proof (rule unpad_slice_window[OF masks(2-4,1)], intro ballI)
    fix s assume s: "s \<in> set samples"
    then show "0 < length (ss_prompt s) \<and> length (ss_prompt s) \<le> pw \<and> length (ss_response s) \<le> rw \<and> length (X s) = pw + rw"
      using X[OF s] len[OF s] less_le_trans[OF len(1,2)[OF s]] by auto
  qed
  have window: "py_slice (pw - 1) (pw - 1 + length (ss_response s)) (X s) = landed w s (ss_teacher s)"
    if "s \<in> set samples" for s
    using X[OF that] len(4)[OF that] py_slice_append by metis
  show ?thesis
    using read window by (simp add: left_right_2_no_padding_def Let_def teacher landed_def rw_def)
qed

text \<open>
  C25. The evidence gate compares the two views one token too late: it reads the columns from the first
  column behind the prompt on, where a row belongs to the next token.  The difference of the first
  response token never counts, and the last valid column is the difference of the dummy rows, 0.
\<close>

theorem gate_reads_next_token:
  assumes pads: "pads_with (post_pad env) (post_pad_token_id env)"
    and ok: "\<forall>s\<in>set samples. sample_ok env 1 s"
    and run: "postprocess_batch (map ss_padded samples) = Inr b"
    and some_neg: "\<exists>s\<in>set samples. ss_neg s \<noteq> None"
    and mask: "length mrows = length samples"
  shows "\<exists>pos ids neg. bo_teacher b = Some (pos, ids) \<and> bo_neg_view_logprobs b = Some neg
    \<and> response_delta (Dim3 pos (post_prompt_length env + post_response_length env) 1)
        (Dim3 neg (post_prompt_length env + post_response_length env) 1)
        (mrows, post_response_length env) (post_prompt_length env)
      = Inr (map (\<lambda>s. map2 (\<lambda>p n. hd p - hd n) (tl (sv_scores (ss_teacher s)))
                       (tl (sv_scores (case ss_neg s of None \<Rightarrow> ss_teacher s | Some sv \<Rightarrow> sv)))
                     @ replicate (post_response_length env - length (ss_response s) + 1) 0) samples)"
proof -
  define pw rw where "pw = post_prompt_length env" and "rw = post_response_length env"
  note masks = batch_masks[OF pads ok run, folded pw_def rw_def]
  define N where "N s = (case ss_neg s of None \<Rightarrow> ss_teacher s | Some sv \<Rightarrow> sv)" for s :: "'a scored_sample"
  define X where "X s = the (lps_of (teacher_view (pd_views (ss_padded s))))" for s :: "'a scored_sample"
  define Y where "Y s = the (fallback_view neg_view (pd_views (ss_padded s)))" for s :: "'a scored_sample"
  define Z where "Z s = replicate (rw - length (ss_response s) + 1) [0 :: real]" for s :: "'a scored_sample"
  have okN: "sample_ok env 1 s" if "s \<in> set samples" for s using ok that by blast
  have X: "\<exists>front. X s = front @ landed 1 s (ss_teacher s) @ Z s \<and> length front = pw - 1" if "s \<in> set samples" for s
    using sample_views_land(1)[OF pads okN[OF that]] by (auto simp: X_def lps_of_def pw_def rw_def Z_def)
  have Y: "\<exists>front. Y s = front @ landed 1 s (N s) @ Z s \<and> length front = pw - 1" if "s \<in> set samples" for s
  proof (cases "ss_neg s")
    case None
    then show ?thesis
      using X[OF that] sample_views_land(3)[OF pads okN[OF that]] by (simp add: N_def Y_def X_def fallback_view_def)
  next
    case (Some sv)
    show ?thesis using sample_views_land(2)[OF pads okN[OF that] Some] Some
      by (auto simp: N_def Y_def fallback_view_def pw_def rw_def Z_def)
  qed
  have pw: "0 < pw" if "s \<in> set samples" for s
    using okN[OF that] unfolding sample_ok_def pw_def by linarith
  have lens: "0 < pw" "0 < length (ss_response s)" "length (ss_response s) \<le> rw"
    "length (sv_scores (ss_teacher s)) = length (ss_response s)" "length (sv_scores (N s)) = length (ss_response s)"
    if "s \<in> set samples" for s
    using pw[OF that] okN[OF that] length_landed(3,4)[OF okN[OF that]]
    by (auto simp: sample_ok_def pw_def rw_def N_def split: option.splits)
  have slice: "py_slice pw (pw + rw) (front @ landed 1 s sv @ Z s) = tl (sv_scores sv) @ Z s"
    if "s \<in> set samples" "length front = pw - 1" "length (sv_scores sv) = length (ss_response s)" for front sv s
  proof -
    define h where "h = (if length (sv_lps sv) = length (ss_prompt s) + length (ss_response s) then hd (sv_scores sv) else [0])"
    have "length (front @ [h]) = pw" using that lens[OF that(1)] by simp
    moreover have "length (tl (sv_scores sv) @ Z s) = rw"
      using that(3) lens(2,3)[OF that(1)] unfolding Z_def length_append length_tl length_replicate by linarith
    ultimately have "py_slice pw (pw + rw) ((front @ [h]) @ (tl (sv_scores sv) @ Z s) @ []) = tl (sv_scores sv) @ Z s"
      by (rule py_slice_append)
    moreover have "(front @ [h]) @ (tl (sv_scores sv) @ Z s) @ [] = front @ landed 1 s sv @ Z s"
      by (simp add: landed_def h_def)
    ultimately show ?thesis by (simp only:)
  qed
  have len: "length (X s) = pw + rw" "length (Y s) = pw + rw" if s: "s \<in> set samples" for s
  proof -
    have total: "length (front @ landed 1 s sv @ Z s) = pw + rw"
      if "length front = pw - 1" "length (sv_scores sv) = length (ss_response s)" for front sv
    proof -
      have "length (landed 1 s sv) = length (ss_response s)" using that(2) lens(2)[OF s] by (simp add: landed_def)
      then show ?thesis using that(1) lens(1-3)[OF s] by (simp add: Z_def)
    qed
    show "length (X s) = pw + rw" "length (Y s) = pw + rw"
      using X[OF s] Y[OF s] total lens(4,5)[OF s] by metis+
  qed
  have "teacher_view (pd_views (hd (map ss_padded samples))) \<noteq> None"
    using sample_views_land(1)[OF pads okN, of "hd samples"] masks(1) by (auto simp: hd_map)
  from postprocess_batch_Inr(6)[OF run this]
  obtain ids where pos: "bo_teacher b = Some (map X samples, ids)" by (auto simp: X_def comp_def)
  have "\<exists>i\<in>set (map ss_padded samples). neg_view (pd_views i) \<noteq> None"
    using some_neg sample_views_land(2)[OF pads okN] by fastforce
  from postprocess_batch_Inr(7)[OF run this]
  have neg: "bo_neg_view_logprobs b = Some (map Y samples)" by (simp add: Y_def comp_def)
  have row: "map2 (-) (py_slice pw (pw + rw) (map hd (X s))) (py_slice pw (pw + rw) (map hd (Y s)))
      = map2 (\<lambda>p n. hd p - hd n) (tl (sv_scores (ss_teacher s))) (tl (sv_scores (N s)))
        @ replicate (rw - length (ss_response s) + 1) 0" if s: "s \<in> set samples" for s
  proof -
    have x: "py_slice pw (pw + rw) (X s) = tl (sv_scores (ss_teacher s)) @ Z s"
      and y: "py_slice pw (pw + rw) (Y s) = tl (sv_scores (N s)) @ Z s"
      using X[OF s] Y[OF s] slice[OF s] lens(4,5)[OF s] by metis+
    have "py_slice a b (map hd zs) = map hd (py_slice a b zs)" for a b and zs :: "real rows"
      by (simp add: py_slice_def take_map drop_map)
    then show ?thesis using lens(4,5)[OF s]
      by (simp add: x y zip_map1 zip_map2 Z_def zip_replicate split_def comp_def)
  qed
  have "response_delta (Dim3 (map X samples) (pw + rw) 1) (Dim3 (map Y samples) (pw + rw) 1) (mrows, rw) pw
      = Inr (map (\<lambda>s. map2 (-) (py_slice pw (pw + rw) (map hd (X s))) (py_slice pw (pw + rw) (map hd (Y s)))) samples)"
    using mask by (simp add: response_delta_def squeeze_single_logprob_def Let_def zip_map1 zip_map2 zip_same_conv_map split_def comp_def)
  also have "\<dots> = Inr (map (\<lambda>s. map2 (\<lambda>p n. hd p - hd n) (tl (sv_scores (ss_teacher s))) (tl (sv_scores (N s)))
        @ replicate (rw - length (ss_response s) + 1) 0) samples)"
    using row by (simp cong: map_cong)
  finally show ?thesis using pos neg by (simp add: pw_def rw_def N_def)
qed

text \<open>
  For responses of one token the evidence gate sees no difference at all: every score is 0 and every weight
  is the neutral one, whatever the two views are.
\<close>

theorem single_token_evidence_neutral:
  fixes uids :: "('u :: linorder) list"
  assumes pads: "pads_with (post_pad env) (post_pad_token_id env)"
    and ok: "\<forall>s\<in>set samples. sample_ok env 1 s \<and> length (ss_response s) = 1"
    and run: "postprocess_batch (map ss_padded samples) = Inr b"
    and some_neg: "\<exists>s\<in>set samples. ss_neg s \<noteq> None"
    and uids: "length uids = length samples"
  shows "\<exists>pos ids neg m. bo_teacher b = Some (pos, ids) \<and> bo_neg_view_logprobs b = Some neg
    \<and> compute_relative_evidence_opd_weights
        (Dim3 pos (post_prompt_length env + post_response_length env) 1)
        (Dim3 neg (post_prompt_length env + post_response_length env) 1)
        (map (map real_of_int) (bo_response_mask b), post_response_length env) (post_prompt_length env)
        uids gamma alpha w_min w_max eps
      = Inr (replicate (length samples) (clamp w_min w_max 1), m,
             (replicate (length samples) 0, replicate (length samples) 0))"
proof -
  define rw mrows where "rw = post_response_length env" and "mrows = map (map real_of_int) (bo_response_mask b)"
  have mrows: "length mrows = length samples" by (simp add: mrows_def postprocess_batch_Inr(4)[OF run])
  have ok1: "\<forall>s\<in>set samples. sample_ok env 1 s" using ok by blast
  have ne: "samples \<noteq> []" using batch_masks(1)[OF pads ok1 run] .
  have "0 < rw" using ok ne by (cases samples) (auto simp: sample_ok_def rw_def)
  have none: "map2 f (tl (sv_scores (ss_teacher s))) xs @ replicate (rw - length (ss_response s) + 1) (0 :: real) = replicate rw 0"
    if "s \<in> set samples" for s f and xs :: "real rows"
  proof -
    have "tl (sv_scores (ss_teacher s)) = []"
      using ok that length_landed(3)[of env 1 s] by (cases "sv_scores (ss_teacher s)") auto
    then show ?thesis using ok that \<open>0 < rw\<close> by simp
  qed
  obtain pos ids neg where views: "bo_teacher b = Some (pos, ids)" "bo_neg_view_logprobs b = Some neg"
    and delta: "response_delta (Dim3 pos (post_prompt_length env + rw) 1) (Dim3 neg (post_prompt_length env + rw) 1)
        (mrows, rw) (post_prompt_length env) = Inr (map (\<lambda>s. replicate rw 0) samples)"
    using gate_reads_next_token[OF pads ok1 run some_neg mrows] none unfolding rw_def[symmetric]
    by (auto cong: map_cong)
  have tok: "map (map (token_score gamma)) (map (\<lambda>s. replicate rw 0) samples) = map (\<lambda>s. replicate rw 0) samples"
    by (simp add: token_score_def relu_def)
  have seq: "seq_score eps (replicate n 0) m = 0" for n m
  proof -
    have "map2 (*) (replicate n (0 :: real)) m = map (\<lambda>_. 0) (zip (replicate n (0 :: real)) m)"
      by (rule map_cong) (auto simp: in_set_zip)
    then have "sum_list (map2 (*) (replicate n (0 :: real)) m) = 0" by (simp only: sum_list_0)
    then show ?thesis by (simp add: seq_score_def)
  qed
  define scores where "scores = map2 (seq_score eps) (map (\<lambda>s. replicate rw 0) samples) mrows"
  have scores: "scores = replicate (length samples) 0"
    using mrows by (intro replicate_eqI) (auto simp: scores_def seq in_set_zip)
  have adv: "uid_advantages eps scores uids = replicate (length samples) 0"
  proof (rule replicate_eqI)
    show "length (uid_advantages eps scores uids) = length samples" by (simp add: scores)
    show "a = 0" if "a \<in> set (uid_advantages eps scores uids)" for a
      by (rule normalised_const[OF _ uid_advantages_mem[OF _ that], of 0]) (simp_all add: scores uids)
  qed
  have weights: "map (gate alpha w_min w_max) (uid_advantages eps scores uids) = replicate (length samples) (clamp w_min w_max 1)"
    by (simp add: adv gate_def)
  have "\<exists>m. compute_relative_evidence_opd_weights (Dim3 pos (post_prompt_length env + rw) 1)
        (Dim3 neg (post_prompt_length env + rw) 1) (mrows, rw) (post_prompt_length env) uids gamma alpha w_min w_max eps
      = Inr (replicate (length samples) (clamp w_min w_max 1), m,
             (replicate (length samples) 0, replicate (length samples) 0))"
    unfolding compute_relative_evidence_opd_weights_def delta bind_res_simps Let_def fst_conv tok
      scores_def[symmetric] weights
    using ne mrows uids by (simp add: adv[unfolded scores] scores)
  then show ?thesis unfolding mrows_def[symmetric] rw_def[symmetric] using views by blast
qed

section \<open>The batch is assembled\<close>

text \<open>
  Plain samples: a text model, no routed experts, only the teacher's view and possibly a negative one, and
  log-probabilities for all samples or for none, as long as the response.
\<close>

definition plain_samples :: "'x post_env \<Rightarrow> 'x scored_sample list \<Rightarrow> bool" where
  "plain_samples env samples \<longleftrightarrow>
     post_rope env = None
     \<and> (\<forall>s\<in>set samples. length (out_response_mask (ss_out s)) = length (ss_response s)
          \<and> out_routed_experts (ss_out s) = None
          \<and> base_view (ss_views s) = None \<and> base_dense_view (ss_views s) = None \<and> nocue_view (ss_views s) = None)
     \<and> ((\<forall>s\<in>set samples. out_response_logprobs (ss_out s) = None)
        \<or> (\<forall>s\<in>set samples. \<exists>l. out_response_logprobs (ss_out s) = Some l \<and> length l = length (ss_response s)))"

lemma postprocess_plain:
  assumes pads: "pads_with (post_pad env) (post_pad_token_id env)"
    and len: "length (out_prompt_ids out) \<le> post_prompt_length env" "length (out_response_ids out) \<le> post_response_length env"
    and run: "agent_loop_postprocess env out (Inr v) = Inr i"
    and plain: "post_rope env = None" "length (out_response_mask out) = length (out_response_ids out)"
      "out_routed_experts out = None" "base_view v = None" "base_dense_view v = None" "nocue_view v = None"
  shows "length (pd_response_mask i) = post_response_length env"
    and "length (pd_input_ids i) = post_prompt_length env + post_response_length env"
    and "length (pd_position_ids i) = 1"
    and "pd_response_logprobs i = map_option (\<lambda>l. l @ replicate (post_response_length env - length l) 0) (out_response_logprobs out)"
    and "pd_routed_experts i = None" and "pd_reward_score i = out_reward_score out"
    and "base_view (pd_views i) = None" and "base_dense_view (pd_views i) = None" and "nocue_view (pd_views i) = None"
proof -
  have pad: "post_pad env True m ids = (replicate (m - length ids) (post_pad_token_id env) @ ids,
        replicate (m - length ids) 0 @ replicate (length ids) 1)"
    "post_pad env False m ids = (ids @ replicate (m - length ids) (post_pad_token_id env),
        replicate (length ids) 1 @ replicate (m - length ids) 0)" for m ids
    using pads by (simp_all add: pads_with_def)
  show "length (pd_response_mask i) = post_response_length env"
    "length (pd_input_ids i) = post_prompt_length env + post_response_length env"
    "length (pd_position_ids i) = 1"
    "pd_response_logprobs i = map_option (\<lambda>l. l @ replicate (post_response_length env - length l) 0) (out_response_logprobs out)"
    "pd_routed_experts i = None" "pd_reward_score i = out_reward_score out"
    "base_view (pd_views i) = None" "base_dense_view (pd_views i) = None" "nocue_view (pd_views i) = None"
    using run len plain
    by (auto simp: agent_loop_postprocess_def pad bind_res_eq_Inr Let_def compute_position_ids_def pad_views_def pad_view_def
        split: option.splits)
qed

lemma cat_rows_ok: "xs \<noteq> [] \<Longrightarrow> (\<And>x. x \<in> set xs \<Longrightarrow> length x = n) \<Longrightarrow> cat_rows xs = Inr xs"
  by (cases xs) (auto simp: cat_rows_def)

lemma cat_views_ok:
  assumes "xs \<noteq> []" "\<And>x. x \<in> set xs \<Longrightarrow> length x = n \<and> (\<forall>row\<in>set x. length row = w)" "0 < n"
  shows "cat_views xs = Inr xs"
proof -
  have "cat_rows xs = Inr xs" using assms(1,2) by (auto intro: cat_rows_ok)
  moreover have "hd xs \<in> set xs" using assms(1) by simp
  then have "hd xs \<noteq> []" "\<forall>row\<in>set (hd xs). length row = w" using assms(2,3) by fastforce+
  then have "length (hd (hd xs)) = w" by simp
  ultimately show ?thesis using assms(2) by (auto simp: cat_views_def)
qed

lemma cat_when_ok:
  "None \<notin> set os \<Longrightarrow> f (map the os) = Inr y \<Longrightarrow> cat_when b f os = Inr (if b then Some y else None)"
  by (simp add: cat_when_def all_some_def)


lemma map_res_map: "map_res f (map g xs) = map_res (\<lambda>x. f (g x)) xs"
  by (induction xs) simp_all

lemma rm_score_row_ok:
  assumes "sum_list (drop pw am) = r" "0 < r" "r \<le> rw"
  shows "rm_score_row pw rw am score = Inr ((replicate rw 0)[r - 1 := score])"
  using assms by (simp add: rm_score_row_def)

text \<open>
  Plain samples, with tokens on both sides, that fit the widths are assembled: the batch has one row per
  sample, every column its configured width, and a reward row, with the reward at the last response
  token, when every sample has a reward.
\<close>

theorem batch_assembled:
  assumes pads: "pads_with (post_pad env) (post_pad_token_id env)"
    and ok: "\<forall>s\<in>set samples. sample_ok env w s"
    and plain: "plain_samples env samples" and ne: "samples \<noteq> []"
  shows "\<exists>b. postprocess_batch (map ss_padded samples) = Inr b
    \<and> map length (bo_prompts b) = replicate (length samples) (post_prompt_length env)
    \<and> map length (bo_responses b) = replicate (length samples) (post_response_length env)
    \<and> map length (bo_response_mask b) = replicate (length samples) (post_response_length env)
    \<and> map length (bo_input_ids b) = replicate (length samples) (post_prompt_length env + post_response_length env)
    \<and> map length (bo_attention_mask b) = replicate (length samples) (post_prompt_length env + post_response_length env)
    \<and> bo_rm_scores b =
        (if \<forall>s\<in>set samples. out_reward_score (ss_out s) \<noteq> None
         then Some (map (\<lambda>s. (replicate (post_response_length env) 0)
                [length (ss_response s) - 1 := the (out_reward_score (ss_out s))]) samples)
         else None)"
proof -
  define pl rl where "pl = post_prompt_length env" and "rl = post_response_length env"
  define ins where "ins = map ss_padded samples"
  have run: "agent_loop_postprocess env (ss_out s) (Inr (ss_views s)) = Inr (ss_padded s)"
    and len: "length (ss_prompt s) \<le> post_prompt_length env" "length (ss_response s) \<le> post_response_length env"
      "0 < length (ss_prompt s)" "0 < length (ss_response s)"
    if "s \<in> set samples" for s
    using ok that by (simp_all add: sample_ok_def)
  note ps = postprocess_sample[OF pads len(1,2) run]
  have pp: "length (pd_response_mask (ss_padded s)) = rl" "length (pd_input_ids (ss_padded s)) = pl + rl"
    "length (pd_position_ids (ss_padded s)) = 1"
    "pd_response_logprobs (ss_padded s) = map_option (\<lambda>l. l @ replicate (rl - length l) 0) (out_response_logprobs (ss_out s))"
    "pd_routed_experts (ss_padded s) = None" "pd_reward_score (ss_padded s) = out_reward_score (ss_out s)"
    "base_view (pd_views (ss_padded s)) = None" "base_dense_view (pd_views (ss_padded s)) = None"
    "nocue_view (pd_views (ss_padded s)) = None" if s: "s \<in> set samples" for s
    using postprocess_plain[OF pads len(1,2)[OF s] run[OF s]] plain s unfolding plain_samples_def pl_def rl_def by auto
  have mask: "length (pd_attention_mask (ss_padded s)) = pl + rl" "sum_list (drop pl (pd_attention_mask (ss_padded s))) = length (ss_response s)"
    if s: "s \<in> set samples" for s
    using ps(1)[OF s s s] mask_row_simps(1,3)[OF len(1,2)[OF s]] by (simp_all add: pl_def rl_def)
  have hd: "hd samples \<in> set samples" "hd ins = ss_padded (hd samples)" "ins \<noteq> []"
    using ne by (simp_all add: ins_def hd_map)
  have rows: "cat_rows (map f ins) = Inr (map f ins)" if "\<And>s. s \<in> set samples \<Longrightarrow> length (f (ss_padded s)) = n"
    for f :: "'a padded_output \<Rightarrow> 'c list" and n
    by (rule cat_rows_ok) (use that ne in \<open>auto simp: ins_def\<close>)
  note wide = sample_views_wide[OF pads ok[rule_format], folded pl_def rl_def]
  have views: "cat_views (map f ins) = Inr (map f ins)"
    if "\<And>s. s \<in> set samples \<Longrightarrow> wide (pl + rl) w (f (ss_padded s))" for f :: "'a padded_output \<Rightarrow> 'c rows"
  proof (rule cat_views_ok)
    show "0 < pl + rl" using len(2,4)[OF hd(1)] unfolding pl_def rl_def by linarith
  qed (use that hd(3) in \<open>auto simp: ins_def wide_def\<close>)
  have logprobs: "\<exists>L. cat_when (pd_response_logprobs (hd ins) \<noteq> None) cat_rows (map pd_response_logprobs ins) = Inr L"
  proof (cases "\<forall>s\<in>set samples. out_response_logprobs (ss_out s) = None")
    case True
    then show ?thesis using pp(4)[OF hd(1)] hd by (simp add: cat_when_def)
  next
    case False
    then have "\<forall>s\<in>set samples. \<exists>l. out_response_logprobs (ss_out s) = Some l \<and> length l = length (ss_response s)"
      using plain by (auto simp: plain_samples_def)
    then have some: "\<exists>l. pd_response_logprobs (ss_padded s) = Some l \<and> length l = rl" if "s \<in> set samples" for s
      using pp(4)[OF that] len(2)[OF that] that by (fastforce simp: rl_def)
    have "cat_rows (map (the \<circ> pd_response_logprobs) ins) = Inr (map (the \<circ> pd_response_logprobs) ins)"
      by (rule rows[of _ rl]) (use some in fastforce)
    moreover have "None \<notin> set (map pd_response_logprobs ins)" using some by (fastforce simp: ins_def)
    ultimately show ?thesis by (auto simp: cat_when_def all_some_def)
  qed
  have teacher: "cat_when (teacher_view (pd_views (hd ins)) \<noteq> None) cat_views (map (\<lambda>v. lps_of (teacher_view v)) (map pd_views ins))
      = Inr (Some (map (\<lambda>i. snd (the (teacher_view (pd_views i)))) ins))"
    "cat_when (teacher_view (pd_views (hd ins)) \<noteq> None) cat_views (map (\<lambda>v. map_option fst (teacher_view v)) (map pd_views ins))
      = Inr (Some (map (\<lambda>i. fst (the (teacher_view (pd_views i)))) ins))"
  proof -
    have some: "teacher_view (pd_views i) \<noteq> None" if "i \<in> set ins" for i
      using that wide(1) by (fastforce simp: ins_def)
    have "cat_views (map (\<lambda>i. snd (the (teacher_view (pd_views i)))) ins) = Inr (map (\<lambda>i. snd (the (teacher_view (pd_views i)))) ins)"
      "cat_views (map (\<lambda>i. fst (the (teacher_view (pd_views i)))) ins) = Inr (map (\<lambda>i. fst (the (teacher_view (pd_views i)))) ins)"
      by (rule views, use wide(1) in fastforce)+
    moreover have "map the (map (\<lambda>v. lps_of (teacher_view v)) (map pd_views ins)) = map (\<lambda>i. snd (the (teacher_view (pd_views i)))) ins"
      "map the (map (\<lambda>v. map_option fst (teacher_view v)) (map pd_views ins)) = map (\<lambda>i. fst (the (teacher_view (pd_views i)))) ins"
      by (simp_all only: map_map comp_def lps_of_def) (rule map_cong[OF refl option.map_sel[OF some]], assumption)+
    moreover have "None \<notin> set (map (\<lambda>v. lps_of (teacher_view v)) (map pd_views ins))"
      "None \<notin> set (map (\<lambda>v. map_option fst (teacher_view v)) (map pd_views ins))"
      using some by (fastforce simp: lps_of_def)+
    moreover have "hd ins \<in> set ins" using hd(3) by simp
    ultimately show "cat_when (teacher_view (pd_views (hd ins)) \<noteq> None) cat_views (map (\<lambda>v. lps_of (teacher_view v)) (map pd_views ins))
      = Inr (Some (map (\<lambda>i. snd (the (teacher_view (pd_views i)))) ins))"
      "cat_when (teacher_view (pd_views (hd ins)) \<noteq> None) cat_views (map (\<lambda>v. map_option fst (teacher_view v)) (map pd_views ins))
      = Inr (Some (map (\<lambda>i. fst (the (teacher_view (pd_views i)))) ins))"
      using some[of "hd ins"] by (simp_all only: cat_when_ok simp_thms if_True not_None_eq)
  qed
  have neg: "\<exists>N. cat_when (\<exists>v\<in>set (map pd_views ins). neg_view v \<noteq> None) cat_views (map (fallback_view neg_view) (map pd_views ins)) = Inr N"
  proof -
    have fb: "\<exists>x. fallback_view neg_view (pd_views (ss_padded s)) = Some x \<and> wide (pl + rl) w x" if s: "s \<in> set samples" for s
      using wide(1)[OF s] wide(2)[OF s] sample_views_pad(3)[OF pads ok[rule_format, OF s]]
      by (cases "ss_neg s") (auto simp: fallback_view_def lps_of_def)
    have "cat_views (map (\<lambda>i. the (fallback_view neg_view (pd_views i))) ins) = Inr (map (\<lambda>i. the (fallback_view neg_view (pd_views i))) ins)"
      by (rule views) (use fb in fastforce)
    moreover have "None \<notin> set (map (fallback_view neg_view) (map pd_views ins))" using fb by (fastforce simp: ins_def)
    ultimately show ?thesis by (auto simp: cat_when_def all_some_def comp_def)
  qed
  have scores: "(if \<forall>i\<in>set ins. pd_reward_score i \<noteq> None
       then bind_res (map_res (\<lambda>i. rm_score_row pl rl (pd_attention_mask i) (the (pd_reward_score i))) ins) (\<lambda>s. Inr (Some s))
       else Inr None)
     = Inr (if \<forall>s\<in>set samples. out_reward_score (ss_out s) \<noteq> None
         then Some (map (\<lambda>s. (replicate rl 0)[length (ss_response s) - 1 := the (out_reward_score (ss_out s))]) samples)
         else None)"
  proof -
    have "map_res (\<lambda>s. rm_score_row pl rl (pd_attention_mask (ss_padded s)) (the (pd_reward_score (ss_padded s)))) samples
        = Inr (map (\<lambda>s. (replicate rl 0)[length (ss_response s) - 1 := the (out_reward_score (ss_out s))]) samples)"
      by (rule map_res_Inr) (use mask(2) len(2,4) pp(6) in \<open>simp add: rm_score_row_ok rl_def\<close>)
    then show ?thesis using pp(6) by (simp add: ins_def map_res_map)
  qed
  obtain L N where L: "cat_when (pd_response_logprobs (hd ins) \<noteq> None) cat_rows (map pd_response_logprobs ins) = Inr L"
    and N: "cat_when (\<exists>v\<in>set (map pd_views ins). neg_view v \<noteq> None) cat_views (map (fallback_view neg_view) (map pd_views ins)) = Inr N"
    using logprobs neg by blast
  have none: "pd_routed_experts (hd ins) = None" "base_view (pd_views (hd ins)) = None" "base_dense_view (pd_views (hd ins)) = None"
    "\<not> (\<exists>v\<in>set (map pd_views ins). nocue_view v \<noteq> None)"
    using pp(5,7,8)[OF hd(1)] hd(2) pp(9) by (auto simp: ins_def)
  have nones: "cat_when (pd_routed_experts (hd ins) \<noteq> None) cat_rows (map pd_routed_experts ins) = Inr None"
    "cat_when (base_view (pd_views (hd ins)) \<noteq> None) cat_views (map (\<lambda>v. lps_of (base_view v)) (map pd_views ins)) = Inr None"
    "cat_when (base_dense_view (pd_views (hd ins)) \<noteq> None) cat_views (map (\<lambda>v. lps_of (base_dense_view v)) (map pd_views ins)) = Inr None"
    "cat_when (\<exists>v\<in>set (map pd_views ins). nocue_view v \<noteq> None) cat_views (map (fallback_view nocue_view) (map pd_views ins)) = Inr None"
    unfolding cat_when_def using none by (simp_all only: if_False if_True not_not simp_thms)
  have cats: "cat_rows (map pd_prompt_ids ins) = Inr (map pd_prompt_ids ins)"
    "cat_rows (map pd_response_ids ins) = Inr (map pd_response_ids ins)"
    "cat_rows (map pd_response_mask ins) = Inr (map pd_response_mask ins)"
    "cat_rows (map pd_attention_mask ins) = Inr (map pd_attention_mask ins)"
    "cat_rows (map pd_input_ids ins) = Inr (map pd_input_ids ins)"
    "cat_rows (map pd_position_ids ins) = Inr (map pd_position_ids ins)"
    using ps(2,3) pp(1-3) mask(1) by (auto intro!: rows simp: pl_def rl_def)
  have widths: "length (hd (map pd_prompt_ids ins)) = pl" "length (hd (map pd_response_mask ins)) = rl"
    using hd ps(2)[OF hd(1) hd(1) hd(1)] pp(1)[OF hd(1)] by (simp_all add: hd_map pl_def)
  have "postprocess_batch ins = Inr \<lparr>bo_prompts = map pd_prompt_ids ins, bo_responses = map pd_response_ids ins,
      bo_response_mask = map pd_response_mask ins, bo_input_ids = map pd_input_ids ins,
      bo_attention_mask = map pd_attention_mask ins, bo_position_ids = map pd_position_ids ins, bo_rollout_log_probs = L,
      bo_routed_experts = None,
      bo_teacher = Some (map (\<lambda>i. snd (the (teacher_view (pd_views i)))) ins, map (\<lambda>i. fst (the (teacher_view (pd_views i)))) ins),
      bo_base_logprobs = None, bo_base_dense_logprobs = None, bo_neg_view_logprobs = N, bo_nocue_logprobs = None,
      bo_rm_scores = (if \<forall>s\<in>set samples. out_reward_score (ss_out s) \<noteq> None
         then Some (map (\<lambda>s. (replicate rl 0)[length (ss_response s) - 1 := the (out_reward_score (ss_out s))]) samples)
         else None)\<rparr>"
    unfolding postprocess_batch_def cats bind_res_simps Let_def widths L N teacher scores nones
    by simp
  then show ?thesis
    using ps(2,3) pp(1,2) mask(1) by (auto simp: ins_def pl_def rl_def intro!: replicate_eqI)
qed

section \<open>A concrete batch\<close>

definition max_length_pad :: "int \<Rightarrow> tok_pad" where
  "max_length_pad pad_id left m ids =
     (if left then (replicate (m - length ids) pad_id @ ids, replicate (m - length ids) 0 @ replicate (length ids) 1)
      else (ids @ replicate (m - length ids) pad_id, replicate (length ids) 1 @ replicate (m - length ids) 0))"

lemma max_length_pad: "pads_with (max_length_pad pad_id) pad_id"
  by (simp add: pads_with_def max_length_pad_def)

definition example_post_env :: "unit post_env" where
  "example_post_env = \<lparr>post_pad = max_length_pad 0, post_pad_token_id = 0, post_prompt_length = 2,
     post_response_length = 2, post_rope = None, post_zero_expert = ()\<rparr>"

text \<open>
  One prompt token; the teacher's server scored a sequence of the student's length, the one of the negative
  view a sequence with one more prompt token.
\<close>

definition example_teacher :: "int list \<Rightarrow> scored_view" where
  "example_teacher response =
     (let S = map (\<lambda>t. [- real_of_int t]) response
      in \<lparr>sv_ids = map (\<lambda>t. [t]) response @ [[0]], sv_lps = S @ [[0]], sv_scores = S\<rparr>)"

definition example_neg :: "int list \<Rightarrow> scored_view" where
  "example_neg response =
     (let S = map (\<lambda>t. [- 2 * real_of_int t]) response
      in \<lparr>sv_ids = [9] # map (\<lambda>t. [t]) response @ [[0]], sv_lps = [-9] # S @ [[0]], sv_scores = S\<rparr>)"

definition example_align :: "int list \<Rightarrow> scored_view \<Rightarrow> view" where
  "example_align response sv =
     projr (align_response (sv_ids sv) (sv_lps sv) ([5] @ response) (Some (length response)))"

definition example_sample :: "int list \<Rightarrow> unit scored_sample" where
  "example_sample response =
     (let out = \<lparr>out_prompt_ids = [5], out_response_ids = response, out_response_mask = map (\<lambda>_. 1) response,
                 out_response_logprobs = None, out_routed_experts = None, out_reward_score = Some 1, out_num_turns = 2\<rparr>;
          v = no_views\<lparr>teacher_view := Some (example_align response (example_teacher response)),
                        neg_view := Some (example_align response (example_neg response))\<rparr>
      in \<lparr>ss_out = out, ss_teacher = example_teacher response, ss_neg = Some (example_neg response), ss_views = v,
          ss_padded = projr (agent_loop_postprocess example_post_env out (Inr v))\<rparr>)"

lemmas example_sample_defs = example_sample_def example_align_def example_teacher_def example_neg_def
  example_post_env_def max_length_pad_def no_views_def align_response_def last_n_def py_tail_def
  agent_loop_postprocess_def pad_views_def pad_view_def pad_teacher_outputs_def pad_rows_def pad_front_def
  pad_back_def compute_position_ids_def compute_position_id_with_mask_def Let_def

lemma example_sample_ok:
  "sample_ok example_post_env 1 (example_sample [1, 2])" "sample_ok example_post_env 1 (example_sample [3])"
  by (simp_all add: sample_ok_def aligned_view_def server_scored_def example_sample_defs)

lemma example_batch: "\<exists>b. postprocess_batch (map ss_padded [example_sample [3]]) = Inr b"
  "\<exists>b. postprocess_batch (map ss_padded [example_sample [1, 2]]) = Inr b"
  by (simp_all add: postprocess_batch_def cat_rows_def cat_views_def cat_when_def all_some_def lps_of_def
      fallback_view_def rm_score_row_def example_sample_defs)

theorem teacher_scores_reach_loss_witness:
  "\<exists>b l i. postprocess_batch (map ss_padded [example_sample [1, 2]]) = Inr b
    \<and> nb_teacher (left_right_2_no_padding b) = Some (l, i)
    \<and> no_padding_2_padding [0] (jag_values l) b = Inr [[[-1], [-2]]]"
proof -
  obtain b where b: "postprocess_batch (map ss_padded [example_sample [1, 2]]) = Inr b" using example_batch(2) by blast
  have env: "pads_with (post_pad example_post_env) (post_pad_token_id example_post_env)"
    by (simp add: example_post_env_def max_length_pad)
  have "\<forall>s\<in>set [example_sample [1, 2]]. sample_ok example_post_env 1 s" using example_sample_ok(1) by simp
  from teacher_scores_reach_loss[OF env this b] b show ?thesis
    by (auto simp: example_sample_def example_teacher_def Let_def example_post_env_def)
qed

theorem gate_reads_next_token_witness:
  "\<exists>b pos ids neg. postprocess_batch (map ss_padded [example_sample [1, 2]]) = Inr b
    \<and> bo_teacher b = Some (pos, ids) \<and> bo_neg_view_logprobs b = Some neg
    \<and> response_delta (Dim3 pos 4 1) (Dim3 neg 4 1) ([[1, 1]], 2) 2 = Inr [[2, 0]]"
proof -
  obtain b where b: "postprocess_batch (map ss_padded [example_sample [1, 2]]) = Inr b" using example_batch(2) by blast
  have env: "pads_with (post_pad example_post_env) (post_pad_token_id example_post_env)"
    by (simp add: example_post_env_def max_length_pad)
  have ok: "\<forall>s\<in>set [example_sample [1, 2]]. sample_ok example_post_env 1 s" using example_sample_ok(1) by simp
  have neg: "\<exists>s\<in>set [example_sample [1, 2]]. ss_neg s \<noteq> None" by (simp add: example_sample_def Let_def)
  have mask: "length [[1, 1 :: real]] = length [example_sample [1, 2]]" by simp
  from gate_reads_next_token[OF env ok b neg mask] b show ?thesis
    by (auto simp: example_sample_def example_teacher_def example_neg_def Let_def example_post_env_def)
qed

theorem single_token_evidence_neutral_witness:
  "\<exists>b pos ids neg m. postprocess_batch (map ss_padded [example_sample [3]]) = Inr b
    \<and> bo_teacher b = Some (pos, ids) \<and> bo_neg_view_logprobs b = Some neg
    \<and> compute_relative_evidence_opd_weights (Dim3 pos 4 1) (Dim3 neg 4 1)
        (map (map real_of_int) (bo_response_mask b), 2) 2 [0 :: nat] 1 (1 / 2) 0 2 1
      = Inr ([1], m, ([0], [0]))"
proof -
  obtain b where b: "postprocess_batch (map ss_padded [example_sample [3]]) = Inr b" using example_batch(1) by blast
  have env: "pads_with (post_pad example_post_env) (post_pad_token_id example_post_env)"
    by (simp add: example_post_env_def max_length_pad)
  have ok: "\<forall>s\<in>set [example_sample [3]]. sample_ok example_post_env 1 s \<and> length (ss_response s) = 1"
    using example_sample_ok(2) by (simp add: example_sample_def Let_def)
  have neg: "\<exists>s\<in>set [example_sample [3]]. ss_neg s \<noteq> None" by (simp add: example_sample_def Let_def)
  have "length [0 :: nat] = length [example_sample [3]]" by simp
  from single_token_evidence_neutral[OF env ok b neg this, of 1 "1 / 2" 0 2 1] b show ?thesis
    by (auto simp: example_post_env_def clamp_def)
qed

theorem unpad_slice_window_witness:
  "no_padding_2_padding (0 :: nat) (jag_values (rmpad [mask_row 2 2 1 2, mask_row 2 2 2 1] [[90, 10, 11, 12], [20, 21, 22, 93]]))
     \<lparr>bo_prompts = [[0, 5], [6, 7]], bo_responses = [[7, 8], [9, 0]], bo_response_mask = [], bo_input_ids = [],
      bo_attention_mask = [mask_row 2 2 1 2, mask_row 2 2 2 1], bo_position_ids = [], bo_rollout_log_probs = None,
      bo_routed_experts = (None :: unit list list option), bo_teacher = None, bo_base_logprobs = None, bo_base_dense_logprobs = None,
      bo_neg_view_logprobs = None, bo_nocue_logprobs = None, bo_rm_scores = None\<rparr>
   = Inr [[10, 11], [21, 0]]"
proof -
  define d where "d = \<lparr>bo_prompts = [[0, 5], [6, 7]], bo_responses = [[7, 8], [9, 0]], bo_response_mask = [], bo_input_ids = [],
      bo_attention_mask = [mask_row 2 2 1 2, mask_row 2 2 2 1], bo_position_ids = [], bo_rollout_log_probs = None,
      bo_routed_experts = (None :: unit list list option), bo_teacher = None, bo_base_logprobs = None, bo_base_dense_logprobs = None,
      bo_neg_view_logprobs = None, bo_nocue_logprobs = None, bo_rm_scores = None\<rparr>"
  have masks: "bo_attention_mask d = map (\<lambda>i. mask_row 2 2 (fst i) (fst (snd i))) [(1, 2, [90, 10, 11, 12 :: nat]), (2, 1, [20, 21, 22, 93])]"
    by (simp add: d_def)
  have "length (hd (bo_prompts d)) = 2" "length (hd (bo_responses d)) = 2" by (simp_all add: d_def)
  from unpad_slice_window[OF masks this, of "\<lambda>i. snd (snd i)" "0 :: nat"]
  show ?thesis unfolding d_def[symmetric] by (simp add: d_def py_slice_def)
qed

theorem batch_assembled_witness:
  "\<exists>b. postprocess_batch (map ss_padded [example_sample [1, 2], example_sample [3]]) = Inr b
    \<and> map length (bo_prompts b) = [2, 2] \<and> bo_rm_scores b = Some [[0, 1], [1, 0]]"
proof -
  have env: "pads_with (post_pad example_post_env) (post_pad_token_id example_post_env)"
    by (simp add: example_post_env_def max_length_pad)
  have ok: "\<forall>s\<in>set [example_sample [1, 2], example_sample [3]]. sample_ok example_post_env 1 s"
    using example_sample_ok by simp
  have plain: "plain_samples example_post_env [example_sample [1, 2], example_sample [3]]"
    by (simp add: plain_samples_def example_sample_def no_views_def example_post_env_def Let_def)
  have "[example_sample [1, 2], example_sample [3]] \<noteq> []" by simp
  from batch_assembled[OF env ok plain this] show ?thesis
    by (auto simp: example_post_env_def example_sample_def Let_def numeral_2_eq_2)
qed

end
