(* ===== verification/Rollout_Correction.thy ===== *)
theory Rollout_Correction
  imports Policy_Losses
begin

text \<open>
  \<open>verl/verl/trainer/ppo/rollout_corr_helper.py\<close>: importance weights and rejection masks that correct
  for the gap between the policy that is trained and the one that generated, with their metrics,
  and the policy loss of \<open>core_algos.py\<close> that uses them (\<open>bypass_mode\<close>).  Reading a number from a text is an
  argument (\<open>float(...)\<close>, no value for a \<open>ValueError\<close>).  The weights are normalised within one process;
  the collective variant is not modelled.
\<close>

section \<open>Thresholds\<close>

datatype threshold_spec = Spec_Bool bool | Spec_Num real | Spec_Str string | Spec_Other

type_synonym float_of = "string \<Rightarrow> real option"

definition read_float :: "float_of \<Rightarrow> string \<Rightarrow> real res" where
  "read_float fl s = (case fl s of None \<Rightarrow> Inl ValueError | Some x \<Rightarrow> Inr x)"

definition parse_rollout_is_threshold :: "float_of \<Rightarrow> threshold_spec \<Rightarrow> (real \<times> real option) res" where
  "parse_rollout_is_threshold fl threshold_spec =
     bind_res (case threshold_spec of
        Spec_Bool _ \<Rightarrow> Inl TypeError
      | Spec_Num x \<Rightarrow> Inr (x, None)
      | Spec_Str s \<Rightarrow>
          (let sp = strip s in
           if sp = [] then Inl ValueError
           else if CHR ''_'' \<in> set sp then
             (let (lower_str, upper_str) = split_first (CHR ''_'') sp in
              bind_res (read_float fl lower_str) (\<lambda>lower.
              bind_res (read_float fl upper_str) (\<lambda>upper. Inr (upper, Some lower))))
           else bind_res (read_float fl sp) (\<lambda>upper. Inr (upper, None)))
      | Spec_Other \<Rightarrow> Inl TypeError) (\<lambda>(upper, lower).
     require (0 < upper) ValueError (
     require (case lower of None \<Rightarrow> True | Some l \<Rightarrow> 0 < l) ValueError (
     require (case lower of None \<Rightarrow> True | Some l \<Rightarrow> l \<le> upper) ValueError
       (Inr (upper, lower)))))"

text \<open>The rejection criteria: an estimator per token, or its sum, mean or maximum over a sequence.\<close>

datatype kl_est = K1 | K2 | K3
datatype rs_option = RS_Token kl_est | RS_Seq_Sum kl_est | RS_Seq_Mean kl_est | RS_Seq_Max kl_est

definition SUPPORTED_ROLLOUT_RS_OPTIONS :: "(string \<times> rs_option) list" where
  "SUPPORTED_ROLLOUT_RS_OPTIONS =
     [(''token_k1'', RS_Token K1), (''token_k2'', RS_Token K2), (''token_k3'', RS_Token K3),
      (''seq_sum_k1'', RS_Seq_Sum K1), (''seq_sum_k2'', RS_Seq_Sum K2), (''seq_sum_k3'', RS_Seq_Sum K3),
      (''seq_mean_k1'', RS_Seq_Mean K1), (''seq_mean_k2'', RS_Seq_Mean K2), (''seq_mean_k3'', RS_Seq_Mean K3),
      (''seq_max_k2'', RS_Seq_Max K2), (''seq_max_k3'', RS_Seq_Max K3)]"

fun est_of :: "rs_option \<Rightarrow> kl_est" where
  "est_of (RS_Token k) = k"
| "est_of (RS_Seq_Sum k) = k"
| "est_of (RS_Seq_Mean k) = k"
| "est_of (RS_Seq_Max k) = k"

text \<open>The threshold of one option; a number as a text is \<open>str(x)\<close>, which has no underscore and reads back.\<close>

definition parse_rs_threshold :: "float_of \<Rightarrow> rs_option \<Rightarrow> real + string \<Rightarrow> (real option \<times> real) res" where
  "parse_rs_threshold fl opt spec =
     (let number = (case spec of Inl x \<Rightarrow> Inr x | Inr s \<Rightarrow> read_float fl s);
          ranged = (case spec of Inl _ \<Rightarrow> False | Inr s \<Rightarrow> CHR ''_'' \<in> set s)
      in if est_of opt = K1 then
           bind_res (if ranged then
               (let (lower_str, upper_str) = split_first (CHR ''_'') (projr spec) in
                bind_res (read_float fl lower_str) (\<lambda>lower.
                bind_res (read_float fl upper_str) (\<lambda>upper. Inr (lower, upper))))
             else bind_res number (\<lambda>upper. require (upper \<noteq> 0) ZeroDivisionError (Inr (1 / upper, upper)))) (\<lambda>(lower, upper).
           require (0 < lower \<and> 0 < upper) ValueError (Inr (Some lower, upper)))
         else require (\<not> ranged) ValueError (
           bind_res number (\<lambda>upper. require (0 < upper) ValueError (Inr (None, upper)))))"

definition parse_rollout_rs_thresholds ::
  "float_of \<Rightarrow> rs_option list \<Rightarrow> threshold_spec option \<Rightarrow> (rs_option \<times> real option \<times> real) list res" where
  "parse_rollout_rs_thresholds fl options threshold_spec =
     bind_res (case threshold_spec of
        None \<Rightarrow> Inl ValueError
      | Some (Spec_Num x) \<Rightarrow> Inr [Inl x]
      | Some (Spec_Bool b) \<Rightarrow> Inr [Inr (if b then ''True'' else ''False'')]
      | Some (Spec_Str s) \<Rightarrow> Inr (map Inr (filter (\<lambda>p. p \<noteq> []) (map strip (split_on (CHR '','') s))))
      | Some Spec_Other \<Rightarrow> Inl TypeError) (\<lambda>raw_specs.
     require (raw_specs \<noteq> []) ValueError (
     require (length raw_specs = 1 \<or> length raw_specs = length options) ValueError (
     let specs = (if length raw_specs = 1 \<and> 1 < length options then replicate (length options) (hd raw_specs) else raw_specs)
     in map_res (\<lambda>(opt, spec). bind_res (parse_rs_threshold fl opt spec) (\<lambda>t. Inr (opt, t))) (zip options specs))))"

text \<open>The options of a text, in the order of their first occurrence.\<close>

definition parse_rs_options :: "string \<Rightarrow> rs_option list res" where
  "parse_rs_options rollout_rs =
     (let modes = filter (\<lambda>p. p \<noteq> []) (map strip (split_on (CHR '','') rollout_rs)) in
      require (modes \<noteq> []) ValueError (
      bind_res (map_res (\<lambda>m. case map_of SUPPORTED_ROLLOUT_RS_OPTIONS m of None \<Rightarrow> Inl ValueError | Some x \<Rightarrow> Inr x) modes)
        (\<lambda>opts. Inr (rev (remdups (rev opts))))))"

section \<open>Estimators\<close>

definition SAFETY_BOUND :: real where
  "SAFETY_BOUND = 20"

definition safe :: "real \<Rightarrow> real" where
  "safe x = clamp (- SAFETY_BOUND) SAFETY_BOUND x"

fun token_est :: "kl_est \<Rightarrow> real \<Rightarrow> real" where
  "token_est K1 lr = - safe lr"
| "token_est K2 lr = 1 / 2 * (safe lr)\<^sup>2"
| "token_est K3 lr = exp (safe lr) - 1 - safe lr"

text \<open>The valid entries of a row, and the three reductions over them.\<close>

definition valid_vals :: "real list \<Rightarrow> real list \<Rightarrow> real list" where
  "valid_vals vals m = masked_select [vals] [m]"

definition sequence_sum :: "real list \<Rightarrow> real list \<Rightarrow> real" where
  "sequence_sum vals m = masked_sum [vals] [m]"

definition sequence_mean :: "real list \<Rightarrow> real list \<Rightarrow> real" where
  "sequence_mean vals m = masked_mean [vals] [m]"

definition sequence_max :: "real list \<Rightarrow> real list \<Rightarrow> real" where
  "sequence_max vals m = (if valid_vals vals m = [] then 0 else Max (set (valid_vals vals m)))"

fun row_stat :: "rs_option \<Rightarrow> real list \<Rightarrow> real list \<Rightarrow> real list" where
  "row_stat (RS_Token k) lr m = map (token_est k) lr"
| "row_stat (RS_Seq_Sum k) lr m = replicate (length lr) (sequence_sum (map (token_est k) lr) m)"
| "row_stat (RS_Seq_Mean k) lr m = replicate (length lr) (sequence_mean (map (token_est k) lr) m)"
| "row_stat (RS_Seq_Max k) lr m = replicate (length lr) (sequence_max (map (token_est k) lr) m)"

text \<open>For the first estimator both bounds are taken in logarithms; the others have an upper bound only.\<close>

definition passes :: "rs_option \<Rightarrow> real option \<times> real \<Rightarrow> real \<Rightarrow> bool" where
  "passes opt th s =
     (if est_of opt = K1
      then (case fst th of None \<Rightarrow> False | Some lower \<Rightarrow> ln lower \<le> s \<and> s \<le> ln (snd th))
      else s \<le> snd th)"

definition keep_row :: "rs_option \<times> real option \<times> real \<Rightarrow> real list \<Rightarrow> real list \<Rightarrow> bool list" where
  "keep_row ot lr m = map (passes (fst ot) (snd ot)) (row_stat (fst ot) lr m)"

section \<open>Rejection\<close>

record rs_metrics =
  rs_mean :: real
  rs_max :: real
  rs_min :: real
  rs_fraction_high :: real
  rs_fraction_low :: real
  rs_std :: real
  rs_seq_mean :: real
  rs_seq_std :: real
  rs_seq_max :: real
  rs_seq_min :: real
  rs_seq_max_deviation :: real
  rs_seq_fraction_high :: real
  rs_seq_fraction_low :: "real option"
  rs_option_masked_fraction :: real
  rs_option_seq_masked_fraction :: real

text \<open>\<open>std()\<close> of a tensor with more than one element, 0 otherwise.\<close>

definition std_or_zero :: "real list \<Rightarrow> real" where
  "std_or_zero xs = (if 1 < length xs then sqrt (sum_list (map (\<lambda>x. (x - mean xs)\<^sup>2) xs) / (real (length xs) - 1)) else 0)"

definition fraction :: "('a \<Rightarrow> bool) \<Rightarrow> 'a list \<Rightarrow> real" where
  "fraction P xs = mean (map (\<lambda>x. if P x then 1 else 0) xs)"

definition bool_mat :: "bool list list \<Rightarrow> mat" where
  "bool_mat = map (map (\<lambda>b. if b then 1 else 0))"

definition is_token_option :: "rs_option \<Rightarrow> bool" where
  "is_token_option opt \<longleftrightarrow> (case opt of RS_Token _ \<Rightarrow> True | _ \<Rightarrow> False)"

text \<open>
  The statistics of the valid sequences: the sequence statistic itself, or the mean over the tokens.  At
  least one token is valid, so at least one sequence is.
\<close>

definition compute_rs_metrics :: "rs_option \<times> real option \<times> real \<Rightarrow> mat \<Rightarrow> mat \<Rightarrow> rs_metrics res" where
  "compute_rs_metrics ot log_ratio rmask =
     (let opt = fst ot; k1 = (est_of opt = K1);
          upper = (if k1 then ln (snd (snd ot)) else snd (snd ot));
          lower = (if k1 then ln (the (fst (snd ot))) else 0);
          stat = map2 (row_stat opt) log_ratio rmask;
          keep = map2 (keep_row ot) log_ratio rmask;
          drop_mat = bool_mat (map (map Not) keep);
          valid_rows = filter (\<lambda>(sr, m). 0 < sum_list m) (zip stat rmask);
          seq_valid = map (\<lambda>(sr, m). if is_token_option opt then sequence_mean sr m else hd sr) valid_rows;
          vals = masked_select stat rmask;
          high = (\<lambda>x. upper < x); low = (\<lambda>x. x < lower);
          clamped = mmap (clamp lower upper) stat;
          mean_clamped = masked_mean clamped rmask
      in require (\<exists>m\<in>set rmask. \<exists>b\<in>set m. b \<noteq> 0) ValueError (Inr
        \<lparr>rs_mean = masked_mean stat rmask,
         rs_max = (if is_token_option opt then Max (set vals) else Max (set seq_valid)),
         rs_min = (if is_token_option opt then Min (set vals) else Min (set seq_valid)),
         rs_fraction_high = (if is_token_option opt then masked_mean (bool_mat (map (map high) stat)) rmask else fraction high seq_valid),
         rs_fraction_low = (if \<not> k1 then 0
           else if is_token_option opt then masked_mean (bool_mat (map (map low) stat)) rmask else fraction low seq_valid),
         rs_std = (if 1 < msum rmask
           then sqrt (max 0 (masked_mean (mmap (\<lambda>x. x\<^sup>2) clamped) rmask - mean_clamped\<^sup>2)) else 0),
         rs_seq_mean = mean seq_valid, rs_seq_std = std_or_zero seq_valid,
         rs_seq_max = Max (set seq_valid), rs_seq_min = Min (set seq_valid),
         rs_seq_max_deviation = Max (abs ` set seq_valid),
         rs_seq_fraction_high = fraction high seq_valid,
         rs_seq_fraction_low = (if k1 then Some (fraction low seq_valid) else None),
         rs_option_masked_fraction = masked_mean drop_mat rmask,
         rs_option_seq_masked_fraction =
           fraction (\<lambda>(ks, m). \<exists>i<length m. m ! i \<noteq> 0 \<and> \<not> ks ! i) (filter (\<lambda>(ks, m). 0 < sum_list m) (zip keep rmask))\<rparr>))"

text \<open>A token survives when every option keeps it.\<close>

definition combined_keep :: "(rs_option \<times> real option \<times> real) list \<Rightarrow> mat \<Rightarrow> mat \<Rightarrow> bool list list" where
  "combined_keep ots log_ratio rmask =
     fold (\<lambda>ot acc. map2 (map2 (\<and>)) acc (map2 (keep_row ot) log_ratio rmask)) ots
       (map (map (\<lambda>_. True)) rmask)"

definition compute_rollout_rejection_mask ::
  "float_of \<Rightarrow> mat \<Rightarrow> mat \<Rightarrow> string \<Rightarrow> threshold_spec option
    \<Rightarrow> (mat \<times> (rs_option \<times> rs_metrics) list \<times> (real \<times> real) option) res" where
  "compute_rollout_rejection_mask fl log_ratio rmask rollout_rs rollout_rs_threshold =
     require (rollout_rs_threshold \<noteq> None) ValueError (
     if log_ratio = [] then Inr (rmask, [], None)
     else bind_res (parse_rs_options rollout_rs) (\<lambda>options.
          bind_res (parse_rollout_rs_thresholds fl options rollout_rs_threshold) (\<lambda>ots.
          bind_res (map_res (\<lambda>ot. bind_res (compute_rs_metrics ot log_ratio rmask) (\<lambda>m. Inr (fst ot, m))) ots) (\<lambda>metrics.
          let keep = combined_keep ots log_ratio rmask;
              final_mask = bool_mat keep
          in Inr (mzip (*) rmask final_mask, metrics,
                  Some (masked_mean (mmap (\<lambda>x. 1 - x) final_mask) rmask,
                        fraction (\<lambda>(ks, m). \<exists>i<length m. m ! i \<noteq> 0 \<and> \<not> ks ! i) (zip keep rmask)))))))"

section \<open>Importance weights\<close>

datatype is_level = IS_Token | IS_Sequence

definition parse_is_level :: "string \<Rightarrow> is_level res" where
  "parse_is_level s =
     (if s = ''token'' then Inr IS_Token else if s = ''sequence'' then Inr IS_Sequence else Inl ValueError)"

text \<open>The logarithms the weights are taken from, one per token or one per sequence.\<close>

definition is_log_ratio :: "is_level \<Rightarrow> mat \<Rightarrow> mat \<Rightarrow> mat" where
  "is_log_ratio level log_ratio rmask =
     (case level of IS_Token \<Rightarrow> log_ratio | IS_Sequence \<Rightarrow> map2 (\<lambda>r m. [sequence_sum r m]) log_ratio rmask)"

definition raw_is_weights :: "is_level \<Rightarrow> mat \<Rightarrow> mat \<Rightarrow> mat" where
  "raw_is_weights level log_ratio rmask =
     (case level of
        IS_Token \<Rightarrow> mzip (\<lambda>lr m. exp (safe lr) * m) log_ratio rmask
      | IS_Sequence \<Rightarrow> map2 (\<lambda>r m. map (\<lambda>b. exp (safe (sequence_sum r m)) * b) m) log_ratio rmask)"

text \<open>One bound truncates, two bounds cut the weight outside them to 0.\<close>

definition limit_weight :: "real \<Rightarrow> real option \<Rightarrow> real \<Rightarrow> real" where
  "limit_weight upper lower x =
     (case lower of None \<Rightarrow> min x upper | Some l \<Rightarrow> if l \<le> x \<and> x \<le> upper then x else 0)"

record is_metrics =
  is_mean :: real
  is_max :: real
  is_min :: real
  is_ratio_fraction_high :: real
  is_ratio_fraction_low :: real
  is_std :: real
  is_eff_sample_size :: real
  is_seq_mean :: real
  is_seq_std :: real
  is_seq_max :: real
  is_seq_min :: real
  is_seq_max_deviation :: real
  is_seq_fraction_high :: real
  is_seq_fraction_low :: real
  is_oob_ratio :: "real option"
  is_batch_norm_factor :: "real option"

text \<open>The quotient of two Python floats.\<close>

definition py_div :: "real \<Rightarrow> real \<Rightarrow> real res" where
  "py_div x y = (if y = 0 then Inl ZeroDivisionError else Inr (x / y))"

definition compute_is_metrics ::
  "mat \<Rightarrow> mat \<Rightarrow> mat \<Rightarrow> mat \<Rightarrow> is_level \<Rightarrow> real \<Rightarrow> real option \<Rightarrow> is_metrics res" where
  "compute_is_metrics weights raw log_ratio_for_metrics rmask level upper lower_option =
     require (\<exists>m\<in>set rmask. \<exists>b\<in>set m. b \<noteq> 0) ValueError (
     let lower = (case lower_option of None \<Rightarrow> 1 / upper | Some l \<Rightarrow> l);
         lrs = concat log_ratio_for_metrics;
         vals = masked_select weights rmask;
         clamped = mmap (clamp 0 upper) weights;
         mean_clamped = masked_mean clamped rmask;
         normalized = mmap (\<lambda>x. x / (mean_clamped + mask_eps)) clamped;
         seq_means = map2 sequence_mean weights rmask
     in bind_res (py_div 1 (masked_mean (mmap (\<lambda>x. x\<^sup>2) normalized) rmask)) (\<lambda>ess. Inr
        \<lparr>is_mean = masked_mean weights rmask,
         is_max = (if level = IS_Sequence then exp (min (Max (set lrs)) SAFETY_BOUND) else Max (set vals)),
         is_min = (if level = IS_Sequence then exp (Min (set lrs)) else Min (set vals)),
         is_ratio_fraction_high = (if level = IS_Sequence then fraction (\<lambda>x. ln upper < x) lrs
           else masked_mean (bool_mat (map (map (\<lambda>x. upper < x)) raw)) rmask),
         is_ratio_fraction_low = (if level = IS_Sequence then fraction (\<lambda>x. x < ln lower) lrs
           else masked_mean (bool_mat (map (map (\<lambda>x. x < lower)) raw)) rmask),
         is_std = (if 1 < msum rmask
           then sqrt (max 0 (masked_mean (mmap (\<lambda>x. x\<^sup>2) clamped) rmask - mean_clamped\<^sup>2)) else 0),
         is_eff_sample_size = ess,
         is_seq_mean = mean seq_means, is_seq_std = std_or_zero seq_means,
         is_seq_max = Max (set seq_means), is_seq_min = Min (set seq_means),
         is_seq_max_deviation = Max ((\<lambda>x. \<bar>x - 1\<bar>) ` set seq_means),
         is_seq_fraction_high = fraction (\<lambda>x. upper < x) seq_means,
         is_seq_fraction_low = fraction (\<lambda>x. x < lower) seq_means,
         is_oob_ratio = None, is_batch_norm_factor = None\<rparr>))"

text \<open>The mean that the batch normalisation divides by: over the tokens, or over the valid sequences.\<close>

definition weights_mean :: "is_level \<Rightarrow> mat \<Rightarrow> mat \<Rightarrow> real" where
  "weights_mean level weights rmask =
     (case level of
        IS_Token \<Rightarrow> masked_mean weights rmask
      | IS_Sequence \<Rightarrow>
          (let seq_weights = map2 sequence_mean weights rmask;
               seq_mask = seq_valid rmask
           in sum_list (map2 (*) seq_weights seq_mask) / max (sum_list seq_mask) mask_eps))"

definition compute_rollout_correction_weights ::
  "float_of \<Rightarrow> mat \<Rightarrow> mat \<Rightarrow> string \<Rightarrow> threshold_spec \<Rightarrow> bool \<Rightarrow> (mat \<times> is_metrics) res" where
  "compute_rollout_correction_weights fl log_ratio rmask rollout_is threshold batch_normalize =
     bind_res (parse_is_level rollout_is) (\<lambda>level.
     bind_res (parse_rollout_is_threshold fl threshold) (\<lambda>(upper, lower).
     let raw = raw_is_weights level log_ratio rmask;
         weights = mmap (limit_weight upper lower) raw
     in bind_res (compute_is_metrics weights raw (is_log_ratio level log_ratio rmask) rmask level upper lower) (\<lambda>metrics0.
     let metrics = (case lower of
           None \<Rightarrow> metrics0
         | Some l \<Rightarrow> metrics0\<lparr>is_oob_ratio :=
             Some (masked_mean (bool_mat (map (map (\<lambda>x. x < l \<or> upper < x)) raw)) rmask)\<rparr>);
         wm = weights_mean level weights rmask
     in if \<not> batch_normalize then Inr (weights, metrics)
        else if mask_eps < wm then Inr (mmap (\<lambda>x. x / wm) weights, metrics\<lparr>is_batch_norm_factor := Some wm\<rparr>)
        else Inr (weights, metrics\<lparr>is_batch_norm_factor := Some 1\<rparr>))))"

section \<open>The gap between the policies\<close>

record offpolicy_metrics =
  training_ppl :: real
  training_log_ppl :: real
  kl :: real
  k3_kl :: real
  rollout_ppl :: real
  rollout_log_ppl :: real
  log_ppl_diff :: real
  log_ppl_abs_diff :: real
  log_ppl_diff_max :: real
  log_ppl_diff_min :: real
  ppl_ratio :: real
  chi2_token :: real
  chi2_seq :: real

definition compute_offpolicy_metrics :: "mat \<Rightarrow> mat \<Rightarrow> mat \<Rightarrow> offpolicy_metrics res" where
  "compute_offpolicy_metrics old_lps rollout_lps rmask =
     require (\<exists>m\<in>set rmask. \<exists>b\<in>set m. b \<noteq> 0) AssertionError (
     let training = map2 sequence_mean old_lps rmask;
         rollout = map2 sequence_mean rollout_lps rmask;
         log_ratio = mzip (-) old_lps rollout_lps;
         diff = map2 (-) rollout training
     in Inr
       \<lparr>training_ppl = mean (map (\<lambda>x. exp (- x)) training),
        training_log_ppl = mean (map uminus training),
        kl = masked_mean (mzip (-) rollout_lps old_lps) rmask,
        k3_kl = masked_mean (mmap (\<lambda>x. exp x - x - 1) log_ratio) rmask,
        rollout_ppl = mean (map (\<lambda>x. exp (- x)) rollout),
        rollout_log_ppl = mean (map uminus rollout),
        log_ppl_diff = mean diff, log_ppl_abs_diff = mean (map abs diff),
        log_ppl_diff_max = Max (set diff), log_ppl_diff_min = Min (set diff),
        ppl_ratio = mean (map exp diff),
        chi2_token = masked_mean (mmap (\<lambda>x. (exp (safe x))\<^sup>2) log_ratio) rmask - 1,
        chi2_seq = mean (map (\<lambda>x. exp (2 * safe x)) (map2 sequence_sum log_ratio rmask)) - 1\<rparr>)"

text \<open>The same metrics for the current policy, during training.\<close>

definition compute_rollout_corr_metrics_from_logprobs :: "mat \<Rightarrow> mat \<Rightarrow> mat \<Rightarrow> offpolicy_metrics res" where
  "compute_rollout_corr_metrics_from_logprobs lps rollout_lps rmask = compute_offpolicy_metrics lps rollout_lps rmask"

section \<open>The correction of a batch\<close>

record rollout_corr_config =
  loss_type :: string
  rollout_is :: "string option"
  rollout_is_threshold :: "threshold_spec option"
  rollout_is_batch_normalize :: bool
  rollout_rs :: "string option"
  rollout_rs_threshold :: "threshold_spec option"

record corr_metrics =
  corr_is :: "is_metrics option"
  corr_rs :: "((rs_option \<times> rs_metrics) list \<times> (real \<times> real) option) option"
  corr_offpolicy :: offpolicy_metrics

definition compute_rollout_correction_and_rejection_mask ::
  "float_of \<Rightarrow> rollout_corr_config \<Rightarrow> mat \<Rightarrow> mat \<Rightarrow> mat \<Rightarrow> (mat option \<times> mat \<times> corr_metrics) res" where
  "compute_rollout_correction_and_rejection_mask fl cfg old_lps rollout_lps rmask =
     require (\<exists>m\<in>set rmask. \<exists>b\<in>set m. b \<noteq> 0) ValueError (
     require (same_shape old_lps rollout_lps) ValueError (
     require (same_shape old_lps rmask) ValueError (
     let log_ratio = mzip (-) old_lps rollout_lps in
     bind_res (case (rollout_is cfg, rollout_is_threshold cfg) of
         (Some lvl, Some th) \<Rightarrow>
           bind_res (compute_rollout_correction_weights fl log_ratio rmask lvl th (rollout_is_batch_normalize cfg)) (\<lambda>w. Inr (Some w))
       | _ \<Rightarrow> Inr None) (\<lambda>ws.
     bind_res (case rollout_rs cfg of
         None \<Rightarrow> Inr (rmask, None)
       | Some rs \<Rightarrow>
           require (rollout_rs_threshold cfg \<noteq> None) ValueError (
           bind_res (compute_rollout_rejection_mask fl log_ratio rmask rs (rollout_rs_threshold cfg))
             (\<lambda>(m, per_option, final). Inr (m, Some (per_option, final))))) (\<lambda>(modified_mask, rs_m).
     bind_res (compute_offpolicy_metrics old_lps rollout_lps rmask) (\<lambda>off.
     Inr (map_option fst ws, modified_mask,
          \<lparr>corr_is = map_option snd ws, corr_rs = rs_m, corr_offpolicy = off\<rparr>)))))))"

text \<open>The batch as far as the correction reads and writes it.\<close>

record corr_batch =
  cb_old_log_probs :: "mat option"
  cb_rollout_log_probs :: "mat option"
  cb_response_mask :: mat
  cb_rollout_is_weights :: "mat option"

definition compute_rollout_correction_and_add_to_batch ::
  "float_of \<Rightarrow> rollout_corr_config \<Rightarrow> corr_batch \<Rightarrow> (corr_batch \<times> corr_metrics) res" where
  "compute_rollout_correction_and_add_to_batch fl cfg b =
     (case (cb_old_log_probs b, cb_rollout_log_probs b) of
        (Some old, Some rollout) \<Rightarrow>
          bind_res (compute_rollout_correction_and_rejection_mask fl cfg old rollout (cb_response_mask b)) (\<lambda>(w, m, metrics).
          let b' = b\<lparr>cb_response_mask := m\<rparr> in
          case w of
            None \<Rightarrow> Inr (b', metrics)
          | Some wm \<Rightarrow>
              (case cb_rollout_is_weights b of
                 Some wm' \<Rightarrow> require (wm' = wm) AssertionError (Inr (b', metrics))
               | None \<Rightarrow> Inr (b'\<lparr>cb_rollout_is_weights := Some wm\<rparr>, metrics)))
      | _ \<Rightarrow> Inl KeyError)"

text \<open>Bypass mode takes the log-probabilities of the rollout for the old ones.\<close>

record policy_loss_config =
  plc_rollout_correction :: "rollout_corr_config option"
  plc_loss_mode :: string

definition apply_bypass_mode ::
  "corr_batch \<Rightarrow> rollout_corr_config option \<Rightarrow> policy_loss_config \<Rightarrow> (corr_batch \<times> policy_loss_config) res" where
  "apply_bypass_mode b corr config =
     (case cb_rollout_log_probs b of
        None \<Rightarrow> Inl ValueError
      | Some r \<Rightarrow> Inr (b\<lparr>cb_old_log_probs := Some r\<rparr>,
          config\<lparr>plc_rollout_correction := corr, plc_loss_mode := ''bypass_mode''\<rparr>))"

definition compute_policy_loss_bypass_mode ::
  "float_of \<Rightarrow> rollout_corr_config option \<Rightarrow> string \<Rightarrow> actor_config \<Rightarrow> policy_batch
    \<Rightarrow> (real \<times> pg_metrics \<times> corr_metrics) res" where
  "compute_policy_loss_bypass_mode fl corr mode config b =
     (case corr of
        None \<Rightarrow> Inl ValueError
      | Some cfg \<Rightarrow>
          bind_res (compute_rollout_correction_and_rejection_mask fl cfg (cur_lp b) (old_lp b) (resp_mask b)) (\<lambda>(w, m, metrics).
          bind_res (if loss_type cfg = ''reinforce''
                    then compute_policy_loss_reinforce mode config (b\<lparr>resp_mask := m, is_weights := w\<rparr>)
                    else if loss_type cfg = ''ppo_clip''
                    then compute_policy_loss_vanilla mode config (b\<lparr>resp_mask := m, is_weights := None\<rparr>)
                    else Inl ValueError) (\<lambda>(loss, pg).
          Inr (loss, pg, metrics))))"

section \<open>Weights are bounded\<close>

lemma safe_bounds: "- SAFETY_BOUND \<le> safe x" "safe x \<le> SAFETY_BOUND"
  by (simp_all add: safe_def clamp_def SAFETY_BOUND_def)

lemma safe_zero [simp]: "safe 0 = 0"
  by (simp add: safe_def clamp_def SAFETY_BOUND_def)

lemma parse_is_threshold_bounds:
  assumes "parse_rollout_is_threshold fl spec = Inr (upper, lower)"
  shows "0 < upper" "lower = Some l \<Longrightarrow> 0 < l \<and> l \<le> upper"
  using assms by (auto simp: parse_rollout_is_threshold_def bind_res_eq_Inr split: option.splits)

lemma limit_weight_bounds:
  assumes "0 < upper" "0 \<le> x"
  shows "0 \<le> limit_weight upper lower x" "limit_weight upper lower x \<le> upper"
    "lower = Some l \<Longrightarrow> limit_weight upper lower x = 0 \<or> l \<le> limit_weight upper lower x"
    "x = 0 \<Longrightarrow> limit_weight upper lower x = 0"
  using assms by (auto simp: limit_weight_def split: option.splits)

lemma raw_is_weights_entry:
  assumes "same_shape log_ratio rmask" "i < length rmask" "j < length (rmask ! i)"
  shows "\<exists>e. raw_is_weights level log_ratio rmask ! i ! j = exp (safe e) * rmask ! i ! j"
    and "length (raw_is_weights level log_ratio rmask ! i) = length (rmask ! i)"
    and "length (raw_is_weights level log_ratio rmask) = length rmask"
  using assms same_shape_length[OF assms(1)] same_shape_row[OF assms(1)]
  by (cases level; auto simp: raw_is_weights_def)+


text \<open>Batch normalisation makes the mean weight 1.\<close>

lemma masked_mean_scale: "same_shape vals rmask \<Longrightarrow> masked_mean (mmap (\<lambda>v. v / c) vals) rmask = masked_mean vals rmask / c"
  using masked_sum_affine[of vals rmask "1 / c" 0] by (simp add: masked_mean_def)

lemma same_shape_raw:
  assumes "same_shape log_ratio rmask"
  shows "same_shape (mmap f (raw_is_weights level log_ratio rmask)) rmask"
proof -
  have "length (mmap f (raw_is_weights level log_ratio rmask) ! i) = length (rmask ! i)" if "i < length rmask" for i
    using that same_shape_length[OF assms] same_shape_row[OF assms]
    by (cases level) (simp_all add: raw_is_weights_def)
  moreover have "length (raw_is_weights level log_ratio rmask) = length rmask"
    using same_shape_length[OF assms] by (cases level) (simp_all add: raw_is_weights_def)
  ultimately show ?thesis unfolding same_shape_def by (intro nth_equalityI) simp_all
qed

theorem normalised_weights_mean:
  assumes run: "compute_rollout_correction_weights fl log_ratio rmask ''token'' spec True = Inr (weights, metrics)"
    and shape: "same_shape log_ratio rmask"
    and factor: "is_batch_norm_factor metrics = Some wm" "wm \<noteq> 1"
  shows "masked_mean weights rmask = 1"
proof -
  obtain upper lower where
    parsed: "parse_rollout_is_threshold fl spec = Inr (upper, lower)"
    using run by (auto simp: compute_rollout_correction_weights_def parse_is_level_def bind_res_eq_Inr)
  define base where "base = mmap (limit_weight upper lower) (raw_is_weights IS_Token log_ratio rmask)"
  have wm: "weights_mean IS_Token base rmask = masked_mean base rmask" by (simp add: weights_mean_def)
  have shape': "same_shape base rmask" unfolding base_def by (rule same_shape_raw[OF shape])
  have w: "mask_eps < masked_mean base rmask \<and> weights = mmap (\<lambda>x. x / masked_mean base rmask) base"
  proof (cases "compute_is_metrics base (raw_is_weights IS_Token log_ratio rmask) (is_log_ratio IS_Token log_ratio rmask)
      rmask IS_Token upper lower")
    case (Inl e)
    then show ?thesis
      using run by (simp add: compute_rollout_correction_weights_def parse_is_level_def Let_def parsed flip: base_def)
  next
    case (Inr metrics0)
    then show ?thesis
      using run factor
      by (simp add: compute_rollout_correction_weights_def parse_is_level_def Let_def parsed wm flip: base_def split: if_splits)
        auto
  qed
  then have "0 < masked_mean base rmask" using mask_eps_pos by linarith
  then show ?thesis
    using w masked_mean_scale[OF shape', of "masked_mean base rmask"] by simp
qed

section \<open>Weights that are all cut away\<close>

lemma masked_sum_zeros: "\<forall>r\<in>set vals. \<forall>x\<in>set r. x = 0 \<Longrightarrow> masked_sum vals rmask = 0"
proof (induction vals arbitrary: rmask)
  case (Cons r vals)
  have "sum_list (map2 (*) r m) = 0" for m
    by (rule sum_list_zeros) (use Cons.prems in \<open>auto dest: set_zip_leftD\<close>)
  then show ?case using Cons by (cases rmask) simp_all
qed simp

text \<open>
  With two thresholds the effective sample size divides by the mean of the squared weights: when the ratio of
  every valid token is out of bounds, the call ends in a \<open>ZeroDivisionError\<close>.
\<close>

theorem icepop_all_out_raises:
  assumes "\<exists>m\<in>set rmask. \<exists>b\<in>set m. b \<noteq> 0"
    and level: "parse_is_level lvl = Inr level"
    and spec: "parse_rollout_is_threshold fl spec = Inr (upper, Some lower)"
    and out: "\<forall>r\<in>set (raw_is_weights level log_ratio rmask). \<forall>x\<in>set r. x < lower \<or> upper < x"
  shows "compute_rollout_correction_weights fl log_ratio rmask lvl spec batch_norm = Inl ZeroDivisionError"
proof -
  define weights where "weights = mmap (limit_weight upper (Some lower)) (raw_is_weights level log_ratio rmask)"
  have zero: "\<forall>r\<in>set weights. \<forall>x\<in>set r. x = 0"
    using out by (fastforce simp: weights_def mmap_def limit_weight_def)
  have clamp0: "clamp 0 upper 0 = 0" using parse_is_threshold_bounds(1)[OF spec] by (simp add: clamp_def)
  have "\<forall>r\<in>set (mmap (\<lambda>x. x\<^sup>2) (mmap (\<lambda>x. x / c) (mmap (clamp 0 upper) weights))). \<forall>x\<in>set r. x = 0" for c
    using zero clamp0 by (fastforce simp: mmap_def)
  then have "masked_mean (mmap (\<lambda>x. x\<^sup>2) (mmap (\<lambda>x. x / c) (mmap (clamp 0 upper) weights))) rmask = 0" for c
    by (simp add: masked_mean_def masked_sum_zeros)
  then have "compute_is_metrics weights raw lr rmask level upper (Some lower) = Inl ZeroDivisionError" for raw lr
    using assms(1) by (simp add: compute_is_metrics_def py_div_def Let_def)
  then show ?thesis
    by (simp add: compute_rollout_correction_weights_def level spec Let_def flip: weights_def)
qed

theorem icepop_all_out_raises_witness:
  "compute_rollout_correction_weights (\<lambda>s. if s = ''0.5'' then Some (1 / 2) else if s = ''2'' then Some 2 else None)
     [[3, 4]] [[1, 1]] ''token'' (Spec_Str ''0.5_2'') False = Inl ZeroDivisionError"
proof (rule icepop_all_out_raises)
  let ?fl = "\<lambda>s. if s = ''0.5'' then Some (1 / 2) else if s = ''2'' then Some (2 :: real) else None"
  show "parse_is_level ''token'' = Inr IS_Token" by (simp add: parse_is_level_def)
  show "parse_rollout_is_threshold ?fl (Spec_Str ''0.5_2'') = Inr (2, Some (1 / 2))"
    by (simp add: parse_rollout_is_threshold_def strip_def is_space_def split_first_def read_float_def)
  have "2 < exp (3 :: real)" "2 < exp (4 :: real)"
    using exp_ge_add_one_self[of "3 :: real"] exp_ge_add_one_self[of "4 :: real"] by linarith+
  then show "\<forall>r\<in>set (raw_is_weights IS_Token [[3, 4]] [[1, 1]]). \<forall>x\<in>set r. x < 1 / 2 \<or> 2 < x"
    by (simp add: raw_is_weights_def mzip_def safe_def clamp_def SAFETY_BOUND_def)
qed simp

section \<open>What is rejected\<close>

lemma length_row_stat [simp]: "length (row_stat opt lr m) = length lr"
  by (cases opt) simp_all

lemma length_keep_row [simp]: "length (keep_row ot lr m) = length lr"
  by (simp add: keep_row_def)

lemma nth_keep_row [simp]:
  "j < length lr \<Longrightarrow> keep_row ot lr m ! j = passes (fst ot) (snd ot) (row_stat (fst ot) lr m ! j)"
  by (simp add: keep_row_def)

lemma map2_same_shape:
  assumes "same_shape acc rmask" "same_shape b rmask"
  shows "same_shape (map2 (map2 f) acc b) rmask"
  unfolding same_shape_def
  using same_shape_length[OF assms(1)] same_shape_length[OF assms(2)] same_shape_row[OF assms(1)] same_shape_row[OF assms(2)]
  by (intro nth_equalityI) simp_all

lemma keep_rows_same_shape: "same_shape log_ratio rmask \<Longrightarrow> same_shape (map2 (keep_row ot) log_ratio rmask) rmask"
  unfolding same_shape_def[of "map2 _ _ _"]
  using same_shape_length[of log_ratio rmask] same_shape_row[of log_ratio rmask]
  by (intro nth_equalityI) simp_all

lemma keep_step_nth:
  assumes lr: "same_shape log_ratio rmask" and ij: "i < length rmask" "j < length (rmask ! i)" and acc: "same_shape acc rmask"
  shows "map2 (map2 (\<and>)) acc (map2 (keep_row ot) log_ratio rmask) ! i ! j
    \<longleftrightarrow> acc ! i ! j \<and> keep_row ot (log_ratio ! i) (rmask ! i) ! j"
  using ij same_shape_length[OF acc] same_shape_row[OF acc, of i] same_shape_length[OF lr] same_shape_row[OF lr, of i] by simp

lemma fold_keep_nth:
  assumes lr: "same_shape log_ratio rmask" and ij: "i < length rmask" "j < length (rmask ! i)"
    and "same_shape acc rmask"
  shows "fold (\<lambda>ot acc. map2 (map2 (\<and>)) acc (map2 (keep_row ot) log_ratio rmask)) ots acc ! i ! j
      \<longleftrightarrow> acc ! i ! j \<and> (\<forall>ot\<in>set ots. keep_row ot (log_ratio ! i) (rmask ! i) ! j)"
  using assms(4)
proof (induction ots arbitrary: acc)
  case (Cons ot ots)
  note step = map2_same_shape[OF Cons.prems keep_rows_same_shape[OF lr, of ot], of "(\<and>)"]
  show ?case
    using Cons.IH[OF step] keep_step_nth[OF lr ij Cons.prems, of ot] by simp
qed simp

lemma combined_keep_nth:
  assumes "same_shape log_ratio rmask" "i < length rmask" "j < length (rmask ! i)"
  shows "combined_keep ots log_ratio rmask ! i ! j
    \<longleftrightarrow> (\<forall>ot\<in>set ots. passes (fst ot) (snd ot) (row_stat (fst ot) (log_ratio ! i) (rmask ! i) ! j))"
proof -
  have true: "same_shape (map (map (\<lambda>_. True)) rmask) rmask" by (simp add: same_shape_def)
  show ?thesis
    unfolding combined_keep_def
    using fold_keep_nth(1)[OF assms true, of ots] assms(2,3) same_shape_length[OF assms(1)] same_shape_row[OF assms(1), of i]
    by simp
qed

lemma combined_keep_shape:
  assumes "same_shape log_ratio rmask"
  shows "same_shape (combined_keep ots log_ratio rmask) rmask"
  unfolding combined_keep_def
proof (rule fold_invariant[where Q = "\<lambda>_. True" and P = "\<lambda>acc. same_shape acc rmask"])
  show "same_shape (map (map (\<lambda>_. True)) rmask) rmask" by (simp add: same_shape_def)
qed (auto intro: map2_same_shape keep_rows_same_shape[OF assms])

text \<open>
  A token keeps its mask value when every option passes at it, and gets 0 when one of them does not; an option
  over sequences decides on all tokens of a row together.
\<close>

theorem rejection_mask_entry:
  assumes run: "compute_rollout_rejection_mask fl log_ratio rmask rs (Some spec) = Inr (m, per_option, final)"
    and shape: "same_shape log_ratio rmask" and ij: "i < length rmask" "j < length (rmask ! i)"
  shows "\<exists>options ots. parse_rs_options rs = Inr options
    \<and> parse_rollout_rs_thresholds fl options (Some spec) = Inr ots
    \<and> m ! i ! j = (if \<forall>ot\<in>set ots. passes (fst ot) (snd ot) (row_stat (fst ot) (log_ratio ! i) (rmask ! i) ! j)
                   then rmask ! i ! j else 0)"
proof -
  have ne: "log_ratio \<noteq> []" using shape ij by auto
  obtain options ots where parsed: "parse_rs_options rs = Inr options"
      "parse_rollout_rs_thresholds fl options (Some spec) = Inr ots"
    and m: "m = mzip (*) rmask (bool_mat (combined_keep ots log_ratio rmask))"
    using run ne by (auto simp: compute_rollout_rejection_mask_def bind_res_eq_Inr Let_def)
  note ks = combined_keep_shape[OF shape, of ots]
  have "m ! i ! j = rmask ! i ! j * (if combined_keep ots log_ratio rmask ! i ! j then 1 else 0)"
    using ij same_shape_length[OF ks] same_shape_row[OF ks, of i] by (simp add: m bool_mat_def)
  then show ?thesis using parsed combined_keep_nth[OF shape ij, of ots] by auto
qed

lemma parse_token_k2: "parse_rs_options ''token_k2'' = Inr [RS_Token K2]"
  by (simp add: parse_rs_options_def SUPPORTED_ROLLOUT_RS_OPTIONS_def strip_def is_space_def)

lemma parse_token_k1: "parse_rs_options ''token_k1'' = Inr [RS_Token K1]"
  by (simp add: parse_rs_options_def SUPPORTED_ROLLOUT_RS_OPTIONS_def strip_def is_space_def)

theorem rejection_mask_entry_witness:
  "\<exists>m po final. compute_rollout_rejection_mask (\<lambda>_. None) [[0, 3]] [[1, 1]] ''token_k2'' (Some (Spec_Num 1)) = Inr (m, po, final)
    \<and> m ! 0 ! 0 = 1 \<and> m ! 0 ! 1 = 0"
proof -
  obtain m po final where run:
    "compute_rollout_rejection_mask (\<lambda>_. None) [[0, 3]] [[1, 1]] ''token_k2'' (Some (Spec_Num 1)) = Inr (m, po, final)"
    by (simp add: compute_rollout_rejection_mask_def parse_token_k2 parse_rollout_rs_thresholds_def parse_rs_threshold_def
        compute_rs_metrics_def Let_def)
  have th: "parse_rollout_rs_thresholds (\<lambda>_. None) [RS_Token K2] (Some (Spec_Num 1)) = Inr [(RS_Token K2, None, 1)]"
    by (simp add: parse_rollout_rs_thresholds_def parse_rs_threshold_def)
  have "m ! 0 ! 0 = 1" "m ! 0 ! 1 = 0"
    using rejection_mask_entry[OF run, of 0 0] rejection_mask_entry[OF run, of 0 1]
    by (simp_all add: parse_token_k2 th passes_def safe_def clamp_def SAFETY_BOUND_def)
  with run show ?thesis by blast
qed

section \<open>No correction on policy\<close>

lemma parse_rs_threshold_pos:
  assumes "parse_rs_threshold fl opt spec = Inr th"
  shows "0 < snd th" "est_of opt = K1 \<Longrightarrow> \<exists>l. fst th = Some l \<and> 0 < l"
  using assms by (auto simp: parse_rs_threshold_def Let_def bind_res_eq_Inr split: if_splits prod.splits)

lemma parse_thresholds_pos:
  assumes "parse_rollout_rs_thresholds fl options spec = Inr ots" "ot \<in> set ots"
  shows "0 < snd (snd ot)" "est_of (fst ot) = K1 \<Longrightarrow> \<exists>l. fst (snd ot) = Some l \<and> 0 < l"
proof -
  obtain opt sp where "parse_rs_threshold fl opt sp = Inr (snd ot)" "opt = fst ot"
    using assms by (auto simp: parse_rollout_rs_thresholds_def bind_res_eq_Inr Let_def split: prod.splits
        elim!: map_res_mem)
  then show "0 < snd (snd ot)" "est_of (fst ot) = K1 \<Longrightarrow> \<exists>l. fst (snd ot) = Some l \<and> 0 < l"
    using parse_rs_threshold_pos[of fl opt sp "snd ot"] by auto
qed

lemma token_est_zero [simp]: "token_est k 0 = 0"
  by (cases k) simp_all

lemma sequence_of_zeros:
  "sequence_sum (replicate n 0) m = 0" "sequence_mean (replicate n 0) m = 0" "sequence_max (replicate n 0) m = 0"
proof -
  have "set (valid_vals (replicate n 0) m) \<subseteq> {0}"
    using set_masked_select[of "[replicate n 0]" "[m]"] unfolding valid_vals_def by auto
  then have "valid_vals (replicate n 0) m \<noteq> [] \<Longrightarrow> set (valid_vals (replicate n 0) m) = {0}"
    by (metis set_empty subset_singletonD)
  then show "sequence_max (replicate n 0) m = 0" by (simp add: sequence_max_def)
  have "masked_sum [replicate n 0] [m] = 0" by (rule masked_sum_zeros) simp
  then show "sequence_sum (replicate n 0) m = 0" "sequence_mean (replicate n 0) m = 0"
    by (simp_all add: sequence_sum_def sequence_mean_def masked_mean_def)
qed

lemma row_stat_zeros: "row_stat opt (replicate n 0) m = replicate n 0"
  by (cases opt) (simp_all add: sequence_of_zeros map_replicate_const)

text \<open>The range of the thresholds around 1, for the options that have a lower bound.\<close>

definition contains_one :: "rs_option \<times> real option \<times> real \<Rightarrow> bool" where
  "contains_one ot \<longleftrightarrow> (case fst (snd ot) of None \<Rightarrow> True | Some l \<Rightarrow> l \<le> 1 \<and> 1 \<le> snd (snd ot))"

lemma passes_zero:
  assumes "parse_rollout_rs_thresholds fl options spec = Inr ots" "ot \<in> set ots" "contains_one ot"
  shows "passes (fst ot) (snd ot) 0"
  using parse_thresholds_pos[OF assms(1,2)] assms(3)
  by (cases "est_of (fst ot) = K1") (auto simp: passes_def contains_one_def less_imp_le)

lemma mat_eqI:
  assumes "same_shape s t" "\<And>i j. i < length t \<Longrightarrow> j < length (t ! i) \<Longrightarrow> s ! i ! j = t ! i ! j"
  shows "s = t"
proof (rule nth_equalityI)
  show "length s = length t" using same_shape_length[OF assms(1)] .
  show "s ! i = t ! i" if "i < length s" for i
    by (rule nth_equalityI) (use that assms same_shape_length[OF assms(1)] same_shape_row[OF assms(1)] in auto)
qed

lemma mzip_minus_self: "i < length t \<Longrightarrow> mzip (-) t t ! i = replicate (length (t ! i)) 0"
  by (rule nth_equalityI) simp_all

lemma rejection_mask_on_policy:
  assumes run: "compute_rollout_rejection_mask fl (mzip (-) lps lps) rmask rs (Some spec) = Inr (m, po, fin)"
    and shape: "same_shape lps rmask"
    and one: "\<And>options ots. parse_rs_options rs = Inr options
      \<Longrightarrow> parse_rollout_rs_thresholds fl options (Some spec) = Inr ots \<Longrightarrow> list_all contains_one ots"
  shows "m = rmask"
proof (cases "rmask = []")
  case True
  then show ?thesis using run shape by (auto simp: compute_rollout_rejection_mask_def mzip_def)
next
  case False
  have zshape: "same_shape (mzip (-) lps lps) rmask"
    using map2_same_shape[OF shape shape, of "(-)"] by (simp add: mzip_def)
  have ne: "mzip (-) lps lps \<noteq> []" using False same_shape_length[OF zshape] by (metis length_0_conv)
  obtain options ots where parsed: "parse_rs_options rs = Inr options"
      "parse_rollout_rs_thresholds fl options (Some spec) = Inr ots"
    and m: "m = mzip (*) rmask (bool_mat (combined_keep ots (mzip (-) lps lps) rmask))"
    using run ne by (auto simp: compute_rollout_rejection_mask_def bind_res_eq_Inr Let_def)
  show ?thesis
  proof (rule mat_eqI)
    have "same_shape (bool_mat (combined_keep ots (mzip (-) lps lps) rmask)) rmask"
      using combined_keep_shape[OF zshape] by (simp add: bool_mat_def same_shape_def comp_def)
    then show "same_shape m rmask" unfolding m mzip_def by (rule map2_same_shape[rotated]) (simp add: same_shape_def)
    fix i j assume ij: "i < length rmask" "j < length (rmask ! i)"
    have i: "i < length lps" "j < length (lps ! i)"
      using ij same_shape_length[OF shape] same_shape_row[OF shape, of i] by auto
    have "passes (fst ot) (snd ot) 0" if "ot \<in> set ots" for ot
      using passes_zero[OF parsed(2) that] one[OF parsed] that by (simp add: list_all_iff)
    then show "m ! i ! j = rmask ! i ! j"
      using rejection_mask_entry[OF run zshape ij] parsed i(2) by (auto simp: mzip_minus_self[OF i(1)] row_stat_zeros)
  qed
qed

lemma raw_is_weights_on_policy:
  assumes "same_shape lps rmask" shows "raw_is_weights level (mzip (-) lps lps) rmask = rmask"
proof (rule nth_equalityI)
  show l: "length (raw_is_weights level (mzip (-) lps lps) rmask) = length rmask"
    using same_shape_length[OF assms] by (cases level) (simp_all add: raw_is_weights_def)
  fix i assume "i < length (raw_is_weights level (mzip (-) lps lps) rmask)"
  then have i: "i < length rmask" "i < length lps" using l same_shape_length[OF assms] by simp_all
  have ones: "map2 (\<lambda>x. (*) (exp (safe x))) (replicate (length m) 0) m = m" for m
    by (rule nth_equalityI) simp_all
  show "raw_is_weights level (mzip (-) lps lps) rmask ! i = rmask ! i"
    using i same_shape_row[OF assms i(2)] ones[of "rmask ! i"]
    by (cases level) (simp_all add: raw_is_weights_def mzip_minus_self[OF i(2)] sequence_of_zeros map_idI)
qed

lemma correction_parts:
  assumes run: "compute_rollout_correction_and_rejection_mask fl cfg old_lps rollout_lps rmask = Inr (w, m, metrics)"
  shows "same_shape old_lps rmask"
    and "rollout_rs cfg = None \<Longrightarrow> m = rmask"
    and "rollout_rs cfg = Some rs \<Longrightarrow> \<exists>spec po fin. rollout_rs_threshold cfg = Some spec
      \<and> compute_rollout_rejection_mask fl (mzip (-) old_lps rollout_lps) rmask rs (Some spec) = Inr (m, po, fin)"
    and "w = Some weights \<Longrightarrow> \<exists>lvl th met. rollout_is_threshold cfg = Some th
      \<and> compute_rollout_correction_weights fl (mzip (-) old_lps rollout_lps) rmask lvl th (rollout_is_batch_normalize cfg) = Inr (weights, met)"
proof -
  note def = compute_rollout_correction_and_rejection_mask_def
  show "same_shape old_lps rmask" using run by (simp add: def)
  obtain ws where ws: "(case (rollout_is cfg, rollout_is_threshold cfg) of
         (Some lvl, Some th) \<Rightarrow> bind_res (compute_rollout_correction_weights fl (mzip (-) old_lps rollout_lps) rmask lvl th
           (rollout_is_batch_normalize cfg)) (\<lambda>w. Inr (Some w))
       | _ \<Rightarrow> Inr None) = Inr ws" (is "?is = _")
    using run by (cases ?is) (simp_all add: def Let_def)
  obtain mm where mm: "(case rollout_rs cfg of
         None \<Rightarrow> Inr (rmask, None)
       | Some rs \<Rightarrow> require (rollout_rs_threshold cfg \<noteq> None) ValueError (
           bind_res (compute_rollout_rejection_mask fl (mzip (-) old_lps rollout_lps) rmask rs (rollout_rs_threshold cfg))
             (\<lambda>(m, per_option, final). Inr (m, Some (per_option, final))))) = Inr mm" (is "?rs = _")
    using run ws by (cases ?rs) (simp_all add: def Let_def)
  obtain off where "compute_offpolicy_metrics old_lps rollout_lps rmask = Inr off"
    using run ws mm by (cases "compute_offpolicy_metrics old_lps rollout_lps rmask") (simp_all add: def Let_def split: prod.splits)
  then have parts: "w = map_option fst ws" "m = fst mm"
    using run ws mm by (simp_all add: def Let_def split: prod.splits)
  show "m = rmask" if "rollout_rs cfg = None" using mm parts that by auto
  show "\<exists>spec po fin. rollout_rs_threshold cfg = Some spec
      \<and> compute_rollout_rejection_mask fl (mzip (-) old_lps rollout_lps) rmask rs (Some spec) = Inr (m, po, fin)"
    if "rollout_rs cfg = Some rs"
    using mm parts that by (cases "compute_rollout_rejection_mask fl (mzip (-) old_lps rollout_lps) rmask rs (rollout_rs_threshold cfg)")
      (auto split: prod.splits)
  show "\<exists>lvl th met. rollout_is_threshold cfg = Some th
      \<and> compute_rollout_correction_weights fl (mzip (-) old_lps rollout_lps) rmask lvl th (rollout_is_batch_normalize cfg) = Inr (weights, met)"
    if w: "w = Some weights"
  proof -
    obtain met where "ws = Some (weights, met)" using parts(1) w by (cases ws) auto
    moreover obtain lvl th where "rollout_is cfg = Some lvl" "rollout_is_threshold cfg = Some th"
      using ws calculation by (auto split: option.splits)
    ultimately show ?thesis
      using ws by (cases "compute_rollout_correction_weights fl (mzip (-) old_lps rollout_lps) rmask lvl th
        (rollout_is_batch_normalize cfg)") auto
  qed
qed

lemma weights_without_norm:
  assumes run: "compute_rollout_correction_weights fl log_ratio rmask lvl spec False = Inr (weights, metrics)"
  obtains level upper lower where "parse_rollout_is_threshold fl spec = Inr (upper, lower)"
    "weights = mmap (limit_weight upper lower) (raw_is_weights level log_ratio rmask)"
  using run by (auto simp: compute_rollout_correction_weights_def bind_res_eq_Inr Let_def)

lemma limit_weight_one:
  "1 \<le> up \<Longrightarrow> (case lo of None \<Rightarrow> True | Some l \<Rightarrow> l \<le> 1) \<Longrightarrow> x = 0 \<or> x = 1 \<Longrightarrow> limit_weight up lo x = x"
  by (auto simp: limit_weight_def split: option.splits)

lemma mmap_id_on: "(\<And>r x. r \<in> set t \<Longrightarrow> x \<in> set r \<Longrightarrow> f x = x) \<Longrightarrow> mmap f t = t"
  by (simp add: mmap_def map_idI)

text \<open>
  C27. On policy the correction does nothing: when the thresholds contain the ratio 1, equal log-probabilities keep
  the mask as it is and give every valid token the weight 1.
\<close>

theorem on_policy_identity:
  assumes run: "compute_rollout_correction_and_rejection_mask fl cfg lps lps rmask = Inr (w, m, metrics)"
    and mask: "binary_mask rmask" and plain: "\<not> rollout_is_batch_normalize cfg"
    and is_one: "\<And>th up lo. rollout_is_threshold cfg = Some th \<Longrightarrow> parse_rollout_is_threshold fl th = Inr (up, lo)
      \<Longrightarrow> 1 \<le> up \<and> (case lo of None \<Rightarrow> True | Some l \<Rightarrow> l \<le> 1)"
    and rs_one: "\<And>rs spec options ots. rollout_rs cfg = Some rs \<Longrightarrow> rollout_rs_threshold cfg = Some spec
      \<Longrightarrow> parse_rs_options rs = Inr options \<Longrightarrow> parse_rollout_rs_thresholds fl options (Some spec) = Inr ots
      \<Longrightarrow> list_all contains_one ots"
  shows "m = rmask \<and> (w = None \<or> w = Some rmask)"
proof
  note parts = correction_parts[OF run]
  show "m = rmask"
    using parts(2) parts(3) rejection_mask_on_policy[OF _ parts(1)] rs_one by (cases "rollout_rs cfg") blast+
  show "w = None \<or> w = Some rmask"
  proof (cases w)
    case (Some weights)
    then obtain lvl th met where th: "rollout_is_threshold cfg = Some th"
      and "compute_rollout_correction_weights fl (mzip (-) lps lps) rmask lvl th False = Inr (weights, met)"
      using parts(4) plain by auto
    then obtain level up lo where p: "parse_rollout_is_threshold fl th = Inr (up, lo)"
      and ws: "weights = mmap (limit_weight up lo) rmask"
      by (elim weights_without_norm) (simp add: raw_is_weights_on_policy[OF parts(1)])
    have "limit_weight up lo x = x" if "r \<in> set rmask" "x \<in> set r" for r x
      using mask that limit_weight_one is_one[OF th p] unfolding binary_mask_def list_all_iff by blast
    then show ?thesis using Some ws mmap_id_on by metis
  qed simp
qed

theorem on_policy_identity_witness:
  "\<exists>w m metrics.
    compute_rollout_correction_and_rejection_mask (\<lambda>_. None)
      \<lparr>loss_type = ''ppo_clip'', rollout_is = Some ''token'', rollout_is_threshold = Some (Spec_Num 2),
        rollout_is_batch_normalize = False, rollout_rs = Some ''token_k1'', rollout_rs_threshold = Some (Spec_Num 2)\<rparr>
      [[- 1, - 2]] [[- 1, - 2]] [[1, 0]] = Inr (w, m, metrics)
    \<and> m = [[1, 0]] \<and> w = Some [[1, 0]]"
proof -
  define cfg where "cfg = \<lparr>loss_type = ''ppo_clip'', rollout_is = Some ''token'', rollout_is_threshold = Some (Spec_Num 2),
        rollout_is_batch_normalize = False, rollout_rs = Some ''token_k1'', rollout_rs_threshold = Some (Spec_Num 2)\<rparr>"
  note ths = parse_rollout_is_threshold_def parse_rollout_rs_thresholds_def parse_rs_threshold_def
  let ?lr = "mzip (-) [[- 1, - 2]] [[- 1, - 2 :: real]]"
  have on: "raw_is_weights IS_Token ?lr [[1, 0]] = [[1, 0]]" by (rule raw_is_weights_on_policy) simp
  have "mmap (limit_weight 2 None) [[1, 0]] = [[1, 0]]" by (simp add: mmap_def limit_weight_def)
  moreover have "\<exists>met. compute_is_metrics [[1, 0]] [[1, 0]] lr [[1, 0]] IS_Token 2 None = Inr met" for lr
    by (simp add: compute_is_metrics_def Let_def py_div_def mmap_def clamp_def masked_mean_def mask_eps_def power2_eq_square)
  ultimately obtain met where
    is_run: "compute_rollout_correction_weights (\<lambda>_. None) ?lr [[1, 0]] ''token'' (Spec_Num 2) False = Inr ([[1, 0]], met)"
    by (simp add: compute_rollout_correction_weights_def parse_is_level_def ths on Let_def)
      (metis bind_res_simps(2))
  obtain m0 po fin where
    rs_run: "compute_rollout_rejection_mask (\<lambda>_. None) ?lr [[1, 0]] ''token_k1'' (Some (Spec_Num 2)) = Inr (m0, po, fin)"
    by (simp add: compute_rollout_rejection_mask_def parse_token_k1 ths compute_rs_metrics_def Let_def mzip_def)
  obtain w m metrics where run: "compute_rollout_correction_and_rejection_mask (\<lambda>_. None) cfg [[- 1, - 2]] [[- 1, - 2]] [[1, 0]]
      = Inr (w, m, metrics)" and w: "w = Some [[1, 0]]"
    by (simp add: compute_rollout_correction_and_rejection_mask_def cfg_def is_run rs_run compute_offpolicy_metrics_def Let_def)
  have "m = [[1, 0]] \<and> (w = None \<or> w = Some [[1, 0]])"
  proof (rule on_policy_identity[OF run])
    show "list_all contains_one ots" if "rollout_rs cfg = Some rs" "rollout_rs_threshold cfg = Some spec"
      "parse_rs_options rs = Inr options" "parse_rollout_rs_thresholds (\<lambda>_. None) options (Some spec) = Inr ots"
      for rs spec options ots
      using that by (auto simp: cfg_def parse_token_k1 ths contains_one_def)
  qed (auto simp: cfg_def ths binary_mask_def)
  with run w show ?thesis unfolding cfg_def by blast
qed


section \<open>A single bound below 1\<close>

text \<open>
  One number \<open>u\<close> for an option over the first estimator stands for the range from \<open>1 / u\<close> to \<open>u\<close>; nothing checks
  that it is not empty, as the parser of the importance thresholds does, and below 1 every token is rejected.
\<close>

theorem single_k1_bound_rejects_all:
  assumes run: "compute_rollout_rejection_mask fl log_ratio rmask rs (Some (Spec_Num u)) = Inr (m, po, fin)"
    and shape: "same_shape log_ratio rmask" and ij: "i < length rmask" "j < length (rmask ! i)"
    and u: "0 < u" "u < 1"
    and k1: "parse_rs_options rs = Inr options" "opt \<in> set options" "est_of opt = K1"
  shows "m ! i ! j = 0"
proof -
  obtain ots where ots: "parse_rollout_rs_thresholds fl options (Some (Spec_Num u)) = Inr ots"
    and m: "m ! i ! j = (if \<forall>ot\<in>set ots. passes (fst ot) (snd ot) (row_stat (fst ot) (log_ratio ! i) (rmask ! i) ! j)
      then rmask ! i ! j else 0)"
    using rejection_mask_entry[OF run shape ij] k1(1) by auto
  have spec: "parse_rs_threshold fl x (Inl u) = Inr (if est_of x = K1 then (Some (1 / u), u) else (None, u))" for x
    using u by (simp add: parse_rs_threshold_def)
  have "(if length [Inl u] = 1 \<and> 1 < length options then replicate (length options) (hd [Inl u]) else [Inl u])
      = replicate (length options) (Inl u :: real + string)"
    using k1(2) by (cases options rule: remdups_adj.cases) auto
  then have "map_res (\<lambda>(x, spec). bind_res (parse_rs_threshold fl x spec) (\<lambda>t. Inr (x, t)))
      (map (\<lambda>x. (x, Inl u)) options) = Inr ots"
    using ots by (simp add: parse_rollout_rs_thresholds_def Let_def zip_replicate2)
  moreover have "map_res (\<lambda>(x, spec). bind_res (parse_rs_threshold fl x spec) (\<lambda>t. Inr (x, t)))
      (map (\<lambda>x. (x, Inl u)) options)
      = Inr (map (\<lambda>(x, _). (x, if est_of x = K1 then (Some (1 / u), u) else (None, u)))
          (map (\<lambda>x. (x, Inl u :: real + string)) options))"
    by (rule map_res_Inr) (auto simp: spec)
  ultimately have "(opt, (Some (1 / u), u)) \<in> set ots" using k1(2,3) by force
  moreover have "\<not> passes opt (Some (1 / u), u) s" for s
  proof
    assume "passes opt (Some (1 / u), u) s"
    then have "- ln u \<le> s" "s \<le> ln u" using k1(3) u by (simp_all add: passes_def ln_div)
    then show False using ln_less_zero[OF u] by linarith
  qed
  ultimately show ?thesis using m by auto
qed

theorem single_k1_bound_rejects_all_witness:
  "\<exists>m po fin. compute_rollout_rejection_mask (\<lambda>_. None) [[0]] [[1]] ''token_k1'' (Some (Spec_Num (1 / 2))) = Inr (m, po, fin)
    \<and> m ! 0 ! 0 = 0"
proof -
  obtain m po fin where run:
    "compute_rollout_rejection_mask (\<lambda>_. None) [[0]] [[1]] ''token_k1'' (Some (Spec_Num (1 / 2))) = Inr (m, po, fin)"
    by (simp add: compute_rollout_rejection_mask_def parse_token_k1 parse_rollout_rs_thresholds_def parse_rs_threshold_def
        compute_rs_metrics_def Let_def)
  then show ?thesis
    using single_k1_bound_rejects_all[OF run, of 0 0 "[RS_Token K1]" "RS_Token K1"] parse_token_k1 by auto
qed

text \<open>The estimator of the divergence that is reported, \<open>k3_kl\<close>, is not negative on a mask.\<close>

lemma masked_mean_nonneg:
  assumes "\<forall>r\<in>set vals. \<forall>x\<in>set r. 0 \<le> x" "binary_mask rmask"
  shows "0 \<le> masked_mean vals rmask"
proof -
  have "0 \<le> masked_sum vals rmask"
    using assms
  proof (induction vals arbitrary: rmask)
    case (Cons r vals)
    show ?case
    proof (cases rmask)
      case rm: (Cons m ms)
      have "0 \<le> sum_list (map2 (*) r m)"
        using Cons.prems rm by (intro sum_list_nonneg) (force elim!: in_set_zipE intro!: mult_nonneg_nonneg)
      then show ?thesis using Cons.IH[of ms] Cons.prems rm by simp
    qed simp
  qed simp
  then show ?thesis
    using binary_mask_msum_nonneg[OF assms(2)] mask_eps_pos by (simp add: masked_mean_def add_nonneg_nonneg less_imp_le)
qed

lemma k3_kl_nonneg:
  assumes "compute_offpolicy_metrics old_lps rollout_lps rmask = Inr metrics" "binary_mask rmask"
  shows "0 \<le> k3_kl metrics"
proof -
  have "k3_kl metrics = masked_mean (mmap (\<lambda>x. exp x - x - 1) (mzip (-) old_lps rollout_lps)) rmask"
    using assms(1) by (auto simp: compute_offpolicy_metrics_def Let_def)
  moreover have "0 \<le> exp x - x - 1" for x :: real using exp_ge_add_one_self[of x] by linarith
  ultimately show ?thesis using masked_mean_nonneg[OF _ assms(2)] by (simp add: mmap_def)
qed

end
