(* ===== verification/Load_Balancer.thy ===== *)
theory Load_Balancer
  imports Prelude "HOL-Library.AList"
begin

text \<open>
  \<open>verl/verl/workers/rollout/llm_server.py\<close>: the global balancer that sends the requests of all agent loops to the
  inference servers, its client, and the number of replicas; and the manager of
  \<open>fully_async_rollouter.py\<close> that wakes hybrid replicas and puts them to sleep.  The cache of sticky sessions is
  \<open>cachetools.LRUCache\<close>, a parameter of the model: a record of its three operations and of a view of its content.
  The methods of the actor run one at a time, so the interleaving of clients is a sequence of steps.
\<close>

section \<open>The balancer\<close>

record ('c, 'r, 's) lru_cache =
  cache_peek :: "'c \<Rightarrow> 'r \<Rightarrow> 's option"
  cache_touch :: "'c \<Rightarrow> 'r \<Rightarrow> 'c"
  cache_put :: "'c \<Rightarrow> 'r \<Rightarrow> 's \<Rightarrow> 'c"
  cache_del :: "'c \<Rightarrow> 'r \<Rightarrow> 'c"

text \<open>
  What is documented of the cache: reading keeps the content, a value that was put is found, putting and deleting
  leave the other keys as they are or evict them.
\<close>

definition lru_laws :: "('c, 'r, 's) lru_cache \<Rightarrow> bool" where
  "lru_laws ops \<longleftrightarrow>
     (\<forall>c r k. cache_peek ops (cache_touch ops c r) k = cache_peek ops c k) \<and>
     (\<forall>c r s. cache_peek ops (cache_put ops c r s) r = Some s) \<and>
     (\<forall>c r s k v. k \<noteq> r \<longrightarrow> cache_peek ops (cache_put ops c r s) k = Some v \<longrightarrow> cache_peek ops c k = Some v) \<and>
     (\<forall>c r k v. cache_peek ops (cache_del ops c r) k = Some v \<longrightarrow> k \<noteq> r \<and> cache_peek ops c k = Some v)"

lemma lru_lawsD:
  assumes "lru_laws ops"
  shows "cache_peek ops (cache_touch ops c r) k = cache_peek ops c k"
    "cache_peek ops (cache_put ops c r s) r = Some s"
    "k \<noteq> r \<Longrightarrow> cache_peek ops (cache_put ops c r s) k = Some v \<Longrightarrow> cache_peek ops c k = Some v"
    "cache_peek ops (cache_del ops c r) k = Some v \<Longrightarrow> k \<noteq> r \<and> cache_peek ops c k = Some v"
  using assms unfolding lru_laws_def by blast+

record ('c, 's, 'h) balancer =
  lb_servers :: "('s \<times> 'h) list"
  lb_inflight :: "('s \<times> int) list"
  lb_cache :: 'c

definition balancer_init :: "('s \<times> 'h) list \<Rightarrow> 'c \<Rightarrow> ('c, 's, 'h) balancer res" where
  "balancer_init servers cache = require (servers \<noteq> []) ValueError
     (Inr \<lparr>lb_servers = servers, lb_inflight = map (\<lambda>(sid, _). (sid, 0)) servers, lb_cache = cache\<rparr>)"

definition count_of :: "('c, 's, 'h) balancer \<Rightarrow> 's \<Rightarrow> int" where
  "count_of b sid = (case map_of (lb_inflight b) sid of None \<Rightarrow> 0 | Some n \<Rightarrow> n)"

definition add_inflight :: "'s \<Rightarrow> int \<Rightarrow> ('c, 's, 'h) balancer \<Rightarrow> ('c, 's, 'h) balancer" where
  "add_inflight sid d b = b\<lparr>lb_inflight := AList.update sid (count_of b sid + d) (lb_inflight b)\<rparr>"

text \<open>\<open>min(d, key=d.get)\<close>: the first key with the smallest value.\<close>

definition least_loaded :: "('s \<times> int) list \<Rightarrow> 's" where
  "least_loaded d = fst (arg_min_list snd d)"

text \<open>The answer of a server: its identifier and handle; the two dictionaries are read one after the other.\<close>

definition hand_out :: "'s \<Rightarrow> ('c, 's, 'h) balancer \<Rightarrow> ('s \<times> 'h) res \<times> ('c, 's, 'h) balancer" where
  "hand_out sid b =
     (let b' = add_inflight sid 1 b
      in (case map_of (lb_servers b') sid of None \<Rightarrow> Inl KeyError | Some h \<Rightarrow> Inr (sid, h), b'))"

definition select_server ::
  "('c, 'r, 's) lru_cache \<Rightarrow> 'r \<Rightarrow> ('c, 's, 'h) balancer \<Rightarrow> ('s \<times> 'h) res \<times> ('c, 's, 'h) balancer" where
  "select_server ops request_id b =
     (if lb_inflight b = [] then (Inl RuntimeError, b)
      else (let server_id = least_loaded (lb_inflight b)
            in hand_out server_id (b\<lparr>lb_cache := cache_put ops (lb_cache b) request_id server_id\<rparr>)))"

definition acquire_server ::
  "('c, 'r, 's) lru_cache \<Rightarrow> 'r \<Rightarrow> ('c, 's, 'h) balancer \<Rightarrow> ('s \<times> 'h) res \<times> ('c, 's, 'h) balancer" where
  "acquire_server ops request_id b =
     (case cache_peek ops (lb_cache b) request_id of
        Some server_id \<Rightarrow>
          (let b' = b\<lparr>lb_cache := cache_touch ops (lb_cache b) request_id\<rparr>
           in if server_id \<in> set (map fst (lb_inflight b)) then hand_out server_id b'
              else select_server ops request_id (b'\<lparr>lb_cache := cache_del ops (lb_cache b') request_id\<rparr>))
      | None \<Rightarrow> select_server ops request_id b)"

definition release_server :: "'s \<Rightarrow> ('c, 's, 'h) balancer \<Rightarrow> ('c, 's, 'h) balancer" where
  "release_server server_id b =
     (if server_id \<notin> set (map fst (lb_inflight b)) then b
      else if 0 < count_of b server_id then add_inflight server_id (- 1) b else b)"

definition add_servers :: "('s \<times> 'h) list \<Rightarrow> ('c, 's, 'h) balancer \<Rightarrow> ('c, 's, 'h) balancer" where
  "add_servers servers b =
     fold (\<lambda>(sid, handle) b. b\<lparr>lb_inflight := AList.update sid 0 (lb_inflight b),
                                lb_servers := AList.update sid handle (lb_servers b)\<rparr>) servers b"

definition remove_servers :: "'s list \<Rightarrow> ('c, 's, 'h) balancer \<Rightarrow> ('c, 's, 'h) balancer" where
  "remove_servers server_ids b =
     fold (\<lambda>sid b. b\<lparr>lb_inflight := AList.delete sid (lb_inflight b),
                       lb_servers := AList.delete sid (lb_servers b)\<rparr>) server_ids b"

definition get_inflight_count :: "'s \<Rightarrow> ('c, 's, 'h) balancer \<Rightarrow> int" where
  "get_inflight_count server_id b = count_of b server_id"

definition get_all_servers :: "('c, 's, 'h) balancer \<Rightarrow> 's list" where
  "get_all_servers b = map fst (lb_inflight b)"

record 's lb_status =
  st_servers :: "('s \<times> int) list"
  st_total_inflight :: int
  st_active_servers :: nat
  st_registered_handles :: "'s list"

definition get_status :: "('c, 's, 'h) balancer \<Rightarrow> 's lb_status" where
  "get_status b =
     \<lparr>st_servers = lb_inflight b, st_total_inflight = sum_list (map snd (lb_inflight b)),
      st_active_servers = length (lb_inflight b), st_registered_handles = map fst (lb_servers b)\<rparr>"

section \<open>The client\<close>

text \<open>
  A request acquires a server, runs there, and releases it on every way out (\<open>finally\<close>).  The server is an
  argument: it may answer or raise, and it may change its own state.
\<close>

record ('p, 'd, 'k) gen_request =
  gr_prompt_ids :: "int list"
  gr_sampling_params :: 'p
  gr_image_data :: "'d option"
  gr_video_data :: "'d option"
  gr_audio_data :: "'d option"
  gr_mm_processor_kwargs :: "'k list option"

text \<open>Audio goes along when there is any, the arguments of the processor when they are not empty.\<close>

definition multimodal_kwargs :: "('p, 'd, 'k) gen_request \<Rightarrow> ('p, 'd, 'k) gen_request" where
  "multimodal_kwargs req = req\<lparr>gr_mm_processor_kwargs :=
     (case gr_mm_processor_kwargs req of Some (x # xs) \<Rightarrow> Some (x # xs) | _ \<Rightarrow> None)\<rparr>"

type_synonym ('h, 'p, 'd, 'k, 'st, 'o) server = "'h \<Rightarrow> ('p, 'd, 'k) gen_request \<Rightarrow> 'st \<Rightarrow> 'o res \<times> 'st"

definition client_generate ::
  "('c, 'r, 's) lru_cache \<Rightarrow> ('h, 'p, 'd, 'k, 'st, 'o) server \<Rightarrow> 'r \<Rightarrow> ('p, 'd, 'k) gen_request
    \<Rightarrow> ('c, 's, 'h) balancer \<times> 'st \<Rightarrow> 'o res \<times> ('c, 's, 'h) balancer \<times> 'st" where
  "client_generate ops serve request_id req s =
     (let (b, st) = s in
      case acquire_server ops request_id b of
        (Inl e, b') \<Rightarrow> (Inl e, b', st)
      | (Inr (server_id, server), b') \<Rightarrow>
          (let (r, st') = serve server (multimodal_kwargs req) st
           in (r, release_server server_id b', st')))"

section \<open>Number of replicas\<close>

record disaggregation =
  prefill_replicas :: nat
  decode_replicas :: nat
  decode_tensor_model_parallel_size :: "nat option"

definition rollout_world_size :: "nat \<Rightarrow> nat \<Rightarrow> nat \<Rightarrow> disaggregation option \<Rightarrow> nat" where
  "rollout_world_size tp dp pp disagg =
     (case disagg of
        None \<Rightarrow> tp * dp * pp
      | Some d \<Rightarrow>
          (let decode_tp = (case decode_tensor_model_parallel_size d of None \<Rightarrow> tp | Some t \<Rightarrow> t)
           in (tp * prefill_replicas d + decode_tp * decode_replicas d) * dp * pp))"

definition num_replicas :: "nat \<Rightarrow> nat \<Rightarrow> nat \<Rightarrow> nat \<Rightarrow> disaggregation option \<Rightarrow> nat res" where
  "num_replicas world_size tp dp pp disagg =
     (let rws = rollout_world_size tp dp pp disagg
      in require (rws \<noteq> 0) ZeroDivisionError (Inr (world_size div rws)))"

section \<open>Hybrid replicas\<close>

text \<open>
  The manager of the fully asynchronous mode: registered hybrid replicas sleep until they are added, and sleep again
  when they are removed.  A call of the balancer does not fail; times and messages are left out.
\<close>

record ('s, 'h) replica =
  rp_rank :: nat
  rp_address :: 's
  rp_handle :: 'h

record ('i, 'c, 's, 'h) replica_manager =
  mg_balancer :: "('c, 's, 'h) balancer"
  hybrid_replicas :: "('i \<times> ('s, 'h) replica) list"
  alive_replicas :: "('i \<times> ('s, 'h) replica) list"
  alive_addresses :: "('i \<times> 's) list"
  server_addresses :: "'s list"
  server_handles :: "'h list"
  rollout_replicas :: "('s, 'h) replica list"

text \<open>The replicas a call adds: not alive yet, and registered.\<close>

definition replicas_to_add :: "'i list \<Rightarrow> ('i, 'c, 's, 'h) replica_manager \<Rightarrow> ('i \<times> ('s, 'h) replica) list" where
  "replicas_to_add rids m =
     concat (map (\<lambda>rid.
       if rid \<in> set (map fst (alive_replicas m)) then []
       else (case map_of (hybrid_replicas m) rid of None \<Rightarrow> [] | Some r \<Rightarrow> [(rid, r)])) rids)"

definition track_added :: "'i \<times> ('s, 'h) replica \<Rightarrow> ('i, 'c, 's, 'h) replica_manager \<Rightarrow> ('i, 'c, 's, 'h) replica_manager" where
  "track_added p m =
     (let (rid, r) = p;
          m1 = (if rp_address r \<in> set (server_addresses m) then m
                else m\<lparr>server_handles := server_handles m @ [rp_handle r],
                        server_addresses := server_addresses m @ [rp_address r]\<rparr>);
          m2 = (if r \<in> set (rollout_replicas m1) then m1 else m1\<lparr>rollout_replicas := rollout_replicas m1 @ [r]\<rparr>)
      in m2\<lparr>alive_replicas := AList.update rid r (alive_replicas m2),
             alive_addresses := AList.update rid (rp_address r) (alive_addresses m2)\<rparr>)"

definition add_replicas :: "'i list \<Rightarrow> ('i, 'c, 's, 'h) replica_manager \<Rightarrow> nat \<times> ('i, 'c, 's, 'h) replica_manager" where
  "add_replicas resource_ids m =
     (let new = replicas_to_add resource_ids m;
          servers_to_add = fold (\<lambda>(_, r). AList.update (rp_address r) (rp_handle r)) new []
      in if servers_to_add = [] then (0, m)
         else (length new,
               fold track_added new (m\<lparr>mg_balancer := add_servers servers_to_add (mg_balancer m)\<rparr>)))"

definition pop_at :: "nat \<Rightarrow> 'a list \<Rightarrow> 'a list" where
  "pop_at i xs = take i xs @ drop (Suc i) xs"

definition index_of :: "'a \<Rightarrow> 'a list \<Rightarrow> nat" where
  "index_of x xs = length (takeWhile (\<lambda>y. y \<noteq> x) xs)"

text \<open>The clean-up of one replica; a \<open>KeyError\<close> for one that is no longer alive ends the call with 0.\<close>

definition track_removed :: "'i \<Rightarrow> ('i, 'c, 's, 'h) replica_manager \<Rightarrow> ('i, 'c, 's, 'h) replica_manager option" where
  "track_removed rid m =
     (case (map_of (alive_addresses m) rid, map_of (alive_replicas m) rid) of
        (Some address, Some r) \<Rightarrow>
          (let idx = index_of address (server_addresses m);
               m1 = (if address \<in> set (server_addresses m)
                     then m\<lparr>server_addresses := pop_at idx (server_addresses m), server_handles := pop_at idx (server_handles m)\<rparr>
                     else m)
           in Some (m1\<lparr>rollout_replicas := remove1 r (rollout_replicas m1),
                        alive_replicas := AList.delete rid (alive_replicas m1),
                        alive_addresses := AList.delete rid (alive_addresses m1)\<rparr>))
      | _ \<Rightarrow> None)"

fun track_all_removed :: "'i list \<Rightarrow> ('i, 'c, 's, 'h) replica_manager \<Rightarrow> bool \<times> ('i, 'c, 's, 'h) replica_manager" where
  "track_all_removed [] m = (True, m)"
| "track_all_removed (rid # rids) m =
     (case track_removed rid m of None \<Rightarrow> (False, m) | Some m' \<Rightarrow> track_all_removed rids m')"

definition remove_replicas :: "'i list \<Rightarrow> ('i, 'c, 's, 'h) replica_manager \<Rightarrow> nat \<times> ('i, 'c, 's, 'h) replica_manager" where
  "remove_replicas resource_ids m =
     (let alive = filter (\<lambda>rid. rid \<in> set (map fst (alive_replicas m))) resource_ids;
          ids = map (\<lambda>rid. the (map_of (alive_addresses m) rid)) alive
      in if ids = [] then (0, m)
         else (let (ok, m') = track_all_removed alive (m\<lparr>mg_balancer := remove_servers ids (mg_balancer m)\<rparr>)
               in (if ok then length alive else 0, m')))"

section \<open>Counts and keys\<close>

definition pool :: "('c, 's, 'h) balancer \<Rightarrow> 's set" where
  "pool b = set (map fst (lb_inflight b))"

named_theorems lb_simps \<open>effect of the operations on counts, pool and handles\<close>

lemma count_of_cache [lb_simps]: "count_of (b\<lparr>lb_cache := c\<rparr>) t = count_of b t"
  by (simp add: count_of_def)

lemma pool_cache [lb_simps]: "pool (b\<lparr>lb_cache := c\<rparr>) = pool b"
  by (simp add: pool_def)

lemma count_of_add_inflight [lb_simps]:
  "count_of (add_inflight sid d b) t = (if t = sid then count_of b sid + d else count_of b t)"
  by (simp add: count_of_def add_inflight_def update_conv')

lemma pool_add_inflight [lb_simps]: "pool (add_inflight sid d b) = insert sid (pool b)"
  by (simp add: pool_def add_inflight_def dom_update)

lemma servers_add_inflight [lb_simps]: "lb_servers (add_inflight sid d b) = lb_servers b"
  by (simp add: add_inflight_def)

lemma cache_add_inflight [lb_simps]: "lb_cache (add_inflight sid d b) = lb_cache b"
  by (simp add: add_inflight_def)

lemma release_server_alt:
  "release_server sid b = (if sid \<in> pool b \<and> 0 < count_of b sid then add_inflight sid (- 1) b else b)"
  by (simp add: release_server_def pool_def)

lemma count_of_release [lb_simps]:
  "count_of (release_server sid b) t = (if t = sid \<and> 0 < count_of b sid then count_of b sid - 1 else count_of b t)"
proof (cases "sid \<in> set (map fst (lb_inflight b))")
  case False
  then have "map_of (lb_inflight b) sid = None" by (simp add: map_of_eq_None_iff)
  then show ?thesis using False by (simp add: release_server_def count_of_def)
qed (simp add: release_server_def count_of_add_inflight)

lemma pool_release [lb_simps]: "pool (release_server sid b) = pool b"
  by (auto simp: release_server_alt pool_add_inflight)

lemma servers_release [lb_simps]: "lb_servers (release_server sid b) = lb_servers b"
  by (simp add: release_server_def servers_add_inflight)

lemma cache_release [lb_simps]: "lb_cache (release_server sid b) = lb_cache b"
  by (simp add: release_server_def cache_add_inflight)

lemma add_servers_Cons:
  "add_servers ((sid, h) # ss) b =
     add_servers ss (b\<lparr>lb_inflight := AList.update sid 0 (lb_inflight b), lb_servers := AList.update sid h (lb_servers b)\<rparr>)"
  "add_servers [] b = b"
  by (simp_all add: add_servers_def)

lemma keys_delete: "fst ` set (AList.delete k al) = fst ` set al - {k}"
  using arg_cong[OF delete_keys[of k al], of set] by simp

lemma remove_servers_Cons:
  "remove_servers (sid # ids) b =
     remove_servers ids (b\<lparr>lb_inflight := AList.delete sid (lb_inflight b), lb_servers := AList.delete sid (lb_servers b)\<rparr>)"
  "remove_servers [] b = b"
  by (simp_all add: remove_servers_def)

lemma add_servers_all:
  "count_of (add_servers ss b) t = (if t \<in> fst ` set ss then 0 else count_of b t) \<and>
    pool (add_servers ss b) = pool b \<union> fst ` set ss \<and>
    fst ` set (lb_servers (add_servers ss b)) = fst ` set (lb_servers b) \<union> fst ` set ss"
proof (induction ss arbitrary: b)
  case (Cons p ss)
  obtain sid h where p: "p = (sid, h)" by (cases p)
  let ?b = "b\<lparr>lb_inflight := AList.update sid 0 (lb_inflight b), lb_servers := AList.update sid h (lb_servers b)\<rparr>"
  have "count_of ?b t = (if t = sid then 0 else count_of b t)" for t by (simp add: count_of_def update_conv')
  moreover have "pool ?b = insert sid (pool b)" by (simp add: pool_def dom_update)
  moreover have "fst ` set (lb_servers ?b) = insert sid (fst ` set (lb_servers b))" by (simp add: dom_update)
  ultimately show ?case
    using Cons.IH[of ?b] by (auto simp: p add_servers_Cons)
qed (simp_all add: add_servers_Cons)

lemmas add_servers_effect [lb_simps] = add_servers_all[THEN conjunct1] add_servers_all[THEN conjunct2, THEN conjunct1]
  add_servers_all[THEN conjunct2, THEN conjunct2]

lemma remove_servers_all:
  "count_of (remove_servers ids b) t = (if t \<in> set ids then 0 else count_of b t) \<and>
    pool (remove_servers ids b) = pool b - set ids \<and>
    fst ` set (lb_servers (remove_servers ids b)) = fst ` set (lb_servers b) - set ids"
proof (induction ids arbitrary: b)
  case (Cons sid ids)
  let ?b = "b\<lparr>lb_inflight := AList.delete sid (lb_inflight b), lb_servers := AList.delete sid (lb_servers b)\<rparr>"
  have "count_of ?b t = (if t = sid then 0 else count_of b t)" for t by (simp add: count_of_def delete_conv')
  moreover have "pool ?b = pool b - {sid}" by (simp add: pool_def keys_delete)
  moreover have "fst ` set (lb_servers ?b) = fst ` set (lb_servers b) - {sid}" by (simp add: keys_delete)
  ultimately show ?case
    using Cons.IH[of ?b] by (auto simp: remove_servers_Cons)
qed (simp_all add: remove_servers_Cons)

lemmas remove_servers_effect [lb_simps] = remove_servers_all[THEN conjunct1] remove_servers_all[THEN conjunct2, THEN conjunct1]
  remove_servers_all[THEN conjunct2, THEN conjunct2]

lemma least_loaded:
  assumes "d \<noteq> []" "distinct (map fst d)"
  shows "least_loaded d \<in> fst ` set d"
    "k \<in> fst ` set d \<Longrightarrow> the (map_of d (least_loaded d)) \<le> the (map_of d k)"
proof -
  have mem: "arg_min_list snd d \<in> set d" by (rule arg_min_list_in[OF assms(1)])
  then show "least_loaded d \<in> fst ` set d" unfolding least_loaded_def by simp
  have eq: "map_of d (least_loaded d) = Some (snd (arg_min_list snd d))"
    using mem assms(2) unfolding least_loaded_def by (metis map_of_eq_Some_iff prod.collapse)
  show "the (map_of d (least_loaded d)) \<le> the (map_of d k)" if "k \<in> fst ` set d"
  proof -
    obtain v where v: "(k, v) \<in> set d" using \<open>k \<in> fst ` set d\<close> by force
    then have "map_of d k = Some v" using assms(2) by simp
    moreover have "snd (arg_min_list snd d) \<le> v"
      using f_arg_min_list_f[OF assms(1), of snd] v by (metis Min_le finite_imageI finite_set image_eqI snd_conv)
    ultimately show ?thesis using eq by simp
  qed
qed

section \<open>Acquiring a server\<close>

text \<open>The two dictionaries have the same keys, each once, and no count is negative.\<close>

definition balancer_ok :: "('c, 's, 'h) balancer \<Rightarrow> bool" where
  "balancer_ok b \<longleftrightarrow> distinct (map fst (lb_inflight b)) \<and> fst ` set (lb_servers b) = pool b \<and> (\<forall>t. 0 \<le> count_of b t)"

lemma count_of_out: "t \<notin> pool b \<Longrightarrow> count_of b t = 0"
  by (simp add: count_of_def pool_def map_of_eq_None_iff[THEN iffD2])

lemma least_loaded_pool:
  assumes "balancer_ok b" "lb_inflight b \<noteq> []"
  shows "least_loaded (lb_inflight b) \<in> pool b" "t \<in> pool b \<Longrightarrow> count_of b (least_loaded (lb_inflight b)) \<le> count_of b t"
proof -
  have d: "distinct (map fst (lb_inflight b))" using assms(1) by (simp add: balancer_ok_def)
  show m: "least_loaded (lb_inflight b) \<in> pool b" using least_loaded(1)[OF assms(2) d] by (simp add: pool_def)
  have "map_of (lb_inflight b) k \<noteq> None" if "k \<in> pool b" for k using that by (auto simp: pool_def map_of_eq_None_iff)
  then have "count_of b k = the (map_of (lb_inflight b) k)" if "k \<in> pool b" for k
    using that unfolding count_of_def by (metis option.case_eq_if)
  then show "count_of b (least_loaded (lb_inflight b)) \<le> count_of b t" if "t \<in> pool b"
    using least_loaded(2)[OF assms(2) d] m that by (simp add: pool_def)
qed

lemma hand_out_ok:
  assumes "balancer_ok b" "sid \<in> pool b"
  obtains h where "hand_out sid b = (Inr (sid, h), add_inflight sid 1 b)" "map_of (lb_servers b) sid = Some h"
proof -
  have "map_of (lb_servers b) sid \<noteq> None" using assms by (simp add: balancer_ok_def map_of_eq_None_iff)
  then show thesis using that by (auto simp: hand_out_def servers_add_inflight)
qed

text \<open>What acquiring does to a well-formed balancer, in the two ways it can end.\<close>

lemma select_server_cases:
  assumes ok: "balancer_ok b"
  obtains (empty) "lb_inflight b = []" "select_server ops r b = (Inl RuntimeError, b)"
  | (least) sid h where "sid \<in> pool b" "\<And>t. t \<in> pool b \<Longrightarrow> count_of b sid \<le> count_of b t" "map_of (lb_servers b) sid = Some h"
      "select_server ops r b = (Inr (sid, h), add_inflight sid 1 (b\<lparr>lb_cache := cache_put ops (lb_cache b) r sid\<rparr>))"
proof (cases "lb_inflight b = []")
  case True
  then show thesis by (intro empty) (simp_all add: select_server_def)
next
  case False
  let ?sid = "least_loaded (lb_inflight b)" and ?b = "b\<lparr>lb_cache := cache_put ops (lb_cache b) r (least_loaded (lb_inflight b))\<rparr>"
  have ok': "balancer_ok ?b" and p: "?sid \<in> pool ?b"
    using ok least_loaded_pool(1)[OF ok False] by (simp_all add: balancer_ok_def lb_simps)
  obtain h where "hand_out ?sid ?b = (Inr (?sid, h), add_inflight ?sid 1 ?b)" "map_of (lb_servers ?b) ?sid = Some h"
    using hand_out_ok[OF ok' p] .
  then show thesis
    using False least_loaded_pool[OF ok False] by (intro least[of ?sid h]) (simp_all add: select_server_def Let_def)
qed

lemma acquire_server_cases:
  fixes b :: "('c, 's, 'h) balancer"
  assumes ok: "balancer_ok b" and laws: "lru_laws ops"
  obtains (empty) b' where "lb_inflight b = []" "acquire_server ops r b = (Inl RuntimeError, b')"
      "b' = b\<lparr>lb_cache := lb_cache b'\<rparr>"
  | (served) sid h c where "sid \<in> pool b" "map_of (lb_servers b) sid = Some h"
      "acquire_server ops r b = (Inr (sid, h), add_inflight sid 1 (b\<lparr>lb_cache := c\<rparr>))" "cache_peek ops c r = Some sid"
      "cache_peek ops (lb_cache b) r = Some sid
        \<or> (\<forall>s. cache_peek ops (lb_cache b) r = Some s \<longrightarrow> s \<notin> pool b) \<and> (\<forall>t\<in>pool b. count_of b sid \<le> count_of b t)"
proof -
  note put = lru_lawsD(2)[OF laws] and touch = lru_lawsD(1)[OF laws]
  note outcomes = empty served
  have sel: thesis
    if a: "acquire_server ops r b = select_server ops r (b\<lparr>lb_cache := c0\<rparr>)"
      and stale: "\<forall>s. cache_peek ops (lb_cache b) r = Some s \<longrightarrow> s \<notin> pool b" for c0
  proof -
    have "balancer_ok (b\<lparr>lb_cache := c0\<rparr>)" using ok by (simp add: balancer_ok_def lb_simps)
    then show thesis
    proof (cases rule: select_server_cases[of _ ops r])
      case empty
      then show ?thesis using a by (intro outcomes(1)[of "b\<lparr>lb_cache := c0\<rparr>"]) simp_all
    next
      case (least sid h)
      then show ?thesis
        using a stale by (intro outcomes(2)[of sid h "cache_put ops c0 r sid"]) (simp_all add: lb_simps put)
    qed
  qed
  show thesis
  proof (cases "cache_peek ops (lb_cache b) r")
    case None
    then show ?thesis using sel[of "lb_cache b"] by (simp add: acquire_server_def)
  next
    case (Some sid)
    show ?thesis
    proof (cases "sid \<in> pool b")
      case True
      let ?b = "b\<lparr>lb_cache := cache_touch ops (lb_cache b) r\<rparr>"
      have "balancer_ok ?b" "sid \<in> pool ?b" using ok True by (simp_all add: balancer_ok_def lb_simps)
      then obtain h where "hand_out sid ?b = (Inr (sid, h), add_inflight sid 1 ?b)" "map_of (lb_servers ?b) sid = Some h"
        by (rule hand_out_ok)
      then show ?thesis
        using True Some
        by (intro served[of sid h "cache_touch ops (lb_cache b) r"]) (simp_all add: acquire_server_def touch pool_def)
    next
      case False
      then show ?thesis
        using Some sel[of "cache_del ops (cache_touch ops (lb_cache b) r) r"] by (simp add: acquire_server_def pool_def Let_def)
    qed
  qed
qed

section \<open>Interleaved clients\<close>

text \<open>
  The calls of the actor in the order in which they are served.  Next to the balancer the model keeps the multiset of
  the servers the clients hold: one entry per answered request that is not released yet.
\<close>

datatype ('r, 's, 'h) lb_event =
  Acquired 'r 's | Refused 'r | Released 's | Added "('s \<times> 'h) list" | Removed "'s list"

inductive lb_step ::
  "('c, 'r, 's) lru_cache \<Rightarrow> ('c, 's, 'h) balancer \<times> 's multiset \<Rightarrow> ('r, 's, 'h) lb_event
    \<Rightarrow> ('c, 's, 'h) balancer \<times> 's multiset \<Rightarrow> bool"
  for ops where
  acquire: "acquire_server ops r b = (Inr (sid, h), b') \<Longrightarrow> lb_step ops (b, held) (Acquired r sid) (b', add_mset sid held)"
| refuse: "acquire_server ops r b = (Inl e, b') \<Longrightarrow> lb_step ops (b, held) (Refused r) (b', held)"
| release: "sid \<in># held \<Longrightarrow> lb_step ops (b, held) (Released sid) (release_server sid b, held - {#sid#})"
| add: "lb_step ops (b, held) (Added ss) (add_servers ss b, held)"
| remove: "lb_step ops (b, held) (Removed ids) (remove_servers ids b, held)"

inductive lb_run ::
  "('c, 'r, 's) lru_cache \<Rightarrow> ('c, 's, 'h) balancer \<times> 's multiset \<Rightarrow> ('r, 's, 'h) lb_event list
    \<Rightarrow> ('c, 's, 'h) balancer \<times> 's multiset \<Rightarrow> bool"
  for ops where
  start: "lb_run ops s [] s"
| step: "lb_run ops s es s' \<Longrightarrow> lb_step ops s' e s'' \<Longrightarrow> lb_run ops s (es @ [e]) s''"

inductive_cases acquiredE: "lb_step ops s (Acquired r sid) s'"
inductive_cases releasedE: "lb_step ops s (Released sid) s'"

text \<open>The pool changes only by the events that add and remove servers.\<close>

definition fixed_pool :: "('r, 's, 'h) lb_event list \<Rightarrow> bool" where
  "fixed_pool es \<longleftrightarrow> list_all (\<lambda>e. case e of Added _ \<Rightarrow> False | Removed _ \<Rightarrow> False | _ \<Rightarrow> True) es"

lemma distinct_add_inflight: "distinct (map fst (lb_inflight b)) \<Longrightarrow> distinct (map fst (lb_inflight (add_inflight sid d b)))"
  by (simp add: add_inflight_def distinct_update)

lemma balancer_ok_add_inflight:
  "balancer_ok b \<Longrightarrow> sid \<in> pool b \<Longrightarrow> 0 \<le> count_of b sid + d \<Longrightarrow> balancer_ok (add_inflight sid d b)"
  by (auto simp: balancer_ok_def lb_simps distinct_add_inflight insert_absorb)

lemma balancer_ok_cache: "balancer_ok (b\<lparr>lb_cache := c\<rparr>) \<longleftrightarrow> balancer_ok b"
  by (simp add: balancer_ok_def lb_simps)

lemma balancer_ok_release: "balancer_ok b \<Longrightarrow> balancer_ok (release_server sid b)"
  by (auto simp: release_server_alt intro!: balancer_ok_add_inflight)

lemma distinct_add_servers: "distinct (map fst (lb_inflight b)) \<Longrightarrow> distinct (map fst (lb_inflight (add_servers ss b)))"
  by (induction ss arbitrary: b) (auto simp: add_servers_Cons distinct_update)

lemma distinct_remove_servers: "distinct (map fst (lb_inflight b)) \<Longrightarrow> distinct (map fst (lb_inflight (remove_servers ids b)))"
  by (induction ids arbitrary: b) (auto simp: remove_servers_Cons distinct_delete)

lemma balancer_ok_add: "balancer_ok b \<Longrightarrow> balancer_ok (add_servers ss b)"
  by (auto simp: balancer_ok_def lb_simps distinct_add_servers)

lemma balancer_ok_remove: "balancer_ok b \<Longrightarrow> balancer_ok (remove_servers ids b)"
  by (auto simp: balancer_ok_def lb_simps distinct_remove_servers)

text \<open>The invariant of a step: a count never exceeds the number of requests that hold the server.\<close>

definition lb_inv :: "('c, 's, 'h) balancer \<times> 's multiset \<Rightarrow> bool" where
  "lb_inv s \<longleftrightarrow> balancer_ok (fst s) \<and> (\<forall>t. count_of (fst s) t \<le> int (count (snd s) t))"

lemma lb_step_inv:
  assumes "lb_step ops s e s'" "lb_inv s" "lru_laws ops"
  shows "lb_inv s'"
  using assms(1)
proof (cases rule: lb_step.cases)
  case (acquire r b sid h b' held)
  have ok: "balancer_ok b" using assms(2) acquire(1) by (simp add: lb_inv_def)
  from ok assms(3) show ?thesis
  proof (cases rule: acquire_server_cases[where r = r])
    case (served sid' h' c)
    then have b': "b' = add_inflight sid 1 (b\<lparr>lb_cache := c\<rparr>)" and "sid \<in> pool b" using acquire by simp_all
    moreover have "0 \<le> count_of b sid" using ok by (simp add: balancer_ok_def)
    ultimately have "balancer_ok b'" using ok balancer_ok_add_inflight[of "b\<lparr>lb_cache := c\<rparr>" sid 1]
      by (simp add: balancer_ok_cache lb_simps)
    moreover have "count_of b t \<le> int (count held t)" for t using assms(2) acquire(1) by (simp add: lb_inv_def)
    ultimately show ?thesis using acquire by (simp add: lb_inv_def b' lb_simps)
  qed (use acquire in simp)
next
  case (refuse r b err b' held)
  have ok: "balancer_ok b" using assms(2) refuse(1) by (simp add: lb_inv_def)
  from ok assms(3) show ?thesis
  proof (cases rule: acquire_server_cases[where r = r])
    case (empty b'')
    have "b' = b''" using empty(2) refuse(4) by simp
    then obtain c where "b' = b\<lparr>lb_cache := c\<rparr>" using empty(3) by blast
    then show ?thesis using refuse(1-3) assms(2) by (simp add: lb_inv_def balancer_ok_cache lb_simps)
  qed (use refuse in simp)
next
  case (release sid held b)
  have "count_of (release_server sid b) t \<le> int (count (held - {#sid#}) t)" for t
  proof -
    have "count_of b t \<le> int (count held t)" "0 \<le> count_of b t" "1 \<le> count held sid"
      using assms(2) release by (auto simp: lb_inv_def balancer_ok_def Suc_le_eq)
    then show ?thesis by (auto simp: lb_simps)
  qed
  then show ?thesis using release assms(2) by (simp add: lb_inv_def balancer_ok_release)
next
  case (add b held ss)
  then show ?thesis using assms(2) by (simp add: lb_inv_def lb_simps balancer_ok_add)
next
  case (remove b held ids)
  then show ?thesis using assms(2) by (simp add: lb_inv_def lb_simps balancer_ok_remove)
qed

lemma lb_run_inv: "lb_run ops s es s' \<Longrightarrow> lb_inv s \<Longrightarrow> lru_laws ops \<Longrightarrow> lb_inv s'"
  by (induction rule: lb_run.induct) (auto intro: lb_step_inv)

lemma map_of_zeros: "map_of (map (\<lambda>(sid, _). (sid, 0 :: int)) xs) k \<in> {None, Some 0}"
  by (induction xs) auto

lemma balancer_init_inv:
  assumes "balancer_init servers c = Inr b" "distinct (map fst servers)"
  shows "lb_inv (b, {#})" "pool b = fst ` set servers" "count_of b t = 0"
proof -
  have b: "lb_inflight b = map (\<lambda>(sid, _). (sid, 0)) servers" "lb_servers b = servers"
    using assms(1) by (auto simp: balancer_init_def)
  have fsts: "map fst (map (\<lambda>(sid, _). (sid, 0 :: int)) servers) = map fst servers" by (simp add: case_prod_beta comp_def)
  have p: "pool b = fst ` set servers" by (simp only: pool_def b fsts) simp
  have z: "count_of b k = 0" for k
    using map_of_zeros[of servers k] by (auto simp: count_of_def b)
  show "lb_inv (b, {#})"
    unfolding lb_inv_def balancer_ok_def using assms(2) z p fsts by (simp add: b del: map_map)
  show "pool b = fst ` set servers" "count_of b t = 0" by (fact p, fact z)
qed

text \<open>A cache of bounded length as a list, the most recent entry first, keeps the laws.\<close>

definition list_cache :: "nat \<Rightarrow> (('r \<times> 's) list, 'r, 's) lru_cache" where
  "list_cache n =
     \<lparr>cache_peek = map_of,
      cache_touch = (\<lambda>c r. case map_of c r of None \<Rightarrow> c | Some s \<Rightarrow> (r, s) # AList.delete r c),
      cache_put = (\<lambda>c r s. take (Suc n) ((r, s) # AList.delete r c)),
      cache_del = (\<lambda>c r. AList.delete r c)\<rparr>"

lemma map_of_take: "map_of (take n xs) k = Some v \<Longrightarrow> map_of xs k = Some v"
  by (metis append_take_drop_id map_add_Some_iff map_of_append map_add_find_right)

lemma list_cache_peek: "cache_peek (list_cache n) = map_of"
  by (simp add: list_cache_def)

lemma list_cache_laws: "lru_laws (list_cache n)"
proof -
  have "map_of (AList.delete r c) k = (if k = r then None else map_of c k)" for c :: "('a \<times> 'b) list" and r k
    by (simp add: delete_conv')
  then show ?thesis
    unfolding lru_laws_def list_cache_def by (auto split: option.splits if_splits dest: map_of_take)
qed

text \<open>
  C29. Under every interleaving of clients and of changes of the pool the dictionaries of handles and counts have the same
  keys, a count is never negative and never above the number of requests that run on the server, and a request
  is refused only when the pool is empty.
\<close>

theorem balancer_invariant:
  assumes "balancer_init servers c = Inr b0" "distinct (map fst servers)" "lru_laws ops"
    and "lb_run ops (b0, {#}) es (b, held)"
  shows "fst ` set (lb_servers b) = pool b \<and> 0 \<le> count_of b t \<and> count_of b t \<le> int (count held t)
    \<and> (pool b \<noteq> {} \<longrightarrow> (\<exists>sid h. fst (acquire_server ops r b) = Inr (sid, h)))
    \<and> (pool b = {} \<longrightarrow> fst (acquire_server ops r b) = Inl RuntimeError)"
proof -
  have inv: "lb_inv (b, held)" by (rule lb_run_inv[OF assms(4) balancer_init_inv(1)[OF assms(1,2)] assms(3)])
  then have ok: "balancer_ok b" by (simp add: lb_inv_def)
  have "pool b = {} \<longleftrightarrow> lb_inflight b = []" by (simp add: pool_def)
  moreover from ok assms(3) have "(pool b \<noteq> {} \<longrightarrow> (\<exists>sid h. fst (acquire_server ops r b) = Inr (sid, h)))
    \<and> (pool b = {} \<longrightarrow> fst (acquire_server ops r b) = Inl RuntimeError)"
    by (cases rule: acquire_server_cases[where r = r]) (auto simp: pool_def)
  ultimately show ?thesis using inv by (simp add: lb_inv_def balancer_ok_def)
qed

text \<open>
  While the pool stays as it is the counts are exact: a server's count is the number of requests that run on it.
\<close>

lemma lb_step_exact:
  assumes "lb_step ops s e s'" "lb_inv s" "lru_laws ops" "fixed_pool [e]"
    and exact: "\<forall>t. count_of (fst s) t = int (count (snd s) t)"
  shows "\<forall>t. count_of (fst s') t = int (count (snd s') t)"
  using assms(1)
proof (cases rule: lb_step.cases)
  case (acquire r b sid h b' held)
  have ok: "balancer_ok b" using assms(2) acquire(1) by (simp add: lb_inv_def)
  from ok assms(3) show ?thesis
    by (cases rule: acquire_server_cases[where r = r]) (use acquire exact in \<open>auto simp: lb_simps\<close>)
next
  case (refuse r b err b' held)
  have ok: "balancer_ok b" using assms(2) refuse(1) by (simp add: lb_inv_def)
  from ok assms(3) show ?thesis
  proof (cases rule: acquire_server_cases[where r = r])
    case (empty b'')
    have "b' = b''" using empty(2) refuse(4) by simp
    then obtain c where "b' = b\<lparr>lb_cache := c\<rparr>" using empty(3) by blast
    then show ?thesis using refuse(1-3) exact by (simp add: lb_simps)
  qed (use refuse in simp)
next
  case (release sid held b)
  then have "0 < count held sid" by simp
  then show ?thesis using release exact by (auto simp: lb_simps Suc_le_eq of_nat_diff)
qed (use assms(4) in \<open>simp_all add: fixed_pool_def\<close>)

theorem counts_exact:
  assumes "balancer_init servers c = Inr b0" "distinct (map fst servers)" "lru_laws ops"
    and "lb_run ops (b0, {#}) es (b, held)" "fixed_pool es"
  shows "count_of b t = int (count held t)"
proof -
  have "lb_inv s' \<and> (\<forall>t. count_of (fst s') t = int (count (snd s') t))"
    if "lb_run ops s es s'" "s = (b0, {#})" "fixed_pool es" for s es s'
    using that
  proof (induction rule: lb_run.induct)
    case (start s)
    then show ?case using balancer_init_inv(1,3)[OF assms(1,2)] by simp
  next
    case (step s es s' e s'')
    then have "fixed_pool [e]" "fixed_pool es" by (simp_all add: fixed_pool_def)
    then show ?case using step lb_step_inv[OF step(2)] lb_step_exact[OF step(2)] assms(3) by blast
  qed
  from this[OF assms(4) refl assms(5)] show ?thesis by simp
qed

definition two_servers :: "((nat \<times> nat) list, nat, string) balancer" where
  "two_servers = \<lparr>lb_servers = [(1, ''a''), (2, ''b'')], lb_inflight = [(1, 0), (2, 0)], lb_cache = []\<rparr>"

lemma two_servers_init: "balancer_init [(1, ''a''), (2, ''b'')] [] = Inr two_servers"
  by (simp add: balancer_init_def two_servers_def)

lemma two_servers_acquire:
  "acquire_server (list_cache 4) 7 two_servers
     = (Inr (1, ''a''), two_servers\<lparr>lb_inflight := [(1, 1), (2, 0)], lb_cache := [(7, 1)]\<rparr>)"
  by (simp add: acquire_server_def list_cache_def two_servers_def select_server_def least_loaded_def hand_out_def
      add_inflight_def count_of_def)

lemma two_servers_run:
  "lb_run (list_cache 4) (two_servers, {#}) [Acquired 7 1]
     (two_servers\<lparr>lb_inflight := [(1, 1), (2, 0)], lb_cache := [(7, 1)]\<rparr>, {#1#})"
  using lb_run.step[OF lb_run.start lb_step.acquire[OF two_servers_acquire, of "{#}"]] by simp

theorem balancer_invariant_witness:
  "count_of (two_servers\<lparr>lb_inflight := [(1, 1), (2, 0)], lb_cache := [(7, 1)]\<rparr>) 1 \<le> int (count {#1#} 1)"
  using balancer_invariant[OF two_servers_init _ list_cache_laws two_servers_run, of 1] by simp

theorem counts_exact_witness:
  "count_of (two_servers\<lparr>lb_inflight := [(1, 1), (2, 0)], lb_cache := [(7, 1)]\<rparr>) 1 = 1"
  using counts_exact[OF two_servers_init _ list_cache_laws two_servers_run, of 1] by (simp add: fixed_pool_def)

text \<open>
  A request goes back to the server of its session as long as that server is in the pool; otherwise it goes to a server
  with the fewest requests in flight.  Its count, and no other, grows by one, and the session is remembered.
\<close>

theorem acquire_sticky_or_least:
  assumes "balancer_init servers c = Inr b0" "distinct (map fst servers)" "lru_laws ops"
    and "lb_run ops (b0, {#}) es (b, held)" and acq: "acquire_server ops r b = (Inr (sid, h), b')"
  shows "sid \<in> pool b \<and> map_of (lb_servers b) sid = Some h
    \<and> (\<forall>t. count_of b' t = count_of b t + (if t = sid then 1 else 0))
    \<and> pool b' = pool b \<and> lb_servers b' = lb_servers b \<and> cache_peek ops (lb_cache b') r = Some sid
    \<and> (case cache_peek ops (lb_cache b) r of
         Some s \<Rightarrow> if s \<in> pool b then sid = s else (\<forall>t\<in>pool b. count_of b sid \<le> count_of b t)
       | None \<Rightarrow> \<forall>t\<in>pool b. count_of b sid \<le> count_of b t)"
proof -
  have "lb_inv (b, held)" by (rule lb_run_inv[OF assms(4) balancer_init_inv(1)[OF assms(1,2)] assms(3)])
  then have "balancer_ok b" by (simp add: lb_inv_def)
  from this assms(3) show ?thesis
  proof (cases rule: acquire_server_cases[where r = r])
    case (served sid' h' c')
    then have "sid' = sid" "h' = h" "b' = add_inflight sid 1 (b\<lparr>lb_cache := c'\<rparr>)" using acq by simp_all
    then show ?thesis
      using served(1,2,4,5) by (auto simp: lb_simps insert_absorb split: option.split)
  qed (use acq in simp)
qed

theorem acquire_sticky_or_least_witness:
  "\<exists>b'. acquire_server (list_cache 4) 7 (two_servers\<lparr>lb_inflight := [(1, 1), (2, 0)], lb_cache := [(7, 1)]\<rparr>)
      = (Inr (1, ''a''), b') \<and> count_of b' 1 = 2"
proof -
  let ?b = "two_servers\<lparr>lb_inflight := [(1, 1), (2, 0)], lb_cache := [(7, 1)]\<rparr>"
  obtain b' where b': "acquire_server (list_cache 4) 7 ?b = (Inr (1, ''a''), b')"
    by (simp add: acquire_server_def list_cache_def two_servers_def hand_out_def add_inflight_def count_of_def)
  have "count_of ?b 1 = 1" by (simp add: count_of_def)
  then show ?thesis
    using b' acquire_sticky_or_least[OF two_servers_init _ list_cache_laws two_servers_run b'] by simp
qed

section \<open>Balance\<close>

text \<open>The requests of new sessions, one after the other.\<close>

fun acquire_all :: "('c, 'r, 's) lru_cache \<Rightarrow> 'r list \<Rightarrow> ('c, 's, 'h) balancer \<Rightarrow> ('c, 's, 'h) balancer" where
  "acquire_all ops [] b = b"
| "acquire_all ops (r # rs) b = acquire_all ops rs (snd (acquire_server ops r b))"

definition level :: "('c, 's, 'h) balancer \<Rightarrow> bool" where
  "level b \<longleftrightarrow> (\<forall>s\<in>pool b. \<forall>t\<in>pool b. count_of b s \<le> count_of b t + 1)"

lemma acquire_fresh:
  assumes ok: "balancer_ok b" "pool b \<noteq> {}" and laws: "lru_laws ops" and fresh: "cache_peek ops (lb_cache b) r = None"
  obtains sid where "sid \<in> pool b"
    "\<And>t. t \<in> pool b \<Longrightarrow> count_of b sid \<le> count_of b t" "balancer_ok (snd (acquire_server ops r b))"
    "snd (acquire_server ops r b) = add_inflight sid 1 (b\<lparr>lb_cache := cache_put ops (lb_cache b) r sid\<rparr>)"
proof -
  have sel: "acquire_server ops r b = select_server ops r b" using fresh by (simp add: acquire_server_def)
  from ok(1) show thesis
  proof (cases rule: select_server_cases[where r = r and ops = ops])
    case (least sid h)
    have "0 \<le> count_of b sid" using ok(1) by (simp add: balancer_ok_def)
    then have "balancer_ok (add_inflight sid 1 (b\<lparr>lb_cache := cache_put ops (lb_cache b) r sid\<rparr>))"
      using ok(1) least(1) by (intro balancer_ok_add_inflight) (simp_all add: balancer_ok_cache lb_simps)
    then show thesis using least by (intro that[of sid]) (simp_all add: sel)
  qed (use ok(2) in \<open>simp add: pool_def\<close>)
qed

lemma acquire_all_level:
  assumes "balancer_ok b" "pool b \<noteq> {}" "lru_laws ops" "distinct rs" "level b"
    and "\<And>r. r \<in> set rs \<Longrightarrow> cache_peek ops (lb_cache b) r = None"
  shows "level (acquire_all ops rs b) \<and> pool (acquire_all ops rs b) = pool b
    \<and> (\<Sum>t\<in>pool b. count_of (acquire_all ops rs b) t) = (\<Sum>t\<in>pool b. count_of b t) + int (length rs)"
  using assms
proof (induction rs arbitrary: b)
  case (Cons r rs)
  have "cache_peek ops (lb_cache b) r = None" using Cons.prems(6) by simp
  with Cons.prems(1-3) obtain sid where sid: "sid \<in> pool b" "\<And>t. t \<in> pool b \<Longrightarrow> count_of b sid \<le> count_of b t"
    and ok: "balancer_ok (snd (acquire_server ops r b))"
    and b': "snd (acquire_server ops r b) = add_inflight sid 1 (b\<lparr>lb_cache := cache_put ops (lb_cache b) r sid\<rparr>)"
    by (rule acquire_fresh) (rule that)
  let ?b = "snd (acquire_server ops r b)"
  have p: "pool ?b = pool b" using sid(1) by (simp add: b' lb_simps insert_absorb)
  have lev: "level ?b"
    using Cons.prems(5) sid unfolding level_def p by (auto simp: b' lb_simps) (smt (verit))+
  have fresh: "cache_peek ops (lb_cache ?b) q = None" if "q \<in> set rs" for q
  proof -
    have "q \<noteq> r" "cache_peek ops (lb_cache b) q = None" using that Cons.prems(4,6) by auto
    then show ?thesis using lru_lawsD(3)[OF Cons.prems(3), of q r "lb_cache b" sid] by (cases "cache_peek ops (lb_cache ?b) q")
      (auto simp: b' lb_simps)
  qed
  have fin: "finite (pool b)" by (simp add: pool_def)
  have "(\<Sum>t\<in>pool b. count_of ?b t) = (\<Sum>t\<in>pool b. count_of b t + (if t = sid then 1 else 0))"
    by (rule sum.cong) (simp_all add: b' lb_simps)
  also have "\<dots> = (\<Sum>t\<in>pool b. count_of b t) + 1" using sid(1) fin by (simp add: sum.distrib)
  finally show ?case
    using Cons.IH[OF ok _ Cons.prems(3) _ lev fresh] Cons.prems(2,4) p by simp
qed simp

text \<open>
  New sessions are spread evenly: from an idle pool the numbers of requests on two servers never differ by more
  than one, and all of them are counted.
\<close>

theorem new_sessions_balanced:
  assumes "balancer_init servers c = Inr b0" "distinct (map fst servers)" "lru_laws ops"
    and "distinct rs" "\<And>r. r \<in> set rs \<Longrightarrow> cache_peek ops c r = None" "s \<in> fst ` set servers" "t \<in> fst ` set servers"
  shows "\<bar>count_of (acquire_all ops rs b0) s - count_of (acquire_all ops rs b0) t\<bar> \<le> 1
    \<and> (\<Sum>u\<in>fst ` set servers. count_of (acquire_all ops rs b0) u) = int (length rs)"
proof -
  note init = balancer_init_inv[OF assms(1,2)]
  have ok: "balancer_ok b0" using init(1) by (simp add: lb_inv_def)
  have c: "lb_cache b0 = c" using assms(1) by (auto simp: balancer_init_def)
  have "level b0" unfolding level_def using init(3) by simp
  then have "level (acquire_all ops rs b0) \<and> pool (acquire_all ops rs b0) = pool b0
    \<and> (\<Sum>t\<in>pool b0. count_of (acquire_all ops rs b0) t) = (\<Sum>t\<in>pool b0. count_of b0 t) + int (length rs)"
  proof (intro acquire_all_level[OF ok _ assms(3,4)])
    show "pool b0 \<noteq> {}" using assms(6) init(2) by auto
  qed (simp_all add: assms(5) c)
  then show ?thesis using init(2,3) assms(6,7) unfolding level_def by (auto simp: abs_le_iff diff_le_eq add.commute)
qed

theorem new_sessions_balanced_witness:
  "\<bar>count_of (acquire_all (list_cache 4) [5, 6, 7] two_servers) 1 - count_of (acquire_all (list_cache 4) [5, 6, 7] two_servers) 2\<bar> \<le> 1"
  using new_sessions_balanced[OF two_servers_init _ list_cache_laws[of 4], of "[5, 6, 7]" 1 2]
  by (simp add: list_cache_peek del: acquire_all.simps One_nat_def)

section \<open>The client gives back what it took\<close>

text \<open>
  Whatever a server does, answer or raise, a generation leaves every count as it was; the request runs on the
  server that was acquired.
\<close>

theorem client_generate_releases:
  assumes "balancer_init servers c = Inr b0" "distinct (map fst servers)" "lru_laws ops"
    and "lb_run ops (b0, {#}) es (b, held)" "client_generate ops serve r req (b, st) = (result, b', st')"
  shows "count_of b' t = count_of b t \<and> pool b' = pool b
    \<and> (if pool b = {} then result = Inl RuntimeError
       else \<exists>sid h. map_of (lb_servers b) sid = Some h \<and> (result, st') = serve h (multimodal_kwargs req) st)"
proof -
  have "lb_inv (b, held)" by (rule lb_run_inv[OF assms(4) balancer_init_inv(1)[OF assms(1,2)] assms(3)])
  then have ok: "balancer_ok b" by (simp add: lb_inv_def)
  have run: "(case acquire_server ops r b of (Inl e, b') \<Rightarrow> (Inl e, b', st)
      | (Inr (server_id, server), b') \<Rightarrow> (let (r, st') = serve server (multimodal_kwargs req) st
           in (r, release_server server_id b', st'))) = (result, b', st')"
    using assms(5) by (simp add: client_generate_def)
  from ok assms(3) show ?thesis
  proof (cases rule: acquire_server_cases[where r = r])
    case (empty b'')
    then have "result = Inl RuntimeError" "b' = b''" using run by simp_all
    moreover obtain c' where "b'' = b\<lparr>lb_cache := c'\<rparr>" using empty(3) by blast
    ultimately show ?thesis using empty(1) by (simp add: lb_simps) (simp add: pool_def)
  next
    case (served sid h c')
    obtain x y where xy: "serve h (multimodal_kwargs req) st = (x, y)" by (cases "serve h (multimodal_kwargs req) st")
    have "0 \<le> count_of b sid" using ok by (simp add: balancer_ok_def)
    moreover have "result = x" "st' = y" "b' = release_server sid (add_inflight sid 1 (b\<lparr>lb_cache := c'\<rparr>))"
      using run by (simp_all add: served(3) xy)
    ultimately show ?thesis
      using served(1,2) xy by (intro conjI) (simp_all add: lb_simps insert_absorb, fastforce+)
  qed
qed

theorem client_generate_releases_witness:
  "count_of (fst (snd (client_generate (list_cache 4) (\<lambda>h req st. (Inl ValueError :: nat res, st)) 7 req (two_servers, ())))) 1 = 0"
proof -
  obtain result b' st' where run:
    "client_generate (list_cache 4) (\<lambda>h req st. (Inl ValueError :: nat res, st)) 7 req (two_servers, ()) = (result, b', st')"
    by (rule prod_cases3)
  have "count_of two_servers 1 = 0" by (simp add: count_of_def two_servers_def)
  then show ?thesis
    using client_generate_releases[OF two_servers_init _ list_cache_laws lb_run.start run, of 1] run by simp
qed

section \<open>A server that is added again\<close>

text \<open>
  Adding a server sets its count to 0, also when requests still run on it: after it was removed and added again the
  release of an old request takes away the count of a new one, and the balancer sees a busy server as idle.
\<close>

theorem readded_server_undercounted:
  "\<exists>b :: ((nat \<times> nat) list, nat, string) balancer.
    lb_run (list_cache 4) (two_servers, {#})
      [Acquired 7 1, Removed [1], Added [(1, ''a'')], Acquired 7 1, Released 1] (b, {#1#}) \<and> count_of b 1 = 0"
proof -
  define b1 where "b1 = two_servers\<lparr>lb_inflight := [(1, 1), (2, 0)], lb_cache := [(7, 1)]\<rparr>"
  define b3 where "b3 = two_servers\<lparr>lb_servers := [(2, ''b''), (1, ''a'')], lb_inflight := [(2, 0), (1, 0)], lb_cache := [(7, 1)]\<rparr>"
  define b4 where "b4 = b3\<lparr>lb_inflight := [(2, 0), (1, 1)]\<rparr>"
  have b3: "add_servers [(1, ''a'')] (remove_servers [1] b1) = b3"
    by (simp add: b1_def b3_def two_servers_def add_servers_def remove_servers_def)
  have acq: "acquire_server (list_cache 4) 7 b3 = (Inr (1, ''a''), b4)"
    by (simp add: acquire_server_def list_cache_def b3_def b4_def two_servers_def hand_out_def add_inflight_def count_of_def)
  note r1 = two_servers_run[folded b1_def]
  note r2 = lb_run.step[OF r1 lb_step.remove[of _ b1 "{#1#}" "[1]"]]
  note r3 = lb_run.step[OF r2 lb_step.add[of _ "remove_servers [1] b1" "{#1#}" "[(1, ''a'')]"], unfolded b3]
  note r4 = lb_run.step[OF r3 lb_step.acquire[OF acq, of "{#1#}"]]
  have "lb_run (list_cache 4) (two_servers, {#})
      [Acquired 7 1, Removed [1], Added [(1, ''a'')], Acquired 7 1, Released 1] (release_server 1 b4, {#1#})"
    using lb_run.step[OF r4 lb_step.release[of 1 "{#1, 1#}" _ b4]] by simp
  moreover have "count_of (release_server 1 b4) 1 = 0"
    by (simp add: lb_simps) (simp add: count_of_def b4_def)
  ultimately show ?thesis by blast
qed

section \<open>The manager and the balancer agree\<close>

text \<open>
  The addresses the manager lists, with a handle each, are the servers in the balancer's pool; the replicas it
  takes for alive are registered and listed.
\<close>

definition listed :: "('i, 'c, 's, 'h) replica_manager \<Rightarrow> bool" where
  "listed m \<longleftrightarrow> distinct (server_addresses m) \<and> length (server_handles m) = length (server_addresses m)
     \<and> (\<forall>rid. map_of (alive_addresses m) rid = map_option rp_address (map_of (alive_replicas m) rid))
     \<and> (\<forall>rid r. map_of (alive_replicas m) rid = Some r
          \<longrightarrow> map_of (hybrid_replicas m) rid = Some r \<and> rp_address r \<in> set (server_addresses m))"

definition own_addresses :: "('i, 'c, 's, 'h) replica_manager \<Rightarrow> bool" where
  "own_addresses m \<longleftrightarrow> (\<forall>i j r q. map_of (hybrid_replicas m) i = Some r \<longrightarrow> map_of (hybrid_replicas m) j = Some q
     \<longrightarrow> rp_address r = rp_address q \<longrightarrow> i = j)"

definition manager_agrees :: "('i, 'c, 's, 'h) replica_manager \<Rightarrow> bool" where
  "manager_agrees m \<longleftrightarrow> listed m \<and> own_addresses m \<and> set (server_addresses m) = pool (mg_balancer m)"

lemma listed_balancer: "listed (m\<lparr>mg_balancer := b\<rparr>) = listed m"
  by (simp add: listed_def)

lemma track_added_step:
  assumes "listed m" "map_of (hybrid_replicas m) rid = Some r"
  shows "listed (track_added (rid, r) m) \<and> hybrid_replicas (track_added (rid, r) m) = hybrid_replicas m
    \<and> set (server_addresses (track_added (rid, r) m)) = insert (rp_address r) (set (server_addresses m))
    \<and> mg_balancer (track_added (rid, r) m) = mg_balancer m"
  using assms by (auto simp: track_added_def listed_def Let_def update_conv')

lemma track_added_fold:
  assumes "listed m" "\<And>p. p \<in> set new \<Longrightarrow> map_of (hybrid_replicas m) (fst p) = Some (snd p)"
  shows "listed (fold track_added new m) \<and> hybrid_replicas (fold track_added new m) = hybrid_replicas m
    \<and> set (server_addresses (fold track_added new m)) = set (server_addresses m) \<union> (rp_address \<circ> snd) ` set new
    \<and> mg_balancer (fold track_added new m) = mg_balancer m"
  using assms
proof (induction new arbitrary: m)
  case (Cons p new)
  obtain rid r where p: "p = (rid, r)" by (cases p)
  have "map_of (hybrid_replicas m) rid = Some r" using Cons.prems(2)[of p] p by simp
  note step = track_added_step[OF Cons.prems(1) this]
  show ?case
    using Cons.IH[of "track_added p m"] Cons.prems(2) step unfolding p by simp
qed simp

lemma replicas_to_add_registered:
  "p \<in> set (replicas_to_add rids m) \<Longrightarrow> map_of (hybrid_replicas m) (fst p) = Some (snd p) \<and> fst p \<in> set rids
    \<and> map_of (alive_replicas m) (fst p) = None"
  by (auto simp: replicas_to_add_def map_of_eq_None_iff image_iff split: if_splits option.splits)

lemma keys_fold_update:
  "fst ` set (fold (\<lambda>(_, r). AList.update (rp_address r) (rp_handle r)) new al) = fst ` set al \<union> (rp_address \<circ> snd) ` set new"
proof (induction new arbitrary: al)
  case (Cons p new)
  obtain i r where p: "p = (i, r)" by (cases p)
  show ?case using Cons.IH[of "AList.update (rp_address r) (rp_handle r) al"] unfolding p by (simp add: dom_update)
qed simp

lemma add_replicas_agrees:
  assumes "manager_agrees m"
  shows "manager_agrees (snd (add_replicas rids m))
    \<and> pool (mg_balancer (snd (add_replicas rids m)))
      = pool (mg_balancer m) \<union> (rp_address \<circ> snd) ` set (replicas_to_add rids m)"
proof (cases "replicas_to_add rids m = []")
  case True
  then show ?thesis using assms by (simp add: add_replicas_def)
next
  case False
  let ?new = "replicas_to_add rids m"
  let ?ss = "fold (\<lambda>(_, r). AList.update (rp_address r) (rp_handle r)) ?new []"
  let ?m = "m\<lparr>mg_balancer := add_servers ?ss (mg_balancer m)\<rparr>"
  have keys: "fst ` set ?ss = (rp_address \<circ> snd) ` set ?new" by (simp add: keys_fold_update)
  then have "?ss \<noteq> []" using False by auto
  then have "snd (add_replicas rids m) = fold track_added ?new ?m" by (simp add: add_replicas_def Let_def)
  moreover have "listed ?m" using assms by (simp add: manager_agrees_def listed_balancer)
  moreover have "map_of (hybrid_replicas ?m) (fst p) = Some (snd p)" if "p \<in> set ?new" for p
    using replicas_to_add_registered[OF that] by simp
  ultimately show ?thesis
    using track_added_fold[of ?m ?new] assms keys
    by (simp add: manager_agrees_def own_addresses_def lb_simps)
qed

lemma set_pop_at_index: "distinct xs \<Longrightarrow> x \<in> set xs \<Longrightarrow> set (pop_at (index_of x xs) xs) = set xs - {x} \<and> distinct (pop_at (index_of x xs) xs)"
  by (induction xs) (auto simp: pop_at_def index_of_def)

lemma index_of_less: "x \<in> set xs \<Longrightarrow> index_of x xs < length xs"
  by (induction xs) (auto simp: index_of_def)

lemma length_pop_at: "i < length xs \<Longrightarrow> length (pop_at i xs) = length xs - 1"
  by (auto simp: pop_at_def)

lemma track_removed_step:
  assumes "listed m" "own_addresses m" "map_of (alive_replicas m) rid = Some r"
  obtains m' where "track_removed rid m = Some m'" "listed m'" "hybrid_replicas m' = hybrid_replicas m"
    "set (server_addresses m') = set (server_addresses m) - {rp_address r}" "mg_balancer m' = mg_balancer m"
    "\<And>i. i \<noteq> rid \<Longrightarrow> map_of (alive_replicas m') i = map_of (alive_replicas m) i"
proof -
  let ?i = "index_of (rp_address r) (server_addresses m)"
  define m' where "m' = m\<lparr>server_addresses := pop_at ?i (server_addresses m), server_handles := pop_at ?i (server_handles m),
      rollout_replicas := remove1 r (rollout_replicas m), alive_replicas := AList.delete rid (alive_replicas m),
      alive_addresses := AList.delete rid (alive_addresses m)\<rparr>"
  have addr: "map_of (alive_addresses m) rid = Some (rp_address r)" "rp_address r \<in> set (server_addresses m)"
    and d: "distinct (server_addresses m)" and l: "length (server_handles m) = length (server_addresses m)"
    using assms(1,3) by (auto simp: listed_def)
  have "track_removed rid m = Some m'" using addr assms(3) by (simp add: track_removed_def m'_def Let_def)
  moreover have set_addr: "set (server_addresses m') = set (server_addresses m) - {rp_address r}"
    and "distinct (server_addresses m')" using set_pop_at_index[OF d addr(2)] by (simp_all add: m'_def)
  moreover have "length (server_handles m') = length (server_addresses m')"
    using index_of_less[OF addr(2)] l by (simp add: m'_def length_pop_at)
  moreover have "map_of (alive_replicas m') i = (if i = rid then None else map_of (alive_replicas m) i)"
    "map_of (alive_addresses m') i = (if i = rid then None else map_of (alive_addresses m) i)" for i
    by (simp_all add: m'_def delete_conv')
  moreover have "rp_address q \<noteq> rp_address r" if "map_of (alive_replicas m) i = Some q" "i \<noteq> rid" for i q
    using assms that unfolding listed_def own_addresses_def by blast
  moreover have "hybrid_replicas m' = hybrid_replicas m" "mg_balancer m' = mg_balancer m" by (simp_all add: m'_def)
  ultimately show thesis using assms(1) by (intro that[of m']) (auto simp: listed_def)
qed

lemma track_all_removed_agrees:
  assumes "listed m" "own_addresses m" "distinct rids" "\<And>i. i \<in> set rids \<Longrightarrow> map_of (alive_replicas m) i \<noteq> None"
  shows "fst (track_all_removed rids m) \<and> listed (snd (track_all_removed rids m))
    \<and> hybrid_replicas (snd (track_all_removed rids m)) = hybrid_replicas m
    \<and> mg_balancer (snd (track_all_removed rids m)) = mg_balancer m
    \<and> set (server_addresses (snd (track_all_removed rids m)))
      = set (server_addresses m) - (\<lambda>i. rp_address (the (map_of (alive_replicas m) i))) ` set rids"
  using assms
proof (induction rids arbitrary: m)
  case (Cons rid rids)
  obtain r where r: "map_of (alive_replicas m) rid = Some r" using Cons.prems(4)[of rid] by auto
  from Cons.prems(1,2) r obtain m' where m': "track_removed rid m = Some m'" "listed m'" "hybrid_replicas m' = hybrid_replicas m"
    "set (server_addresses m') = set (server_addresses m) - {rp_address r}" "mg_balancer m' = mg_balancer m"
    "\<And>i. i \<noteq> rid \<Longrightarrow> map_of (alive_replicas m') i = map_of (alive_replicas m) i"
    by (rule track_removed_step) (rule that)
  have same: "map_of (alive_replicas m') i = map_of (alive_replicas m) i" if "i \<in> set rids" for i
    by (rule m'(6)) (use that Cons.prems(3) in auto)
  have "own_addresses m'" using Cons.prems(2) m'(3) by (simp add: own_addresses_def)
  then have IH: "fst (track_all_removed rids m') \<and> listed (snd (track_all_removed rids m'))
    \<and> hybrid_replicas (snd (track_all_removed rids m')) = hybrid_replicas m'
    \<and> mg_balancer (snd (track_all_removed rids m')) = mg_balancer m'
    \<and> set (server_addresses (snd (track_all_removed rids m')))
      = set (server_addresses m') - (\<lambda>i. rp_address (the (map_of (alive_replicas m') i))) ` set rids"
    using Cons.prems(3,4) m'(2) same by (intro Cons.IH) auto
  have "(\<lambda>i. rp_address (the (map_of (alive_replicas m') i))) ` set rids
      = (\<lambda>i. rp_address (the (map_of (alive_replicas m) i))) ` set rids" using same by (intro image_cong) simp_all
  then show ?case using IH m'(1,3,4,5) r by (simp only: track_all_removed.simps option.case) auto
qed simp

text \<open>
  Adding replicas, and removing them when no identifier is given twice, keeps the list of the manager and the pool of
  the balancer the same.
\<close>

theorem manager_balancer_agree:
  assumes "manager_agrees m"
  shows "manager_agrees (snd (add_replicas rids m))
    \<and> (distinct rids \<longrightarrow> manager_agrees (snd (remove_replicas rids m)))"
proof (intro conjI impI)
  show "manager_agrees (snd (add_replicas rids m))" using add_replicas_agrees[OF assms] by blast
  assume d: "distinct rids"
  let ?alive = "filter (\<lambda>rid. rid \<in> set (map fst (alive_replicas m))) rids"
  let ?ids = "map (\<lambda>rid. the (map_of (alive_addresses m) rid)) ?alive"
  show "manager_agrees (snd (remove_replicas rids m))"
  proof (cases "?alive = []")
    case True
    then show ?thesis using assms unfolding remove_replicas_def Let_def by simp
  next
    case False
    let ?m = "m\<lparr>mg_balancer := remove_servers ?ids (mg_balancer m)\<rparr>"
    have a: "map_of (alive_replicas m) i \<noteq> None" if "i \<in> set ?alive" for i
      using that by (auto simp: map_of_eq_None_iff)
    have "snd (remove_replicas rids m) = snd (track_all_removed ?alive ?m)"
      using False by (simp add: remove_replicas_def Let_def split: prod.split)
    moreover have "fst (track_all_removed ?alive ?m) \<and> listed (snd (track_all_removed ?alive ?m))
      \<and> hybrid_replicas (snd (track_all_removed ?alive ?m)) = hybrid_replicas ?m
      \<and> mg_balancer (snd (track_all_removed ?alive ?m)) = mg_balancer ?m
      \<and> set (server_addresses (snd (track_all_removed ?alive ?m)))
        = set (server_addresses ?m) - (\<lambda>i. rp_address (the (map_of (alive_replicas ?m) i))) ` set ?alive"
      using assms a d by (intro track_all_removed_agrees)
        (simp_all add: manager_agrees_def listed_balancer own_addresses_def)
    moreover have "?ids = map (\<lambda>i. rp_address (the (map_of (alive_replicas m) i))) ?alive"
    proof (rule map_cong[OF refl])
      fix i assume "i \<in> set ?alive"
      then obtain r where "map_of (alive_replicas m) i = Some r" using a by blast
      then show "the (map_of (alive_addresses m) i) = rp_address (the (map_of (alive_replicas m) i))"
        using assms by (simp add: manager_agrees_def listed_def)
    qed
    then have "set ?ids = (\<lambda>i. rp_address (the (map_of (alive_replicas m) i))) ` set ?alive" by simp
    ultimately show ?thesis
      using assms unfolding manager_agrees_def own_addresses_def by (simp add: lb_simps)
  qed
qed

definition one_hybrid :: "(string, (nat \<times> nat) list, nat, string) replica_manager" where
  "one_hybrid = \<lparr>mg_balancer = two_servers, hybrid_replicas = [(''hybrid_0'', \<lparr>rp_rank = 0, rp_address = 3, rp_handle = ''c''\<rparr>)],
     alive_replicas = [], alive_addresses = [], server_addresses = [1, 2], server_handles = [''a'', ''b''],
     rollout_replicas = []\<rparr>"

theorem manager_balancer_agree_witness:
  "manager_agrees (snd (add_replicas [''hybrid_0''] one_hybrid))"
proof -
  have "manager_agrees one_hybrid"
    by (simp add: manager_agrees_def listed_def own_addresses_def one_hybrid_def pool_def two_servers_def)
  from manager_balancer_agree[OF this, of "[''hybrid_0'']"] show ?thesis by blast
qed

end
