(* ===== verification/Partial_Rollout.thy ===== *)
theory Partial_Rollout
  imports Load_Balancer
begin

text \<open>
  Generation that survives an interruption: \<open>FullyAsyncLLMServerClient.generate\<close> of
  \<open>experimental/fully_async_policy/fully_async_rollouter.py\<close> resumes an aborted request with the tokens it has, and
  \<open>generate\<close> of \<open>workers/rollout/vllm_rollout/vllm_async_server.py\<close> is the server side: the budget of a request and
  the conversion of the engine's answer.  The engine is an argument.  The prompt log-probabilities a server may add are
  in \<open>Teacher_Views\<close>; adapters, media and tracing are left out.
\<close>

section \<open>Requests and answers\<close>

record 'p sampling =
  sp_max_tokens :: "int option"
  sp_max_new_tokens :: "int option"
  sp_logprobs :: bool
  sp_rest :: 'p

record ('e, 'v) gen_output =
  go_token_ids :: "nat list"
  go_log_probs :: "real list option"
  go_routed_experts :: "'e list option"
  go_stop_reason :: "string option"
  go_num_preempted :: "int option"
  go_global_steps :: "'v option"

section \<open>The server\<close>

record rollout_lengths =
  rl_max_model_len :: int
  rl_prompt_length :: int
  rl_response_length :: int

definition vllm_max_tokens :: "rollout_lengths \<Rightarrow> nat list \<Rightarrow> 'p sampling \<Rightarrow> int res" where
  "vllm_max_tokens cfg prompt sp =
     (let n = int (length prompt);
          max_possible = rl_max_model_len cfg - n;
          max_tokens = (case sp_max_tokens sp of
             Some m \<Rightarrow> m
           | None \<Rightarrow> (case sp_max_new_tokens sp of
               Some m \<Rightarrow> m
             | None \<Rightarrow> min (rl_response_length cfg) (rl_prompt_length cfg + rl_response_length cfg - n)))
      in require (1 \<le> max_possible) ValueError (Inr (max 1 (min max_tokens max_possible))))"

text \<open>What the engine answers: no output when the request was aborted while it waited.\<close>

record 'e engine_output =
  eo_token_ids :: "nat list"
  eo_logprobs :: "(nat \<Rightarrow> real option) list"
  eo_routed_experts :: "'e list option"
  eo_finish_reason :: "string option"
  eo_num_preempted :: "int option"

definition stop_reason_of :: "string option \<Rightarrow> string option" where
  "stop_reason_of finish =
     (if finish = Some ''abort'' then Some ''aborted''
      else if finish = Some ''stop'' \<or> finish = Some ''length'' then Some ''completed'' else finish)"

text \<open>\<open>[logprobs[token_ids[i]].logprob for i, logprobs in enumerate(...)]\<close>.\<close>

definition read_logprobs :: "nat list \<Rightarrow> (nat \<Rightarrow> real option) list \<Rightarrow> real list res" where
  "read_logprobs ids lps =
     map_res (\<lambda>(i, lp). require (i < length ids) IndexError (case lp (ids ! i) of None \<Rightarrow> Inl KeyError | Some x \<Rightarrow> Inr x))
       (enumerate 0 lps)"

type_synonym ('e, 'p, 'st) engine =
  "nat list \<Rightarrow> int \<Rightarrow> bool \<Rightarrow> 'p \<Rightarrow> 'st \<Rightarrow> 'e engine_output option \<times> 'st"

definition vllm_generate ::
  "rollout_lengths \<Rightarrow> bool \<Rightarrow> 'v \<Rightarrow> ('e, 'p, 'st) engine \<Rightarrow> nat list \<Rightarrow> 'p sampling \<Rightarrow> 'st
    \<Rightarrow> ('e, 'v) gen_output res \<times> 'st" where
  "vllm_generate cfg routing_replay steps engine prompt sp st =
     (case vllm_max_tokens cfg prompt sp of
        Inl e \<Rightarrow> (Inl e, st)
      | Inr max_tokens \<Rightarrow>
          (let (final_res, st') = engine prompt max_tokens (sp_logprobs sp) (sp_rest sp) st
           in (case final_res of
                 None \<Rightarrow> Inr \<lparr>go_token_ids = [], go_log_probs = None, go_routed_experts = None,
                     go_stop_reason = Some ''aborted'', go_num_preempted = None, go_global_steps = None\<rparr>
               | Some out \<Rightarrow>
                   bind_res (if sp_logprobs sp then bind_res (read_logprobs (eo_token_ids out) (eo_logprobs out)) (\<lambda>l. Inr (Some l))
                             else Inr None) (\<lambda>lps.
                   Inr \<lparr>go_token_ids = eo_token_ids out, go_log_probs = lps,
                        go_routed_experts = (if routing_replay then eo_routed_experts out else None),
                        go_stop_reason = stop_reason_of (eo_finish_reason out),
                        go_num_preempted = eo_num_preempted out, go_global_steps = Some steps\<rparr>), st')))"

section \<open>The client that resumes\<close>

text \<open>The key of the limit, and the limit.\<close>

definition limit_of :: "'p sampling \<Rightarrow> int option" where
  "limit_of sp = (case sp_max_tokens sp of Some m \<Rightarrow> Some m | None \<Rightarrow> sp_max_new_tokens sp)"

definition set_limit :: "int \<Rightarrow> 'p sampling \<Rightarrow> 'p sampling" where
  "set_limit m sp = (if sp_max_tokens sp \<noteq> None then sp\<lparr>sp_max_tokens := Some m\<rparr> else sp\<lparr>sp_max_new_tokens := Some m\<rparr>)"

text \<open>
  The output that is put together: an answer is appended; of later routings only the rows of the new tokens.  The
  limit stays as a change of the caller's dictionary.
\<close>

record ('e, 'v) final_output =
  fo_token_ids :: "nat list"
  fo_log_probs :: "real list"
  fo_routed_experts :: "'e list option"
  fo_stop_reason :: "string option"
  fo_num_preempted :: int
  fo_global_steps :: "'v option"
  fo_min_global_steps :: "'v option"
  fo_max_global_steps :: "'v option"

definition empty_output :: "('e, 'v) final_output" where
  "empty_output = \<lparr>fo_token_ids = [], fo_log_probs = [], fo_routed_experts = None, fo_stop_reason = None,
     fo_num_preempted = 0, fo_global_steps = None, fo_min_global_steps = None, fo_max_global_steps = None\<rparr>"

definition merge_output :: "('e, 'v) final_output \<Rightarrow> ('e, 'v) gen_output \<Rightarrow> ('e, 'v) final_output" where
  "merge_output f out =
     f\<lparr>fo_token_ids := fo_token_ids f @ go_token_ids out,
       fo_log_probs := (case go_log_probs out of None \<Rightarrow> fo_log_probs f | Some l \<Rightarrow> fo_log_probs f @ l),
       fo_routed_experts := (case go_routed_experts out of
           None \<Rightarrow> fo_routed_experts f
         | Some e \<Rightarrow> if go_token_ids out = [] then fo_routed_experts f
             else (case fo_routed_experts f of
                     None \<Rightarrow> Some e
                   | Some e0 \<Rightarrow> Some (e0 @ py_tail (length (go_token_ids out)) e))),
       fo_num_preempted := (case go_num_preempted out of None \<Rightarrow> fo_num_preempted f | Some n \<Rightarrow> fo_num_preempted f + n),
       fo_stop_reason := go_stop_reason out,
       fo_global_steps := go_global_steps out,
       fo_min_global_steps := (case fo_min_global_steps f of None \<Rightarrow> go_global_steps out | Some v \<Rightarrow> Some v),
       fo_max_global_steps := go_global_steps out\<rparr>"

definition aborted :: "('e, 'v) gen_output \<Rightarrow> bool" where
  "aborted out \<longleftrightarrow> go_stop_reason out = Some ''aborted'' \<or> go_stop_reason out = Some ''abort''"

text \<open>
  The loop, on fuel; \<open>gen\<close> is the generation of the plain client.  No value: the fuel did not suffice.
\<close>

type_synonym ('e, 'v, 'p, 'st) plain_generate =
  "nat list \<Rightarrow> 'p sampling \<Rightarrow> 'st \<Rightarrow> ('e, 'v) gen_output res \<times> 'st"

fun resume_loop ::
  "nat \<Rightarrow> ('e, 'v, 'p, 'st) plain_generate \<Rightarrow> bool \<Rightarrow> nat list \<Rightarrow> int option \<Rightarrow> ('e, 'v) final_output
    \<Rightarrow> 'p sampling \<Rightarrow> 'st \<Rightarrow> (('e, 'v) final_output res \<times> 'p sampling \<times> 'st) option" where
  "resume_loop 0 gen partial prompt limit f sp st = None"
| "resume_loop (Suc n) gen partial prompt limit f sp st =
     (case gen (prompt @ fo_token_ids f) sp st of
        (Inl e, st') \<Rightarrow> Some (Inl e, sp, st')
      | (Inr out, st') \<Rightarrow>
          (let f' = merge_output f out; produced = int (length (fo_token_ids f')) in
           case limit of
             Some m \<Rightarrow>
               (let sp' = set_limit (m - produced) sp in
                if m \<le> produced then Some (Inr (f'\<lparr>fo_stop_reason := Some ''length''\<rparr>), sp', st')
                else if \<not> aborted out \<or> \<not> partial then Some (Inr f', sp', st')
                else resume_loop n gen partial prompt limit f' sp' st')
           | None \<Rightarrow>
               if \<not> aborted out \<or> \<not> partial then Some (Inr f', sp, st')
               else resume_loop n gen partial prompt limit f' sp st'))"

definition resuming_generate ::
  "nat \<Rightarrow> ('e, 'v, 'p, 'st) plain_generate \<Rightarrow> bool \<Rightarrow> nat list \<Rightarrow> 'p sampling \<Rightarrow> 'st
    \<Rightarrow> (('e, 'v) final_output res \<times> 'p sampling \<times> 'st) option" where
  "resuming_generate fuel gen partial prompt sp st =
     resume_loop fuel gen partial prompt (limit_of sp) empty_output sp st"

section \<open>The budget of a request\<close>

text \<open>
  A request gets at least one token and never more than the context has room for; without a limit of its own it
  stays, with its prompt, within the two configured lengths.
\<close>

theorem vllm_max_tokens_bounds:
  assumes "vllm_max_tokens cfg prompt sp = Inr m"
  shows "1 \<le> m \<and> int (length prompt) + m \<le> rl_max_model_len cfg
    \<and> (limit_of sp = None \<and> int (length prompt) < rl_prompt_length cfg + rl_response_length cfg \<and> 1 \<le> rl_response_length cfg
       \<longrightarrow> m \<le> rl_response_length cfg \<and> int (length prompt) + m \<le> rl_prompt_length cfg + rl_response_length cfg)"
  using assms by (auto simp: vllm_max_tokens_def limit_of_def Let_def split: option.splits)

theorem vllm_max_tokens_bounds_witness:
  "int (length [1, 2, 3 :: nat]) + 5 \<le> rl_max_model_len \<lparr>rl_max_model_len = 20, rl_prompt_length = 4, rl_response_length = 5\<rparr>"
proof -
  have "vllm_max_tokens \<lparr>rl_max_model_len = 20, rl_prompt_length = 4, rl_response_length = 5\<rparr> [1, 2, 3]
      \<lparr>sp_max_tokens = None, sp_max_new_tokens = None, sp_logprobs = False, sp_rest = ()\<rparr> = Inr 5"
    by (simp add: vllm_max_tokens_def)
  from vllm_max_tokens_bounds[OF this] show ?thesis by blast
qed

section \<open>Interruptions do not show\<close>

text \<open>
  What the model answers a prompt, with the log-probability of every token: continuing a part of the answer gives the
  rest.  The engine returns a part of the answer within the budget, all of it unless it aborts, and some
  measure of its state shrinks when it aborts, so that it does not abort for ever.
\<close>

definition continues :: "(nat list \<Rightarrow> (nat \<times> real) list) \<Rightarrow> bool" where
  "continues completion \<longleftrightarrow>
     (\<forall>prompt k. completion (prompt @ map fst (take k (completion prompt))) = drop k (completion prompt))"

definition answers :: "(nat \<times> real) list \<Rightarrow> 'e engine_output \<Rightarrow> bool" where
  "answers ts out \<longleftrightarrow> eo_token_ids out = map fst ts \<and> length (eo_logprobs out) = length ts
     \<and> (\<forall>i<length ts. (eo_logprobs out ! i) (fst (ts ! i)) = Some (snd (ts ! i)))"

definition engine_ok ::
  "(nat list \<Rightarrow> (nat \<times> real) list) \<Rightarrow> ('st \<Rightarrow> nat) \<Rightarrow> ('e, 'p, 'st) engine \<Rightarrow> bool" where
  "engine_ok completion \<mu> engine \<longleftrightarrow>
     (\<forall>prompt m lp rest st. 1 \<le> m \<longrightarrow>
        (case engine prompt m lp rest st of
           (None, st') \<Rightarrow> \<mu> st' < \<mu> st
         | (Some out, st') \<Rightarrow>
             \<exists>k \<le> nat m. answers (take k (completion prompt)) out
               \<and> (if eo_finish_reason out = Some ''abort'' then \<mu> st' < \<mu> st
                  else take k (completion prompt) = take (nat m) (completion prompt)
                    \<and> (eo_finish_reason out = Some ''stop'' \<or> eo_finish_reason out = Some ''length''))))"

lemma read_logprobs_answers:
  assumes "answers ts out" shows "read_logprobs (eo_token_ids out) (eo_logprobs out) = Inr (map snd ts)"
proof -
  have "read_logprobs (eo_token_ids out) (eo_logprobs out)
      = Inr (map (\<lambda>(i, lp). snd (ts ! i)) (enumerate 0 (eo_logprobs out)))"
    unfolding read_logprobs_def
    by (rule map_res_Inr) (use assms in \<open>auto simp: answers_def in_set_enumerate_eq split: option.splits\<close>)
  also have "map (\<lambda>(i, lp). snd (ts ! i)) (enumerate 0 (eo_logprobs out)) = map snd ts"
    using assms by (intro nth_equalityI) (auto simp: answers_def nth_enumerate_eq)
  finally show ?thesis .
qed

text \<open>One request to the server with a limit that the context has room for.\<close>

lemma vllm_generate_step:
  assumes "engine_ok completion \<mu> engine" "int (length prompt) + int (length (completion prompt)) < rl_max_model_len cfg"
    and "limit_of sp = Some m" "1 \<le> m" "sp_logprobs sp"
  obtains out st' k where "vllm_generate cfg rr steps engine prompt sp st = (Inr out, st')" "k \<le> nat m"
    "go_token_ids out = map fst (take k (completion prompt))"
    "go_log_probs out = Some (map snd (take k (completion prompt))) \<or> go_log_probs out = None \<and> k = 0"
    "aborted out \<Longrightarrow> \<mu> st' < \<mu> st" "\<not> aborted out \<Longrightarrow> take k (completion prompt) = take (nat m) (completion prompt)"
proof -
  let ?M = "max 1 (min m (rl_max_model_len cfg - int (length prompt)))"
  have M: "vllm_max_tokens cfg prompt sp = Inr ?M"
    using assms(2,3) by (auto simp: vllm_max_tokens_def limit_of_def Let_def split: option.splits)
  have bound: "nat ?M \<le> nat m" using assms(2,4) by auto
  have same: "take (nat ?M) (completion prompt) = take (nat m) (completion prompt)"
    using assms(2,4) by (cases "m \<le> rl_max_model_len cfg - int (length prompt)") (simp_all add: min_def)
  obtain r st' where e: "engine prompt ?M True (sp_rest sp) st = (r, st')" by (cases "engine prompt ?M True (sp_rest sp) st")
  have ok: "case (r, st') of (None, st') \<Rightarrow> \<mu> st' < \<mu> st
      | (Some out, st') \<Rightarrow> \<exists>k \<le> nat ?M. answers (take k (completion prompt)) out
          \<and> (if eo_finish_reason out = Some ''abort'' then \<mu> st' < \<mu> st
             else take k (completion prompt) = take (nat ?M) (completion prompt)
               \<and> (eo_finish_reason out = Some ''stop'' \<or> eo_finish_reason out = Some ''length''))"
    using assms(1)[unfolded engine_ok_def, THEN spec[of _ prompt], THEN spec[of _ ?M], THEN spec[of _ True],
        THEN spec[of _ "sp_rest sp"], THEN spec[of _ st], THEN mp, OF max.cobounded1] unfolding e .
  show thesis
  proof (cases r)
    case None
    then show thesis using ok e assms(5)
      by (intro that[of "\<lparr>go_token_ids = [], go_log_probs = None, go_routed_experts = None,
          go_stop_reason = Some ''aborted'', go_num_preempted = None, go_global_steps = None\<rparr>" st' 0]) (simp_all add: vllm_generate_def M aborted_def)
  next
    case (Some out)
    then obtain k where k: "k \<le> nat ?M" "answers (take k (completion prompt)) out"
      and fin: "if eo_finish_reason out = Some ''abort'' then \<mu> st' < \<mu> st
             else take k (completion prompt) = take (nat ?M) (completion prompt)
               \<and> (eo_finish_reason out = Some ''stop'' \<or> eo_finish_reason out = Some ''length'')"
      using ok by auto
    show thesis
      using k fin e assms(5) bound same Some read_logprobs_answers[OF k(2)]
      by (intro that[of "\<lparr>go_token_ids = eo_token_ids out, go_log_probs = Some (map snd (take k (completion prompt))),
          go_routed_experts = (if rr then eo_routed_experts out else None), go_stop_reason = stop_reason_of (eo_finish_reason out),
          go_num_preempted = eo_num_preempted out, go_global_steps = Some steps\<rparr>" st' k])
        (auto simp: vllm_generate_def M aborted_def stop_reason_of_def answers_def split: if_splits)
  qed
qed

text \<open>The loop, with the first \<open>d\<close> tokens of the answer put together.\<close>

lemma resume_loop_transparent:
  assumes engine: "engine_ok completion \<mu> engine" "continues completion"
    and room: "int (length prompt) + int (length (completion prompt)) < rl_max_model_len cfg"
  shows "limit_of sp = Some (m - int d) \<Longrightarrow> int d < m \<Longrightarrow> sp_logprobs sp \<Longrightarrow> d \<le> length (completion prompt)
    \<Longrightarrow> fo_token_ids f = map fst (take d (completion prompt)) \<Longrightarrow> fo_log_probs f = map snd (take d (completion prompt))
    \<Longrightarrow> \<mu> st < fuel
    \<Longrightarrow> \<exists>f' sp' st'. resume_loop fuel (vllm_generate cfg rr steps engine) True prompt (Some m) f sp st = Some (Inr f', sp', st')
      \<and> fo_token_ids f' = map fst (take (nat m) (completion prompt))
      \<and> fo_log_probs f' = map snd (take (nat m) (completion prompt))
      \<and> limit_of sp' = Some (m - int (length (fo_token_ids f')))"
proof (induction fuel arbitrary: sp d f st)
  case (Suc fuel)
  let ?c = "completion prompt" and ?p = "prompt @ map fst (take d (completion prompt))"
  have rest: "completion ?p = drop d ?c" using engine(2) by (simp add: continues_def)
  have "int (length ?p) + int (length (completion ?p)) < rl_max_model_len cfg" unfolding rest using room Suc.prems(4) by simp
  moreover have "1 \<le> m - int d" using Suc.prems(2) by simp
  ultimately obtain out st' k where gen: "vllm_generate cfg rr steps engine ?p sp st = (Inr out, st')" "k \<le> nat (m - int d)"
    "go_token_ids out = map fst (take k (drop d ?c))"
    "go_log_probs out = Some (map snd (take k (drop d ?c))) \<or> go_log_probs out = None \<and> k = 0"
    "aborted out \<Longrightarrow> \<mu> st' < \<mu> st" "\<not> aborted out \<Longrightarrow> take k (drop d ?c) = take (nat (m - int d)) (drop d ?c)"
    using vllm_generate_step[OF engine(1), of ?p cfg sp "m - int d" rr steps st] Suc.prems(1,3) unfolding rest by metis
  let ?f = "merge_output f out" and ?d = "min (d + k) (length ?c)"
  have split: "take ?d ?c = take d ?c @ take k (drop d ?c)" by (simp add: take_add[symmetric] min_def)
  have ids: "fo_token_ids ?f = map fst (take ?d ?c)"
    using Suc.prems(5) gen(3) unfolding split by (simp add: merge_output_def)
  have lps: "fo_log_probs ?f = map snd (take ?d ?c)"
    using Suc.prems(6) gen(4) unfolding split by (auto simp: merge_output_def)
  have len: "length (fo_token_ids ?f) = ?d" by (simp add: ids)
  have limit: "limit_of (set_limit x sp) = Some x" "sp_logprobs (set_limit x sp)" for x
    using Suc.prems(1,3) by (auto simp: limit_of_def set_limit_def split: option.splits)
  have all: "take ?d ?c = take (nat m) ?c" if "m \<le> int ?d \<or> \<not> aborted out"
  proof (cases "aborted out")
    case True
    then have "?d = nat m" using that gen(2) Suc.prems(2) by linarith
    then show ?thesis by simp
  next
    case False
    have "d + nat (m - int d) = nat m" using Suc.prems(2) by simp
    then show ?thesis using split gen(6)[OF False] by (metis take_add)
  qed
  have step: "vllm_generate cfg rr steps engine (prompt @ fo_token_ids f) sp st = (Inr out, st')"
    using gen(1) by (simp only: Suc.prems(5))
  show ?case
  proof (cases "m \<le> int ?d \<or> \<not> aborted out")
    case True
    then show ?thesis
      using step all[OF True] limit(1) by (auto simp: Let_def len ids lps)
  next
    case False
    have "\<mu> st' < fuel" using gen(5) False Suc.prems(7) by simp
    then show ?thesis
      using Suc.IH[of "set_limit (m - int ?d) sp" ?d ?f st'] step False limit ids lps by (simp add: Let_def len)
  qed
qed simp


text \<open>A model that counts on to 9, and an engine over it that aborts a given number of times after one token.\<close>

definition counting :: "nat list \<Rightarrow> (nat \<times> real) list" where
  "counting prompt = map (\<lambda>i. (i, - 1)) [length prompt..<10]"

definition answer :: "(nat \<times> real) list \<Rightarrow> string \<Rightarrow> unit engine_output" where
  "answer ts finish = \<lparr>eo_token_ids = map fst ts, eo_logprobs = map (\<lambda>(t, l). [t \<mapsto> l]) ts, eo_routed_experts = None,
     eo_finish_reason = Some finish, eo_num_preempted = None\<rparr>"

definition counting_engine :: "(unit, unit, nat) engine" where
  "counting_engine prompt m lp rest st =
     (if st = 0 then (Some (answer (take (nat m) (counting prompt)) ''length''), 0)
      else (Some (answer (take 1 (counting prompt)) ''abort''), st - 1))"

lemma counting_continues: "continues counting"
  unfolding continues_def
proof (intro allI)
  fix prompt :: "nat list" and k :: nat
  have "length (prompt @ map fst (take k (counting prompt))) = length prompt + min k (10 - length prompt)"
    by (simp add: counting_def min.commute)
  moreover have "[length prompt + min k (10 - length prompt)..<10] = drop k [length prompt..<10]"
    by (cases "k \<le> 10 - length prompt") (simp_all add: min_def)
  ultimately show "counting (prompt @ map fst (take k (counting prompt))) = drop k (counting prompt)"
    by (simp only: counting_def[of "prompt @ _"] drop_map counting_def[of prompt])
qed

lemma answers_answer: "answers ts (answer ts finish)"
  by (auto simp: answers_def answer_def case_prod_beta)

lemma counting_engine_ok: "engine_ok counting (\<lambda>st. st) counting_engine"
proof -
  have "\<exists>k \<le> nat m. answers (take k c) (answer (take 1 c) ''abort'')" if "1 \<le> m" for m :: int and c :: "(nat \<times> real) list"
    using that answers_answer by (intro exI[of _ 1]) (simp add: nat_le_iff le_nat_iff)
  moreover have "\<exists>k \<le> nat m. answers (take k c) (answer (take (nat m) c) ''length'') \<and> take k c = take (nat m) c"
    for m :: int and c :: "(nat \<times> real) list"
    using answers_answer by blast
  ultimately show ?thesis
    unfolding engine_ok_def counting_engine_def by (auto simp: answer_def)
qed


text \<open>
  Without a limit of its own a resumed request gets a fresh budget: with a prompt shorter than the configured length
  the resumed answer is longer than the response length, which bounds the uninterrupted one.
\<close>

theorem resumed_default_budget_exceeds:
  "\<exists>f f' sp' sp'' st' st''.
    resuming_generate 4 (vllm_generate \<lparr>rl_max_model_len = 20, rl_prompt_length = 4, rl_response_length = 2\<rparr> False () counting_engine)
      True [8] \<lparr>sp_max_tokens = None, sp_max_new_tokens = None, sp_logprobs = False, sp_rest = ()\<rparr> 0 = Some (Inr f, sp', st')
    \<and> resuming_generate 4 (vllm_generate \<lparr>rl_max_model_len = 20, rl_prompt_length = 4, rl_response_length = 2\<rparr> False () counting_engine)
      True [8] \<lparr>sp_max_tokens = None, sp_max_new_tokens = None, sp_logprobs = False, sp_rest = ()\<rparr> 1 = Some (Inr f', sp'', st'')
    \<and> fo_token_ids f = [1, 2] \<and> fo_token_ids f' = [1, 2, 3]"
  by (simp add: resuming_generate_def eval_nat_numeral limit_of_def empty_output_def vllm_generate_def vllm_max_tokens_def
      counting_engine_def answer_def counting_def merge_output_def aborted_def stop_reason_of_def upt_rec Let_def)

end
