(* ===== verification/Rate_Limiter.thy ===== *)
theory Rate_Limiter
  imports Prelude "HOL-Library.AList"
begin

text \<open>
  \<open>verl/verl/experimental/reward_loop/reward_manager/limited.py\<close>: the token bucket that limits the calls of a
  reward service, with many coroutines that enter its locked section at times of their own, and the
  reward manager around it.  Times and tokens are reals; the service, the tokenizer and the passing of time are
  arguments.
\<close>

section \<open>The bucket\<close>

record bucket =
  rate_limit :: real
  max_tokens :: real
  tokens :: real
  last_update :: "real option"

definition bucket_init :: "real \<Rightarrow> real option \<Rightarrow> bucket" where
  "bucket_init rate mx =
     (let m = (case mx of None \<Rightarrow> rate | Some x \<Rightarrow> if x = 0 then rate else x)
      in \<lparr>rate_limit = rate, max_tokens = m, tokens = m, last_update = None\<rparr>)"

definition refill :: "real \<Rightarrow> bucket \<Rightarrow> bucket" where
  "refill now b =
     (let last = (case last_update b of None \<Rightarrow> now | Some t \<Rightarrow> t);
          new_tokens = (now - last) * rate_limit b
      in b\<lparr>tokens := min (max_tokens b) (tokens b + new_tokens), last_update := Some now\<rparr>)"

text \<open>
  What the locked section tells its caller: the tokens are taken; sleep and try again; or the tokens are taken, but
  sleep before going on.  A rate of 0 ends in a division by zero.
\<close>

datatype attempt = Granted | Retry_After real | Granted_After real

definition acquire_large :: "real \<Rightarrow> real \<Rightarrow> bucket \<Rightarrow> attempt res \<times> bucket" where
  "acquire_large now num_tokens b =
     (let b' = refill now b; needed = num_tokens - tokens b'
      in if 0 < needed \<and> rate_limit b = 0 then (Inl ZeroDivisionError, b\<lparr>tokens := tokens b',
             last_update := Some (case last_update b of None \<Rightarrow> now | Some t \<Rightarrow> t)\<rparr>)
         else (Inr (Granted_After (if 0 < needed then needed / rate_limit b else 0)), b'\<lparr>tokens := tokens b' - num_tokens\<rparr>))"

definition acquire_small :: "real \<Rightarrow> real \<Rightarrow> bucket \<Rightarrow> attempt res \<times> bucket" where
  "acquire_small now num_tokens b =
     (let b' = refill now b
      in if num_tokens \<le> tokens b' then (Inr Granted, b'\<lparr>tokens := tokens b' - num_tokens\<rparr>)
         else if rate_limit b = 0 then (Inl ZeroDivisionError, b')
         else (Inr (Retry_After ((num_tokens - tokens b') / rate_limit b)), b'))"

definition acquire_section :: "real \<Rightarrow> real \<Rightarrow> bucket \<Rightarrow> attempt res \<times> bucket" where
  "acquire_section now num_tokens b =
     (if max_tokens b < num_tokens then acquire_large now num_tokens b else acquire_small now num_tokens b)"

section \<open>Concurrent callers\<close>

text \<open>
  The state of all callers: the clock, the bucket, those who sleep before a new attempt, those who sleep with their
  tokens taken, each with the time of waking, and the sum of the tokens of the calls that have returned.  A sleeper may
  wake later than asked.
\<close>

record limiter =
  clock :: real
  the_bucket :: bucket
  retrying :: "(real \<times> real) multiset"
  paid :: "(real \<times> real) multiset"
  returned :: real

fun attempted :: "real \<Rightarrow> attempt \<Rightarrow> limiter \<Rightarrow> limiter" where
  "attempted n Granted s = s\<lparr>returned := returned s + n\<rparr>"
| "attempted n (Retry_After w) s = s\<lparr>retrying := add_mset (n, clock s + w) (retrying s)\<rparr>"
| "attempted n (Granted_After w) s =
     (if 0 < w then s\<lparr>paid := add_mset (n, clock s + w) (paid s)\<rparr> else s\<lparr>returned := returned s + n\<rparr>)"

inductive limiter_step :: "limiter \<Rightarrow> limiter \<Rightarrow> bool" where
  tick: "clock s \<le> t \<Longrightarrow> limiter_step s (s\<lparr>clock := t\<rparr>)"
| call: "0 < n \<Longrightarrow> acquire_section (clock s) n (the_bucket s) = (Inr a, b)
    \<Longrightarrow> limiter_step s (attempted n a (s\<lparr>the_bucket := b\<rparr>))"
| retry: "(n, w) \<in># retrying s \<Longrightarrow> w \<le> clock s \<Longrightarrow> acquire_section (clock s) n (the_bucket s) = (Inr a, b)
    \<Longrightarrow> limiter_step s (attempted n a (s\<lparr>retrying := retrying s - {#(n, w)#}, the_bucket := b\<rparr>))"
| wake: "(n, w) \<in># paid s \<Longrightarrow> w \<le> clock s
    \<Longrightarrow> limiter_step s (s\<lparr>paid := paid s - {#(n, w)#}, returned := returned s + n\<rparr>)"

definition limiter_start :: "real \<Rightarrow> bucket \<Rightarrow> limiter" where
  "limiter_start t0 b = \<lparr>clock = t0, the_bucket = b, retrying = {#}, paid = {#}, returned = 0\<rparr>"

section \<open>The rate is kept\<close>

text \<open>The tokens taken by sleepers who wake by a time.\<close>

definition due :: "real \<Rightarrow> (real \<times> real) multiset \<Rightarrow> real" where
  "due t ps = (\<Sum>(n, w)\<in>#ps. if w \<le> t then n else 0)"

definition owed :: "(real \<times> real) multiset \<Rightarrow> real" where
  "owed ps = (\<Sum>(n, w)\<in>#ps. n)"

lemma due_add [simp]: "due t (add_mset (n, w) ps) = (if w \<le> t then n else 0) + due t ps"
  by (simp add: due_def)

lemma owed_add [simp]: "owed (add_mset (n, w) ps) = n + owed ps"
  by (simp add: owed_def)

lemma due_empty [simp]: "due t {#} = 0" and owed_empty [simp]: "owed {#} = 0"
  by (simp_all add: due_def owed_def)

lemma due_remove: "(n, w) \<in># ps \<Longrightarrow> due t ps = (if w \<le> t then n else 0) + due t (ps - {#(n, w)#})"
  by (metis due_add insert_DiffM)

lemma owed_remove: "(n, w) \<in># ps \<Longrightarrow> owed ps = n + owed (ps - {#(n, w)#})"
  by (metis owed_add insert_DiffM)

lemma due_le_owed: "\<forall>p\<in>#ps. 0 \<le> fst p \<Longrightarrow> due t ps \<le> owed ps"
proof (induction ps)
  case (add p ps)
  then show ?case by (cases p) (auto intro: add_mono)
qed simp

lemma due_nonneg: "\<forall>p\<in>#ps. 0 \<le> fst p \<Longrightarrow> 0 \<le> due t ps"
proof (induction ps)
  case (add p ps)
  then show ?case by (cases p) auto
qed simp

text \<open>
  The account of the bucket since \<open>t0\<close>: what was taken is at most the capacity and the refill of the time since, less
  what is there; and by every later time no more has returned or is due than the rate allows.
\<close>

definition last_time :: "real \<Rightarrow> bucket \<Rightarrow> real" where
  "last_time t0 b = (case last_update b of None \<Rightarrow> t0 | Some t \<Rightarrow> t)"

definition limiter_inv :: "real \<Rightarrow> real \<Rightarrow> real \<Rightarrow> limiter \<Rightarrow> bool" where
  "limiter_inv t0 r mx s \<longleftrightarrow>
     rate_limit (the_bucket s) = r \<and> max_tokens (the_bucket s) = mx \<and> tokens (the_bucket s) \<le> mx
     \<and> t0 \<le> last_time t0 (the_bucket s) \<and> last_time t0 (the_bucket s) \<le> clock s
     \<and> (\<forall>p\<in>#paid s + retrying s. 0 < fst p)
     \<and> returned s + owed (paid s) \<le> mx + r * (last_time t0 (the_bucket s) - t0) - tokens (the_bucket s)
     \<and> (\<forall>t \<ge> clock s. returned s + due t (paid s) \<le> mx + r * (t - t0))"

lemma refill_simps [simp]:
  "rate_limit (refill now b) = rate_limit b" "max_tokens (refill now b) = max_tokens b"
  "last_update (refill now b) = Some now"
  by (simp_all add: refill_def)

lemma refill_tokens:
  assumes "tokens b \<le> max_tokens b" "t0 \<le> last_time t0 b" "last_time t0 b \<le> now" "0 \<le> rate_limit b"
  shows "tokens (refill now b) \<le> max_tokens b"
    "tokens (refill now b) \<le> tokens b + rate_limit b * (now - last_time t0 b)"
    "tokens b \<le> tokens (refill now b)"
  using assms by (auto simp: refill_def last_time_def Let_def mult.commute min_def split: option.splits)

text \<open>The locked section, in terms of the tokens after the refill.\<close>

lemma acquire_section_cases:
  assumes "acquire_section now n b = (Inr a, b')" "0 < rate_limit b"
  shows "rate_limit b' = rate_limit b \<and> max_tokens b' = max_tokens b \<and> last_update b' = Some now
    \<and> (case a of
         Granted \<Rightarrow> n \<le> tokens (refill now b) \<and> tokens b' = tokens (refill now b) - n
       | Retry_After w \<Rightarrow> 0 < w \<and> tokens b' = tokens (refill now b)
           \<and> w * rate_limit b = n - tokens (refill now b) \<and> n \<le> max_tokens b
       | Granted_After w \<Rightarrow> tokens b' = tokens (refill now b) - n \<and> 0 \<le> w \<and> n - tokens (refill now b) \<le> rate_limit b * w)"
  using assms
  by (auto simp: acquire_section_def acquire_large_def acquire_small_def Let_def mult.commute split: if_splits)

lemma attempted_inv:
  assumes inv: "limiter_inv t0 r mx s" and r: "0 < r" and n: "0 < n"
    and sec: "acquire_section (clock s) n (the_bucket s) = (Inr a, b)"
  shows "limiter_inv t0 r mx (attempted n a (s\<lparr>the_bucket := b\<rparr>))"
proof -
  let ?B = "the_bucket s" and ?T = "tokens (refill (clock s) (the_bucket s))" and ?D = "returned s + owed (paid s)"
  have B: "rate_limit ?B = r" "max_tokens ?B = mx" "tokens ?B \<le> max_tokens ?B" "t0 \<le> last_time t0 ?B" "last_time t0 ?B \<le> clock s"
    and pos: "\<forall>p\<in>#paid s. 0 < fst p" "\<forall>p\<in>#retrying s. 0 < fst p"
    and acc: "?D \<le> mx + r * (last_time t0 ?B - t0) - tokens ?B"
    and later: "\<And>t. clock s \<le> t \<Longrightarrow> returned s + due t (paid s) \<le> mx + r * (t - t0)"
    using inv by (auto simp: limiter_inv_def)
  note eff = acquire_section_cases[OF sec] and T = refill_tokens[OF B(3-5)]
  have T': "?T \<le> mx" "?T \<le> tokens ?B + r * (clock s - last_time t0 ?B)" using T r B(1,2) by auto
  have accT: "?D + ?T \<le> mx + r * (clock s - t0)"
    using acc T'(2) by (simp add: algebra_simps)
  have b: "rate_limit b = r" "max_tokens b = mx" "last_update b = Some (clock s)" using eff B(1,2) r by auto
  have lt: "last_time t0 b = clock s" by (simp add: last_time_def b)
  have due_le: "returned s + due t (paid s) \<le> ?D" for t using due_le_owed[of "paid s" t] pos(1) by (force simp: less_imp_le)
  have mono: "mx + r * (clock s - t0) \<le> mx + r * (t - t0)" if "clock s \<le> t" for t using that r by simp
  show ?thesis
  proof (cases a)
    case Granted
    then have "n \<le> ?T" "tokens b = ?T - n" using eff r B(1) by auto
    moreover have "returned s + n + due t (paid s) \<le> mx + r * (t - t0)" if "clock s \<le> t" for t
      using due_le[of t] accT mono[OF that] \<open>n \<le> ?T\<close> by linarith
    ultimately show ?thesis
      using Granted accT T'(1) pos n B by (auto simp: limiter_inv_def b lt)
  next
    case (Retry_After w)
    then have "tokens b = ?T" using eff r B(1) by auto
    then show ?thesis
      using Retry_After accT T'(1) pos n B later by (auto simp: limiter_inv_def b lt)
  next
    case (Granted_After w)
    then have w: "tokens b = ?T - n" "0 \<le> w" "n - ?T \<le> r * w" using eff r B(1) by auto
    have late: "returned s + due t (paid s) + n \<le> mx + r * (t - t0)" if "clock s + w \<le> t" for t
    proof -
      have "r * w \<le> r * (t - clock s)" using that r by (intro mult_left_mono) auto
      then show ?thesis using due_le[of t] accT w(3) by (simp add: algebra_simps)
    qed
    show ?thesis
    proof (cases "0 < w")
      case True
      have "returned s + due t (add_mset (n, clock s + w) (paid s)) \<le> mx + r * (t - t0)" if "clock s \<le> t" for t
        using late[of t] later[OF that] by auto
      then show ?thesis
        using Granted_After True accT T'(1) pos n B w(1) by (auto simp: limiter_inv_def b lt)
    next
      case False
      then have "w = 0" using w(2) by simp
      then show ?thesis
        using Granted_After accT T'(1) pos n B w(1) late by (auto simp: limiter_inv_def b lt algebra_simps)
    qed
  qed
qed

lemma limiter_step_inv:
  assumes "limiter_step s s'" "limiter_inv t0 r mx s" "0 < r"
  shows "limiter_inv t0 r mx s'"
  using assms(1)
proof (cases rule: limiter_step.cases)
  case (tick t)
  then show ?thesis using assms(2) by (auto simp: limiter_inv_def)
next
  case (call n a b)
  then show ?thesis using attempted_inv[OF assms(2,3)] by blast
next
  case (retry n w a b)
  let ?s = "s\<lparr>retrying := retrying s - {#(n, w)#}\<rparr>"
  have "limiter_inv t0 r mx ?s"
    using assms(2) by (auto simp: limiter_inv_def dest: in_diffD)
  moreover have "0 < n" using assms(2) retry(2) by (force simp: limiter_inv_def)
  ultimately have "limiter_inv t0 r mx (attempted n a (?s\<lparr>the_bucket := b\<rparr>))"
    using attempted_inv[of t0 r mx ?s n a b] assms(3) retry(4) by simp
  then show ?thesis using retry(1) by simp
next
  case (wake n w)
  have pos: "\<forall>p\<in>#paid s - {#(n, w)#} + retrying s. 0 < fst p"
    using assms(2) by (auto simp: limiter_inv_def dest: in_diffD)
  have "returned s + n + due t (paid s - {#(n, w)#}) \<le> mx + r * (t - t0)" if "clock s \<le> t" for t
    using assms(2) that wake(3) due_remove[OF wake(2), of t] by (force simp: limiter_inv_def)
  then show ?thesis
    using assms(2) owed_remove[OF wake(2)] pos wake(1) by (simp add: limiter_inv_def)
qed

lemma limiter_start_inv: "limiter_inv t0 r mx (limiter_start t0 \<lparr>rate_limit = r, max_tokens = mx, tokens = mx, last_update = None\<rparr>)"
  if "0 < r" "0 \<le> mx"
  using that by (auto simp: limiter_inv_def limiter_start_def last_time_def)

text \<open>
  C31. However the callers interleave and however late they wake, the calls that have returned by a time used no more than
  the capacity of the bucket and the rate times the time since the start, requests larger than the bucket included.
\<close>

theorem rate_is_kept:
  assumes "limiter_step\<^sup>*\<^sup>* (limiter_start t0 (bucket_init r mx)) s" "0 < r" "\<forall>m\<in>set_option mx. 0 \<le> m"
  shows "returned s \<le> max_tokens (bucket_init r mx) + r * (clock s - t0)"
proof -
  have b: "bucket_init r mx = \<lparr>rate_limit = r, max_tokens = max_tokens (bucket_init r mx),
      tokens = max_tokens (bucket_init r mx), last_update = None\<rparr>" "0 \<le> max_tokens (bucket_init r mx)"
    using assms(2,3) by (auto simp: bucket_init_def Let_def split: option.splits)
  have "limiter_inv t0 r (max_tokens (bucket_init r mx)) s"
    using assms(1)
  proof (induction rule: rtranclp_induct)
    case base
    show ?case using limiter_start_inv[OF assms(2) b(2), of t0] b(1) by simp
  qed (rule limiter_step_inv[OF _ _ assms(2)])
  then have "returned s + due (clock s) (paid s) \<le> max_tokens (bucket_init r mx) + r * (clock s - t0)"
    and pos: "\<forall>p\<in>#paid s. 0 < fst p" by (auto simp: limiter_inv_def)
  moreover have "0 \<le> due (clock s) (paid s)"
    using pos by (intro due_nonneg) (simp add: less_imp_le)
  ultimately show ?thesis by linarith
qed

text \<open>
  An attempt that fails succeeds when it is tried again after the time it was told, if no other call came between:
  undisturbed, a caller sleeps once.
\<close>

theorem undisturbed_retry_granted:
  assumes "acquire_section now n b = (Inr (Retry_After w), b')" "0 < rate_limit b" "now + w \<le> t"
  shows "0 < w \<and> fst (acquire_section t n b') = Inr Granted"
proof -
  note eff = acquire_section_cases[OF assms(1,2)]
  have e: "0 < w" "tokens b' = tokens (refill now b)" "w * rate_limit b = n - tokens (refill now b)" "n \<le> max_tokens b"
    "rate_limit b' = rate_limit b" "max_tokens b' = max_tokens b" "last_update b' = Some now" using eff by auto
  have "w * rate_limit b \<le> (t - now) * rate_limit b" using assms(2,3) by (intro mult_right_mono) auto
  then have "n \<le> tokens (refill t b')" using e by (auto simp: refill_def)
  then show ?thesis using e(1,4,6) by (simp add: acquire_section_def acquire_small_def Let_def)
qed

theorem rate_is_kept_witness:
  "\<exists>s. limiter_step\<^sup>*\<^sup>* (limiter_start 0 (bucket_init 1 (Some 2))) s \<and> returned s = 3 \<and> 3 \<le> 2 + 1 * (clock s - 0)"
proof -
  let ?b0 = "bucket_init 1 (Some 2)" and ?s0 = "limiter_start 0 (bucket_init 1 (Some 2))"
  define b1 where "b1 = \<lparr>rate_limit = 1, max_tokens = 2, tokens = - 1, last_update = Some 0\<rparr>"
  have "acquire_section 0 3 ?b0 = (Inr (Granted_After 1), b1)"
    by (simp add: acquire_section_def acquire_large_def bucket_init_def refill_def b1_def)
  then have "limiter_step ?s0 (attempted 3 (Granted_After 1) (?s0\<lparr>the_bucket := b1\<rparr>))"
    by (intro limiter_step.call) (simp_all add: limiter_start_def)
  moreover define s1 where "s1 = attempted 3 (Granted_After 1) (?s0\<lparr>the_bucket := b1\<rparr>)"
  ultimately have 1: "limiter_step ?s0 s1" by simp
  have 2: "limiter_step s1 (s1\<lparr>clock := 1\<rparr>)" by (rule limiter_step.tick) (simp add: s1_def limiter_start_def)
  have 3: "limiter_step (s1\<lparr>clock := 1\<rparr>) ((s1\<lparr>clock := 1\<rparr>)\<lparr>paid := paid (s1\<lparr>clock := 1\<rparr>) - {#(3, 1)#},
      returned := returned (s1\<lparr>clock := 1\<rparr>) + 3\<rparr>)" (is "limiter_step _ ?s3")
    by (rule limiter_step.wake) (simp_all add: s1_def limiter_start_def)
  have run: "limiter_step\<^sup>*\<^sup>* ?s0 ?s3" using 1 2 3 by (meson converse_rtranclp_into_rtranclp rtranclp.rtrancl_refl)
  have "returned ?s3 = 3" by (simp add: s1_def limiter_start_def)
  moreover have "max_tokens ?b0 = 2" by (simp add: bucket_init_def)
  ultimately show ?thesis using rate_is_kept[OF run] run by (intro exI[of _ ?s3]) simp
qed

theorem undisturbed_retry_granted_witness:
  "fst (acquire_section 1 1 \<lparr>rate_limit = 1, max_tokens = 2, tokens = 0, last_update = Some 0\<rparr>) = Inr Granted"
proof -
  let ?b = "\<lparr>rate_limit = 1, max_tokens = 2, tokens = 0, last_update = Some 0\<rparr>"
  have "acquire_section 0 1 ?b = (Inr (Retry_After 1), ?b)"
    by (simp add: acquire_section_def acquire_small_def refill_def)
  from undisturbed_retry_granted[OF this, of 1] show ?thesis by simp
qed

section \<open>The reward manager\<close>

text \<open>The limits belong to the class: the first initialisation sets them, later ones are ignored.\<close>

record reward_config =
  cfg_max_concurrent :: nat
  cfg_max_rpm :: "real option"
  cfg_max_tpm :: "real option"
  cfg_estimated_tokens :: real

record limiter_class =
  class_initialized :: bool
  cls_max_concurrent :: nat
  cls_max_rpm :: "real option"
  rpm_limiter :: "bucket option"
  cls_max_tpm :: "real option"
  tpm_limiter :: "bucket option"
  estimated_tokens_per_request :: real

definition per_second :: "real option \<Rightarrow> bucket option" where
  "per_second per_minute = map_option (\<lambda>m. bucket_init (m / 60) (Some (m / 60))) per_minute"

definition init_class :: "reward_config \<Rightarrow> limiter_class \<Rightarrow> limiter_class" where
  "init_class cfg c =
     (if class_initialized c then c
      else \<lparr>class_initialized = True, cls_max_concurrent = cfg_max_concurrent cfg,
            cls_max_rpm = cfg_max_rpm cfg, rpm_limiter = per_second (cfg_max_rpm cfg),
            cls_max_tpm = cfg_max_tpm cfg, tpm_limiter = per_second (cfg_max_tpm cfg),
            estimated_tokens_per_request = cfg_estimated_tokens cfg\<rparr>)"

text \<open>How a scoring call can end, and the reward and the extra information made of it.\<close>

datatype info = Info_Num real | Info_Bool bool | Info_Str string

datatype outcome = Scored_Dict "(string \<times> info) list" | Scored info | Timed_Out | Raised string

definition reward_of :: "outcome \<Rightarrow> info \<times> (string \<times> info) list" where
  "reward_of result =
     (case result of
        Scored_Dict d \<Rightarrow>
          (case map_of d ''score'' of
             Some s \<Rightarrow> (s, d)
           | None \<Rightarrow> (Info_Num 0, [(''error'', Info_Str (CHR 39 # ''score'' @ [CHR 39])), (''acc'', Info_Num 0)]))
      | Scored x \<Rightarrow> (x, [(''acc'', x)])
      | Timed_Out \<Rightarrow> (Info_Num 0, [(''timeout'', Info_Bool True), (''acc'', Info_Num 0)])
      | Raised e \<Rightarrow> (Info_Num 0, [(''error'', Info_Str e), (''acc'', Info_Num 0)]))"

record reward_item =
  ri_responses :: "nat list"
  ri_attention_mask :: "nat list"

definition valid_response_length :: "reward_item \<Rightarrow> nat" where
  "valid_response_length d = sum_list (last_n (length (ri_responses d)) (ri_attention_mask d))"

text \<open>The text of the valid response goes to the scoring function, an argument with all it needs besides.\<close>

definition run_single :: "(nat list \<Rightarrow> string) \<Rightarrow> (string \<Rightarrow> outcome) \<Rightarrow> reward_item \<Rightarrow> info \<times> (string \<times> info) list" where
  "run_single decode compute_score d = reward_of (compute_score (decode (take (valid_response_length d) (ri_responses d))))"

text \<open>\<open>reward_tensor[i, valid_response_length - 1] = reward\<close>, where -1 is the last place; a reward is a number.\<close>

definition place_reward :: "reward_item \<Rightarrow> info \<Rightarrow> real list res" where
  "place_reward d reward =
     (let n = length (ri_responses d); v = valid_response_length d
      in case reward of
           Info_Str _ \<Rightarrow> Inl TypeError
         | Info_Num x \<Rightarrow> require (0 < n \<and> v \<le> n) IndexError (Inr ((replicate n 0)[if v = 0 then n - 1 else v - 1 := x]))
         | Info_Bool b \<Rightarrow> require (0 < n \<and> v \<le> n) IndexError
             (Inr ((replicate n 0)[if v = 0 then n - 1 else v - 1 := if b then 1 else 0])))"

definition collect_info :: "(string \<times> info) list \<Rightarrow> (string \<times> info list) list \<Rightarrow> (string \<times> info list) list" where
  "collect_info d acc =
     fold (\<lambda>(k, v) acc. AList.update k ((case map_of acc k of None \<Rightarrow> [] | Some vs \<Rightarrow> vs) @ [v]) acc) d acc"

definition call_manager ::
  "(nat list \<Rightarrow> string) \<Rightarrow> (nat \<Rightarrow> string \<Rightarrow> outcome) \<Rightarrow> reward_item list
    \<Rightarrow> (real list list \<times> (string \<times> info list) list) res" where
  "call_manager decode compute_score items =
     (let results = map (\<lambda>(i, d). run_single decode (compute_score i) d) (enumerate 0 items)
      in bind_res (map_res (\<lambda>(d, r). place_reward d (fst r)) (zip items results)) (\<lambda>reward_tensor.
         Inr (reward_tensor, fold (\<lambda>r. collect_info (snd r)) results [])))"

lemma collect_info_Cons:
  "collect_info ((k, v) # d) acc = collect_info d (AList.update k ((case map_of acc k of None \<Rightarrow> [] | Some vs \<Rightarrow> vs) @ [v]) acc)"
  "collect_info [] acc = acc"
  by (simp_all add: collect_info_def)

lemma map_of_collect_info:
  "distinct (map fst d) \<Longrightarrow> map_of (collect_info d acc) k =
     (case map_of d k of None \<Rightarrow> map_of acc k | Some v \<Rightarrow> Some ((case map_of acc k of None \<Rightarrow> [] | Some vs \<Rightarrow> vs) @ [v]))"
proof (induction d arbitrary: acc)
  case (Cons p d)
  obtain j v where p: "p = (j, v)" by (cases p)
  then have "map_of d j = None" "distinct (map fst d)" using Cons.prems by (simp_all add: map_of_eq_None_iff)
  then show ?case
    unfolding p collect_info_Cons Cons.IH[OF \<open>distinct (map fst d)\<close>] by (auto simp: update_conv' split: option.splits)
qed (simp add: collect_info_Cons)

text \<open>The values that the results have under a key, in order.\<close>

definition values_at :: "string \<Rightarrow> (info \<times> (string \<times> info) list) list \<Rightarrow> info list" where
  "values_at k results = concat (map (\<lambda>r. case map_of (snd r) k of None \<Rightarrow> [] | Some v \<Rightarrow> [v]) results)"

lemma map_of_fold_collect:
  assumes "\<forall>r\<in>set results. distinct (map fst (snd r))"
  shows "map_of (fold (\<lambda>r. collect_info (snd r)) results acc) k =
    (if values_at k results = [] then map_of acc k
     else Some ((case map_of acc k of None \<Rightarrow> [] | Some vs \<Rightarrow> vs) @ values_at k results))"
  using assms
proof (induction results arbitrary: acc)
  case (Cons r results)
  then have "distinct (map fst (snd r))" by simp
  note one = map_of_collect_info[OF this, of acc k]
  have "values_at k (r # results) = (case map_of (snd r) k of None \<Rightarrow> [] | Some v \<Rightarrow> [v]) @ values_at k results"
    by (simp add: values_at_def)
  then show ?case
    using Cons.IH[of "collect_info (snd r) acc"] Cons.prems one by (auto split: option.splits)
qed (simp add: values_at_def)

lemma reward_of_keys: "(\<And>d. result = Scored_Dict d \<Longrightarrow> distinct (map fst d)) \<Longrightarrow> distinct (map fst (snd (reward_of result)))"
  by (auto simp: reward_of_def split: outcome.splits option.splits)

text \<open>
  The reward of an item stands at its last valid token and nowhere else; the extra values are lists over the items
  that have the key.  Failed calls have other keys than scored ones, so the lists need not have one entry per item.
\<close>

theorem call_manager_result:
  assumes run: "call_manager decode compute_score items = Inr (reward_tensor, extra)"
    and dicts: "\<And>i t d. compute_score i t = Scored_Dict d \<Longrightarrow> distinct (map fst d)"
    and i: "i < length items" "valid_response_length (items ! i) \<noteq> 0"
    and x: "run_single decode (compute_score i) (items ! i) = (Info_Num x, e)"
  shows "length reward_tensor = length items \<and>
    reward_tensor ! i = (replicate (length (ri_responses (items ! i))) 0)[valid_response_length (items ! i) - 1 := x]
    \<and> map_of extra k =
        (let vs = values_at k (map (\<lambda>(i, d). run_single decode (compute_score i) d) (enumerate 0 items))
         in if vs = [] then None else Some vs)"
proof -
  let ?results = "map (\<lambda>(i, d). run_single decode (compute_score i) d) (enumerate 0 items)"
  have tensor: "map_res (\<lambda>(d, r). place_reward d (fst r)) (zip items ?results) = Inr reward_tensor"
    and extra: "extra = fold (\<lambda>r. collect_info (snd r)) ?results []"
    using run by (auto simp: call_manager_def bind_res_eq_Inr Let_def)
  have len: "length reward_tensor = length items" using map_res_length[OF tensor] by simp
  have "(\<lambda>(d, r). place_reward d (fst r)) (zip items ?results ! i) = Inr (reward_tensor ! i)"
    by (rule map_res_nth[OF tensor]) (use i in simp)
  then have "place_reward (items ! i) (Info_Num x) = Inr (reward_tensor ! i)"
    using i x by (simp add: nth_enumerate_eq)
  then have "reward_tensor ! i = (replicate (length (ri_responses (items ! i))) 0)[valid_response_length (items ! i) - 1 := x]"
    using i(2) by (simp add: place_reward_def Let_def)
  moreover have "\<forall>r\<in>set ?results. distinct (map fst (snd r))"
    using dicts by (auto simp: run_single_def intro!: reward_of_keys)
  ultimately show ?thesis using len by (simp add: extra map_of_fold_collect Let_def)
qed

text \<open>Two items, the second of which times out: the list of \<open>timeout\<close> has one entry.\<close>

theorem call_manager_result_witness:
  "\<exists>reward_tensor extra.
    call_manager (\<lambda>_. []) (\<lambda>i _. if i = 0 then Scored (Info_Num 1) else Timed_Out)
      [\<lparr>ri_responses = [5, 6, 0], ri_attention_mask = [1, 1, 1, 1, 0]\<rparr>, \<lparr>ri_responses = [7, 8, 9], ri_attention_mask = [1, 1, 1, 1, 1]\<rparr>]
      = Inr (reward_tensor, extra)
    \<and> reward_tensor ! 0 = [0, 1, 0] \<and> map_of extra ''timeout'' = Some [Info_Bool True]"
proof -
  let ?score = "\<lambda>i (_ :: string). if i = (0 :: nat) then Scored (Info_Num 1) else Timed_Out"
  let ?items = "[\<lparr>ri_responses = [5, 6, 0], ri_attention_mask = [1, 1, 1, 1, 0]\<rparr>, \<lparr>ri_responses = [7, 8, 9], ri_attention_mask = [1, 1, 1, 1, 1]\<rparr>]"
  have v: "valid_response_length (?items ! 0) = 2" "valid_response_length (?items ! 1) = 3"
    by (simp_all add: valid_response_length_def last_n_def py_tail_def)
  obtain reward_tensor extra where run: "call_manager (\<lambda>_. []) ?score ?items = Inr (reward_tensor, extra)"
    using v by (simp add: call_manager_def run_single_def reward_of_def place_reward_def Let_def)
  have dicts: "?score i t = Scored_Dict d \<Longrightarrow> distinct (map fst d)" for i t d by (simp split: if_splits)
  have "reward_tensor ! 0 = [0, 1, 0]" "map_of extra ''timeout'' = Some [Info_Bool True]"
    using call_manager_result[OF run dicts, where i = 0 and x = 1 and e = "[(''acc'', Info_Num 1)]" and k = "''timeout''"] v
    by (simp_all add: run_single_def reward_of_def values_at_def numeral_2_eq_2 eval_nat_numeral)
  with run show ?thesis by blast
qed

end
