(* ===== verification/Text_Numbers.thy ===== *)
theory Text_Numbers
  imports Prelude "HOL-Library.Sublist"
begin

text \<open>
  The text functions the driver uses for the names of checkpoints and of the outputs of a session: \<open>str\<close> and \<open>int\<close> of
  whole numbers, \<open>split\<close>, \<open>rsplit\<close> and the containment of texts.
\<close>

section \<open>Decimal numbers and substrings\<close>

text \<open>\<open>str(n)\<close> and \<open>int(s)\<close> for ASCII texts: blanks around, a sign, and single underscores between digits.\<close>

fun dec :: "nat \<Rightarrow> string" where
  "dec n = (if n < 10 then [char_of (48 + n)] else dec (n div 10) @ [char_of (48 + n mod 10)])"

declare dec.simps [simp del]

definition str_int :: "int \<Rightarrow> string" where
  "str_int i = (if i < 0 then CHR ''-'' # dec (nat (- i)) else dec (nat i))"

definition is_digit :: "char \<Rightarrow> bool" where
  "is_digit c \<longleftrightarrow> (let n = of_char c :: nat in 48 \<le> n \<and> n \<le> 57)"

fun digits_ok :: "bool \<Rightarrow> string \<Rightarrow> bool" where
  "digits_ok after_digit [] = after_digit"
| "digits_ok after_digit (c # s) =
     (if is_digit c then digits_ok True s else c = CHR ''_'' \<and> after_digit \<and> digits_ok False s)"

definition digits_value :: "string \<Rightarrow> nat" where
  "digits_value s = foldl (\<lambda>a c. 10 * a + (of_char c - 48)) 0 (filter is_digit s)"

definition py_int :: "string \<Rightarrow> int res" where
  "py_int s =
     (let t = strip s;
          sign = (if t \<noteq> [] \<and> hd t = CHR ''-'' then - 1 else 1);
          u = (if t \<noteq> [] \<and> hd t \<in> {CHR ''-'', CHR ''+''} then tl t else t)
      in require (digits_ok False u) ValueError (Inr (sign * int (digits_value u))))"

text \<open>\<open>s.split(sep)\<close> for a separator of several characters, and \<open>sep in s\<close>.\<close>

function split_str :: "string \<Rightarrow> string \<Rightarrow> string list" where
  "split_str sep [] = [[]]"
| "split_str sep (c # s) =
     (if sep \<noteq> [] \<and> prefix sep (c # s) then [] # split_str sep (drop (length sep) (c # s))
      else case split_str sep s of [] \<Rightarrow> [[c]] | w # ws \<Rightarrow> (c # w) # ws)"
  by pat_completeness auto
termination by (relation "measure (length \<circ> snd)") auto

fun has_substring :: "string \<Rightarrow> string \<Rightarrow> bool" where
  "has_substring sub [] \<longleftrightarrow> sub = []"
| "has_substring sub (c # s) \<longleftrightarrow> prefix sub (c # s) \<or> has_substring sub s"

text \<open>\<open>s.rsplit(c, k)\<close>: at most \<open>k\<close> splits, from the right.\<close>

fun rsplit :: "char \<Rightarrow> nat \<Rightarrow> string \<Rightarrow> string list" where
  "rsplit c 0 s = [s]"
| "rsplit c (Suc k) s =
     (if c \<in> set s
      then rsplit c k (rev (tl (dropWhile (\<lambda>d. d \<noteq> c) (rev s)))) @ [rev (takeWhile (\<lambda>d. d \<noteq> c) (rev s))]
      else [s])"

lemma is_digit_char_of [simp]: "d < 10 \<Longrightarrow> is_digit (char_of (48 + d :: nat))"
  by (simp add: is_digit_def)

lemma dec_digits: "c \<in> set (dec n) \<Longrightarrow> is_digit c"
proof (induction n rule: dec.induct)
  case (1 n)
  then show ?case
    by (subst (asm) dec.simps) (auto split: if_splits)
qed

lemma dec_nonempty [simp]: "dec n \<noteq> []"
  by (subst dec.simps) simp

lemma digits_value_snoc: "is_digit c \<Longrightarrow> digits_value (s @ [c]) = 10 * digits_value s + (of_char c - 48)"
  by (simp add: digits_value_def)

lemma digits_value_dec [simp]: "digits_value (dec n) = n"
proof (induction n rule: dec.induct)
  case (1 n)
  have last: "digits_value [char_of (48 + d)] = d" if "d < 10" for d
    using that digits_value_snoc[of "char_of (48 + d)" "[]"] by (simp add: digits_value_def)
  show ?case
  proof (cases "n < 10")
    case True
    then show ?thesis
      using last[of n] by (simp add: dec.simps)
  next
    case False
    then show ?thesis
      using 1 digits_value_snoc[of "char_of (48 + n mod 10)" "dec (n div 10)"]
      by (subst dec.simps) simp
  qed
qed

lemma digits_ok_digits: "(\<And>c. c \<in> set s \<Longrightarrow> is_digit c) \<Longrightarrow> digits_ok b s \<longleftrightarrow> b \<or> s \<noteq> []"
  by (induction s arbitrary: b) auto

lemma not_digit:
  "\<not> is_digit (CHR ''-'')" "\<not> is_digit (CHR ''+'')" "\<not> is_digit (CHR ''/'')" "\<not> is_digit (CHR ''g'')"
  by (simp_all add: is_digit_def)

lemma digit_not_space: "is_digit c \<Longrightarrow> \<not> is_space c"
  by (auto simp: is_digit_def is_space_def Let_def)

lemma strip_solid: "(\<And>c. c \<in> set s \<Longrightarrow> \<not> is_space c) \<Longrightarrow> strip s = s"
  by (metis dropWhile_eq_self_iff hd_in_set rev_rev_ident set_rev strip_def)

lemma py_int_str_int [simp]: "py_int (str_int i) = Inr i"
proof -
  have digits: "hd (dec n) \<noteq> CHR ''-'' \<and> hd (dec n) \<noteq> CHR ''+''" for n
    using dec_digits[of "hd (dec n)" n] not_digit by auto
  have "strip (dec n) = dec n" for n
    using strip_solid dec_digits digit_not_space by blast
  moreover have "strip (CHR ''-'' # dec n) = CHR ''-'' # dec n" for n
    by (rule strip_solid) (use dec_digits digit_not_space in \<open>auto simp: is_space_def\<close>)
  moreover have "digits_ok False (dec n)" for n
    by (simp add: digits_ok_digits[OF dec_digits])
  ultimately show ?thesis
    using digits by (simp add: str_int_def py_int_def Let_def)
qed

lemma str_int_eq_iff [simp]: "str_int i = str_int j \<longleftrightarrow> i = j"
  by (metis py_int_str_int sum.inject(2))

lemma str_int_chars: "c \<in> set (str_int i) \<Longrightarrow> is_digit c \<or> c = CHR ''-''"
  by (auto simp: str_int_def dest: dec_digits split: if_splits)

text \<open>
  The last part of a split at a separator that starts with a character it does not contain again: the text
  after the last occurrence of the separator.
\<close>

lemma split_str_nonempty [simp]: "split_str sep s \<noteq> []"
  by (induction sep s rule: split_str.induct) (auto split: list.splits)

lemma split_str_absent: "c \<notin> set s \<Longrightarrow> split_str (c # sep) s = [s]"
  by (induction "c # sep" s rule: split_str.induct) auto

lemma split_str_last:
  assumes "c \<notin> set sep" "c \<notin> set s"
  shows "\<exists>ws. ws \<noteq> [] \<and> split_str (c # sep) (a @ (c # sep) @ s) = ws @ [s]"
proof (induction "length a" arbitrary: a rule: less_induct)
  case less
  show ?case
  proof (cases a)
    case Nil
    then show ?thesis
      using split_str_absent[OF assms(2), of sep] by simp
  next
    case (Cons d t)
    show ?thesis
    proof (cases "prefix (c # sep) (d # t @ (c # sep) @ s)")
      case True
      have "length sep \<le> length t"
      proof (rule ccontr)
        assume "\<not> length sep \<le> length t"
        then have "sep ! length t = (t @ (c # sep) @ s) ! length t"
          using True by (metis Cons_prefix_Cons append_eq_append_conv2 linorder_not_le nth_append prefix_def)
        then show False
          using assms(1) \<open>\<not> length sep \<le> length t\<close> by (simp add: nth_append) (metis linorder_not_le nth_mem)
      qed
      then have rest: "drop (length (c # sep)) (d # t @ (c # sep) @ s) = drop (length sep) t @ (c # sep) @ s"
        by simp
      have "split_str (c # sep) (d # t @ (c # sep) @ s) =
        [] # split_str (c # sep) (drop (length (c # sep)) (d # t @ (c # sep) @ s))"
        using True by auto
      moreover have "\<exists>ws. ws \<noteq> [] \<and> split_str (c # sep) (drop (length sep) t @ (c # sep) @ s) = ws @ [s]"
        using Cons by (intro less) simp
      then obtain ws where "split_str (c # sep) (drop (length sep) t @ (c # sep) @ s) = ws @ [s]"
        by blast
      ultimately show ?thesis
        unfolding rest using Cons by (intro exI[of _ "[] # ws"]) simp
    next
      case False
      obtain w ws where "split_str (c # sep) (t @ (c # sep) @ s) = (w # ws) @ [s]"
        using Cons less[of t] by (metis length_Cons lessI neq_Nil_conv)
      then show ?thesis
        using False Cons by (intro exI[of _ "(d # w) # ws"]) simp
    qed
  qed
qed

lemma last_split_str:
  "c \<notin> set sep \<Longrightarrow> c \<notin> set s \<Longrightarrow> last (split_str (c # sep) (a @ (c # sep) @ s)) = s"
  using split_str_last[of c sep s a] by auto

lemma dec_eq_iff [simp]: "dec i = dec j \<longleftrightarrow> i = j"
  by (metis digits_value_dec)

lemma rsplit_snoc: "c \<notin> set b \<Longrightarrow> rsplit c (Suc k) (a @ c # b) = rsplit c k a @ [b]"
proof -
  assume "c \<notin> set b"
  then have all: "x \<noteq> c" if "x \<in> set (rev b)" for x
    using that by auto
  have "dropWhile (\<lambda>d. d \<noteq> c) (rev b @ c # rev a) = c # rev a" "takeWhile (\<lambda>d. d \<noteq> c) (rev b @ c # rev a) = rev b"
    using dropWhile_append2[of "rev b" "\<lambda>d. d \<noteq> c" "c # rev a"] takeWhile_append2[of "rev b" "\<lambda>d. d \<noteq> c" "c # rev a"] all
    by simp_all
  then show ?thesis
    by simp
qed

lemma digits_no_underscore: "CHR ''_'' \<notin> set (dec n)"
  using dec_digits[of "CHR ''_''" n] by (auto simp: is_digit_def)

end
