(* ===== verification/Checkpoints.thy ===== *)
theory Checkpoints
  imports Text_Numbers
begin

text \<open>
  The checkpoints of the driver: where they are written, how many are kept, and what a new process finds
  (\<open>utils/checkpoint/checkpoint_manager.py\<close>, the shards of \<open>utils/checkpoint/fsdp_checkpoint_manager.py\<close>, and
  \<open>_save_checkpoint\<close> and \<open>_load_checkpoint\<close> of \<open>trainer/ppo/ray_trainer.py\<close>).

  The file system is a map from absolute paths to nodes; the driver and the workers share it.  Saving is
  a list of operations on it, so that a process that dies in the middle has executed a prefix of the list.
  What \<open>torch.save\<close> writes is the value itself.  Files no load reads (configuration and tokenizer under
  \<open>huggingface/\<close>, adapter metadata) and failing input and output (a full disk, missing rights) are left out.
\<close>

section \<open>Paths and files\<close>

text \<open>\<open>os.path.isabs\<close>, \<open>os.path.join\<close> of two parts, and a path read from a working directory.\<close>

definition is_abs :: "string \<Rightarrow> bool" where
  "is_abs p \<longleftrightarrow> p \<noteq> [] \<and> hd p = CHR ''/''"

definition path_join :: "string \<Rightarrow> string \<Rightarrow> string" where
  "path_join a b = (if is_abs b then b else if a = [] \<or> last a = CHR ''/'' then a @ b else a @ ''/'' @ b)"

definition absolute :: "string \<Rightarrow> string \<Rightarrow> string" where
  "absolute cwd p = (if is_abs p then p else path_join cwd p)"

text \<open>
  A node is a directory, one of the three files a rank writes, the state of the data loader, or a text.
  \<open>under p q\<close> says that \<open>q\<close> is \<open>p\<close> or lies below it.
\<close>

datatype ('m, 'o, 'e, 's) node =
    Dir
  | Model_Shard 'm
  | Optim_Shard 'o
  | Extra_State 'e
  | Loader_State 's
  | Text_File string

type_synonym ('m, 'o, 'e, 's) files = "string \<rightharpoonup> ('m, 'o, 'e, 's) node"

definition under :: "string \<Rightarrow> string \<Rightarrow> bool" where
  "under p q \<longleftrightarrow> q = p \<or> prefix (p @ ''/'') q"

text \<open>
  The operations of a save: \<open>os.makedirs(p, exist_ok=True)\<close> with all parents, writing a file, and
  \<open>shutil.rmtree\<close> of a directory that exists.
\<close>

datatype ('m, 'o, 'e, 's) fs_op =
    Make_Dirs string
  | Put string "('m, 'o, 'e, 's) node"
  | Remove_Tree string

definition dirs_of :: "string \<Rightarrow> string list" where
  "dirs_of p = map (\<lambda>i. take i p) (filter (\<lambda>i. p ! i = CHR ''/'') [1..<length p]) @ [p]"

fun run_op :: "('m, 'o, 'e, 's) fs_op \<Rightarrow> ('m, 'o, 'e, 's) files \<Rightarrow> ('m, 'o, 'e, 's) files" where
  "run_op (Make_Dirs p) fs = (\<lambda>q. if q \<in> set (dirs_of p) \<and> fs q = None then Some Dir else fs q)"
| "run_op (Put p x) fs = fs(p \<mapsto> x)"
| "run_op (Remove_Tree p) fs = (if fs p = None then fs else (\<lambda>q. if under p q then None else fs q))"

definition run_ops :: "('m, 'o, 'e, 's) fs_op list \<Rightarrow> ('m, 'o, 'e, 's) files \<Rightarrow> ('m, 'o, 'e, 's) files" where
  "run_ops ops fs = fold run_op ops fs"

section \<open>Retention of old checkpoints\<close>

text \<open>
  A worker's checkpoint manager: what it saves and loads, and the paths it has saved so far, oldest first.
  \<open>max_ckpt_to_keep\<close> is \<open>None\<close> or a number; the manager of rank 0 makes room before a save and enforces the
  limit after it.  Both give the paths to remove and the new state.
\<close>

record manager =
  save_contents :: "string list"
  load_contents :: "string list"
  previous_global_step :: "int option"
  previous_saved_paths :: "string list"

definition remove_previous_save_local_path :: "string list \<Rightarrow> ('m, 'o, 'e, 's) fs_op list" where
  "remove_previous_save_local_path ps = map Remove_Tree ps"

definition ensure_checkpoint_capacity ::
    "int option \<Rightarrow> manager \<Rightarrow> string list \<times> manager" where
  "ensure_checkpoint_capacity keep mgr =
     (case keep of
        None \<Rightarrow> ([], mgr)
      | Some k \<Rightarrow>
          let paths = previous_saved_paths mgr in
          if \<not> 1 < k then ([], mgr)
          else if k \<le> int (length paths) then
            let keep_start = nat (int (length paths) - k + 1)
            in (take keep_start paths,
                mgr\<lparr>previous_saved_paths := drop keep_start paths\<rparr>)
          else ([], mgr))"

definition register_checkpoint ::
    "string \<Rightarrow> int option \<Rightarrow> manager \<Rightarrow> string list \<times> manager" where
  "register_checkpoint new_path keep mgr =
     (let paths = previous_saved_paths mgr @ [new_path];
          mgr = mgr\<lparr>previous_saved_paths := paths\<rparr>
      in case keep of
           None \<Rightarrow> ([], mgr)
         | Some k \<Rightarrow>
             if \<not> 0 < k then ([], mgr)
             else if k < int (length paths) then
               let keep_start = nat (int (length paths) - k)
               in (take keep_start paths,
                   mgr\<lparr>previous_saved_paths := drop keep_start paths\<rparr>)
             else ([], mgr))"

section \<open>The shards of a worker group\<close>

text \<open>
  The state of one rank, with the scheduler and the random generators as its extra state.  The ranks write
  their files between two barriers, here in the order of their ranks; they read them the same way.
\<close>

record ('m, 'o, 'e) rank =
  model_state :: 'm
  optim_state :: 'o
  extra_state :: 'e

definition shard_name :: "string \<Rightarrow> nat \<Rightarrow> nat \<Rightarrow> string" where
  "shard_name kind world r = kind @ ''_world_size_'' @ dec world @ ''_rank_'' @ dec r @ ''.pt''"

definition rank_ops ::
    "manager \<Rightarrow> string \<Rightarrow> nat \<Rightarrow> nat \<times> ('m, 'o, 'e) rank \<Rightarrow> ('m, 'o, 'e, 's) fs_op list" where
  "rank_ops mgr p world rw =
     (if ''model'' \<in> set (save_contents mgr)
      then [Put (path_join p (shard_name ''model'' world (fst rw))) (Model_Shard (model_state (snd rw)))] else []) @
     (if ''optimizer'' \<in> set (save_contents mgr)
      then [Put (path_join p (shard_name ''optim'' world (fst rw))) (Optim_Shard (optim_state (snd rw)))] else []) @
     (if ''extra'' \<in> set (save_contents mgr)
      then [Put (path_join p (shard_name ''extra_state'' world (fst rw))) (Extra_State (extra_state (snd rw)))] else [])"

definition fsdp_save_checkpoint ::
    "string \<Rightarrow> ('m, 'o, 'e) rank list \<Rightarrow> string \<Rightarrow> int \<Rightarrow> int option \<Rightarrow> manager \<Rightarrow>
      ('m, 'o, 'e, 's) fs_op list \<times> manager" where
  "fsdp_save_checkpoint cwd ws local_path step keep mgr =
     (let mgr = mgr\<lparr>previous_global_step := Some step\<rparr>;
          (room, mgr) = ensure_checkpoint_capacity keep mgr;
          p = absolute cwd local_path;
          shards = concat (map (rank_ops mgr p (length ws)) (enumerate 0 ws));
          (excess, mgr) = register_checkpoint p keep mgr
      in (remove_previous_save_local_path room @ [Make_Dirs p] @ shards @ remove_previous_save_local_path excess, mgr))"

fun read_model :: "('m, 'o, 'e, 's) node option \<Rightarrow> 'm res" where
  "read_model None = Inl FileNotFoundError"
| "read_model (Some (Model_Shard x)) = Inr x"
| "read_model (Some _) = Inl RuntimeError"

fun read_optim :: "('m, 'o, 'e, 's) node option \<Rightarrow> 'o res" where
  "read_optim None = Inl FileNotFoundError"
| "read_optim (Some (Optim_Shard x)) = Inr x"
| "read_optim (Some _) = Inl RuntimeError"

fun read_extra :: "('m, 'o, 'e, 's) node option \<Rightarrow> 'e res" where
  "read_extra None = Inl FileNotFoundError"
| "read_extra (Some (Extra_State x)) = Inr x"
| "read_extra (Some _) = Inl RuntimeError"

definition load_rank ::
    "manager \<Rightarrow> ('m, 'o, 'e, 's) files \<Rightarrow> string \<Rightarrow> nat \<Rightarrow> nat \<times> ('m, 'o, 'e) rank \<Rightarrow> ('m, 'o, 'e) rank res" where
  "load_rank mgr fs p world rw =
     (let file = \<lambda>kind. fs (path_join p (shard_name kind world (fst rw)));
          w = snd rw
      in bind_res (if ''model'' \<in> set (load_contents mgr) then read_model (file ''model'') else Inr (model_state w)) (\<lambda>m.
         bind_res (if ''optimizer'' \<in> set (load_contents mgr) then read_optim (file ''optim'') else Inr (optim_state w)) (\<lambda>o'.
         bind_res (if ''extra'' \<in> set (load_contents mgr) then read_extra (file ''extra_state'') else Inr (extra_state w)) (\<lambda>e.
         Inr \<lparr>model_state = m, optim_state = o', extra_state = e\<rparr>))))"

definition fsdp_load_checkpoint ::
    "manager \<Rightarrow> ('m, 'o, 'e, 's) files \<Rightarrow> string \<Rightarrow> ('m, 'o, 'e) rank list \<Rightarrow> ('m, 'o, 'e) rank list res" where
  "fsdp_load_checkpoint mgr fs p ws = map_res (load_rank mgr fs p (length ws)) (enumerate 0 ws)"

section \<open>The driver's checkpoints\<close>

record ckpt_config =
  default_local_dir :: string
  default_hdfs_dir :: "string option"
  resume_mode :: string
  resume_from_path :: "string option"
  max_actor_ckpt_to_keep :: "int option"
  max_critic_ckpt_to_keep :: "int option"
  remove_previous_ckpt_in_save :: bool
  async_save :: bool
  use_critic :: bool

definition tracker_name :: "string \<Rightarrow> string" where
  "tracker_name root_path = path_join root_path ''latest_checkpointed_iteration.txt''"

definition step_folder :: "string \<Rightarrow> int \<Rightarrow> string" where
  "step_folder dir n = path_join dir (''global_step_'' @ str_int n)"

definition actor_keep :: "ckpt_config \<Rightarrow> int option" where
  "actor_keep cfg = (if \<not> remove_previous_ckpt_in_save cfg then max_actor_ckpt_to_keep cfg else Some 1)"

definition critic_keep :: "ckpt_config \<Rightarrow> int option" where
  "critic_keep cfg = (if \<not> remove_previous_ckpt_in_save cfg then max_critic_ckpt_to_keep cfg else Some 1)"

text \<open>
  What a save does before the tracker: the actor's files, the critic's, the state of the data loader.  Opening
  the tracker for writing empties it, the step is written when it is closed.
\<close>

definition checkpoint_files ::
    "string \<Rightarrow> ckpt_config \<Rightarrow> int \<Rightarrow> ('m, 'o, 'e) rank list \<Rightarrow> ('m, 'o, 'e) rank list \<Rightarrow> 's \<Rightarrow>
      manager \<Rightarrow> manager \<Rightarrow> ('m, 'o, 'e, 's) fs_op list \<times> manager \<times> manager" where
  "checkpoint_files cwd cfg n actor critic loader amgr cmgr =
     (let folder = step_folder (default_local_dir cfg) n;
          (actor_ops, amgr) = fsdp_save_checkpoint cwd actor (path_join folder ''actor'') n (actor_keep cfg) amgr;
          (critic_ops, cmgr) =
            (if use_critic cfg
             then fsdp_save_checkpoint cwd critic (path_join folder ''critic'') n (critic_keep cfg) cmgr
             else ([], cmgr))
      in (actor_ops @ critic_ops @
          [Make_Dirs (absolute cwd folder), Put (absolute cwd (path_join folder ''data.pt'')) (Loader_State loader)],
          amgr, cmgr))"

definition tracker_ops :: "string \<Rightarrow> ckpt_config \<Rightarrow> int \<Rightarrow> ('m, 'o, 'e, 's) fs_op list" where
  "tracker_ops cwd cfg n =
     (if async_save cfg then []
      else let f = absolute cwd (tracker_name (default_local_dir cfg))
           in [Put f (Text_File []), Put f (Text_File (str_int n))])"

definition save_checkpoint ::
    "string \<Rightarrow> ckpt_config \<Rightarrow> int \<Rightarrow> ('m, 'o, 'e) rank list \<Rightarrow> ('m, 'o, 'e) rank list \<Rightarrow> 's \<Rightarrow>
      manager \<Rightarrow> manager \<Rightarrow> ('m, 'o, 'e, 's) fs_op list \<times> manager \<times> manager" where
  "save_checkpoint cwd cfg n actor critic loader amgr cmgr =
     (let (ops, amgr, cmgr) = checkpoint_files cwd cfg n actor critic loader amgr cmgr
      in (ops @ tracker_ops cwd cfg n, amgr, cmgr))"

text \<open>
  Finding the latest checkpoint, and loading one.  The loaded checkpoint gives the step, the states of the
  workers and, unless the step ends an epoch or there is none, the state for the data loader.
\<close>

definition find_latest_ckpt_path :: "('m, 'o, 'e, 's) files \<Rightarrow> string option \<Rightarrow> string option res" where
  "find_latest_ckpt_path fs path =
     (case path of
        None \<Rightarrow> Inr None
      | Some dir \<Rightarrow>
          (case fs (tracker_name dir) of
             None \<Rightarrow> Inr None
           | Some (Text_File t) \<Rightarrow>
               bind_res (py_int t) (\<lambda>iteration.
                 let ckpt_path = step_folder dir iteration
                 in Inr (if fs ckpt_path = None then None else Some ckpt_path))
           | Some _ \<Rightarrow> Inl RuntimeError))"

definition load_data_state ::
    "('m, 'o, 'e, 's) files \<Rightarrow> string \<Rightarrow> int \<Rightarrow> int \<Rightarrow> 's option res" where
  "load_data_state fs path steps_per_epoch global_steps =
     (case fs path of
        None \<Rightarrow> Inr None
      | Some x \<Rightarrow>
          if 0 < steps_per_epoch \<and> global_steps mod steps_per_epoch = 0 then Inr None
          else case x of Loader_State st \<Rightarrow> Inr (Some st) | _ \<Rightarrow> Inl RuntimeError)"

definition load_folder ::
    "ckpt_config \<Rightarrow> ('m, 'o, 'e, 's) files \<Rightarrow> int \<Rightarrow> manager \<Rightarrow> manager \<Rightarrow> ('m, 'o, 'e) rank list \<Rightarrow>
      ('m, 'o, 'e) rank list \<Rightarrow> string \<Rightarrow> (int \<times> ('m, 'o, 'e) rank list \<times> ('m, 'o, 'e) rank list \<times> 's option) res" where
  "load_folder cfg fs steps_per_epoch amgr cmgr actor critic folder =
     bind_res (py_int (last (split_str ''global_step_'' folder))) (\<lambda>n.
     bind_res (fsdp_load_checkpoint amgr fs (path_join folder ''actor'') actor) (\<lambda>actor'.
     bind_res (if use_critic cfg then fsdp_load_checkpoint cmgr fs (path_join folder ''critic'') critic else Inr critic) (\<lambda>critic'.
     bind_res (load_data_state fs (path_join folder ''data.pt'') steps_per_epoch n) (\<lambda>loader.
     Inr (n, actor', critic', loader)))))"

definition load_checkpoint ::
    "string \<Rightarrow> ckpt_config \<Rightarrow> ('m, 'o, 'e, 's) files \<Rightarrow> int \<Rightarrow> manager \<Rightarrow> manager \<Rightarrow> ('m, 'o, 'e) rank list \<Rightarrow>
      ('m, 'o, 'e) rank list \<Rightarrow> (int \<times> ('m, 'o, 'e) rank list \<times> ('m, 'o, 'e) rank list \<times> 's option) res" where
  "load_checkpoint cwd cfg fs steps_per_epoch amgr cmgr actor critic =
     (if resume_mode cfg = ''disable'' then Inr (0, actor, critic, None)
      else require (default_hdfs_dir cfg = None) NotImplementedError
        (bind_res (find_latest_ckpt_path fs (Some (absolute cwd (default_local_dir cfg)))) (\<lambda>latest.
         if resume_mode cfg = ''auto'' then
           (case latest of
              None \<Rightarrow> Inr (0, actor, critic, None)
            | Some folder \<Rightarrow> load_folder cfg fs steps_per_epoch amgr cmgr actor critic folder)
         else if resume_mode cfg = ''resume_path'' then
           (case resume_from_path cfg of
              None \<Rightarrow> Inl AssertionError
            | Some path \<Rightarrow>
                require (has_substring ''global_step_'' path) AssertionError
                  (load_folder cfg fs steps_per_epoch amgr cmgr actor critic (absolute cwd path)))
         else
           (case latest of
              None \<Rightarrow> Inl AttributeError
            | Some folder \<Rightarrow> load_folder cfg fs steps_per_epoch amgr cmgr actor critic folder))))"

text \<open>
  Whether the rented machine is about to expire: the two environment variables, the first as the number it
  denotes (an inner \<open>None\<close> when it is not a number), and the clock.
\<close>

definition should_save_ckpt_esi ::
    "real option option \<Rightarrow> int option \<Rightarrow> real \<Rightarrow> real \<Rightarrow> real \<Rightarrow> real \<Rightarrow> bool" where
  "should_save_ckpt_esi exp_ts_mlp exp_ts_aws now max_steps_duration save_ckpt_duration redundant_time =
     (case exp_ts_mlp of
        Some None \<Rightarrow> False
      | Some (Some t) \<Rightarrow>
          let remaining = t - now
          in 0 < remaining \<and> 0 < max_steps_duration \<and> remaining \<le> save_ckpt_duration + max_steps_duration + redundant_time
      | None \<Rightarrow>
          (case exp_ts_aws of
             Some t \<Rightarrow>
               let threshold_minutes = (save_ckpt_duration + max_steps_duration + redundant_time) / 60
               in of_int t - now < 60 * threshold_minutes
           | None \<Rightarrow> False))"

section \<open>Paths of checkpoints\<close>

text \<open>
  All paths of a run extend one base, the checkpoint directory with a slash at its end; the folders of two
  steps, and the tracker, lie in different places.
\<close>

definition ckpt_base :: "string \<Rightarrow> ckpt_config \<Rightarrow> string" where
  "ckpt_base cwd cfg = path_join (absolute cwd (default_local_dir cfg)) []"

definition step_path :: "string \<Rightarrow> int \<Rightarrow> string" where
  "step_path b n = b @ ''global_step_'' @ str_int n"

definition role_path :: "string \<Rightarrow> string \<Rightarrow> int \<Rightarrow> string" where
  "role_path b role n = step_path b n @ ''/'' @ role"

definition tracker_path :: "string \<Rightarrow> string" where
  "tracker_path b = b @ ''latest_checkpointed_iteration.txt''"

lemma path_join_rel: "\<not> is_abs b \<Longrightarrow> path_join a b = path_join a [] @ b"
  by (auto simp: path_join_def is_abs_def)

lemma absolute_join: "\<not> is_abs b \<Longrightarrow> absolute cwd (path_join a b) = path_join (absolute cwd a) b"
  by (auto simp: path_join_def absolute_def is_abs_def)

lemma str_int_nonempty [simp]: "str_int n \<noteq> []"
  by (simp add: str_int_def)

lemma last_str_int: "last (str_int n) \<noteq> CHR ''/''"
  using str_int_chars[of "last (str_int n)" n] not_digit by auto

lemma step_path_nonempty [simp]: "step_path b n \<noteq> []" "last (step_path b n) \<noteq> CHR ''/''"
  using last_str_int by (simp_all add: step_path_def)

lemma is_abs_literal [simp]: "is_abs (c # s) \<longleftrightarrow> c = CHR ''/''"
  by (simp add: is_abs_def)

lemma join_step_path:
  "\<not> is_abs x \<Longrightarrow> path_join (step_path b n) x = step_path b n @ ''/'' @ x"
  by (simp add: path_join_def)

lemma ckpt_paths:
  "step_folder (absolute cwd (default_local_dir cfg)) n = step_path (ckpt_base cwd cfg) n"
  "absolute cwd (step_folder (default_local_dir cfg) n) = step_path (ckpt_base cwd cfg) n"
  "tracker_name (absolute cwd (default_local_dir cfg)) = tracker_path (ckpt_base cwd cfg)"
  "absolute cwd (tracker_name (default_local_dir cfg)) = tracker_path (ckpt_base cwd cfg)"
proof -
  show folder: "step_folder (absolute cwd (default_local_dir cfg)) n = step_path (ckpt_base cwd cfg) n"
    by (simp add: step_folder_def step_path_def ckpt_base_def path_join_rel[of "CHR ''g'' # x" for x])
  show "absolute cwd (step_folder (default_local_dir cfg) n) = step_path (ckpt_base cwd cfg) n"
    unfolding folder[symmetric] by (simp add: step_folder_def absolute_join)
  show tracker: "tracker_name (absolute cwd (default_local_dir cfg)) = tracker_path (ckpt_base cwd cfg)"
    by (simp add: tracker_name_def tracker_path_def ckpt_base_def path_join_rel[of "CHR ''l'' # x" for x])
  show "absolute cwd (tracker_name (default_local_dir cfg)) = tracker_path (ckpt_base cwd cfg)"
    unfolding tracker[symmetric] by (simp add: tracker_name_def absolute_join)
qed

lemma ckpt_role_paths:
  assumes "\<not> is_abs x"
  shows "absolute cwd (path_join (step_folder (default_local_dir cfg) n) x) = role_path (ckpt_base cwd cfg) x n"
  using assms by (simp add: absolute_join ckpt_paths join_step_path role_path_def)

lemma str_int_no_slash: "CHR ''/'' \<notin> set (str_int n)"
  using str_int_chars not_digit by fastforce

lemma step_path_prefix:
  assumes "prefix (step_path b n @ ''/'') (step_path b m @ x)" "x = [] \<or> hd x = CHR ''/''"
  shows "m = n"
proof -
  obtain r where r: "str_int m @ x = str_int n @ CHR ''/'' # r"
    using assms(1) by (auto simp: step_path_def prefix_def)
  have "takeWhile (\<lambda>c. c \<noteq> CHR ''/'') (str_int m @ x) = str_int m"
    using str_int_no_slash[of m] assms(2) by (cases x) (auto simp: takeWhile_append2 takeWhile_tail)
  moreover have "takeWhile (\<lambda>c. c \<noteq> CHR ''/'') (str_int n @ CHR ''/'' # r) = str_int n"
    using str_int_no_slash[of n] by (auto simp: takeWhile_append2 takeWhile_tail)
  ultimately show ?thesis
    using r by (metis str_int_eq_iff)
qed

lemma under_iff: "under p q \<longleftrightarrow> (\<exists>x. q = p @ x \<and> (x = [] \<or> hd x = CHR ''/''))"
proof
  show "under p q \<Longrightarrow> \<exists>x. q = p @ x \<and> (x = [] \<or> hd x = CHR ''/'')"
    by (auto simp: under_def prefix_def)
  assume "\<exists>x. q = p @ x \<and> (x = [] \<or> hd x = CHR ''/'')"
  then obtain x where "q = p @ x" "x = [] \<or> hd x = CHR ''/''"
    by blast
  then show "under p q"
    by (cases x) (auto simp: under_def prefix_def)
qed

lemma under_trans: "under p q \<Longrightarrow> under q r \<Longrightarrow> under p r"
  by (auto simp: under_def intro: prefix_order.trans) (metis append_prefixD prefix_order.trans)

lemma under_common:
  assumes "under (step_path b m) q" "under (step_path b n) q"
  shows "m = n"
proof -
  obtain x y where q: "q = step_path b m @ x" "x = [] \<or> hd x = CHR ''/''"
    "q = step_path b n @ y" "y = [] \<or> hd y = CHR ''/''"
    using assms by (metis under_iff)
  show ?thesis
  proof (cases "x = []")
    case True
    then show ?thesis
      using q assms step_path_prefix[of b n m "[]"] by (auto simp: under_def) (auto simp: step_path_def)
  next
    case False
    then have "prefix (step_path b m @ ''/'') (step_path b n @ y)"
      using q by (metis append_Cons append_Nil append_assoc list.exhaust_sel prefixI)
    then show ?thesis
      using step_path_prefix q(4) by metis
  qed
qed

lemma under_step_path:
  "under (step_path b m) (role_path b x n) \<longleftrightarrow> m = n"
  "under (step_path b m) (step_path b n) \<longleftrightarrow> m = n"
proof -
  have "under (step_path b n) (role_path b x n)" "under (step_path b n) (step_path b n)"
    by (auto simp: under_def role_path_def)
  then show "under (step_path b m) (role_path b x n) \<longleftrightarrow> m = n" "under (step_path b m) (step_path b n) \<longleftrightarrow> m = n"
    using under_common by metis+
qed

lemma not_under_tracker:
  "\<not> under (step_path b n) (tracker_path b)" "\<not> under (role_path b x n) (tracker_path b)"
  by (auto simp: under_def step_path_def role_path_def tracker_path_def prefix_def)

section \<open>What a save leaves alone\<close>

text \<open>An operation spares a set of paths if no node there changes.\<close>

definition spares :: "(string \<Rightarrow> bool) \<Rightarrow> ('m, 'o, 'e, 's) fs_op \<Rightarrow> bool" where
  "spares K op \<longleftrightarrow> (\<forall>fs q. K q \<longrightarrow> run_op op fs q = fs q)"

lemma run_ops_simps [simp]:
  "run_ops [] fs = fs"
  "run_ops (op # ops) fs = run_ops ops (run_op op fs)"
  "run_ops (ops @ ops') fs = run_ops ops' (run_ops ops fs)"
  by (simp_all add: run_ops_def)

lemma run_ops_spared: "(\<And>op. op \<in> set ops \<Longrightarrow> spares K op) \<Longrightarrow> K q \<Longrightarrow> run_ops ops fs q = fs q"
proof (induction ops arbitrary: fs)
  case (Cons op ops)
  then have "run_ops ops (run_op op fs) q = run_op op fs q"
    by simp
  then show ?case
    using Cons.prems(1)[of op] Cons.prems(2) by (simp add: spares_def)
qed simp

text \<open>A file that only one value is written to holds it at the end.\<close>

lemma run_ops_put:
  assumes "Put q x \<in> set ops" "\<And>op. op \<in> set ops \<Longrightarrow> op = Put q x \<or> spares (\<lambda>p. p = q) op"
  shows "run_ops ops fs q = Some x"
  using assms
proof (induction ops rule: rev_induct)
  case (snoc op ops)
  show ?case
  proof (cases "op = Put q x")
    case False
    then have "run_ops ops fs q = Some x"
      using snoc by simp
    then show ?thesis
      using False snoc.prems(2)[of op] by (simp add: spares_def)
  qed simp
qed simp

lemma dirs_of_under: "q \<in> set (dirs_of p) \<Longrightarrow> under q p"
proof -
  have "prefix (take i p @ ''/'') p" if "i < length p" "p ! i = CHR ''/''" for i
    using that by (metis take_Suc_conv_app_nth take_is_prefix)
  then show "q \<in> set (dirs_of p) \<Longrightarrow> under q p"
    by (auto simp: dirs_of_def under_def)
qed

lemma spares_intros:
  "\<not> K p \<Longrightarrow> spares K (Put p x)"
  "(\<And>q. K q \<Longrightarrow> \<not> under q p) \<Longrightarrow> spares K (Make_Dirs p)"
  "(\<And>q. K q \<Longrightarrow> \<not> under p q) \<Longrightarrow> spares K (Remove_Tree p)"
  using dirs_of_under by (auto simp: spares_def)

text \<open>The nodes a load in mode \<open>auto\<close> reads when the tracker names step \<open>m\<close>.\<close>

definition kept :: "string \<Rightarrow> int \<Rightarrow> string \<Rightarrow> bool" where
  "kept b m q \<longleftrightarrow> q = tracker_path b \<or> under (step_path b m) q"

lemma not_above_step: "under (step_path b n) p \<Longrightarrow> \<not> under (tracker_path b) p"
  by (auto simp: under_iff step_path_def tracker_path_def)

lemma kept_step: "m \<noteq> n \<Longrightarrow> under (step_path b n) p \<Longrightarrow> kept b m q \<Longrightarrow> \<not> under q p \<and> q \<noteq> p"
  using not_above_step under_trans under_common by (metis kept_def under_def)

lemma spares_kept:
  assumes "m \<noteq> n" "under (step_path b n) p"
  shows "spares (kept b m) (Put p x)" "spares (kept b m) (Make_Dirs p)"
  using kept_step[OF assms] by (auto intro!: spares_intros)

lemma spares_kept_remove: "m \<noteq> j \<Longrightarrow> spares (kept b m) (Remove_Tree (role_path b x j))"
  by (rule spares_intros) (metis kept_def not_under_tracker(2) under_common under_step_path(1) under_trans)

text \<open>
  The saved paths of a manager in a run whose tracker names step \<open>m\<close>: steps in increasing order, none after
  \<open>m\<close>.  A limit other than 1 never removes the folder of the last of them.
\<close>

definition managed :: "string \<Rightarrow> string \<Rightarrow> int \<Rightarrow> manager \<Rightarrow> bool" where
  "managed b role m mgr \<longleftrightarrow>
     (\<exists>steps. previous_saved_paths mgr = map (role_path b role) steps \<and> sorted_wrt (<) steps \<and> (\<forall>j\<in>set steps. j \<le> m))"

lemma take_below_last:
  assumes "sorted_wrt (<) steps" "\<forall>j\<in>set steps. j \<le> (m :: int)" "k < length steps" "j \<in> set (take k steps)"
  shows "j < m"
proof -
  obtain i where "i < k" "j = steps ! i"
    using assms(4) by (auto simp: in_set_conv_nth)
  then show ?thesis
    using assms sorted_wrt_nth_less[of "(<)" steps i k] by (metis nth_mem order_less_le_trans)
qed

lemma ensure_removes:
  assumes "managed b role m mgr" "p \<in> set (fst (ensure_checkpoint_capacity keep mgr))"
  shows "\<exists>j < m. p = role_path b role j"
proof -
  obtain steps where steps: "previous_saved_paths mgr = map (role_path b role) steps"
    "sorted_wrt (<) steps" "\<forall>j\<in>set steps. j \<le> m"
    using assms(1) by (auto simp: managed_def)
  obtain x where x: "1 < x" "x \<le> int (length steps)"
    and p: "p \<in> set (take (nat (int (length steps) - x + 1)) (map (role_path b role) steps))"
    using assms(2) steps(1)
    by (auto simp: ensure_checkpoint_capacity_def Let_def split: option.splits if_splits)
  have "nat (int (length steps) - x + 1) < length steps"
    using x by linarith
  then show ?thesis
    using take_below_last[OF steps(2,3)] p by (auto simp: take_map)
qed

lemma ensure_then_register:
  assumes "keep \<noteq> Some 1"
  shows "fst (register_checkpoint p keep (snd (ensure_checkpoint_capacity keep mgr))) = []"
  using assms by (auto simp: register_checkpoint_def ensure_checkpoint_capacity_def Let_def split: option.splits if_splits)

lemma ensure_contents [simp]:
  "save_contents (snd (ensure_checkpoint_capacity keep mgr)) = save_contents mgr"
  "load_contents (snd (ensure_checkpoint_capacity keep mgr)) = load_contents mgr"
  by (auto simp: ensure_checkpoint_capacity_def Let_def split: option.splits)

text \<open>The operations of one worker group, and the paths it tracks afterwards.\<close>

definition shard_ops ::
    "manager \<Rightarrow> string \<Rightarrow> ('m, 'o, 'e) rank list \<Rightarrow> ('m, 'o, 'e, 's) fs_op list" where
  "shard_ops mgr p ws = concat (map (rank_ops mgr p (length ws)) (enumerate 0 ws))"

lemma rank_ops_cong: "save_contents mgr = save_contents mgr' \<Longrightarrow> rank_ops mgr p world = rank_ops mgr' p world"
  by (auto simp: rank_ops_def fun_eq_iff)

lemma rank_ops_previous_global_step [simp]:
  "rank_ops (mgr\<lparr>previous_global_step := g\<rparr>) p world = rank_ops mgr p world"
  by (rule rank_ops_cong) simp

lemma shard_ops_cong: "save_contents mgr = save_contents mgr' \<Longrightarrow> shard_ops mgr p ws = shard_ops mgr' p ws"
  by (simp add: shard_ops_def rank_ops_cong[of mgr mgr'])

lemma managed_previous_global_step [simp]:
  "managed b role m (mgr\<lparr>previous_global_step := g\<rparr>) = managed b role m mgr"
  by (simp add: managed_def)

lemma fsdp_save_ops:
  assumes "absolute cwd lp = role_path b role n" "managed b role m mgr" "keep \<noteq> Some 1"
  shows "\<exists>room. fst (fsdp_save_checkpoint cwd ws lp n keep mgr) =
      map Remove_Tree room @ [Make_Dirs (role_path b role n)] @ shard_ops mgr (role_path b role n) ws \<and>
      (\<forall>p\<in>set room. \<exists>j < m. p = role_path b role j)"
proof -
  let ?mgr = "mgr\<lparr>previous_global_step := Some n\<rparr>"
  let ?room = "fst (ensure_checkpoint_capacity keep ?mgr)"
  have "shard_ops (snd (ensure_checkpoint_capacity keep ?mgr)) p ws = shard_ops mgr p ws" for p
    by (rule shard_ops_cong) simp
  then have "fst (fsdp_save_checkpoint cwd ws lp n keep mgr) =
    map Remove_Tree ?room @ [Make_Dirs (role_path b role n)] @ shard_ops mgr (role_path b role n) ws"
    using ensure_then_register[OF assms(3), of _ ?mgr] assms(1)
    by (simp add: fsdp_save_checkpoint_def remove_previous_save_local_path_def Let_def split_beta shard_ops_def)
  then show ?thesis
    using ensure_removes[of b role m ?mgr] assms(2) by (intro exI[of _ ?room]) simp
qed

section \<open>Reading back the shards\<close>

definition shard_kinds :: "string list" where
  "shard_kinds = [''model'', ''optim'', ''extra_state'']"

definition roles :: "string list" where
  "roles = [''actor'', ''critic'']"

lemma shard_name_eq_iff:
  "kind \<in> set shard_kinds \<Longrightarrow> kind' \<in> set shard_kinds \<Longrightarrow>
    shard_name kind w r = shard_name kind' w r' \<longleftrightarrow> kind = kind' \<and> r = r'"
  by (auto simp: shard_kinds_def shard_name_def)

text \<open>The path of a shard of a role, and the node stored there.\<close>

definition shard_path :: "string \<Rightarrow> string \<Rightarrow> int \<Rightarrow> string \<Rightarrow> nat \<Rightarrow> nat \<Rightarrow> string" where
  "shard_path b role n kind w r = role_path b role n @ ''/'' @ shard_name kind w r"

lemma join_shard_name:
  assumes "role \<in> set roles" "kind \<in> set shard_kinds"
  shows "path_join (role_path b role n) (shard_name kind w r) = shard_path b role n kind w r"
  using assms by (auto simp: path_join_def shard_path_def roles_def shard_kinds_def role_path_def shard_name_def)

lemma shard_kinds_members [simp]:
  "''model'' \<in> set shard_kinds" "''optim'' \<in> set shard_kinds" "''extra_state'' \<in> set shard_kinds"
  "''actor'' \<in> set roles" "''critic'' \<in> set roles"
  by (simp_all add: shard_kinds_def roles_def)

lemma under_shard_path: "under (step_path b n) (shard_path b role n kind w r)"
  by (auto simp: under_def shard_path_def role_path_def)

definition shard_node :: "string \<Rightarrow> ('m, 'o, 'e) rank \<Rightarrow> ('m, 'o, 'e, 's) node" where
  "shard_node kind w =
     (if kind = ''model'' then Model_Shard (model_state w)
      else if kind = ''optim'' then Optim_Shard (optim_state w) else Extra_State (extra_state w))"

lemma shard_opsD:
  assumes "op \<in> set (shard_ops mgr (role_path b role n) ws)" "role \<in> set roles"
  shows "\<exists>kind\<in>set shard_kinds. \<exists>r<length ws. op = Put (shard_path b role n kind (length ws) r) (shard_node kind (ws ! r))"
proof -
  obtain r where r: "r < length ws" "op \<in> set (rank_ops mgr (role_path b role n) (length ws) (r, ws ! r))"
    using assms(1) by (auto simp: shard_ops_def in_set_enumerate_eq)
  then have "\<exists>kind\<in>set shard_kinds. op = Put (path_join (role_path b role n) (shard_name kind (length ws) r)) (shard_node kind (ws ! r))"
    by (auto simp: rank_ops_def shard_kinds_def shard_node_def split: if_splits)
  then show ?thesis
    using r(1) join_shard_name[OF assms(2)] by metis
qed

definition full_contents :: "manager \<Rightarrow> bool" where
  "full_contents mgr \<longleftrightarrow>
     {''model'', ''optimizer'', ''extra''} \<subseteq> set (save_contents mgr) \<and>
     {''model'', ''optimizer'', ''extra''} \<subseteq> set (load_contents mgr)"

lemma shard_ops_mem:
  assumes "full_contents mgr" "role \<in> set roles" "kind \<in> set shard_kinds" "r < length ws"
  shows "Put (shard_path b role n kind (length ws) r) (shard_node kind (ws ! r)) \<in> set (shard_ops mgr (role_path b role n) ws)"
proof -
  have "Put (path_join (role_path b role n) (shard_name kind (length ws) r)) (shard_node kind (ws ! r))
      \<in> set (rank_ops mgr (role_path b role n) (length ws) (r, ws ! r))"
    using assms(1,3) by (auto simp: rank_ops_def shard_kinds_def shard_node_def full_contents_def)
  moreover have "(r, ws ! r) \<in> set (enumerate 0 ws)"
    using assms(4) by (simp add: in_set_enumerate_eq)
  ultimately show ?thesis
    using join_shard_name[OF assms(2,3)] by (auto simp: shard_ops_def)
qed

lemma load_shards:
  assumes "full_contents mgr" "role \<in> set roles" "length ws0 = length ws"
    "\<And>kind r. kind \<in> set shard_kinds \<Longrightarrow> r < length ws \<Longrightarrow>
      fs (shard_path b role n kind (length ws) r) = Some (shard_node kind (ws ! r))"
  shows "fsdp_load_checkpoint mgr fs (role_path b role n) ws0 = Inr ws"
proof -
  have "fsdp_load_checkpoint mgr fs (role_path b role n) ws0 = Inr (map (\<lambda>rw. ws ! fst rw) (enumerate 0 ws0))"
    unfolding fsdp_load_checkpoint_def
  proof (rule map_res_Inr)
    fix rw
    assume "rw \<in> set (enumerate 0 ws0)"
    then have "fst rw < length ws"
      using assms(3) by (auto simp: in_set_enumerate_eq)
    then show "load_rank mgr fs (role_path b role n) (length ws0) rw = Inr (ws ! fst rw)"
      using assms by (simp add: load_rank_def join_shard_name full_contents_def shard_node_def)
  qed
  also have "map (\<lambda>rw. ws ! fst rw) (enumerate 0 ws0) = ws"
    using assms(3) by (intro nth_equalityI) (simp_all add: nth_enumerate_eq)
  finally show ?thesis .
qed

text \<open>What a file of one role survives: everything a save of the same step does, but for its own write.\<close>

lemma under_length: "under p q \<Longrightarrow> length p \<le> length q"
  by (auto simp: under_def dest: prefix_length_le)

lemma spares_shard:
  assumes "role \<in> set roles" "role' \<in> set roles" "kind \<in> set shard_kinds"
  shows "spares (\<lambda>p. p = shard_path b role n kind w r) (Make_Dirs (role_path b role' n))"
    and "spares (\<lambda>p. p = shard_path b role n kind w r) (Make_Dirs (step_path b n))"
    and "j \<noteq> n \<Longrightarrow> spares (\<lambda>p. p = shard_path b role n kind w r) (Remove_Tree (role_path b role' j))"
    and "spares (\<lambda>p. p = shard_path b role n kind w r) (Put (tracker_path b) x)"
    and "spares (\<lambda>p. p = shard_path b role n kind w r) (Put (role_path b ''data.pt'' n) x)"
    and "kind' \<in> set shard_kinds \<Longrightarrow> role' \<noteq> role \<Longrightarrow>
      spares (\<lambda>p. p = shard_path b role n kind w r) (Put (shard_path b role' n kind' w' r') x)"
proof -
  let ?q = "shard_path b role n kind w r"
  have long: "length (role_path b role' n) < length ?q" "length (step_path b n) < length ?q"
    using assms by (auto simp: shard_path_def role_path_def roles_def shard_kinds_def shard_name_def)
  show "spares (\<lambda>p. p = ?q) (Make_Dirs (role_path b role' n))" "spares (\<lambda>p. p = ?q) (Make_Dirs (step_path b n))"
    using long by (auto intro!: spares_intros dest!: under_length)
  show "spares (\<lambda>p. p = ?q) (Remove_Tree (role_path b role' j))" if "j \<noteq> n"
    using that under_shard_path[of b n role kind w r]
    by (intro spares_intros) (metis under_common under_step_path(1) under_trans)
  show "spares (\<lambda>p. p = ?q) (Put (tracker_path b) x)"
    using under_shard_path not_under_tracker by (intro spares_intros) metis
  show "spares (\<lambda>p. p = ?q) (Put (role_path b ''data.pt'' n) x)"
    "kind' \<in> set shard_kinds \<Longrightarrow> role' \<noteq> role \<Longrightarrow> spares (\<lambda>p. p = ?q) (Put (shard_path b role' n kind' w' r') x)"
    using assms by (auto intro!: spares_intros simp: shard_path_def role_path_def roles_def)
qed

section \<open>A save and the load after it\<close>

lemma join_role: "\<not> is_abs x \<Longrightarrow> path_join (step_path b n) x = role_path b x n"
  by (simp add: join_step_path role_path_def)

lemma fsdp_save_role:
  assumes "\<not> is_abs role" "managed (ckpt_base cwd cfg) role m mgr" "keep \<noteq> Some 1"
  shows "\<exists>room. fst (fsdp_save_checkpoint cwd ws (path_join (step_folder (default_local_dir cfg) n) role) n keep mgr) =
      map Remove_Tree room @ [Make_Dirs (role_path (ckpt_base cwd cfg) role n)] @
        shard_ops mgr (role_path (ckpt_base cwd cfg) role n) ws \<and>
      (\<forall>p\<in>set room. \<exists>j < m. p = role_path (ckpt_base cwd cfg) role j)"
  by (rule fsdp_save_ops[OF ckpt_role_paths[OF assms(1)] assms(2,3)])

lemma checkpoint_files_shape:
  assumes "managed (ckpt_base cwd cfg) ''actor'' m amgr" "managed (ckpt_base cwd cfg) ''critic'' m cmgr"
    "actor_keep cfg \<noteq> Some 1" "critic_keep cfg \<noteq> Some 1"
  defines "b \<equiv> ckpt_base cwd cfg"
  shows "\<exists>ra rc. fst (checkpoint_files cwd cfg n actor critic st amgr cmgr) =
      (map Remove_Tree ra @ [Make_Dirs (role_path b ''actor'' n)] @ shard_ops amgr (role_path b ''actor'' n) actor) @
      (if use_critic cfg
       then map Remove_Tree rc @ [Make_Dirs (role_path b ''critic'' n)] @ shard_ops cmgr (role_path b ''critic'' n) critic
       else []) @
      [Make_Dirs (step_path b n), Put (role_path b ''data.pt'' n) (Loader_State st)] \<and>
      (\<forall>p\<in>set ra. \<exists>j < m. p = role_path b ''actor'' j) \<and> (\<forall>p\<in>set rc. \<exists>j < m. p = role_path b ''critic'' j)"
proof -
  let ?dir = "default_local_dir cfg"
  obtain ra where ra: "fst (fsdp_save_checkpoint cwd actor (path_join (step_folder ?dir n) ''actor'') n (actor_keep cfg) amgr) =
      map Remove_Tree ra @ [Make_Dirs (role_path b ''actor'' n)] @
      (shard_ops amgr (role_path b ''actor'' n) actor :: ('a, 'b, 'c, 'd) fs_op list)"
    "\<forall>p\<in>set ra. \<exists>j < m. p = role_path b ''actor'' j"
    using fsdp_save_role[OF _ assms(1,3), of actor n] unfolding b_def by (auto simp del: append.simps)
  obtain rc where rc: "fst (fsdp_save_checkpoint cwd critic (path_join (step_folder ?dir n) ''critic'') n (critic_keep cfg) cmgr) =
      map Remove_Tree rc @ [Make_Dirs (role_path b ''critic'' n)] @
      (shard_ops cmgr (role_path b ''critic'' n) critic :: ('a, 'b, 'c, 'd) fs_op list)"
    "\<forall>p\<in>set rc. \<exists>j < m. p = role_path b ''critic'' j"
    using fsdp_save_role[OF _ assms(2,4), of critic n] unfolding b_def by (auto simp del: append.simps)
  show ?thesis
    using ra rc ckpt_paths(2)[of cwd cfg n] ckpt_role_paths[of "''data.pt''" cwd cfg n]
    unfolding checkpoint_files_def Let_def split_beta b_def
    by (intro exI[of _ ra] exI[of _ rc]) simp
qed

text \<open>Before the tracker changes, nothing a load of the previous checkpoint reads has changed.\<close>

lemma shard_ops_spare_kept:
  assumes "m \<noteq> n" "role \<in> set roles" "op \<in> set (shard_ops mgr (role_path b role n) ws)"
  shows "spares (kept b m) op"
  using shard_opsD[OF assms(3,2)] spares_kept(1)[OF assms(1) under_shard_path] by blast

lemma checkpoint_files_op:
  assumes "managed (ckpt_base cwd cfg) ''actor'' m amgr" "managed (ckpt_base cwd cfg) ''critic'' m cmgr"
    "actor_keep cfg \<noteq> Some 1" "critic_keep cfg \<noteq> Some 1"
    "op \<in> set (fst (checkpoint_files cwd cfg n actor critic st amgr cmgr))"
  defines "b \<equiv> ckpt_base cwd cfg"
  obtains (remove) j role where "j < m" "role \<in> set roles" "op = Remove_Tree (role_path b role j)"
    | (role_dirs) role where "role \<in> set roles" "op = Make_Dirs (role_path b role n)"
    | (step_dirs) "op = Make_Dirs (step_path b n)"
    | (data) "op = Put (role_path b ''data.pt'' n) (Loader_State st)"
    | (shards) role where "role \<in> set roles"
        "op \<in> set (shard_ops (if role = ''actor'' then amgr else cmgr) (role_path b role n)
          (if role = ''actor'' then actor else critic))"
proof -
  obtain ra rc where ops: "fst (checkpoint_files cwd cfg n actor critic st amgr cmgr) =
      (map Remove_Tree ra @ [Make_Dirs (role_path b ''actor'' n)] @ shard_ops amgr (role_path b ''actor'' n) actor) @
      (if use_critic cfg
       then map Remove_Tree rc @ [Make_Dirs (role_path b ''critic'' n)] @ shard_ops cmgr (role_path b ''critic'' n) critic
       else []) @
      [Make_Dirs (step_path b n), Put (role_path b ''data.pt'' n) (Loader_State st)]"
    and r: "\<forall>p\<in>set ra. \<exists>j < m. p = role_path b ''actor'' j" "\<forall>p\<in>set rc. \<exists>j < m. p = role_path b ''critic'' j"
    using checkpoint_files_shape[OF assms(1-4), of n actor critic st] unfolding b_def by metis
  consider (a) p where "op = Remove_Tree p" "p \<in> set ra \<union> set rc"
    | (b) "op = Make_Dirs (role_path b ''actor'' n)" | (c) "op = Make_Dirs (role_path b ''critic'' n)"
    | (d) "op = Make_Dirs (step_path b n)" | (e) "op = Put (role_path b ''data.pt'' n) (Loader_State st)"
    | (f) "op \<in> set (shard_ops amgr (role_path b ''actor'' n) actor)"
    | (g) "op \<in> set (shard_ops cmgr (role_path b ''critic'' n) critic)"
    using assms(5) unfolding ops by (auto split: if_splits)
  then show ?thesis
  proof cases
    case a
    then show ?thesis using r remove by (metis UnE shard_kinds_members(4,5))
  next
    case b
    then show ?thesis using role_dirs[of "''actor''"] by simp
  next
    case c
    then show ?thesis using role_dirs[of "''critic''"] by simp
  next
    case f
    then show ?thesis using shards[of "''actor''"] by simp
  next
    case g
    then show ?thesis using shards[of "''critic''"] by simp
  qed (use step_dirs data in auto)
qed

lemma checkpoint_files_spare:
  assumes "managed (ckpt_base cwd cfg) ''actor'' m amgr" "managed (ckpt_base cwd cfg) ''critic'' m cmgr"
    "actor_keep cfg \<noteq> Some 1" "critic_keep cfg \<noteq> Some 1" "m < n"
    "op \<in> set (fst (checkpoint_files cwd cfg n actor critic st amgr cmgr))"
  shows "spares (kept (ckpt_base cwd cfg) m) op"
proof -
  let ?b = "ckpt_base cwd cfg"
  have ne: "m \<noteq> n" and un: "under (step_path ?b n) (step_path ?b n)" "\<And>x. under (step_path ?b n) (role_path ?b x n)"
    using assms(5) by (simp_all add: under_step_path)
  from assms(1-4,6) show ?thesis
  proof (cases rule: checkpoint_files_op)
    case (remove j role)
    then show ?thesis using spares_kept_remove[of m j ?b role] by simp
  next
    case (role_dirs role)
    then show ?thesis using spares_kept(2)[OF ne un(2)] by simp
  next
    case step_dirs
    then show ?thesis using spares_kept(2)[OF ne un(1)] by simp
  next
    case data
    then show ?thesis using spares_kept(1)[OF ne un(2)] by simp
  next
    case (shards role)
    then show ?thesis using shard_ops_spare_kept[OF ne] by blast
  qed
qed

lemma load_kept:
  assumes "resume_mode cfg = ''auto''" "\<And>q. kept (ckpt_base cwd cfg) m q \<Longrightarrow> fs' q = fs q"
    "fs (tracker_path (ckpt_base cwd cfg)) \<in> {None, Some (Text_File (str_int m))}"
  shows "load_checkpoint cwd cfg fs' L amgr cmgr actor critic = load_checkpoint cwd cfg fs L amgr cmgr actor critic"
proof -
  let ?b = "ckpt_base cwd cfg"
  have files: "fs' (path_join (role_path ?b role m) (shard_name kind w r)) = fs (path_join (role_path ?b role m) (shard_name kind w r))"
    if "role \<in> set roles" "kind \<in> set shard_kinds" for role kind w r
    using that assms(2) under_shard_path by (simp add: join_shard_name kept_def)
  have rank: "load_rank mgr fs' (role_path ?b role m) w = load_rank mgr fs (role_path ?b role m) w"
    if "role \<in> set roles" for mgr role w
    using files[OF that] by (simp add: load_rank_def fun_eq_iff)
  have folder: "load_folder cfg fs' L amgr cmgr actor critic (step_path ?b m) =
    load_folder cfg fs L amgr cmgr actor critic (step_path ?b m)"
    using assms(2)[of "role_path ?b ''data.pt'' m"] rank[of "''actor''"] rank[of "''critic''"]
    by (simp add: load_folder_def fsdp_load_checkpoint_def join_role load_data_state_def kept_def under_step_path)
  have "fs' (tracker_path ?b) = fs (tracker_path ?b)" "fs' (step_path ?b m) = fs (step_path ?b m)"
    using assms(2) by (simp_all add: kept_def under_step_path)
  then show ?thesis
    using assms(1,3) folder by (auto simp: load_checkpoint_def find_latest_ckpt_path_def ckpt_paths Let_def)
qed

text \<open>After it, every file of the new checkpoint holds what was saved.\<close>

lemma save_checkpoint_ops:
  assumes "\<not> async_save cfg"
  shows "fst (save_checkpoint cwd cfg n actor critic st amgr cmgr) =
      fst (checkpoint_files cwd cfg n actor critic st amgr cmgr) @
      [Put (tracker_path (ckpt_base cwd cfg)) (Text_File []), Put (tracker_path (ckpt_base cwd cfg)) (Text_File (str_int n))]"
  using assms by (simp add: save_checkpoint_def split_beta tracker_ops_def ckpt_paths Let_def)

lemma shard_op_or_spare:
  assumes "role \<in> set roles" "kind \<in> set shard_kinds" "role' \<in> set roles"
    "op \<in> set (shard_ops mgr (role_path b role' n) ws')" "role' = role \<Longrightarrow> ws' = ws"
  shows "op = Put (shard_path b role n kind (length ws) r) (shard_node kind (ws ! r)) \<or>
    spares (\<lambda>p. p = shard_path b role n kind (length ws) r) op"
proof (cases "role' = role")
  case True
  obtain kind' r' where k: "kind' \<in> set shard_kinds"
    "op = Put (shard_path b role n kind' (length ws) r') (shard_node kind' (ws ! r'))"
    using shard_opsD[OF assms(4,3)] True assms(5) by auto
  show ?thesis
  proof (cases "kind' = kind \<and> r' = r")
    case False
    then have "shard_path b role n kind' (length ws) r' \<noteq> shard_path b role n kind (length ws) r"
      using k(1) assms(2) shard_name_eq_iff by (auto simp: shard_path_def)
    then show ?thesis
      unfolding k(2) by (auto intro!: spares_intros)
  qed (use k(2) in simp)
next
  case False
  then show ?thesis
    using shard_opsD[OF assms(4,3)] spares_shard(6)[OF assms(1,3,2)] by metis
qed

lemma save_checkpoint_shard:
  fixes fs :: "('m, 'o, 'e, 's) files"
  assumes "managed (ckpt_base cwd cfg) ''actor'' m amgr" "managed (ckpt_base cwd cfg) ''critic'' m cmgr"
    "actor_keep cfg \<noteq> Some 1" "critic_keep cfg \<noteq> Some 1" "m < n" "\<not> async_save cfg"
    "role \<in> set roles" "role = ''critic'' \<longrightarrow> use_critic cfg" "kind \<in> set shard_kinds"
    "mgr = (if role = ''actor'' then amgr else cmgr)" "ws = (if role = ''actor'' then actor else critic)"
    "full_contents mgr" "r < length ws"
  shows "run_ops (fst (save_checkpoint cwd cfg n actor critic st amgr cmgr)) fs
      (shard_path (ckpt_base cwd cfg) role n kind (length ws) r) = Some (shard_node kind (ws ! r))"
proof (rule run_ops_put)
  let ?b = "ckpt_base cwd cfg"
  have mem: "(Put (shard_path ?b role n kind (length ws) r) (shard_node kind (ws ! r)) :: ('m, 'o, 'e, 's) fs_op)
      \<in> set (shard_ops mgr (role_path ?b role n) ws)"
    by (rule shard_ops_mem[OF assms(12,7,9,13)])
  obtain ra rc where ops: "fst (checkpoint_files cwd cfg n actor critic st amgr cmgr) =
      (map Remove_Tree ra @ [Make_Dirs (role_path ?b ''actor'' n)] @ shard_ops amgr (role_path ?b ''actor'' n) actor) @
      (if use_critic cfg
       then map Remove_Tree rc @ [Make_Dirs (role_path ?b ''critic'' n)] @ shard_ops cmgr (role_path ?b ''critic'' n) critic
       else []) @
      [Make_Dirs (step_path ?b n), Put (role_path ?b ''data.pt'' n) (Loader_State st)]"
    using checkpoint_files_shape[OF assms(1-4), of n actor critic st] by metis
  consider "role = ''actor''" "mgr = amgr" "ws = actor"
    | "role = ''critic''" "mgr = cmgr" "ws = critic" "use_critic cfg"
    using assms(7,8,10,11) by (auto simp: roles_def)
  then show "Put (shard_path ?b role n kind (length ws) r) (shard_node kind (ws ! r))
      \<in> set (fst (save_checkpoint cwd cfg n actor critic st amgr cmgr))"
    unfolding save_checkpoint_ops[OF assms(6)] ops by cases (use mem in simp_all)
next
  let ?b = "ckpt_base cwd cfg"
  fix op
  assume "op \<in> set (fst (save_checkpoint cwd cfg n actor critic st amgr cmgr))"
  then consider (tracker) x where "op = Put (tracker_path ?b) x"
    | (files) "op \<in> set (fst (checkpoint_files cwd cfg n actor critic st amgr cmgr))"
    by (auto simp: save_checkpoint_ops[OF assms(6)])
  then show "op = Put (shard_path ?b role n kind (length ws) r) (shard_node kind (ws ! r)) \<or>
      spares (\<lambda>p. p = shard_path ?b role n kind (length ws) r) op"
  proof cases
    case tracker
    then show ?thesis by (simp add: spares_shard(4)[OF assms(7,7,9)])
  next
    case files
    with assms(1-4) show ?thesis
    proof (cases rule: checkpoint_files_op)
      case (shards role')
      show ?thesis
        by (rule shard_op_or_spare[OF assms(7,9) shards]) (simp add: assms(11))
    qed (use assms(5) in \<open>auto simp: spares_shard[OF assms(7) _ assms(9)] spares_shard(2,5)[OF assms(7,7,9)]\<close>)
  qed
qed

lemma save_checkpoint_end:
  assumes "\<not> async_save cfg"
  shows "run_ops (fst (save_checkpoint cwd cfg n actor critic st amgr cmgr)) fs (tracker_path (ckpt_base cwd cfg)) =
      Some (Text_File (str_int n))"
    and "run_ops (fst (save_checkpoint cwd cfg n actor critic st amgr cmgr)) fs (role_path (ckpt_base cwd cfg) ''data.pt'' n) =
      Some (Loader_State st)"
    and "run_ops (fst (save_checkpoint cwd cfg n actor critic st amgr cmgr)) fs (step_path (ckpt_base cwd cfg) n) \<noteq> None"
proof -
  let ?b = "ckpt_base cwd cfg"
  have "\<exists>pre. fst (checkpoint_files cwd cfg n actor critic st amgr cmgr) =
      pre @ [Make_Dirs (step_path ?b n), Put (role_path ?b ''data.pt'' n) (Loader_State st)]"
    by (simp add: checkpoint_files_def split_beta Let_def ckpt_paths ckpt_role_paths)
  then obtain pre where pre: "fst (checkpoint_files cwd cfg n actor critic st amgr cmgr) =
      pre @ [Make_Dirs (step_path ?b n), Put (role_path ?b ''data.pt'' n) (Loader_State st)]"
    by blast
  have ne: "tracker_path ?b \<noteq> role_path ?b ''data.pt'' n" "tracker_path ?b \<noteq> step_path ?b n"
    using not_under_tracker under_step_path by metis+
  show "run_ops (fst (save_checkpoint cwd cfg n actor critic st amgr cmgr)) fs (tracker_path ?b) = Some (Text_File (str_int n))"
    and "run_ops (fst (save_checkpoint cwd cfg n actor critic st amgr cmgr)) fs (role_path ?b ''data.pt'' n) = Some (Loader_State st)"
    and "run_ops (fst (save_checkpoint cwd cfg n actor critic st amgr cmgr)) fs (step_path ?b n) \<noteq> None"
    using ne by (auto simp: save_checkpoint_ops[OF assms] pre dirs_of_def role_path_def)
qed

lemma parse_step_path [simp]: "py_int (last (split_str ''global_step_'' (step_path b n))) = Inr n"
proof -
  have "CHR ''g'' \<notin> set (str_int n)"
    using str_int_chars not_digit by fastforce
  then have "last (split_str (CHR ''g'' # ''lobal_step_'') (b @ (CHR ''g'' # ''lobal_step_'') @ str_int n)) = str_int n"
    by (intro last_split_str) simp_all
  then show ?thesis
    by (simp add: step_path_def)
qed

lemma retention_drops:
  "\<exists>k. previous_saved_paths (snd (ensure_checkpoint_capacity keep mgr)) = drop k (previous_saved_paths mgr)"
  "\<exists>k. previous_saved_paths (snd (register_checkpoint p keep mgr)) = drop k (previous_saved_paths mgr @ [p])"
proof -
  let ?xs = "previous_saved_paths mgr" and ?ys = "previous_saved_paths mgr @ [p]"
  have "previous_saved_paths (snd (ensure_checkpoint_capacity keep mgr)) \<in>
      {?xs, drop (nat (int (length ?xs) - the keep + 1)) ?xs}"
    by (auto simp: ensure_checkpoint_capacity_def Let_def split: option.splits)
  then show "\<exists>k. previous_saved_paths (snd (ensure_checkpoint_capacity keep mgr)) = drop k ?xs"
    by (metis drop_0 insertE singletonD)
  have "previous_saved_paths (snd (register_checkpoint p keep mgr)) \<in>
      {?ys, drop (nat (int (length ?ys) - the keep)) ?ys}"
    by (auto simp: register_checkpoint_def Let_def split: option.splits)
  then show "\<exists>k. previous_saved_paths (snd (register_checkpoint p keep mgr)) = drop k ?ys"
    by (metis drop_0 insertE singletonD)
qed

lemma managed_after_save:
  assumes "absolute cwd lp = role_path b role n" "managed b role m mgr" "m < n"
  shows "managed b role n (snd (fsdp_save_checkpoint cwd ws lp n keep mgr))"
proof -
  obtain steps where steps: "previous_saved_paths mgr = map (role_path b role) steps"
    "sorted_wrt (<) steps" "\<forall>j\<in>set steps. j \<le> m"
    using assms(2) by (auto simp: managed_def)
  let ?mgr = "snd (ensure_checkpoint_capacity keep (mgr\<lparr>previous_global_step := Some n\<rparr>))"
  obtain k where k: "previous_saved_paths ?mgr = map (role_path b role) (drop k steps)"
    using steps(1) retention_drops(1)[of keep "mgr\<lparr>previous_global_step := Some n\<rparr>"] by (auto simp: drop_map)
  obtain l where "previous_saved_paths (snd (register_checkpoint (role_path b role n) keep ?mgr)) =
      drop l (previous_saved_paths ?mgr @ [role_path b role n])"
    using retention_drops(2) by blast
  also have "\<dots> = map (role_path b role) (drop l (drop k steps @ [n]))"
    unfolding k by (simp only: drop_map[symmetric] map_append list.map)
  finally have "previous_saved_paths (snd (fsdp_save_checkpoint cwd ws lp n keep mgr)) =
      map (role_path b role) (drop l (drop k steps @ [n]))"
    using assms(1) by (simp only: fsdp_save_checkpoint_def split_beta Let_def snd_conv)
  moreover have "sorted_wrt (<) (drop l (drop k steps @ [n]))" "\<forall>j\<in>set (drop l (drop k steps @ [n])). j \<le> n"
    using steps(2,3) assms(3)
    by (force intro!: sorted_wrt_drop simp del: drop_append simp: sorted_wrt_append dest!: in_set_dropD)+
  ultimately show ?thesis
    unfolding managed_def by blast
qed

definition resumed ::
    "ckpt_config \<Rightarrow> int \<Rightarrow> int \<Rightarrow> ('m, 'o, 'e) rank list \<Rightarrow> ('m, 'o, 'e) rank list \<Rightarrow> 's \<Rightarrow> ('m, 'o, 'e) rank list \<Rightarrow>
      int \<times> ('m, 'o, 'e) rank list \<times> ('m, 'o, 'e) rank list \<times> 's option" where
  "resumed cfg L n actor critic st critic0 =
     (n, actor, if use_critic cfg then critic else critic0, if 0 < L \<and> n mod L = 0 then None else Some st)"

lemma load_after_save:
  assumes "resume_mode cfg = ''auto''" "default_hdfs_dir cfg = None" "\<not> async_save cfg"
    "managed (ckpt_base cwd cfg) ''actor'' m amgr" "managed (ckpt_base cwd cfg) ''critic'' m cmgr"
    "actor_keep cfg \<noteq> Some 1" "critic_keep cfg \<noteq> Some 1" "m < n"
    "full_contents amgr" "full_contents cmgr" "full_contents amgr0" "full_contents cmgr0"
    "length actor0 = length actor" "length critic0 = length critic"
  shows "load_checkpoint cwd cfg (run_ops (fst (save_checkpoint cwd cfg n actor critic st amgr cmgr)) fs) L amgr0 cmgr0 actor0 critic0 =
    Inr (resumed cfg L n actor critic st critic0)"
proof -
  let ?b = "ckpt_base cwd cfg"
  let ?fs = "run_ops (fst (save_checkpoint cwd cfg n actor critic st amgr cmgr)) fs"
  have "fsdp_load_checkpoint amgr0 ?fs (role_path ?b ''actor'' n) actor0 = Inr actor"
    by (rule load_shards[OF assms(11) _ assms(13)], simp, rule save_checkpoint_shard[OF assms(4-8,3)]) (use assms(9) in simp_all)
  moreover have "use_critic cfg \<Longrightarrow> fsdp_load_checkpoint cmgr0 ?fs (role_path ?b ''critic'' n) critic0 = Inr critic"
    by (rule load_shards[OF assms(12) _ assms(14)], simp, rule save_checkpoint_shard[OF assms(4-8,3)]) (use assms(10) in simp_all)
  ultimately have "load_folder cfg ?fs L amgr0 cmgr0 actor0 critic0 (step_path ?b n) = Inr (resumed cfg L n actor critic st critic0)"
    by (simp add: load_folder_def join_role load_data_state_def save_checkpoint_end[OF assms(3)] resumed_def)
  moreover have "?fs (step_path ?b n) \<noteq> None"
    by (rule save_checkpoint_end(3)[OF assms(3)])
  ultimately show ?thesis
    using assms(1,2)
    by (auto simp: load_checkpoint_def find_latest_ckpt_path_def ckpt_paths Let_def save_checkpoint_end(1)[OF assms(3)])
qed

section \<open>A process that dies during a save\<close>

text \<open>
  C38. A save in a run that resumes automatically, for limits other than 1: killed before the tracker is opened,
  it leaves the result of a load as it was; killed between opening and closing it, the next load raises
  \<open>ValueError\<close>, since the tracker is empty; after that a load gives the saved step and the saved states, and
  the state of the data loader unless the step ends an epoch.
\<close>

theorem save_crash_points:
  assumes "resume_mode cfg = ''auto''" "default_hdfs_dir cfg = None" "\<not> async_save cfg"
    and "actor_keep cfg \<noteq> Some 1" "critic_keep cfg \<noteq> Some 1"
    and "managed (ckpt_base cwd cfg) ''actor'' m amgr" "managed (ckpt_base cwd cfg) ''critic'' m cmgr" "m < n"
    and "fs (tracker_path (ckpt_base cwd cfg)) \<in> {None, Some (Text_File (str_int m))}"
    and "full_contents amgr" "full_contents cmgr" "full_contents amgr0" "full_contents cmgr0"
    and "length actor0 = length actor" "length critic0 = length critic"
    and "files = fst (checkpoint_files cwd cfg n actor critic st amgr cmgr)"
  shows "load_checkpoint cwd cfg (run_ops (take k (fst (save_checkpoint cwd cfg n actor critic st amgr cmgr))) fs)
      L amgr0 cmgr0 actor0 critic0 =
    (if k \<le> length files then load_checkpoint cwd cfg fs L amgr0 cmgr0 actor0 critic0
     else if k = Suc (length files) then Inl ValueError
     else Inr (resumed cfg L n actor critic st critic0))"
proof -
  let ?b = "ckpt_base cwd cfg"
  note ops = save_checkpoint_ops[OF assms(3), of cwd n actor critic st amgr cmgr, folded assms(16)]
  consider "k \<le> length files" | "k = Suc (length files)" | "Suc (Suc (length files)) \<le> k"
    by linarith
  then show ?thesis
  proof cases
    case 1
    have "spares (kept ?b m) op" if "op \<in> set (take k files)" for op
      by (rule checkpoint_files_spare[OF assms(6,7,4,5,8)]) (use that assms(16) in \<open>auto dest: in_set_takeD\<close>)
    then have "run_ops (take k files) fs q = fs q" if "kept ?b m q" for q
      using that by (rule run_ops_spared)
    then have "load_checkpoint cwd cfg (run_ops (take k files) fs) L amgr0 cmgr0 actor0 critic0 =
        load_checkpoint cwd cfg fs L amgr0 cmgr0 actor0 critic0"
      by (intro load_kept[OF assms(1), where m = m]) (use assms(9) in auto)
    then show ?thesis
      using 1 unfolding ops by simp
  next
    case 2
    then show ?thesis
      using assms(1,2) unfolding ops
      by (simp add: load_checkpoint_def find_latest_ckpt_path_def ckpt_paths py_int_def strip_def)
  next
    case 3
    then have "take k (fst (save_checkpoint cwd cfg n actor critic st amgr cmgr)) = fst (save_checkpoint cwd cfg n actor critic st amgr cmgr)"
      unfolding ops by simp
    then show ?thesis
      using 3 load_after_save[OF assms(1-3,6,7,4,5,8,10-15)] by simp
  qed
qed

text \<open>The operations of the actor's save alone, and trees that are removed.\<close>

definition actor_ops ::
    "string \<Rightarrow> ckpt_config \<Rightarrow> int \<Rightarrow> ('m, 'o, 'e) rank list \<Rightarrow> manager \<Rightarrow> ('m, 'o, 'e, 's) fs_op list" where
  "actor_ops cwd cfg n actor amgr =
     fst (fsdp_save_checkpoint cwd actor (path_join (step_folder (default_local_dir cfg) n) ''actor'') n (actor_keep cfg) amgr)"

lemma run_ops_none:
  assumes "fs q = None" "\<And>op. op \<in> set ops \<Longrightarrow> \<exists>p. op = Remove_Tree p"
  shows "run_ops ops fs q = None"
  using assms
proof (induction ops arbitrary: fs)
  case (Cons op ops)
  then obtain p where "op = Remove_Tree p"
    by auto
  then show ?case
    using Cons by simp
qed simp

lemma removed_tree:
  fixes fs :: "('m, 'o, 'e, 's) files"
  assumes "p \<in> set ps" "under p q" "fs p = None \<Longrightarrow> fs q = None"
  shows "run_ops (map Remove_Tree ps) fs q = None"
proof -
  have gone: "fs p = None \<longrightarrow> fs q = None \<Longrightarrow> run_op (Remove_Tree p') fs p = None \<longrightarrow> run_op (Remove_Tree p') fs q = None"
    for fs :: "('m, 'o, 'e, 's) files" and p'
    by (auto intro: under_trans[OF _ assms(2)])
  show ?thesis
    using assms(1,3)
  proof (induction ps arbitrary: fs)
    case (Cons p' ps)
    show ?case
    proof (cases "p \<in> set ps")
      case True
      then show ?thesis
        using Cons.IH[OF True, of "run_op (Remove_Tree p') fs"] gone[of fs p'] Cons.prems(2) by simp
    next
      case False
      then have "run_op (Remove_Tree p') fs q = None"
        using Cons.prems assms(2) by auto
      then show ?thesis
        unfolding list.map run_ops_simps by (rule run_ops_none) auto
    qed
  qed simp
qed

lemma actor_ops_limit_one:
  assumes "actor_keep cfg = Some 1"
  shows "actor_ops cwd cfg n actor amgr =
    Make_Dirs (role_path (ckpt_base cwd cfg) ''actor'' n) #
    shard_ops amgr (role_path (ckpt_base cwd cfg) ''actor'' n) actor @ map Remove_Tree (previous_saved_paths amgr)"
  using assms
  by (simp add: actor_ops_def fsdp_save_checkpoint_def ensure_checkpoint_capacity_def register_checkpoint_def
      remove_previous_save_local_path_def ckpt_role_paths shard_ops_def Let_def split_beta)

lemma actor_ops_prefix:
  fixes actor :: "('m, 'o, 'e) rank list" and st :: 's
  shows "take (length (actor_ops cwd cfg n actor amgr :: ('m, 'o, 'e, 's) fs_op list))
      (fst (save_checkpoint cwd cfg n actor critic st amgr cmgr)) = actor_ops cwd cfg n actor amgr"
  by (simp add: save_checkpoint_def checkpoint_files_def actor_ops_def split_beta Let_def)


text \<open>A run with one rank and a relative checkpoint directory, for the witnesses.\<close>

definition example_cfg :: "int option \<Rightarrow> ckpt_config" where
  "example_cfg keep =
     \<lparr>default_local_dir = ''ckpt'', default_hdfs_dir = None, resume_mode = ''auto'', resume_from_path = None,
      max_actor_ckpt_to_keep = keep, max_critic_ckpt_to_keep = keep, remove_previous_ckpt_in_save = False,
      async_save = False, use_critic = False\<rparr>"

definition example_manager :: "string list \<Rightarrow> manager" where
  "example_manager paths =
     \<lparr>save_contents = [''model'', ''optimizer'', ''extra''], load_contents = [''model'', ''optimizer'', ''extra''],
      previous_global_step = None, previous_saved_paths = paths\<rparr>"

definition example_rank :: "nat \<Rightarrow> (nat, nat, nat) rank" where
  "example_rank x = \<lparr>model_state = x, optim_state = x + 1, extra_state = x + 2\<rparr>"

lemma example_manager_ok [simp]:
  "full_contents (example_manager paths)" "previous_saved_paths (example_manager paths) = paths"
  by (simp_all add: full_contents_def example_manager_def)

lemma save_crash_points_witness:
  "load_checkpoint ''/w'' (example_cfg (Some 2))
     (run_ops (take (length (fst (checkpoint_files ''/w'' (example_cfg (Some 2)) 2 [example_rank 7] [] (3 :: nat)
         (example_manager []) (example_manager [])) :: (nat, nat, nat, nat) fs_op list) + 2)
       (fst (save_checkpoint ''/w'' (example_cfg (Some 2)) 2 [example_rank 7] [] (3 :: nat)
         (example_manager []) (example_manager [])))) Map.empty)
     5 (example_manager []) (example_manager []) [example_rank 0] [] = Inr (2, [example_rank 7], [], Some 3)"
proof -
  let ?cfg = "example_cfg (Some 2)" and ?mgr = "example_manager []"
  have "managed (ckpt_base ''/w'' ?cfg) role 1 ?mgr" for role
    by (simp add: managed_def)
  then show ?thesis
    using save_crash_points[where cfg = ?cfg and cwd = "''/w''" and m = 1 and n = 2 and fs = Map.empty
        and amgr = ?mgr and cmgr = ?mgr and amgr0 = ?mgr and cmgr0 = ?mgr and actor = "[example_rank 7]"
        and actor0 = "[example_rank 0]" and critic = "[]" and critic0 = "[]" and st = "3 :: nat" and L = 5, OF _ _ _ _ _ _ _ _ _ _ _ _ _ _ _ refl]
    by (simp add: example_cfg_def actor_keep_def critic_keep_def resumed_def)
qed


end
