(* ===== verification/Train_Loop.thy ===== *)
theory Train_Loop
  imports Checkpoints
begin

text \<open>
  The schedule of the driver (\<open>fit\<close> in \<open>trainer/ppo/ray_trainer.py\<close>): which steps run after a resume, when the
  critic and the actor are updated, when a checkpoint is written and when the model is validated.  What happens to
  the batch of one step is the subject of \<open>Train_Step\<close>; here the workers' training is an argument.
\<close>

section \<open>Configuration, environment and state\<close>

record loop_config =
  ckpt :: ckpt_config
  total_epochs :: int
  max_training_steps :: "int option"
  save_freq :: int
  test_freq :: int
  critic_warmup :: int
  val_before_train :: bool
  val_only :: bool
  esi_redundant_time :: real

text \<open>
  The environment: the data loader of the library (its next batch or the end of a pass, the state it gives and
  takes, a newly built one, the number of its batches), the training of the two worker groups on the answers that the
  rollout's weights give to a batch, the metrics of a validation, and the clock.
\<close>

record ('b, 'd, 's, 'm, 'o, 'e) env =
  loader_next :: "'d \<Rightarrow> 'b option \<times> 'd"
  loader_state :: "'d \<Rightarrow> 's"
  loader_load :: "'s \<Rightarrow> 'd"
  loader_new :: 'd
  loader_len :: nat
  train_critic :: "'m list \<Rightarrow> ('m, 'o, 'e) rank list \<Rightarrow> ('m, 'o, 'e) rank list \<Rightarrow> 'b \<Rightarrow> ('m, 'o, 'e) rank list"
  train_actor :: "'m list \<Rightarrow> ('m, 'o, 'e) rank list \<Rightarrow> ('m, 'o, 'e) rank list \<Rightarrow> 'b \<Rightarrow> ('m, 'o, 'e) rank list"
  validation :: "'m list \<Rightarrow> string list"
  exp_ts_mlp :: "real option option"
  exp_ts_aws :: "int option"
  clock :: "int \<Rightarrow> real"
  step_duration :: "int \<Rightarrow> real"

datatype event =
    Generated int
  | Updated_Critic int
  | Updated_Actor int
  | Saved int
  | Synced int
  | Validated int

record ('d, 's, 'm, 'o, 'e) trainer =
  global_steps :: int
  loader :: 'd
  actor :: "('m, 'o, 'e) rank list"
  critic :: "('m, 'o, 'e) rank list"
  rollout :: "'m list"
  disk :: "('m, 'o, 'e, 's) files"
  actor_manager :: manager
  critic_manager :: manager
  max_steps_duration :: real
  events :: "event list"

definition note_event :: "event \<Rightarrow> ('d, 's, 'm, 'o, 'e) trainer \<Rightarrow> ('d, 's, 'm, 'o, 'e) trainer" where
  "note_event ev s = s\<lparr>events := events s @ [ev]\<rparr>"

section \<open>The training loop\<close>

text \<open>The number of steps: the length of the loader times the epochs, unless the configuration gives one.\<close>

definition create_dataloader :: "loop_config \<Rightarrow> nat \<Rightarrow> nat \<Rightarrow> int res" where
  "create_dataloader cfg train_len val_len =
     require (1 \<le> train_len) AssertionError
       (require (1 \<le> val_len) AssertionError
         (Inr (case max_training_steps cfg of None \<Rightarrow> int train_len * total_epochs cfg | Some t \<Rightarrow> t)))"

definition update_weights :: "('d, 's, 'm, 'o, 'e) trainer \<Rightarrow> ('d, 's, 'm, 'o, 'e) trainer" where
  "update_weights s = note_event (Synced (global_steps s)) (s\<lparr>rollout := map model_state (actor s)\<rparr>)"

definition values_critic :: "loop_config \<Rightarrow> ('d, 's, 'm, 'o, 'e) trainer \<Rightarrow> ('m, 'o, 'e) rank list" where
  "values_critic cfg s = (if use_critic (ckpt cfg) then critic s else [])"

definition should_save ::
    "loop_config \<Rightarrow> ('b, 'd, 's, 'm, 'o, 'e) env \<Rightarrow> int \<Rightarrow> ('d, 's, 'm, 'o, 'e) trainer \<Rightarrow> bool" where
  "should_save cfg env total_steps s \<longleftrightarrow>
     (let n = global_steps s;
          is_last_step = total_steps \<le> n;
          esi_close_to_expiration =
            should_save_ckpt_esi (exp_ts_mlp env) (exp_ts_aws env) (clock env n) (max_steps_duration s) 60
              (esi_redundant_time cfg)
      in 0 < save_freq cfg \<and> (is_last_step \<or> n mod save_freq cfg = 0 \<or> esi_close_to_expiration))"

definition save_step ::
    "loop_config \<Rightarrow> ('b, 'd, 's, 'm, 'o, 'e) env \<Rightarrow> string \<Rightarrow> ('d, 's, 'm, 'o, 'e) trainer \<Rightarrow> ('d, 's, 'm, 'o, 'e) trainer" where
  "save_step cfg env cwd s =
     (let (ops, amgr, cmgr) =
        save_checkpoint cwd (ckpt cfg) (global_steps s) (actor s) (critic s) (loader_state env (loader s))
          (actor_manager s) (critic_manager s)
      in note_event (Saved (global_steps s))
           (s\<lparr>disk := run_ops ops (disk s), actor_manager := amgr, critic_manager := cmgr\<rparr>))"

definition train_step ::
    "loop_config \<Rightarrow> ('b, 'd, 's, 'm, 'o, 'e) env \<Rightarrow> string \<Rightarrow> int \<Rightarrow> 'b \<Rightarrow> ('d, 's, 'm, 'o, 'e) trainer \<Rightarrow>
      ('d, 's, 'm, 'o, 'e) trainer" where
  "train_step cfg env cwd total_steps b s =
     (let n = global_steps s;
          is_last_step = total_steps \<le> n;
          generating = rollout s;
          value_model = values_critic cfg s;
          s = note_event (Generated n) s;
          s = (if use_critic (ckpt cfg)
               then note_event (Updated_Critic n) (s\<lparr>critic := train_critic env generating (actor s) value_model b\<rparr>)
               else s);
          s = (if n < critic_warmup cfg then update_weights s
               else let s = note_event (Updated_Actor n) (s\<lparr>actor := train_actor env generating (actor s) value_model b\<rparr>);
                        s = (if should_save cfg env total_steps s then save_step cfg env cwd s else s)
                    in update_weights s);
          s = (if 0 < test_freq cfg \<and> (is_last_step \<or> n mod test_freq cfg = 0)
               then note_event (Validated n) s else s)
      in s\<lparr>max_steps_duration := max (max_steps_duration s) (step_duration env n), global_steps := n + 1\<rparr>)"

fun fit_loop ::
    "loop_config \<Rightarrow> ('b, 'd, 's, 'm, 'o, 'e) env \<Rightarrow> string \<Rightarrow> int \<Rightarrow> nat \<Rightarrow> int \<Rightarrow> ('d, 's, 'm, 'o, 'e) trainer \<Rightarrow>
      ('d, 's, 'm, 'o, 'e) trainer option" where
  "fit_loop cfg env cwd total_steps 0 epoch s = None"
| "fit_loop cfg env cwd total_steps (Suc fuel) epoch s =
     (if \<not> epoch < total_epochs cfg then Some s
      else case loader_next env (loader s) of
             (None, d) \<Rightarrow> fit_loop cfg env cwd total_steps fuel (epoch + 1) (s\<lparr>loader := d\<rparr>)
           | (Some b, d) \<Rightarrow>
               let s' = train_step cfg env cwd total_steps b (s\<lparr>loader := d\<rparr>)
               in if total_steps \<le> global_steps s then Some s' else fit_loop cfg env cwd total_steps fuel epoch s')"

definition start_state ::
    "('b, 'd, 's, 'm, 'o, 'e) env \<Rightarrow> ('m, 'o, 'e, 's) files \<Rightarrow> manager \<Rightarrow> manager \<Rightarrow>
      int \<times> ('m, 'o, 'e) rank list \<times> ('m, 'o, 'e) rank list \<times> 's option \<Rightarrow> ('d, 's, 'm, 'o, 'e) trainer" where
  "start_state env fs amgr cmgr loaded =
     (let (n, a, c, st) = loaded
      in update_weights
           \<lparr>global_steps = n, loader = (case st of None \<Rightarrow> loader_new env | Some x \<Rightarrow> loader_load env x),
            actor = a, critic = c, rollout = [], disk = fs, actor_manager = amgr, critic_manager = cmgr,
            max_steps_duration = 0, events = []\<rparr>)"

definition fit ::
    "loop_config \<Rightarrow> ('b, 'd, 's, 'm, 'o, 'e) env \<Rightarrow> string \<Rightarrow> int \<Rightarrow> nat \<Rightarrow> ('m, 'o, 'e, 's) files \<Rightarrow> manager \<Rightarrow> manager \<Rightarrow>
      ('m, 'o, 'e) rank list \<Rightarrow> ('m, 'o, 'e) rank list \<Rightarrow> ('d, 's, 'm, 'o, 'e) trainer res option" where
  "fit cfg env cwd total_steps fuel fs amgr cmgr actor0 critic0 =
     (case load_checkpoint cwd (ckpt cfg) fs (int (loader_len env)) amgr cmgr actor0 critic0 of
        Inl e \<Rightarrow> Some (Inl e)
      | Inr loaded \<Rightarrow>
          let s = start_state env fs amgr cmgr loaded;
              current_epoch = global_steps s div int (loader_len env);
              train = \<lambda>s. map_option Inr (fit_loop cfg env cwd total_steps fuel current_epoch (s\<lparr>global_steps := global_steps s + 1\<rparr>))
          in if val_before_train cfg
             then if validation env (rollout s) = [] then Some (Inl AssertionError)
                  else let s = note_event (Validated (global_steps s)) s
                       in if val_only cfg then Some (Inr s) else train s
             else train s)"

section \<open>The contract of the data loader\<close>

text \<open>
  What the driver relies on: \<open>pos\<close> counts the batches a pass has given; a new loader stands at 0, a pass gives
  \<open>loader_len\<close> batches and ends, and a state taken inside a pass restores the loader.
\<close>

definition loader_ok :: "('b, 'd, 's, 'm, 'o, 'e) env \<Rightarrow> ('d \<Rightarrow> nat) \<Rightarrow> bool" where
  "loader_ok env pos \<longleftrightarrow>
     0 < loader_len env \<and> pos (loader_new env) = 0 \<and>
     (\<forall>d. pos d < loader_len env \<longrightarrow> (\<exists>b d'. loader_next env d = (Some b, d') \<and> pos d' = Suc (pos d))) \<and>
     (\<forall>d. pos d = loader_len env \<longrightarrow> (\<exists>d'. loader_next env d = (None, d') \<and> pos d' = 0)) \<and>
     (\<forall>d. 0 < pos d \<and> pos d < loader_len env \<longrightarrow> loader_load env (loader_state env d) = d)"

section \<open>The schedule\<close>

text \<open>The steps of a run that did something, in the order in which they did it.\<close>

definition generated_steps :: "event list \<Rightarrow> int list" where
  "generated_steps evs = concat (map (\<lambda>ev. case ev of Generated n \<Rightarrow> [n] | _ \<Rightarrow> []) evs)"

definition actor_steps :: "event list \<Rightarrow> int list" where
  "actor_steps evs = concat (map (\<lambda>ev. case ev of Updated_Actor n \<Rightarrow> [n] | _ \<Rightarrow> []) evs)"

definition saved_steps :: "event list \<Rightarrow> int list" where
  "saved_steps evs = concat (map (\<lambda>ev. case ev of Saved n \<Rightarrow> [n] | _ \<Rightarrow> []) evs)"

definition validated_steps :: "event list \<Rightarrow> int list" where
  "validated_steps evs = concat (map (\<lambda>ev. case ev of Validated n \<Rightarrow> [n] | _ \<Rightarrow> []) evs)"

definition planned :: "loop_config \<Rightarrow> int \<Rightarrow> int \<Rightarrow> event list" where
  "planned cfg total_steps n =
     [Generated n] @ (if use_critic (ckpt cfg) then [Updated_Critic n] else []) @
     (if n < critic_warmup cfg then []
      else Updated_Actor n #
        (if 0 < save_freq cfg \<and> (total_steps \<le> n \<or> n mod save_freq cfg = 0) then [Saved n] else [])) @
     [Synced n] @ (if 0 < test_freq cfg \<and> (total_steps \<le> n \<or> n mod test_freq cfg = 0) then [Validated n] else [])"

definition last_step :: "int \<Rightarrow> int \<Rightarrow> int \<Rightarrow> int" where
  "last_step total_steps all_batches n =
     (if all_batches \<le> n then n else max (n + 1) (min total_steps all_batches))"

lemma should_save_no_esi:
  "exp_ts_mlp env = None \<Longrightarrow> exp_ts_aws env = None \<Longrightarrow>
    should_save cfg env total_steps s \<longleftrightarrow>
      0 < save_freq cfg \<and> (total_steps \<le> global_steps s \<or> global_steps s mod save_freq cfg = 0)"
  by (simp add: should_save_def should_save_ckpt_esi_def Let_def)

lemma note_event_sel [simp]:
  "events (note_event ev s) = events s @ [ev]" "global_steps (note_event ev s) = global_steps s"
  "loader (note_event ev s) = loader s" "actor (note_event ev s) = actor s" "critic (note_event ev s) = critic s"
  "rollout (note_event ev s) = rollout s" "disk (note_event ev s) = disk s"
  "max_steps_duration (note_event ev s) = max_steps_duration s"
  "actor_manager (note_event ev s) = actor_manager s" "critic_manager (note_event ev s) = critic_manager s"
  by (simp_all add: note_event_def)

lemma update_weights_sel [simp]:
  "events (update_weights s) = events s @ [Synced (global_steps s)]" "global_steps (update_weights s) = global_steps s"
  "loader (update_weights s) = loader s" "actor (update_weights s) = actor s" "critic (update_weights s) = critic s"
  "rollout (update_weights s) = map model_state (actor s)" "disk (update_weights s) = disk s"
  "max_steps_duration (update_weights s) = max_steps_duration s"
  by (simp_all add: update_weights_def)

lemma save_step_sel [simp]:
  "events (save_step cfg env cwd s) = events s @ [Saved (global_steps s)]"
  "global_steps (save_step cfg env cwd s) = global_steps s"
  "loader (save_step cfg env cwd s) = loader s" "actor (save_step cfg env cwd s) = actor s"
  "critic (save_step cfg env cwd s) = critic s" "rollout (save_step cfg env cwd s) = rollout s"
  "max_steps_duration (save_step cfg env cwd s) = max_steps_duration s"
  by (simp_all add: save_step_def split_beta Let_def)

lemma train_step_sel [simp]:
  "global_steps (train_step cfg env cwd total_steps b s) = global_steps s + 1"
  "loader (train_step cfg env cwd total_steps b s) = loader s"
  "rollout (train_step cfg env cwd total_steps b s) = map model_state (actor (train_step cfg env cwd total_steps b s))"
  by (simp_all add: train_step_def Let_def)

lemma train_step_events:
  assumes "exp_ts_mlp env = None" "exp_ts_aws env = None"
  shows "events (train_step cfg env cwd total_steps b s) = events s @ planned cfg total_steps (global_steps s)"
  using assms by (auto simp: train_step_def planned_def should_save_no_esi Let_def)

lemma last_step_next:
  assumes "n < all_batches" "\<not> total_steps \<le> n + 1"
  shows "last_step total_steps all_batches n = last_step total_steps all_batches (n + 1)" "n + 1 \<le> last_step total_steps all_batches n"
  using assms by (auto simp: last_step_def)

lemma fit_loop_events:
  fixes cfg :: loop_config
  assumes "loader_ok env pos" "exp_ts_mlp env = None" "exp_ts_aws env = None"
  defines "all_batches \<equiv> total_epochs cfg * int (loader_len env)"
  assumes "n = epoch * int (loader_len env) + int (pos (loader s))" "pos (loader s) \<le> loader_len env"
    "global_steps s = n + 1" "nat (all_batches - n) + nat (total_epochs cfg - epoch) < fuel"
  shows "\<exists>s'. fit_loop cfg env cwd total_steps fuel epoch s = Some s' \<and>
    events s' = events s @ concat (map (planned cfg total_steps) [n + 1..last_step total_steps all_batches n]) \<and>
    global_steps s' = last_step total_steps all_batches n + 1"
  using assms(5-)
proof (induction fuel arbitrary: epoch n s)
  case (Suc fuel)
  let ?L = "int (loader_len env)"
  show ?case
  proof (cases "epoch < total_epochs cfg")
    case False
    then have "all_batches \<le> n"
      using Suc.prems(1) mult_right_mono[of "total_epochs cfg" epoch ?L] by (simp add: all_batches_def)
    then show ?thesis
      using False Suc.prems(3) by (simp add: last_step_def)
  next
    case True
    then have room: "epoch * ?L + ?L \<le> all_batches"
      using mult_right_mono[of "epoch + 1" "total_epochs cfg" ?L] by (simp add: all_batches_def algebra_simps)
    show ?thesis
    proof (cases "pos (loader s) = loader_len env")
      case at_end: True
      then obtain d where d: "loader_next env (loader s) = (None, d)" "pos d = 0"
        using assms(1) by (auto simp: loader_ok_def)
      have "\<exists>s'. fit_loop cfg env cwd total_steps fuel (epoch + 1) (s\<lparr>loader := d\<rparr>) = Some s' \<and>
          events s' = events (s\<lparr>loader := d\<rparr>) @ concat (map (planned cfg total_steps) [n + 1..last_step total_steps all_batches n]) \<and>
          global_steps s' = last_step total_steps all_batches n + 1"
        by (rule Suc.IH) (use Suc.prems at_end d True in \<open>auto simp: algebra_simps\<close>)
      then show ?thesis
        using True d by simp
    next
      case inside: False
      then obtain b d where d: "loader_next env (loader s) = (Some b, d)" "pos d = Suc (pos (loader s))"
        using assms(1) Suc.prems(2) by (metis le_neq_implies_less loader_ok_def)
      let ?s = "train_step cfg env cwd total_steps b (s\<lparr>loader := d\<rparr>)"
      have n: "n < all_batches"
        using room Suc.prems(1,2) inside by simp
      have evs: "events ?s = events s @ planned cfg total_steps (n + 1)"
        using train_step_events[OF assms(2,3), of cfg cwd total_steps b "s\<lparr>loader := d\<rparr>"] Suc.prems(3) by simp
      show ?thesis
      proof (cases "total_steps \<le> n + 1")
        case True
        then have "last_step total_steps all_batches n = n + 1"
          using n by (simp add: last_step_def)
        then show ?thesis
          using True d evs Suc.prems(3) \<open>epoch < total_epochs cfg\<close> by simp
      next
        case False
        have "\<exists>s'. fit_loop cfg env cwd total_steps fuel epoch ?s = Some s' \<and>
            events s' = events ?s @ concat (map (planned cfg total_steps) [n + 1 + 1..last_step total_steps all_batches (n + 1)]) \<and>
            global_steps s' = last_step total_steps all_batches (n + 1) + 1"
          by (rule Suc.IH) (use Suc.prems inside d n in auto)
        then show ?thesis
          using True False d evs Suc.prems(3) last_step_next[OF n False] by (simp add: upto_rec1[of "n + 1"])
      qed
    qed
  qed
qed simp

lemma step_lists_append [simp]:
  "generated_steps (xs @ ys) = generated_steps xs @ generated_steps ys"
  "actor_steps (xs @ ys) = actor_steps xs @ actor_steps ys"
  "saved_steps (xs @ ys) = saved_steps xs @ saved_steps ys"
  "validated_steps (xs @ ys) = validated_steps xs @ validated_steps ys"
  by (simp_all add: generated_steps_def actor_steps_def saved_steps_def validated_steps_def)

lemma planned_lists:
  "generated_steps (planned cfg total_steps n) = [n]"
  "actor_steps (planned cfg total_steps n) = (if critic_warmup cfg \<le> n then [n] else [])"
  "saved_steps (planned cfg total_steps n) =
    (if critic_warmup cfg \<le> n \<and> 0 < save_freq cfg \<and> (total_steps \<le> n \<or> n mod save_freq cfg = 0) then [n] else [])"
  "validated_steps (planned cfg total_steps n) =
    (if 0 < test_freq cfg \<and> (total_steps \<le> n \<or> n mod test_freq cfg = 0) then [n] else [])"
  by (auto simp: planned_def generated_steps_def actor_steps_def saved_steps_def validated_steps_def)

lemma schedule_lists:
  "generated_steps (concat (map (planned cfg total_steps) ns)) = ns"
  "actor_steps (concat (map (planned cfg total_steps) ns)) = filter (\<lambda>k. critic_warmup cfg \<le> k) ns"
  "saved_steps (concat (map (planned cfg total_steps) ns)) =
    filter (\<lambda>k. critic_warmup cfg \<le> k \<and> 0 < save_freq cfg \<and> (total_steps \<le> k \<or> k mod save_freq cfg = 0)) ns"
  "validated_steps (concat (map (planned cfg total_steps) ns)) =
    filter (\<lambda>k. 0 < test_freq cfg \<and> (total_steps \<le> k \<or> k mod test_freq cfg = 0)) ns"
  by (induction ns) (simp_all add: planned_lists, simp_all add: generated_steps_def actor_steps_def saved_steps_def validated_steps_def)

text \<open>
  C39. \<open>fit\<close> started from a checkpoint of step \<open>n\<close> (0 from scratch) returns, and it runs the steps from \<open>n + 1\<close> to the
  configured number of steps or the end of the last epoch, whichever comes first, each once and in order; when the
  batches of the epochs are not used up it runs at least one step, also after the configured number.  The actor is
  updated from the end of the warm-up on; a checkpoint is written at the multiples of \<open>save_freq\<close> and at the last
  configured step, but never during the warm-up; the model is validated at the multiples of \<open>test_freq\<close>
  and at the last configured step.
\<close>

theorem fit_schedule:
  assumes "loader_ok env pos" "exp_ts_mlp env = None" "exp_ts_aws env = None"
    and "load_checkpoint cwd (ckpt cfg) fs (int (loader_len env)) amgr cmgr actor0 critic0 = Inr (n, a, c, st)" "0 \<le> n"
    and "int (pos (case st of None \<Rightarrow> loader_new env | Some x \<Rightarrow> loader_load env x)) = n mod int (loader_len env)"
    and "\<not> (val_before_train cfg \<and> (val_only cfg \<or> validation env (map model_state a) = []))"
    and "nat (total_epochs cfg * int (loader_len env)) + nat (total_epochs cfg) < fuel"
    and "steps = [n + 1..last_step total_steps (total_epochs cfg * int (loader_len env)) n]"
  shows "\<exists>s. fit cfg env cwd total_steps fuel fs amgr cmgr actor0 critic0 = Some (Inr s) \<and>
    generated_steps (events s) = steps \<and>
    actor_steps (events s) = filter (\<lambda>k. critic_warmup cfg \<le> k) steps \<and>
    saved_steps (events s) =
      filter (\<lambda>k. critic_warmup cfg \<le> k \<and> 0 < save_freq cfg \<and> (total_steps \<le> k \<or> k mod save_freq cfg = 0)) steps \<and>
    validated_steps (events s) = (if val_before_train cfg then [n] else []) @
      filter (\<lambda>k. 0 < test_freq cfg \<and> (total_steps \<le> k \<or> k mod test_freq cfg = 0)) steps"
proof -
  let ?L = "int (loader_len env)"
  let ?start = "start_state env fs amgr cmgr (n, a, c, st)"
  let ?s = "if val_before_train cfg then note_event (Validated n) ?start else ?start"
  have start: "global_steps ?start = n" "rollout ?start = map model_state a" "events ?start = [Synced n]"
    "loader ?start = (case st of None \<Rightarrow> loader_new env | Some x \<Rightarrow> loader_load env x)"
    by (simp_all add: start_state_def)
  have epoch: "n = n div ?L * ?L + n mod ?L" "0 \<le> n div ?L" "n mod ?L < ?L"
    using assms(1,5) by (simp_all add: loader_ok_def pos_imp_zdiv_nonneg_iff)
  let ?all = "total_epochs cfg * ?L"
  have at: "int (pos (loader ?s)) = n mod ?L"
    using assms(6) start by simp
  have "\<exists>s'. fit_loop cfg env cwd total_steps fuel (n div ?L) (?s\<lparr>global_steps := n + 1\<rparr>) = Some s' \<and>
      events s' = events (?s\<lparr>global_steps := n + 1\<rparr>) @ concat (map (planned cfg total_steps) [n + 1..last_step total_steps ?all n]) \<and>
      global_steps s' = last_step total_steps ?all n + 1"
  proof (rule fit_loop_events[OF assms(1-3)])
    show "n = n div ?L * ?L + int (pos (loader (?s\<lparr>global_steps := n + 1\<rparr>)))"
      "pos (loader (?s\<lparr>global_steps := n + 1\<rparr>)) \<le> loader_len env"
      using at epoch by simp_all
    show "nat (?all - n) + nat (total_epochs cfg - n div ?L) < fuel"
      using assms(5,8) epoch(2) by linarith
  qed simp
  then obtain s' where s': "fit_loop cfg env cwd total_steps fuel (n div ?L) (?s\<lparr>global_steps := n + 1\<rparr>) = Some s'"
    "events s' = events ?s @ concat (map (planned cfg total_steps) steps)"
    using assms(9) by auto
  have "fit cfg env cwd total_steps fuel fs amgr cmgr actor0 critic0 = Some (Inr s')"
    using assms(4,7) s'(1) start by (auto simp: fit_def Let_def split: if_splits)
  moreover have "generated_steps (events ?s) = []" "actor_steps (events ?s) = []" "saved_steps (events ?s) = []"
    "validated_steps (events ?s) = (if val_before_train cfg then [n] else [])"
    using start by (simp_all add: generated_steps_def actor_steps_def saved_steps_def validated_steps_def)
  ultimately show ?thesis
    using s'(2) by (simp add: schedule_lists)
qed

section \<open>An interrupted run and its resumption\<close>

text \<open>What a run computes with: everything but the disk, the managers, the longest step and the events.\<close>

definition core :: "loop_config \<Rightarrow> ('d, 's, 'm, 'o, 'e) trainer \<Rightarrow>
    int \<times> 'd \<times> ('m, 'o, 'e) rank list \<times> ('m, 'o, 'e) rank list \<times> 'm list" where
  "core cfg s = (global_steps s, loader s, actor s, values_critic cfg s, rollout s)"

lemma values_critic_sel [simp]:
  "values_critic cfg (s\<lparr>global_steps := g\<rparr>) = values_critic cfg s"
  "values_critic cfg (s\<lparr>loader := d\<rparr>) = values_critic cfg s"
  "values_critic cfg (note_event ev s) = values_critic cfg s"
  by (simp_all add: values_critic_def)

lemma should_save_cong:
  "global_steps s = global_steps t \<Longrightarrow> max_steps_duration s = max_steps_duration t \<Longrightarrow>
    should_save cfg env total_steps s = should_save cfg env total_steps t"
  by (simp add: should_save_def Let_def)

lemma train_step_state:
  "actor (train_step cfg env cwd total_steps b s) =
    (if global_steps s < critic_warmup cfg then actor s
     else train_actor env (rollout s) (actor s) (values_critic cfg s) b)"
  "values_critic cfg (train_step cfg env cwd total_steps b s) =
    (if use_critic (ckpt cfg) then train_critic env (rollout s) (actor s) (values_critic cfg s) b else [])"
  by (simp_all add: train_step_def values_critic_def Let_def)

lemma train_step_core:
  "core cfg s = core cfg t \<Longrightarrow>
    core cfg (train_step cfg env cwd total_steps b s) = core cfg (train_step cfg env cwd total_steps b t)"
  by (simp add: core_def train_step_state)

lemma fit_loop_core:
  assumes "core cfg s = core cfg t" "fit_loop cfg env cwd total_steps fuel epoch s = Some s'"
  shows "\<exists>t'. fit_loop cfg env cwd total_steps fuel epoch t = Some t' \<and> core cfg s' = core cfg t'"
  using assms
proof (induction fuel arbitrary: epoch s t)
  case (Suc fuel)
  have same: "loader s = loader t" "global_steps s = global_steps t"
    using Suc.prems(1) by (simp_all add: core_def)
  obtain ob d where step: "loader_next env (loader s) = (ob, d)"
    by fastforce
  have core: "core cfg (s\<lparr>loader := d\<rparr>) = core cfg (t\<lparr>loader := d\<rparr>)"
    using Suc.prems(1) by (simp add: core_def)
  show ?case
  proof (cases "epoch < total_epochs cfg")
    case False
    then show ?thesis
      using Suc.prems by simp
  next
    case inside: True
    show ?thesis
    proof (cases ob)
      case None
      then show ?thesis
        using Suc.IH[OF core] Suc.prems(2) inside step same by simp
    next
      case (Some b)
      then show ?thesis
        using Suc.IH[OF train_step_core[OF core]] train_step_core[OF core, of env cwd total_steps b] Suc.prems(2) inside step same
        by (simp add: Let_def split: if_splits)
    qed
  qed
qed simp

lemma fit_loop_more_fuel:
  "fit_loop cfg env cwd total_steps fuel epoch s = Some s' \<Longrightarrow> fit_loop cfg env cwd total_steps (Suc fuel) epoch s = Some s'"
proof (induction fuel arbitrary: epoch s)
  case (Suc fuel)
  from Suc.prems show ?case
    by (subst fit_loop.simps(2), subst (asm) fit_loop.simps(2))
      (auto simp: Let_def simp del: fit_loop.simps(2) intro: Suc.IH split: option.splits prod.splits if_splits)
qed simp

text \<open>A step that is due saves what it has computed.\<close>

lemma train_step_saves:
  assumes "critic_warmup cfg \<le> global_steps s" "should_save cfg env total_steps s"
    "s1 = train_step cfg env cwd total_steps b s"
  shows "disk s1 = run_ops (fst (save_checkpoint cwd (ckpt cfg) (global_steps s) (actor s1) (critic s1)
      (loader_state env (loader s)) (actor_manager s) (critic_manager s))) (disk s)"
proof -
  have due: "should_save cfg env total_steps t"
    if "global_steps t = global_steps s" "max_steps_duration t = max_steps_duration s" for t
    using assms(2) by (simp add: should_save_cong[OF that])
  have save: "disk (save_step cfg env cwd t) = run_ops (fst (save_checkpoint cwd (ckpt cfg) (global_steps t) (actor t) (critic t)
      (loader_state env (loader t)) (actor_manager t) (critic_manager t))) (disk t)" for t
    by (simp add: save_step_def split_beta Let_def)
  show ?thesis
    using assms(1,3) by (simp add: train_step_def Let_def due save)
qed

lemma fit_from_load:
  assumes "load_checkpoint cwd (ckpt cfg) fs (int (loader_len env)) amgr cmgr actor0 critic0 = Inr loaded"
    and "\<not> (val_before_train cfg \<and> (val_only cfg \<or> validation env (rollout (start_state env fs amgr cmgr loaded)) = []))"
    and "core cfg t = core cfg (start_state env fs amgr cmgr loaded\<lparr>global_steps := fst loaded + 1\<rparr>)"
    and "fit_loop cfg env cwd total_steps fuel (fst loaded div int (loader_len env)) t = Some s"
  shows "\<exists>s'. fit cfg env cwd total_steps fuel fs amgr cmgr actor0 critic0 = Some (Inr s') \<and> core cfg s' = core cfg s"
proof -
  let ?start = "start_state env fs amgr cmgr loaded"
  let ?s = "if val_before_train cfg then note_event (Validated (global_steps ?start)) ?start else ?start"
  have n: "global_steps ?start = fst loaded"
    by (simp add: start_state_def split_beta Let_def)
  have "core cfg t = core cfg (?s\<lparr>global_steps := fst loaded + 1\<rparr>)"
    using assms(3) by (simp add: core_def values_critic_def)
  then obtain s' where "fit_loop cfg env cwd total_steps fuel (fst loaded div int (loader_len env)) (?s\<lparr>global_steps := fst loaded + 1\<rparr>) = Some s'"
    "core cfg s = core cfg s'"
    using fit_loop_core[OF _ assms(4)] by blast
  then show ?thesis
    using assms(1,2) n by (auto simp: fit_def Let_def split: if_splits)
qed


section \<open>A small run\<close>

text \<open>
  A loader with two batches in a pass, whose passes are all the same or differ, and a worker that remembers
  the batches it was trained on.
\<close>

definition example_env :: "bool \<Rightarrow> nat \<Rightarrow> (nat, nat \<times> nat, nat \<times> nat, nat list, nat, nat) env" where
  "example_env shuffled len =
     \<lparr>loader_next = (\<lambda>(p, k). if k < len then (Some (10 * p + k), (p, Suc k)) else (None, (if shuffled then Suc p else 0, 0))),
      loader_state = (\<lambda>d. d), loader_load = (\<lambda>d. d), loader_new = (0, 0), loader_len = len,
      train_critic = (\<lambda>gen a c b. c), train_actor = (\<lambda>gen a c b. map (\<lambda>w. w\<lparr>model_state := model_state w @ [b]\<rparr>) a),
      validation = (\<lambda>gen. [''score'']), exp_ts_mlp = None, exp_ts_aws = None, clock = (\<lambda>n. 0), step_duration = (\<lambda>n. 1)\<rparr>"

definition example_loop :: "int \<Rightarrow> loop_config" where
  "example_loop epochs =
     \<lparr>ckpt = example_cfg None, total_epochs = epochs, max_training_steps = None, save_freq = 1, test_freq = 2,
      critic_warmup = 0, val_before_train = True, val_only = False, esi_redundant_time = 0\<rparr>"

definition fresh_rank :: "(nat list, nat, nat) rank" where
  "fresh_rank = \<lparr>model_state = [], optim_state = 0, extra_state = 0\<rparr>"

lemma train_step_critic: "\<not> use_critic (ckpt cfg) \<Longrightarrow> critic (train_step cfg env cwd total_steps b s) = critic s"
  by (simp add: train_step_def Let_def)

lemma example_loader_ok: "0 < len \<Longrightarrow> loader_ok (example_env shuffled len) snd"
  by (auto simp: loader_ok_def example_env_def)

lemma example_load_nothing:
  "load_checkpoint ''/w'' (example_cfg None) Map.empty L amgr cmgr a c = Inr (0, a, c, None)"
  by (simp add: load_checkpoint_def find_latest_ckpt_path_def example_cfg_def)

lemma fit_schedule_witness:
  "\<exists>s. fit (example_loop 2) (example_env True 2) ''/w'' 4 10 Map.empty (example_manager []) (example_manager []) [fresh_rank] [] =
      Some (Inr s) \<and>
    generated_steps (events s) = [1, 2, 3, 4] \<and> actor_steps (events s) = [1, 2, 3, 4] \<and>
    saved_steps (events s) = [1, 2, 3, 4] \<and> validated_steps (events s) = [0, 2, 4]"
  using fit_schedule[where cfg = "example_loop 2" and env = "example_env True 2" and pos = snd and cwd = "''/w''" and
      total_steps = 4 and fuel = 10 and fs = Map.empty and amgr = "example_manager []" and cmgr = "example_manager []" and
      ?actor0.0 = "[fresh_rank]" and ?critic0.0 = "[]", OF example_loader_ok _ _ _ _ _ _ _ refl]
  by (simp add: example_loop_def example_env_def example_load_nothing last_step_def upto.simps[of 1] upto.simps[of 2]
      upto.simps[of 3] upto.simps[of 4])

definition example_head :: "nat \<times> nat \<Rightarrow> (nat \<times> nat, nat \<times> nat, nat list, nat, nat) trainer" where
  "example_head d =
     \<lparr>global_steps = 1, loader = d, actor = [fresh_rank], critic = [], rollout = [[]], disk = Map.empty,
      actor_manager = example_manager [], critic_manager = example_manager [], max_steps_duration = 0, events = []\<rparr>"

lemma example_head_loader [simp]: "example_head d\<lparr>loader := d'\<rparr> = example_head d'"
  by (simp add: example_head_def)


text \<open>
  At the end of an epoch the state of the loader is not restored, so a resumed run starts with the first pass
  again.  Where the passes differ, as with the shuffling sampler of the driver, it trains on other batches than the
  run that was not killed: here on the batch of the first pass twice.
\<close>

lemma resume_repeats_first_pass:
  defines "cfg \<equiv> example_loop 2" and "env \<equiv> example_env True 1"
  defines "s1 \<equiv> train_step cfg env ''/w'' 2 0 (example_head (0, 1))"
  shows "\<exists>s. fit_loop cfg env ''/w'' 2 4 0 s1 = Some s \<and> map model_state (actor s) = [[0, 10]]"
    and "\<exists>t. fit cfg env ''/w'' 2 4 (disk s1) (example_manager []) (example_manager []) [fresh_rank] [] = Some (Inr t) \<and>
      map model_state (actor t) = [[0, 0]]"
proof -
  let ?mgr = "example_manager []"
  have no_critic: "\<not> use_critic (ckpt cfg)"
    by (simp add: cfg_def example_loop_def example_cfg_def)
  have s1: "map model_state (actor s1) = [[0]]" "critic s1 = []" "global_steps s1 = 2" "loader s1 = (0, 1)"
    unfolding s1_def train_step_critic[OF no_critic]
    by (simp_all add: train_step_state cfg_def env_def example_loop_def example_env_def example_head_def fresh_rank_def)
  then obtain w where w: "actor s1 = [w]" "model_state w = [0]"
    by auto
  have run: "fit_loop cfg env ''/w'' 2 4 0 s1 = Some (train_step cfg env ''/w'' 2 10 (s1\<lparr>loader := (1, 1)\<rparr>))"
    using s1 by (simp add: cfg_def env_def example_loop_def example_env_def numeral_eq_Suc Let_def)
  show "\<exists>s. fit_loop cfg env ''/w'' 2 4 0 s1 = Some s \<and> map model_state (actor s) = [[0, 10]]"
    unfolding run using w s1 by (simp add: train_step_state cfg_def env_def example_loop_def example_env_def)
  have managed: "managed b role 0 ?mgr" for b role
    by (simp add: managed_def)
  have due: "should_save cfg env 2 (example_head (0, 1))"
    by (simp add: should_save_def cfg_def example_loop_def example_head_def)
  have fs: "disk s1 = run_ops (fst (save_checkpoint ''/w'' (ckpt cfg) 1 (actor s1) (critic s1) (loader_state env (0, 1)) ?mgr ?mgr)) Map.empty"
    using train_step_saves[OF _ due, of s1 "''/w''" 0] s1_def by (simp add: cfg_def example_loop_def example_head_def)
  let ?loaded = "resumed (ckpt cfg) 1 1 (actor s1) (critic s1) (loader_state env (0, 1)) []"
  have load: "load_checkpoint ''/w'' (ckpt cfg) (disk s1) (int (loader_len env)) ?mgr ?mgr [fresh_rank] [] = Inr ?loaded"
    unfolding fs by (subst load_after_save[where m = 0])
      (use managed s1 w in \<open>simp_all add: cfg_def env_def example_loop_def example_env_def example_cfg_def actor_keep_def critic_keep_def\<close>)
  let ?t = "start_state env (disk s1) ?mgr ?mgr ?loaded\<lparr>global_steps := fst ?loaded + 1\<rparr>"
  have t: "global_steps ?t = 2" "loader ?t = (0, 0)" "actor ?t = [w]" "rollout ?t = [[0]]"
    using w by (simp_all add: start_state_def resumed_def env_def example_env_def)
  have "fit_loop cfg env ''/w'' 2 4 (fst ?loaded div int (loader_len env)) ?t =
      Some (train_step cfg env ''/w'' 2 0 (?t\<lparr>loader := (0, 1)\<rparr>))"
    using t by (simp add: resumed_def cfg_def env_def example_loop_def example_env_def numeral_eq_Suc Let_def)
  moreover have "\<not> (val_before_train cfg \<and> (val_only cfg \<or> validation env (rollout (start_state env (disk s1) ?mgr ?mgr ?loaded)) = []))"
    by (simp add: cfg_def env_def example_loop_def example_env_def)
  ultimately obtain s where "fit cfg env ''/w'' 2 4 (disk s1) ?mgr ?mgr [fresh_rank] [] = Some (Inr s)"
    "core cfg s = core cfg (train_step cfg env ''/w'' 2 0 (?t\<lparr>loader := (0, 1)\<rparr>))"
    using fit_from_load[OF load _ refl] by blast
  then show "\<exists>t. fit cfg env ''/w'' 2 4 (disk s1) ?mgr ?mgr [fresh_rank] [] = Some (Inr t) \<and> map model_state (actor t) = [[0, 0]]"
    using t w(2) by (intro exI[of _ s]) (simp add: core_def train_step_state cfg_def env_def example_loop_def example_env_def)
qed

end
