(* ===== verification/Optimal_Baseline.thy ===== *)
theory Optimal_Baseline
  imports Token_Returns
begin

text \<open>
  The two optimal-token-baseline estimators of \<open>verl/verl/trainer/ppo/core_algos.py\<close>:
  \<open>compute_optimal_token_baseline_advantage\<close> and its multi-turn variant, which first cuts the
  tokens the policy did not produce out of every row.  A baseline is computed per prompt and time
  step from the rewards to go, weighted by the path variance accumulated so far.
\<close>

section \<open>Returns and path variance\<close>

definition token_returns :: "mat \<Rightarrow> mat \<Rightarrow> mat" where
  "token_returns rewards rmask = map reward_to_go (mzip (*) rewards rmask)"

definition w_per_timestep :: "mat \<Rightarrow> mat \<Rightarrow> mat option \<Rightarrow> mat" where
  "w_per_timestep old_log_probs sum_pi_squared rollout_is_weights =
     (let w = mzip (\<lambda>lp s. 1 - 2 * exp lp + s) old_log_probs sum_pi_squared
      in case rollout_is_weights of None \<Rightarrow> w | Some rho \<Rightarrow> mzip (\<lambda>x r. x * r\<^sup>2) w rho)"

definition w_cumulative :: "mat \<Rightarrow> mat \<Rightarrow> mat" where
  "w_cumulative w rmask = map (cumsum 0) (mzip (*) w rmask)"

text \<open>\<open>prompt_groups\<close>: the rows of every prompt, the prompts in the order of their first row.\<close>

definition prompt_groups :: "'u list \<Rightarrow> nat list \<Rightarrow> nat list list" where
  "prompt_groups index trajs =
     map (\<lambda>u. filter (\<lambda>i. index ! i = u) trajs) (dict_keys (map (\<lambda>i. index ! i) trajs))"

text \<open>\<open>t.sum(dim=0)\<close> of rows of width \<open>T\<close>.\<close>

definition column_sums :: "nat \<Rightarrow> mat \<Rightarrow> real list" where
  "column_sums T ts = map (\<lambda>t. sum_list (map (\<lambda>r. r ! t) ts)) [0..<T]"

definition weighted_baseline :: "real \<Rightarrow> nat \<Rightarrow> mat \<Rightarrow> mat \<Rightarrow> real list" where
  "weighted_baseline eps T gw w = map2 (\<lambda>num den. num / (den + eps)) (column_sums T gw) (column_sums T w)"

text \<open>\<open>baselines[traj_idx] = row\<close>.\<close>

definition assign_rows :: "nat list \<Rightarrow> real list \<Rightarrow> mat \<Rightarrow> mat" where
  "assign_rows idxs row b = foldl (\<lambda>b i. b[i := row]) b idxs"

text \<open>\<open>row[n:] = 0.0\<close>.\<close>

definition zero_from :: "nat \<Rightarrow> real list \<Rightarrow> real list" where
  "zero_from n row = take n row @ replicate (length row - n) 0"

text \<open>The part of the one longest trajectory beyond the second longest gets no baseline.\<close>

definition zero_tail :: "nat list \<Rightarrow> real list \<Rightarrow> mat \<Rightarrow> mat" where
  "zero_tail idxs lens b =
     (let sorted_lengths = sort lens;
          max_length = nat (truncate_int (sorted_lengths ! (length lens - 1)));
          second_max_length = nat (truncate_int (sorted_lengths ! (length lens - 2)));
          max_length_idx = filter (\<lambda>j. lens ! j = real max_length) [0..<length lens]
      in if length max_length_idx = 1 \<and> second_max_length < max_length
         then let k = idxs ! hd max_length_idx in b[k := zero_from second_max_length (b ! k)]
         else b)"

section \<open>The estimator for whole rows\<close>

definition otb_group :: "real \<Rightarrow> bool \<Rightarrow> nat \<Rightarrow> mat \<Rightarrow> mat \<Rightarrow> mat \<Rightarrow> mat \<Rightarrow> nat list \<Rightarrow> mat" where
  "otb_group eps handle_zero_tail T returns w rmask b idxs =
     (if length idxs = 1 then b
      else
        let rows_of = (\<lambda>t. map (\<lambda>i. t ! i) idxs);
            wm = mzip (*) (rows_of w) (rows_of rmask);
            gwm = mzip (*) (mzip (*) (rows_of returns) (rows_of w)) (rows_of rmask);
            b' = assign_rows idxs (weighted_baseline eps T gwm wm) b
        in if handle_zero_tail then zero_tail idxs (map sum_list (rows_of rmask)) b' else b')"

definition compute_optimal_token_baseline_advantage ::
  "mat \<Rightarrow> mat \<Rightarrow> 'u list \<Rightarrow> mat \<Rightarrow> mat \<Rightarrow> mat option \<Rightarrow> bool \<Rightarrow> real \<Rightarrow> (mat \<times> mat) res" where
  "compute_optimal_token_baseline_advantage rewards rmask index old_log_probs sum_pi_squared
       rollout_is_weights handle_zero_tail eps =
     (let n = length rewards;
          T = (case rewards of [] \<Rightarrow> 0 | r # _ \<Rightarrow> length r);
          returns = token_returns rewards rmask;
          w = w_cumulative (w_per_timestep old_log_probs sum_pi_squared rollout_is_weights) rmask
      in require (n \<le> length index) IndexError
        (let baselines = foldl (otb_group eps handle_zero_tail T returns w rmask)
               (map (\<lambda>r. map (\<lambda>_. 0) r) returns) (prompt_groups index [0..<n])
         in Inr (mzip (*) (mzip (-) returns baselines) rmask, returns)))"

section \<open>The estimator for several turns\<close>

text \<open>\<open>x[i, mask]\<close>, right padding with zeros, and \<open>x[i, mask] = values\<close> on a row of zeros.\<close>

definition masked_row :: "'a list \<Rightarrow> real list \<Rightarrow> 'a list" where
  "masked_row xs m = map fst (filter (\<lambda>(x, b). b \<noteq> 0) (zip xs m))"

definition pad_to :: "nat \<Rightarrow> real list \<Rightarrow> real list" where
  "pad_to n xs = xs @ replicate (n - length xs) 0"

fun scatter_row :: "real list \<Rightarrow> real list \<Rightarrow> real list" where
  "scatter_row [] vs = []"
| "scatter_row (b # m) vs =
     (if b \<noteq> 0 then (case vs of [] \<Rightarrow> 0 # scatter_row m [] | v # vs' \<Rightarrow> v # scatter_row m vs')
      else 0 # scatter_row m vs)"

definition mask_len :: "real list \<Rightarrow> nat" where
  "mask_len m = nat (truncate_int (sum_list m))"

definition packed :: "nat \<Rightarrow> mat \<Rightarrow> mat \<Rightarrow> mat" where
  "packed M t rmask =
     map2 (\<lambda>x m. if mask_len m = 0 then replicate M 0 else pad_to M (masked_row x m)) t rmask"

definition tir_group :: "real \<Rightarrow> bool \<Rightarrow> nat \<Rightarrow> mat \<Rightarrow> mat \<Rightarrow> mat \<Rightarrow> mat \<Rightarrow> nat list \<Rightarrow> mat" where
  "tir_group eps handle_zero_tail M all_returns all_w rmask b idxs =
     (if length idxs = 1 then assign_rows idxs (replicate M 0) b
      else
        let rows_of = (\<lambda>t. map (\<lambda>i. t ! i) idxs);
            b' = assign_rows idxs (weighted_baseline eps M
                   (mzip (*) (rows_of all_returns) (rows_of all_w)) (rows_of all_w)) b
        in if handle_zero_tail then zero_tail idxs (map (\<lambda>m. real (mask_len m)) (rows_of rmask)) b' else b')"

definition compute_multi_turn_optimal_token_baseline_advantage ::
  "mat \<Rightarrow> mat \<Rightarrow> 'u list \<Rightarrow> mat \<Rightarrow> mat \<Rightarrow> mat option \<Rightarrow> bool \<Rightarrow> real \<Rightarrow> (mat \<times> mat) res" where
  "compute_multi_turn_optimal_token_baseline_advantage rewards rmask index old_log_probs sum_pi_squared
       rollout_is_weights handle_zero_tail eps =
     (let returns = token_returns rewards rmask;
          w = w_cumulative (w_per_timestep old_log_probs sum_pi_squared rollout_is_weights) rmask;
          lens = map mask_len rmask;
          M = (if lens = [] then 0 else Max (set lens));
          trajs = filter (\<lambda>i. lens ! i \<noteq> 0) [0..<length lens]
      in require (list_all (\<lambda>m. mask_len m = 0 \<or> length (filter (\<lambda>b. b \<noteq> 0) m) = mask_len m) rmask) RuntimeError
        (let all_w = packed M w rmask; all_returns = packed M returns rmask
         in require (list_all (\<lambda>i. i < length index) trajs) IndexError
          (let baselines = foldl (tir_group eps handle_zero_tail M all_returns all_w rmask)
                 (replicate (length lens) (replicate M 0)) (prompt_groups index trajs);
               all_advantages = mzip (-) all_returns baselines;
               advantages = map2 (\<lambda>m a. if mask_len m = 0 then map (\<lambda>_. 0) m
                   else scatter_row m (take (mask_len m) a)) rmask all_advantages
           in Inr (mzip (*) advantages rmask, returns))))"

section \<open>Groups are handled one by one\<close>

lemma distinct_dict_keys [simp]: "distinct (dict_keys us)" "set (dict_keys us) = set us"
  by (simp_all add: dict_keys_def)

abbreviation same_prompt :: "'u list \<Rightarrow> nat list \<Rightarrow> 'u \<Rightarrow> nat list" where
  "same_prompt index trajs u \<equiv> filter (\<lambda>i. index ! i = u) trajs"

text \<open>
  A loop over the groups whose body rewrites the rows of its group only, from their own former
  value, rewrites every row once.
\<close>

lemma foldl_groups:
  assumes step: "\<And>b u. u \<in> set us \<Longrightarrow> length b = n \<Longrightarrow> length (step b (same_prompt index trajs u)) = n
      \<and> (\<forall>i<n. step b (same_prompt index trajs u) ! i
          = (if i \<in> set (same_prompt index trajs u) then F (same_prompt index trajs u) i (b ! i) else b ! i))"
    and "distinct us" "length b = n" "i < n"
  shows "length (foldl step b (map (same_prompt index trajs) us)) = n
    \<and> foldl step b (map (same_prompt index trajs) us) ! i
      = (if i \<in> set trajs \<and> index ! i \<in> set us then F (same_prompt index trajs (index ! i)) i (b ! i) else b ! i)"
  using assms
proof (induction us arbitrary: b)
  case (Cons u us)
  let ?b = "step b (same_prompt index trajs u)"
  have b: "length ?b = n" "?b ! i = (if i \<in> set (same_prompt index trajs u)
      then F (same_prompt index trajs u) i (b ! i) else b ! i)"
    using Cons.prems(1)[of u b] Cons.prems(3,4) by auto
  have "length (foldl step ?b (map (same_prompt index trajs) us)) = n
    \<and> foldl step ?b (map (same_prompt index trajs) us) ! i
      = (if i \<in> set trajs \<and> index ! i \<in> set us then F (same_prompt index trajs (index ! i)) i (?b ! i) else ?b ! i)"
    using Cons.prems b(1) by (intro Cons.IH) auto
  then show ?case using b(2) Cons.prems(2) by auto
qed simp

lemma foldl_prompt_groups:
  assumes "\<And>b u. u \<in> (!) index ` set trajs \<Longrightarrow> length b = n \<Longrightarrow> length (step b (same_prompt index trajs u)) = n
      \<and> (\<forall>i<n. step b (same_prompt index trajs u) ! i
          = (if i \<in> set (same_prompt index trajs u) then F (same_prompt index trajs u) i (b ! i) else b ! i))"
    and "length b = n" "i < n"
  shows "length (foldl step b (prompt_groups index trajs)) = n
    \<and> foldl step b (prompt_groups index trajs) ! i
      = (if i \<in> set trajs then F (same_prompt index trajs (index ! i)) i (b ! i) else b ! i)"
  using foldl_groups[where us = "dict_keys (map ((!) index) trajs)" and step = step and F = F
      and index = index and trajs = trajs and b = b and n = n and i = i] assms
  unfolding prompt_groups_def by auto

lemma assign_rows_nth:
  "length (assign_rows idxs row b) = length b
    \<and> (i < length b \<longrightarrow> assign_rows idxs row b ! i = (if i \<in> set idxs then row else b ! i))"
  unfolding assign_rows_def by (induction idxs arbitrary: b) (auto simp: nth_list_update)

section \<open>The zeroed tail\<close>

lemma sort_max_last:
  assumes "p < length ns" "\<forall>j < length ns. j \<noteq> p \<longrightarrow> ns ! j \<le> ns ! p"
  shows "sort (ns :: real list) = sort (take p ns @ drop (Suc p) ns) @ [ns ! p]"
proof (rule properties_for_sort)
  have "ns = take p ns @ ns ! p # drop (Suc p) ns" using assms(1) by (rule id_take_nth_drop)
  then have "mset ns = mset (take p ns @ ns ! p # drop (Suc p) ns)" by presburger
  then show "mset (sort (take p ns @ drop (Suc p) ns) @ [ns ! p]) = mset ns" by simp
  have "x \<le> ns ! p" if "x \<in> set (take p ns @ drop (Suc p) ns)" for x
  proof -
    from that have "x \<in> set (take p ns) \<or> x \<in> set (drop (Suc p) ns)" by (simp only: set_append Un_iff)
    then show ?thesis using assms by (auto simp: in_set_conv_nth)
  qed
  then show "sorted (sort (take p ns @ drop (Suc p) ns) @ [ns ! p])"
    by (simp add: sorted_append)
qed

text \<open>The trajectories are distinct rows and their lengths naturals.\<close>

definition unique_longest :: "(nat \<Rightarrow> nat) \<Rightarrow> nat set \<Rightarrow> nat \<Rightarrow> bool" where
  "unique_longest f I i \<longleftrightarrow> (\<forall>j \<in> I - {i}. f j < f i)"

definition cut_tail :: "(nat \<Rightarrow> nat) \<Rightarrow> nat set \<Rightarrow> nat \<Rightarrow> real list \<Rightarrow> real list" where
  "cut_tail f I i row = (if unique_longest f I i then zero_from (Max (f ` (I - {i}))) row else row)"

lemma nat_truncate_real [simp]: "nat (truncate_int (real n)) = n"
  by (simp add: truncate_int_def)

lemma last_sort_Max: "xs \<noteq> [] \<Longrightarrow> sort xs ! (length xs - 1) = Max (set (xs :: real list))"
proof -
  assume ne: "xs \<noteq> []"
  then obtain p where "p < length xs" "xs ! p = Max (set xs)"
    by (metis Max_in List.finite_set in_set_conv_nth set_empty)
  moreover from this have "sort xs = sort (take p xs @ drop (Suc p) xs) @ [xs ! p]"
    by (intro sort_max_last) auto
  ultimately show ?thesis by (simp add: nth_append)
qed

lemma Max_real_image: "finite A \<Longrightarrow> A \<noteq> {} \<Longrightarrow> Max ((\<lambda>j. real (f j)) ` A) = real (Max (f ` A))"
  by (simp add: image_image[symmetric, of real f] mono_Max_commute[symmetric] monoI)

lemma sorted_lens_last:
  "idxs \<noteq> [] \<Longrightarrow> nat (truncate_int (sort (map (\<lambda>j. real (f j)) idxs) ! (length idxs - 1))) = Max (f ` set idxs)"
  using last_sort_Max[of "map (\<lambda>j. real (f j)) idxs"] by (simp add: Max_real_image)

lemma filter_upt_eq: "p < n \<Longrightarrow> filter (\<lambda>j. j = p) [0..<n] = [p]"
  by (induction n) (auto simp: less_Suc_eq filter_empty_conv)

lemma zero_tail_unique:
  assumes "distinct idxs" "2 \<le> length idxs" "p < length idxs" "unique_longest f (set idxs) (idxs ! p)"
  shows "zero_tail idxs (map (\<lambda>j. real (f j)) idxs) b
    = b[idxs ! p := zero_from (Max (f ` (set idxs - {idxs ! p}))) (b ! (idxs ! p))]"
proof -
  let ?N = "length idxs" and ?lens = "map (\<lambda>j. real (f j)) idxs" and ?others = "set idxs - {idxs ! p}"
  let ?rest = "take p ?lens @ drop (Suc p) ?lens" and ?srt = "sort (map (\<lambda>j. real (f j)) idxs)"
  have less: "f j < f (idxs ! p)" if "j \<in> ?others" for j
    using assms(4) that by (auto simp: unique_longest_def)
  have pin: "idxs ! p \<in> set idxs" using assms(3) by simp
  have fp: "Max (f ` set idxs) = f (idxs ! p)"
    using less pin by (intro Max_eqI) (auto intro: less_imp_le)
  have nth: "f (idxs ! j) < f (idxs ! p)" if "j < ?N" "j \<noteq> p" for j
    using less[of "idxs ! j"] that assms(1,3) by (simp add: nth_eq_iff_index_eq)
  note filter_upt_eq[OF assms(3)]
  moreover have "filter (\<lambda>j. ?lens ! j = real (f (idxs ! p))) [0..<?N] = filter (\<lambda>j. j = p) [0..<?N]"
  proof (rule filter_cong)
    fix j assume "j \<in> set [0..<?N]"
    then show "(?lens ! j = real (f (idxs ! p))) = (j = p)" using nth[of j] by (cases "j = p") auto
  qed simp
  ultimately have longest: "filter (\<lambda>j. ?lens ! j = real (f (idxs ! p))) [0..<?N] = [p]" by simp
  have srt: "?srt = sort ?rest @ [?lens ! p]"
    using assms(3) nth by (intro sort_max_last) (auto simp: less_imp_le)
  have "set idxs = set (take p idxs @ idxs ! p # drop (Suc p) idxs)"
    using id_take_nth_drop[OF assms(3)] by simp
  moreover have "distinct (take p idxs @ idxs ! p # drop (Suc p) idxs)"
    using assms(1) id_take_nth_drop[OF assms(3)] by simp
  ultimately have "set (take p idxs @ drop (Suc p) idxs) = ?others" by auto
  then have rest: "set ?rest = (\<lambda>j. real (f j)) ` ?others"
    by (simp add: take_map drop_map image_Un[symmetric])
  have "card ?others = ?N - 1" using assms(1) pin by (simp add: distinct_card)
  then have ne: "?others \<noteq> {}" using assms(2) by (metis One_nat_def card.empty diff_is_0_eq not_less_eq_eq numeral_2_eq_2)
  have len: "length ?rest = ?N - 1" using assms(3) by simp
  then have "?rest \<noteq> []" using assms(2) by (metis list.size(3) One_nat_def diff_is_0_eq not_less_eq_eq numeral_2_eq_2)
  then have "sort ?rest ! (?N - 2) = Max (set ?rest)"
    using last_sort_Max[of ?rest] unfolding len by (simp add: numeral_2_eq_2 del: set_append)
  moreover have "?N - 2 < length (sort ?rest)" unfolding length_sort len using assms(2) by simp
  ultimately have "?srt ! (?N - 2) = Max (set ?rest)" unfolding srt by (simp only: nth_append if_True)
  then have sec: "nat (truncate_int (?srt ! (?N - 2))) = Max (f ` ?others)"
    unfolding rest using ne Max_real_image[of ?others f] by (metis finite_Diff List.finite_set nat_truncate_real)
  have "Max (f ` ?others) < f (idxs ! p)" using ne less by (subst Max_less_iff) auto
  moreover have "nat (truncate_int (?srt ! (?N - 1))) = f (idxs ! p)"
    using sorted_lens_last[of idxs f] pin fp by force
  ultimately show ?thesis
    unfolding zero_tail_def Let_def length_map using longest sec by (simp only: if_True simp_thms list.size One_nat_def add_0 list.sel plus_nat.simps)
qed

lemma zero_tail_no_unique:
  assumes "2 \<le> length idxs" "\<forall>k \<in> set idxs. \<not> unique_longest f (set idxs) k"
  shows "zero_tail idxs (map (\<lambda>j. real (f j)) idxs) b = b"
proof -
  let ?N = "length idxs" and ?lens = "map (\<lambda>j. real (f j)) idxs" and ?mx = "Max (f ` set idxs)"
  let ?longest = "filter (\<lambda>j. ?lens ! j = real ?mx) [0..<?N]"
  have "length ?longest \<noteq> 1"
  proof
    assume "length ?longest = 1"
    then obtain p where p: "?longest = [p]" by (auto simp: length_Suc_conv)
    have "p \<in> set ?longest" unfolding p by simp
    then have mem: "p < ?N" "f (idxs ! p) = ?mx" by auto
    have "f j < f (idxs ! p)" if "j \<in> set idxs - {idxs ! p}" for j
    proof -
      from that obtain q where q: "q < ?N" "j = idxs ! q" "q \<noteq> p" by (auto simp: in_set_conv_nth)
      then have "q \<notin> set ?longest" using p by simp
      then have "f j \<noteq> ?mx" using q by simp
      moreover have "f j \<le> ?mx" using that by simp
      ultimately show ?thesis using mem(2) by simp
    qed
    then have "unique_longest f (set idxs) (idxs ! p)" by (simp add: unique_longest_def)
    then show False using assms(2) mem(1) by simp
  qed
  moreover from assms(1) have "idxs \<noteq> []" by auto
  ultimately show ?thesis unfolding zero_tail_def Let_def length_map by (subst (asm) sorted_lens_last[symmetric]) simp_all
qed

lemma zero_tail_nth:
  assumes "distinct idxs" "2 \<le> length idxs" "\<forall>j \<in> set idxs. j < length b" "i < length b"
  shows "zero_tail idxs (map (\<lambda>j. real (f j)) idxs) b ! i
    = (if i \<in> set idxs then cut_tail f (set idxs) i (b ! i) else b ! i)"
proof (cases "\<exists>k \<in> set idxs. unique_longest f (set idxs) k")
  case True
  then obtain p where p: "p < length idxs" "unique_longest f (set idxs) (idxs ! p)"
    by (auto simp: in_set_conv_nth)
  have "\<not> unique_longest f (set idxs) i" if "i \<in> set idxs" "i \<noteq> idxs ! p"
  proof
    assume u: "unique_longest f (set idxs) i"
    have "f i < f (idxs ! p)" using p(2) that by (simp add: unique_longest_def)
    moreover have "f (idxs ! p) < f i" using u that p(1) by (simp add: unique_longest_def)
    ultimately show False by simp
  qed
  then show ?thesis
    using zero_tail_unique[OF assms(1,2) p, of b] p assms(3,4) by (auto simp: cut_tail_def nth_list_update)
qed (use zero_tail_no_unique[OF assms(2)] in \<open>auto simp: cut_tail_def\<close>)

lemma length_zero_tail [simp]: "length (zero_tail idxs lens b) = length b"
  by (simp add: zero_tail_def Let_def)

section \<open>Cutting masked tokens out of a row\<close>

named_theorems pack_simps \<open>padded rows under elementwise operations\<close>

definition binary_row :: "real list \<Rightarrow> bool" where
  "binary_row m \<longleftrightarrow> (\<forall>b \<in> set m. b = 0 \<or> b = 1)"

lemma binary_row_Cons [simp]: "binary_row (b # m) \<longleftrightarrow> (b = 0 \<or> b = 1) \<and> binary_row m"
  by (auto simp: binary_row_def)

lemma binary_row_rev [simp]: "binary_row (rev m) = binary_row m"
  by (simp add: binary_row_def)

lemma masked_row_simps [simp]:
  "masked_row [] m = []" "masked_row xs [] = []"
  "masked_row (x # xs) (b # m) = (if b \<noteq> 0 then x # masked_row xs m else masked_row xs m)"
  by (simp_all add: masked_row_def)

lemma masked_row_rev: "length xs = length m \<Longrightarrow> masked_row (rev xs) (rev m) = rev (masked_row xs m)"
  by (simp add: masked_row_def zip_rev rev_filter rev_map)

lemma mask_len_binary: "binary_row m \<Longrightarrow> mask_len m = length (filter (\<lambda>b. b \<noteq> 0) m)"
proof -
  assume "binary_row m"
  then have "sum_list m = real (length (filter (\<lambda>b. b \<noteq> 0) m))" by (induction m) auto
  then show ?thesis by (simp add: mask_len_def)
qed

lemma length_masked_row: "length xs = length m \<Longrightarrow> binary_row m \<Longrightarrow> length (masked_row xs m) = mask_len m"
  unfolding mask_len_binary by (induction xs m rule: list_induct2) auto

lemma masked_row_self: "binary_row m \<Longrightarrow> masked_row m m = replicate (mask_len m) 1"
  unfolding mask_len_binary by (induction m) auto

lemma masked_row_map2:
  "length xs = length m \<Longrightarrow> length ys = length m \<Longrightarrow>
    masked_row (map2 f xs ys) m = map2 f (masked_row xs m) (masked_row ys m)"
proof (induction m arbitrary: xs ys)
  case (Cons b m)
  then show ?case by (cases xs; cases ys) auto
qed simp

lemma masked_row_cumsum:
  "length w = length m \<Longrightarrow> binary_row m \<Longrightarrow> masked_row (cumsum a (map2 (*) w m)) m = cumsum a (masked_row w m)"
  by (induction w m arbitrary: a rule: list_induct2) auto

lemma masked_row_reward_to_go:
  assumes "length r = length m" "binary_row m"
  shows "masked_row (reward_to_go (map2 (*) r m)) m = reward_to_go (masked_row r m)"
proof -
  have len: "length (cumsum a xs) = length xs" for a xs by (induction xs arbitrary: a) auto
  have "rev (map2 (*) r m) = map2 (*) (rev r) (rev m)" using assms(1) by (simp add: zip_rev rev_map)
  then have "masked_row (reward_to_go (map2 (*) r m)) m
      = masked_row (rev (cumsum 0 (map2 (*) (rev r) (rev m)))) (rev (rev m))"
    by (simp add: reward_to_go_def)
  also have "\<dots> = rev (masked_row (cumsum 0 (map2 (*) (rev r) (rev m))) (rev m))"
    using assms(1) by (intro masked_row_rev) (simp add: len)
  also have "\<dots> = rev (cumsum 0 (masked_row (rev r) (rev m)))"
    using assms by (subst masked_row_cumsum) auto
  finally show ?thesis using assms(1) by (simp add: masked_row_rev reward_to_go_def)
qed

lemma cumsum_append: "cumsum a (xs @ ys) = cumsum a xs @ cumsum (a + sum_list xs) ys"
  by (induction xs arbitrary: a) (auto simp: add.assoc)

lemma cumsum_zeros: "cumsum a (replicate k 0) = replicate k a"
  by (induction k) auto

lemma reward_to_go_zeros [pack_simps]: "reward_to_go (xs @ replicate k 0) = reward_to_go xs @ replicate k 0"
  by (simp add: reward_to_go_def cumsum_append cumsum_zeros sum_list_replicate)

lemma map2_replicate_right: "map2 (f :: real \<Rightarrow> real \<Rightarrow> real) xs (replicate (length xs) c) = map (\<lambda>x. f x c) xs"
  by (induction xs) auto

lemma map2_mask_pad [pack_simps]:
  "length xs = l \<Longrightarrow> map2 (*) (xs @ ys) (replicate l 1 @ replicate (length ys) 0)
    = xs @ replicate (length ys) (0 :: real)"
  by (auto simp: map2_replicate_right map_replicate_const)

lemma scatter_masked: "length (scatter_row m vs) = length m"
  by (induction m vs rule: scatter_row.induct) (auto split: list.splits)

lemma scatter_row_mask: "binary_row m \<Longrightarrow> map2 (*) (scatter_row m vs) m = scatter_row m vs"
  by (induction m vs rule: scatter_row.induct) (auto split: list.splits)

definition shaped :: "mat \<Rightarrow> mat \<Rightarrow> bool" where
  "shaped t rmask \<longleftrightarrow> length t = length rmask \<and> (\<forall>i < length rmask. length (t ! i) = length (rmask ! i))"

text \<open>A batch with a 0/1 mask whose tensors have the shape of the mask.\<close>

definition otb_batch :: "mat \<Rightarrow> mat \<Rightarrow> 'u list \<Rightarrow> mat \<Rightarrow> mat \<Rightarrow> mat option \<Rightarrow> bool" where
  "otb_batch rewards rmask index old_log_probs sum_pi_squared isw \<longleftrightarrow>
     shaped rewards rmask \<and> shaped old_log_probs rmask \<and> shaped sum_pi_squared rmask
     \<and> (case isw of None \<Rightarrow> True | Some rho \<Rightarrow> shaped rho rmask)
     \<and> length index = length rmask \<and> (\<forall>m \<in> set rmask. binary_row m)"

lemma otb_batchD:
  assumes "otb_batch rewards rmask index olp sps isw"
  shows "shaped rewards rmask" "shaped olp rmask" "shaped sps rmask" "isw = Some rho \<Longrightarrow> shaped rho rmask"
    "length index = length rmask" "i < length rmask \<Longrightarrow> binary_row (rmask ! i)" "m \<in> set rmask \<Longrightarrow> binary_row m"
  using assms by (auto simp: otb_batch_def)

lemma shaped_self: "shaped rmask rmask"
  by (simp add: shaped_def)

lemma shaped_mzip: "shaped s rmask \<Longrightarrow> shaped t rmask \<Longrightarrow> shaped (mzip f s t) rmask"
  by (simp add: shaped_def nth_mzip length_mzip)

lemma shaped_w_per_timestep:
  "otb_batch rewards rmask index olp sps isw \<Longrightarrow> shaped (w_per_timestep olp sps isw) rmask"
  by (cases isw) (auto simp: otb_batch_def w_per_timestep_def intro!: shaped_mzip)

lemma packed_nth:
  assumes "shaped t rmask" "i < length rmask" "binary_row (rmask ! i)"
  shows "packed M t rmask ! i = pad_to M (masked_row (t ! i) (rmask ! i))"
  using assms length_masked_row[of "t ! i" "rmask ! i"] by (auto simp: packed_def shaped_def pad_to_def)

lemma length_packed: "shaped t rmask \<Longrightarrow> length (packed M t rmask) = length rmask"
  by (simp add: packed_def shaped_def)

lemma token_returns_nth:
  assumes "shaped rewards rmask" "i < length rmask"
  shows "token_returns rewards rmask ! i = reward_to_go (map2 (*) (rewards ! i) (rmask ! i))"
  using assms by (simp add: token_returns_def length_mzip nth_mzip shaped_def)

lemma w_cumulative_nth:
  assumes "shaped w rmask" "i < length rmask"
  shows "w_cumulative w rmask ! i = cumsum 0 (map2 (*) (w ! i) (rmask ! i))"
  using assms by (simp add: w_cumulative_def length_mzip nth_mzip shaped_def)

lemma shaped_token_returns: "shaped rewards rmask \<Longrightarrow> shaped (token_returns rewards rmask) rmask"
  by (simp add: shaped_def token_returns_def length_mzip nth_mzip)

lemma shaped_w_cumulative: "shaped w rmask \<Longrightarrow> shaped (w_cumulative w rmask) rmask"
  by (simp add: shaped_def w_cumulative_def length_mzip nth_mzip)

section \<open>The packed batch\<close>

lemma length_packed_row:
  "shaped t rmask \<Longrightarrow> i < length rmask \<Longrightarrow> binary_row (rmask ! i) \<Longrightarrow> mask_len (rmask ! i) \<le> M \<Longrightarrow>
    length (packed M t rmask ! i) = M"
  by (simp add: packed_nth pad_to_def length_masked_row shaped_def)

lemma shaped_packed:
  assumes "shaped t rmask" "\<forall>m \<in> set rmask. binary_row m \<and> mask_len m \<le> M"
  shows "shaped (packed M t rmask) (packed M rmask rmask)"
  using assms by (simp add: shaped_def[of "packed M t rmask"] length_packed length_packed_row shaped_self)

lemma packed_mask_nth:
  "i < length rmask \<Longrightarrow> binary_row (rmask ! i) \<Longrightarrow>
    packed M rmask rmask ! i = replicate (mask_len (rmask ! i)) 1 @ replicate (M - mask_len (rmask ! i)) 0"
  by (simp add: packed_nth shaped_self masked_row_self pad_to_def)

lemma packed_returns:
  assumes "shaped rewards rmask" "\<forall>m \<in> set rmask. binary_row m \<and> mask_len m \<le> M" "i < length rmask"
  shows "token_returns (packed M rewards rmask) (packed M rmask rmask) ! i
    = packed M (token_returns rewards rmask) rmask ! i"
proof -
  let ?m = "rmask ! i" and ?r = "masked_row (rewards ! i) (rmask ! i)"
  have b: "binary_row ?m" and l: "length (rewards ! i) = length ?m"
    using assms by (auto simp: shaped_def)
  have len: "length ?r = mask_len ?m" by (rule length_masked_row[OF l b])
  have "map2 (*) (packed M rewards rmask ! i) (packed M rmask rmask ! i)
      = ?r @ replicate (M - mask_len ?m) 0"
    using assms b map2_mask_pad[OF len, of "replicate (M - mask_len ?m) 0"]
    by (simp add: packed_nth packed_mask_nth pad_to_def len)
  then have "token_returns (packed M rewards rmask) (packed M rmask rmask) ! i
      = reward_to_go ?r @ replicate (M - mask_len ?m) 0"
    using assms token_returns_nth[OF shaped_packed[OF assms(1,2)], of i]
    by (simp add: length_packed shaped_self reward_to_go_zeros)
  moreover have "packed M (token_returns rewards rmask) rmask ! i = reward_to_go ?r @ replicate (M - mask_len ?m) 0"
    using assms b l
    by (simp add: packed_nth shaped_token_returns token_returns_nth masked_row_reward_to_go pad_to_def len)
  ultimately show ?thesis by simp
qed

text \<open>The packed weights agree where the packed mask is 1.\<close>

lemma packed_w_row:
  assumes "otb_batch rewards rmask index olp sps isw" "\<forall>m \<in> set rmask. mask_len m \<le> M" "i < length rmask"
  obtains junk where "w_per_timestep (packed M olp rmask) (packed M sps rmask) (map_option (\<lambda>t. packed M t rmask) isw) ! i
      = masked_row (w_per_timestep olp sps isw ! i) (rmask ! i) @ junk"
    "length junk = M - mask_len (rmask ! i)"
proof -
  note d = otb_batchD[OF assms(1)]
  let ?m = "rmask ! i" and ?k = "M - mask_len (rmask ! i)"
  have b: "binary_row ?m" by (rule d(6)[OF assms(3)])
  have p: "packed M t rmask ! i = masked_row (t ! i) ?m @ replicate ?k 0 \<and> length (masked_row (t ! i) ?m) = mask_len ?m
      \<and> length (t ! i) = length ?m \<and> i < length t \<and> i < length (packed M t rmask)"
    if "shaped t rmask" for t
    using that assms(3) b length_masked_row[of "t ! i" ?m]
    by (simp add: packed_nth pad_to_def shaped_def length_packed)
  note p1 = p[OF d(2)] and p2 = p[OF d(3)]
  show thesis
  proof (cases isw)
    case None
    show thesis
      by (rule that[of "map2 (\<lambda>lp s. 1 - 2 * exp lp + s) (replicate ?k 0) (replicate ?k 0)"])
        (use p1 p2 in \<open>simp_all add: None w_per_timestep_def nth_mzip masked_row_map2\<close>)
  next
    case (Some rho)
    note p3 = p[OF d(4)[OF Some]]
    show thesis
      by (rule that[of "map2 (\<lambda>x r. x * r\<^sup>2) (map2 (\<lambda>lp s. 1 - 2 * exp lp + s) (replicate ?k 0) (replicate ?k 0)) (replicate ?k 0)"])
        (use p1 p2 p3 in \<open>simp_all add: Some w_per_timestep_def nth_mzip length_mzip masked_row_map2\<close>)
  qed
qed

lemma packed_weights:
  assumes "otb_batch rewards rmask index olp sps isw" "\<forall>m \<in> set rmask. mask_len m \<le> M" "i < length rmask"
  shows "map2 (*) (w_cumulative (w_per_timestep (packed M olp rmask) (packed M sps rmask)
        (map_option (\<lambda>t. packed M t rmask) isw)) (packed M rmask rmask) ! i) (packed M rmask rmask ! i)
    = packed M (w_cumulative (w_per_timestep olp sps isw) rmask) rmask ! i"
proof -
  let ?w = "w_per_timestep olp sps isw" and ?m = "rmask ! i" and ?k = "M - mask_len (rmask ! i)"
  let ?w' = "w_per_timestep (packed M olp rmask) (packed M sps rmask) (map_option (\<lambda>t. packed M t rmask) isw)"
  note d = otb_batchD[OF assms(1)]
  have b: "binary_row ?m" by (rule d(6)[OF assms(3)])
  have sw: "shaped ?w rmask" by (rule shaped_w_per_timestep[OF assms(1)])
  then have lw: "length (?w ! i) = length ?m" using assms(3) by (simp add: shaped_def)
  have len: "length (masked_row (?w ! i) ?m) = mask_len ?m" by (rule length_masked_row[OF lw b])
  have "otb_batch (packed M rewards rmask) (packed M rmask rmask) index (packed M olp rmask) (packed M sps rmask)
      (map_option (\<lambda>t. packed M t rmask) isw)"
    using d assms(2) unfolding otb_batch_def
    by (auto simp: shaped_packed length_packed shaped_self binary_row_def in_set_conv_nth packed_mask_nth nth_append
        split: option.splits)
  then have sw': "shaped ?w' (packed M rmask rmask)" by (rule shaped_w_per_timestep)
  obtain junk where junk: "?w' ! i = masked_row (?w ! i) ?m @ junk" "length junk = ?k"
    by (rule packed_w_row[OF assms])
  have "map2 (*) (?w' ! i) (packed M rmask rmask ! i) = masked_row (?w ! i) ?m @ replicate ?k 0"
    using map2_mask_pad[OF len, of junk] by (simp add: packed_mask_nth[OF assms(3) b] junk)
  then have "w_cumulative ?w' (packed M rmask rmask) ! i
      = cumsum 0 (masked_row (?w ! i) ?m) @ replicate ?k (sum_list (masked_row (?w ! i) ?m))"
    using assms(3) by (simp add: w_cumulative_nth[OF sw'] length_packed shaped_self cumsum_append cumsum_zeros)
  moreover have "packed M (w_cumulative ?w rmask) rmask ! i = cumsum 0 (masked_row (?w ! i) ?m) @ replicate ?k 0"
    using assms(3) b lw sw
    by (simp add: packed_nth shaped_w_cumulative w_cumulative_nth masked_row_cumsum pad_to_def len)
  ultimately show ?thesis
    using map2_mask_pad[of "cumsum 0 (masked_row (?w ! i) ?m)" "mask_len ?m"
        "replicate ?k (sum_list (masked_row (?w ! i) ?m))"]
    by (simp add: packed_mask_nth[OF assms(3) b] len)
qed

section \<open>Baselines of the two estimators\<close>

definition group_baseline :: "real \<Rightarrow> nat \<Rightarrow> mat \<Rightarrow> mat \<Rightarrow> nat list \<Rightarrow> real list" where
  "group_baseline eps M R W idxs =
     weighted_baseline eps M (map (\<lambda>i. map2 (*) (R ! i) (W ! i)) idxs) (map (\<lambda>i. W ! i) idxs)"

lemma column_sums_drop:
  assumes "\<And>i t. i \<in> set idxs \<Longrightarrow> \<not> P i \<Longrightarrow> t < M \<Longrightarrow> h i ! t = 0"
  shows "column_sums M (map h (filter P idxs)) = column_sums M (map h idxs)"
proof -
  have "sum_list (map (\<lambda>i. h i ! t) (filter P idxs)) = sum_list (map (\<lambda>i. h i ! t) idxs)" if "t < M" for t
    using assms that by (intro sum_list_map_filter) auto
  then show ?thesis by (simp add: column_sums_def o_def)
qed

lemma group_baseline_drop:
  assumes "\<And>i. i \<in> set idxs \<Longrightarrow> \<not> P i \<Longrightarrow> W ! i = replicate M 0" "\<And>i. i \<in> set idxs \<Longrightarrow> length (R ! i) = M"
  shows "group_baseline eps M R W (filter P idxs) = group_baseline eps M R W idxs"
  unfolding group_baseline_def weighted_baseline_def
  using assms by (subst (1 2) column_sums_drop) auto

lemma length_group_baseline [simp]: "length (group_baseline eps M R W idxs) = M"
  by (simp add: group_baseline_def weighted_baseline_def column_sums_def)

lemma cut_tail_drop:
  assumes "finite I" "i \<in> I" "0 < f i" "I \<inter> {j. f j \<noteq> 0} \<noteq> {i}"
  shows "cut_tail f (I \<inter> {j. f j \<noteq> 0}) i row = cut_tail f I i row"
proof -
  let ?J = "I \<inter> {j. f j \<noteq> 0}"
  have u: "unique_longest f ?J i = unique_longest f I i"
    using assms(3) by (auto simp: unique_longest_def)
  have ne: "?J - {i} \<noteq> {}" using assms by auto
  have "Max (f ` (I - {i})) = Max (f ` (?J - {i}))"
  proof (rule Max_eqI)
    have "Max (f ` (?J - {i})) \<in> f ` (?J - {i})"
      using ne assms(1) by (intro Max_in) simp_all
    moreover have "f ` (?J - {i}) \<subseteq> f ` (I - {i})" by (intro image_mono) blast
    ultimately show "Max (f ` (?J - {i})) \<in> f ` (I - {i})" by (rule rev_subsetD)
    show "y \<le> Max (f ` (?J - {i}))" if "y \<in> f ` (I - {i})" for y
    proof (cases "y = 0")
      case False
      with that have "y \<in> f ` (?J - {i})" by blast
      then show ?thesis using assms(1) by (intro Max_ge) simp_all
    qed simp
  qed (use assms(1) in simp)
  then show ?thesis unfolding cut_tail_def u by (simp only:)
qed

lemma cut_tail_alone:
  assumes "finite I" "i \<in> I" "0 < f i" "I \<inter> {j. f j \<noteq> 0} = {i}" "I \<noteq> {i}"
  shows "cut_tail f I i row = replicate (length row) 0"
proof -
  have z: "f j = 0" if "j \<in> I - {i}" for j using assms(4) that by blast
  moreover have "I - {i} \<noteq> {}" using assms(2,5) by blast
  ultimately have "f ` (I - {i}) = {0}" by (metis (no_types, lifting) image_cong image_constant_conv)
  moreover have "unique_longest f I i" unfolding unique_longest_def using assms(3) z by force
  ultimately show ?thesis by (simp add: cut_tail_def zero_from_def)
qed

text \<open>The baseline of a row that both estimators compute.\<close>

definition row_baseline :: "real \<Rightarrow> nat \<Rightarrow> (nat \<Rightarrow> nat) \<Rightarrow> mat \<Rightarrow> mat \<Rightarrow> nat list \<Rightarrow> nat \<Rightarrow> real list \<Rightarrow> real list" where
  "row_baseline eps M f R W idxs i row =
     (if length idxs = 1 then row else cut_tail f (set idxs) i (group_baseline eps M R W idxs))"

lemma row_baseline_drop:
  assumes "distinct idxs" "i \<in> set idxs" "0 < f i"
    and "\<And>j. j \<in> set idxs \<Longrightarrow> f j = 0 \<Longrightarrow> W ! j = replicate M 0" "\<And>j. j \<in> set idxs \<Longrightarrow> length (R ! j) = M"
  shows "row_baseline eps M f R W (filter (\<lambda>j. f j \<noteq> 0) idxs) i (replicate M 0)
    = row_baseline eps M f R W idxs i (replicate M 0)"
proof -
  let ?J = "filter (\<lambda>j. f j \<noteq> 0) idxs"
  have set: "set ?J = set idxs \<inter> {j. f j \<noteq> 0}" by auto
  have one: "length js = 1 \<longleftrightarrow> set js = {i}" if "distinct js" "i \<in> set js" for js
    using that by (auto simp: length_Suc_conv distinct_card[symmetric] card_Suc_eq)
  have J: "distinct ?J" "i \<in> set ?J" using assms by simp_all
  have wb: "group_baseline eps M R W ?J = group_baseline eps M R W idxs"
    using assms(4,5) by (intro group_baseline_drop) auto
  show ?thesis
  proof (cases "set ?J = {i}")
    case True
    then show ?thesis
      using one[OF J] one[OF assms(1,2)] cut_tail_alone[where f = f, OF finite_set assms(2,3) True[unfolded set]]
      by (simp add: row_baseline_def del: set_filter)
  next
    case False
    then have "set idxs \<noteq> {i}" using J(2) by auto
    then have "length ?J \<noteq> 1" "length idxs \<noteq> 1" using False one[OF J] one[OF assms(1,2)] by blast+
    then show ?thesis
      using cut_tail_drop[where f = f, OF finite_set assms(2,3) False[unfolded set]]
      unfolding row_baseline_def wb set by (simp only: if_False)
  qed
qed

lemma one_or_more: "xs \<noteq> [] \<Longrightarrow> length xs \<noteq> 1 \<Longrightarrow> 2 \<le> length xs"
  by (cases xs) (auto simp: Suc_le_eq)

lemma map2_assoc_mult: "map2 (*) (map2 (*) xs ys) zs = map2 (*) xs (map2 (*) ys (zs :: real list))"
proof (induction xs arbitrary: ys zs)
  case (Cons x xs)
  then show ?case by (cases ys; cases zs) auto
qed simp

text \<open>One group of the single-turn loop, on rows whose weights times the mask are \<open>W\<close>.\<close>

lemma otb_group_nth:
  assumes "idxs \<noteq> []" "distinct idxs" "\<forall>j \<in> set idxs. j < n"
    and "\<And>j. j < n \<Longrightarrow> map2 (*) (w ! j) (rmask ! j) = W ! j" "\<And>j. j < n \<Longrightarrow> sum_list (rmask ! j) = real (f j)"
    and "length b = n" "i < n"
  shows "length (otb_group eps True M R w rmask b idxs) = n \<and> otb_group eps True M R w rmask b idxs ! i
    = (if i \<in> set idxs then row_baseline eps M f R W idxs i (b ! i) else b ! i)"
proof (cases "length idxs = 1")
  case True
  then show ?thesis using assms(6,7) by (auto simp: otb_group_def row_baseline_def)
next
  case False
  let ?row = "group_baseline eps M R W idxs"
  have wm: "mzip (*) (map (\<lambda>i. w ! i) idxs) (map (\<lambda>i. rmask ! i) idxs) = map (\<lambda>i. W ! i) idxs"
    using assms(3,4) by (auto simp: mzip_def zip_map_map zip_same_conv_map)
  moreover have "mzip (*) (mzip (*) (map (\<lambda>i. R ! i) idxs) (map (\<lambda>i. w ! i) idxs)) (map (\<lambda>i. rmask ! i) idxs)
      = map (\<lambda>i. map2 (*) (R ! i) (W ! i)) idxs"
    using assms(3,4) by (auto simp: mzip_def zip_map_map zip_same_conv_map map2_assoc_mult)
  moreover have "map sum_list (map (\<lambda>i. rmask ! i) idxs) = map (\<lambda>j. real (f j)) idxs"
    using assms(3,5) by simp
  ultimately have "otb_group eps True M R w rmask b idxs
      = zero_tail idxs (map (\<lambda>j. real (f j)) idxs) (assign_rows idxs ?row b)"
    using False unfolding otb_group_def Let_def group_baseline_def by presburger
  moreover have "zero_tail idxs (map (\<lambda>j. real (f j)) idxs) (assign_rows idxs ?row b) ! i
      = (if i \<in> set idxs then cut_tail f (set idxs) i (assign_rows idxs ?row b ! i) else assign_rows idxs ?row b ! i)"
    using assms assign_rows_nth[of idxs ?row b] by (intro zero_tail_nth one_or_more[OF assms(1) False]) auto
  ultimately show ?thesis
    using False assms(6,7) assign_rows_nth[of idxs ?row b i] by (simp add: row_baseline_def)
qed

text \<open>One group of the multi-turn loop.\<close>

lemma tir_group_nth:
  assumes "idxs \<noteq> []" "distinct idxs" "\<forall>j \<in> set idxs. j < n" "length b = n" "i < n"
  shows "length (tir_group eps True M R W rmask b idxs) = n \<and> tir_group eps True M R W rmask b idxs ! i
    = (if i \<in> set idxs then row_baseline eps M (\<lambda>j. mask_len (rmask ! j)) R W idxs i (replicate M 0) else b ! i)"
proof (cases "length idxs = 1")
  case True
  then show ?thesis
    using assms(4,5) assign_rows_nth[of idxs "replicate M 0" b i] by (auto simp: tir_group_def row_baseline_def)
next
  case False
  let ?row = "group_baseline eps M R W idxs" and ?f = "\<lambda>j. mask_len (rmask ! j)"
  have "mzip (*) (map (\<lambda>i. R ! i) idxs) (map (\<lambda>i. W ! i) idxs) = map (\<lambda>i. map2 (*) (R ! i) (W ! i)) idxs"
    by (simp add: mzip_def zip_map_map zip_same_conv_map)
  then have "tir_group eps True M R W rmask b idxs
      = zero_tail idxs (map (\<lambda>j. real (?f j)) idxs) (assign_rows idxs ?row b)"
    using False by (simp add: tir_group_def Let_def group_baseline_def o_def)
  moreover have "zero_tail idxs (map (\<lambda>j. real (?f j)) idxs) (assign_rows idxs ?row b) ! i
      = (if i \<in> set idxs then cut_tail ?f (set idxs) i (assign_rows idxs ?row b ! i) else assign_rows idxs ?row b ! i)"
    using assms assign_rows_nth[of idxs ?row b] by (intro zero_tail_nth one_or_more[OF assms(1) False]) auto
  ultimately show ?thesis
    using False assms(4,5) assign_rows_nth[of idxs ?row b i] by (simp add: row_baseline_def)
qed

lemma same_prompt_nonempty: "u \<in> (!) index ` set trajs \<Longrightarrow> same_prompt index trajs u \<noteq> []"
  by (auto simp: filter_empty_conv)

lemma otb_baselines:
  assumes "\<And>j. j < n \<Longrightarrow> map2 (*) (w ! j) (rmask ! j) = W ! j" "\<And>j. j < n \<Longrightarrow> sum_list (rmask ! j) = real (f j)"
    and "length b = n" "i < n"
  shows "length (foldl (otb_group eps True M R w rmask) b (prompt_groups index [0..<n])) = n
    \<and> foldl (otb_group eps True M R w rmask) b (prompt_groups index [0..<n]) ! i
      = row_baseline eps M f R W (same_prompt index [0..<n] (index ! i)) i (b ! i)"
proof -
  have "length (otb_group eps True M R w rmask b (same_prompt index [0..<n] u)) = n
    \<and> (\<forall>i<n. otb_group eps True M R w rmask b (same_prompt index [0..<n] u) ! i
        = (if i \<in> set (same_prompt index [0..<n] u)
           then row_baseline eps M f R W (same_prompt index [0..<n] u) i (b ! i) else b ! i))"
    if "u \<in> (!) index ` set [0..<n]" "length b = n" for b u
  proof -
    have g: "distinct (same_prompt index [0..<n] u)" "\<forall>j \<in> set (same_prompt index [0..<n] u). j < n" by simp_all
    note nth = otb_group_nth[OF same_prompt_nonempty[OF that(1)] g assms(1,2) that(2)]
    from nth[OF _ _ assms(4)] nth show ?thesis by blast
  qed
  from foldl_prompt_groups[where F = "row_baseline eps M f R W", OF this assms(3,4)] show ?thesis
    using assms(4) by simp
qed

lemma tir_baselines:
  assumes "length b = n" "i < n" "\<forall>j \<in> set trajs. j < n" "distinct trajs" "i \<in> set trajs"
  shows "length (foldl (tir_group eps True M R W rmask) b (prompt_groups index trajs)) = n
    \<and> foldl (tir_group eps True M R W rmask) b (prompt_groups index trajs) ! i
      = row_baseline eps M (\<lambda>j. mask_len (rmask ! j)) R W (same_prompt index trajs (index ! i)) i (replicate M 0)"
proof -
  let ?F = "\<lambda>g i r. row_baseline eps M (\<lambda>j. mask_len (rmask ! j)) R W g i (replicate M 0)"
  have "length (tir_group eps True M R W rmask b (same_prompt index trajs u)) = n
    \<and> (\<forall>i<n. tir_group eps True M R W rmask b (same_prompt index trajs u) ! i
        = (if i \<in> set (same_prompt index trajs u) then ?F (same_prompt index trajs u) i (b ! i) else b ! i))"
    if "u \<in> (!) index ` set trajs" "length b = n" for b u
  proof -
    have g: "distinct (same_prompt index trajs u)" "\<forall>j \<in> set (same_prompt index trajs u). j < n"
      using assms(3,4) by simp_all
    note nth = tir_group_nth[OF same_prompt_nonempty[OF that(1)] g that(2)]
    from nth[OF assms(2)] nth show ?thesis by blast
  qed
  from foldl_prompt_groups[where F = ?F, OF this assms(1,2)] show ?thesis
    using assms(5) by simp
qed

section \<open>The multi-turn estimator is the single-turn one on packed rows\<close>

lemma scatter_row_Nil [simp]: "scatter_row m [] = map (\<lambda>_. 0) m"
  by (induction m) auto

lemma take_masked_prefix:
  "l \<le> M \<Longrightarrow> length xs \<le> M \<Longrightarrow>
    take l (map2 (*) xs (replicate l 1 @ replicate (M - l) 0)) = take l (xs :: real list)"
  by (intro nth_equalityI) (auto simp: nth_append)

lemma length_foldl_step: "(\<And>b g. length (step b g) = length b) \<Longrightarrow> length (foldl step b gs) = length b"
  by (induction gs arbitrary: b) simp_all

lemma length_assign_rows [simp]: "length (assign_rows idxs row b) = length b"
  using assign_rows_nth by blast

lemma length_baselines [simp]:
  "length (foldl (otb_group eps h T R w rmask) b gs) = length b"
  "length (foldl (tir_group eps h T R w rmask) b gs) = length b"
  by (rule length_foldl_step; simp add: otb_group_def tir_group_def Let_def)+

text \<open>The last steps of the two estimators, row by row.\<close>

lemma packed_rows_agree:
  assumes len: "length R = length rmask" "length B = length rmask" "length B' = length rmask" "length P = length rmask"
    and row: "\<And>i. i < length rmask \<Longrightarrow> binary_row (rmask ! i) \<and> mask_len (rmask ! i) \<le> M \<and> length (R ! i) = M
        \<and> P ! i = replicate (mask_len (rmask ! i)) 1 @ replicate (M - mask_len (rmask ! i)) 0
        \<and> (0 < mask_len (rmask ! i) \<longrightarrow> B ! i = B' ! i)"
  shows "mzip (*) (map2 (\<lambda>m a. if mask_len m = 0 then map (\<lambda>_. 0) m else scatter_row m (take (mask_len m) a))
      rmask (mzip (-) R B)) rmask
    = map2 (\<lambda>m a. scatter_row m (take (mask_len m) a)) rmask (mzip (*) (mzip (-) R B') P)"
proof (rule nth_equalityI)
  fix i assume "i < length (mzip (*) (map2 (\<lambda>m a. if mask_len m = 0 then map (\<lambda>_. 0) m
      else scatter_row m (take (mask_len m) a)) rmask (mzip (-) R B)) rmask)"
  then have i: "i < length rmask" by (simp add: length_mzip)
  let ?m = "rmask ! i" and ?l = "mask_len (rmask ! i)"
  note r = row[OF i]
  have take: "take ?l (map2 (*) (map2 (-) (R ! i) (B' ! i)) (P ! i)) = take ?l (map2 (-) (R ! i) (B' ! i))"
    using r take_masked_prefix[of ?l M "map2 (-) (R ! i) (B' ! i)"] by simp
  have "map2 (*) (if ?l = 0 then map (\<lambda>_. 0) ?m else scatter_row ?m (take ?l (map2 (-) (R ! i) (B ! i)))) ?m
      = scatter_row ?m (take ?l (map2 (-) (R ! i) (B' ! i)))"
  proof (cases "?l = 0")
    case True
    then show ?thesis using r scatter_row_mask[of ?m "[]"] by simp
  qed (use r scatter_row_mask in auto)
  then show "mzip (*) (map2 (\<lambda>m a. if mask_len m = 0 then map (\<lambda>_. 0) m else scatter_row m (take (mask_len m) a))
      rmask (mzip (-) R B)) rmask ! i
    = map2 (\<lambda>m a. scatter_row m (take (mask_len m) a)) rmask (mzip (*) (mzip (-) R B') P) ! i"
    using i len take by (simp add: nth_mzip length_mzip)
qed (simp add: length_mzip len)

abbreviation packed_is :: "nat \<Rightarrow> mat option \<Rightarrow> mat \<Rightarrow> mat option" where
  "packed_is M isw rmask \<equiv> map_option (\<lambda>t. packed M t rmask) isw"

text \<open>The baselines both loops leave in a row that has valid tokens.\<close>

lemma baselines_agree:
  fixes M :: nat
  assumes ok: "otb_batch rewards rmask index olp sps isw" and M: "\<forall>m \<in> set rmask. mask_len m \<le> M"
    and i: "i < length rmask" "0 < mask_len (rmask ! i)"
  defines "R \<equiv> packed M (token_returns rewards rmask) rmask"
    and "W \<equiv> packed M (w_cumulative (w_per_timestep olp sps isw) rmask) rmask"
    and "R' \<equiv> token_returns (packed M rewards rmask) (packed M rmask rmask)"
    and "w' \<equiv> w_cumulative (w_per_timestep (packed M olp rmask) (packed M sps rmask) (packed_is M isw rmask))
       (packed M rmask rmask)"
  shows "foldl (tir_group eps True M R W rmask) (replicate (length rmask) (replicate M 0))
      (prompt_groups index (filter (\<lambda>i. map mask_len rmask ! i \<noteq> 0) [0..<length rmask])) ! i
    = foldl (otb_group eps True M R' w' (packed M rmask rmask)) (map (\<lambda>r. map (\<lambda>_. 0) r) R')
      (prompt_groups index [0..<length rmask]) ! i"
proof -
  let ?n = "length rmask" and ?f = "\<lambda>j. mask_len (rmask ! j)"
  let ?trajs = "filter (\<lambda>i. map mask_len rmask ! i \<noteq> 0) [0..<length rmask]"
  note d = otb_batchD[OF ok]
  have bin: "\<forall>m \<in> set rmask. binary_row m \<and> mask_len m \<le> M" using d(7) M by blast
  have sr: "shaped (token_returns rewards rmask) rmask" by (rule shaped_token_returns[OF d(1)])
  have R': "R' = R"
    unfolding R'_def R_def using packed_returns[OF d(1) bin] shaped_token_returns[OF shaped_packed[OF d(1) bin]]
    by (intro nth_equalityI) (auto simp: length_packed[OF sr] shaped_def length_packed[OF shaped_self])
  have lenR: "length R = ?n" "j < ?n \<Longrightarrow> length (R ! j) = M" for j
    using length_packed_row[OF sr] bin by (auto simp: R_def length_packed[OF sr])
  have W: "map2 (*) (w' ! j) (packed M rmask rmask ! j) = W ! j" if "j < ?n" for j
    unfolding w'_def W_def by (rule packed_weights[OF ok M that])
  have f: "sum_list (packed M rmask rmask ! j) = real (?f j)" if "j < ?n" for j
    using packed_mask_nth[of j rmask M] d(6)[OF that] that by (simp add: sum_list_replicate)
  have W0: "W ! j = replicate M 0" if "j < ?n" "?f j = 0" for j
    using that shaped_w_cumulative[OF shaped_w_per_timestep[OF ok]] by (simp add: W_def packed_def shaped_def)
  let ?G = "same_prompt index [0..<?n] (index ! i)"
  have G: "same_prompt index ?trajs (index ! i) = filter (\<lambda>j. ?f j \<noteq> 0) ?G"
    by (auto intro: filter_cong simp: filter_filter conj_commute)
  have "foldl (tir_group eps True M R W rmask) (replicate ?n (replicate M 0)) (prompt_groups index ?trajs) ! i
      = row_baseline eps M ?f R W (filter (\<lambda>j. ?f j \<noteq> 0) ?G) i (replicate M 0)"
    unfolding G[symmetric] using i by (intro conjunct2[OF tir_baselines[where n = ?n]]) auto
  also have "\<dots> = row_baseline eps M ?f R W ?G i (replicate M 0)"
    using i W0 lenR by (intro row_baseline_drop) auto
  also have "\<dots> = row_baseline eps M ?f R W ?G i (map (\<lambda>r. map (\<lambda>_. 0) r) R' ! i)"
    using lenR i by (simp add: R' map_replicate_const)
  also have "\<dots> = foldl (otb_group eps True M R' w' (packed M rmask rmask)) (map (\<lambda>r. map (\<lambda>_. 0) r) R')
          (prompt_groups index [0..<?n]) ! i"
    unfolding R' by (rule sym, rule conjunct2, rule otb_baselines[where n = ?n]) (use W f lenR i in simp_all)
  finally show ?thesis .
qed

text \<open>
  C36. The multi-turn optimal-token-baseline estimator is the single-turn one on the batch whose
  rows are packed: with a 0/1 mask, cutting the observation and padding tokens out of every row
  (rewards, log-probabilities, \<open>sum_pi_squared\<close>, importance weights), padding to the longest
  response, running the single-turn estimator there and putting the advantages back on the
  policy's tokens gives its result.  So a trajectory's baseline is aligned by the number of tokens
  the policy has produced, whatever the tools returned in between.
\<close>

theorem multi_turn_baseline_is_packed_baseline:
  assumes "otb_batch rewards rmask index olp sps isw" and "rmask \<noteq> []"
    and M: "M = Max (set (map mask_len rmask))"
  shows "\<exists>A R A' R'.
      compute_multi_turn_optimal_token_baseline_advantage rewards rmask index olp sps isw True eps = Inr (A, R)
    \<and> compute_optimal_token_baseline_advantage (packed M rewards rmask) (packed M rmask rmask) index
        (packed M olp rmask) (packed M sps rmask) (packed_is M isw rmask) True eps = Inr (A', R')
    \<and> A = map2 (\<lambda>m a. scatter_row m (take (mask_len m) a)) rmask A'"
proof -
  let ?n = "length rmask" and ?P = "\<lambda>t. packed M t rmask"
  note d = otb_batchD[OF assms(1)]
  let ?R = "token_returns rewards rmask" and ?w = "w_cumulative (w_per_timestep olp sps isw) rmask"
  let ?R' = "token_returns (?P rewards) (?P rmask)"
  let ?w' = "w_cumulative (w_per_timestep (?P olp) (?P sps) (packed_is M isw rmask)) (?P rmask)"
  let ?trajs = "filter (\<lambda>i. map mask_len rmask ! i \<noteq> 0) [0..<?n]"
  let ?B = "foldl (tir_group eps True M (?P ?R) (?P ?w) rmask) (replicate ?n (replicate M 0)) (prompt_groups index ?trajs)"
  let ?B' = "foldl (otb_group eps True M ?R' ?w' (?P rmask)) (map (\<lambda>r. map (\<lambda>_. 0) r) ?R') (prompt_groups index [0..<?n])"
  let ?A = "mzip (*) (map2 (\<lambda>m a. if mask_len m = 0 then map (\<lambda>_. 0) m else scatter_row m (take (mask_len m) a))
      rmask (mzip (-) (?P ?R) ?B)) rmask"
  let ?A' = "mzip (*) (mzip (-) ?R' ?B') (?P rmask)"
  have le: "\<forall>m \<in> set rmask. mask_len m \<le> M" using M by simp
  have bin: "\<forall>m \<in> set rmask. binary_row m \<and> mask_len m \<le> M" using d(7) le by blast
  have tir: "compute_multi_turn_optimal_token_baseline_advantage rewards rmask index olp sps isw True eps = Inr (?A, ?R)"
    using M assms(2) d(5,7)
    by (simp add: compute_multi_turn_optimal_token_baseline_advantage_def Let_def list_all_iff mask_len_binary)
  have len: "length (?P rewards) = ?n" by (rule length_packed[OF d(1)])
  have "(case ?P rewards of [] \<Rightarrow> 0 | r # _ \<Rightarrow> length r) = M"
    using assms(2) len length_packed_row[OF d(1), of 0 M] bin by (cases "?P rewards") auto
  then have otb: "compute_optimal_token_baseline_advantage (?P rewards) (?P rmask) index (?P olp) (?P sps)
      (packed_is M isw rmask) True eps = Inr (?A', ?R')"
    using d(5) len by (simp add: compute_optimal_token_baseline_advantage_def Let_def)
  have sr: "shaped ?R rmask" by (rule shaped_token_returns[OF d(1)])
  have R': "?R' = ?P ?R"
    using packed_returns[OF d(1) bin] shaped_token_returns[OF shaped_packed[OF d(1) bin]]
    by (intro nth_equalityI) (auto simp: length_packed[OF sr] shaped_def length_packed[OF shaped_self])
  have "?A = map2 (\<lambda>m a. scatter_row m (take (mask_len m) a)) rmask (mzip (*) (mzip (-) (?P ?R) ?B') (?P rmask))"
  proof (rule packed_rows_agree[where M = M])
    fix i assume i: "i < ?n"
    then show "binary_row (rmask ! i) \<and> mask_len (rmask ! i) \<le> M \<and> length (?P ?R ! i) = M
        \<and> ?P rmask ! i = replicate (mask_len (rmask ! i)) 1 @ replicate (M - mask_len (rmask ! i)) 0
        \<and> (0 < mask_len (rmask ! i) \<longrightarrow> ?B ! i = ?B' ! i)"
      using bin length_packed_row[OF sr] packed_mask_nth[of i rmask M] baselines_agree[OF assms(1) le i] by simp
  qed (simp_all add: length_packed sr shaped_self R')
  with tir otb show ?thesis unfolding R' by blast
qed

theorem multi_turn_baseline_is_packed_baseline_witness:
  "\<exists>A R A' R'.
      compute_multi_turn_optimal_token_baseline_advantage [[0, 9, 1], [2, 0, 0]] [[1, 0, 1], [1, 1, 0]]
        [''p'', ''p''] [[0, 5, 0], [0, 0, 7]] [[1, 1, 1], [1, 1, 1]] None True 1 = Inr (A, R)
    \<and> compute_optimal_token_baseline_advantage (packed 2 [[0, 9, 1], [2, 0, 0]] [[1, 0, 1], [1, 1, 0]])
        (packed 2 [[1, 0, 1], [1, 1, 0]] [[1, 0, 1], [1, 1, 0]]) [''p'', ''p'']
        (packed 2 [[0, 5, 0], [0, 0, 7]] [[1, 0, 1], [1, 1, 0]])
        (packed 2 [[1, 1, 1], [1, 1, 1]] [[1, 0, 1], [1, 1, 0]])
        (packed_is 2 None [[1, 0, 1], [1, 1, 0]]) True 1 = Inr (A', R')
    \<and> A = map2 (\<lambda>m a. scatter_row m (take (mask_len m) a)) [[1, 0, 1], [1, 1, 0]] A'"
  by (rule multi_turn_baseline_is_packed_baseline)
    (auto simp: otb_batch_def shaped_def mask_len_def truncate_int_def binary_row_def less_Suc_eq numeral_2_eq_2 numeral_3_eq_3)

end
