(* ===== verification/Train_Step.thy ===== *)
theory Train_Step
  imports Optimal_Baseline Group_Partition Data_Proto Policy_Losses Evidence_Gating
begin

text \<open>
  The driver's work on one batch between generation and the actor update,
  \<open>verl/verl/trainer/ppo/ray_trainer.py\<close>: the balancing order, the KL penalty in the reward, the
  advantages with the registry of estimators, and the two distillation gates.  A row of a tensor
  column is a number, a vector or a matrix; \<open>uid\<close> is a column of texts.  The drawn indices of
  \<open>torch.multinomial\<close> and numpy's text-to-integer conversion are parameters.
\<close>

section \<open>Columns of a training batch\<close>

datatype cell = Num real | Vec "real list" | Mat "real list list"

type_synonym train_batch = "(cell, py) data_proto"

fun as_num :: "cell \<Rightarrow> real res" where
  "as_num (Num x) = Inr x"
| "as_num _ = Inl TypeError"

fun as_vec :: "cell \<Rightarrow> real list res" where
  "as_vec (Vec v) = Inr v"
| "as_vec _ = Inl TypeError"

fun as_str :: "py \<Rightarrow> string res" where
  "as_str (PStr s) = Inr s"
| "as_str _ = Inl TypeError"

fun as_float :: "py \<Rightarrow> real res" where
  "as_float (PNum x) = Inr x"
| "as_float _ = Inl TypeError"

text \<open>\<open>data.batch[k]\<close>; a batch without tensors is \<open>None\<close>, which has no items.\<close>

definition tensor_col :: "string \<Rightarrow> train_batch \<Rightarrow> cell list res" where
  "tensor_col k d =
     (case batch d of
        None \<Rightarrow> Inl TypeError
      | Some td \<Rightarrow> (case map_of (td_cols td) k of None \<Rightarrow> Inl KeyError | Some c \<Rightarrow> Inr c))"

definition mat_col :: "string \<Rightarrow> train_batch \<Rightarrow> mat res" where
  "mat_col k d = bind_res (tensor_col k d) (map_res as_vec)"

definition num_col :: "string \<Rightarrow> train_batch \<Rightarrow> real list res" where
  "num_col k d = bind_res (tensor_col k d) (map_res as_num)"

definition has_tensor :: "string \<Rightarrow> train_batch \<Rightarrow> bool" where
  "has_tensor k d = (case batch d of None \<Rightarrow> False | Some td \<Rightarrow> has_key (td_cols td) k)"

definition uid_col :: "train_batch \<Rightarrow> string list res" where
  "uid_col d = (case map_of (non_tensor_batch d) ''uid'' of None \<Rightarrow> Inl KeyError | Some c \<Rightarrow> map_res as_str c)"

definition put_col :: "string \<Rightarrow> cell list \<Rightarrow> train_batch \<Rightarrow> train_batch" where
  "put_col k c d = d\<lparr>batch := map_option (\<lambda>td. td\<lparr>td_cols := dict_put k c (td_cols td)\<rparr>) (batch d)\<rparr>"

definition tensor_width :: "mat \<Rightarrow> nat" where
  "tensor_width t = (case t of [] \<Rightarrow> 0 | r # _ \<Rightarrow> length r)"

section \<open>Response mask and KL penalty\<close>

definition compute_response_mask :: "train_batch \<Rightarrow> mat res" where
  "compute_response_mask d =
     bind_res (mat_col ''responses'' d) (\<lambda>responses.
     bind_res (mat_col ''attention_mask'' d) (\<lambda>attention_mask.
     Inr (map (last_n (tensor_width responses)) attention_mask)))"

definition with_response_mask :: "train_batch \<Rightarrow> train_batch res" where
  "with_response_mask d =
     (if has_tensor ''response_mask'' d then Inr d
      else bind_res (compute_response_mask d) (\<lambda>m. Inr (put_col ''response_mask'' (map Vec m) d)))"

text \<open>\<open>core_algos.kl_penalty\<close> on tensors; an unknown name is refused whatever they hold.\<close>

definition kl_tensor :: "string \<Rightarrow> mat \<Rightarrow> mat \<Rightarrow> mat res" where
  "kl_tensor name logprob ref_logprob =
     bind_res (kl_penalty (d_const 0) (d_const 0) name) (\<lambda>_.
     map_res (\<lambda>(xs, ys). map_res (\<lambda>(x, y).
       bind_res (kl_penalty (d_const x) (d_const y) name) (\<lambda>z. Inr (fst z))) (zip xs ys)) (zip logprob ref_logprob))"

definition row_masked_mean :: "real list \<Rightarrow> real list \<Rightarrow> real" where
  "row_masked_mean vals m = sum_list (map2 (*) vals m) / (sum_list m + mask_eps)"

definition kl_ctrl_value :: "kl_controller \<Rightarrow> real" where
  "kl_ctrl_value c = (case c of FixedKL v \<Rightarrow> v | AdaptiveKL a \<Rightarrow> kl_value a)"

record kl_metrics =
  reward_kl_penalty :: real
  reward_kl_penalty_coeff :: real

definition penalised_rewards ::
  "kl_controller \<Rightarrow> nat \<Rightarrow> mat \<Rightarrow> mat \<Rightarrow> mat \<Rightarrow> (mat \<times> kl_controller \<times> kl_metrics) res" where
  "penalised_rewards kl_ctrl batch_size token_level_scores kld0 response_mask =
     (let kld = mzip (*) kld0 response_mask;
          beta = kl_ctrl_value kl_ctrl;
          token_level_rewards = mzip (\<lambda>s k. s - beta * k) token_level_scores kld;
          current_kl = mean (map2 row_masked_mean kld response_mask)
      in bind_res (kl_update kl_ctrl current_kl (real batch_size)) (\<lambda>kl_ctrl'.
         Inr (token_level_rewards, kl_ctrl',
              \<lparr>reward_kl_penalty = current_kl, reward_kl_penalty_coeff = beta\<rparr>)))"

definition apply_kl_penalty ::
  "train_batch \<Rightarrow> kl_controller \<Rightarrow> string \<Rightarrow> (train_batch \<times> kl_controller \<times> kl_metrics) res" where
  "apply_kl_penalty d kl_ctrl name =
     bind_res (mat_col ''response_mask'' d) (\<lambda>response_mask.
     bind_res (mat_col ''token_level_scores'' d) (\<lambda>token_level_scores.
     bind_res (mat_col ''old_log_probs'' d) (\<lambda>old_log_probs.
     bind_res (mat_col ''ref_log_prob'' d) (\<lambda>ref_log_prob.
     bind_res (kl_tensor name old_log_probs ref_log_prob) (\<lambda>kld.
     bind_res (penalised_rewards kl_ctrl (proto_len d) token_level_scores kld response_mask) (\<lambda>(rewards, kl_ctrl', m).
     Inr (put_col ''token_level_rewards'' (map Vec rewards) d, kl_ctrl', m)))))))"

section \<open>The estimator registry\<close>

text \<open>The keyword arguments the driver passes; \<open>gdpo_parts\<close> stands for the two raw batches.\<close>

record adv_kwargs =
  kw_rewards :: mat
  kw_mask :: mat
  kw_index :: "string list option"
  kw_baselines :: "real list option"
  kw_gdpo :: "(mat list \<times> real list option) option"
  kw_sum_pi :: "(mat \<times> mat \<times> mat option) option"

text \<open>A required argument that is not passed is a \<open>TypeError\<close>, as is one that is not known.\<close>

definition needed :: "'a option \<Rightarrow> ('a \<Rightarrow> 'b res) \<Rightarrow> 'b res" where
  "needed x f = (case x of None \<Rightarrow> Inl TypeError | Some y \<Rightarrow> f y)"

definition get_adv_estimator_fn ::
  "(string \<Rightarrow> int option) \<Rightarrow> real \<Rightarrow> string \<Rightarrow> (adv_kwargs \<Rightarrow> (mat \<times> mat) res) res" where
  "get_adv_estimator_fn parse gamma name =
     (if name = ''reinforce_plus_plus'' then
        Inr (\<lambda>k. compute_reinforce_plus_plus_outcome_advantage (kw_rewards k) (kw_mask k) gamma)
      else if name = ''reinforce_plus_plus_baseline'' then
        Inr (\<lambda>k. needed (kw_index k) (compute_reinforce_plus_plus_baseline_outcome_advantage (kw_rewards k) (kw_mask k)))
      else if name = ''remax'' then
        Inr (\<lambda>k. needed (kw_baselines k) (\<lambda>b. Inr (compute_remax_outcome_advantage (kw_rewards k) b (kw_mask k))))
      else if name = ''rloo'' then
        Inr (\<lambda>k. needed (kw_index k) (compute_rloo_outcome_advantage (kw_rewards k) (kw_mask k)))
      else if name = ''opo'' then
        Inr (\<lambda>k. needed (kw_index k) (compute_opo_outcome_advantage (kw_rewards k) (kw_mask k)))
      else if name = ''grpo_passk'' then
        Inr (\<lambda>k. needed (kw_index k) (\<lambda>ix.
          compute_grpo_passk_outcome_advantage (kw_rewards k) (kw_mask k) ix (1 / 10 ^ 6) True))
      else if name = ''gpg'' then
        Inr (\<lambda>k. needed (kw_index k) (\<lambda>ix. compute_gpg_outcome_advantage (kw_rewards k) (kw_mask k) ix 1))
      else if name = ''rloo_vectorized'' then
        Inr (\<lambda>k. needed (kw_index k) (\<lambda>ix. Inr (compute_rloo_vectorized_outcome_advantage (kw_rewards k) (kw_mask k) ix)))
      else if name = ''grpo_vectorized'' then
        Inr (\<lambda>k. require (kw_baselines k = None) TypeError (needed (kw_index k) (\<lambda>ix.
          compute_grpo_vectorized_outcome_advantage parse (kw_rewards k) (kw_mask k) (TextLabels ix) (1 / 10 ^ 6) True)))
      else if name = ''optimal_token_baseline'' then
        Inr (\<lambda>k. needed (kw_index k) (\<lambda>ix. needed (kw_sum_pi k) (\<lambda>(sp, olp, isw).
          compute_optimal_token_baseline_advantage (kw_rewards k) (kw_mask k) ix olp sp isw True (1 / 10 ^ 8))))
      else if name = ''tir_optimal_token_baseline'' then
        Inr (\<lambda>k. needed (kw_index k) (\<lambda>ix. needed (kw_sum_pi k) (\<lambda>(sp, olp, isw).
          compute_multi_turn_optimal_token_baseline_advantage (kw_rewards k) (kw_mask k) ix olp sp isw True (1 / 10 ^ 8))))
      else if name = ''gdpo'' then
        Inr (\<lambda>k. needed (kw_index k) (\<lambda>ix. needed (kw_gdpo k) (\<lambda>(score_list, weights).
          compute_gdpo_outcome_advantage score_list weights (kw_mask k) ix (1 / 10 ^ 6) True)))
      else if name = ''grpo'' then
        Inr (\<lambda>k. require (kw_baselines k = None) TypeError (needed (kw_index k) (\<lambda>ix.
          compute_grpo_outcome_advantage (kw_rewards k) (kw_mask k) ix (1 / 10 ^ 6) True)))
      else if name = ''gae'' then Inr (\<lambda>k. Inl TypeError)
      else Inl ValueError)"

section \<open>Advantages of a batch\<close>

record algo_config =
  ac_gamma :: real
  ac_lam :: real
  ac_norm_adv_by_std_in_grpo :: bool
  ac_use_pf_ppo :: bool
  ac_reweight_method :: string
  ac_weight_pow :: real
  ac_gdpo_reward_keys :: "string list"
  ac_gdpo_reward_weights :: "real list option"

text \<open>The reward components of GDPO: each placed on the last valid response token.\<close>

definition gdpo_component :: "train_batch \<Rightarrow> mat \<Rightarrow> int list \<Rightarrow> string \<Rightarrow> mat res" where
  "gdpo_component d rmask valid_len key =
     (case map_of (non_tensor_batch d) key of
        None \<Rightarrow> Inl AssertionError
      | Some col \<Rightarrow> bind_res (map_res as_float col) (\<lambda>rm_score. place_scores rmask rm_score valid_len))"

definition gdpo_score_list :: "algo_config \<Rightarrow> train_batch \<Rightarrow> mat \<Rightarrow> (mat list \<times> real list option) res" where
  "gdpo_score_list cfg d rmask =
     require (ac_gdpo_reward_keys cfg \<noteq> []) AssertionError (
     bind_res (mat_col ''prompts'' d) (\<lambda>prompts.
     bind_res (mat_col ''attention_mask'' d) (\<lambda>attention_mask.
     let prompt_length = tensor_width prompts;
         valid_response_length = map (\<lambda>r. truncate_int (sum_list (drop prompt_length r)) - 1) attention_mask
     in bind_res (map_res (gdpo_component d rmask valid_response_length) (ac_gdpo_reward_keys cfg)) (\<lambda>score_list.
     Inr (score_list, ac_gdpo_reward_weights cfg)))))"

text \<open>PF-PPO: \<open>draw weights n\<close> are the \<open>n\<close> indices \<open>torch.multinomial\<close> draws.\<close>

definition pf_ppo_weights :: "string \<Rightarrow> real \<Rightarrow> real list \<Rightarrow> real list res" where
  "pf_ppo_weights reweight_method weight_pow scores =
     (if reweight_method = ''pow'' then
        Inr (map (\<lambda>s. if weight_pow = 0 then 1 else \<bar>s\<bar> powr weight_pow) scores)
      else if reweight_method = ''max_min'' then
        Inr (map (\<lambda>s. if s = Max (set scores) \<or> s = Min (set scores) then 1 else 0) scores)
      else if reweight_method = ''max_random'' then
        Inr (map (\<lambda>s. if s = Max (set scores) then 2 / 5 else 1 / 10) scores)
      else Inl ValueError)"

definition resample_meta :: "nat \<Rightarrow> nat list \<Rightarrow> py \<Rightarrow> py" where
  "resample_meta n idxs v = (case v of PList l \<Rightarrow> if length l = n then PList (map ((!) l) idxs) else v | _ \<Rightarrow> v)"

definition compute_pf_ppo_reweight_data ::
  "(real list \<Rightarrow> nat \<Rightarrow> nat list) \<Rightarrow> string \<Rightarrow> real \<Rightarrow> train_batch \<Rightarrow> train_batch res" where
  "compute_pf_ppo_reweight_data draw reweight_method weight_pow d =
     bind_res (mat_col ''token_level_scores'' d) (\<lambda>s.
     let scores = map sum_list s in
     bind_res (pf_ppo_weights reweight_method weight_pow scores) (\<lambda>w.
     let weights = map (\<lambda>x. max (x + 1 / 10 ^ 8) (1 / 10 ^ 8)) w;
         idxs = draw weights (length scores)
     in Inr (d\<lparr>batch := map_option (\<lambda>td. td\<lparr>td_cols := map_dict (gather idxs) (td_cols td)\<rparr>) (batch d),
               non_tensor_batch := map_dict (gather idxs) (non_tensor_batch d),
               meta_info := map_dict (resample_meta (length scores) idxs) (meta_info d)\<rparr>)))"

definition put_advantages :: "mat \<times> mat \<Rightarrow> train_batch \<Rightarrow> train_batch" where
  "put_advantages ar d = put_col ''returns'' (map Vec (snd ar)) (put_col ''advantages'' (map Vec (fst ar)) d)"

definition optional_mat :: "string \<Rightarrow> train_batch \<Rightarrow> mat option res" where
  "optional_mat k d = (if has_tensor k d then bind_res (mat_col k d) (\<lambda>t. Inr (Some t)) else Inr None)"

definition adv_kwargs_of :: "algo_config \<Rightarrow> string \<Rightarrow> train_batch \<Rightarrow> adv_kwargs res" where
  "adv_kwargs_of cfg name d =
     bind_res (mat_col ''token_level_rewards'' d) (\<lambda>rewards.
     bind_res (mat_col ''response_mask'' d) (\<lambda>rmask.
     bind_res (if has_key (non_tensor_batch d) ''uid'' then bind_res (uid_col d) (\<lambda>u. Inr (Some u)) else Inr None) (\<lambda>index.
     bind_res (if has_tensor ''reward_baselines'' d then bind_res (num_col ''reward_baselines'' d) (\<lambda>b. Inr (Some b))
               else Inr None) (\<lambda>baselines.
     bind_res (if name = ''gdpo'' then bind_res (gdpo_score_list cfg d rmask) (\<lambda>g. Inr (Some g)) else Inr None) (\<lambda>gdpo.
     bind_res (if name \<in> {''optimal_token_baseline'', ''tir_optimal_token_baseline''} then
                 require (has_tensor ''sum_pi_squared'' d) AssertionError (
                 bind_res (mat_col ''sum_pi_squared'' d) (\<lambda>sp.
                 bind_res (mat_col ''old_log_probs'' d) (\<lambda>olp.
                 bind_res (optional_mat ''rollout_is_weights'' d) (\<lambda>isw. Inr (Some (sp, olp, isw))))))
               else Inr None) (\<lambda>sum_pi.
     Inr \<lparr>kw_rewards = rewards, kw_mask = rmask, kw_index = index, kw_baselines = baselines,
          kw_gdpo = gdpo, kw_sum_pi = sum_pi\<rparr>))))))"

definition compute_advantage ::
  "(string \<Rightarrow> int option) \<Rightarrow> (real list \<Rightarrow> nat \<Rightarrow> nat list) \<Rightarrow> algo_config \<Rightarrow> string \<Rightarrow> train_batch \<Rightarrow> train_batch res" where
  "compute_advantage parse draw cfg adv_estimator d0 =
     bind_res (with_response_mask d0) (\<lambda>d.
     if adv_estimator = ''gae'' then
       bind_res (mat_col ''token_level_rewards'' d) (\<lambda>rewards.
       bind_res (mat_col ''values'' d) (\<lambda>vals.
       bind_res (mat_col ''response_mask'' d) (\<lambda>rmask.
       bind_res (compute_gae_advantage_return rewards vals rmask (ac_gamma cfg) (ac_lam cfg)) (\<lambda>ar.
       let d' = put_advantages ar d in
       if ac_use_pf_ppo cfg then compute_pf_ppo_reweight_data draw (ac_reweight_method cfg) (ac_weight_pow cfg) d'
       else Inr d'))))
     else if adv_estimator = ''grpo'' then
       bind_res (mat_col ''response_mask'' d) (\<lambda>rmask.
       bind_res (mat_col ''token_level_rewards'' d) (\<lambda>rewards.
       bind_res (uid_col d) (\<lambda>index.
       bind_res (compute_grpo_outcome_advantage rewards rmask index (1 / 10 ^ 6) (ac_norm_adv_by_std_in_grpo cfg)) (\<lambda>ar.
       Inr (put_advantages ar d)))))
     else
       bind_res (get_adv_estimator_fn parse (ac_gamma cfg) adv_estimator) (\<lambda>adv_estimator_fn.
       bind_res (adv_kwargs_of cfg adv_estimator d) (\<lambda>kwargs.
       bind_res (adv_estimator_fn kwargs) (\<lambda>ar. Inr (put_advantages ar d)))))"

section \<open>The balancing order\<close>

text \<open>\<open>_get_dp_size\<close>: the ranks of the workers of a role, asked for once and cached.\<close>

definition get_dp_size ::
  "(string \<Rightarrow> nat list) \<Rightarrow> (string \<rightharpoonup> nat list) \<Rightarrow> string \<Rightarrow> (nat \<times> (string \<rightharpoonup> nat list)) res" where
  "get_dp_size query_dispatch_info dispatch_info role =
     (let dispatch_info' = (if dispatch_info role = None then dispatch_info(role \<mapsto> query_dispatch_info role)
            else dispatch_info)
      in case dispatch_info' role of
           None \<Rightarrow> Inl KeyError
         | Some mapping \<Rightarrow> require (mapping \<noteq> []) ValueError (Inr (Max (set mapping) + 1, dispatch_info')))"

text \<open>Mini-batch by mini-batch; \<open>workload_lst[a:b]\<close> stops at the last whole mini-batch.\<close>

definition keep_minibatch_partitions :: "int list \<Rightarrow> nat \<Rightarrow> nat \<Rightarrow> nat list list res" where
  "keep_minibatch_partitions workload_lst minibatch_size dp =
     require (minibatch_size \<noteq> 0) ZeroDivisionError (
     bind_res (map_res (\<lambda>i.
         bind_res (get_seqlen_balanced_partitions
             (py_slice (i * minibatch_size) ((i + 1) * minibatch_size) workload_lst) dp True) (\<lambda>parts.
         Inr (map (map (\<lambda>x. x + minibatch_size * i)) parts)))
       [0..<length workload_lst div minibatch_size]) (\<lambda>rearranged.
     Inr (map (\<lambda>j. concat (map (\<lambda>parts. parts ! j) rearranged)) [0..<dp])))"

text \<open>Smaller samples at both ends of a rank's share.\<close>

definition ends_order :: "int list \<Rightarrow> nat list \<Rightarrow> nat list" where
  "ends_order workload_lst part =
     (let p = sort_key (\<lambda>x. (workload_lst ! x, x)) part in evens p @ rev (odds p))"

definition global_seqlens :: "mat \<Rightarrow> int list" where
  "global_seqlens attention_mask = map (\<lambda>r. truncate_int (sum_list r)) attention_mask"

text \<open>\<open>keep_minibatch\<close> carries the mini-batch size when it is set.\<close>

definition balance_partitions ::
  "nat \<Rightarrow> bool \<Rightarrow> nat option \<Rightarrow> string list option \<Rightarrow> int list \<Rightarrow> nat list list res" where
  "balance_partitions dp use_prefix_grouper keep_minibatch uids seqlens =
     (let workload_lst = map calculate_workload seqlens in
      bind_res
        (if use_prefix_grouper \<and> uids \<noteq> None then
           (let uid_list = the uids in
            require (dp \<noteq> 0) ZeroDivisionError (
            require (length (remdups uid_list) mod dp = 0) ValueError
              (get_group_balanced_partitions seqlens (map Some uid_list) dp)))
         else case keep_minibatch of
           Some minibatch_size \<Rightarrow> keep_minibatch_partitions workload_lst minibatch_size dp
         | None \<Rightarrow> get_seqlen_balanced_partitions workload_lst dp True) (\<lambda>parts.
      Inr (if use_prefix_grouper then parts else map (ends_order workload_lst) parts)))"

definition balance_batch ::
  "nat \<Rightarrow> bool \<Rightarrow> nat option \<Rightarrow> train_batch \<Rightarrow> (train_batch \<times> nat list list \<times> unbalance_report) res" where
  "balance_batch dp use_prefix_grouper keep_minibatch d =
     bind_res (mat_col ''attention_mask'' d) (\<lambda>attention_mask.
     let seqlens = global_seqlens attention_mask in
     bind_res (if has_key (non_tensor_batch d) ''uid'' then bind_res (uid_col d) (\<lambda>u. Inr (Some u)) else Inr None) (\<lambda>uids.
     bind_res (balance_partitions dp use_prefix_grouper keep_minibatch uids seqlens) (\<lambda>global_partition_lst.
     bind_res (reorder (map int (concat global_partition_lst)) d) (\<lambda>d'.
     bind_res (log_seqlen_unbalance seqlens global_partition_lst) (\<lambda>report.
     Inr (d', global_partition_lst, report))))))"

section \<open>The distillation gates\<close>

text \<open>Teacher log-probabilities per token: a row is a vector, or a matrix with the candidates last.\<close>

definition logprobs_of :: "cell list \<Rightarrow> logprob_tensor" where
  "logprobs_of cs =
     (if list_all (\<lambda>c. case c of Vec v \<Rightarrow> True | _ \<Rightarrow> False) cs then
        (let t = map (\<lambda>c. case c of Vec v \<Rightarrow> v | _ \<Rightarrow> []) cs in Dim2 t (tensor_width t))
      else if list_all (\<lambda>c. case c of Mat m \<Rightarrow> True | _ \<Rightarrow> False) cs then
        (let t = map (\<lambda>c. case c of Mat m \<Rightarrow> m | _ \<Rightarrow> []) cs
         in Dim3 t (case t of [] \<Rightarrow> 0 | r # _ \<Rightarrow> length r) (case t of (x # _) # _ \<Rightarrow> length x | _ \<Rightarrow> 0))
      else DimOther)"

record gate_config =
  gc_enabled :: bool
  gc_gamma :: real
  gc_alpha :: real
  gc_w_min :: real
  gc_w_max :: real
  gc_eps :: real

definition evidence_gate_stage :: "gate_config \<Rightarrow> train_batch \<Rightarrow> (train_batch \<times> evidence_metrics option) res" where
  "evidence_gate_stage cfg d =
     (if gc_enabled cfg \<and> has_tensor ''neg_view_logprobs'' d then
        bind_res (tensor_col ''teacher_logprobs'' d) (\<lambda>teacher.
        bind_res (tensor_col ''neg_view_logprobs'' d) (\<lambda>neg.
        bind_res (mat_col ''response_mask'' d) (\<lambda>rmask.
        bind_res (mat_col ''prompts'' d) (\<lambda>prompts.
        bind_res (uid_col d) (\<lambda>uids.
        bind_res (compute_relative_evidence_opd_weights (logprobs_of teacher) (logprobs_of neg)
            (rmask, tensor_width rmask) (tensor_width prompts) uids
            (gc_gamma cfg) (gc_alpha cfg) (gc_w_min cfg) (gc_w_max cfg) (gc_eps cfg)) (\<lambda>(weights, metrics, _).
        Inr (put_col ''evidence_gate'' (map Num weights) d, Some metrics)))))))
      else Inr (d, None))"

definition cue_gate_stage ::
  "gate_config \<Rightarrow> string \<Rightarrow> bool \<Rightarrow> train_batch \<Rightarrow> (train_batch \<times> cue_metrics option) res" where
  "cue_gate_stage cfg group_mode token_level d =
     (if gc_enabled cfg \<and> has_tensor ''nocue_logprobs'' d then
        bind_res (tensor_col ''teacher_logprobs'' d) (\<lambda>teacher.
        bind_res (tensor_col ''nocue_logprobs'' d) (\<lambda>nocue.
        bind_res (mat_col ''response_mask'' d) (\<lambda>rmask.
        bind_res (mat_col ''prompts'' d) (\<lambda>prompts.
        bind_res (if group_mode = ''uid'' then bind_res (uid_col d) (\<lambda>u. Inr (Some u)) else Inr None) (\<lambda>uids.
        bind_res (compute_cue_gate_weights (logprobs_of teacher) (logprobs_of nocue)
            (rmask, tensor_width rmask) (tensor_width prompts) (gc_alpha cfg) (gc_gamma cfg) (gc_w_min cfg)
            (gc_w_max cfg) (gc_eps cfg) (if group_mode = ''uid'' then GroupUid else GroupBatch)
            uids token_level) (\<lambda>(weights, metrics).
        Inr (put_col ''cue_gate'' (case weights of SeqWeights w \<Rightarrow> map Num w | TokenWeights t \<Rightarrow> map Vec t) d,
             Some metrics)))))))
      else Inr (d, None))"

section \<open>Rows in another order\<close>

named_theorems gather_simps \<open>operations that act on the rows of equally long columns\<close>

definition row_order :: "nat \<Rightarrow> nat list \<Rightarrow> bool" where
  "row_order n js \<longleftrightarrow> mset js = mset [0..<n]"

lemma row_orderD:
  assumes "row_order n js"
  shows "length js = n" "set js = {..<n}" "distinct js" "i < n \<Longrightarrow> js ! i < n"
proof -
  show "length js = n" using assms by (metis row_order_def size_mset length_upt diff_zero)
  show "set js = {..<n}" using assms by (metis row_order_def set_mset_mset atLeast_upt)
  then show "i < n \<Longrightarrow> js ! i < n" using \<open>length js = n\<close> nth_mem[of i js] by auto
  show "distinct js" using assms by (metis row_order_def distinct_upt mset_eq_imp_distinct_iff)
qed

lemma length_gather [simp]: "length (gather js xs) = length js"
  by (simp add: gather_def)

lemma nth_gather [simp]: "i < length js \<Longrightarrow> gather js xs ! i = xs ! (js ! i)"
  by (simp add: gather_def)

lemma gather_all: "set js \<subseteq> {..<length xs} \<Longrightarrow> gather js (map f xs) = map f (gather js xs)"
  by (auto simp: gather_def)

lemma gather_map [gather_simps]: "row_order (length xs) js \<Longrightarrow> map f (gather js xs) = gather js (map f xs)"
  by (rule gather_all[symmetric]) (simp add: row_orderD)

lemma gather_zip [gather_simps]:
  "row_order (length xs) js \<Longrightarrow> length ys = length xs \<Longrightarrow> zip (gather js xs) (gather js ys) = gather js (zip xs ys)"
  by (intro nth_equalityI) (auto simp: row_orderD)

lemma mset_gather [gather_simps]: "row_order (length xs) js \<Longrightarrow> mset (gather js xs) = mset xs"
proof -
  assume "row_order (length xs) js"
  then have "mset (map ((!) xs) js) = mset (map ((!) xs) [0..<length xs])" by (simp only: mset_map row_order_def)
  then show ?thesis by (simp only: gather_def map_nth)
qed

lemma sum_list_gather [gather_simps]:
  "row_order (length xs) js \<Longrightarrow> sum_list (gather js xs) = (sum_list xs :: real)"
  using mset_gather[of xs js] by (metis sum_mset_sum_list)

lemma set_gather [gather_simps]: "row_order (length xs) js \<Longrightarrow> set (gather js xs) = set xs"
  using mset_gather[of xs js] by (metis set_mset_mset)

lemma mzip_gather [gather_simps]:
  "row_order (length s) js \<Longrightarrow> length t = length s \<Longrightarrow> mzip f (gather js s) (gather js t) = gather js (mzip f s t)"
  by (simp add: mzip_def gather_simps)

lemma mmap_gather [gather_simps]: "row_order (length t) js \<Longrightarrow> mmap f (gather js t) = gather js (mmap f t)"
  by (simp add: mmap_def gather_simps)

lemma scale_rows_gather [gather_simps]:
  "row_order (length v) js \<Longrightarrow> length t = length v \<Longrightarrow>
    scale_rows (gather js v) (gather js t) = gather js (scale_rows v t)"
  by (simp add: scale_rows_def gather_simps)

lemma msum_gather [gather_simps]: "row_order (length t) js \<Longrightarrow> msum (gather js t) = msum t"
  by (simp add: msum_def gather_simps)

lemma masked_mean_gather [gather_simps]:
  "row_order (length s) js \<Longrightarrow> length t = length s \<Longrightarrow> masked_mean (gather js s) (gather js t) = masked_mean s t"
  by (simp add: masked_mean_def masked_sum_def gather_simps)

lemma masked_var_gather [gather_simps]:
  "row_order (length s) js \<Longrightarrow> length t = length s \<Longrightarrow> masked_var (gather js s) (gather js t) b = masked_var s t b"
  by (simp add: masked_var_def Let_def gather_simps)

text \<open>The results of an operation, in the new order.\<close>

abbreviation in_order :: "nat list \<Rightarrow> 'a list res \<Rightarrow> 'a list res" where
  "in_order js \<equiv> map_sum id (gather js)"

abbreviation pair_in_order :: "nat list \<Rightarrow> ('a list \<times> 'b list) res \<Rightarrow> ('a list \<times> 'b list) res" where
  "pair_in_order js \<equiv> map_sum id (map_prod (gather js) (gather js))"

lemma map_sum_bind [gather_simps]: "map_sum id f (bind_res r g) = bind_res r (\<lambda>x. map_sum id f (g x))"
  by (cases r) simp_all

lemma bind_map_sum [gather_simps]: "bind_res (map_sum id f r) h = bind_res r (\<lambda>x. h (f x))"
  by (cases r) simp_all

lemma masked_whiten_gather [gather_simps]:
  "row_order (length s) js \<Longrightarrow> length t = length s \<Longrightarrow>
    masked_whiten (gather js s) (gather js t) b = in_order js (masked_whiten s t b)"
  by (cases b) (simp_all add: masked_whiten_def Let_def gather_simps)

lemma map_res_unique_error:
  assumes "\<And>x e. f x = Inl e \<Longrightarrow> e = E"
  shows "map_res f xs = (if list_all (\<lambda>x. \<not> isl (f x)) xs then Inr (map (\<lambda>x. projr (f x)) xs) else Inl E)"
proof (induction xs)
  case (Cons x xs)
  then show ?case using assms[of x] by (cases "f x") auto
qed simp

lemma map_res_gather:
  assumes "\<And>x e. f x = Inl e \<Longrightarrow> e = E" "row_order (length xs) js"
  shows "map_res f (gather js xs) = in_order js (map_res f xs)"
  using assms(2) by (simp add: map_res_unique_error[OF assms(1)] gather_simps list_all_iff)

section \<open>Estimators do not depend on the order of the batch\<close>

text \<open>An outcome statistic that does not depend on the order of a group.\<close>

locale symmetric_estimator = outcome_estimator +
  assumes value_symmetric: "mset ys = mset zs \<Longrightarrow> value_of ys = value_of zs"
begin

lemma order_free:
  assumes "row_order (length xs) js" "length index = length xs"
  shows "outcome_advantages (gather js index) (gather js xs) stat f = in_order js (outcome_advantages index xs stat f)"
proof -
  have grp: "mset (group_scores ys us i) = image_mset snd {#(v, x) \<in># mset (zip us ys). v = us ! i#}"
    if "length us = length ys" for ys :: "'a list" and us :: "'c list" and i
    using that zip_group_scores[of us ys i, symmetric] by (simp add: mset_map mset_filter)
  have "value_of (group_scores (gather js xs) (gather js index) i) = value_of (group_scores xs index (js ! i))"
    if "i < length xs" for i
    using that assms by (intro value_symmetric) (simp add: grp gather_simps row_orderD)
  then have "map (\<lambda>i. f (gather js xs ! i) (value_of (group_scores (gather js xs) (gather js index) i))) [0..<length xs]
      = gather js (map (\<lambda>i. f (xs ! i) (value_of (group_scores xs index i))) [0..<length xs])"
    using assms(1) by (intro nth_equalityI) (simp_all add: row_orderD)
  then show ?thesis
    using assms by (simp add: pointwise row_orderD)
qed

end

lemma mean_perm: "mset ys = mset zs \<Longrightarrow> mean ys = mean zs"
  unfolding mean_def by (metis mset_eq_length sum_mset_sum_list)

lemma sum_list_map_perm: "mset ys = mset zs \<Longrightarrow> sum_list (map f ys) = (sum_list (map f zs) :: real)"
  by (metis mset_map sum_mset_sum_list)

lemma group_stats_perm:
  assumes "mset ys = mset zs"
  shows "mean_or_zero ys = mean_or_zero zs" "std_or_one ys = std_or_one zs"
  unfolding mean_or_zero_def std_or_one_def unbiased_std_def mset_eq_length[OF assms] mean_perm[OF assms]
    sum_list_map_perm[OF assms] by (rule refl)+

interpretation mean_dev_sym: symmetric_estimator group_mean_dev "\<lambda>ys. (mean_or_zero ys, std_or_one ys)"
  by unfold_locales (simp only: prod.inject, intro conjI group_stats_perm)

interpretation mean_only_sym: symmetric_estimator group_mean mean_or_zero
  by unfold_locales (rule group_stats_perm)

interpretation rloo_sym: symmetric_estimator "\<lambda>ys. bind_res (group_mean ys) (\<lambda>m. Inr (m, length ys))"
  "\<lambda>ys. (mean_or_zero ys, length ys)"
  by unfold_locales (simp only: prod.inject, intro conjI group_stats_perm mset_eq_length)

interpretation opo_sym: symmetric_estimator opo_baseline
  "\<lambda>ys. if length ys = 1 then 0 else sum_list (map (\<lambda>(s, n). n * s) ys) / sum_list (map snd ys)"
proof
  fix ys zs :: "(real \<times> real) list"
  assume m: "mset ys = mset zs"
  show "(if length ys = 1 then 0 else sum_list (map (\<lambda>(s, n). n * s) ys) / sum_list (map snd ys))
      = (if length zs = 1 then 0 else sum_list (map (\<lambda>(s, n). n * s) zs) / sum_list (map snd zs))"
    unfolding mset_eq_length[OF m] sum_list_map_perm[OF m] by (rule refl)
qed

section \<open>The registry's estimators as one interface\<close>

definition kw_ok :: "nat \<Rightarrow> adv_kwargs \<Rightarrow> bool" where
  "kw_ok n k \<longleftrightarrow> length (kw_rewards k) = n \<and> length (kw_mask k) = n
     \<and> (case kw_index k of None \<Rightarrow> True | Some ix \<Rightarrow> length ix = n)
     \<and> (case kw_baselines k of None \<Rightarrow> True | Some b \<Rightarrow> length b = n)
     \<and> kw_gdpo k = None \<and> kw_sum_pi k = None"

definition kw_gather :: "nat list \<Rightarrow> adv_kwargs \<Rightarrow> adv_kwargs" where
  "kw_gather js k = k\<lparr>kw_rewards := gather js (kw_rewards k), kw_mask := gather js (kw_mask k),
     kw_index := map_option (gather js) (kw_index k), kw_baselines := map_option (gather js) (kw_baselines k)\<rparr>"

text \<open>
  What the driver relies on when it balances the batch before the advantages: an estimator called
  on the rows in another order gives the same advantages and returns, in that order.
\<close>

locale order_free_estimator =
  fixes est :: "adv_kwargs \<Rightarrow> (mat \<times> mat) res"
  assumes order_free: "kw_ok n k \<Longrightarrow> row_order n js \<Longrightarrow> est (kw_gather js k) = pair_in_order js (est k)"
    and row_per_sample: "kw_ok n k \<Longrightarrow> est k = Inr (adv, ret) \<Longrightarrow> length adv = n \<and> length ret = n"

lemma bind_res_cong: "(\<And>x. r = Inr x \<Longrightarrow> f x = g x) \<Longrightarrow> bind_res r f = bind_res r g"
  by (cases r) simp_all

lemma bind_res_assoc: "bind_res (bind_res r f) g = bind_res r (\<lambda>x. bind_res (f x) g)"
  by (cases r) simp_all

lemma outcome_length: "outcome_advantages index xs stat f = Inr s \<Longrightarrow> length s = length xs"
  by (auto simp: outcome_advantages_def Let_def dest!: map_res_length)

lemma scaled_order_free:
  assumes "outcome_advantages index' xs' stat f = in_order js (outcome_advantages index xs stat f)"
    and "row_order (length rmask) js" "length xs = length rmask"
  shows "bind_res (outcome_advantages index' xs' stat f)
        (\<lambda>s. Inr (scale_rows s (gather js rmask), scale_rows s (gather js rmask)))
    = pair_in_order js (bind_res (outcome_advantages index xs stat f)
        (\<lambda>s. Inr (scale_rows s rmask, scale_rows s rmask)))"
  unfolding assms(1) map_sum_bind bind_map_sum
  using assms(2,3) by (intro bind_res_cong) (simp add: gather_simps outcome_length)

lemma masked_whiten_length: "masked_whiten s t b = Inr w \<Longrightarrow> length w = length s"
  by (cases b) (auto simp: masked_whiten_def bind_res_eq_Inr Let_def)

lemma whitened_order_free:
  assumes "row_order (length t) js" "length s = length t"
  shows "bind_res (masked_whiten (gather js s) (gather js t) b) (\<lambda>w. Inr (mzip (*) w (gather js t), h w))
    = bind_res (masked_whiten s t b) (\<lambda>w. Inr (gather js (mzip (*) w t), h (gather js w)))"
  unfolding masked_whiten_gather[OF assms(1)[folded assms(2)] assms(2)[symmetric]] bind_map_sum
  using assms by (intro bind_res_cong) (simp add: gather_simps masked_whiten_length)

lemma outcome_order_free:
  assumes "row_order n js" "length rewards = n" "length rmask = n" "length index = n"
  shows "compute_grpo_outcome_advantage (gather js rewards) (gather js rmask) (gather js index) eps b
      = pair_in_order js (compute_grpo_outcome_advantage rewards rmask index eps b)" (is ?grpo)
    and "compute_reinforce_plus_plus_baseline_outcome_advantage (gather js rewards) (gather js rmask) (gather js index)
      = pair_in_order js (compute_reinforce_plus_plus_baseline_outcome_advantage rewards rmask index)" (is ?rfppb)
    and "compute_rloo_outcome_advantage (gather js rewards) (gather js rmask) (gather js index)
      = pair_in_order js (compute_rloo_outcome_advantage rewards rmask index)" (is ?rloo)
    and "compute_opo_outcome_advantage (gather js rewards) (gather js rmask) (gather js index)
      = pair_in_order js (compute_opo_outcome_advantage rewards rmask index)" (is ?opo)
    and "compute_gpg_outcome_advantage (gather js rewards) (gather js rmask) (gather js index) f_norm
      = pair_in_order js (compute_gpg_outcome_advantage rewards rmask index f_norm)" (is ?gpg)
proof -
  have row: "row_order (length rewards) js" "row_order (length rmask) js" using assms by simp_all
  have outcome: "outcome_advantages (gather js index) (map sum_list (gather js rewards)) group_mean_dev f
      = in_order js (outcome_advantages index (map sum_list rewards) group_mean_dev f)" for f :: "real \<Rightarrow> real \<times> real \<Rightarrow> real"
    using row assms by (simp add: gather_simps mean_dev_sym.order_free)
  show ?grpo
    unfolding compute_grpo_outcome_advantage_def
    by (rule scaled_order_free[OF outcome]) (use row assms in simp_all)
  have nz: "length (filter (\<lambda>s. s \<noteq> 0) (map sum_list (gather js rewards))) = length (filter (\<lambda>s. s \<noteq> 0) (map sum_list rewards))"
    using row by (intro length_filter_mset_cong) (simp add: gather_simps)
  show ?gpg
    unfolding compute_gpg_outcome_advantage_def Let_def nz
    using scaled_order_free[OF outcome] row assms by (simp add: row_orderD)
  show ?rloo
    unfolding compute_rloo_outcome_advantage_def
    by (rule scaled_order_free) (use row assms in \<open>simp_all add: gather_simps rloo_sym.order_free\<close>)
  show ?opo
    unfolding compute_opo_outcome_advantage_def
    by (rule scaled_order_free) (use row assms in \<open>simp_all add: gather_simps opo_sym.order_free\<close>)
  have "outcome_advantages (gather js index) (map sum_list (gather js rewards)) group_mean f
      = in_order js (outcome_advantages index (map sum_list rewards) group_mean f)" for f :: "real \<Rightarrow> real \<Rightarrow> real"
    using row assms by (simp add: gather_simps mean_only_sym.order_free)
  then have rfpp: "bind_res (outcome_advantages (gather js index) (map sum_list (gather js rewards)) group_mean (\<lambda>s m. s - m)) g
      = bind_res (outcome_advantages index (map sum_list rewards) group_mean (\<lambda>s m. s - m)) (\<lambda>s. g (gather js s))"
    for g :: "real list \<Rightarrow> (mat \<times> mat) res" by (simp add: gather_simps)
  show ?rfppb
    unfolding compute_reinforce_plus_plus_baseline_outcome_advantage_def map_sum_bind rfpp
  proof (rule bind_res_cong)
    fix x assume "outcome_advantages index (map sum_list rewards) group_mean (\<lambda>s m. s - m) = Inr x"
    then have x: "length x = n" using assms by (simp add: outcome_length)
    have w: "length (scale_rows x rmask) = length rmask" using x assms by simp
    show "bind_res (masked_whiten (scale_rows (gather js x) (gather js rmask)) (gather js rmask) True)
        (\<lambda>w. Inr (mzip (*) w (gather js rmask), mzip (*) w (gather js rmask)))
      = bind_res (masked_whiten (scale_rows x rmask) rmask True)
        (\<lambda>w. pair_in_order js (Inr (mzip (*) w rmask, mzip (*) w rmask)))"
      using whitened_order_free[OF row(2) w] x row assms
      by (simp add: gather_simps) (intro bind_res_cong, simp add: gather_simps masked_whiten_length)
  qed
qed

lemma token_order_free:
  assumes "row_order n js" "length rewards = n" "length rmask = n"
  shows "compute_reinforce_plus_plus_outcome_advantage (gather js rewards) (gather js rmask) gamma
      = pair_in_order js (compute_reinforce_plus_plus_outcome_advantage rewards rmask gamma)"
    and "length b = n \<Longrightarrow> compute_remax_outcome_advantage (gather js rewards) (gather js b) (gather js rmask)
      = map_prod (gather js) (gather js) (compute_remax_outcome_advantage rewards b rmask)"
    and "length vals = n \<Longrightarrow> compute_gae_advantage_return (gather js rewards) (gather js vals) (gather js rmask) gamma lam
      = pair_in_order js (compute_gae_advantage_return rewards vals rmask gamma lam)"
proof -
  have row: "row_order (length rewards) js" "row_order (length rmask) js" using assms by simp_all
  let ?ret = "map2 (\<lambda>r m. rfpp_row gamma (zip r m)) rewards rmask"
  have ret: "map2 (\<lambda>r m. rfpp_row gamma (zip r m)) (gather js rewards) (gather js rmask) = gather js ?ret"
    "length ?ret = length rmask"
    using assms row by (simp_all add: gather_simps)
  show "compute_reinforce_plus_plus_outcome_advantage (gather js rewards) (gather js rmask) gamma
      = pair_in_order js (compute_reinforce_plus_plus_outcome_advantage rewards rmask gamma)"
    unfolding compute_reinforce_plus_plus_outcome_advantage_def Let_def ret(1) whitened_order_free[OF row(2) ret(2)]
    by (simp add: map_sum_bind)
  show "compute_remax_outcome_advantage (gather js rewards) (gather js b) (gather js rmask)
      = map_prod (gather js) (gather js) (compute_remax_outcome_advantage rewards b rmask)" if "length b = n"
    using assms that by (simp add: compute_remax_outcome_advantage_def Let_def gather_simps)
  show "compute_gae_advantage_return (gather js rewards) (gather js vals) (gather js rmask) gamma lam
      = pair_in_order js (compute_gae_advantage_return rewards vals rmask gamma lam)" if "length vals = n"
    using assms that
    by (simp add: compute_gae_advantage_return_def gae_raw_def zip3_def Let_def gather_simps)
qed

lemma estimator_lengths:
  fixes n :: nat
  shows
    "compute_grpo_outcome_advantage rewards rmask index eps b = Inr (a, r) \<Longrightarrow> length rewards = n \<Longrightarrow> length rmask = n \<Longrightarrow> length a = n \<and> length r = n"
    "compute_reinforce_plus_plus_baseline_outcome_advantage rewards rmask index = Inr (a, r) \<Longrightarrow> length rewards = n \<Longrightarrow> length rmask = n \<Longrightarrow> length a = n \<and> length r = n"
    "compute_rloo_outcome_advantage rewards rmask index = Inr (a, r) \<Longrightarrow> length rewards = n \<Longrightarrow> length rmask = n \<Longrightarrow> length a = n \<and> length r = n"
    "compute_opo_outcome_advantage rewards rmask index = Inr (a, r) \<Longrightarrow> length rewards = n \<Longrightarrow> length rmask = n \<Longrightarrow> length a = n \<and> length r = n"
    "compute_gpg_outcome_advantage rewards rmask index f_norm = Inr (a, r) \<Longrightarrow> length rewards = n \<Longrightarrow> length rmask = n \<Longrightarrow> length a = n \<and> length r = n"
    "compute_reinforce_plus_plus_outcome_advantage rewards rmask gamma = Inr (a, r) \<Longrightarrow> length rewards = n \<Longrightarrow> length rmask = n \<Longrightarrow> length a = n \<and> length r = n"
    "compute_gae_advantage_return rewards vals rmask gamma lam = Inr (a, r) \<Longrightarrow> length rewards = n \<Longrightarrow> length rmask = n \<Longrightarrow> length vals = n \<Longrightarrow> length a = n \<and> length r = n"
    "compute_remax_outcome_advantage rewards bl rmask = (a, r) \<Longrightarrow> length rewards = n \<Longrightarrow> length rmask = n \<Longrightarrow>
      length bl = n \<Longrightarrow> length a = n \<and> length r = n"
  by (auto simp: compute_grpo_outcome_advantage_def compute_reinforce_plus_plus_baseline_outcome_advantage_def
      compute_rloo_outcome_advantage_def compute_opo_outcome_advantage_def compute_gpg_outcome_advantage_def
      compute_reinforce_plus_plus_outcome_advantage_def compute_gae_advantage_return_def gae_raw_def zip3_def
      compute_remax_outcome_advantage_def bind_res_eq_Inr Let_def dest!: outcome_length masked_whiten_length)

interpretation rfpp_est: order_free_estimator
  "\<lambda>k. compute_reinforce_plus_plus_outcome_advantage (kw_rewards k) (kw_mask k) gamma" for gamma
proof (unfold_locales, goal_cases)
  case (1 n k js)
  then show ?case by (simp add: kw_ok_def kw_gather_def token_order_free(1))
next
  case (2 n k adv ret)
  then show ?case by (intro estimator_lengths(6)[OF 2(2)]) (simp_all add: kw_ok_def)
qed

interpretation rfppb_est: order_free_estimator
  "\<lambda>k. needed (kw_index k) (compute_reinforce_plus_plus_baseline_outcome_advantage (kw_rewards k) (kw_mask k))"
proof (unfold_locales, goal_cases)
  case (1 n k js)
  then show ?case by (cases "kw_index k") (simp_all add: kw_ok_def kw_gather_def needed_def outcome_order_free(2))
next
  case (2 n k adv ret)
  then show ?case by (cases "kw_index k") (auto simp: kw_ok_def needed_def elim!: estimator_lengths(2))
qed

interpretation remax_est: order_free_estimator
  "\<lambda>k. needed (kw_baselines k) (\<lambda>b. Inr (compute_remax_outcome_advantage (kw_rewards k) b (kw_mask k)))"
proof (unfold_locales, goal_cases)
  case (1 n k js)
  then show ?case by (cases "kw_baselines k") (simp_all add: kw_ok_def kw_gather_def needed_def token_order_free(2))
next
  case (2 n k adv ret)
  then obtain b where "compute_remax_outcome_advantage (kw_rewards k) b (kw_mask k) = (adv, ret)"
    "length b = n" "length (kw_rewards k) = n" "length (kw_mask k) = n"
    by (cases "kw_baselines k") (auto simp: kw_ok_def needed_def)
  then show ?case by (intro estimator_lengths(8))
qed

interpretation rloo_est: order_free_estimator
  "\<lambda>k. needed (kw_index k) (compute_rloo_outcome_advantage (kw_rewards k) (kw_mask k))"
proof (unfold_locales, goal_cases)
  case (1 n k js)
  then show ?case by (cases "kw_index k") (simp_all add: kw_ok_def kw_gather_def needed_def outcome_order_free(3))
next
  case (2 n k adv ret)
  then show ?case by (cases "kw_index k") (auto simp: kw_ok_def needed_def elim!: estimator_lengths(3))
qed

interpretation opo_est: order_free_estimator
  "\<lambda>k. needed (kw_index k) (compute_opo_outcome_advantage (kw_rewards k) (kw_mask k))"
proof (unfold_locales, goal_cases)
  case (1 n k js)
  then show ?case by (cases "kw_index k") (simp_all add: kw_ok_def kw_gather_def needed_def outcome_order_free(4))
next
  case (2 n k adv ret)
  then show ?case by (cases "kw_index k") (auto simp: kw_ok_def needed_def elim!: estimator_lengths(4))
qed

interpretation gpg_est: order_free_estimator
  "\<lambda>k. needed (kw_index k) (\<lambda>ix. compute_gpg_outcome_advantage (kw_rewards k) (kw_mask k) ix f_norm)" for f_norm
proof (unfold_locales, goal_cases)
  case (1 n k js)
  then show ?case by (cases "kw_index k") (simp_all add: kw_ok_def kw_gather_def needed_def outcome_order_free(5))
next
  case (2 n k adv ret)
  then show ?case by (cases "kw_index k") (auto simp: kw_ok_def needed_def elim!: estimator_lengths(5))
qed

definition order_free_names :: "string list" where
  "order_free_names = [''reinforce_plus_plus'', ''reinforce_plus_plus_baseline'', ''remax'', ''rloo'', ''opo'', ''gpg'']"

lemma registry_order_free:
  assumes "name \<in> set order_free_names"
  obtains est where "get_adv_estimator_fn parse gamma name = Inr est" "order_free_estimator est"
  using assms rfpp_est.order_free_estimator_axioms[of gamma] rfppb_est.order_free_estimator_axioms
    remax_est.order_free_estimator_axioms rloo_est.order_free_estimator_axioms
    opo_est.order_free_estimator_axioms gpg_est.order_free_estimator_axioms[of 1]
  by (auto simp: order_free_names_def get_adv_estimator_fn_def)

section \<open>Columns of a reordered batch\<close>

definition permuted :: "nat list \<Rightarrow> train_batch \<Rightarrow> train_batch" where
  "permuted js d = d\<lparr>batch := map_option (\<lambda>td. td\<lparr>td_cols := map_dict (gather js) (td_cols td)\<rparr>) (batch d),
     non_tensor_batch := map_dict (gather js) (non_tensor_batch d)\<rparr>"

definition sized :: "nat \<Rightarrow> train_batch \<Rightarrow> bool" where
  "sized n d \<longleftrightarrow> (\<exists>td. batch d = Some td \<and> td_size td = n) \<and> wf d"

lemma norm_idx_res: "\<forall>j \<in> set js. j < n \<Longrightarrow> map_res (norm_idx n) (map int js) = Inr js"
  by (induction js) (auto simp: norm_idx_def Let_def)

lemma reorder_permuted:
  assumes "sized n d" "row_order n js"
  shows "reorder (map int js) d = Inr (permuted js d)"
proof -
  obtain td where td: "batch d = Some td" "td_size td = n" using assms(1) by (auto simp: sized_def)
  have "map_res (norm_idx n) (map int js) = Inr js"
    using assms(2) by (intro norm_idx_res) (simp add: row_orderD)
  then show ?thesis using td assms(2) by (simp add: reorder_def permuted_def row_orderD)
qed

lemma tensor_col_permuted: "tensor_col k (permuted js d) = in_order js (tensor_col k d)"
  by (simp add: tensor_col_def permuted_def map_of_map_dict split: option.splits)

lemma has_tensor_permuted [simp]: "has_tensor k (permuted js d) = has_tensor k d"
  unfolding has_tensor_def permuted_def has_key_def by (cases "batch d") (simp_all del: set_map)

lemma tensor_col_length: "sized n d \<Longrightarrow> tensor_col k d = Inr c \<Longrightarrow> length c = n"
  by (auto simp: sized_def tensor_col_def wf_def tensor_cols_def proto_len_def split: option.splits dest: cols_ok_lookup)

lemma unique_errors:
  "as_vec c = Inl e \<Longrightarrow> e = TypeError" "as_num c = Inl e \<Longrightarrow> e = TypeError" "as_str v = Inl e \<Longrightarrow> e = TypeError"
  by (cases c; simp; fail)+ (cases v; simp)

lemma typed_cols_permuted:
  assumes "sized n d" "row_order n js"
  shows "mat_col k (permuted js d) = in_order js (mat_col k d)"
    "num_col k (permuted js d) = in_order js (num_col k d)"
proof -
  have "map_res as_vec (gather js c) = in_order js (map_res as_vec c)"
    "map_res as_num (gather js c) = in_order js (map_res as_num c)" if "tensor_col k d = Inr c" for c
    using tensor_col_length[OF assms(1) that] assms(2)
    by (auto intro!: map_res_gather[where E = TypeError] dest: unique_errors)
  then show "mat_col k (permuted js d) = in_order js (mat_col k d)" "num_col k (permuted js d) = in_order js (num_col k d)"
    unfolding mat_col_def num_col_def tensor_col_permuted bind_map_sum map_sum_bind
    by (auto intro!: bind_res_cong)
qed

lemma uid_col_permuted:
  assumes "sized n d" "row_order n js"
  shows "uid_col (permuted js d) = in_order js (uid_col d)"
proof -
  have "length c = n" if "map_of (non_tensor_batch d) ''uid'' = Some c" for c
    using assms(1) that by (auto simp: sized_def wf_def proto_len_def dest: cols_ok_lookup)
  moreover have "map_res as_str (gather js c) = in_order js (map_res as_str c)" if "length c = n" for c
    using that assms(2) by (auto intro!: map_res_gather[where E = TypeError] dest: unique_errors)
  ultimately show ?thesis
    by (auto simp: uid_col_def permuted_def map_of_map_dict split: option.splits)
qed

lemma col_lengths:
  assumes "sized n d"
  shows "mat_col k d = Inr t \<Longrightarrow> length t = n" "num_col k d = Inr v \<Longrightarrow> length v = n" "uid_col d = Inr u \<Longrightarrow> length u = n"
  using assms
  by (auto simp: mat_col_def num_col_def uid_col_def bind_res_eq_Inr sized_def wf_def proto_len_def
      split: option.splits dest!: map_res_length dest: tensor_col_length[OF assms] cols_ok_lookup)

lemma map_dict_put: "map_dict f (dict_put k c cols) = dict_put k (f c) (map_dict f cols)"
  by (induction k c cols rule: dict_put.induct) (auto simp: map_dict_def)

lemma put_col_permuted: "put_col k (gather js c) (permuted js d) = permuted js (put_col k c d)"
  by (cases "batch d") (simp_all add: put_col_def permuted_def map_dict_put)

lemma put_advantages_permuted:
  assumes "row_order n js" "length (fst ar) = n" "length (snd ar) = n"
  shows "put_advantages (map_prod (gather js) (gather js) ar) (permuted js d) = permuted js (put_advantages ar d)"
  using assms by (cases ar) (simp add: put_advantages_def put_col_permuted gather_simps)

lemma sized_put_col: "sized n d \<Longrightarrow> length c = n \<Longrightarrow> sized n (put_col k c d)"
proof -
  have put: "cols_ok n cols \<Longrightarrow> length c = n \<Longrightarrow> cols_ok n (dict_put k c cols)" for cols :: "cell list dict"
  proof -
    have "map fst (dict_put k c cols) = (if k \<in> set (map fst cols) then map fst cols else map fst cols @ [k])"
      by (induction k c cols rule: dict_put.induct) auto
    moreover have "set (dict_put k c cols) \<subseteq> insert (k, c) (set cols)"
      by (induction k c cols rule: dict_put.induct) auto
    ultimately show "cols_ok n cols \<Longrightarrow> length c = n \<Longrightarrow> cols_ok n (dict_put k c cols)"
      by (auto simp: cols_ok_def)
  qed
  assume d: "sized n d" and c: "length c = n"
  from d obtain td where td: "batch d = Some td" "td_size td = n" "cols_ok n (td_cols td)" "cols_ok n (non_tensor_batch d)"
    by (auto simp: sized_def wf_def tensor_cols_def proto_len_def)
  then show "sized n (put_col k c d)"
    using put[OF td(3) c] by (simp add: sized_def put_col_def wf_def tensor_cols_def proto_len_def)
qed

lemma sized_put_advantages: "sized n d \<Longrightarrow> length (fst ar) = n \<Longrightarrow> length (snd ar) = n \<Longrightarrow> sized n (put_advantages ar d)"
  by (simp add: put_advantages_def sized_put_col)

lemma adv_kwargs_permuted:
  assumes "sized n d" "row_order n js" "name \<in> set order_free_names"
  shows "adv_kwargs_of cfg name (permuted js d) = map_sum id (kw_gather js) (adv_kwargs_of cfg name d)"
proof -
  have plain: "name \<noteq> ''gdpo''" "name \<notin> {''optimal_token_baseline'', ''tir_optimal_token_baseline''}"
    using assms(3) by (auto simp: order_free_names_def)
  have key: "has_key (non_tensor_batch (permuted js d)) ''uid'' = has_key (non_tensor_batch d) ''uid''"
    by (simp add: permuted_def has_key_def del: set_map)
  show ?thesis
    unfolding adv_kwargs_of_def key has_tensor_permuted typed_cols_permuted[OF assms(1,2)]
      uid_col_permuted[OF assms(1,2)] map_sum_bind bind_map_sum
    using plain by (auto simp: kw_gather_def gather_simps bind_res_assoc intro!: bind_res_cong)
qed

lemma adv_kwargs_ok:
  assumes "sized n d" "name \<in> set order_free_names" "adv_kwargs_of cfg name d = Inr k"
  shows "kw_ok n k"
proof -
  have plain: "name \<noteq> ''gdpo''" "name \<notin> {''optimal_token_baseline'', ''tir_optimal_token_baseline''}"
    using assms(2) by (auto simp: order_free_names_def)
  from assms(3) plain obtain rewards rmask ix bl where
    "mat_col ''token_level_rewards'' d = Inr rewards" "mat_col ''response_mask'' d = Inr rmask"
    "ix = None \<or> (\<exists>u. uid_col d = Inr u \<and> ix = Some u)"
    "bl = None \<or> (\<exists>b. num_col ''reward_baselines'' d = Inr b \<and> bl = Some b)"
    "k = \<lparr>kw_rewards = rewards, kw_mask = rmask, kw_index = ix, kw_baselines = bl, kw_gdpo = None, kw_sum_pi = None\<rparr>"
    unfolding adv_kwargs_of_def by (auto simp: bind_res_eq_Inr split: if_splits)
  then show ?thesis by (auto simp: kw_ok_def dest: col_lengths[OF assms(1)])
qed

lemma sized_batch: "wf d \<Longrightarrow> batch d = Some td \<Longrightarrow> sized (td_size td) d"
  by (simp add: sized_def)

text \<open>Storing advantages and reordering commute, for an estimator result that is reordered too.\<close>

lemma put_then_reorder:
  assumes "sized n d" "row_order n js" "\<And>a r. ar = Inr (a, r) \<Longrightarrow> length a = n \<and> length r = n"
  shows "bind_res (pair_in_order js ar) (\<lambda>ar. Inr (put_advantages ar (permuted js d)))
    = bind_res (bind_res ar (\<lambda>ar. Inr (put_advantages ar d))) (reorder (map int js))"
  using assms put_advantages_permuted[OF assms(2)] reorder_permuted[OF sized_put_advantages[OF assms(1)] assms(2)]
  by (cases ar) auto

lemma registry_advantage_reorder:
  assumes "sized n d" "row_order n js" "has_tensor ''response_mask'' d" "name \<in> set order_free_names"
  shows "compute_advantage parse draw cfg name (permuted js d)
    = bind_res (compute_advantage parse draw cfg name d) (reorder (map int js))"
proof -
  obtain est where est: "get_adv_estimator_fn parse (ac_gamma cfg) name = Inr est" "order_free_estimator est"
    using registry_order_free[OF assms(4)] by metis
  have name: "name \<noteq> ''gae''" "name \<noteq> ''grpo''" using assms(4) by (auto simp: order_free_names_def)
  show ?thesis
  proof (cases "adv_kwargs_of cfg name d")
    case (Inl e)
    then show ?thesis
      using name est(1) assms by (simp add: compute_advantage_def with_response_mask_def adv_kwargs_permuted)
  next
    case (Inr k)
    note k = adv_kwargs_ok[OF assms(1,4) Inr]
    have "est (kw_gather js k) = pair_in_order js (est k)"
      by (rule order_free_estimator.order_free[OF est(2) k assms(2)])
    then show ?thesis
      using name est(1) assms Inr order_free_estimator.row_per_sample[OF est(2) k]
        put_then_reorder[OF assms(1,2), of "est k"]
      by (simp add: compute_advantage_def with_response_mask_def adv_kwargs_permuted[OF assms(1,2,4)])
  qed
qed

lemma grpo_advantage_reorder:
  assumes "sized n d" "row_order n js" "has_tensor ''response_mask'' d"
  shows "compute_advantage parse draw cfg ''grpo'' (permuted js d)
    = bind_res (compute_advantage parse draw cfg ''grpo'' d) (reorder (map int js))"
proof (cases "mat_col ''response_mask'' d"; cases "mat_col ''token_level_rewards'' d"; cases "uid_col d")
  fix m r u
  assume cols: "mat_col ''response_mask'' d = Inr m" "mat_col ''token_level_rewards'' d = Inr r" "uid_col d = Inr u"
  note len = col_lengths(1)[OF assms(1) cols(1)] col_lengths(1)[OF assms(1) cols(2)] col_lengths(3)[OF assms(1) cols(3)]
  have out: "length a = n \<and> length b = n"
    if "compute_grpo_outcome_advantage r m u (1 / 10 ^ 6) (ac_norm_adv_by_std_in_grpo cfg) = Inr (a, b)" for a b
    by (rule estimator_lengths(1)[OF that len(2,1)])
  show ?thesis
    using assms cols len put_then_reorder[OF assms(1,2) out]
    by (simp add: compute_advantage_def with_response_mask_def typed_cols_permuted[OF assms(1,2)]
        uid_col_permuted[OF assms(1,2)] outcome_order_free(1)[OF assms(2) len(2,1,3)])
qed (use assms in \<open>simp_all add: compute_advantage_def with_response_mask_def typed_cols_permuted uid_col_permuted\<close>)

lemma gae_advantage_reorder:
  assumes "sized n d" "row_order n js" "has_tensor ''response_mask'' d" "\<not> ac_use_pf_ppo cfg"
  shows "compute_advantage parse draw cfg ''gae'' (permuted js d)
    = bind_res (compute_advantage parse draw cfg ''gae'' d) (reorder (map int js))"
proof (cases "mat_col ''token_level_rewards'' d"; cases "mat_col ''values'' d"; cases "mat_col ''response_mask'' d")
  fix r v m
  assume cols: "mat_col ''token_level_rewards'' d = Inr r" "mat_col ''values'' d = Inr v" "mat_col ''response_mask'' d = Inr m"
  note len = cols[THEN col_lengths(1)[OF assms(1)]]
  have out: "length a = n \<and> length b = n"
    if "compute_gae_advantage_return r v m (ac_gamma cfg) (ac_lam cfg) = Inr (a, b)" for a b
    by (rule estimator_lengths(7)[OF that len(1,3,2)])
  show ?thesis
    using assms cols len put_then_reorder[OF assms(1,2) out]
    by (simp add: compute_advantage_def with_response_mask_def typed_cols_permuted[OF assms(1,2)]
        token_order_free(3)[OF assms(2) len(1,3,2)])
qed (use assms in \<open>simp_all add: compute_advantage_def with_response_mask_def typed_cols_permuted\<close>)


definition example_step :: train_batch where
  "example_step =
     \<lparr>batch = Some \<lparr>td_size = 2, td_cols =
        [(''attention_mask'', [Vec [1, 1, 1], Vec [0, 1, 1]]), (''responses'', [Vec [7, 8], Vec [9, 4]]),
         (''response_mask'', [Vec [1, 1], Vec [1, 1]]), (''token_level_rewards'', [Vec [0, 1], Vec [0, 3]])]\<rparr>,
      non_tensor_batch = [(''uid'', [PStr ''a'', PStr ''a''])], meta_info = []\<rparr>"


section \<open>The shares of the ranks\<close>

lemma rows_permuted:
  assumes "sized n d" "row_order n js"
  shows "rows (permuted js d) = map ((!) (rows d)) js"
proof -
  obtain td where td: "batch d = Some td" "td_size td = n" "cols_ok n (td_cols td)" "cols_ok n (non_tensor_batch d)"
    using assms(1) by (auto simp: sized_def wf_def tensor_cols_def proto_len_def)
  have len: "proto_len d = n" "proto_len (permuted js d) = n" using td by (simp_all add: proto_len_def permuted_def)
  show ?thesis
  proof (rule nth_equalityI)
    fix j assume "j < length (rows (permuted js d))"
    then have j: "j < n" "j < length js" using len assms(2) by (simp_all add: row_orderD)
    then show "rows (permuted js d) ! j = map ((!) (rows d)) js ! j"
      using gth.col_row_f[OF td(3) j(2)] gth.col_row_g[OF td(4) j(2)] row_orderD(4)[OF assms(2) j(1)] td(1) len
      by (simp add: nth_rows tensor_cols_def permuted_def)
  qed (use len assms(2) in \<open>simp add: row_orderD\<close>)
qed

lemma mset_ends_order [simp]: "mset (ends_order w p) = mset p"
  using mset_evens_odds[of "sort_key (\<lambda>x. (w ! x, x)) p"] by (simp add: ends_order_def Let_def)

lemma equal_shares:
  assumes "\<forall>p \<in> set ps. length p = L" "r < length ps"
  shows "py_slice (r * L) (r * L + L) (concat ps) = ps ! r"
  using assms
proof (induction ps arbitrary: r)
  case (Cons p ps)
  show ?case
  proof (cases r)
    case (Suc r')
    have "drop (L + r' * L) (p @ concat ps) = drop (r' * L) (concat ps)" using Cons.prems(1) by simp
    then show ?thesis using Cons Suc by (simp add: py_slice_def)
  qed (use Cons.prems in \<open>simp add: py_slice_def\<close>)
qed simp

lemma global_seqlens_nonneg:
  "\<forall>r \<in> set m. \<forall>x \<in> set r. 0 \<le> x \<Longrightarrow> \<forall>v \<in> set (global_seqlens m). 0 \<le> v"
proof -
  assume "\<forall>r \<in> set m. \<forall>x \<in> set r. 0 \<le> x"
  then have "0 \<le> sum_list r" if "r \<in> set m" for r using that by (intro sum_list_nonneg) auto
  then show "\<forall>v \<in> set (global_seqlens m). 0 \<le> v" by (auto simp: global_seqlens_def truncate_int_def not_less[symmetric])
qed

lemma balanced_order:
  assumes "0 < dp" "dp \<le> length ws" "length ws mod dp = 0" "\<forall>v \<in> set ws. 0 \<le> v"
  shows "\<exists>ps. get_seqlen_balanced_partitions ws dp True = Inr ps \<and> length ps = dp
    \<and> mset (concat (map (ends_order ws) ps)) = mset [0..<length ws]
    \<and> (\<forall>p \<in> set ps. length p = length ws div dp)
    \<and> (\<forall>p \<in> set ps. \<forall>q \<in> set ps. index_sum ws p - index_sum ws q \<le> Max (set ws) - Min (set ws))"
proof -
  obtain ps where ps: "get_seqlen_balanced_partitions ws dp True = Inr ps" "length ps = dp"
    "mset (concat ps) = mset [0..<length ws]" "\<forall>p \<in> set ps. length p * dp = length ws"
    using balanced_partitions_total[OF assms(1,2,4), of True] assms(3) by auto
  then obtain qs where qs: "karmarkar_karp ws dp True = Inr qs" "ps = map sort qs"
    by (auto simp: get_seqlen_balanced_partitions_def check_and_sort_partitions_def bind_res_eq_Inr)
  have "ws \<noteq> []" using assms(1,2) by auto
  then have "index_sum ws p - index_sum ws q \<le> Max (set ws) - Min (set ws)" if "p \<in> set qs" "q \<in> set qs" for p q
    using karmarkar_karp_within[OF qs(1) assms(1) _ _ _ that] assms(3) by simp
  moreover have "index_sum ws (sort p) = index_sum ws p" for p by (rule index_sum_perm) simp
  ultimately have "\<forall>p \<in> set ps. \<forall>q \<in> set ps. index_sum ws p - index_sum ws q \<le> Max (set ws) - Min (set ws)"
    by (simp add: qs(2))
  moreover have "mset (concat (map (ends_order ws) ps)) = mset (concat ps)"
    by (simp add: mset_concat o_def)
  moreover have "length p = length ws div dp" if "p \<in> set ps" for p
    using ps(4) that assms(1) by (metis nonzero_mult_div_cancel_right not_gr_zero)
  ultimately show ?thesis using ps by auto
qed

text \<open>
  C32. What \<open>_balance_batch\<close> promises, when the number of data-parallel ranks divides the batch: no
  error is raised, the new batch holds every row once, the share the dispatch cuts out for rank
  \<open>r\<close> (the \<open>r\<close>-th of equally long slices) is partition \<open>r\<close>, and the workloads of two ranks differ
  by at most the largest minus the smallest workload of a sample.
\<close>

theorem balance_batch_shares:
  assumes "wf d" "batch d = Some td" "mat_col ''attention_mask'' d = Inr attn"
    and "has_key (non_tensor_batch d) ''uid'' \<longrightarrow> (\<exists>u. uid_col d = Inr u)"
    and "\<forall>r \<in> set attn. \<forall>x \<in> set r. 0 \<le> x"
    and dp: "0 < dp" "dp \<le> td_size td" "td_size td mod dp = 0"
    and ws: "ws = map calculate_workload (global_seqlens attn)"
  shows "\<exists>d' ps rep. balance_batch dp False None d = Inr (d', ps, rep) \<and> length ps = dp
    \<and> mset (concat ps) = mset [0..<td_size td]
    \<and> (\<forall>r < dp. py_slice (r * (td_size td div dp)) (r * (td_size td div dp) + td_size td div dp) (rows d')
          = map ((!) (rows d)) (ps ! r))
    \<and> (\<forall>p \<in> set ps. \<forall>q \<in> set ps. index_sum ws p - index_sum ws q \<le> Max (set ws) - Min (set ws))"
proof -
  let ?n = "td_size td" and ?seq = "global_seqlens attn"
  have sized: "sized ?n d" by (rule sized_batch[OF assms(1,2)])
  have len: "length ?seq = ?n" "length ws = ?n"
    using col_lengths(1)[OF sized assms(3)] by (simp_all add: global_seqlens_def ws)
  have "\<forall>v \<in> set ws. 0 \<le> v"
    using global_seqlens_nonneg[OF assms(5)] by (auto simp: ws intro: calculate_workload_nonneg)
  from balanced_order[OF dp(1) _ _ this] obtain ps where ps:
    "get_seqlen_balanced_partitions ws dp True = Inr ps" "length ps = dp"
    "mset (concat (map (ends_order ws) ps)) = mset [0..<?n]" "\<forall>p \<in> set ps. length p = ?n div dp"
    "\<forall>p \<in> set ps. \<forall>q \<in> set ps. index_sum ws p - index_sum ws q \<le> Max (set ws) - Min (set ws)"
    using dp len(2) by auto
  let ?ps = "map (ends_order ws) ps"
  have order: "row_order ?n (concat ?ps)" using ps(3) by (simp add: row_order_def)
  have share: "length (ends_order ws p) = length p" for p by (metis mset_ends_order size_mset)
  have sum: "index_sum ws (ends_order ws p) = index_sum ws p" for p by (rule index_sum_perm) simp
  obtain rep where rep: "log_seqlen_unbalance ?seq ?ps = Inr rep"
    using log_seqlen_unbalance_report[of ?ps ?seq] ps(2,3) dp len(1) by auto
  have slice: "py_slice a b (map h xs) = map h (py_slice a b xs)" for a b and h :: "nat \<Rightarrow> (cell, py) row" and xs
    by (simp add: py_slice_def take_map drop_map)
  have "py_slice (r * (?n div dp)) (r * (?n div dp) + ?n div dp) (rows (permuted (concat ?ps) d))
      = map ((!) (rows d)) (?ps ! r)" if "r < dp" for r
    unfolding rows_permuted[OF sized order] slice
    using equal_shares[of ?ps "?n div dp" r] that ps(2,4) share by simp
  moreover have "balance_batch dp False None d = Inr (permuted (concat ?ps) d, ?ps, rep)"
    using assms(3,4) ps(1) rep reorder_permuted[OF sized order]
    by (auto simp: balance_batch_def balance_partitions_def ws Let_def)
  ultimately show ?thesis using ps sum by (intro exI[of _ "permuted (concat ?ps) d"] exI[of _ ?ps] exI[of _ rep]) auto
qed

theorem balance_batch_shares_witness:
  "\<exists>d' ps rep. balance_batch 2 False None example_step = Inr (d', ps, rep) \<and> length ps = 2
    \<and> mset (concat ps) = mset [0..<2]
    \<and> (\<forall>r < 2. py_slice (r * (2 div 2)) (r * (2 div 2) + 2 div 2) (rows d') = map ((!) (rows example_step)) (ps ! r))
    \<and> (\<forall>p \<in> set ps. \<forall>q \<in> set ps. index_sum [73737, 49156] p - index_sum [73737, 49156] q
        \<le> Max (set [73737, 49156]) - Min (set [73737, 49156]))"
  using balance_batch_shares[of example_step "the (batch example_step)" "[[1, 1, 1], [0, 1, 1]]" 2 "[73737, 49156]"]
  by (simp add: example_step_def wf_def cols_ok_def proto_len_def tensor_cols_def has_key_def mat_col_def
      tensor_col_def uid_col_def global_seqlens_def truncate_int_def calculate_workload_def)

section \<open>The KL penalty\<close>

lemma kl_penalty_error: "kl_penalty x y name = Inl e \<Longrightarrow> e = NotImplementedError"
  by (auto simp: kl_penalty_def kl_penalty_forward_def bind_res_def Let_def split: if_splits)

lemma kl_row_error:
  "map_res (\<lambda>(x, y). bind_res (kl_penalty (d_const x) (d_const y) name) (\<lambda>z. Inr (fst z))) zs = Inl e \<Longrightarrow>
    e = NotImplementedError"
  by (induction zs) (auto simp: bind_res_def dest: kl_penalty_error split: sum.splits)

lemma kl_tensor_gather:
  assumes "row_order n js" "length s = n" "length t = n"
  shows "kl_tensor name (gather js s) (gather js t) = in_order js (kl_tensor name s t)"
  unfolding kl_tensor_def map_sum_bind
  using assms by (intro bind_res_cong) (auto simp: gather_simps intro!: map_res_gather[where E = NotImplementedError]
      dest: kl_row_error)

lemma kl_tensor_length: "kl_tensor name s t = Inr k \<Longrightarrow> length k = min (length s) (length t)"
  by (auto simp: kl_tensor_def bind_res_eq_Inr dest: map_res_length)

lemma mean_gather: "row_order (length xs) js \<Longrightarrow> mean (gather js xs) = mean xs"
  by (rule mean_perm) (rule mset_gather)

lemma penalised_rewards_gather:
  assumes "row_order n js" "length scores = n" "length kld = n" "length rmask = n"
  shows "penalised_rewards c N (gather js scores) (gather js kld) (gather js rmask)
    = map_sum id (\<lambda>(r, c', m). (gather js r, c', m)) (penalised_rewards c N scores kld rmask)"
  using assms by (simp add: penalised_rewards_def Let_def gather_simps mean_gather)

lemma penalised_rewards_length:
  "penalised_rewards c N scores kld rmask = Inr (r, c', m) \<Longrightarrow> length scores = n \<Longrightarrow> length kld = n \<Longrightarrow>
    length rmask = n \<Longrightarrow> length r = n"
  by (auto simp: penalised_rewards_def Let_def bind_res_eq_Inr)

text \<open>
  The KL penalty in the reward does not depend on the order of the batch either: the penalised
  rewards follow their rows, and the batch KL, the coefficient that was used and the updated
  controller are the same.
\<close>

theorem kl_penalty_order_free:
  assumes "wf d" "batch d = Some td" "mset js = mset [0..<td_size td]"
  shows "bind_res (reorder (map int js) d) (\<lambda>d'. apply_kl_penalty d' kl_ctrl name)
    = bind_res (apply_kl_penalty d kl_ctrl name) (\<lambda>(d', ctrl', m).
        bind_res (reorder (map int js) d') (\<lambda>d''. Inr (d'', ctrl', m)))"
proof -
  have sized: "sized (td_size td) d" by (rule sized_batch[OF assms(1,2)])
  have js: "row_order (td_size td) js" using assms(3) by (simp add: row_order_def)
  have len: "proto_len (permuted js d) = proto_len d" using assms(2) by (simp add: proto_len_def permuted_def)
  have "apply_kl_penalty (permuted js d) kl_ctrl name
    = bind_res (apply_kl_penalty d kl_ctrl name) (\<lambda>(d', ctrl', m).
        bind_res (reorder (map int js) d') (\<lambda>d''. Inr (d'', ctrl', m)))"
    unfolding apply_kl_penalty_def typed_cols_permuted[OF sized js] bind_map_sum bind_res_assoc len
  proof (intro bind_res_cong, goal_cases)
    case (1 rmask scores olp rlp)
    note l = 1[THEN col_lengths(1)[OF sized]]
    have k: "length k = td_size td" if "kl_tensor name olp rlp = Inr k" for k
      using kl_tensor_length[OF that] l by simp
    show ?case
      unfolding kl_tensor_gather[OF js l(3,4)] bind_map_sum
    proof (intro bind_res_cong, goal_cases)
      case (1 k)
      then show ?case
        using penalised_rewards_gather[OF js l(2) k l(1)] penalised_rewards_length[OF _ l(2) k l(1)]
          reorder_permuted[OF sized_put_col[OF sized] js] js
        by (cases "penalised_rewards kl_ctrl (proto_len d) scores k rmask")
          (auto simp: put_col_permuted gather_simps)
    qed
  qed
  then show ?thesis using reorder_permuted[OF sized js] by simp
qed

theorem kl_penalty_order_free_witness:
  "bind_res (reorder (map int [1, 0]) example_step) (\<lambda>d'. apply_kl_penalty d' (FixedKL 1) ''kl'')
    = bind_res (apply_kl_penalty example_step (FixedKL 1) ''kl'') (\<lambda>(d', ctrl', m).
        bind_res (reorder (map int [1, 0]) d') (\<lambda>d''. Inr (d'', ctrl', m)))"
  by (rule kl_penalty_order_free[of example_step "the (batch example_step)"])
    (simp_all add: example_step_def wf_def cols_ok_def proto_len_def tensor_cols_def numeral_2_eq_2 atLeastLessThanSuc)

section \<open>A flag the registry does not pass on\<close>

definition plain_config :: algo_config where
  "plain_config = \<lparr>ac_gamma = 1, ac_lam = 1, ac_norm_adv_by_std_in_grpo = False, ac_use_pf_ppo = False,
     ac_reweight_method = [], ac_weight_pow = 2, ac_gdpo_reward_keys = [], ac_gdpo_reward_weights = None\<rparr>"

lemma example_cols:
  "mat_col ''response_mask'' example_step = Inr [[1, 1], [1, 1]]"
  "mat_col ''token_level_rewards'' example_step = Inr [[0, 1], [0, 3]]"
  "uid_col example_step = Inr [''a'', ''a'']" "has_tensor ''response_mask'' example_step"
  "has_key (non_tensor_batch example_step) ''uid''" "\<not> has_tensor ''reward_baselines'' example_step"
  by (simp_all add: example_step_def mat_col_def tensor_col_def uid_col_def has_tensor_def has_key_def)

lemma put_then_read: "batch d \<noteq> None \<Longrightarrow> mat_col ''advantages'' (put_advantages ar d) = Inr (fst ar)"
proof -
  have "map_of (dict_put k c cols) q = (if k = q then Some c else map_of cols q)" for k q c and cols :: "cell list dict"
    by (induction k c cols rule: dict_put.induct) auto
  moreover have "map_res as_vec (map Vec t) = Inr t" for t by (induction t) auto
  ultimately show "batch d \<noteq> None \<Longrightarrow> mat_col ''advantages'' (put_advantages ar d) = Inr (fst ar)"
    by (auto simp: mat_col_def tensor_col_def put_advantages_def put_col_def)
qed

lemma example_grpo_scores:
  assumes "length us = 2" "us ! 0 = us ! Suc 0"
  shows "grpo_scores [1, 3] us eps True = [- (1 / (sqrt 2 + eps)), 1 / (sqrt 2 + eps)]"
    "grpo_scores [1, 3] us eps False = [- 1, 1]"
proof -
  have "group_of us i = [0, 1]" if "i < 2" for i
    using assms that by (auto simp: group_of_def numeral_2_eq_2 less_Suc_eq)
  then have "group_of us 0 = [0, 1]" "group_of us (Suc 0) = [0, 1]" by simp_all
  then show "grpo_scores [1, 3] us eps True = [- (1 / (sqrt 2 + eps)), 1 / (sqrt 2 + eps)]"
    "grpo_scores [1, 3] us eps False = [- 1, 1]"
    by (simp_all add: grpo_scores_def grpo_scalar_def mean_or_zero_def std_or_one_def unbiased_std_def mean_def
        group_scores_def)
qed

text \<open>
  \<open>algorithm.norm_adv_by_std_in_grpo\<close> reaches \<open>compute_grpo_outcome_advantage\<close> only: for the
  vectorised GRPO estimator (which has the parameter, and is meant to agree with the loop) the flag
  makes no difference, so with the flag off the two estimators give different advantages.
\<close>

theorem vectorized_grpo_ignores_norm_flag:
  "compute_advantage parse draw (cfg\<lparr>ac_norm_adv_by_std_in_grpo := b\<rparr>) ''grpo_vectorized'' d
      = compute_advantage parse draw cfg ''grpo_vectorized'' d
   \<and> (\<exists>d1 d2 x y. compute_advantage (\<lambda>_. None) draw plain_config ''grpo'' example_step = Inr d1
      \<and> compute_advantage (\<lambda>_. None) draw plain_config ''grpo_vectorized'' example_step = Inr d2
      \<and> mat_col ''advantages'' d1 = Inr x \<and> mat_col ''advantages'' d2 = Inr y \<and> x \<noteq> y)"
proof (rule conjI)
  show "compute_advantage parse draw (cfg\<lparr>ac_norm_adv_by_std_in_grpo := b\<rparr>) ''grpo_vectorized'' d
      = compute_advantage parse draw cfg ''grpo_vectorized'' d"
    by (simp add: compute_advantage_def adv_kwargs_of_def)
  let ?s = "\<lambda>us b. scale_rows (grpo_scores [1, 3] us (1 / 10 ^ 6) b) [[1, 1], [1, 1]]"
  let ?x = "?s [''a'', ''a''] False" and ?y = "?s [0 :: int, 0] True"
  have lab: "as_torch_index (\<lambda>_. None) (TextLabels [''a'', ''a'']) = [0, 0]"
    by (simp add: as_torch_index_def unique_inverse_def)
  have grpo: "compute_grpo_outcome_advantage [[0, 1], [0, 3]] [[1, 1], [1, 1]] [''a'', ''a''] (1 / 10 ^ 6) False
      = Inr (?x, ?x)"
    by (subst grpo_pointwise) (simp_all add: Let_def)
  have vec: "compute_grpo_vectorized_outcome_advantage (\<lambda>_. None) [[0, 1], [0, 3]] [[1, 1], [1, 1]]
      (TextLabels [''a'', ''a'']) (1 / 10 ^ 6) True = Inr (?y, ?y)"
    by (subst grpo_vectorized_pointwise) (simp_all add: Let_def lab)
  have d1: "compute_advantage (\<lambda>_. None) draw plain_config ''grpo'' example_step = Inr (put_advantages (?x, ?x) example_step)"
    using grpo by (simp add: compute_advantage_def with_response_mask_def example_cols plain_config_def)
  have d2: "compute_advantage (\<lambda>_. None) draw plain_config ''grpo_vectorized'' example_step
      = Inr (put_advantages (?y, ?y) example_step)"
    using vec by (simp add: compute_advantage_def with_response_mask_def example_cols plain_config_def
        get_adv_estimator_fn_def adv_kwargs_of_def needed_def)
  have "1 < sqrt (2 :: real)" by simp
  then have "1 < sqrt 2 + 1 / 10 ^ 6" by (rule less_trans) simp
  then have "1 / (sqrt 2 + 1 / 10 ^ 6) \<noteq> 1" by (simp add: divide_eq_1_iff)
  then have "?x \<noteq> ?y"
    by (simp add: example_grpo_scores scale_rows_def)
  moreover have "batch example_step \<noteq> None" by (simp add: example_step_def)
  ultimately show "\<exists>d1 d2 x y. compute_advantage (\<lambda>_. None) draw plain_config ''grpo'' example_step = Inr d1
      \<and> compute_advantage (\<lambda>_. None) draw plain_config ''grpo_vectorized'' example_step = Inr d2
      \<and> mat_col ''advantages'' d1 = Inr x \<and> mat_col ''advantages'' d2 = Inr y \<and> x \<noteq> y"
    using d1 d2 put_then_read[of example_step] by fastforce
qed

end
