(* ===== verification/Multi_Trajectory.thy ===== *)
theory Multi_Trajectory
  imports Train_Step Text_Numbers
begin

text \<open>
  The advantages of sessions with several outputs (\<open>compute_advantage_for_multi_trajectories\<close> in
  \<open>trainer/main_ppo_sync.py\<close>): a key \<open>{uid}_{session_id}_{index}\<close> names an output, and the last output of each session
  stands for the session.
\<close>

section \<open>Keys and sessions\<close>

text \<open>The session of a key, and the index of its output.\<close>

definition session_of :: "string \<Rightarrow> (string \<times> int) res" where
  "session_of key =
     (let fields = rsplit CHR ''_'' 2 key
      in require (length fields = 3) AssertionError
           (bind_res (py_int (fields ! 2)) (\<lambda>i. Inr (fields ! 0 @ ''_'' @ fields ! 1, i))))"

definition output_key :: "string \<Rightarrow> nat \<Rightarrow> nat \<Rightarrow> string" where
  "output_key uid session i = uid @ ''_'' @ dec session @ ''_'' @ dec i"

fun collect_sessions ::
    "nat \<Rightarrow> string list \<Rightarrow> (int \<times> nat) dict \<Rightarrow> string list \<Rightarrow> ((int \<times> nat) dict \<times> string list) res" where
  "collect_sessions i [] finals sks = Inr (finals, sks)"
| "collect_sessions i (key # keys) finals sks =
     bind_res (session_of key) (\<lambda>(sk, index).
       let newer = (case map_of finals sk of None \<Rightarrow> True | Some (j, _) \<Rightarrow> j < index)
       in collect_sessions (Suc i) keys (if newer then dict_put sk (index, i) finals else finals) (sks @ [sk]))"

text \<open>\<open>session_key_to_local_index\<close>: the place of a session in the dictionary.\<close>

definition local_index :: "(int \<times> nat) dict \<Rightarrow> string \<Rightarrow> nat" where
  "local_index finals sk = length (takeWhile (\<lambda>e. fst e \<noteq> sk) finals)"

text \<open>\<open>argmax(dim=1)\<close> of a row: the first place of its largest entry.\<close>

definition first_max :: "real list \<Rightarrow> nat" where
  "first_max xs = length (takeWhile (\<lambda>x. x < Max (set xs)) xs)"

definition compute_advantage_for_multi_trajectories ::
  "(string \<Rightarrow> int option) \<Rightarrow> (real list \<Rightarrow> nat \<Rightarrow> nat list) \<Rightarrow> algo_config \<Rightarrow> string \<Rightarrow> string list \<Rightarrow> train_batch \<Rightarrow>
    train_batch res" where
  "compute_advantage_for_multi_trajectories parse draw cfg adv_estimator batch_keys d =
     (if adv_estimator \<noteq> ''grpo'' then compute_advantage parse draw cfg adv_estimator d
      else bind_res (collect_sessions 0 batch_keys [] []) (\<lambda>(final_sessions, row_session_keys).
        let final_indices = map (snd \<circ> snd) final_sessions;
            row_to_local_index = map (local_index final_sessions) row_session_keys
        in bind_res (select_idxs (map int final_indices) d) (\<lambda>sel.
           bind_res (compute_advantage parse draw cfg adv_estimator sel) (\<lambda>final_data.
           bind_res (mat_col ''response_mask'' final_data) (\<lambda>final_mask.
           require (list_all (\<lambda>row. row \<noteq> []) final_mask) IndexError (
           bind_res (mat_col ''advantages'' final_data) (\<lambda>final_advantages.
           let final_scores = map2 (\<lambda>row mask. row ! first_max mask) final_advantages final_mask
           in bind_res (mat_col ''response_mask'' d) (\<lambda>rmask.
              let scores = scale_rows (map ((!) final_scores) row_to_local_index) rmask
              in Inr (put_advantages (scores, scores) d)))))))))"

section \<open>The final output of a session\<close>

lemma rsplit_output_key: "rsplit CHR ''_'' 2 (output_key uid s i) = [uid, dec s, dec i]"
  using rsplit_snoc[OF digits_no_underscore, of "Suc 0" "uid @ CHR ''_'' # dec s" i]
    rsplit_snoc[OF digits_no_underscore, of 0 uid s] by (simp add: output_key_def numeral_2_eq_2 del: rsplit.simps(2))

lemma session_of_output_key: "session_of (output_key uid s i) = Inr (uid @ ''_'' @ dec s, int i)"
proof -
  have "py_int (dec i) = Inr (int i)"
    using py_int_str_int[of "int i"] by (simp add: str_int_def)
  then show ?thesis
    by (simp add: session_of_def rsplit_output_key)
qed

text \<open>
  What the dictionary holds after the first rows: every session seen, with the row of its largest index.
\<close>

definition final_ok :: "(string \<times> int) list \<Rightarrow> string \<times> int \<times> nat \<Rightarrow> bool" where
  "final_ok es = (\<lambda>(k, idx, i). i < length es \<and> es ! i = (k, idx) \<and> (\<forall>j < length es. fst (es ! j) = k \<longrightarrow> snd (es ! j) \<le> idx))"

definition finals_ok :: "(string \<times> int) list \<Rightarrow> (int \<times> nat) dict \<Rightarrow> bool" where
  "finals_ok es finals \<longleftrightarrow>
     distinct (map fst finals) \<and> set (map fst finals) = set (map fst es) \<and> (\<forall>e \<in> set finals. final_ok es e)"

lemma final_ok_old: "final_ok es (k', idx', i) \<Longrightarrow> k' \<noteq> k \<or> idx \<le> idx' \<Longrightarrow> final_ok (es @ [(k, idx)]) (k', idx', i)"
  by (auto simp: final_ok_def nth_append less_Suc_eq)

lemma final_ok_new:
  "(\<And>j. j < length es \<Longrightarrow> fst (es ! j) = k \<Longrightarrow> snd (es ! j) \<le> idx) \<Longrightarrow> final_ok (es @ [(k, idx)]) (k, idx, length es)"
  by (auto simp: final_ok_def nth_append less_Suc_eq)

lemma set_dict_put: "distinct (map fst d) \<Longrightarrow> set (dict_put k v d) = {e \<in> set d. fst e \<noteq> k} \<union> {(k, v)}"
  by (induction k v d rule: dict_put.induct) auto

lemma keys_dict_put: "map fst (dict_put k v d) = (if k \<in> set (map fst d) then map fst d else map fst d @ [k])"
  by (induction k v d rule: dict_put.induct) auto

lemma finals_ok_snoc:
  assumes "finals_ok es finals"
    "newer = (case map_of finals k of None \<Rightarrow> True | Some (j, _) \<Rightarrow> j < idx)"
  shows "finals_ok (es @ [(k, idx)]) (if newer then dict_put k (idx, length es) finals else finals)"
proof (cases newer)
  case True
  have old: "snd (es ! j) \<le> idx" if "j < length es" "fst (es ! j) = k" for j
  proof (cases "map_of finals k")
    case None
    then have "k \<notin> set (map fst es)"
      using assms(1) by (simp add: finals_ok_def map_of_eq_None_iff)
    then show ?thesis
      using that by force
  next
    case (Some ji)
    then have "final_ok es (k, fst ji, snd ji)" "fst ji < idx"
      using assms True map_of_SomeD[OF Some] by (auto simp: finals_ok_def split: prod.splits)
    then show ?thesis
      using that by (fastforce simp: final_ok_def)
  qed
  have "distinct (map fst (dict_put k (idx, length es) finals))"
    "set (map fst (dict_put k (idx, length es) finals)) = set (map fst (es @ [(k, idx)]))"
    using assms(1) by (auto simp: keys_dict_put finals_ok_def simp del: set_map)
  moreover have "final_ok (es @ [(k, idx)]) e" if e: "e \<in> set (dict_put k (idx, length es) finals)" for e
  proof -
    from e assms(1) consider "e = (k, idx, length es)" | "e \<in> set finals" "fst e \<noteq> k"
      by (auto simp: set_dict_put finals_ok_def)
    then show ?thesis
    proof cases
      case 1
      then show ?thesis
        using old final_ok_new by blast
    next
      case 2
      then show ?thesis
        using assms(1) final_ok_old[of es "fst e" "fst (snd e)" "snd (snd e)" k idx] by (simp add: finals_ok_def)
    qed
  qed
  ultimately show ?thesis
    using True by (simp add: finals_ok_def)
next
  case False
  then obtain j i where "map_of finals k = Some (j, i)" and le: "idx \<le> j"
    using assms(2) by (auto split: option.splits)
  then have mem: "(k, j, i) \<in> set finals"
    by (rule_tac map_of_SomeD)
  then have "k \<in> set (map fst finals)"
    by force
  then have "set (map fst finals) = set (map fst (es @ [(k, idx)]))"
    using assms(1) by (auto simp: finals_ok_def)
  moreover have "final_ok (es @ [(k, idx)]) (k', idx', i')" if e: "(k', idx', i') \<in> set finals" for k' idx' i'
  proof (rule final_ok_old)
    show "final_ok es (k', idx', i')"
      using assms(1) e by (simp add: finals_ok_def)
    show "k' \<noteq> k \<or> idx \<le> idx'"
      using assms(1) e mem le by (auto simp: finals_ok_def dest: eq_key_imp_eq_value)
  qed
  ultimately show ?thesis
    using assms(1) False unfolding finals_ok_def by auto
qed

lemma collect_sessions_ok:
  assumes "finals_ok es finals" "sks = map fst es" "collect_sessions (length es) keys finals sks = Inr (finals', sks')"
  shows "\<exists>es'. map_res session_of keys = Inr es' \<and> finals_ok (es @ es') finals' \<and> sks' = map fst (es @ es')"
  using assms
proof (induction keys arbitrary: es finals sks)
  case (Cons key keys)
  then obtain k idx where k: "session_of key = Inr (k, idx)"
    by (auto simp: bind_res_eq_Inr)
  let ?newer = "case map_of finals k of None \<Rightarrow> True | Some (j, _) \<Rightarrow> j < idx"
  let ?finals = "if ?newer then dict_put k (idx, length es) finals else finals"
  have "\<exists>es'. map_res session_of keys = Inr es' \<and> finals_ok ((es @ [(k, idx)]) @ es') finals' \<and> sks' = map fst ((es @ [(k, idx)]) @ es')"
    by (rule Cons.IH[of _ ?finals "sks @ [k]"]) (use Cons.prems k finals_ok_snoc[OF Cons.prems(1) refl] in \<open>simp_all add: Let_def\<close>)
  then show ?case
    using k by auto
qed simp

lemma collect_sessions_total:
  "map_res session_of keys = Inr es \<Longrightarrow> \<exists>finals'. collect_sessions i keys finals sks = Inr (finals', sks @ map fst es)"
proof (induction keys arbitrary: es i finals sks)
  case (Cons key keys)
  then obtain k idx es1 where "session_of key = Inr (k, idx)" "map_res session_of keys = Inr es1" "es = (k, idx) # es1"
    by (auto simp: bind_res_eq_Inr)
  then show ?case
    using Cons.IH[of es1 "Suc i" _ "sks @ [k]"] by (auto simp: Let_def)
qed simp

lemma collect_sessions_finals:
  assumes "map_res session_of keys = Inr es"
  shows "\<exists>finals. collect_sessions 0 keys [] [] = Inr (finals, map fst es) \<and> finals_ok es finals"
proof -
  obtain finals where "collect_sessions 0 keys [] [] = Inr (finals, map fst es)"
    using collect_sessions_total[OF assms, of 0 "[]" "[]"] by auto
  moreover have "finals_ok [] []"
    by (simp add: finals_ok_def)
  ultimately show ?thesis
    using collect_sessions_ok[of "[]" "[]" "[]" keys finals "map fst es"] assms by auto
qed

lemma takeWhile_stops: "\<exists>x \<in> set xs. \<not> P x \<Longrightarrow> length (takeWhile P xs) < length xs"
  by (induction xs) auto

lemma local_index_ok:
  assumes "finals_ok es finals" "i < length es"
  shows "local_index finals (fst (es ! i)) < length finals"
    and "final_ok es (fst (es ! i), snd (finals ! local_index finals (fst (es ! i))))"
proof -
  let ?k = "fst (es ! i)"
  let ?p = "local_index finals ?k"
  have "?k \<in> set (map fst finals)"
    using assms by (simp add: finals_ok_def)
  then have ex: "\<exists>e \<in> set finals. \<not> fst e \<noteq> ?k"
    by force
  then have p: "?p < length finals"
    unfolding local_index_def by (rule takeWhile_stops)
  then have "fst (finals ! ?p) = ?k"
    using nth_length_takeWhile[of "\<lambda>e. fst e \<noteq> ?k" finals] unfolding local_index_def by blast
  then have "finals ! ?p = (?k, snd (finals ! ?p))"
    by (metis prod.collapse)
  moreover have "final_ok es (finals ! ?p)"
    using assms(1) p by (simp add: finals_ok_def)
  ultimately show "?p < length finals" "final_ok es (?k, snd (finals ! ?p))"
    using p by simp_all
qed

section \<open>The rows of the final outputs\<close>

lemma map_res_gather_Inr:
  "map_res f xs = Inr ys \<Longrightarrow> \<forall>j \<in> set js. j < length xs \<Longrightarrow> map_res f (gather js xs) = Inr (gather js ys)"
  by (induction js) (auto simp: gather_def map_res_nth)

lemma select_finals:
  assumes "sized n d" "\<forall>j \<in> set js. j < n"
  shows "\<exists>d'. select_idxs (map int js) d = Inr d' \<and> batch d' \<noteq> None \<and>
    (\<forall>k x. mat_col k d = Inr x \<longrightarrow> mat_col k d' = Inr (gather js x)) \<and>
    (\<forall>x. uid_col d = Inr x \<longrightarrow> uid_col d' = Inr (gather js x))"
proof -
  obtain td where td: "batch d = Some td" "td_size td = n"
    using assms(1) by (auto simp: sized_def)
  define d' where "d' = \<lparr>batch = Some \<lparr>td_size = length js, td_cols = map_dict (gather js) (td_cols td)\<rparr>,
    non_tensor_batch = map_dict (gather js) (non_tensor_batch d), meta_info = meta_info d\<rparr>"
  have "map_columns (gather js) (gather js) (length js) d = Inr d'"
    using td by (auto simp: map_columns_def make_proto_def check_consistency_def d'_def map_dict_def list_all_iff Let_def)
  then have "select_idxs (map int js) d = Inr d'"
    using norm_idx_res[OF assms(2)] td by (simp add: select_idxs_def proto_len_def)
  moreover have "mat_col k d' = Inr (gather js x)" if x: "mat_col k d = Inr x" for k x
  proof -
    obtain c where c: "tensor_col k d = Inr c" "map_res as_vec c = Inr x"
      using x by (auto simp: mat_col_def bind_res_eq_Inr)
    then have "tensor_col k d' = Inr (gather js c)"
      using td by (auto simp: tensor_col_def d'_def map_of_map_dict split: option.splits)
    then show ?thesis
      using map_res_gather_Inr[OF c(2)] assms tensor_col_length[OF assms(1) c(1)] by (simp add: mat_col_def)
  qed
  moreover have "uid_col d' = Inr (gather js x)" if x: "uid_col d = Inr x" for x
  proof -
    obtain c where c: "map_of (non_tensor_batch d) ''uid'' = Some c" "map_res as_str c = Inr x"
      using x by (auto simp: uid_col_def split: option.splits)
    have "length c = n"
      using col_lengths(3)[OF assms(1) x] map_res_length[OF c(2)] by simp
    then show ?thesis
      using c map_res_gather_Inr[OF c(2)] assms(2) by (simp add: uid_col_def d'_def map_of_map_dict)
  qed
  ultimately show ?thesis
    by (auto simp: d'_def)
qed

lemma nth_first_max: "xs \<noteq> [] \<Longrightarrow> first_max xs < length xs \<and> xs ! first_max xs = Max (set xs)"
proof -
  assume "xs \<noteq> []"
  then have "Max (set xs) \<in> set xs"
    by simp
  then have ex: "\<exists>x \<in> set xs. \<not> x < Max (set xs)"
    by auto
  then have p: "first_max xs < length xs"
    unfolding first_max_def by (rule takeWhile_stops)
  then have "\<not> xs ! first_max xs < Max (set xs)"
    using nth_length_takeWhile[of "\<lambda>x. x < Max (set xs)" xs] unfolding first_max_def by blast
  moreover have "xs ! first_max xs \<le> Max (set xs)"
    using p by simp
  ultimately show ?thesis
    using p by simp
qed

lemma first_max_mask:
  assumes "row \<noteq> []" "set row \<subseteq> {0, 1 :: real}"
  shows "row ! first_max row = (if 1 \<in> set row then 1 else 0)"
proof (cases "1 \<in> set row")
  case True
  then have "Max (set row) = 1"
    using assms(2) by (intro Max_eqI) auto
  then show ?thesis
    using True nth_first_max[OF assms(1)] by simp
next
  case False
  then have "set row = {0}"
    using assms by (cases row) auto
  then show ?thesis
    using False nth_first_max[OF assms(1)] by simp
qed

lemma mask_after_put: "mat_col ''response_mask'' (put_advantages ar d) = mat_col ''response_mask'' d"
proof -
  have "map_of (dict_put k c cols) q = (if k = q then Some c else map_of cols q)" for k q c and cols :: "cell list dict"
    by (induction k c cols rule: dict_put.induct) auto
  then show ?thesis
    by (auto simp: mat_col_def tensor_col_def put_advantages_def put_col_def split: option.splits)
qed

lemma grpo_on_finals:
  fixes cfg :: algo_config
  assumes "sized n d" "\<forall>j \<in> set js. j < n"
    "mat_col ''response_mask'' d = Inr m" "mat_col ''token_level_rewards'' d = Inr r" "uid_col d = Inr u"
  defines "s \<equiv> grpo_scores (map sum_list (gather js r)) (gather js u) (1 / 10 ^ 6) (ac_norm_adv_by_std_in_grpo cfg)"
  shows "\<exists>sel fd. select_idxs (map int js) d = Inr sel \<and> compute_advantage parse draw cfg ''grpo'' sel = Inr fd \<and>
    mat_col ''response_mask'' fd = Inr (gather js m) \<and> mat_col ''advantages'' fd = Inr (scale_rows s (gather js m))"
proof -
  obtain sel where sel: "select_idxs (map int js) d = Inr sel" "batch sel \<noteq> None"
    "mat_col ''response_mask'' sel = Inr (gather js m)" "mat_col ''token_level_rewards'' sel = Inr (gather js r)"
    "uid_col sel = Inr (gather js u)"
    using select_finals[OF assms(1,2)] assms(3-5) by blast
  have "has_tensor ''response_mask'' sel"
    using sel(3) by (force simp: mat_col_def tensor_col_def has_tensor_def has_key_def bind_res_eq_Inr split: option.splits
        dest: map_of_SomeD)
  moreover have "compute_grpo_outcome_advantage (gather js r) (gather js m) (gather js u) (1 / 10 ^ 6)
      (ac_norm_adv_by_std_in_grpo cfg) = Inr (scale_rows s (gather js m), scale_rows s (gather js m))"
    by (subst grpo_pointwise) (simp_all add: gather_def s_def Let_def)
  ultimately have "compute_advantage parse draw cfg ''grpo'' sel = Inr (put_advantages (scale_rows s (gather js m), scale_rows s (gather js m)) sel)"
    using sel by (simp add: compute_advantage_def with_response_mask_def)
  then show ?thesis
    using sel mask_after_put put_then_read[OF sel(2)] by auto
qed

lemma length_grpo_scores [simp]: "length (grpo_scores rs index eps b) = length rs"
  by (simp add: grpo_scores_def)

text \<open>
  C35. With GRPO the outputs of a session get the advantage of its last output: there are final rows, one for
  every session (of its rows the one with the largest index), GRPO runs on these rows alone, and each row of the batch is its response mask times the score of its session's final row (0 where
  that row has no response token).
\<close>

theorem multi_trajectory_advantages:
  assumes "wf d" "batch d = Some td" "td_size td = length keys"
    and "mat_col ''response_mask'' d = Inr m" "mat_col ''token_level_rewards'' d = Inr r" "uid_col d = Inr u"
    and "\<forall>row \<in> set m. row \<noteq> [] \<and> set row \<subseteq> {0, 1}"
    and "map_res session_of keys = Inr es"
  shows "\<exists>finals pos.
    (\<forall>i < length keys. pos i < length finals \<and> finals ! pos i < length keys \<and> fst (es ! (finals ! pos i)) = fst (es ! i) \<and>
      (\<forall>k < length keys. fst (es ! k) = fst (es ! i) \<longrightarrow> snd (es ! k) \<le> snd (es ! (finals ! pos i)))) \<and>
    distinct finals \<and> set finals = (\<lambda>i. finals ! pos i) ` {..<length keys} \<and>
    (let s = grpo_scores (map sum_list (gather finals r)) (gather finals u) (1 / 10 ^ 6) (ac_norm_adv_by_std_in_grpo cfg);
         score = \<lambda>i. if 1 \<in> set (m ! (finals ! pos i)) then s ! pos i else 0;
         A = map (\<lambda>i. map ((*) (score i)) (m ! i)) [0..<length keys]
     in compute_advantage_for_multi_trajectories parse draw cfg ''grpo'' keys d = Inr (put_advantages (A, A) d))"
proof -
  let ?n = "length keys"
  have sized: "sized ?n d"
    using sized_batch[OF assms(1,2)] assms(3) by simp
  note len = col_lengths(1)[OF sized assms(4)]
  have es: "length es = ?n"
    using map_res_length[OF assms(8)] .
  obtain dict where dict: "collect_sessions 0 keys [] [] = Inr (dict, map fst es)" "finals_ok es dict"
    using collect_sessions_finals[OF assms(8)] by blast
  define finals where "finals = map (snd \<circ> snd) dict"
  define pos where "pos = (\<lambda>i. local_index dict (fst (es ! i)))"
  define s where "s = grpo_scores (map sum_list (gather finals r)) (gather finals u) (1 / 10 ^ 6) (ac_norm_adv_by_std_in_grpo cfg)"
  have pos: "pos i < length finals" "final_ok es (fst (es ! i), fst (snd (dict ! pos i)), finals ! pos i)" if "i < ?n" for i
    using local_index_ok[OF dict(2), of i] that es by (simp_all add: pos_def finals_def)
  then have at_row: "finals ! pos i < ?n" "fst (es ! (finals ! pos i)) = fst (es ! i)"
    "\<forall>k < ?n. fst (es ! k) = fst (es ! i) \<longrightarrow> snd (es ! k) \<le> snd (es ! (finals ! pos i))" if "i < ?n" for i
    using that es by (fastforce simp: final_ok_def)+
  have row: "final_ok es e" "fst (es ! snd (snd e)) = fst e" "snd (snd e) < ?n" if "e \<in> set dict" for e
  proof -
    show ok: "final_ok es e"
      using dict(2) that by (simp add: finals_ok_def)
    then show "fst (es ! snd (snd e)) = fst e" "snd (snd e) < ?n"
      using es by (simp_all add: final_ok_def split_beta)
  qed
  have in_n: "\<forall>j \<in> set finals. j < ?n"
    using row(3) by (auto simp: finals_def)
  have "inj_on (snd \<circ> snd) (set dict)"
  proof (rule inj_onI)
    fix e e'
    assume e: "e \<in> set dict" "e' \<in> set dict" "(snd \<circ> snd) e = (snd \<circ> snd) e'"
    then have "fst e = fst e'"
      using row(2) by (metis comp_apply)
    then show "e = e'"
      using e dict(2) by (auto simp: finals_ok_def distinct_map dest: inj_onD)
  qed
  then have distinct: "distinct finals"
    using dict(2) by (simp add: finals_def finals_ok_def distinct_map)
  have same: "finals ! pos (snd (snd e)) = snd (snd e)" if e: "e \<in> set dict" for e
  proof -
    obtain p where p: "p < length dict" "dict ! p = e"
      using e by (meson in_set_conv_nth)
    let ?q = "pos (snd (snd e))"
    have q: "?q < length dict"
      using pos(1)[OF row(3)[OF e]] by (simp add: finals_def)
    have "fst (dict ! ?q) = fst e"
      using nth_length_takeWhile[of "\<lambda>x. fst x \<noteq> fst e" dict] q row(2)[OF e] by (simp add: pos_def local_index_def)
    then have "dict ! ?q = e"
      using dict(2) q e by (auto simp: finals_ok_def distinct_map dest: inj_onD[of fst "set dict"])
    then show ?thesis
      using q by (simp add: finals_def)
  qed
  have image: "set finals = (\<lambda>i. finals ! pos i) ` {..<?n}"
  proof
    show "set finals \<subseteq> (\<lambda>i. finals ! pos i) ` {..<?n}"
      using same row(3) by (force simp: finals_def)
    show "(\<lambda>i. finals ! pos i) ` {..<?n} \<subseteq> set finals"
      using pos(1) by auto
  qed
  obtain sel fd where fd: "select_idxs (map int finals) d = Inr sel" "compute_advantage parse draw cfg ''grpo'' sel = Inr fd"
    "mat_col ''response_mask'' fd = Inr (gather finals m)" "mat_col ''advantages'' fd = Inr (scale_rows s (gather finals m))"
    using grpo_on_finals[OF sized in_n assms(4-6), of parse draw cfg] unfolding s_def by blast
  define score where "score = (\<lambda>i. if 1 \<in> set (m ! (finals ! pos i)) then s ! pos i else 0)"
  define fs where "fs = map2 (\<lambda>row mask. row ! first_max mask) (scale_rows s (gather finals m)) (gather finals m)"
  have s_len: "length s = length finals"
    by (simp add: s_def gather_def)
  have fs: "fs ! pos i = score i" if i: "i < ?n" for i
  proof -
    let ?row = "m ! (finals ! pos i)"
    have "?row \<in> set m"
      using at_row(1)[OF i] len by simp
    then have row: "?row \<noteq> []" "set ?row \<subseteq> {0, 1}"
      using assms(7) by auto
    have "fs ! pos i = map ((*) (s ! pos i)) ?row ! first_max ?row"
      using pos(1)[OF i] s_len by (simp add: fs_def scale_rows_def gather_def)
    also have "\<dots> = s ! pos i * ?row ! first_max ?row"
      using nth_first_max[OF row(1)] by simp
    finally show ?thesis
      unfolding first_max_mask[OF row] score_def by simp
  qed
  have indices: "map (int \<circ> (snd \<circ> snd)) dict = map int finals"
    by (simp add: finals_def)
  have "list_all (\<lambda>row. row \<noteq> []) (gather finals m)"
    using assms(7) in_n len by (auto simp: list_all_iff gather_def)
  then have "compute_advantage_for_multi_trajectories parse draw cfg ''grpo'' keys d =
      Inr (put_advantages (scale_rows (map ((!) fs) (map (local_index dict) (map fst es))) m,
        scale_rows (map ((!) fs) (map (local_index dict) (map fst es))) m) d)"
    using dict(1) fd assms(4)
    by (simp add: compute_advantage_for_multi_trajectories_def indices fs_def comp_assoc Let_def)
  moreover have "scale_rows (map ((!) fs) (map (local_index dict) (map fst es))) m =
      map (\<lambda>i. map ((*) (score i)) (m ! i)) [0..<?n]"
    using fs es len by (intro nth_equalityI) (simp_all add: scale_rows_def pos_def)
  ultimately have "compute_advantage_for_multi_trajectories parse draw cfg ''grpo'' keys d =
      Inr (put_advantages (map (\<lambda>i. map ((*) (score i)) (m ! i)) [0..<?n], map (\<lambda>i. map ((*) (score i)) (m ! i)) [0..<?n]) d)"
    by simp
  then show ?thesis
    using pos(1) at_row distinct image unfolding score_def s_def Let_def
    by (intro exI[of _ finals] exI[of _ pos]) simp
qed

theorem multi_trajectory_advantages_witness:
  "\<exists>x. compute_advantage_for_multi_trajectories (\<lambda>_. None) (\<lambda>w n. []) plain_config ''grpo''
      [output_key ''u'' 0 0, output_key ''u'' 0 1] example_step
    = Inr (put_advantages ([[x, x], [x, x]], [[x, x], [x, x]]) example_step)"
proof -
  let ?keys = "[output_key ''u'' 0 0, output_key ''u'' 0 1]"
  let ?es = "[(''u_'' @ dec 0, 0 :: int), (''u_'' @ dec 0, 1)]"
  let ?m = "[[1, 1], [1, 1 :: real]]"
  have batch: "wf example_step" "batch example_step = Some (the (batch example_step))" "td_size (the (batch example_step)) = length ?keys"
    by (simp_all add: example_step_def wf_def cols_ok_def proto_len_def tensor_cols_def)
  have es: "map_res session_of ?keys = Inr ?es"
    by (simp add: session_of_output_key)
  have mask: "\<forall>row \<in> set ?m. row \<noteq> [] \<and> set row \<subseteq> {0, 1}"
    by simp
  note ex = multi_trajectory_advantages[OF batch example_cols(1-3) mask es, of plain_config "\<lambda>_. None" "\<lambda>w n. []"]
  from ex show ?thesis
  proof (elim exE conjE, goal_cases)
    case (1 finals pos)
    have "finals ! pos i = 1" if "i < 2" for i
    proof -
      have len: "length ?keys = 2"
        by simp
      have "fst (?es ! 1) = fst (?es ! i)"
        using that by (cases i) simp_all
      then have "snd (?es ! 1) \<le> snd (?es ! (finals ! pos i))"
        using 1(1)[unfolded len, rule_format, OF that, THEN conjunct2, THEN conjunct2, THEN conjunct2, rule_format, of 1] by simp
      moreover have "finals ! pos i < 2"
        using 1(1)[unfolded len, rule_format, OF that] by blast
      moreover have "finals ! pos i \<noteq> 0"
      proof
        assume "finals ! pos i = 0"
        then show False
          using calculation(1) by simp
      qed
      ultimately show ?thesis
        by linarith
    qed
    then have "finals ! pos 0 = finals ! pos 1"
      by (metis one_less_numeral_iff semiring_norm(76) zero_less_numeral)
    moreover have "pos 0 < length finals" "pos 1 < length finals"
      using 1(1)[rule_format, of 0] 1(1)[rule_format, of 1] by simp_all
    ultimately have "pos 0 = pos 1"
      using nth_eq_iff_index_eq[OF 1(2), of "pos 0" "pos 1"] by blast
    then show ?case
      using 1(4) by (auto simp: Let_def)
  qed
qed

end
