(* ===== verification/Replay_Buffer.thy ===== *)
theory Replay_Buffer
  imports Multi_Trajectory
begin

text \<open>
  The replay buffer between the rollout workers and the trainer (\<open>ReplayBuffer\<close>, \<open>AgentLoopManagerTQ\<close> and
  \<open>AgentLoopWorkerTQ\<close> in \<open>trainer/main_ppo_sync.py\<close>).  The workers put the outputs of a session, and then a mark for the
  finished prompt, into a transfer queue; a thread of the buffer polls the queue and adds what it has read to the
  buffer; the trainer marks the prompts as running before it submits them, and samples the outputs of a step when no
  prompt of it is running.  The queue is a library outside the repository: here it is the map from keys to tags that its
  calls put into, list and clear.
\<close>

section \<open>The buffer\<close>

text \<open>One partition: the tags of every key, in the order in which the keys came.\<close>

type_synonym tags = "py dict"

definition update_tags :: "tags \<Rightarrow> tags \<Rightarrow> tags" where
  "update_tags old new = fold (\<lambda>(k, v). dict_put k v) new old"

fun add_items :: "tags dict \<Rightarrow> tags dict \<Rightarrow> tags dict" where
  "add_items p [] = p"
| "add_items p ((key, new) # items) =
     add_items (dict_put key (update_tags (case map_of p key of None \<Rightarrow> [] | Some old \<Rightarrow> old) new) p) items"

definition remove_keys :: "string list \<Rightarrow> tags dict \<Rightarrow> tags dict" where
  "remove_keys ks p = filter (\<lambda>e. fst e \<notin> set ks) p"

text \<open>One pass of \<open>sample\<close>: \<open>None\<close> when a prompt of the step is still running, otherwise the successful outputs.\<close>

fun scan_partition :: "py \<Rightarrow> tags dict \<Rightarrow> (string \<times> tags) list option res" where
  "scan_partition g [] = Inr (Some [])"
| "scan_partition g ((key, tag) # p) =
     (case map_of tag ''global_steps'' of
        None \<Rightarrow> Inl KeyError
      | Some g' \<Rightarrow>
          if g' = g then
            (case map_of tag ''status'' of
               None \<Rightarrow> Inl KeyError
             | Some st \<Rightarrow>
                 if st = PStr ''running'' then Inr None
                 else if st = PStr ''success'' then bind_res (scan_partition g p) (\<lambda>r. Inr (map_option (\<lambda>ks. (key, tag) # ks) r))
                 else scan_partition g p)
          else scan_partition g p)"

definition sample_once :: "py \<Rightarrow> nat option \<Rightarrow> tags dict \<Rightarrow> (string \<times> tags) list option res" where
  "sample_once global_steps batch_size p =
     (let sized = (batch_size \<noteq> None \<and> batch_size \<noteq> Some 0)
      in require ((global_steps \<noteq> PNone \<or> sized) \<and> \<not> (global_steps \<noteq> PNone \<and> sized)) AssertionError
           (scan_partition global_steps p))"

section \<open>The system\<close>

definition running_tags :: "real \<Rightarrow> tags" where
  "running_tags g = [(''global_steps'', PNum g), (''status'', PStr ''running'')]"

definition success_tags :: "real \<Rightarrow> nat \<times> nat \<Rightarrow> tags" where
  "success_tags g = (\<lambda>(prompt_len, response_len).
     [(''global_steps'', PNum g), (''status'', PStr ''success''), (''prompt_len'', PNum (of_nat prompt_len)),
      (''response_len'', PNum (of_nat response_len)), (''seq_len'', PNum (of_nat (prompt_len + response_len)))])"

definition ended_tags :: "string \<Rightarrow> tags" where
  "ended_tags st = [(''status'', PStr st)]"

text \<open>
  \<open>owner\<close> is the step a prompt was submitted for, \<open>todo\<close> the sessions that have not ended, \<open>puts\<close> the sessions that have
  put their outputs, with the lengths of the prompt and the response of each, \<open>failed\<close> the prompts one of whose sessions
  has raised, \<open>sampled\<close> the last batch of the trainer and \<open>cleared\<close> the steps whose outputs it has begun to clear.
\<close>

record tq_state =
  queue :: "string \<rightharpoonup> tags"
  snapshot :: "tags dict option"
  partition :: "tags dict"
  owner :: "string \<rightharpoonup> real"
  todo :: "(string \<times> nat) set"
  puts :: "(string \<times> nat \<times> (nat \<times> nat) list) set"
  failed :: "string set"
  sampled :: "(real \<times> string list) option"
  cleared :: "real set"

definition tq_start :: tq_state where
  "tq_start = \<lparr>queue = Map.empty, snapshot = None, partition = [], owner = Map.empty, todo = {}, puts = {}, failed = {},
     sampled = None, cleared = {}\<rparr>"

text \<open>A prompt's name is never that of an output: it does not end in two numbers after underscores.\<close>

definition prompt_name :: "string \<Rightarrow> bool" where
  "prompt_name u \<longleftrightarrow> (\<forall>v i j. u \<noteq> output_key v i j)"

definition output_items :: "string \<Rightarrow> nat \<Rightarrow> (nat \<times> nat) list \<Rightarrow> real \<Rightarrow> tags dict" where
  "output_items u i ls g = map (\<lambda>j. (output_key u i j, success_tags g (ls ! j))) [0..<length ls]"

text \<open>
  The trainer marks its prompts as running when it submits them.  A session ends with its outputs, which may be none, or
  with an exception; the first exception of a prompt puts the mark \<open>failure\<close>, the end of the last session the mark
  \<open>finished\<close>.  The polling thread reads the whole queue first, and adds what it has read later.  The trainer clears the
  outputs it has sampled, or some of them first, from the queue and then from the buffer.
\<close>

inductive tq_step :: "tq_state \<Rightarrow> tq_state \<Rightarrow> bool" where
  submit: "distinct (map fst us) \<Longrightarrow> (\<And>u. u \<in> fst ` set us \<Longrightarrow> owner s u = None \<and> prompt_name u) \<Longrightarrow>
    tq_step s (s\<lparr>partition := add_items (partition s) (map (\<lambda>e. (fst e, running_tags g)) us),
      owner := (\<lambda>u. if u \<in> fst ` set us then Some g else owner s u),
      todo := todo s \<union> {(u, i). \<exists>n. (u, n) \<in> set us \<and> i < n}\<rparr>)"
| session: "(u, i) \<in> todo s \<Longrightarrow> owner s u = Some g \<Longrightarrow>
    tq_step s (s\<lparr>queue := queue s ++ map_of (output_items u i ls g), todo := todo s - {(u, i)}, puts := insert (u, i, ls) (puts s)\<rparr>)"
| finish: "owner s u = Some g \<Longrightarrow> u \<notin> failed s \<Longrightarrow> (\<And>i. (u, i) \<notin> todo s) \<Longrightarrow>
    tq_step s (s\<lparr>queue := (queue s)(u \<mapsto> ended_tags ''finished'')\<rparr>)"
| fail: "(u, i) \<in> todo s \<Longrightarrow>
    tq_step s (s\<lparr>queue := (if u \<in> failed s then queue s else (queue s)(u \<mapsto> ended_tags ''failure'')),
      todo := todo s - {(u, i)}, failed := insert u (failed s)\<rparr>)"
| poll_read: "distinct (map fst xs) \<Longrightarrow> map_of xs = queue s \<Longrightarrow> tq_step s (s\<lparr>snapshot := Some xs\<rparr>)"
| poll_add: "snapshot s = Some xs \<Longrightarrow> tq_step s (s\<lparr>partition := add_items (partition s) xs, snapshot := None\<rparr>)"
| sample: "sample_once (PNum g) None (partition s) = Inr (Some ks) \<Longrightarrow> tq_step s (s\<lparr>sampled := Some (g, map fst ks)\<rparr>)"
| kv_clear: "sampled s = Some (g, ks) \<Longrightarrow> set cs \<subseteq> set ks \<Longrightarrow>
    tq_step s (s\<lparr>queue := queue s |` (- set cs), cleared := insert g (cleared s)\<rparr>)"
| remove: "sampled s = Some (g, ks) \<Longrightarrow> set cs \<subseteq> set ks \<Longrightarrow> g \<in> cleared s \<Longrightarrow>
    tq_step s (s\<lparr>partition := remove_keys cs (partition s)\<rparr>)"

inductive tq_reachable :: "tq_state \<Rightarrow> bool" where
  tq_init: "tq_reachable tq_start"
| tq_next: "tq_reachable s \<Longrightarrow> tq_step s s' \<Longrightarrow> tq_reachable s'"


section \<open>The buffer's operations\<close>

lemma output_key_eq_iff [simp]: "output_key u i j = output_key v i' j' \<longleftrightarrow> u = v \<and> i = i' \<and> j = j'"
proof
  assume eq: "output_key u i j = output_key v i' j'"
  then have "rsplit CHR ''_'' 2 (output_key u i j) = rsplit CHR ''_'' 2 (output_key v i' j')"
    by (rule arg_cong)
  then show "u = v \<and> i = i' \<and> j = j'"
    by (simp only: rsplit_output_key list.inject dec_eq_iff)
qed simp

lemma map_of_add_items:
  "distinct (map fst xs) \<Longrightarrow> map_of (add_items p xs) k =
    (case map_of xs k of None \<Rightarrow> map_of p k
     | Some new \<Rightarrow> Some (update_tags (case map_of p k of None \<Rightarrow> [] | Some old \<Rightarrow> old) new))"
proof (induction p xs rule: add_items.induct)
  case (2 p key new items)
  then have "map_of items key = None"
    by (simp add: map_of_eq_None_iff)
  then show ?case
    using 2 by (cases "k = key") (simp_all add: dict_put_lookup split: option.split)
qed simp

lemma distinct_add_items: "distinct (map fst p) \<Longrightarrow> distinct (map fst (add_items p xs))"
  by (induction p xs rule: add_items.induct) (simp_all add: keys_dict_put del: set_map)

lemma map_of_remove_keys: "map_of (remove_keys ks p) k = (if k \<in> set ks then None else map_of p k)"
  by (induction p) (auto simp: remove_keys_def)

lemma distinct_remove_keys: "distinct (map fst p) \<Longrightarrow> distinct (map fst (remove_keys ks p))"
  unfolding remove_keys_def by (rule distinct_map_filter)

text \<open>What one pass finds, when every entry has a step and a status.\<close>

definition entry_at :: "py \<Rightarrow> string \<Rightarrow> string \<times> tags \<Rightarrow> bool" where
  "entry_at g st e \<longleftrightarrow> map_of (snd e) ''global_steps'' = Some g \<and> map_of (snd e) ''status'' = Some (PStr st)"

lemma scan_partition_eq:
  "\<forall>e \<in> set p. \<exists>g' st. entry_at g' st e \<Longrightarrow>
    scan_partition g p = Inr (if \<exists>e \<in> set p. entry_at g ''running'' e then None else Some (filter (entry_at g ''success'') p))"
proof (induction g p rule: scan_partition.induct)
  case (2 g key tag p)
  then obtain g' st where "map_of tag ''global_steps'' = Some g'" "map_of tag ''status'' = Some (PStr st)"
    by (auto simp: entry_at_def)
  then show ?case
    using 2 by (auto simp: entry_at_def split: if_splits)
qed simp

section \<open>What the queue, the snapshot and the buffer hold\<close>

definition prompt_tags :: "real \<Rightarrow> string \<Rightarrow> tags" where
  "prompt_tags g st = [(''global_steps'', PNum g), (''status'', PStr st)]"

definition done_prompt :: "tq_state \<Rightarrow> string \<Rightarrow> bool" where
  "done_prompt s u \<longleftrightarrow> u \<notin> failed s \<and> (\<forall>i. (u, i) \<notin> todo s)"

definition output_of :: "tq_state \<Rightarrow> string \<Rightarrow> tags \<Rightarrow> bool" where
  "output_of s key tag \<longleftrightarrow> (\<exists>u i ls j g. (u, i, ls) \<in> puts s \<and> j < length ls \<and> owner s u = Some g \<and>
     key = output_key u i j \<and> tag = success_tags g (ls ! j))"

definition mark_of :: "tq_state \<Rightarrow> string \<Rightarrow> string \<Rightarrow> bool" where
  "mark_of s u st \<longleftrightarrow> owner s u \<noteq> None \<and> (st = ''finished'' \<and> done_prompt s u \<or> st = ''failure'' \<and> u \<in> failed s)"

definition item_ok :: "tq_state \<Rightarrow> string \<Rightarrow> tags \<Rightarrow> bool" where
  "item_ok s key tag \<longleftrightarrow> output_of s key tag \<or> (\<exists>st. mark_of s key st \<and> tag = ended_tags st)"

definition entry_ok :: "tq_state \<Rightarrow> string \<Rightarrow> tags \<Rightarrow> bool" where
  "entry_ok s key tag \<longleftrightarrow> output_of s key tag \<or>
     (\<exists>g st. owner s key = Some g \<and> tag = prompt_tags g st \<and> (st = ''running'' \<or> mark_of s key st))"

definition outputs_in :: "tq_state \<Rightarrow> string \<Rightarrow> string set \<Rightarrow> bool" where
  "outputs_in s u K \<longleftrightarrow> (\<forall>i ls j. (u, i, ls) \<in> puts s \<longrightarrow> j < length ls \<longrightarrow> output_key u i j \<in> K)"

definition live :: "tq_state \<Rightarrow> string \<Rightarrow> real \<Rightarrow> bool" where
  "live s u g \<longleftrightarrow> owner s u = Some g \<and> g \<notin> cleared s"

definition names_inv :: "tq_state \<Rightarrow> bool" where
  "names_inv s \<longleftrightarrow> (\<forall>u. owner s u \<noteq> None \<longrightarrow> prompt_name u) \<and> (\<forall>(u, i) \<in> todo s. owner s u \<noteq> None) \<and>
     (\<forall>(u, i, ls) \<in> puts s. owner s u \<noteq> None)"

definition queue_inv :: "tq_state \<Rightarrow> bool" where
  "queue_inv s \<longleftrightarrow> (\<forall>k t. queue s k = Some t \<longrightarrow> item_ok s k t) \<and> (\<forall>u g. live s u g \<longrightarrow> outputs_in s u (dom (queue s)))"

definition snapshot_inv :: "tq_state \<Rightarrow> bool" where
  "snapshot_inv s \<longleftrightarrow> (\<forall>xs. snapshot s = Some xs \<longrightarrow> distinct (map fst xs) \<and> (\<forall>k t. map_of xs k = Some t \<longrightarrow> item_ok s k t) \<and>
     (\<forall>u g. live s u g \<longrightarrow> map_of xs u = Some (ended_tags ''finished'') \<longrightarrow> outputs_in s u (dom (map_of xs))))"

definition partition_inv :: "tq_state \<Rightarrow> bool" where
  "partition_inv s \<longleftrightarrow> distinct (map fst (partition s)) \<and> (\<forall>k t. map_of (partition s) k = Some t \<longrightarrow> entry_ok s k t) \<and>
     dom (owner s) \<subseteq> dom (map_of (partition s)) \<and>
     (\<forall>u g. live s u g \<longrightarrow> map_of (partition s) u = Some (prompt_tags g ''finished'') \<longrightarrow>
       outputs_in s u (dom (map_of (partition s))))"

definition sampled_inv :: "tq_state \<Rightarrow> bool" where
  "sampled_inv s \<longleftrightarrow> (\<forall>g ks k. sampled s = Some (g, ks) \<longrightarrow> k \<in> set ks \<longrightarrow> (\<exists>u i j. k = output_key u i j \<and> owner s u = Some g))"

definition tq_inv :: "tq_state \<Rightarrow> bool" where
  "tq_inv s \<longleftrightarrow> names_inv s \<and> queue_inv s \<and> snapshot_inv s \<and> partition_inv s \<and> sampled_inv s"

lemma running_tags_prompt: "running_tags g = prompt_tags g ''running''"
  by (simp add: running_tags_def prompt_tags_def)

lemma update_tags_eqs [simp]:
  "update_tags [] (running_tags g) = prompt_tags g ''running''"
  "update_tags [] (success_tags g l) = success_tags g l"
  "update_tags (success_tags g l') (success_tags g l) = success_tags g l"
  "update_tags (prompt_tags g st') (ended_tags st) = prompt_tags g st"
  by (simp_all add: update_tags_def running_tags_def prompt_tags_def success_tags_def ended_tags_def split: prod.splits)

lemma tags_differ [simp]:
  "success_tags g l \<noteq> prompt_tags g' st" "success_tags g l \<noteq> ended_tags st"
  "ended_tags st = ended_tags st' \<longleftrightarrow> st = st'" "prompt_tags g st = prompt_tags g' st' \<longleftrightarrow> g = g' \<and> st = st'"
  by (auto simp: prompt_tags_def success_tags_def ended_tags_def split: prod.splits)

lemma entry_at_tags [simp]:
  "entry_at g' st' (k, success_tags g l) \<longleftrightarrow> g' = PNum g \<and> st' = ''success''"
  "entry_at g' st' (k, prompt_tags g st) \<longleftrightarrow> g' = PNum g \<and> st' = st"
  by (cases l; auto simp: entry_at_def prompt_tags_def success_tags_def)+

lemma output_not_owned: "names_inv s \<Longrightarrow> owner s (output_key u i j) = None"
  by (metis names_inv_def prompt_name_def)

lemma output_of_not_owned: "names_inv s \<Longrightarrow> output_of s k t \<Longrightarrow> owner s k = None"
  by (auto simp: output_of_def output_not_owned)

text \<open>Steps add prompts, outputs and marks; a prompt that is done stays done and has no more outputs.\<close>

definition grows :: "tq_state \<Rightarrow> tq_state \<Rightarrow> bool" where
  "grows s s' \<longleftrightarrow> owner s \<subseteq>\<^sub>m owner s' \<and> puts s \<subseteq> puts s' \<and> failed s \<subseteq> failed s' \<and> cleared s \<subseteq> cleared s' \<and>
     (\<forall>u. owner s u \<noteq> None \<longrightarrow> done_prompt s u \<longrightarrow> done_prompt s' u \<and> (\<forall>i ls. (u, i, ls) \<in> puts s' \<longrightarrow> (u, i, ls) \<in> puts s))"

lemma step_grows: "tq_step s s' \<Longrightarrow> grows s s'"
proof (induction rule: tq_step.induct)
  case (submit us s g)
  then show ?case
    by (auto simp: grows_def done_prompt_def map_le_def image_iff) force+
qed (auto simp: grows_def done_prompt_def)

lemma grows_owner: "grows s s' \<Longrightarrow> owner s u = Some g \<Longrightarrow> owner s' u = Some g"
  by (metis domI grows_def map_le_def)

lemma grows_output_of: "grows s s' \<Longrightarrow> output_of s k t \<Longrightarrow> output_of s' k t"
  unfolding output_of_def using grows_owner grows_def[THEN iffD1, THEN conjunct2, THEN conjunct1, THEN subsetD] by blast

lemma grows_mark_of: "grows s s' \<Longrightarrow> mark_of s u st \<Longrightarrow> mark_of s' u st"
  using grows_owner[of s s' u] by (auto simp: mark_of_def grows_def)

lemma grows_item_ok: "grows s s' \<Longrightarrow> item_ok s k t \<Longrightarrow> item_ok s' k t"
  unfolding item_ok_def using grows_mark_of grows_output_of by blast

lemma grows_entry_ok: "grows s s' \<Longrightarrow> entry_ok s k t \<Longrightarrow> entry_ok s' k t"
  unfolding entry_ok_def using grows_mark_of grows_output_of grows_owner by blast

lemma grows_outputs_in: "grows s s' \<Longrightarrow> owner s u \<noteq> None \<Longrightarrow> done_prompt s u \<Longrightarrow> outputs_in s u K \<Longrightarrow> outputs_in s' u K"
  by (meson grows_def outputs_in_def)

lemma item_finished: "item_ok s u (ended_tags ''finished'') \<Longrightarrow> owner s u \<noteq> None \<and> done_prompt s u"
  by (auto simp: item_ok_def mark_of_def output_of_def dest: tags_differ(2)[THEN notE, OF sym])

lemma entry_finished: "entry_ok s u (prompt_tags g ''finished'') \<Longrightarrow> done_prompt s u \<and> owner s u = Some g"
  by (auto simp: entry_ok_def mark_of_def output_of_def dest: tags_differ(1)[THEN notE, OF sym])


section \<open>Every step keeps the invariant\<close>

lemma outputs_in_new: "names_inv s \<Longrightarrow> owner s u = None \<Longrightarrow> outputs_in s u K"
  by (fastforce simp: outputs_in_def names_inv_def)

lemma outputs_in_mono: "outputs_in s u K \<Longrightarrow> K \<subseteq> K' \<Longrightarrow> outputs_in s u K'"
  by (auto simp: outputs_in_def)

lemma grows_live: "grows s s' \<Longrightarrow> live s' u g \<Longrightarrow> owner s u \<noteq> None \<Longrightarrow> live s u g"
  unfolding live_def by (metis grows_def grows_owner not_None_eq option.inject subsetD)

lemma queue_step:
  assumes "grows s s'" "names_inv s" "queue_inv s" "puts s' = puts s"
    "\<And>k t. queue s' k = Some t \<Longrightarrow> queue s k = Some t \<or> item_ok s' k t"
    "\<And>u g. live s' u g \<Longrightarrow> outputs_in s u (dom (queue s)) \<Longrightarrow> outputs_in s u (dom (queue s'))"
  shows "queue_inv s'"
proof -
  have "item_ok s' k t" if "queue s' k = Some t" for k t
    using assms(3) assms(5)[OF that] grows_item_ok[OF assms(1)] by (auto simp: queue_inv_def)
  moreover have "outputs_in s' u (dom (queue s'))" if u: "live s' u g" for u g
  proof (cases "owner s u = None")
    case True
    then show ?thesis
      using outputs_in_new[OF assms(2)] assms(4) by (simp add: outputs_in_def)
  next
    case False
    then have "outputs_in s u (dom (queue s))"
      using grows_live[OF assms(1) u] assms(3) unfolding queue_inv_def by blast
    then show ?thesis
      using assms(6)[OF u] assms(4) by (simp add: outputs_in_def)
  qed
  ultimately show ?thesis
    by (simp add: queue_inv_def)
qed

lemma snapshot_step:
  assumes "grows s s'" "names_inv s" "snapshot_inv s" "snapshot s' = snapshot s"
  shows "snapshot_inv s'"
  unfolding snapshot_inv_def
proof (intro allI impI conjI)
  fix xs
  assume xs: "snapshot s' = Some xs"
  then have inv: "distinct (map fst xs)" "\<And>k t. map_of xs k = Some t \<Longrightarrow> item_ok s k t"
    "\<And>u g. live s u g \<Longrightarrow> map_of xs u = Some (ended_tags ''finished'') \<Longrightarrow> outputs_in s u (dom (map_of xs))"
    using assms(3,4) unfolding snapshot_inv_def by (simp, metis, metis)
  show "distinct (map fst xs)"
    by fact
  show "item_ok s' k t" if "map_of xs k = Some t" for k t
    using inv(2)[OF that] by (rule grows_item_ok[OF assms(1)])
  show "outputs_in s' u (dom (map_of xs))" if "live s' u g" "map_of xs u = Some (ended_tags ''finished'')" for u g
  proof -
    have "item_ok s u (ended_tags ''finished'')"
      by (rule inv(2)[OF that(2)])
    then have u: "owner s u \<noteq> None" "done_prompt s u"
      using item_finished by blast+
    show ?thesis
      by (rule grows_outputs_in[OF assms(1) u inv(3)[OF grows_live[OF assms(1) that(1) u(1)] that(2)]])
  qed
qed

lemma partition_step:
  assumes "grows s s'" "partition_inv s" "distinct (map fst (partition s'))"
    "dom (owner s') \<subseteq> dom (map_of (partition s'))"
    "\<And>k t. map_of (partition s') k = Some t \<Longrightarrow> map_of (partition s) k = Some t \<or> entry_ok s' k t"
    "\<And>u g. live s' u g \<Longrightarrow> map_of (partition s') u = Some (prompt_tags g ''finished'') \<Longrightarrow>
      owner s u = Some g \<and> done_prompt s u \<and>
      (map_of (partition s) u = Some (prompt_tags g ''finished'') \<and>
         (outputs_in s u (dom (map_of (partition s))) \<longrightarrow> outputs_in s u (dom (map_of (partition s'))))
       \<or> outputs_in s u (dom (map_of (partition s'))))"
  shows "partition_inv s'"
proof -
  have "entry_ok s' k t" if "map_of (partition s') k = Some t" for k t
    using assms(2) assms(5)[OF that] grows_entry_ok[OF assms(1)] by (auto simp: partition_inv_def)
  moreover have "outputs_in s' u (dom (map_of (partition s')))"
    if u: "live s' u g" "map_of (partition s') u = Some (prompt_tags g ''finished'')" for u g
  proof -
    have "live s u g"
      using assms(6)[OF u] by (auto intro: grows_live[OF assms(1) u(1)])
    then have "outputs_in s u (dom (map_of (partition s')))"
      using assms(2) assms(6)[OF u] by (auto simp: partition_inv_def)
    then show ?thesis
      using grows_outputs_in[OF assms(1)] assms(6)[OF u] by simp
  qed
  ultimately show ?thesis
    using assms(3,4) by (simp add: partition_inv_def)
qed

lemma partition_same:
  assumes "grows s s'" "partition_inv s" "partition s' = partition s" "dom (owner s') \<subseteq> dom (owner s)"
  shows "partition_inv s'"
proof (rule partition_step[OF assms(1,2)])
  fix u g
  assume u: "map_of (partition s') u = Some (prompt_tags g ''finished'')"
  then have "entry_ok s u (prompt_tags g ''finished'')"
    using assms(2,3) unfolding partition_inv_def by metis
  then show "owner s u = Some g \<and> done_prompt s u \<and>
      (map_of (partition s) u = Some (prompt_tags g ''finished'') \<and>
         (outputs_in s u (dom (map_of (partition s))) \<longrightarrow> outputs_in s u (dom (map_of (partition s'))))
       \<or> outputs_in s u (dom (map_of (partition s'))))"
    using u assms(3) entry_finished by simp
next
  show "dom (owner s') \<subseteq> dom (map_of (partition s'))"
    using assms(2-4) unfolding partition_inv_def by (metis order_trans)
qed (use assms(2,3) in \<open>simp_all add: partition_inv_def\<close>)

lemma sampled_step: "grows s s' \<Longrightarrow> sampled_inv s \<Longrightarrow> sampled s' = sampled s \<Longrightarrow> sampled_inv s'"
  unfolding sampled_inv_def by (metis grows_owner)

lemma step_names: "tq_step s s' \<Longrightarrow> names_inv s \<Longrightarrow> names_inv s'"
proof (induction rule: tq_step.induct)
  case (submit us s g)
  then show ?case
    unfolding names_inv_def by (auto simp: image_iff) force+
qed (auto simp: names_inv_def)

lemma step_queue:
  assumes "tq_step s s'" "names_inv s" "queue_inv s" "sampled_inv s"
  shows "queue_inv s'"
  using assms(1) step_grows[OF assms(1)] assms(2-)
proof (induction rule: tq_step.induct)
  case (submit us s g)
  then show ?case
    by (intro queue_step[OF submit.prems(1)]) simp_all
next
  case (session u i s g ls)
  let ?s = "s\<lparr>queue := queue s ++ map_of (output_items u i ls g), todo := todo s - {(u, i)}, puts := insert (u, i, ls) (puts s)\<rparr>"
  have new: "map_of (output_items u i ls g) k = Some t \<Longrightarrow> \<exists>j < length ls. k = output_key u i j \<and> t = success_tags g (ls ! j)" for k t
    by (drule map_of_SomeD) (auto simp: output_items_def)
  have "item_ok ?s k t" if q: "queue ?s k = Some t" for k t
  proof (cases "map_of (output_items u i ls g) k")
    case None
    then have "item_ok s k t"
      using that session.prems by (auto simp: queue_inv_def)
    then show ?thesis
      by (rule grows_item_ok[OF session.prems(1)])
  next
    case (Some t')
    then obtain j where j: "j < length ls" "k = output_key u i j" "t = success_tags g (ls ! j)"
      using new[OF Some] q Some by auto
    have "output_of ?s k t"
      unfolding output_of_def by (rule exI[of _ u], rule exI[of _ i], rule exI[of _ ls], rule exI[of _ j]) (use j session in simp)
    then show ?thesis
      by (simp add: item_ok_def)
  qed
  moreover have "dom (map_of (output_items u i ls g)) = output_key u i ` {..<length ls}"
    by (auto simp: dom_map_of_conv_image_fst output_items_def image_iff)
  then have "outputs_in ?s v (dom (queue ?s))" if "live ?s v h" for v h
    using that session.prems by (auto simp: queue_inv_def outputs_in_def live_def)
  ultimately show ?case
    unfolding queue_inv_def by blast
next
  case (finish s u g)
  then show ?case
    by (intro queue_step[OF finish.prems(1)])
      (auto simp: item_ok_def mark_of_def done_prompt_def split: if_splits elim: outputs_in_mono)
next
  case (fail u i s)
  then show ?case
    by (intro queue_step[OF fail.prems(1)])
      (auto simp: item_ok_def mark_of_def names_inv_def split: if_splits elim: outputs_in_mono)
next
  case (kv_clear s g ks cs)
  show ?case
  proof (rule queue_step[OF kv_clear.prems(1,2,3)])
    fix u g'
    assume "live (s\<lparr>queue := queue s |` (- set cs), cleared := insert g (cleared s)\<rparr>) u g'"
    then have "output_key u i j \<notin> set cs" for i j
      using kv_clear by (fastforce simp: sampled_inv_def live_def)
    then show "outputs_in s u (dom (queue s)) \<Longrightarrow>
        outputs_in s u (dom (queue (s\<lparr>queue := queue s |` (- set cs), cleared := insert g (cleared s)\<rparr>)))"
      by (simp add: outputs_in_def)
  qed (auto simp: restrict_map_def split: if_splits)
qed (auto intro: queue_step)

lemma step_snapshot:
  assumes "tq_step s s'" "names_inv s" "queue_inv s" "snapshot_inv s"
  shows "snapshot_inv s'"
  using assms(1) step_grows[OF assms(1)] assms(2-)
proof (induction rule: tq_step.induct)
  case (poll_read xs s)
  then show ?case
    by (auto simp: snapshot_inv_def queue_inv_def item_ok_def output_of_def mark_of_def done_prompt_def outputs_in_def live_def)
next
  case (poll_add s xs)
  show ?case
    by (simp add: snapshot_inv_def)
qed (rule snapshot_step; simp)+


lemma dom_add_items: "distinct (map fst xs) \<Longrightarrow> dom (map_of (add_items p xs)) = dom (map_of p) \<union> dom (map_of xs)"
  by (rule set_eqI) (simp add: domIff map_of_add_items del: map_of_eq_Some_iff split: option.split)

lemma entry_done: "partition_inv s \<Longrightarrow> map_of (partition s) u = Some (prompt_tags g ''finished'') \<Longrightarrow> owner s u = Some g \<and> done_prompt s u"
  using entry_finished unfolding partition_inv_def by metis

lemma submit_partition:
  assumes "names_inv s" "partition_inv s" "distinct (map fst us)" "\<And>u. u \<in> fst ` set us \<Longrightarrow> owner s u = None \<and> prompt_name u"
    and s': "s' = s\<lparr>partition := add_items (partition s) (map (\<lambda>e. (fst e, running_tags g)) us),
      owner := (\<lambda>u. if u \<in> fst ` set us then Some g else owner s u), todo := t\<rparr>"
    and "grows s s'"
  shows "partition_inv s'"
proof -
  let ?xs = "map (\<lambda>e. (fst e, running_tags g)) us"
  have xs: "distinct (map fst ?xs)"
    using assms(3) by (simp add: comp_def)
  have mo: "map_of ?xs k = (if k \<in> fst ` set us then Some (running_tags g) else None)" for k
    by (induction us) auto
  have new: "map_of (partition s) k = None" if k: "k \<in> fst ` set us" for k
  proof (rule ccontr)
    assume "map_of (partition s) k \<noteq> None"
    then obtain old where "entry_ok s k old"
      using assms(2) unfolding partition_inv_def by blast
    then show False
      using assms(4)[OF k] by (auto simp: entry_ok_def output_of_def prompt_name_def)
  qed
  have p': "map_of (partition s') k = (if k \<in> fst ` set us then Some (prompt_tags g ''running'') else map_of (partition s) k)" for k
    using new[of k] by (simp add: s' map_of_add_items[OF xs] mo)
  have o': "owner s' k = (if k \<in> fst ` set us then Some g else owner s k)" for k
    by (simp add: s')
  have le: "dom (map_of (partition s)) \<subseteq> dom (map_of (partition s'))"
    by (simp add: s' dom_add_items[OF xs])
  show ?thesis
  proof (rule partition_step[OF assms(6,2)])
    show "distinct (map fst (partition s'))"
      using assms(2) distinct_add_items by (simp add: s' partition_inv_def)
    have "dom (owner s) \<subseteq> dom (map_of (partition s))"
      using assms(2) by (simp add: partition_inv_def)
    then show "dom (owner s') \<subseteq> dom (map_of (partition s'))"
      by (auto simp: domIff p' o' subset_iff split: if_splits)
    show "map_of (partition s) k = Some t \<or> entry_ok s' k t" if "map_of (partition s') k = Some t" for k t
      using that by (auto simp: p' o' entry_ok_def split: if_splits)
    show "owner s u = Some h \<and> done_prompt s u \<and>
      (map_of (partition s) u = Some (prompt_tags h ''finished'') \<and>
         (outputs_in s u (dom (map_of (partition s))) \<longrightarrow> outputs_in s u (dom (map_of (partition s'))))
       \<or> outputs_in s u (dom (map_of (partition s'))))"
      if "map_of (partition s') u = Some (prompt_tags h ''finished'')" for u h
    proof -
      have u: "map_of (partition s) u = Some (prompt_tags h ''finished'')"
        using that by (simp add: p' split: if_splits)
      then show ?thesis
        using entry_done[OF assms(2) u] outputs_in_mono[OF _ le] by blast
    qed
  qed
qed

lemma added_entry:
  assumes "names_inv s" "partition_inv s" "item_ok s k new"
    and t: "t = update_tags (case map_of (partition s) k of None \<Rightarrow> [] | Some old \<Rightarrow> old) new"
  shows "entry_ok s k t"
    and "t = prompt_tags g ''finished'' \<Longrightarrow>
      map_of (partition s) k = Some (prompt_tags g ''finished'') \<or> new = ended_tags ''finished''"
proof -
  have old: "entry_ok s k old" if "map_of (partition s) k = Some old" for old
    using assms(2) that by (simp add: partition_inv_def)
  from assms(3) consider (is_output) "output_of s k new" | (is_mark) st where "mark_of s k st" "new = ended_tags st"
    by (auto simp: item_ok_def)
  then have "entry_ok s k t \<and> (t = prompt_tags g ''finished'' \<longrightarrow>
      map_of (partition s) k = Some (prompt_tags g ''finished'') \<or> new = ended_tags ''finished'')"
  proof cases
    case is_output
    have "owner s k = None"
      by (rule output_of_not_owned[OF assms(1) is_output])
    then have "t = new"
      unfolding t using is_output old by (fastforce simp: output_of_def entry_ok_def split: option.split)
    then show ?thesis
      using is_output by (auto simp: entry_ok_def output_of_def)
  next
    case is_mark
    then obtain h where h: "owner s k = Some h"
      by (auto simp: mark_of_def)
    then obtain o1 where o1: "map_of (partition s) k = Some o1"
      using assms(2) unfolding partition_inv_def by blast
    have "\<not> output_of s k o1"
      using output_of_not_owned[OF assms(1), of k o1] h by auto
    then obtain st0 where "o1 = prompt_tags h st0"
      using old[OF o1] h by (auto simp: entry_ok_def)
    then show ?thesis
      unfolding t using o1 is_mark h by (auto simp: entry_ok_def)
  qed
  then show "entry_ok s k t" "t = prompt_tags g ''finished'' \<Longrightarrow>
      map_of (partition s) k = Some (prompt_tags g ''finished'') \<or> new = ended_tags ''finished''"
    by blast+
qed

lemma poll_partition:
  assumes "names_inv s" "partition_inv s" "snapshot_inv s" "snapshot s = Some xs"
    and s': "s' = s\<lparr>partition := add_items (partition s) xs, snapshot := None\<rparr>"
    and "grows s s'"
  shows "partition_inv s'"
proof -
  have xs: "distinct (map fst xs)" and ok: "\<And>k t. map_of xs k = Some t \<Longrightarrow> item_ok s k t"
    and all: "\<And>u g. live s u g \<Longrightarrow> map_of xs u = Some (ended_tags ''finished'') \<Longrightarrow> outputs_in s u (dom (map_of xs))"
    using assms(3,4) unfolding snapshot_inv_def by (blast, blast, blast)
  have le: "dom (map_of (partition s)) \<subseteq> dom (map_of (partition s'))" "dom (map_of xs) \<subseteq> dom (map_of (partition s'))"
    by (auto simp: s' dom_add_items[OF xs])
  have s_entry: "entry_ok s' k t" if "entry_ok s k t" for k t
    by (rule grows_entry_ok[OF assms(6) that])
  show ?thesis
  proof (rule partition_step[OF assms(6,2)])
    show "distinct (map fst (partition s'))"
      using assms(2) distinct_add_items by (simp add: s' partition_inv_def)
    show "dom (owner s') \<subseteq> dom (map_of (partition s'))"
      using assms(2) le(1) unfolding partition_inv_def s' by (simp, meson order_trans)
    show "map_of (partition s) k = Some t \<or> entry_ok s' k t" if "map_of (partition s') k = Some t" for k t
    proof (cases "map_of xs k")
      case None
      then show ?thesis
        using that by (simp add: s' map_of_add_items[OF xs])
    next
      case (Some new)
      then have "entry_ok s k t"
        using added_entry(1)[OF assms(1,2) ok[OF Some] refl] that by (simp add: s' map_of_add_items[OF xs])
      then show ?thesis
        using s_entry by blast
    qed
    show "owner s u = Some h \<and> done_prompt s u \<and>
      (map_of (partition s) u = Some (prompt_tags h ''finished'') \<and>
         (outputs_in s u (dom (map_of (partition s))) \<longrightarrow> outputs_in s u (dom (map_of (partition s'))))
       \<or> outputs_in s u (dom (map_of (partition s'))))"
      if u: "live s' u h" "map_of (partition s') u = Some (prompt_tags h ''finished'')" for u h
    proof (cases "map_of (partition s) u = Some (prompt_tags h ''finished'')")
      case True
      then show ?thesis
        using entry_done[OF assms(2) True] outputs_in_mono[OF _ le(1)] by blast
    next
      case False
      then obtain new where new: "map_of xs u = Some new"
        "update_tags (case map_of (partition s) u of None \<Rightarrow> [] | Some old \<Rightarrow> old) new = prompt_tags h ''finished''"
        using u(2) by (auto simp: s' map_of_add_items[OF xs] split: option.splits)
      then have fin: "map_of xs u = Some (ended_tags ''finished'')"
        using added_entry(2)[OF assms(1,2) ok[OF new(1)] refl new(2)] False by simp
      then have "owner s u = Some h" "done_prompt s u" "live s u h"
        using item_finished[OF ok[OF fin]] u(1) by (auto simp: live_def s')
      then show ?thesis
        using all[OF _ fin] outputs_in_mono[OF _ le(2)] by blast
    qed
  qed
qed

lemma remove_partition:
  assumes "names_inv s" "partition_inv s" "sampled_inv s" "sampled s = Some (g, ks)" "set cs \<subseteq> set ks" "g \<in> cleared s"
    and s': "s' = s\<lparr>partition := remove_keys cs (partition s)\<rparr>"
    and "grows s s'"
  shows "partition_inv s'"
proof -
  have cs: "\<exists>u i j. k = output_key u i j \<and> owner s u = Some g" if "k \<in> set cs" for k
    using assms(3-5) that by (auto simp: sampled_inv_def)
  show ?thesis
  proof (rule partition_step[OF assms(8,2)])
    show "distinct (map fst (partition s'))"
      using assms(2) distinct_remove_keys by (simp add: s' partition_inv_def)
    have "dom (owner s) \<subseteq> dom (map_of (partition s))"
      using assms(2) by (simp add: partition_inv_def)
    moreover have "k \<notin> dom (owner s)" if "k \<in> set cs" for k
      using cs[OF that] output_not_owned[OF assms(1)] by auto
    ultimately show "dom (owner s') \<subseteq> dom (map_of (partition s'))"
      by (auto simp: domIff s' map_of_remove_keys subset_iff)
    show "map_of (partition s) k = Some t \<or> entry_ok s' k t" if "map_of (partition s') k = Some t" for k t
      using that by (simp add: s' map_of_remove_keys split: if_splits)
    show "owner s u = Some h \<and> done_prompt s u \<and>
      (map_of (partition s) u = Some (prompt_tags h ''finished'') \<and>
         (outputs_in s u (dom (map_of (partition s))) \<longrightarrow> outputs_in s u (dom (map_of (partition s'))))
       \<or> outputs_in s u (dom (map_of (partition s'))))"
      if u: "live s' u h" "map_of (partition s') u = Some (prompt_tags h ''finished'')" for u h
    proof -
      have old: "map_of (partition s) u = Some (prompt_tags h ''finished'')"
        using u(2) by (simp add: s' map_of_remove_keys split: if_splits)
      have "output_key u i j \<notin> set cs" for i j
        using cs[of "output_key u i j"] u(1) assms(6) by (auto simp: live_def s')
      then have "outputs_in s u (dom (map_of (partition s))) \<longrightarrow> outputs_in s u (dom (map_of (partition s')))"
        by (simp add: outputs_in_def s' domIff map_of_remove_keys)
      then show ?thesis
        using entry_done[OF assms(2) old] old by blast
    qed
  qed
qed

lemma step_partition:
  assumes "tq_step s s'" "names_inv s" "partition_inv s" "snapshot_inv s" "sampled_inv s"
  shows "partition_inv s'"
  using assms(1) step_grows[OF assms(1)] assms(2-)
proof (induction rule: tq_step.induct)
  case (submit us s g)
  show ?case
    by (rule submit_partition[OF submit.prems(2,3) submit.hyps refl submit.prems(1)])
next
  case (poll_add s xs)
  show ?case
    by (rule poll_partition[OF poll_add.prems(2,3,4) poll_add.hyps refl poll_add.prems(1)])
next
  case (remove s g ks cs)
  show ?case
    by (rule remove_partition[OF remove.prems(2,3,5) remove.hyps refl remove.prems(1)])
qed (erule (1) partition_same; simp)+


section \<open>What the trainer samples\<close>

lemma entry_has_step: "entry_ok s k t \<Longrightarrow> \<exists>g st. entry_at g st (k, t)"
  by (auto simp: entry_ok_def output_of_def)

lemma sample_result:
  assumes "partition_inv s"
  shows "sample_once (PNum g) None (partition s) =
    Inr (if \<exists>e \<in> set (partition s). entry_at (PNum g) ''running'' e then None
         else Some (filter (entry_at (PNum g) ''success'') (partition s)))"
proof -
  have "\<forall>e \<in> set (partition s). \<exists>g' st. entry_at g' st e"
    using assms entry_has_step[of s] unfolding partition_inv_def by (metis map_of_is_SomeI prod.collapse)
  then show ?thesis
    by (simp add: sample_once_def scan_partition_eq)
qed

lemma sampled_output:
  assumes "partition_inv s" "sample_once (PNum g) None (partition s) = Inr (Some ks)" "(key, tag) \<in> set ks"
  shows "\<exists>u i ls j. owner s u = Some g \<and> (u, i, ls) \<in> puts s \<and> j < length ls \<and> key = output_key u i j \<and> tag = success_tags g (ls ! j)"
proof -
  have "(key, tag) \<in> set (partition s)" and at: "entry_at (PNum g) ''success'' (key, tag)"
    using assms(2,3) by (auto simp: sample_result[OF assms(1)] split: if_splits)
  then have "entry_ok s key tag"
    using assms(1) by (simp add: partition_inv_def)
  then have "output_of s key tag"
    using at by (auto simp: entry_ok_def mark_of_def)
  then show ?thesis
    using at unfolding output_of_def by auto blast
qed

lemma step_sampled:
  assumes "tq_step s s'" "partition_inv s" "sampled_inv s"
  shows "sampled_inv s'"
  using assms(1) step_grows[OF assms(1)] assms(2-)
proof (induction rule: tq_step.induct)
  case (sample g s ks)
  show ?case
    unfolding sampled_inv_def using sampled_output[OF sample.prems(2) sample.hyps] by fastforce
qed (erule (1) sampled_step; simp)+

lemma reachable_inv: "tq_reachable s \<Longrightarrow> tq_inv s"
proof (induction rule: tq_reachable.induct)
  case tq_init
  show ?case
    by (simp add: tq_inv_def tq_start_def names_inv_def queue_inv_def snapshot_inv_def partition_inv_def sampled_inv_def live_def)
next
  case (tq_next s s')
  then show ?case
    unfolding tq_inv_def using step_names step_queue step_snapshot step_partition step_sampled by blast
qed

lemma sample_total: "tq_reachable s \<Longrightarrow> \<exists>r. sample_once (PNum g) None (partition s) = Inr r"
  using reachable_inv[of s] sample_result[of s g] by (auto simp: tq_inv_def)

text \<open>
  C34. Whatever the order of the workers, the polling thread and the trainer, \<open>sample\<close> returns for a step that has
  not been cleared only when every session of every prompt of the step whose sessions did not raise has ended, and then
  it returns all the outputs of these prompts, each once, with the tags they were put with, and nothing but outputs of
  prompts of the step.
\<close>
theorem sample_complete:
  assumes "tq_reachable s" "g \<notin> cleared s" "sample_once (PNum g) None (partition s) = Inr (Some ks)"
  shows "distinct (map fst ks) \<and>
    (\<forall>u. owner s u = Some g \<longrightarrow> u \<notin> failed s \<longrightarrow>
      (\<forall>i. (u, i) \<notin> todo s) \<and> (\<forall>i ls j. (u, i, ls) \<in> puts s \<longrightarrow> j < length ls \<longrightarrow> output_key u i j \<in> fst ` set ks)) \<and>
    (\<forall>(key, tag) \<in> set ks. \<exists>u i ls j. owner s u = Some g \<and> (u, i, ls) \<in> puts s \<and> j < length ls \<and>
      key = output_key u i j \<and> tag = success_tags g (ls ! j))"
proof (intro conjI allI impI)
  have inv: "names_inv s" "partition_inv s"
    using reachable_inv[OF assms(1)] by (simp_all add: tq_inv_def)
  then have part: "distinct (map fst (partition s))" "\<And>k t. map_of (partition s) k = Some t \<Longrightarrow> entry_ok s k t"
    "dom (owner s) \<subseteq> dom (map_of (partition s))"
    "\<And>u. live s u g \<Longrightarrow> map_of (partition s) u = Some (prompt_tags g ''finished'') \<Longrightarrow> outputs_in s u (dom (map_of (partition s)))"
    unfolding partition_inv_def by (blast, blast, blast, blast)
  have ks: "ks = filter (entry_at (PNum g) ''success'') (partition s)"
    and idle: "\<And>k t. map_of (partition s) k = Some t \<Longrightarrow> \<not> entry_at (PNum g) ''running'' (k, t)"
    using assms(3) map_of_SomeD[of "partition s"] by (auto simp: sample_result[OF inv(2)] split: if_splits)
  show "distinct (map fst ks)"
    unfolding ks by (rule distinct_map_filter[OF part(1)])
  show "\<forall>(key, tag) \<in> set ks. \<exists>u i ls j. owner s u = Some g \<and> (u, i, ls) \<in> puts s \<and> j < length ls \<and>
      key = output_key u i j \<and> tag = success_tags g (ls ! j)"
    using sampled_output[OF inv(2) assms(3)] by blast
  fix u
  assume u: "owner s u = Some g" "u \<notin> failed s"
  then obtain t where t: "map_of (partition s) u = Some t"
    using part(3) by blast
  have "\<not> output_of s u t"
    using output_of_not_owned[OF inv(1), of u t] u by auto
  then have "t = prompt_tags g ''finished''"
    using part(2)[OF t] u idle[OF t] by (auto simp: entry_ok_def mark_of_def)
  then have fin: "map_of (partition s) u = Some (prompt_tags g ''finished'')"
    using t by simp
  show "(u, i) \<notin> todo s" for i
    using entry_done[OF inv(2) fin] by (simp add: done_prompt_def)
  show "output_key u i j \<in> fst ` set ks" if put: "(u, i, ls) \<in> puts s" "j < length ls" for i ls j
  proof -
    have "live s u g"
      using u assms(2) by (simp add: live_def)
    then obtain tag where tag: "map_of (partition s) (output_key u i j) = Some tag"
      using part(4)[OF _ fin] put unfolding outputs_in_def by blast
    then have "output_of s (output_key u i j) tag"
      using part(2)[OF tag] output_not_owned[OF inv(1)] by (simp add: entry_ok_def)
    then have "entry_at (PNum g) ''success'' (output_key u i j, tag)"
      using u by (auto simp: output_of_def)
    then show ?thesis
      unfolding ks using map_of_SomeD[OF tag] by force
  qed
qed


section \<open>A run, and a stale read\<close>

text \<open>One prompt with one session of one output, until the buffer holds both; the poll of \<open>late_read\<close> is read but not added.\<close>

definition demo_queue :: "string \<rightharpoonup> tags" where
  "demo_queue = [output_key ''p'' 0 0 \<mapsto> success_tags 1 (2, 3), ''p'' \<mapsto> ended_tags ''finished'']"

definition demo_items :: "tags dict" where
  "demo_items = [(output_key ''p'' 0 0, success_tags 1 (2, 3)), (''p'', ended_tags ''finished'')]"

definition demo_entries :: "tags dict" where
  "demo_entries = [(''p'', prompt_tags 1 ''finished''), (output_key ''p'' 0 0, success_tags 1 (2, 3))]"

definition demo_state :: tq_state where
  "demo_state = \<lparr>queue = demo_queue, snapshot = None, partition = demo_entries, owner = [''p'' \<mapsto> 1], todo = {},
     puts = {(''p'', 0, [(2, 3)])}, failed = {}, sampled = None, cleared = {}\<rparr>"

lemma p_not_output [simp]: "output_key v i j \<noteq> ''p''" "''p'' \<noteq> output_key v i j"
proof -
  have "CHR ''_'' \<in> set (output_key v i j)"
    by (simp add: output_key_def)
  then show "output_key v i j \<noteq> ''p''"
    by auto
  then show "''p'' \<noteq> output_key v i j"
    by metis
qed

lemma demo_items_queue: "distinct (map fst demo_items)" "map_of demo_items = demo_queue"
  by (auto simp: demo_items_def demo_queue_def)

lemma demo_added: "add_items [(''p'', prompt_tags 1 ''running'')] demo_items = demo_entries"
  "add_items [(''p'', prompt_tags 1 ''finished'')] demo_items = demo_entries"
  by (simp_all add: demo_items_def demo_entries_def)

lemma demo_scan: "sample_once (PNum 1) None demo_entries = Inr (Some [(output_key ''p'' 0 0, success_tags 1 (2, 3))])"
  by (simp add: sample_once_def demo_entries_def prompt_tags_def success_tags_def)

lemma demo_reachable: "tq_reachable demo_state"
proof -
  let ?s1 = "tq_start\<lparr>partition := [(''p'', prompt_tags 1 ''running'')], owner := [''p'' \<mapsto> 1], todo := {(''p'', 0)}\<rparr>"
  let ?s2 = "?s1\<lparr>queue := [output_key ''p'' 0 0 \<mapsto> success_tags 1 (2, 3)], todo := {}, puts := {(''p'', 0, [(2, 3)])}\<rparr>"
  let ?s3 = "?s2\<lparr>queue := demo_queue\<rparr>"
  have "tq_step tq_start ?s1"
    using submit[of "[(''p'', 1)]" tq_start 1]
    by (simp add: tq_start_def prompt_name_def fun_upd_def cong: if_cong)
  then have "tq_reachable ?s1"
    by (rule tq_next[OF tq_init])
  moreover have "tq_step ?s1 ?s2"
    using session[of "''p''" 0 ?s1 1 "[(2, 3)]"] by (simp add: output_items_def tq_start_def)
  ultimately have "tq_reachable ?s2"
    by (rule tq_next)
  moreover have "tq_step ?s2 ?s3"
    using finish[of ?s2 "''p''" 1] by (simp add: tq_start_def demo_queue_def)
  ultimately have "tq_reachable ?s3"
    by (rule tq_next)
  then have "tq_reachable (?s3\<lparr>snapshot := Some demo_items\<rparr>)"
    by (rule tq_next) (rule poll_read, simp_all add: demo_items_queue)
  moreover have "tq_step (?s3\<lparr>snapshot := Some demo_items\<rparr>) demo_state"
    using poll_add[of "?s3\<lparr>snapshot := Some demo_items\<rparr>" demo_items]
    by (simp add: demo_added demo_state_def tq_start_def)
  ultimately show ?thesis
    by (rule tq_next)
qed

theorem sample_complete_witness:
  "\<exists>ks. sample_once (PNum 1) None (partition demo_state) = Inr (Some ks) \<and> distinct (map fst ks) \<and>
     (''p'', 0) \<notin> todo demo_state \<and> output_key ''p'' 0 0 \<in> fst ` set ks"
proof -
  let ?ks = "[(output_key ''p'' 0 0, success_tags 1 (2, 3))]"
  have ks: "1 \<notin> cleared demo_state" "sample_once (PNum 1) None (partition demo_state) = Inr (Some ?ks)"
    "owner demo_state ''p'' = Some 1" "''p'' \<notin> failed demo_state" "(''p'', 0, [(2, 3)]) \<in> puts demo_state"
    using demo_scan by (simp_all add: demo_state_def)
  note all = sample_complete[OF demo_reachable ks(1,2)]
  have "distinct (map fst ?ks)"
    using all by blast
  moreover have "(''p'', 0) \<notin> todo demo_state" "output_key ''p'' 0 0 \<in> fst ` set ?ks"
    using all[THEN conjunct2, THEN conjunct1, rule_format, OF ks(3,4)] ks(5) by auto
  ultimately show ?thesis
    using ks(2) by blast
qed

text \<open>
  The condition on the step is needed: a read of the queue from before the trainer cleared it, added after the removal,
  brings the outputs back, and the next \<open>sample\<close> for the same step number (the next batch of a validation) returns keys
  the queue no longer has.
\<close>

lemma stale_read_revives_cleared:
  "\<exists>s key tag. tq_reachable s \<and> snapshot s = None \<and> 1 \<in> cleared s \<and>
     sample_once (PNum 1) None (partition s) = Inr (Some [(key, tag)]) \<and> queue s key = None"
proof -
  let ?key = "output_key ''p'' 0 0"
  let ?a = "demo_state\<lparr>snapshot := Some demo_items\<rparr>"
  let ?b = "?a\<lparr>sampled := Some (1, [?key])\<rparr>"
  let ?c = "?b\<lparr>queue := [''p'' \<mapsto> ended_tags ''finished''], cleared := {1}\<rparr>"
  let ?d = "?c\<lparr>partition := [(''p'', prompt_tags 1 ''finished'')]\<rparr>"
  let ?e = "?d\<lparr>partition := demo_entries, snapshot := None\<rparr>"
  have "tq_step demo_state ?a"
    by (rule poll_read) (simp_all add: demo_items_queue demo_state_def)
  then have "tq_reachable ?a"
    by (rule tq_next[OF demo_reachable])
  moreover have "tq_step ?a ?b"
    using sample[of 1 ?a "[(?key, success_tags 1 (2, 3))]"] demo_scan by (simp add: demo_state_def)
  ultimately have "tq_reachable ?b"
    by (rule tq_next)
  moreover have "demo_queue |` (- {?key}) = [''p'' \<mapsto> ended_tags ''finished'']"
    by (auto simp: demo_queue_def restrict_map_def)
  then have "tq_step ?b ?c"
    using kv_clear[of ?b 1 "[?key]" "[?key]"] by (simp add: demo_state_def)
  ultimately have "tq_reachable ?c"
    by (rule tq_next)
  moreover have "tq_step ?c ?d"
    using remove[of ?c 1 "[?key]" "[?key]"] by (simp add: demo_state_def demo_entries_def remove_keys_def)
  ultimately have "tq_reachable ?d"
    by (rule tq_next)
  moreover have "tq_step ?d ?e"
    using poll_add[of ?d demo_items] by (simp add: demo_added)
  ultimately have "tq_reachable ?e"
    by (rule tq_next)
  then show ?thesis
    using demo_scan by (intro exI[of _ ?e] exI[of _ ?key] exI[of _ "success_tags 1 (2, 3)"]) simp
qed

end
