(* ===== verification/Spec2Isabelle.thy ===== *)
theory Spec2Isabelle
  imports Seqlen_Balancing Greedy_Partition Micro_Batching Group_Partition Evidence_Gating Advantages
    Token_Returns Policy_Losses Distillation_Loss Distillation_Config Ovo_Scoring Recent_Window Dispatch
    Tool_Agent_Loop Async_Rollout Frame_Superset Agent_Batch Rollout_Correction
    Load_Balancer Partial_Rollout Rate_Limiter Train_Loop Replay_Buffer
begin

text \<open>
  StreamOPD trains a streaming video model by on-policy distillation: rollout workers let the student
  answer questions about a video, a teacher model scores the same answers (on denser frames, with a
  visual cue, or on a degraded video), and the trainer turns the two sets of log-probabilities and the
  rewards into a loss.  The training framework is a copy of verl (\<open>verl/verl\<close>) with the distillation
  parts added; \<open>streamopd\<close> holds the evaluation of streaming models.

  \<^bold>\<open>The path of a sample, and the theories.\<close>

  \<^item> \<open>Tool_Agent_Loop\<close>: \<open>experimental/agent_loop/tool_agent_loop.py\<close>.  The state machine PENDING,
    GENERATING, PROCESSING_TOOLS, TERMINATED of a trajectory over a record of the agent's data; one handler
    per state, the call of a tool with the creation and release of its instance, and the output.  The
    loop runs on fuel \<open>2 * response_length + 2\<close>; the termination theorem shows that this is enough for
    every server and every tool, since each generation extends the response or ends the loop.
  \<^item> \<open>Message_Queue\<close> and \<open>Async_Rollout\<close>: \<open>experimental/fully_async_policy\<close>.  The bounded queue between
    rollouter and trainer as a locale with the actor's methods as its interpretation, and the
    rollouter's feeder, processor, tasks, monitor and resets as an inductive step relation, with the
    conservation of samples, the bound on staleness and the reachability of the end.  The pending queue
    has the 128 places of the source.
  \<^item> \<open>Frame_Superset\<close>: \<open>utils/dataset/frame_superset.py\<close> and the negative view by shuffling: which frames
    the teacher sees.
  \<^item> \<open>Teacher_Views\<close>: the log-probabilities a vLLM or SGLang server reports for a prompt, the teacher
    manager (\<open>experimental/teacher_loop/teacher_manager.py\<close>) that aligns them with the student's sequence,
    and the views (teacher, base, dense base, negative, without cue) a sample gets.
  \<^item> \<open>Agent_Batch\<close>: \<open>AgentLoopWorker\<close> in \<open>experimental/agent_loop/agent_loop.py\<close>, from the output of a
    trajectory to the padded batch, and \<open>workers/utils/padding.py\<close>, which removes and restores the padding.
    Its theorems follow a row from the server to the loss and to the gates.
  \<^item> \<open>Load_Balancer\<close> and \<open>Partial_Rollout\<close>: \<open>workers/rollout/llm_server.py\<close>, the client and the replica
    manager of \<open>experimental/fully_async_policy/fully_async_rollouter.py\<close>, and \<open>generate\<close> of the vLLM server.  The
    balancer's actor as a state with the interleaved calls of all clients as a step relation; the loop that
    resumes an aborted generation runs on fuel, and any number above the measure of the engine, which falls with
    every abort, is enough.
  \<^item> \<open>Rate_Limiter\<close>: \<open>experimental/reward_loop/reward_manager/limited.py\<close>, a token bucket with callers that enter
    and wake at times of their own as a step relation, and the reward manager around it.
  \<^item> \<open>Data_Proto\<close> and \<open>Dispatch\<close>: the batch protocol \<open>protocol.py\<close> and the dispatch of worker calls
    (\<open>single_controller\<close>).  A batch is a record of columns; its operations are shown to be the list
    operations on its rows, and a call over a device mesh to be a map over the rows.
  \<^item> \<open>Seqlen_Balancing\<close>, \<open>Heap_Queue\<close>, \<open>Greedy_Partition\<close>, \<open>Micro_Batching\<close>, \<open>Group_Partition\<close>:
    \<open>utils/seqlen_balancing.py\<close>.  The Karmarkar-Karp differencing method over a priority queue (a locale
    interpreted on the list heap), the greedy variant, and the micro-batches and groups built on them;
    machine workloads are 64-bit words where the source computes with tensors.
  \<^item> \<open>Advantages\<close>, \<open>Token_Returns\<close>, \<open>Policy_Losses\<close>: \<open>trainer/ppo/core_algos.py\<close>.  The advantage
    estimators, the returns with GAE, the KL controllers, the registered policy losses, the value loss and
    the aggregation; \<open>Tensor_Ops\<close> holds the masked reductions of \<open>utils/torch_functional.py\<close>.
  \<^item> \<open>Optimal_Baseline\<close>: the two estimators of \<open>core_algos.py\<close> that subtract a baseline weighted by the energy
    of the gradient, for single turns and for several turns per trajectory.
  \<^item> \<open>Train_Step\<close>: \<open>trainer/ppo/ray_trainer.py\<close>.  What the driver does to a batch between the rollout and
    the update: the response mask, the KL penalty on the rewards, the advantages through the registry of
    estimators, the reweighting of PF-PPO, and the order in which the rows are spread over the workers.
    Two locales say which estimators do not depend on the order of the rows; the theorems join them to the
    balancing of \<open>Group_Partition\<close>.
  \<^item> \<open>Checkpoints\<close> and \<open>Train_Loop\<close>: \<open>utils/checkpoint\<close> and \<open>fit\<close> of the driver.  A save is a list of operations
    on a map from paths to nodes, so a process killed in the middle has run a prefix of it; the loop runs on fuel, and
    the batches of all epochs plus the epochs are enough.  The theorems give the outcome of a load after every prefix,
    the steps a run executes, and that a resumed run ends like the one that was not killed.  The data loader
    is an argument with the contract \<open>loader_ok\<close>.
  \<^item> \<open>Multi_Trajectory\<close> and \<open>Replay_Buffer\<close>: \<open>trainer/main_ppo_sync.py\<close>.  The advantages of sessions with several
    outputs, and the buffer through which the outputs reach the trainer: \<open>add\<close>, \<open>remove\<close> and \<open>sample\<close>, and a step
    relation for the workers, the polling thread and the trainer around the transfer queue.  The invariant gives
    that a sampled step is complete; \<open>stale_read_revives_cleared\<close> shows why the step must not have been cleared.
    \<open>Text_Numbers\<close> has the text functions for the names of outputs and checkpoints.
  \<^item> \<open>Rollout_Correction\<close>: \<open>trainer/ppo/rollout_corr_helper.py\<close> and the loss \<open>bypass_mode\<close>.  Importance
    weights and rejection masks for the gap between the trained and the generating policy, their thresholds
    and metrics; on policy they are shown to change nothing.
  \<^item> \<open>Evidence_Gating\<close>, \<open>Distillation_Loss\<close>, \<open>Distillation_Config\<close>: \<open>trainer/distillation\<close> and
    \<open>workers/config/distillation.py\<close>.  The evidence and cue gates, the composition of a micro-batch loss
    (clamps, extrapolation, gates, policy gradient or supervised) and the validation of the configuration.
  \<^item> \<open>Recent_Window\<close> and \<open>Ovo_Scoring\<close>: \<open>streamopd/streaming\<close>, \<open>streamopd/scoring\<close>.  Decoding a video to
    chunks, the window of recent frames, the exact tail decoder, and the prompts and scorers of OVO-Bench.
  \<^item> \<open>Prelude\<close>: errors as a sum (\<open>res\<close>), Python's slices, sorts and rounding, and the lemmas shared by all.

  \<^bold>\<open>Conventions.\<close>  A function of the source has one definition of the same name; a raised exception is a left
  value of \<open>py_error + 'a\<close>, in the order in which the source raises.  A tensor is the list of its
  rows.  Floats are reals: rounding, infinities and NaN are outside the model except where a NaN is
  reached by a division the source performs (those results are options).  Dictionaries whose order
  matters are association lists.  Code outside the repository (inference servers, tokenizers, chat
  templates, video decoders, processors, tools) is an argument of the definitions; what a theorem
  needs of it is a hypothesis, such as \<open>pads_with\<close> for the padding of a tokenizer, and has a witness
  with a concrete function: so for the cache of sessions (\<open>lru_laws\<close>) and for an inference
  engine that continues its own answers (\<open>engine_ok\<close>).

  \<^bold>\<open>What the lemmas show.\<close>  Every component has the invariants of its state (the heap, the greedy
  partitions, the agent's data, the queue, the rollouter), the behaviour of its operations on every branch,
  errors included, and where the code has two forms of one computation their equivalence (loop
  and vectorised estimators, vLLM and SGLang extraction, loss and its sharded form, tail and full
  decoding).  Behaviour that contradicts the documentation is stated as what the code does: the gates
  that compare the views one token late, the lost first score of a teacher with another prompt
  (\<open>Agent_Batch\<close>), padding left in the caller's batch (\<open>Dispatch\<close>), a sample dropped by a reset
  (\<open>Async_Rollout\<close>), a division by zero when every weight is cut (\<open>Rollout_Correction\<close>),
  a normalisation flag the vectorised estimator never receives (\<open>Train_Step\<close>), a checkpoint removed before the
  tracker names its successor (\<open>Checkpoints\<close>), an epoch order that starts again after a resume (\<open>Train_Loop\<close>),
  cleared outputs brought back by a stale poll (\<open>Replay_Buffer\<close>),
  a busy server taken for idle (\<open>Load_Balancer\<close>), a resumed request with a fresh budget (\<open>Partial_Rollout\<close>), clamps ignored under extrapolation (\<open>Distillation_Loss\<close>).

  \<^bold>\<open>Not modelled.\<close>  Model code, kernels, quantisation and the training engines (tensor programs over torch,
  Megatron and vendor libraries, whose behaviour the sources only call); process orchestration by ray
  and the transport of the servers; the formats of checkpoints, profiling, tracking and other input and output; the
  upstream graders of mathematics and code; configuration classes without logic.  Of the trainers, \<open>Train_Step\<close>
  has the computations of the driver on a batch and \<open>Train_Loop\<close> its schedule; of \<open>main_ppo_sync.py\<close> the two theories named
  above are modelled; the other trainers are variants of that driver, and the calls that build worker groups and pools are not modelled.
\<close>

end
